(* ===== verification/Rash_Prelude.thy ===== *)
theory Rash_Prelude
  imports Main "HOL-Library.Word" "HOL-Library.Char_ord" "HOL-Library.Signed_Division"
begin

text \<open>
  Shared material of the development: the collections of rewrite rules the component
  proofs draw on, and generic facts on lists and options that several components need.
  Strings of the C code are Isabelle strings (lists of characters, one per byte, the
  terminating NUL left out).
\<close>

unbundle bit_operations_syntax

text \<open>Rules that unfold a component's operations; proofs name them in bulk.\<close>

named_theorems ops_simps

text \<open>Rules that keep a component's invariant.\<close>

named_theorems inv_intros

type_synonym cstring = string

section \<open>Lists\<close>

lemma find_None_iff_all: "List.find P xs = None \<longleftrightarrow> (\<forall>x\<in>set xs. \<not> P x)"
  by (auto simp: find_None_iff)

lemma find_Some_in_set: "List.find P xs = Some x \<Longrightarrow> x \<in> set xs \<and> P x"
  by (auto simp: find_Some_iff)

text \<open>When at most one element satisfies the test, the order of the list does not matter.\<close>

lemma find_unique:
  assumes "x \<in> set xs" and "P x" and "\<And>y. y \<in> set xs \<Longrightarrow> P y \<Longrightarrow> y = x"
  shows "List.find P xs = Some x"
proof (cases "List.find P xs")
  case None
  with assms(1,2) show ?thesis by (simp add: find_None_iff_all)
next
  case (Some y)
  with assms(3) [of y] show ?thesis by (auto dest: find_Some_in_set)
qed

lemma concat_split_at:
  assumes "i < length xss"
  shows "concat xss = concat (take i xss) @ xss ! i @ concat (drop (Suc i) xss)"
  using assms by (metis append_Cons append_Nil append_assoc concat.simps(2) concat_append id_take_nth_drop)

lemma concat_update_at:
  assumes "i < length xss"
  shows "concat (xss[i := ys]) = concat (take i xss) @ ys @ concat (drop (Suc i) xss)"
  using assms by (simp add: upd_conv_take_nth_drop)

lemma in_set_concat_nth:
  "x \<in> set (concat xss) \<longleftrightarrow> (\<exists>i<length xss. x \<in> set (xss ! i))"
  by (auto simp: in_set_conv_nth) (metis in_set_conv_nth)+

lemma concat_map_Nil [simp]: "concat (map (\<lambda>_. []) xs) = []"
  by (induction xs) auto

lemma distinct_map_eqD:
  assumes "distinct (map f xs)" and "x \<in> set xs" and "y \<in> set xs" and "f x = f y"
  shows "x = y"
  using assms by (induction xs) (auto simp: image_iff)

section \<open>C integers and decimal text\<close>

text \<open>The conversion of an integer to \<open>int\<close>: the low 32 bits read as two's complement.\<close>

definition c_int :: "int \<Rightarrow> int" where
  "c_int x = signed_take_bit 31 x"

lemma c_int_id: "- (2 ^ 31) \<le> x \<Longrightarrow> x < 2 ^ 31 \<Longrightarrow> c_int x = x"
  unfolding c_int_def by (rule signed_take_bit_int_eq_self) auto

definition digit_char :: "nat \<Rightarrow> char" where
  "digit_char d = char_of (48 + d)"

fun show_nat :: "nat \<Rightarrow> cstring" where
  "show_nat n = (if n < 10 then [digit_char n] else show_nat (n div 10) @ [digit_char (n mod 10)])"

declare show_nat.simps [simp del]

definition show_int :: "int \<Rightarrow> cstring" where
  "show_int n = (if n < 0 then CHR 0x2D # show_nat (nat (- n)) else show_nat (nat n))"

section \<open>The keyed-store interface\<close>

text \<open>
  What the clients of a table of strings rely on: a lookup after a store or a deletion
  answers like a finite map, every operation keeps the table's invariant, and the entry
  counter is the number of keys.
\<close>

locale string_map =
  fixes lookup :: "'t \<Rightarrow> cstring \<Rightarrow> 'v option"
    and store :: "cstring \<Rightarrow> 'v \<Rightarrow> 't \<Rightarrow> 't"
    and drop_key :: "cstring \<Rightarrow> 't \<Rightarrow> 't"
    and count_of :: "'t \<Rightarrow> int"
    and invar :: "'t \<Rightarrow> bool"
  assumes lookup_store: "invar t \<Longrightarrow> lookup (store k v t) = (lookup t)(k \<mapsto> v)"
    and lookup_drop: "invar t \<Longrightarrow> lookup (drop_key k t) = (lookup t)(k := None)"
    and invar_store: "invar t \<Longrightarrow> invar (store k v t)"
    and invar_drop: "invar t \<Longrightarrow> invar (drop_key k t)"
    and finite_keys: "invar t \<Longrightarrow> finite (dom (lookup t))"
    and count_keys: "invar t \<Longrightarrow> count_of t = int (card (dom (lookup t)))"
begin

lemma store_store_lookup: "invar t \<Longrightarrow> lookup (store k v' (store k v t)) = lookup (store k v' t)"
  by (simp add: lookup_store invar_store)

lemma drop_store_lookup:
  "invar t \<Longrightarrow> lookup (drop_key k (store k v t)) = lookup (drop_key k t)"
  by (simp add: lookup_store lookup_drop invar_store)

lemma store_other: "invar t \<Longrightarrow> k' \<noteq> k \<Longrightarrow> lookup (store k v t) k' = lookup t k'"
  by (simp add: lookup_store)

text \<open>Storing a list of pairs one after the other, later pairs winning.\<close>

lemma fold_store:
  "invar t \<Longrightarrow> invar (fold (\<lambda>(k, v). store k v) kvs t) \<and>
     lookup (fold (\<lambda>(k, v). store k v) kvs t) = lookup t ++ map_of (rev kvs)"
proof (induction kvs arbitrary: t)
  case Nil
  then show ?case by simp
next
  case (Cons kv kvs)
  obtain k v where kv: "kv = (k, v)" by fastforce
  from Cons.prems have "invar (store k v t)" by (rule invar_store)
  from Cons.IH [OF this] show ?case
    using Cons.prems by (simp add: kv lookup_store map_add_def fun_eq_iff split: option.splits)
qed

lemma count_store:
  "invar t \<Longrightarrow> count_of (store k v t) = count_of t + (if lookup t k = None then 1 else 0)"
  using finite_keys [of t]
  by (auto simp: count_keys invar_store lookup_store card_insert_if domIff)

lemma count_drop:
  assumes inv: "invar t"
  shows "count_of (drop_key k t) = count_of t - (if lookup t k = None then 0 else 1)"
proof (cases "lookup t k")
  case None
  with inv show ?thesis by (simp add: count_keys invar_drop lookup_drop fun_upd_idem)
next
  case (Some v)
  then have "card (dom (lookup t)) = Suc (card (dom (lookup t) - {k}))"
    using finite_keys [OF inv] by (intro card.remove) auto
  with inv Some show ?thesis by (simp add: count_keys invar_drop lookup_drop)
qed

end

section \<open>The indexed-store interface\<close>

text \<open>
  What the variable code relies on in an array, indexed or associative: it is addressed by a
  key, and assigning, unsetting and reading answer like a finite map of the keys that are legal,
  whatever the array caches on the way (an indexed array moves a roving pointer when it is read,
  so reading returns the array again).
\<close>

datatype 'k store_op = Put_op 'k cstring | Del_op 'k | Get_op 'k

fun store_op_key :: "'k store_op \<Rightarrow> 'k" where
  "store_op_key (Put_op k v) = k"
| "store_op_key (Del_op k) = k"
| "store_op_key (Get_op k) = k"

text \<open>The specification: a map, and what each operation answers.\<close>

fun map_op :: "'k store_op \<Rightarrow> ('k \<Rightarrow> cstring option) \<Rightarrow> cstring option \<times> ('k \<Rightarrow> cstring option)" where
  "map_op (Put_op k v) m = (None, m(k \<mapsto> v))"
| "map_op (Del_op k) m = (None, m(k := None))"
| "map_op (Get_op k) m = (m k, m)"

fun run_ops :: "('o \<Rightarrow> 's \<Rightarrow> 'r \<times> 's) \<Rightarrow> 'o list \<Rightarrow> 's \<Rightarrow> 'r list \<times> 's" where
  "run_ops f [] s = ([], s)"
| "run_ops f (x # xs) s =
     (case f x s of (r, s') \<Rightarrow> (case run_ops f xs s' of (rs, s'') \<Rightarrow> (r # rs, s'')))"

locale indexed_store =
  fixes put :: "'k \<Rightarrow> cstring \<Rightarrow> 's \<Rightarrow> 's"
    and del :: "'k \<Rightarrow> 's \<Rightarrow> 's"
    and get :: "'k \<Rightarrow> 's \<Rightarrow> cstring option \<times> 's"
    and view :: "'s \<Rightarrow> 'k \<Rightarrow> cstring option"
    and legal :: "'k \<Rightarrow> bool"
    and good :: "'s \<Rightarrow> bool"
  assumes good_put: "good s \<Longrightarrow> legal k \<Longrightarrow> good (put k v s)"
    and good_del: "good s \<Longrightarrow> legal k \<Longrightarrow> good (del k s)"
    and good_get: "good s \<Longrightarrow> legal k \<Longrightarrow> good (snd (get k s))"
    and view_put: "good s \<Longrightarrow> legal k \<Longrightarrow> view (put k v s) = (view s)(k \<mapsto> v)"
    and view_del: "good s \<Longrightarrow> legal k \<Longrightarrow> view (del k s) = (view s)(k := None)"
    and view_get: "good s \<Longrightarrow> legal k \<Longrightarrow> view (snd (get k s)) = view s"
    and get_view: "good s \<Longrightarrow> legal k \<Longrightarrow> fst (get k s) = view s k"
begin

fun do_op :: "'k store_op \<Rightarrow> 's \<Rightarrow> cstring option \<times> 's" where
  "do_op (Put_op k v) s = (None, put k v s)"
| "do_op (Del_op k) s = (None, del k s)"
| "do_op (Get_op k) s = get k s"

lemma do_op_refines:
  assumes "good s" and "legal (store_op_key x)"
  shows "fst (do_op x s) = fst (map_op x (view s)) \<and>
     view (snd (do_op x s)) = snd (map_op x (view s)) \<and> good (snd (do_op x s))"
  using assms by (cases x) (auto simp: good_put good_del good_get view_put view_del view_get get_view)

text \<open>Any run of operations answers as the same run on the map.\<close>

lemma run_refines:
  assumes "good s" and "\<forall>x\<in>set xs. legal (store_op_key x)"
  shows "fst (run_ops do_op xs s) = fst (run_ops map_op xs (view s)) \<and>
     view (snd (run_ops do_op xs s)) = snd (run_ops map_op xs (view s)) \<and> good (snd (run_ops do_op xs s))"
  using assms
proof (induction xs arbitrary: s)
  case Nil
  then show ?case by simp
next
  case (Cons x xs)
  obtain r s' where s': "do_op x s = (r, s')" by fastforce
  obtain r' m' where m': "map_op x (view s) = (r', m')" by fastforce
  from do_op_refines [of s x] Cons.prems s' m' have "r = r'" "view s' = m'" "good s'" by auto
  with Cons.IH [of s'] Cons.prems(2) s' m' show ?case by (auto split: prod.splits)
qed

text \<open>Assigning a list of pairs one after the other, later pairs winning.\<close>

lemma fold_put:
  "good s \<Longrightarrow> (\<forall>(k, v)\<in>set kvs. legal k) \<Longrightarrow>
     good (fold (\<lambda>(k, v). put k v) kvs s) \<and> view (fold (\<lambda>(k, v). put k v) kvs s) = view s ++ map_of (rev kvs)"
proof (induction kvs arbitrary: s)
  case Nil
  then show ?case by simp
next
  case (Cons kv kvs)
  obtain k v where kv: "kv = (k, v)" by fastforce
  with Cons.prems have "good (put k v s)" "legal k" by (auto intro: good_put)
  with Cons.IH [of "put k v s"] Cons.prems kv show ?case
    by (simp add: view_put map_add_def fun_eq_iff split: option.splits)
qed

end

end
