(* ===== verification/C_Numbers.thy ===== *)
theory C_Numbers
  imports Rash_Prelude
begin

text \<open>
  The number conversions of the C library that the shell uses (\<open>strtoull\<close>, \<open>strtol\<close>,
  \<open>strtoul\<close> in base 10, \<open>%lu\<close> and \<open>%06lu\<close>), with a 64-bit \<open>long\<close>, the limits that
  hooks.c reads from the environment with them, and the tests for names and numbers of general.c.
\<close>

section \<open>Digits\<close>

definition c_isspace :: "char \<Rightarrow> bool" where
  "c_isspace c \<longleftrightarrow> c = CHR '' '' \<or> (CHR 0x09 \<le> c \<and> c \<le> CHR 0x0D)"

definition c_isdigit :: "char \<Rightarrow> bool" where
  "c_isdigit c \<longleftrightarrow> CHR ''0'' \<le> c \<and> c \<le> CHR ''9''"

definition digit_value :: "char \<Rightarrow> nat" where
  "digit_value c = of_char c - 48"

definition dec_value :: "cstring \<Rightarrow> nat" where
  "dec_value ds = foldl (\<lambda>v c. 10 * v + digit_value c) 0 ds"

lemma digit_char_digit: "d < 10 \<Longrightarrow> c_isdigit (digit_char d)"
  by (auto simp: c_isdigit_def digit_char_def less_eq_char_def)

lemma digit_char_value: "d < 10 \<Longrightarrow> digit_value (digit_char d) = d"
  by (simp add: digit_value_def digit_char_def)

lemma show_nat_digits: "list_all c_isdigit (show_nat n)"
proof (induction n rule: show_nat.induct)
  case (1 n)
  then show ?case by (subst show_nat.simps) (simp add: digit_char_digit)
qed

lemma show_nat_not_Nil [simp]: "show_nat n \<noteq> []"
  by (subst show_nat.simps) simp

lemma dec_value_snoc: "dec_value (ds @ [c]) = 10 * dec_value ds + digit_value c"
  by (simp add: dec_value_def)

lemma dec_value_show [simp]: "dec_value (show_nat n) = n"
proof (induction n rule: show_nat.induct)
  case (1 n)
  show ?case
  proof (cases "n < 10")
    case True
    then show ?thesis by (subst show_nat.simps) (simp add: dec_value_def digit_char_value)
  next
    case False
    with 1 show ?thesis by (subst show_nat.simps) (simp add: dec_value_snoc digit_char_value)
  qed
qed

lemma show_nat_head: "0 < n \<Longrightarrow> hd (show_nat n) \<noteq> CHR ''0''"
proof (induction n rule: show_nat.induct)
  case (1 n)
  show ?case
  proof (cases "n < 10")
    case True
    have "digit_value (digit_char n) \<noteq> digit_value (CHR ''0'')"
      using True 1(2) by (simp add: digit_char_value) (simp add: digit_value_def)
    then show ?thesis using True by (subst show_nat.simps) auto
  next
    case False
    with 1 show ?thesis by (subst show_nat.simps) simp
  qed
qed

lemma dec_value_zeros: "dec_value (replicate k (CHR ''0'') @ ds) = dec_value ds"
  by (induction k) (simp_all add: dec_value_def digit_value_def)

text \<open>\<open>%06lu\<close>.\<close>

definition show_06 :: "nat \<Rightarrow> cstring" where
  "show_06 n = replicate (6 - length (show_nat n)) (CHR ''0'') @ show_nat n"

lemma dec_value_show_06 [simp]: "dec_value (show_06 n) = n"
  by (simp add: show_06_def dec_value_zeros)

lemma show_06_inj: "show_06 m = show_06 n \<Longrightarrow> m = n"
  by (metis dec_value_show_06)

section \<open>Letters and identifiers\<close>

definition c_isalpha :: "char \<Rightarrow> bool" where
  "c_isalpha c \<longleftrightarrow> (CHR ''A'' \<le> c \<and> c \<le> CHR ''Z'') \<or> (CHR ''a'' \<le> c \<and> c \<le> CHR ''z'')"

definition c_isalnum :: "char \<Rightarrow> bool" where
  "c_isalnum c \<longleftrightarrow> c_isalpha c \<or> c_isdigit c"

definition legal_variable_starter :: "char \<Rightarrow> bool" where
  "legal_variable_starter c \<longleftrightarrow> c_isalpha c \<or> c = CHR ''_''"

definition legal_variable_char :: "char \<Rightarrow> bool" where
  "legal_variable_char c \<longleftrightarrow> c_isalnum c \<or> c = CHR ''_''"

definition valid_identifier :: "cstring \<Rightarrow> bool" where
  "valid_identifier name \<longleftrightarrow> name \<noteq> [] \<and> legal_variable_starter (hd name) \<and> list_all legal_variable_char (tl name)"

definition all_digits :: "cstring \<Rightarrow> bool" where
  "all_digits s \<longleftrightarrow> list_all c_isdigit s"

lemma starter_legal: "legal_variable_starter c \<Longrightarrow> legal_variable_char c"
  by (auto simp: legal_variable_starter_def legal_variable_char_def c_isalnum_def)

section \<open>Parsing\<close>

text \<open>The sign and the digits after leading blanks.\<close>

definition scan_number :: "cstring \<Rightarrow> bool \<times> cstring \<times> cstring" where
  "scan_number s =
     (let s1 = dropWhile c_isspace s;
          neg = (s1 \<noteq> [] \<and> hd s1 = CHR ''-'');
          s2 = (if s1 \<noteq> [] \<and> (hd s1 = CHR ''-'' \<or> hd s1 = CHR ''+'') then tl s1 else s1)
      in (neg, takeWhile c_isdigit s2, dropWhile c_isdigit s2))"

text \<open>The value, the text left over (the whole string when there are no digits) and whether
  errno is ERANGE. A minus sign negates modulo \<open>2 ^ 64\<close>.\<close>

definition strtoull :: "cstring \<Rightarrow> nat \<times> cstring \<times> bool" where
  "strtoull s =
     (case scan_number s of (neg, ds, rest) \<Rightarrow>
        if ds = [] then (0, s, False)
        else if dec_value ds \<ge> 2 ^ 64 then (2 ^ 64 - 1, rest, True)
        else if neg then ((2 ^ 64 - dec_value ds) mod 2 ^ 64, rest, False)
        else (dec_value ds, rest, False))"

definition strtol :: "cstring \<Rightarrow> int \<times> cstring \<times> bool" where
  "strtol s =
     (case scan_number s of (neg, ds, rest) \<Rightarrow>
        if ds = [] then (0, s, False)
        else
          (let v = (if neg then - int (dec_value ds) else int (dec_value ds))
           in if v \<ge> 2 ^ 63 then (2 ^ 63 - 1, rest, True)
              else if v < - (2 ^ 63) then (- (2 ^ 63), rest, True)
              else (v, rest, False)))"

text \<open>\<open>valid_number\<close>: the whole text is a number, with blanks around it, and in range.\<close>

definition valid_number :: "cstring \<Rightarrow> int option" where
  "valid_number s =
     (case strtol s of (v, ep, erange) \<Rightarrow>
        if erange \<or> ep = s then None
        else if s \<noteq> [] \<and> dropWhile c_isspace ep = [] then Some v else None)"

lemma takeWhile_digits_append:
  "list_all c_isdigit ds \<Longrightarrow> \<not> c_isdigit c \<Longrightarrow> takeWhile c_isdigit (ds @ c # s) = ds \<and> dropWhile c_isdigit (ds @ c # s) = c # s"
  by (induction ds) auto

lemma takeWhile_digits_all:
  "list_all c_isdigit ds \<Longrightarrow> takeWhile c_isdigit ds = ds \<and> dropWhile c_isdigit ds = []"
  by (induction ds) auto

lemma digit_not_space_sign: "c_isdigit c \<Longrightarrow> \<not> c_isspace c \<and> c \<noteq> CHR ''-'' \<and> c \<noteq> CHR ''+''"
  by (auto simp: c_isdigit_def c_isspace_def less_eq_char_def)

lemma scan_digits:
  assumes "list_all c_isdigit ds" and "ds \<noteq> []" and "rest = [] \<or> \<not> c_isdigit (hd rest)"
  shows "scan_number (ds @ rest) = (False, ds, rest)"
proof -
  obtain d ds' where ds: "ds = d # ds'" using assms(2) by (cases ds) auto
  have d: "c_isdigit d" using assms(1) ds by simp
  have "takeWhile c_isdigit (ds @ rest) = ds \<and> dropWhile c_isdigit (ds @ rest) = rest"
    using assms takeWhile_digits_append takeWhile_digits_all by (cases rest) auto
  then show ?thesis using digit_not_space_sign [OF d] ds by (simp add: scan_number_def)
qed

lemma strtoull_digits:
  assumes "n < 2 ^ 64" and "rest = [] \<or> rest = [CHR 0x0A]"
  shows "strtoull (show_nat n @ rest) = (n, rest, False)"
proof -
  have "scan_number (show_nat n @ rest) = (False, show_nat n, rest)"
    using assms(2) by (intro scan_digits show_nat_digits show_nat_not_Nil) (auto simp: c_isdigit_def)
  with assms(1) show ?thesis by (simp add: strtoull_def)
qed

text \<open>Reading back a printed number: \<open>strtoull\<close> of what \<open>%lu\<close> printed, followed by a
  newline or nothing, is the number, and stops exactly behind the digits.\<close>

theorem strtoull_show:
  assumes "n < 2 ^ 64" and "rest = [] \<or> rest = [CHR 0x0A]"
  shows "strtoull (show_nat n @ rest) = (n, rest, False)"
  by (rule strtoull_digits [OF assms])

theorem strtoull_show_witness: "strtoull (show_nat 12 @ [CHR 0x0A]) = (12, [CHR 0x0A], False)"
  by (rule strtoull_show) simp_all

section \<open>Limits from the environment\<close>

definition RASH_INSTALLER_DEFAULT_MAX_BYTES :: nat where
  "RASH_INSTALLER_DEFAULT_MAX_BYTES = 2 * 1024 * 1024"

definition RASH_UNDO_DEFAULT_MAX_BYTES :: nat where
  "RASH_UNDO_DEFAULT_MAX_BYTES = 256 * 1024 * 1024"

text \<open>The argument is the value of the environment variable. The test against SIZE_MAX never
  holds with a 64-bit \<open>size_t\<close>; it is kept.\<close>

definition rash_installer_max_bytes :: "cstring option \<Rightarrow> nat" where
  "rash_installer_max_bytes raw =
     (case raw of
        None \<Rightarrow> RASH_INSTALLER_DEFAULT_MAX_BYTES
      | Some s \<Rightarrow>
          if s = [] then RASH_INSTALLER_DEFAULT_MAX_BYTES
          else
            (case strtoull s of (v, rest, erange) \<Rightarrow>
               if erange \<or> rest = s \<or> rest \<noteq> [] \<or> v = 0 then RASH_INSTALLER_DEFAULT_MAX_BYTES
               else if v > 2 ^ 64 - 1 then 2 ^ 64 - 1
               else v))"

definition rash_undo_max_bytes :: "cstring option \<Rightarrow> nat" where
  "rash_undo_max_bytes raw =
     (case raw of
        None \<Rightarrow> RASH_UNDO_DEFAULT_MAX_BYTES
      | Some s \<Rightarrow>
          if s = [] then RASH_UNDO_DEFAULT_MAX_BYTES
          else
            (case strtoull s of (v, rest, erange) \<Rightarrow>
               if erange \<or> rest = s \<or> rest \<noteq> [] then RASH_UNDO_DEFAULT_MAX_BYTES else v))"

definition INT_MAX :: int where "INT_MAX = 2 ^ 31 - 1"

definition rash_capture_fd :: "cstring option \<Rightarrow> int" where
  "rash_capture_fd raw =
     (case raw of
        None \<Rightarrow> - 1
      | Some s \<Rightarrow>
          if s = [] then - 1
          else
            (case strtol s of (v, rest, erange) \<Rightarrow>
               if erange \<or> rest = s \<or> rest \<noteq> [] \<or> v < 0 \<or> v > INT_MAX then - 1 else v))"

text \<open>The installer limit is never zero and fits a \<open>size_t\<close>, whatever the environment
  says.\<close>

theorem installer_max_bytes_bounds:
  "0 < rash_installer_max_bytes raw \<and> rash_installer_max_bytes raw < 2 ^ 64"
proof -
  have "fst (strtoull s) < 2 ^ 64" for s
    by (simp add: strtoull_def split: prod.splits)
  then show ?thesis
    by (auto simp: rash_installer_max_bytes_def RASH_INSTALLER_DEFAULT_MAX_BYTES_def
        split: option.splits prod.splits)
qed

text \<open>A capture descriptor read from the environment is -1 or a non-negative \<open>int\<close>.\<close>

lemma capture_fd_range: "- 1 \<le> rash_capture_fd raw \<and> rash_capture_fd raw \<le> INT_MAX"
  by (auto simp: rash_capture_fd_def INT_MAX_def split: option.splits prod.splits)

end
