(* ===== verification/Arith_Expr.thy ===== *)
theory Arith_Expr
  imports C_Numbers
begin

text \<open>
  The evaluator of shell arithmetic (expr.c): the token reader, the recursive-descent functions
  from \<open>expcomma\<close> down to \<open>exp0\<close>, the conversion of numbers, the evaluation of variables whose
  value is again an expression, and the stack of expression contexts. An \<open>intmax_t\<close> is a 64-bit
  word, read as signed; the operations wrap, as they do on the processors the shell runs on, and
  a shift uses the low six bits of its count. The pointers \<open>tp\<close> and \<open>lasttp\<close> into the expression
  are the text from there on. The file-scope variables of expr.c are one record, and every
  function passes it on, also when it leaves by \<open>sh_longjmp\<close>: assignments made before an error
  stay. Variables are scalars without name references; an array reference goes through ports
  (skipping the subscript, reading and assigning the element).
\<close>

section \<open>Tokens\<close>

type_synonym i64 = "64 word"

datatype token =
    T_END | EQEQ | NEQ | LEQ | GEQ | T_STR | NUM | LAND | LOR | LSH | RSH | OP_ASSIGN | COND | POWER
  | PREINC | PREDEC | POSTINC | POSTDEC
  | EQ | GT | LT | PLUS | MINUS | MUL | DIV | MOD | T_NOT | LPAR | RPAR
  | BAND | BOR | BXOR | BNOT | QUES | COL | COMMA

text \<open>The tokens that are characters.\<close>

definition token_of_char :: "char \<Rightarrow> token option" where
  "token_of_char c = map_of
     [(CHR ''='', EQ), (CHR ''>'', GT), (CHR ''<'', LT), (CHR ''+'', PLUS), (CHR ''-'', MINUS),
      (CHR ''*'', MUL), (CHR ''/'', DIV), (CHR ''%'', MOD), (CHR ''!'', T_NOT), (CHR ''('', LPAR),
      (CHR '')'', RPAR), (CHR ''&'', BAND), (CHR ''|'', BOR), (CHR 0x5E, BXOR), (CHR ''~'', BNOT),
      (CHR ''?'', QUES), (CHR '':'', COL), (CHR '','', COMMA)] c"

definition is_multiop :: "token \<Rightarrow> bool" where
  "is_multiop t \<longleftrightarrow> t \<in> {EQEQ, NEQ, LEQ, GEQ, LAND, LOR, LSH, RSH, OP_ASSIGN, COND, POWER,
     PREINC, PREDEC, POSTINC, POSTDEC}"

definition is_arithop :: "token \<Rightarrow> bool" where
  "is_arithop t \<longleftrightarrow> t \<in> {EQ, GT, LT, PLUS, MINUS, MUL, DIV, MOD, T_NOT, LPAR, RPAR,
     BAND, BOR, BXOR, BNOT, QUES, COL, COMMA}"

section \<open>Characters and numbers\<close>

definition cr_whitespace :: "char \<Rightarrow> bool" where
  "cr_whitespace c \<longleftrightarrow> c = CHR '' '' \<or> c = CHR 0x09 \<or> c = CHR 0x0A"

text \<open>\<open>itos\<close>.\<close>

definition itos :: "i64 \<Rightarrow> cstring" where
  "itos v = show_int (sint v)"

definition VALID_NUMCHAR :: "char \<Rightarrow> bool" where
  "VALID_NUMCHAR c \<longleftrightarrow> c_isalnum c \<or> c = CHR ''_'' \<or> c = CHR ''@''"

definition numchar_value :: "nat \<Rightarrow> char \<Rightarrow> nat" where
  "numchar_value base c =
     (if c_isdigit c then of_char c - 48
      else if CHR ''a'' \<le> c \<and> c \<le> CHR ''z'' then of_char c - 97 + 10
      else if CHR ''A'' \<le> c \<and> c \<le> CHR ''Z'' then of_char c - 65 + (if base \<le> 36 then 10 else 36)
      else if c = CHR ''@'' then 62
      else if c = CHR ''_'' then 63
      else of_char c)"

fun strlong_loop :: "nat \<Rightarrow> bool \<Rightarrow> i64 \<Rightarrow> cstring \<Rightarrow> cstring + i64" where
  "strlong_loop base foundbase val [] = Inr val"
| "strlong_loop base foundbase val (c # s) =
     (if c = CHR ''#'' then
        (if foundbase then Inl ''invalid number''
         else if sint val < 2 \<or> 64 < sint val then Inl ''invalid arithmetic base''
         else if s = [] \<or> \<not> VALID_NUMCHAR (hd s) then Inl ''invalid integer constant''
         else strlong_loop (nat (sint val)) True 0 s)
      else if VALID_NUMCHAR c then
        (if base \<le> numchar_value base c then Inl ''value too great for base''
         else strlong_loop base foundbase (val * of_nat base + of_nat (numchar_value base c)) s)
      else Inr val)"

definition strlong :: "cstring \<Rightarrow> cstring + i64" where
  "strlong num =
     (case num of
        [] \<Rightarrow> strlong_loop 10 False 0 num
      | c # s \<Rightarrow>
          if c = CHR ''0'' then
            (case s of
               [] \<Rightarrow> Inr 0
             | x # s' \<Rightarrow> if x = CHR ''x'' \<or> x = CHR ''X'' then strlong_loop 16 True 0 s'
                         else strlong_loop 8 True 0 s)
          else strlong_loop 10 False 0 num)"

section \<open>Arithmetic\<close>

definition INTMAX_MIN :: i64 where "INTMAX_MIN = 0x8000000000000000"

definition truth :: "bool \<Rightarrow> i64" where "truth b = (if b then 1 else 0)"

text \<open>Division of \<open>intmax_t\<close>, which truncates; the divisor is not 0 and the quotient is in range.\<close>

definition c_div :: "i64 \<Rightarrow> i64 \<Rightarrow> i64" where
  "c_div a b = word_of_int (sint a sdiv sint b)"

definition c_mod :: "i64 \<Rightarrow> i64 \<Rightarrow> i64" where
  "c_mod a b = word_of_int (sint a smod sint b)"

definition shift_count :: "i64 \<Rightarrow> nat" where
  "shift_count b = unat (b AND 63)"

definition c_shl :: "i64 \<Rightarrow> i64 \<Rightarrow> i64" where
  "c_shl a b = push_bit (shift_count b) a"

definition c_shr :: "i64 \<Rightarrow> i64 \<Rightarrow> i64" where
  "c_shr a b = signed_drop_bit (shift_count b) a"

text \<open>\<open>ipow\<close>; the loop ends when the exponent, which is not negative, has been shifted out.\<close>

function ipow_loop :: "i64 \<Rightarrow> i64 \<Rightarrow> int \<Rightarrow> i64" where
  "ipow_loop result base e =
     (if e \<le> 0 then result
      else ipow_loop (if e mod 2 = 1 then result * base else result) (base * base) (e div 2))"
  by pat_completeness auto
termination by (relation "measure (\<lambda>(r, b, e). nat e)") auto

declare ipow_loop.simps [simp del]

definition ipow :: "i64 \<Rightarrow> i64 \<Rightarrow> i64" where
  "ipow base e = ipow_loop 1 base (sint e)"

section \<open>The state\<close>

record shell_var =
  var_value :: "cstring option"
  var_readonly :: bool
  var_noassign :: bool
  var_invisible :: bool

record 'a eshell =
  shell_variables :: "cstring \<rightharpoonup> shell_var"
  unbound_vars_is_error :: bool
  array_vars :: 'a

record lvalue =
  lv_tokstr :: "cstring option"
  lv_tokval :: i64
  lv_ind :: int

record expr_context =
  c_curtok :: token
  c_lasttok :: token
  c_expression :: "cstring option"
  c_tp :: cstring
  c_lasttp :: "cstring option"
  c_tokval :: i64
  c_tokstr :: "cstring option"
  c_noeval :: nat
  c_lval :: lvalue

record 'a expr_state =
  expression :: "cstring option"
  tp :: cstring
  lasttp :: "cstring option"
  curtok :: token
  lasttok :: token
  assigntok :: token
  tokval :: i64
  tokstr :: "cstring option"
  noeval :: nat
  curlval :: lvalue
  lastlval :: lvalue
  expr_stack :: "expr_context list"
  shell :: "'a eshell"
  diagnostics :: "(cstring \<times> cstring \<times> cstring) list"

text \<open>
  The ports for array references: where \<open>skipsubscript\<close> stops on a text that starts with a
  bracket; \<open>array_variable_part\<close>; \<open>get_array_value\<close> with the index it finds (-1 for none), which
  may evaluate the subscript, so it may change the shell and may jump to the top level (None);
  and the assignment to an element, which may be disallowed (True).
\<close>

record 'a expr_ports =
  skipsubscript :: "cstring \<Rightarrow> nat"
  array_variable_part :: "cstring \<Rightarrow> 'a eshell \<Rightarrow> shell_var option"
  get_array_value :: "cstring \<Rightarrow> 'a eshell \<Rightarrow> (cstring option \<times> int) option \<times> 'a eshell"
  assign_array_element :: "cstring \<Rightarrow> cstring \<Rightarrow> 'a eshell \<Rightarrow> bool \<times> 'a eshell"

text \<open>How an evaluation is left early: by \<open>sh_longjmp (evalbuf, 1)\<close>, by a jump to the top level,
  or because the model's bound on recursion ran out (which \<open>evalexp_terminates\<close> excludes).\<close>

datatype escape = Longjmp_evalbuf | Jump_to_top_level | No_fuel

type_synonym ('a, 'b) eval = "'a expr_state \<Rightarrow> (escape + 'b) \<times> 'a expr_state"

definition eret :: "'b \<Rightarrow> ('a, 'b) eval" where
  "eret v s = (Inr v, s)"

definition ebind :: "('a, 'b) eval \<Rightarrow> ('b \<Rightarrow> ('a, 'c) eval) \<Rightarrow> ('a, 'c) eval" where
  "ebind m f s = (case m s of (Inl e, s') \<Rightarrow> (Inl e, s') | (Inr v, s') \<Rightarrow> f v s')"

definition evalerror :: "cstring \<Rightarrow> ('a, 'b) eval" where
  "evalerror msg s =
     (Inl Longjmp_evalbuf,
      s\<lparr>diagnostics := diagnostics s @
          [(case expression s of None \<Rightarrow> [] | Some t \<Rightarrow> dropWhile (\<lambda>c. c = CHR '' '' \<or> c = CHR 0x09) t,
            msg, case lasttp s of None \<Rightarrow> [] | Some t \<Rightarrow> t)]\<rparr>)"

definition init_lvalue :: lvalue where
  "init_lvalue = \<lparr>lv_tokstr = None, lv_tokval = - 1, lv_ind = - 1\<rparr>"

definition SAVETOK :: "'a expr_state \<Rightarrow> expr_context" where
  "SAVETOK s = \<lparr>c_curtok = curtok s, c_lasttok = lasttok s, c_expression = None, c_tp = tp s,
     c_lasttp = lasttp s, c_tokval = tokval s, c_tokstr = tokstr s, c_noeval = noeval s, c_lval = curlval s\<rparr>"

definition RESTORETOK :: "expr_context \<Rightarrow> 'a expr_state \<Rightarrow> 'a expr_state" where
  "RESTORETOK x s = s\<lparr>curtok := c_curtok x, lasttok := c_lasttok x, tp := c_tp x, lasttp := c_lasttp x,
     tokval := c_tokval x, tokstr := c_tokstr x, noeval := c_noeval x, curlval := c_lval x\<rparr>"

definition MAX_EXPR_RECURSION_LEVEL :: nat where "MAX_EXPR_RECURSION_LEVEL = 1024"

text \<open>\<open>expr_depth\<close> is the length of the stack, whose head is its top.\<close>

definition pushexp :: "('a, unit) eval" where
  "pushexp s =
     (if MAX_EXPR_RECURSION_LEVEL \<le> length (expr_stack s)
      then evalerror ''expression recursion level exceeded'' s
      else (Inr (), s\<lparr>expr_stack := (SAVETOK s)\<lparr>c_expression := expression s\<rparr> # expr_stack s\<rparr>))"

definition popexp :: "('a, unit) eval" where
  "popexp s =
     (case expr_stack s of
        [] \<Rightarrow> evalerror ''recursion stack underflow'' (s\<lparr>expression := None, lasttp := None\<rparr>)
      | x # st \<Rightarrow> (Inr (), RESTORETOK x (s\<lparr>expr_stack := st, expression := c_expression x\<rparr>)))"

section \<open>Variables\<close>

text \<open>\<open>bind_int_variable\<close> on a scalar: a readonly or noassign variable keeps its value, and the
  answer says that the assignment is disallowed.\<close>

definition bind_int_variable :: "cstring \<Rightarrow> cstring \<Rightarrow> 'a eshell \<Rightarrow> bool \<times> 'a eshell" where
  "bind_int_variable lhs rhs sh =
     (if \<not> valid_identifier lhs then (False, sh)
      else (case shell_variables sh lhs of
          None \<Rightarrow> (False, sh\<lparr>shell_variables := (shell_variables sh)(lhs \<mapsto>
                     \<lparr>var_value = Some rhs, var_readonly = False, var_noassign = False, var_invisible = False\<rparr>)\<rparr>)
        | Some v \<Rightarrow>
            if var_readonly v \<or> var_noassign v
            then (True, sh\<lparr>shell_variables := (shell_variables sh)(lhs \<mapsto> v\<lparr>var_invisible := False\<rparr>)\<rparr>)
            else (False, sh\<lparr>shell_variables := (shell_variables sh)(lhs \<mapsto> v\<lparr>var_value := Some rhs, var_invisible := False\<rparr>)\<rparr>)))"

definition expr_bind_variable :: "'a expr_ports \<Rightarrow> cstring \<Rightarrow> cstring \<Rightarrow> ('a, unit) eval" where
  "expr_bind_variable pt lhs rhs s =
     (if lhs = [] then (Inr (), s)
      else (case (if CHR ''['' \<in> set lhs then assign_array_element pt lhs rhs (shell s)
                  else bind_int_variable lhs rhs (shell s)) of
          (disallowed, sh) \<Rightarrow>
            if disallowed then (Inl Longjmp_evalbuf, s\<lparr>shell := sh\<rparr>) else (Inr (), s\<lparr>shell := sh\<rparr>)))"

definition array_variable_name :: "cstring \<Rightarrow> cstring" where
  "array_variable_name tok = takeWhile (\<lambda>c. c \<noteq> CHR ''['') tok"

definition expr_bind_array_element :: "'a expr_ports \<Rightarrow> cstring \<Rightarrow> int \<Rightarrow> cstring \<Rightarrow> ('a, unit) eval" where
  "expr_bind_array_element pt tok ind rhs =
     expr_bind_variable pt (array_variable_name tok @ ''['' @ show_nat (nat ind) @ '']'') rhs"

text \<open>The assignment of \<open>exp0\<close> and \<open>expassign\<close>, to an element when there is an index.\<close>

definition bind_lvalue :: "'a expr_ports \<Rightarrow> cstring \<Rightarrow> int \<Rightarrow> cstring \<Rightarrow> ('a, unit) eval" where
  "bind_lvalue pt lhs ind rhs s =
     (if noeval s \<noteq> 0 then (Inr (), s)
      else if ind \<noteq> - 1 then expr_bind_array_element pt lhs ind rhs s
      else expr_bind_variable pt lhs rhs s)"

text \<open>\<open>subexp\<close> stands for \<open>subexpr\<close>, one level deeper.\<close>

definition expr_streval :: "'a expr_ports \<Rightarrow> (cstring \<Rightarrow> ('a, i64) eval) \<Rightarrow> cstring \<Rightarrow> bool \<Rightarrow> ('a, i64) eval" where
  "expr_streval pt subexp tok subscripted s =
     (if noeval s \<noteq> 0 then (Inr 0, s)
      else
        (let v = (if subscripted then array_variable_part pt tok (shell s) else shell_variables (shell s) tok)
         in if (case v of None \<Rightarrow> True | Some x \<Rightarrow> var_invisible x) \<and> unbound_vars_is_error (shell s)
            then (Inl Jump_to_top_level, s\<lparr>diagnostics := diagnostics s @
                    [((if subscripted then array_variable_name tok else tok), ''unbound variable'', [])]\<rparr>)
            else
              (case (if subscripted then get_array_value pt tok (shell s)
                     else (Some ((case v of None \<Rightarrow> None | Some x \<Rightarrow> var_value x), - 1), shell s)) of
                 (None, sh) \<Rightarrow> (Inl Jump_to_top_level, s\<lparr>shell := sh\<rparr>)
               | (Some (value, ind), sh) \<Rightarrow>
                   ebind (case value of None \<Rightarrow> eret 0 | Some t \<Rightarrow> if t = [] then eret 0 else subexp t)
                     (\<lambda>tval s. (Inr tval, s\<lparr>curlval := \<lparr>lv_tokstr = Some tok, lv_tokval = tval, lv_ind = ind\<rparr>\<rparr>))
                     (s\<lparr>shell := sh\<rparr>))))"

section \<open>The token reader\<close>

text \<open>A name with its subscript, if it has one: the token, the text after it, and whether it is
  subscripted; None when the bracket is not closed.\<close>

definition scan_name :: "'a expr_ports \<Rightarrow> cstring \<Rightarrow> (cstring \<times> cstring \<times> bool) option" where
  "scan_name pt str =
     (let name = takeWhile legal_variable_char str; cp = dropWhile legal_variable_char str
      in if cp \<noteq> [] \<and> hd cp = CHR ''['' then
           (let e = skipsubscript pt cp
            in if e < length cp \<and> cp ! e = CHR '']'' then Some (name @ take (e + 1) cp, drop (e + 1) cp, True)
               else None)
         else Some (name, cp, False))"

definition number_char :: "char \<Rightarrow> bool" where
  "number_char c \<longleftrightarrow> c_isalnum c \<or> c = CHR ''#'' \<or> c = CHR ''@'' \<or> c = CHR ''_''"

text \<open>An operator: an error, or the token, the operator in front of an equals sign, and the text
  after it. \<open>c\<close> is its first character and \<open>cp\<close> the text after that; \<open>cur\<close> and \<open>prev\<close> are the two
  tokens before it.\<close>

datatype lexeme = Lex_error cstring | Lexeme token "token option" cstring

definition starts_with :: "char \<Rightarrow> cstring \<Rightarrow> bool" where
  "starts_with c s \<longleftrightarrow> s \<noteq> [] \<and> hd s = c"

definition read_operator :: "token \<Rightarrow> token \<Rightarrow> char \<Rightarrow> cstring \<Rightarrow> lexeme" where
  "read_operator cur prev c cp =
     (let rest = tl cp
      in if c = CHR ''='' \<and> starts_with (CHR ''='') cp then Lexeme EQEQ None rest
         else if c = CHR ''!'' \<and> starts_with (CHR ''='') cp then Lexeme NEQ None rest
         else if c = CHR ''>'' \<and> starts_with (CHR ''='') cp then Lexeme GEQ None rest
         else if c = CHR ''<'' \<and> starts_with (CHR ''='') cp then Lexeme LEQ None rest
         else if c = CHR ''<'' \<and> starts_with (CHR ''<'') cp then
           (if starts_with (CHR ''='') rest then Lexeme OP_ASSIGN (Some LSH) (tl rest) else Lexeme LSH None rest)
         else if c = CHR ''>'' \<and> starts_with (CHR ''>'') cp then
           (if starts_with (CHR ''='') rest then Lexeme OP_ASSIGN (Some RSH) (tl rest) else Lexeme RSH None rest)
         else if c = CHR ''&'' \<and> starts_with (CHR ''&'') cp then Lexeme LAND None rest
         else if c = CHR ''|'' \<and> starts_with (CHR ''|'') cp then Lexeme LOR None rest
         else if c = CHR ''*'' \<and> starts_with (CHR ''*'') cp then Lexeme POWER None rest
         else if (c = CHR ''-'' \<or> c = CHR ''+'') \<and> starts_with c cp \<and> cur = T_STR then
           Lexeme (if c = CHR ''-'' then POSTDEC else POSTINC) None rest
         else if (c = CHR ''-'' \<or> c = CHR ''+'') \<and> starts_with c cp \<and> cur = NUM \<and> (prev = PREINC \<or> prev = PREDEC) then
           Lex_error (if c = CHR ''-'' then ''--: assignment requires lvalue'' else ''++: assignment requires lvalue'')
         else if (c = CHR ''-'' \<or> c = CHR ''+'') \<and> starts_with c cp then
           (let xp = dropWhile cr_whitespace rest
            in if xp \<noteq> [] \<and> legal_variable_starter (hd xp)
               then Lexeme (if c = CHR ''-'' then PREDEC else PREINC) None rest
               else Lexeme (if c = CHR ''-'' then MINUS else PLUS) None cp)
         else if starts_with (CHR ''='') cp \<and> c \<in> set (''*/%+-&'' @ [CHR 0x5E] @ ''|'') then
           Lexeme OP_ASSIGN (token_of_char c) rest
         else (case token_of_char c of
             None \<Rightarrow> Lex_error (if cur = T_END \<or> is_arithop cur \<or> is_multiop cur
                       then ''arithmetic syntax error: operand expected''
                       else ''arithmetic syntax error: invalid arithmetic operator'')
           | Some t \<Rightarrow> Lexeme t None cp))"

text \<open>
  \<open>readtok\<close>. The token after a name is read ahead with \<open>noeval\<close> set, to see whether the name is
  assigned to; the state is then put back, and the name's value is evaluated unless an equals sign
  follows. In C the test whether \<open>curlval\<close> still describes \<open>tokstr\<close> compares pointers; a
  \<open>curlval.tokstr\<close> that is not NULL is the current \<open>tokstr\<close> or \<open>tokstr\<close> is NULL, so equality of
  the texts gives the same answer.
\<close>

function readtok :: "'a expr_ports \<Rightarrow> (cstring \<Rightarrow> ('a, i64) eval) \<Rightarrow> ('a, unit) eval" where
  "readtok pt subexp s =
     (case dropWhile cr_whitespace (tp s) of
        [] \<Rightarrow> (Inr (), s\<lparr>lasttok := curtok s, curtok := T_END, tp := []\<rparr>)
      | c # cp \<Rightarrow>
          (let s0 = s\<lparr>lasttp := Some (c # cp), tp := c # cp\<rparr>
           in if legal_variable_starter c then
                (case scan_name pt (c # cp) of
                   None \<Rightarrow> evalerror ''bad array subscript'' s0
                 | Some (tok, rest, subscripted) \<Rightarrow>
                     (let s1 = s0\<lparr>curlval := (if lv_tokstr (curlval s) \<noteq> None \<and> lv_tokstr (curlval s) = tokstr s
                                              then init_lvalue else curlval s),
                                  tokstr := Some tok\<rparr>
                      in case readtok pt subexp (s1\<lparr>tokstr := None, tp := rest, noeval := 1, curtok := T_STR\<rparr>) of
                           (Inl e, s2) \<Rightarrow> (Inl e, s2)
                         | (Inr _, s2) \<Rightarrow>
                             (let s3 = RESTORETOK (SAVETOK s1) s2
                              in ebind (if lasttok s3 = PREINC \<or> lasttok s3 = PREDEC \<or> curtok s2 \<noteq> EQ
                                        then (\<lambda>s. expr_streval pt subexp tok subscripted (s\<lparr>lastlval := curlval s\<rparr>))
                                        else eret 0)
                                   (\<lambda>v s. (Inr (), s\<lparr>tokval := v, lasttok := curtok s, curtok := T_STR, tp := rest\<rparr>))
                                   s3)))
              else if c_isdigit c then
                (case strlong (takeWhile number_char (c # cp)) of
                   Inl msg \<Rightarrow> evalerror msg s0
                 | Inr v \<Rightarrow> (Inr (), s0\<lparr>tokval := v, lasttok := curtok s, curtok := NUM,
                                        tp := dropWhile number_char (c # cp)\<rparr>))
              else
                (case read_operator (curtok s) (lasttok s) c cp of
                   Lex_error msg \<Rightarrow> evalerror msg s0
                 | Lexeme t op rest \<Rightarrow>
                     (Inr (), s0\<lparr>assigntok := (case op of None \<Rightarrow> assigntok s | Some a \<Rightarrow> a),
                                 lasttok := curtok s, curtok := t, tp := rest\<rparr>))))"
  by pat_completeness auto

lemma dropWhile_length_le: "length (dropWhile P xs) \<le> length xs"
  by (induction xs) auto

lemma scan_name_shorter:
  assumes "scan_name pt (c # cp) = Some (tok, rest, b)" and "legal_variable_starter c"
  shows "length rest < length (c # cp)"
proof -
  have "length (dropWhile legal_variable_char cp) \<le> length cp" by (rule dropWhile_length_le)
  then show ?thesis
    using assms(1) starter_legal [OF assms(2)] by (auto simp: scan_name_def Let_def split: if_splits)
qed

lemma blank_dropped_length: "dropWhile P xs = c # cp \<Longrightarrow> length (c # cp) \<le> length xs"
  using dropWhile_length_le [of P xs] by simp

termination readtok
proof (relation "measure (\<lambda>(pt, f, s). length (tp s))", goal_cases)
  case 1
  then show ?case by simp
next
  case (2 pt f s c cp s0 p tok q rest b s1)
  from 2 have "scan_name pt (c # cp) = Some (tok, rest, b)" "legal_variable_starter c" by simp_all
  then have "length rest < length (c # cp)" by (rule scan_name_shorter)
  also have "\<dots> \<le> length (tp s)" using 2(1) by (rule blank_dropped_length)
  finally show ?case using 2 by simp
qed

declare readtok.simps [simp del]

lemma readtok_end:
  "dropWhile cr_whitespace (tp s) = [] \<Longrightarrow>
     readtok pt f s = (Inr (), s\<lparr>lasttok := curtok s, curtok := T_END, tp := []\<rparr>)"
  unfolding readtok.simps [of pt f s] by (simp only: list.case)

lemma readtok_number:
  assumes "dropWhile cr_whitespace (tp s) = c # cp" and "c_isdigit c" and "\<not> legal_variable_starter c"
    and "strlong (takeWhile number_char (c # cp)) = Inr v"
  shows "readtok pt f s = (Inr (), s\<lparr>lasttp := Some (c # cp), tokval := v, lasttok := curtok s, curtok := NUM,
           tp := dropWhile number_char (c # cp)\<rparr>)"
  unfolding readtok.simps [of pt f s] assms(1) list.case Let_def assms(4)
  using assms(2,3) by simp

lemma readtok_operator:
  assumes "dropWhile cr_whitespace (tp s) = c # cp" and "\<not> c_isdigit c" and "\<not> legal_variable_starter c"
    and "read_operator (curtok s) (lasttok s) c cp = Lexeme t a rest"
  shows "readtok pt f s = (Inr (), s\<lparr>lasttp := Some (c # cp), assigntok := (case a of None \<Rightarrow> assigntok s | Some a \<Rightarrow> a),
           lasttok := curtok s, curtok := t, tp := rest\<rparr>)"
  unfolding readtok.simps [of pt f s] assms(1) list.case Let_def
  using assms(2-4) by simp

section \<open>The recursive descent\<close>

text \<open>
  \<open>while_tok\<close> is the loop \<open>while (curtok is one of ops) { op = curtok; ... }\<close>, at most \<open>n\<close> times
  round. The functions take the token reader \<open>lx\<close> and, as \<open>rec\<close>, the functions they call
  recursively (from \<open>exp0\<close>, \<open>expunary\<close>, \<open>exppower\<close>, \<open>expcond\<close>, \<open>expassign\<close>): a function calls the
  next lower one directly. \<open>parse\<close> ties the knot.
\<close>

datatype nonterm = L_comma | L_assign | L_cond | L_power | L_unary

type_synonym 'a recs = "nonterm \<Rightarrow> ('a, i64) eval"

type_synonym 'a lexer = "('a, unit) eval"

definition out_of_fuel :: "('a, 'b) eval" where
  "out_of_fuel s = (Inl No_fuel, s)"

primrec while_tok :: "nat \<Rightarrow> (token \<Rightarrow> bool) \<Rightarrow> (token \<Rightarrow> i64 \<Rightarrow> ('a, i64) eval) \<Rightarrow> i64 \<Rightarrow> ('a, i64) eval" where
  "while_tok 0 ops body v s = (if ops (curtok s) then out_of_fuel s else (Inr v, s))"
| "while_tok (Suc n) ops body v s =
     (if ops (curtok s) then ebind (body (curtok s) v) (while_tok n ops body) s else (Inr v, s))"

definition set_lasttok :: "token \<Rightarrow> i64 \<Rightarrow> ('a, i64) eval" where
  "set_lasttok t v s = (Inr v, s\<lparr>lasttok := t\<rparr>)"

definition noeval_enter :: "bool \<Rightarrow> ('a, unit) eval" where
  "noeval_enter b s = (Inr (), if b then s\<lparr>noeval := noeval s + 1\<rparr> else s)"

definition noeval_leave :: "bool \<Rightarrow> ('a, unit) eval" where
  "noeval_leave b s = (Inr (), if b then s\<lparr>noeval := noeval s - 1\<rparr> else s)"

text \<open>An operand evaluated with \<open>noeval\<close> raised when \<open>b\<close>.\<close>

definition guarded :: "bool \<Rightarrow> ('a, i64) eval \<Rightarrow> ('a, i64) eval" where
  "guarded b m = ebind (noeval_enter b) (\<lambda>_. ebind m (\<lambda>v. ebind (noeval_leave b) (\<lambda>_. eret v)))"

definition incr_value :: "token \<Rightarrow> i64" where
  "incr_value t = (if t = PREINC \<or> t = POSTINC then 1 else - 1)"

definition exp0 :: "'a expr_ports \<Rightarrow> 'a lexer \<Rightarrow> 'a recs \<Rightarrow> ('a, i64) eval" where
  "exp0 pt lx rec s =
     (if curtok s = PREINC \<or> curtok s = PREDEC then
        (let stok = curtok s
         in ebind lx (\<lambda>_ s.
              if curtok s \<noteq> T_STR then evalerror ''identifier expected after pre-increment or pre-decrement'' s
              else
                (let v2 = tokval s + incr_value stok
                 in ebind (if lv_ind (curlval s) \<noteq> - 1
                           then bind_lvalue pt (case lv_tokstr (curlval s) of None \<Rightarrow> [] | Some t \<Rightarrow> t) (lv_ind (curlval s)) (itos v2)
                           else (case tokstr s of None \<Rightarrow> eret () | Some t \<Rightarrow> bind_lvalue pt t (- 1) (itos v2)))
                      (\<lambda>_ s. ebind lx (\<lambda>_. eret v2) (s\<lparr>curtok := NUM\<rparr>)) s))
              (s\<lparr>lasttok := stok\<rparr>))
      else if curtok s = LPAR then
        ebind lx (\<lambda>_. ebind (rec L_comma) (\<lambda>v s.
          if curtok s \<noteq> RPAR then evalerror (''missing '' @ [CHR 0x60] @ '')'' @ [CHR 0x27]) s else ebind lx (\<lambda>_. eret v) s)) s
      else if curtok s = NUM then
        ebind lx (\<lambda>_. eret (tokval s)) s
      else if curtok s = T_STR then
        (let ec = SAVETOK s; v = tokval s
         in ebind lx (\<lambda>_ s.
              if curtok s = POSTINC \<or> curtok s = POSTDEC then
                (let v2 = v + incr_value (curtok s);
                     s1 = s\<lparr>tokstr := c_tokstr ec, noeval := c_noeval ec, curlval := c_lval ec, lasttok := T_STR\<rparr>
                 in ebind (if lv_ind (curlval s1) \<noteq> - 1
                           then bind_lvalue pt (case lv_tokstr (curlval s1) of None \<Rightarrow> [] | Some t \<Rightarrow> t) (lv_ind (curlval s1)) (itos v2)
                           else bind_lvalue pt (case tokstr s1 of None \<Rightarrow> [] | Some t \<Rightarrow> t) (- 1) (itos v2))
                      (\<lambda>_ s. ebind lx (\<lambda>_. eret v) (s\<lparr>curtok := NUM\<rparr>)) s1)
              else ebind lx (\<lambda>_. eret v) (RESTORETOK ec s))
              (s\<lparr>tokstr := None, noeval := 1\<rparr>))
      else evalerror ''arithmetic syntax error: operand expected'' s)"

definition expunary :: "'a expr_ports \<Rightarrow> 'a lexer \<Rightarrow> 'a recs \<Rightarrow> ('a, i64) eval" where
  "expunary pt lx rec s =
     (if curtok s = T_NOT then
        ebind lx (\<lambda>_. ebind (rec L_unary) (\<lambda>v. set_lasttok NUM (truth (v = 0)))) s
      else if curtok s = BNOT then
        ebind lx (\<lambda>_. ebind (rec L_unary) (\<lambda>v. set_lasttok NUM (NOT v))) s
      else if curtok s = MINUS then
        ebind lx (\<lambda>_. ebind (rec L_unary) (\<lambda>v. set_lasttok NUM (- v))) s
      else if curtok s = PLUS then
        ebind lx (\<lambda>_. ebind (rec L_unary) (\<lambda>v. set_lasttok NUM v)) s
      else exp0 pt lx rec s)"

text \<open>The loop of \<open>exppower\<close> returns 1 at once for an exponent of 0.\<close>

primrec exppower_loop :: "nat \<Rightarrow> 'a lexer \<Rightarrow> 'a recs \<Rightarrow> i64 \<Rightarrow> ('a, i64) eval" where
  "exppower_loop 0 lx rec v s = (if curtok s = POWER then out_of_fuel s else (Inr v, s))"
| "exppower_loop (Suc n) lx rec v s =
     (if curtok s = POWER then
        ebind lx (\<lambda>_. ebind (rec L_power) (\<lambda>v2. ebind (set_lasttok NUM v2) (\<lambda>v2 s.
          if noeval s = 0 then
            (if v2 = 0 then (Inr 1, s)
             else if sint v2 < 0 then evalerror ''exponent less than 0'' s
             else exppower_loop n lx rec (ipow v v2) s)
          else exppower_loop n lx rec 1 s))) s
      else (Inr v, s))"

definition exppower :: "'a expr_ports \<Rightarrow> nat \<Rightarrow> 'a lexer \<Rightarrow> 'a recs \<Rightarrow> ('a, i64) eval" where
  "exppower pt n lx rec = ebind (expunary pt lx rec) (exppower_loop n lx rec)"

text \<open>The body of the loop of \<open>expmuldiv\<close> after the operand. The message for a division by 0 points
  at the divisor. The quotient of the smallest number by -1 is that number and the remainder 0.\<close>

definition muldiv_value :: "token \<Rightarrow> i64 \<Rightarrow> i64 \<Rightarrow> cstring \<Rightarrow> ('a, i64) eval" where
  "muldiv_value op val1 val2 stp s =
     (if (op = DIV \<or> op = MOD) \<and> val2 = 0 then
        (if noeval s = 0 then
           evalerror ''division by 0'' (s\<lparr>lasttp := Some (dropWhile (\<lambda>c. c = CHR '' '' \<or> c = CHR 0x09) stp)\<rparr>)
         else set_lasttok NUM (if op = DIV then c_div val1 1 else c_mod val1 1) s)
      else if op = MOD \<and> val1 = INTMAX_MIN \<and> val2 = - 1 then (Inr 0, s)
      else
        (let val2' = (if op = DIV \<and> val1 = INTMAX_MIN \<and> val2 = - 1 then 1 else val2)
         in set_lasttok NUM (if op = MUL then val1 * val2' else if op = DIV then c_div val1 val2' else c_mod val1 val2') s))"

definition expmuldiv :: "'a expr_ports \<Rightarrow> nat \<Rightarrow> 'a lexer \<Rightarrow> 'a recs \<Rightarrow> ('a, i64) eval" where
  "expmuldiv pt n lx rec =
     ebind (exppower pt n lx rec)
       (while_tok n (\<lambda>t. t = MUL \<or> t = DIV \<or> t = MOD)
         (\<lambda>op val1 s. ebind lx (\<lambda>_. ebind (exppower pt n lx rec) (\<lambda>val2. muldiv_value op val1 val2 (tp s))) s))"

text \<open>The shape of the remaining arithmetic levels.\<close>

definition left_assoc :: "nat \<Rightarrow> 'a lexer \<Rightarrow> (token \<Rightarrow> bool) \<Rightarrow> (token \<Rightarrow> i64 \<Rightarrow> i64 \<Rightarrow> i64) \<Rightarrow> ('a, i64) eval \<Rightarrow> ('a, i64) eval" where
  "left_assoc n lx ops f operand =
     ebind operand (while_tok n ops (\<lambda>op val1. ebind lx (\<lambda>_. ebind operand (\<lambda>val2. set_lasttok NUM (f op val1 val2)))))"

definition expaddsub :: "'a expr_ports \<Rightarrow> nat \<Rightarrow> 'a lexer \<Rightarrow> 'a recs \<Rightarrow> ('a, i64) eval" where
  "expaddsub pt n lx rec = left_assoc n lx (\<lambda>t. t = PLUS \<or> t = MINUS)
     (\<lambda>op v1 v2. if op = PLUS then v1 + v2 else v1 - v2) (expmuldiv pt n lx rec)"

definition expshift :: "'a expr_ports \<Rightarrow> nat \<Rightarrow> 'a lexer \<Rightarrow> 'a recs \<Rightarrow> ('a, i64) eval" where
  "expshift pt n lx rec = left_assoc n lx (\<lambda>t. t = LSH \<or> t = RSH)
     (\<lambda>op v1 v2. if op = LSH then c_shl v1 v2 else c_shr v1 v2) (expaddsub pt n lx rec)"

definition expcompare :: "'a expr_ports \<Rightarrow> nat \<Rightarrow> 'a lexer \<Rightarrow> 'a recs \<Rightarrow> ('a, i64) eval" where
  "expcompare pt n lx rec = left_assoc n lx (\<lambda>t. t = LEQ \<or> t = GEQ \<or> t = LT \<or> t = GT)
     (\<lambda>op v1 v2. truth (if op = LEQ then sint v1 \<le> sint v2 else if op = GEQ then sint v1 \<ge> sint v2
                        else if op = LT then sint v1 < sint v2 else sint v1 > sint v2)) (expshift pt n lx rec)"

definition expeq :: "'a expr_ports \<Rightarrow> nat \<Rightarrow> 'a lexer \<Rightarrow> 'a recs \<Rightarrow> ('a, i64) eval" where
  "expeq pt n lx rec = left_assoc n lx (\<lambda>t. t = EQEQ \<or> t = NEQ)
     (\<lambda>op v1 v2. truth (if op = EQEQ then v1 = v2 else v1 \<noteq> v2)) (expcompare pt n lx rec)"

definition expband :: "'a expr_ports \<Rightarrow> nat \<Rightarrow> 'a lexer \<Rightarrow> 'a recs \<Rightarrow> ('a, i64) eval" where
  "expband pt n lx rec = left_assoc n lx (\<lambda>t. t = BAND) (\<lambda>op v1 v2. v1 AND v2) (expeq pt n lx rec)"

definition expbxor :: "'a expr_ports \<Rightarrow> nat \<Rightarrow> 'a lexer \<Rightarrow> 'a recs \<Rightarrow> ('a, i64) eval" where
  "expbxor pt n lx rec = left_assoc n lx (\<lambda>t. t = BXOR) (\<lambda>op v1 v2. v1 XOR v2) (expband pt n lx rec)"

definition expbor :: "'a expr_ports \<Rightarrow> nat \<Rightarrow> 'a lexer \<Rightarrow> 'a recs \<Rightarrow> ('a, i64) eval" where
  "expbor pt n lx rec = left_assoc n lx (\<lambda>t. t = BOR) (\<lambda>op v1 v2. v1 OR v2) (expbxor pt n lx rec)"

definition expland :: "'a expr_ports \<Rightarrow> nat \<Rightarrow> 'a lexer \<Rightarrow> 'a recs \<Rightarrow> ('a, i64) eval" where
  "expland pt n lx rec =
     ebind (expbor pt n lx rec)
       (while_tok n (\<lambda>t. t = LAND)
         (\<lambda>op val1. ebind (guarded (val1 = 0) (ebind lx (\<lambda>_. expbor pt n lx rec)))
           (\<lambda>val2. set_lasttok LAND (truth (val1 \<noteq> 0 \<and> val2 \<noteq> 0)))))"

definition explor :: "'a expr_ports \<Rightarrow> nat \<Rightarrow> 'a lexer \<Rightarrow> 'a recs \<Rightarrow> ('a, i64) eval" where
  "explor pt n lx rec =
     ebind (expland pt n lx rec)
       (while_tok n (\<lambda>t. t = LOR)
         (\<lambda>op val1. ebind (guarded (val1 \<noteq> 0) (ebind lx (\<lambda>_. expland pt n lx rec)))
           (\<lambda>val2. set_lasttok LOR (truth (val1 \<noteq> 0 \<or> val2 \<noteq> 0)))))"

text \<open>The two branches of \<open>expcond\<close>: one is read with \<open>noeval\<close> raised.\<close>

definition expcond :: "'a expr_ports \<Rightarrow> nat \<Rightarrow> 'a lexer \<Rightarrow> 'a recs \<Rightarrow> ('a, i64) eval" where
  "expcond pt n lx rec =
     ebind (explor pt n lx rec) (\<lambda>cval s.
       if curtok s = QUES then
         ebind (guarded (cval = 0) (ebind lx (\<lambda>_ s.
                  if curtok s = T_END \<or> curtok s = COL then evalerror ''expression expected'' s
                  else rec L_comma s)))
           (\<lambda>val1 s.
             if curtok s \<noteq> COL then evalerror ([CHR 0x60] @ '':'' @ [CHR 0x27] @ '' expected for conditional expression'') s
             else ebind (guarded (cval \<noteq> 0) (ebind lx (\<lambda>_ s.
                           if curtok s = T_END then evalerror ''expression expected'' s else rec L_cond s)))
                    (\<lambda>val2. set_lasttok COND (if cval \<noteq> 0 then val1 else val2)) s) s
       else (Inr cval, s))"

text \<open>The arithmetic of \<open>op=\<close>.\<close>

definition assign_op :: "token \<Rightarrow> i64 \<Rightarrow> i64 \<Rightarrow> ('a, i64) eval" where
  "assign_op op lvalue value s =
     (if (op = DIV \<or> op = MOD) \<and> value = 0 \<and> noeval s = 0 then evalerror ''division by 0'' s
      else
        (let value' = (if (op = DIV \<or> op = MOD) \<and> value = 0 then 1 else value)
         in case op of
              MUL \<Rightarrow> (Inr (lvalue * value'), s)
            | DIV \<Rightarrow> (Inr (if lvalue = INTMAX_MIN \<and> value' = - 1 then INTMAX_MIN else c_div lvalue value'), s)
            | MOD \<Rightarrow> (Inr (if lvalue = INTMAX_MIN \<and> value' = - 1 then 0 else c_mod lvalue value'), s)
            | PLUS \<Rightarrow> (Inr (lvalue + value'), s)
            | MINUS \<Rightarrow> (Inr (lvalue - value'), s)
            | LSH \<Rightarrow> (Inr (c_shl lvalue value'), s)
            | RSH \<Rightarrow> (Inr (c_shr lvalue value'), s)
            | BAND \<Rightarrow> (Inr (lvalue AND value'), s)
            | BOR \<Rightarrow> (Inr (lvalue OR value'), s)
            | BXOR \<Rightarrow> (Inr (lvalue XOR value'), s)
            | _ \<Rightarrow> evalerror ''bug: bad expassign token'' s))"

definition expassign :: "'a expr_ports \<Rightarrow> nat \<Rightarrow> 'a lexer \<Rightarrow> 'a recs \<Rightarrow> ('a, i64) eval" where
  "expassign pt n lx rec =
     ebind (expcond pt n lx rec) (\<lambda>value s.
       if curtok s = EQ \<or> curtok s = OP_ASSIGN then
         (if lasttok s \<noteq> T_STR then evalerror ''attempted assignment to non-variable'' s
          else (case tokstr s of
              None \<Rightarrow> evalerror ''arithmetic syntax error in variable assignment'' s
            | Some lhs \<Rightarrow>
                (let special = (curtok s = OP_ASSIGN); op = assigntok s; lind = lv_ind (curlval s)
                 in ebind lx (\<lambda>_. ebind (rec L_assign) (\<lambda>rvalue.
                      ebind (if special then assign_op op value rvalue else eret rvalue) (\<lambda>v.
                        ebind (bind_lvalue pt lhs lind (itos v)) (\<lambda>_ s.
                          (Inr v, s\<lparr>curlval := (if lv_tokstr (curlval s) \<noteq> None \<and> lv_tokstr (curlval s) = tokstr s
                                                then init_lvalue else curlval s),
                                    tokstr := None\<rparr>))))) s)))
       else (Inr value, s))"

definition expcomma :: "'a expr_ports \<Rightarrow> nat \<Rightarrow> 'a lexer \<Rightarrow> 'a recs \<Rightarrow> ('a, i64) eval" where
  "expcomma pt n lx rec =
     ebind (expassign pt n lx rec)
       (while_tok n (\<lambda>t. t = COMMA) (\<lambda>op value. ebind lx (\<lambda>_. expassign pt n lx rec)))"

definition level :: "'a expr_ports \<Rightarrow> nat \<Rightarrow> 'a lexer \<Rightarrow> 'a recs \<Rightarrow> 'a recs" where
  "level pt n lx rec nt =
     (case nt of
        L_comma \<Rightarrow> expcomma pt n lx rec
      | L_assign \<Rightarrow> expassign pt n lx rec
      | L_cond \<Rightarrow> expcond pt n lx rec
      | L_power \<Rightarrow> exppower pt n lx rec
      | L_unary \<Rightarrow> expunary pt lx rec)"

primrec parse :: "'a expr_ports \<Rightarrow> 'a lexer \<Rightarrow> nat \<Rightarrow> 'a recs" where
  "parse pt lx 0 = (\<lambda>nt. out_of_fuel)"
| "parse pt lx (Suc n) = level pt n lx (parse pt lx n)"

section \<open>Whole expressions\<close>

definition start_expression :: "cstring \<Rightarrow> 'a expr_state \<Rightarrow> 'a expr_state" where
  "start_expression expr s = s\<lparr>expression := Some expr, tp := expr, curtok := T_END, lasttok := T_END,
     tokstr := None, tokval := 0, curlval := init_lvalue, lastlval := init_lvalue\<rparr>"

text \<open>The first argument counts down the levels of recursion through variables.\<close>

primrec subexpr :: "nat \<Rightarrow> 'a expr_ports \<Rightarrow> cstring \<Rightarrow> ('a, i64) eval" where
  "subexpr 0 pt expr = out_of_fuel"
| "subexpr (Suc d) pt expr =
     (if dropWhile cr_whitespace expr = [] then eret 0
      else ebind pushexp (\<lambda>_ s.
        ebind (readtok pt (subexpr d pt)) (\<lambda>_.
          ebind (parse pt (readtok pt (subexpr d pt)) (length expr + 2) L_comma) (\<lambda>val s.
            if curtok s \<noteq> T_END then evalerror ''arithmetic syntax error in expression'' s
            else ebind popexp (\<lambda>_. eret val) s)) (start_expression expr s)))"

text \<open>\<open>evalexp\<close>: the value and whether it may be used.\<close>

definition evalexp :: "'a expr_ports \<Rightarrow> cstring \<Rightarrow> ('a, i64 \<times> bool) eval" where
  "evalexp pt expr s =
     (case subexpr (Suc MAX_EXPR_RECURSION_LEVEL) pt expr (s\<lparr>noeval := 0\<rparr>) of
        (Inr v, s') \<Rightarrow> (Inr (v, True), s')
      | (Inl Longjmp_evalbuf, s') \<Rightarrow>
          (Inr (0, False), s'\<lparr>tokstr := None, expression := None, expr_stack := [], noeval := 0\<rparr>)
      | (Inl e, s') \<Rightarrow> (Inl e, s'))"

end
