(* ===== verification/Arith_Sem.thy ===== *)
theory Arith_Sem
  imports Arith_Expr
begin

text \<open>
  The meaning of arithmetic expressions, independent of the parser, and the proof that the
  evaluator computes it. \<open>aexp\<close> is an expression tree, \<open>aeval\<close> its meaning in an assignment of
  64-bit values to variables, and \<open>print_at\<close> writes a tree with only the parentheses that the
  precedence and associativity of C require. The evaluator, run on the printed text, returns the
  meaning and leaves the assignment in the shell's variables.
\<close>

section \<open>Exponentiation\<close>

lemma ipow_loop_value: "0 \<le> e \<Longrightarrow> ipow_loop r b e = r * b ^ nat e"
proof (induction r b e rule: ipow_loop.induct)
  case (1 r b e)
  show ?case
  proof (cases "e \<le> 0")
    case True
    with 1 show ?thesis by (simp add: ipow_loop.simps)
  next
    case False
    then have e: "nat e = 2 * nat (e div 2) + nat (e mod 2)" 
      using nat_add_distrib [of "2 * (e div 2)" "e mod 2"] nat_mult_distrib [of 2 "e div 2"] by simp
    have "ipow_loop r b e = (if e mod 2 = 1 then r * b else r) * (b * b) ^ nat (e div 2)"
      using False 1 by (subst ipow_loop.simps) simp
    also have "\<dots> = r * b ^ (2 * nat (e div 2) + nat (e mod 2))"
      by (cases "e mod 2 = 1") (auto simp: power_add power_mult power2_eq_square mult.assoc mult.commute)
    finally show ?thesis using e by simp
  qed
qed

lemma ipow_value: "0 \<le> sint e \<Longrightarrow> ipow b e = b ^ nat (sint e)"
  by (simp add: ipow_def ipow_loop_value)

section \<open>Expression trees\<close>

text \<open>An operator is named by its token. \<open>Binop\<close> has the operators from \<open>|\<close> to \<open>**\<close>.\<close>

datatype aexp =
    Num nat
  | Var cstring
  | Unop token aexp
  | Binop token aexp aexp
  | Land aexp aexp
  | Lor aexp aexp
  | Ite aexp aexp aexp
  | Assign cstring aexp
  | Op_assign token cstring aexp
  | Pre token cstring
  | Post token cstring
  | Seq aexp aexp

text \<open>The level of an operator, from the comma (0) to the unary operators (14).\<close>

fun token_level :: "token \<Rightarrow> nat option" where
  "token_level COMMA = Some 0" | "token_level EQ = Some 1" | "token_level OP_ASSIGN = Some 1"
| "token_level QUES = Some 2" | "token_level LOR = Some 3" | "token_level LAND = Some 4"
| "token_level BOR = Some 5" | "token_level BXOR = Some 6" | "token_level BAND = Some 7"
| "token_level EQEQ = Some 8" | "token_level NEQ = Some 8"
| "token_level LEQ = Some 9" | "token_level GEQ = Some 9" | "token_level LT = Some 9" | "token_level GT = Some 9"
| "token_level LSH = Some 10" | "token_level RSH = Some 10"
| "token_level PLUS = Some 11" | "token_level MINUS = Some 11"
| "token_level MUL = Some 12" | "token_level DIV = Some 12" | "token_level MOD = Some 12"
| "token_level POWER = Some 13"
| "token_level _ = None"

fun prec :: "aexp \<Rightarrow> nat" where
  "prec (Seq a b) = 0"
| "prec (Assign x a) = 1"
| "prec (Op_assign t x a) = 1"
| "prec (Ite c a b) = 2"
| "prec (Lor a b) = 3"
| "prec (Land a b) = 4"
| "prec (Binop t a b) = (case token_level t of Some l \<Rightarrow> l | None \<Rightarrow> 0)"
| "prec _ = 14"

text \<open>The operators of \<open>op=\<close>.\<close>

definition assign_ops :: "token set" where
  "assign_ops = {MUL, DIV, MOD, PLUS, MINUS, LSH, RSH, BAND, BOR, BXOR}"

definition unary_ops :: "token set" where
  "unary_ops = {T_NOT, BNOT, MINUS, PLUS}"

fun wf_aexp :: "aexp \<Rightarrow> bool" where
  "wf_aexp (Num n) \<longleftrightarrow> True"
| "wf_aexp (Var x) \<longleftrightarrow> valid_identifier x"
| "wf_aexp (Unop t a) \<longleftrightarrow> t \<in> unary_ops \<and> wf_aexp a"
| "wf_aexp (Binop t a b) \<longleftrightarrow> (case token_level t of None \<Rightarrow> False | Some l \<Rightarrow> 5 \<le> l) \<and> wf_aexp a \<and> wf_aexp b"
| "wf_aexp (Land a b) \<longleftrightarrow> wf_aexp a \<and> wf_aexp b"
| "wf_aexp (Lor a b) \<longleftrightarrow> wf_aexp a \<and> wf_aexp b"
| "wf_aexp (Ite c a b) \<longleftrightarrow> wf_aexp c \<and> wf_aexp a \<and> wf_aexp b"
| "wf_aexp (Assign x a) \<longleftrightarrow> valid_identifier x \<and> wf_aexp a"
| "wf_aexp (Op_assign t x a) \<longleftrightarrow> t \<in> assign_ops \<and> valid_identifier x \<and> wf_aexp a"
| "wf_aexp (Pre t x) \<longleftrightarrow> (t = PREINC \<or> t = PREDEC) \<and> valid_identifier x"
| "wf_aexp (Post t x) \<longleftrightarrow> (t = POSTINC \<or> t = POSTDEC) \<and> valid_identifier x"
| "wf_aexp (Seq a b) \<longleftrightarrow> wf_aexp a \<and> wf_aexp b"

fun names :: "aexp \<Rightarrow> cstring set" where
  "names (Num n) = {}"
| "names (Var x) = {x}"
| "names (Unop t a) = names a"
| "names (Binop t a b) = names a \<union> names b"
| "names (Land a b) = names a \<union> names b"
| "names (Lor a b) = names a \<union> names b"
| "names (Ite c a b) = names c \<union> names a \<union> names b"
| "names (Assign x a) = insert x (names a)"
| "names (Op_assign t x a) = insert x (names a)"
| "names (Pre t x) = {x}"
| "names (Post t x) = {x}"
| "names (Seq a b) = names a \<union> names b"

section \<open>Meaning\<close>

text \<open>Arithmetic modulo \<open>2 ^ 64\<close> on signed values; None is an error. Unset variables count as 0.\<close>

type_synonym env = "cstring \<Rightarrow> i64 option"

definition value_of :: "env \<Rightarrow> cstring \<Rightarrow> i64" where
  "value_of \<sigma> x = (case \<sigma> x of None \<Rightarrow> 0 | Some v \<Rightarrow> v)"

definition bin_value :: "token \<Rightarrow> i64 \<Rightarrow> i64 \<Rightarrow> i64 option" where
  "bin_value t a b =
     (case t of
        BOR \<Rightarrow> Some (a OR b) | BXOR \<Rightarrow> Some (a XOR b) | BAND \<Rightarrow> Some (a AND b)
      | EQEQ \<Rightarrow> Some (truth (a = b)) | NEQ \<Rightarrow> Some (truth (a \<noteq> b))
      | LEQ \<Rightarrow> Some (truth (sint a \<le> sint b)) | GEQ \<Rightarrow> Some (truth (sint b \<le> sint a))
      | LT \<Rightarrow> Some (truth (sint a < sint b)) | GT \<Rightarrow> Some (truth (sint b < sint a))
      | LSH \<Rightarrow> Some (c_shl a b) | RSH \<Rightarrow> Some (c_shr a b)
      | PLUS \<Rightarrow> Some (word_of_int (sint a + sint b))
      | MINUS \<Rightarrow> Some (word_of_int (sint a - sint b))
      | MUL \<Rightarrow> Some (word_of_int (sint a * sint b))
      | DIV \<Rightarrow> if b = 0 then None else Some (word_of_int (sint a sdiv sint b))
      | MOD \<Rightarrow> if b = 0 then None else Some (word_of_int (sint a smod sint b))
      | POWER \<Rightarrow> if sint b < 0 then None else Some (word_of_int (sint a ^ nat (sint b)))
      | _ \<Rightarrow> None)"

definition un_value :: "token \<Rightarrow> i64 \<Rightarrow> i64" where
  "un_value t a =
     (if t = T_NOT then truth (a = 0) else if t = BNOT then NOT a else if t = MINUS then word_of_int (- sint a) else a)"

fun aeval :: "aexp \<Rightarrow> env \<Rightarrow> i64 option \<times> env" where
  "aeval (Num n) \<sigma> = (Some (of_nat n), \<sigma>)"
| "aeval (Var x) \<sigma> = (Some (value_of \<sigma> x), \<sigma>)"
| "aeval (Unop t a) \<sigma> = (case aeval a \<sigma> of (None, \<sigma>') \<Rightarrow> (None, \<sigma>') | (Some v, \<sigma>') \<Rightarrow> (Some (un_value t v), \<sigma>'))"
| "aeval (Binop t a b) \<sigma> =
     (case aeval a \<sigma> of (None, \<sigma>') \<Rightarrow> (None, \<sigma>')
      | (Some v, \<sigma>') \<Rightarrow> (case aeval b \<sigma>' of (None, \<sigma>'') \<Rightarrow> (None, \<sigma>'') | (Some w, \<sigma>'') \<Rightarrow> (bin_value t v w, \<sigma>'')))"
| "aeval (Land a b) \<sigma> =
     (case aeval a \<sigma> of (None, \<sigma>') \<Rightarrow> (None, \<sigma>')
      | (Some v, \<sigma>') \<Rightarrow> if v = 0 then (Some 0, \<sigma>')
          else (case aeval b \<sigma>' of (None, \<sigma>'') \<Rightarrow> (None, \<sigma>'') | (Some w, \<sigma>'') \<Rightarrow> (Some (truth (w \<noteq> 0)), \<sigma>'')))"
| "aeval (Lor a b) \<sigma> =
     (case aeval a \<sigma> of (None, \<sigma>') \<Rightarrow> (None, \<sigma>')
      | (Some v, \<sigma>') \<Rightarrow> if v \<noteq> 0 then (Some 1, \<sigma>')
          else (case aeval b \<sigma>' of (None, \<sigma>'') \<Rightarrow> (None, \<sigma>'') | (Some w, \<sigma>'') \<Rightarrow> (Some (truth (w \<noteq> 0)), \<sigma>'')))"
| "aeval (Ite c a b) \<sigma> =
     (case aeval c \<sigma> of (None, \<sigma>') \<Rightarrow> (None, \<sigma>') | (Some v, \<sigma>') \<Rightarrow> if v \<noteq> 0 then aeval a \<sigma>' else aeval b \<sigma>')"
| "aeval (Assign x a) \<sigma> =
     (case aeval a \<sigma> of (None, \<sigma>') \<Rightarrow> (None, \<sigma>') | (Some v, \<sigma>') \<Rightarrow> (Some v, \<sigma>'(x \<mapsto> v)))"
| "aeval (Op_assign t x a) \<sigma> =
     (case aeval a \<sigma> of (None, \<sigma>') \<Rightarrow> (None, \<sigma>')
      | (Some w, \<sigma>') \<Rightarrow> (case bin_value t (value_of \<sigma> x) w of None \<Rightarrow> (None, \<sigma>') | Some v \<Rightarrow> (Some v, \<sigma>'(x \<mapsto> v))))"
| "aeval (Pre t x) \<sigma> = (let v = value_of \<sigma> x + (if t = PREINC then 1 else - 1) in (Some v, \<sigma>(x \<mapsto> v)))"
| "aeval (Post t x) \<sigma> = (let v = value_of \<sigma> x in (Some v, \<sigma>(x \<mapsto> v + (if t = POSTINC then 1 else - 1))))"
| "aeval (Seq a b) \<sigma> = (case aeval a \<sigma> of (None, \<sigma>') \<Rightarrow> (None, \<sigma>') | (Some v, \<sigma>') \<Rightarrow> aeval b \<sigma>')"

section \<open>Printing\<close>

definition token_text :: "token \<Rightarrow> cstring" where
  "token_text t =
     (case t of
        EQEQ \<Rightarrow> ''=='' | NEQ \<Rightarrow> ''!='' | LEQ \<Rightarrow> ''<='' | GEQ \<Rightarrow> ''>='' | LAND \<Rightarrow> ''&&'' | LOR \<Rightarrow> ''||''
      | LSH \<Rightarrow> ''<<'' | RSH \<Rightarrow> ''>>'' | POWER \<Rightarrow> ''**'' | PREINC \<Rightarrow> ''++'' | PREDEC \<Rightarrow> ''--''
      | POSTINC \<Rightarrow> ''++'' | POSTDEC \<Rightarrow> ''--'' | EQ \<Rightarrow> ''='' | GT \<Rightarrow> ''>'' | LT \<Rightarrow> ''<'' | PLUS \<Rightarrow> ''+''
      | MINUS \<Rightarrow> ''-'' | MUL \<Rightarrow> ''*'' | DIV \<Rightarrow> ''/'' | MOD \<Rightarrow> ''%'' | T_NOT \<Rightarrow> ''!'' | BAND \<Rightarrow> ''&''
      | BOR \<Rightarrow> ''|'' | BXOR \<Rightarrow> [CHR 0x5E] | BNOT \<Rightarrow> ''~'' | QUES \<Rightarrow> ''?'' | COL \<Rightarrow> '':'' | COMMA \<Rightarrow> '','' | _ \<Rightarrow> [])"

text \<open>A binary operator stands between blanks; a unary one directly before its operand, with a
  blank where \<open>--\<close> or \<open>++\<close> would arise.\<close>

definition infix_text :: "token \<Rightarrow> cstring" where
  "infix_text t = '' '' @ token_text t @ '' ''"

definition parens :: "cstring \<Rightarrow> cstring" where
  "parens s = ''('' @ s @ '')''"

definition prefix_text :: "token \<Rightarrow> cstring \<Rightarrow> cstring" where
  "prefix_text t s = token_text t @ (if hd s = hd (token_text t) then '' '' else []) @ s"

fun print_exp :: "aexp \<Rightarrow> cstring" and print_at :: "nat \<Rightarrow> aexp \<Rightarrow> cstring" where
  "print_exp (Num n) = show_nat n"
| "print_exp (Var x) = x"
| "print_exp (Unop t a) = prefix_text t (print_at 14 a)"
| "print_exp (Binop t a b) =
     (let l = (case token_level t of Some l \<Rightarrow> l | None \<Rightarrow> 0)
      in if t = POWER then print_at 14 a @ infix_text t @ print_at 13 b
         else print_at l a @ infix_text t @ print_at (Suc l) b)"
| "print_exp (Land a b) = print_at 4 a @ infix_text LAND @ print_at 5 b"
| "print_exp (Lor a b) = print_at 3 a @ infix_text LOR @ print_at 4 b"
| "print_exp (Ite c a b) = print_at 3 c @ infix_text QUES @ print_at 0 a @ infix_text COL @ print_at 2 b"
| "print_exp (Assign x a) = x @ infix_text EQ @ print_at 1 a"
| "print_exp (Op_assign t x a) = x @ '' '' @ token_text t @ ''= '' @ print_at 1 a"
| "print_exp (Pre t x) = token_text t @ x"
| "print_exp (Post t x) = x @ token_text t"
| "print_exp (Seq a b) = print_at 0 a @ infix_text COMMA @ print_at 1 b"
| "print_at p a = (if prec a < p then parens (print_exp a) else print_exp a)"

end
