(* ===== verification/Arith_Safe.thy ===== *)
theory Arith_Safe
  imports Arith_Expr
begin

text \<open>
  What holds of every evaluation, whatever the expression, the variables and the array ports:
  the recursion always ends, an operand that is not evaluated changes nothing, and the shell only
  changes by assignments. One induction over the levels of the parser proves all three: the
  predicate \<open>good\<close> bounds the remaining tokens and relates the states before and after. The relation
  on shells is a parameter of the locale \<open>shell_change\<close>.
\<close>

section \<open>Weakest preconditions\<close>

text \<open>\<open>Q\<close> holds of a value and its state, \<open>E\<close> of an escape and its state.\<close>

fun wps :: "(escape \<Rightarrow> 'a expr_state \<Rightarrow> bool) \<Rightarrow> ('b \<Rightarrow> 'a expr_state \<Rightarrow> bool) \<Rightarrow> (escape + 'b) \<times> 'a expr_state \<Rightarrow> bool" where
  "wps E Q (Inl e, s) \<longleftrightarrow> E e s"
| "wps E Q (Inr v, s) \<longleftrightarrow> Q v s"

lemma wps_ebind: "wps E Q (ebind m f s) \<longleftrightarrow> wps E (\<lambda>v s'. wps E Q (f v s')) (m s)"
  by (auto simp: ebind_def split: sum.splits prod.splits)

lemma wps_eret [simp]: "wps E Q (eret v s) \<longleftrightarrow> Q v s"
  by (simp add: eret_def)

lemma ebind_eret [simp]: "ebind (eret v) f = f v"
  by (simp add: ebind_def eret_def fun_eq_iff)

lemma ebind_set_lasttok [simp]: "ebind (set_lasttok t v) f s = f v (s\<lparr>lasttok := t\<rparr>)"
  by (simp add: ebind_def set_lasttok_def)

lemma wps_set_lasttok [simp]: "wps E Q (set_lasttok t v s) \<longleftrightarrow> Q v (s\<lparr>lasttok := t\<rparr>)"
  by (simp add: set_lasttok_def)

lemma wps_out_of_fuel [simp]: "wps E Q (out_of_fuel s) \<longleftrightarrow> E No_fuel s"
  by (simp add: out_of_fuel_def)

lemma wps_mono:
  assumes "wps E Q r" and "\<And>v s. Q v s \<Longrightarrow> Q' v s"
  shows "wps E Q' r"
  using assms by (cases "(E, Q, r)" rule: wps.cases) auto

lemma wps_mono2:
  assumes "wps E Q r" and "\<And>v s. Q v s \<Longrightarrow> Q' v s" and "\<And>e s. E e s \<Longrightarrow> E' e s"
  shows "wps E' Q' r"
  using assms by (cases "(E, Q, r)" rule: wps.cases) auto

lemma read_operator_shorter: "read_operator cur prev c cp = Lexeme t op rest \<Longrightarrow> length rest \<le> length cp"
proof -
  let ?P = "\<lambda>l. case l of Lex_error m \<Rightarrow> True | Lexeme t op rest \<Rightarrow> length rest \<le> length cp"
  have branch: "?P l \<Longrightarrow> ?P l' \<Longrightarrow> ?P (if b then l else l')" for b l l' by simp
  have "?P (read_operator cur prev c cp)"
    unfolding read_operator_def Let_def
    by (intro branch) (simp_all add: le_diff_conv split: option.split)
  then show "read_operator cur prev c cp = Lexeme t op rest \<Longrightarrow> length rest \<le> length cp" by simp
qed

section \<open>The measure\<close>

text \<open>The characters to read, and one more for the token in hand.\<close>

definition tokens_left :: "'a expr_state \<Rightarrow> nat" where
  "tokens_left s = length (tp s) + (if curtok s = T_END then 0 else 1)"

text \<open>What the recursion through variables puts back.\<close>

definition same_tokens :: "'a expr_state \<Rightarrow> 'a expr_state \<Rightarrow> bool" where
  "same_tokens s s' \<longleftrightarrow> SAVETOK s' = SAVETOK s \<and> expression s' = expression s \<and> expr_stack s' = expr_stack s"

text \<open>Enough levels are left for the room on the stack.\<close>

definition deep :: "nat \<Rightarrow> 'a expr_state \<Rightarrow> bool" where
  "deep d s \<longleftrightarrow> 0 < d \<and> MAX_EXPR_RECURSION_LEVEL < d + length (expr_stack s)"

section \<open>The invariant\<close>

locale shell_change =
  fixes pt :: "'a expr_ports" and V :: "'a eshell \<Rightarrow> 'a eshell \<Rightarrow> bool"
  assumes V_refl: "V sh sh"
    and V_trans: "V sh sh' \<Longrightarrow> V sh' sh'' \<Longrightarrow> V sh sh''"
    and V_bind: "V sh (snd (bind_int_variable lhs rhs sh))"
    and V_assign_element: "V sh (snd (assign_array_element pt lhs rhs sh))"
    and V_get_array: "V sh (snd (get_array_value pt tok sh))"
begin

text \<open>The change of the shell from \<open>s\<close> to \<open>s'\<close> that is allowed under the \<open>noeval\<close> of \<open>s\<close>.\<close>

definition changed :: "'a expr_state \<Rightarrow> 'a expr_state \<Rightarrow> bool" where
  "changed s s' \<longleftrightarrow> (if noeval s \<noteq> 0 then shell s' = shell s else V (shell s) (shell s'))"

definition escaped :: "'a expr_state \<Rightarrow> escape \<Rightarrow> 'a expr_state \<Rightarrow> bool" where
  "escaped s e s' \<longleftrightarrow> e \<noteq> No_fuel \<and> changed s s'"

definition after :: "'a expr_state \<Rightarrow> 'a expr_state \<Rightarrow> bool" where
  "after s s' \<longleftrightarrow> changed s s' \<and> noeval s' = noeval s \<and> expr_stack s' = expr_stack s"

definition good_lexer :: "nat \<Rightarrow> 'a lexer \<Rightarrow> bool" where
  "good_lexer d lx \<longleftrightarrow> (\<forall>s. deep d s \<longrightarrow>
     wps (escaped s) (\<lambda>_ s'. after s s' \<and> tokens_left s' \<le> length (tp s)) (lx s))"

definition good :: "nat \<Rightarrow> nat \<Rightarrow> ('a, i64) eval \<Rightarrow> bool" where
  "good d n m \<longleftrightarrow> (\<forall>s. deep d s \<longrightarrow> tokens_left s \<le> n \<longrightarrow>
     wps (escaped s) (\<lambda>_ s'. after s s' \<and> tokens_left s' \<le> tokens_left s) (m s))"

lemma after_changed: "after s s' \<Longrightarrow> changed s s'"
  by (simp add: after_def)

lemma after_refl: "after s s"
  by (simp add: after_def changed_def V_refl)

lemma after_trans: "after s s' \<Longrightarrow> after s' s'' \<Longrightarrow> after s s''"
  by (auto simp: after_def changed_def intro: V_trans split: if_splits)

lemma after_escaped: "after s s' \<Longrightarrow> escaped s' e s'' \<Longrightarrow> escaped s e s''"
  by (auto simp: after_def escaped_def changed_def intro: V_trans split: if_splits)

lemma escaped_refl: "e \<noteq> No_fuel \<Longrightarrow> escaped s e s"
  by (simp add: escaped_def changed_def V_refl)

lemma deep_after: "after s s' \<Longrightarrow> deep d s' \<longleftrightarrow> deep d s"
  by (simp add: after_def deep_def)

text \<open>Fields that neither the invariant nor the measure looks at.\<close>

lemma after_update:
  "after s (s'\<lparr>lasttok := t\<rparr>) \<longleftrightarrow> after s s'"
  "after s (s'\<lparr>curtok := t\<rparr>) \<longleftrightarrow> after s s'"
  "after s (s'\<lparr>tokstr := u\<rparr>) \<longleftrightarrow> after s s'"
  "after s (s'\<lparr>curlval := l\<rparr>) \<longleftrightarrow> after s s'"
  by (simp_all add: after_def changed_def)

lemma tokens_left_update:
  "tokens_left (s\<lparr>lasttok := t\<rparr>) = tokens_left s"
  "tokens_left (s\<lparr>tokstr := u\<rparr>) = tokens_left s"
  "tokens_left (s\<lparr>curlval := l\<rparr>) = tokens_left s"
  "tokens_left (s\<lparr>noeval := n\<rparr>) = tokens_left s"
  by (simp_all add: tokens_left_def)

lemma wps_evalerror: "wps (escaped s) Q (evalerror msg s') \<longleftrightarrow> changed s s'"
  by (simp add: evalerror_def escaped_def changed_def)

text \<open>Reading a token and going on, when there is a token in hand.\<close>

lemma wps_lex:
  assumes lx: "good_lexer d lx" and s: "after s s'" "deep d s" "curtok s' \<noteq> T_END"
    and cont: "\<And>s''. after s s'' \<Longrightarrow> after s' s'' \<Longrightarrow> tokens_left s'' < tokens_left s' \<Longrightarrow> wps (escaped s) Q (f () s'')"
  shows "wps (escaped s) Q (ebind lx f s')"
proof -
  have "wps (escaped s') (\<lambda>_ s''. after s' s'' \<and> tokens_left s'' \<le> length (tp s')) (lx s')"
    using lx s deep_after [OF s(1)] by (simp add: good_lexer_def)
  moreover have "tokens_left s' = Suc (length (tp s'))"
    using s(3) by (simp add: tokens_left_def)
  ultimately have "wps (escaped s') (\<lambda>_ s''. after s' s'' \<and> tokens_left s'' < tokens_left s') (lx s')"
    by (simp add: less_Suc_eq_le)
  then have "wps (escaped s) (\<lambda>v s''. wps (escaped s) Q (f v s'')) (lx s')"
    by (rule wps_mono2) (use s(1) cont in \<open>auto intro: after_trans after_escaped\<close>)
  then show ?thesis by (simp add: wps_ebind)
qed

text \<open>Running an operand and going on.\<close>

lemma wps_good:
  assumes m: "good d n m" and s: "after s s'" "deep d s" "tokens_left s' \<le> n"
    and cont: "\<And>v s''. after s s'' \<Longrightarrow> after s' s'' \<Longrightarrow> tokens_left s'' \<le> tokens_left s' \<Longrightarrow> wps (escaped s) Q (f v s'')"
  shows "wps (escaped s) Q (ebind m f s')"
proof -
  have "wps (escaped s') (\<lambda>_ s''. after s' s'' \<and> tokens_left s'' \<le> tokens_left s') (m s')"
    using m s deep_after [OF s(1)] by (simp add: good_def)
  then have "wps (escaped s) (\<lambda>v s''. wps (escaped s) Q (f v s'')) (m s')"
    by (rule wps_mono2) (use s cont in \<open>auto intro: after_trans after_escaped\<close>)
  then show ?thesis by (simp add: wps_ebind)
qed

lemma goodD:
  "good d n m \<Longrightarrow> deep d s \<Longrightarrow> tokens_left s \<le> n \<Longrightarrow>
     wps (escaped s) (\<lambda>_ s'. after s s' \<and> tokens_left s' \<le> tokens_left s) (m s)"
  by (simp add: good_def)

lemma good_mono: "good d n m \<Longrightarrow> n' \<le> n \<Longrightarrow> good d n' m"
  by (simp add: good_def)

text \<open>A loop body that has taken a token.\<close>

definition good_body :: "nat \<Rightarrow> nat \<Rightarrow> (token \<Rightarrow> bool) \<Rightarrow> (token \<Rightarrow> i64 \<Rightarrow> ('a, i64) eval) \<Rightarrow> bool" where
  "good_body d n ops body \<longleftrightarrow> (\<forall>v s. deep d s \<longrightarrow> tokens_left s \<le> n \<longrightarrow> ops (curtok s) \<longrightarrow>
     wps (escaped s) (\<lambda>_ s'. after s s' \<and> tokens_left s' < tokens_left s) (body (curtok s) v s))"

lemma good_while:
  assumes body: "good_body d n ops body" and "\<not> ops T_END"
  shows "deep d s \<Longrightarrow> tokens_left s \<le> n \<Longrightarrow> tokens_left s \<le> k \<Longrightarrow>
    wps (escaped s) (\<lambda>_ s'. after s s' \<and> tokens_left s' \<le> tokens_left s) (while_tok k ops body v s)"
proof (induction k arbitrary: s v)
  case 0
  then have "curtok s = T_END" by (simp add: tokens_left_def split: if_splits)
  with assms(2) show ?case by (simp add: after_refl)
next
  case (Suc k)
  show ?case
  proof (cases "ops (curtok s)")
    case True
    with body Suc.prems have "wps (escaped s) (\<lambda>_ s'. after s s' \<and> tokens_left s' < tokens_left s) (body (curtok s) v s)"
      by (simp add: good_body_def)
    then have "wps (escaped s) (\<lambda>v s'. wps (escaped s) (\<lambda>_ s''. after s s'' \<and> tokens_left s'' \<le> tokens_left s) (while_tok k ops body v s'))
        (body (curtok s) v s)"
    proof (rule wps_mono)
      fix v' s' assume s': "after s s' \<and> tokens_left s' < tokens_left s"
      then have "wps (escaped s') (\<lambda>_ s''. after s' s'' \<and> tokens_left s'' \<le> tokens_left s') (while_tok k ops body v' s')"
        using Suc.prems by (intro Suc.IH) (auto simp: deep_after)
      then show "wps (escaped s) (\<lambda>_ s''. after s s'' \<and> tokens_left s'' \<le> tokens_left s) (while_tok k ops body v' s')"
        by (rule wps_mono2) (use s' in \<open>auto intro: after_trans after_escaped\<close>)
    qed
    with True show ?thesis by (simp add: wps_ebind)
  next
    case False
    then show ?thesis by (simp add: after_refl)
  qed
qed

lemma good_bind_while:
  assumes "good d n m" and "good_body d n ops body" and "\<not> ops T_END"
  shows "good d n (ebind m (while_tok n ops body))"
  unfolding good_def
proof (intro allI impI)
  fix s :: "'a expr_state"
  assume s: "deep d s" "tokens_left s \<le> n"
  show "wps (escaped s) (\<lambda>_ s'. after s s' \<and> tokens_left s' \<le> tokens_left s) (ebind m (while_tok n ops body) s)"
  proof (rule wps_good [OF assms(1) after_refl s])
    fix v s'' assume s'': "after s s''" "tokens_left s'' \<le> tokens_left s"
    then have "wps (escaped s'') (\<lambda>_ s'. after s'' s' \<and> tokens_left s' \<le> tokens_left s'') (while_tok n ops body v s'')"
      using s by (intro good_while [OF assms(2,3)]) (auto simp: deep_after)
    then show "wps (escaped s) (\<lambda>_ s'. after s s' \<and> tokens_left s' \<le> tokens_left s) (while_tok n ops body v s'')"
      by (rule wps_mono2) (use s'' in \<open>auto intro: after_trans after_escaped\<close>)
  qed
qed

lemma good_left_assoc:
  assumes lx: "good_lexer d lx" and m: "good d n m" and ops: "\<not> ops T_END"
  shows "good d n (left_assoc n lx ops f m)"
  unfolding left_assoc_def
proof (rule good_bind_while)
  show "good_body d n ops (\<lambda>op v. ebind lx (\<lambda>_. ebind m (\<lambda>v2. set_lasttok NUM (f op v v2))))"
    unfolding good_body_def
  proof (intro allI impI)
    fix v and s :: "'a expr_state"
    assume s: "deep d s" "tokens_left s \<le> n" "ops (curtok s)"
    with ops have "curtok s \<noteq> T_END" by auto
    then show "wps (escaped s) (\<lambda>_ s'. after s s' \<and> tokens_left s' < tokens_left s)
        (ebind lx (\<lambda>_. ebind m (\<lambda>v2. set_lasttok NUM (f (curtok s) v v2))) s)"
      by (intro wps_lex [OF lx after_refl s(1)] wps_good [OF m _ s(1)])
        (use s in \<open>auto simp: after_update tokens_left_update\<close>)
  qed
qed (use m ops in simp_all)

text \<open>An assignment.\<close>

lemma bind_variable_change:
  "\<exists>r sh. expr_bind_variable pt lhs rhs s = (r, s\<lparr>shell := sh\<rparr>) \<and> V (shell s) sh \<and> r \<noteq> Inl No_fuel"
proof -
  obtain dis sh where sh: "(if CHR ''['' \<in> set lhs then assign_array_element pt lhs rhs (shell s)
      else bind_int_variable lhs rhs (shell s)) = (dis, sh)" by fastforce
  then have "V (shell s) sh"
    using V_bind [of "shell s" lhs rhs] V_assign_element [of "shell s" lhs rhs] by (auto split: if_splits)
  show ?thesis
  proof (cases "lhs = []")
    case True
    then show ?thesis
      by (intro exI [of _ "Inr ()"] exI [of _ "shell s"]) (simp add: expr_bind_variable_def V_refl)
  next
    case False
    with sh \<open>V (shell s) sh\<close> show ?thesis
      by (intro exI [of _ "if dis then Inl Longjmp_evalbuf else Inr ()"] exI [of _ sh])
        (simp add: expr_bind_variable_def)
  qed
qed

lemma bind_lvalue_change:
  "\<exists>r sh. bind_lvalue pt lhs ind rhs s = (r, s\<lparr>shell := sh\<rparr>) \<and> changed s (s\<lparr>shell := sh\<rparr>) \<and> r \<noteq> Inl No_fuel"
proof (cases "noeval s = 0")
  case True
  with bind_variable_change show ?thesis
    by (auto simp: bind_lvalue_def expr_bind_array_element_def changed_def)
next
  case False
  then show ?thesis by (auto simp: bind_lvalue_def changed_def intro!: exI [of _ "shell s"])
qed

lemma wps_bind_lvalue:
  assumes "after s s'" and cont: "\<And>sh. after s (s'\<lparr>shell := sh\<rparr>) \<Longrightarrow> wps (escaped s) Q (f () (s'\<lparr>shell := sh\<rparr>))"
  shows "wps (escaped s) Q (ebind (bind_lvalue pt lhs ind rhs) f s')"
proof -
  obtain r sh where r: "bind_lvalue pt lhs ind rhs s' = (r, s'\<lparr>shell := sh\<rparr>)" "r \<noteq> Inl No_fuel"
    and "changed s' (s'\<lparr>shell := sh\<rparr>)" using bind_lvalue_change by blast
  then have "after s' (s'\<lparr>shell := sh\<rparr>)" by (simp add: after_def)
  with assms(1) have "after s (s'\<lparr>shell := sh\<rparr>)" by (rule after_trans)
  with r cont show ?thesis by (cases r) (auto simp: wps_ebind escaped_def after_def)
qed

text \<open>An operand under a raised \<open>noeval\<close>.\<close>

lemma wps_guarded:
  assumes m: "\<And>s1. deep d s1 \<Longrightarrow> curtok s1 = curtok s' \<Longrightarrow> tokens_left s1 = tokens_left s' \<Longrightarrow>
      wps (escaped s1) (\<lambda>_ s''. after s1 s'' \<and> tokens_left s'' < tokens_left s1) (m s1)"
    and s: "after s s'" "deep d s"
    and cont: "\<And>v s''. after s s'' \<Longrightarrow> tokens_left s'' < tokens_left s' \<Longrightarrow> wps (escaped s) Q (f v s'')"
  shows "wps (escaped s) Q (ebind (guarded b m) f s')"
proof (cases b)
  case False
  from s have "wps (escaped s') (\<lambda>_ s''. after s' s'' \<and> tokens_left s'' < tokens_left s') (m s')"
    by (intro m) (simp_all add: deep_after)
  then have "wps (escaped s) (\<lambda>v s''. wps (escaped s) Q (f v s'')) (m s')"
    by (rule wps_mono2) (use s(1) cont in \<open>auto intro: after_trans after_escaped\<close>)
  with False show ?thesis by (simp add: wps_ebind guarded_def noeval_enter_def noeval_leave_def)
next
  case True
  let ?s1 = "s'\<lparr>noeval := noeval s' + 1\<rparr>"
  from s have "deep d ?s1" by (simp add: after_def deep_def)
  then have "wps (escaped ?s1) (\<lambda>_ s''. after ?s1 s'' \<and> tokens_left s'' < tokens_left ?s1) (m ?s1)"
    by (rule m) (simp_all add: tokens_left_update)
  then have "wps (escaped s) (\<lambda>v s''. wps (escaped s) Q (f v (s''\<lparr>noeval := noeval s'' - 1\<rparr>))) (m ?s1)"
  proof (rule wps_mono2)
    fix v s'' assume s'': "after ?s1 s'' \<and> tokens_left s'' < tokens_left ?s1"
    with s(1) have "after s (s''\<lparr>noeval := noeval s'' - 1\<rparr>)"
      by (auto simp: after_def changed_def split: if_splits)
    then show "wps (escaped s) Q (f v (s''\<lparr>noeval := noeval s'' - 1\<rparr>))"
      by (rule cont) (use s'' in \<open>simp add: tokens_left_update\<close>)
  next
    fix e s'' assume "escaped ?s1 e s''"
    with s(1) show "escaped s e s''" by (auto simp: after_def escaped_def changed_def split: if_splits)
  qed
  with True show ?thesis by (simp add: wps_ebind guarded_def noeval_enter_def noeval_leave_def)
qed

section \<open>The levels of the parser\<close>

text \<open>\<open>good_recs\<close>: the recursive calls, which find at least one token less.\<close>

definition good_recs :: "nat \<Rightarrow> nat \<Rightarrow> 'a recs \<Rightarrow> bool" where
  "good_recs d n rec \<longleftrightarrow> (\<forall>nt k. k < n \<longrightarrow> good d k (rec nt))"

lemma wps_rec:
  assumes rec: "good_recs d n rec" and s: "after s s'" "deep d s" "tokens_left s' < n"
    and cont: "\<And>v s''. after s s'' \<Longrightarrow> after s' s'' \<Longrightarrow> tokens_left s'' \<le> tokens_left s' \<Longrightarrow> wps (escaped s) Q (f v s'')"
  shows "wps (escaped s) Q (ebind (rec nt) f s')"
  using rec s(3) unfolding good_recs_def by (intro wps_good [OF _ s(1,2) order_refl cont]) auto

lemma tokens_left_curtok: "curtok s \<noteq> T_END \<Longrightarrow> t \<noteq> T_END \<Longrightarrow> tokens_left (s\<lparr>curtok := t\<rparr>) = tokens_left s"
  by (simp add: tokens_left_def)

lemma tokens_left_shell: "tokens_left (s\<lparr>shell := sh\<rparr>) = tokens_left s"
  by (simp add: tokens_left_def)

lemmas state_simps = after_update tokens_left_update tokens_left_shell

lemma wps_lex_raised:
  assumes lx: "good_lexer d lx" and s: "deep d s" "curtok s \<noteq> T_END"
    and cont: "\<And>s''. after (s\<lparr>tokstr := None, noeval := 1\<rparr>) s'' \<Longrightarrow> tokens_left s'' < tokens_left s \<Longrightarrow>
      wps (escaped s) Q (f () s'')"
  shows "wps (escaped s) Q (ebind lx f (s\<lparr>tokstr := None, noeval := 1\<rparr>))"
proof -
  let ?s = "s\<lparr>tokstr := None, noeval := 1\<rparr>"
  have "deep d ?s" using s(1) by (simp add: deep_def)
  then have "wps (escaped ?s) (\<lambda>_ s''. after ?s s'' \<and> tokens_left s'' \<le> length (tp s)) (lx ?s)"
    using lx by (auto simp: good_lexer_def)
  then have "wps (escaped s) (\<lambda>v s''. wps (escaped s) Q (f v s'')) (lx ?s)"
    by (rule wps_mono2) (use s(2) cont in
      \<open>auto simp: escaped_def changed_def tokens_left_def V_refl less_Suc_eq_le split: if_splits\<close>)
  then show ?thesis by (simp add: wps_ebind)
qed

lemma restored:
  assumes "after (s\<lparr>tokstr := None, noeval := 1\<rparr>) s''"
  shows "after s (RESTORETOK (SAVETOK s) s'')" "tokens_left (RESTORETOK (SAVETOK s) s'') = tokens_left s"
    "curtok (RESTORETOK (SAVETOK s) s'') = curtok s"
    "after s (s''\<lparr>tokstr := u, noeval := c_noeval (SAVETOK s)\<rparr>)"
  using assms V_refl by (auto simp: after_def changed_def RESTORETOK_def SAVETOK_def tokens_left_def)

lemma good_exp0:
  assumes lx: "good_lexer d lx" and rec: "good_recs d n rec"
  shows "good d n (exp0 pt lx rec)"
  unfolding good_def
proof (intro allI impI)
  fix s :: "'a expr_state"
  assume s: "deep d s" "tokens_left s \<le> n"
  let ?Q = "\<lambda>_ s'. after s s' \<and> tokens_left s' \<le> tokens_left s"
  consider (pre) "curtok s = PREINC \<or> curtok s = PREDEC" | (par) "curtok s = LPAR"
    | (num) "curtok s = NUM" | (str) "curtok s = T_STR"
    | (other) "curtok s \<notin> {PREINC, PREDEC, LPAR, NUM, T_STR}" by auto
  then show "wps (escaped s) ?Q (exp0 pt lx rec s)"
  proof cases
    case pre
    then have "curtok s \<noteq> T_END" by auto
    with pre s show ?thesis
      unfolding exp0_def
      by (auto intro!: wps_lex [OF lx] wps_bind_lvalue simp: state_simps tokens_left_curtok wps_evalerror
          after_refl after_changed Let_def split: option.splits)
  next
    case par
    then have "curtok s \<noteq> T_END" by auto
    with par s show ?thesis
      unfolding exp0_def
      by (auto intro!: wps_lex [OF lx] wps_rec [OF rec] simp: wps_evalerror after_refl after_changed)
  next
    case num
    then have "curtok s \<noteq> T_END" by auto
    with num s show ?thesis
      unfolding exp0_def by (auto intro!: wps_lex [OF lx] simp: after_refl)
  next
    case str
    then have "curtok s \<noteq> T_END" by auto
    with str s show ?thesis
      unfolding exp0_def Let_def
      by (simp del: One_nat_def, intro wps_lex_raised [OF lx])
        (auto intro!: wps_lex [OF lx] wps_bind_lvalue
          simp: restored state_simps tokens_left_curtok Let_def)
  next
    case other
    then show ?thesis by (simp add: exp0_def wps_evalerror changed_def V_refl)
  qed
qed

lemma good_expunary:
  assumes lx: "good_lexer d lx" and rec: "good_recs d n rec"
  shows "good d n (expunary pt lx rec)"
  unfolding good_def
proof (intro allI impI)
  fix s :: "'a expr_state"
  assume s: "deep d s" "tokens_left s \<le> n"
  show "wps (escaped s) (\<lambda>_ s'. after s s' \<and> tokens_left s' \<le> tokens_left s) (expunary pt lx rec s)"
  proof (cases "curtok s \<in> {T_NOT, BNOT, MINUS, PLUS}")
    case True
    then have "curtok s \<noteq> T_END" by auto
    with True s show ?thesis
      unfolding expunary_def
      by (auto intro!: wps_lex [OF lx] wps_rec [OF rec] simp: state_simps after_refl)
  next
    case False
    with good_exp0 [OF lx rec] s show ?thesis by (simp add: expunary_def good_def)
  qed
qed

lemma wps_exppower_loop:
  assumes lx: "good_lexer d lx" and rec: "good_recs d n rec"
  shows "after s s' \<Longrightarrow> deep d s \<Longrightarrow> tokens_left s' \<le> k \<Longrightarrow> tokens_left s' \<le> n \<Longrightarrow> tokens_left s' \<le> m \<Longrightarrow>
    wps (escaped s) (\<lambda>_ s''. after s s'' \<and> tokens_left s'' \<le> m) (exppower_loop k lx rec v s')"
proof (induction k arbitrary: s' v)
  case 0
  then have "curtok s' = T_END" by (simp add: tokens_left_def split: if_splits)
  with 0 show ?case by simp
next
  case (Suc k)
  show ?case
  proof (cases "curtok s' = POWER")
    case True
    then have "curtok s' \<noteq> T_END" by simp
    with True Suc.prems show ?thesis
      by (auto intro!: wps_lex [OF lx] wps_rec [OF rec] Suc.IH simp: state_simps wps_evalerror after_changed)
  next
    case False
    with Suc.prems show ?thesis by simp
  qed
qed

lemma good_exppower:
  assumes lx: "good_lexer d lx" and rec: "good_recs d n rec"
  shows "good d n (exppower pt n lx rec)"
  unfolding good_def exppower_def
  by (auto intro!: wps_good [OF good_expunary [OF lx rec]] wps_exppower_loop [OF lx rec] simp: after_refl)

lemma wps_muldiv_value:
  assumes "after s s'" and "\<And>v. Q v s'" and "\<And>v. Q v (s'\<lparr>lasttok := NUM\<rparr>)"
  shows "wps (escaped s) Q (muldiv_value op v1 v2 stp s')"
  using assms by (auto simp: muldiv_value_def Let_def evalerror_def escaped_def after_def changed_def)

lemma good_expmuldiv:
  assumes lx: "good_lexer d lx" and rec: "good_recs d n rec"
  shows "good d n (expmuldiv pt n lx rec)"
  unfolding expmuldiv_def
proof (rule good_bind_while)
  show "good_body d n (\<lambda>t. t = MUL \<or> t = DIV \<or> t = MOD)
      (\<lambda>op val1 s. ebind lx (\<lambda>_. ebind (exppower pt n lx rec) (\<lambda>val2. muldiv_value op val1 val2 (tp s))) s)"
    unfolding good_body_def
  proof (intro allI impI)
    fix v and s :: "'a expr_state"
    assume s: "deep d s" "tokens_left s \<le> n" "curtok s = MUL \<or> curtok s = DIV \<or> curtok s = MOD"
    then have "curtok s \<noteq> T_END" by auto
    with s show "wps (escaped s) (\<lambda>_ s'. after s s' \<and> tokens_left s' < tokens_left s)
        (ebind lx (\<lambda>_. ebind (exppower pt n lx rec) (\<lambda>val2. muldiv_value (curtok s) v val2 (tp s))) s)"
      by (auto intro!: wps_lex [OF lx] wps_good [OF good_exppower [OF lx rec]] wps_muldiv_value
          simp: state_simps after_refl)
  qed
qed (simp_all add: good_exppower [OF lx rec])

lemma good_arith_levels:
  assumes lx: "good_lexer d lx" and rec: "good_recs d n rec"
  shows "good d n (expbor pt n lx rec)"
  unfolding expbor_def expbxor_def expband_def expeq_def expcompare_def expshift_def expaddsub_def
  by (intro good_left_assoc [OF lx] good_expmuldiv [OF lx rec]) simp_all

lemma good_guarded_body:
  assumes lx: "good_lexer d lx" and m: "good d n m" and ops: "\<not> ops T_END"
  shows "good_body d n ops
    (\<lambda>op v. ebind (guarded (b v) (ebind lx (\<lambda>_. m))) (\<lambda>v2. set_lasttok t (f v v2)))"
  unfolding good_body_def
proof (intro allI impI)
  fix v and s :: "'a expr_state"
  assume s: "deep d s" "tokens_left s \<le> n" "ops (curtok s)"
  with ops have not_end: "curtok s \<noteq> T_END" by auto
  have "wps (escaped s1) (\<lambda>_ s''. after s1 s'' \<and> tokens_left s'' < tokens_left s1) (ebind lx (\<lambda>_. m) s1)"
    if s1: "deep d s1" "curtok s1 = curtok s" "tokens_left s1 = tokens_left s" for s1
  proof (rule wps_lex [OF lx after_refl s1(1)])
    fix s'' assume s'': "after s1 s''" "tokens_left s'' < tokens_left s1"
    with m s1 s have "wps (escaped s'') (\<lambda>_ s'. after s'' s' \<and> tokens_left s' \<le> tokens_left s'') (m s'')"
      by (simp add: good_def deep_after)
    then show "wps (escaped s1) (\<lambda>_ s'. after s1 s' \<and> tokens_left s' < tokens_left s1) (m s'')"
      by (rule wps_mono2) (use s'' in \<open>auto intro: after_trans after_escaped\<close>)
  qed (use s1 not_end in simp)
  then show "wps (escaped s) (\<lambda>_ s'. after s s' \<and> tokens_left s' < tokens_left s)
      (ebind (guarded (b v) (ebind lx (\<lambda>_. m))) (\<lambda>v2. set_lasttok t (f v v2)) s)"
    using s by (auto intro!: wps_guarded simp: after_refl state_simps)
qed

lemma good_explor:
  assumes lx: "good_lexer d lx" and rec: "good_recs d n rec"
  shows "good d n (explor pt n lx rec)"
  unfolding explor_def expland_def
  by (intro good_bind_while good_guarded_body [OF lx] good_arith_levels [OF lx rec]) simp_all

lemma wps_guarded_rec:
  assumes lx: "good_lexer d lx" and rec: "good_recs d n rec"
    and s: "after s s'" "deep d s" "tokens_left s' \<le> n" "curtok s' \<noteq> T_END"
    and cont: "\<And>v s''. after s s'' \<Longrightarrow> tokens_left s'' < tokens_left s' \<Longrightarrow> wps (escaped s) Q (f v s'')"
  shows "wps (escaped s) Q (ebind (guarded b (ebind lx (\<lambda>_ s. if stop (curtok s) then evalerror msg s else rec nt s))) f s')"
proof (rule wps_guarded [OF _ s(1,2) cont])
  fix s1 :: "'a expr_state"
  assume s1: "deep d s1" "curtok s1 = curtok s'" "tokens_left s1 = tokens_left s'"
  show "wps (escaped s1) (\<lambda>_ s''. after s1 s'' \<and> tokens_left s'' < tokens_left s1)
      (ebind lx (\<lambda>_ s. if stop (curtok s) then evalerror msg s else rec nt s) s1)"
  proof (rule wps_lex [OF lx after_refl s1(1)])
    fix s2 assume s2: "after s1 s2" "tokens_left s2 < tokens_left s1"
    show "wps (escaped s1) (\<lambda>_ s''. after s1 s'' \<and> tokens_left s'' < tokens_left s1)
        (if stop (curtok s2) then evalerror msg s2 else rec nt s2)"
    proof (cases "stop (curtok s2)")
      case True
      with s2 show ?thesis by (simp add: wps_evalerror after_changed)
    next
      case False
      have "wps (escaped s1) (\<lambda>_ s''. after s1 s'' \<and> tokens_left s'' < tokens_left s1) (ebind (rec nt) eret s2)"
        using s2 s1 s by (intro wps_rec [OF rec]) auto
      with False show ?thesis by (simp add: wps_ebind)
    qed
  qed (use s1 s in simp)
qed

lemma good_expcond:
  assumes lx: "good_lexer d lx" and rec: "good_recs d n rec"
  shows "good d n (expcond pt n lx rec)"
  unfolding good_def
proof (intro allI impI)
  fix s :: "'a expr_state"
  assume s: "deep d s" "tokens_left s \<le> n"
  show "wps (escaped s) (\<lambda>_ s'. after s s' \<and> tokens_left s' \<le> tokens_left s) (expcond pt n lx rec s)"
    unfolding expcond_def
  proof (rule wps_good [OF good_explor [OF lx rec] after_refl s])
    fix c s' assume s': "after s s'" "tokens_left s' \<le> tokens_left s"
    show "wps (escaped s) (\<lambda>_ s'. after s s' \<and> tokens_left s' \<le> tokens_left s)
      (if curtok s' = QUES then
         ebind (guarded (c = 0) (ebind lx (\<lambda>_ s.
                  if curtok s = T_END \<or> curtok s = COL then evalerror ''expression expected'' s
                  else rec L_comma s)))
           (\<lambda>val1 s.
             if curtok s \<noteq> COL then evalerror ([CHR 0x60] @ '':'' @ [CHR 0x27] @ '' expected for conditional expression'') s
             else ebind (guarded (c \<noteq> 0) (ebind lx (\<lambda>_ s.
                           if curtok s = T_END then evalerror ''expression expected'' s else rec L_cond s)))
                    (\<lambda>val2. set_lasttok COND (if c \<noteq> 0 then val1 else val2)) s) s'
       else (Inr c, s'))"
    proof (cases "curtok s' = QUES")
      case True
      have "wps (escaped s) (\<lambda>_ s'. after s s' \<and> tokens_left s' \<le> tokens_left s)
         (ebind (guarded (c = 0) (ebind lx (\<lambda>_ s.
                  if (\<lambda>t. t = T_END \<or> t = COL) (curtok s) then evalerror ''expression expected'' s
                  else rec L_comma s)))
           (\<lambda>val1 s.
             if curtok s \<noteq> COL then evalerror ([CHR 0x60] @ '':'' @ [CHR 0x27] @ '' expected for conditional expression'') s
             else ebind (guarded (c \<noteq> 0) (ebind lx (\<lambda>_ s.
                           if (\<lambda>t. t = T_END) (curtok s) then evalerror ''expression expected'' s else rec L_cond s)))
                    (\<lambda>val2. set_lasttok COND (if c \<noteq> 0 then val1 else val2)) s) s')"
      proof (rule wps_guarded_rec [OF lx rec s'(1) s(1)])
        fix v s'' assume "after s s''" "tokens_left s'' < tokens_left s'"
        then show "wps (escaped s) (\<lambda>_ s'. after s s' \<and> tokens_left s' \<le> tokens_left s)
          (if curtok s'' \<noteq> COL then evalerror ([CHR 0x60] @ '':'' @ [CHR 0x27] @ '' expected for conditional expression'') s''
           else ebind (guarded (c \<noteq> 0) (ebind lx (\<lambda>_ s.
                           if (\<lambda>t. t = T_END) (curtok s) then evalerror ''expression expected'' s else rec L_cond s)))
                    (\<lambda>val2. set_lasttok COND (if c \<noteq> 0 then v else val2)) s'')"
          using s s'(2) by (auto simp: wps_evalerror after_changed state_simps intro!: wps_guarded_rec [OF lx rec])
      qed (use True s s' in auto)
      with True show ?thesis by simp
    qed (use s' in simp)
  qed
qed

lemma wps_assign_op:
  assumes "after s s'" and "\<And>v. wps (escaped s) Q (f v s')"
  shows "wps (escaped s) Q (ebind (assign_op op l r) f s')"
  using assms
  by (cases op) (simp_all add: wps_ebind assign_op_def Let_def wps_evalerror after_changed)

lemma good_expassign:
  assumes lx: "good_lexer d lx" and rec: "good_recs d n rec"
  shows "good d n (expassign pt n lx rec)"
  unfolding good_def
proof (intro allI impI)
  fix s :: "'a expr_state"
  assume s: "deep d s" "tokens_left s \<le> n"
  let ?Q = "\<lambda>_ s'. after s s' \<and> tokens_left s' \<le> tokens_left s"
  have assign: "wps (escaped s) ?Q
     (ebind lx (\<lambda>_. ebind (rec L_assign) (\<lambda>rvalue.
        ebind (if special then assign_op op v rvalue else eret rvalue) (\<lambda>v.
          ebind (bind_lvalue pt lhs lind (itos v)) (\<lambda>_ s.
            (Inr v, s\<lparr>curlval := (if lv_tokstr (curlval s) \<noteq> None \<and> lv_tokstr (curlval s) = tokstr s
                                  then init_lvalue else curlval s), tokstr := None\<rparr>))))) s')"
    if "after s s'" "tokens_left s' \<le> tokens_left s" "curtok s' \<noteq> T_END" for s' special op v lhs lind
    using that s
    by (cases special)
      (auto intro!: wps_lex [OF lx] wps_rec [OF rec] wps_assign_op wps_bind_lvalue simp: state_simps)
  show "wps (escaped s) ?Q (expassign pt n lx rec s)"
    unfolding expassign_def
  proof (rule wps_good [OF good_expcond [OF lx rec] after_refl s], goal_cases)
    case (1 v s')
    then show ?case
      using assign [of s' True] assign [of s' False] by (simp add: wps_evalerror after_changed Let_def split: option.splits)
  qed
qed

lemma good_level:
  assumes lx: "good_lexer d lx" and rec: "good_recs d n rec"
  shows "good d n (level pt n lx rec nt)"
proof -
  have body: "good_body d n (\<lambda>t. t = COMMA) (\<lambda>op value. ebind lx (\<lambda>_. expassign pt n lx rec))"
    unfolding good_body_def
  proof (intro allI impI)
    fix v and s :: "'a expr_state"
    assume s: "deep d s" "tokens_left s \<le> n" "curtok s = COMMA"
    have "wps (escaped s) (\<lambda>_ s'. after s s' \<and> tokens_left s' < tokens_left s)
        (ebind lx (\<lambda>_. ebind (expassign pt n lx rec) eret) s)"
      using s by (auto intro!: wps_lex [OF lx] wps_good [OF good_expassign [OF lx rec]] simp: after_refl)
    then show "wps (escaped s) (\<lambda>_ s'. after s s' \<and> tokens_left s' < tokens_left s)
        (ebind lx (\<lambda>_. expassign pt n lx rec) s)"
      by (simp add: wps_ebind)
  qed
  have "good d n (expcomma pt n lx rec)"
    unfolding expcomma_def by (rule good_bind_while [OF good_expassign [OF lx rec] body]) simp
  then show ?thesis
    using good_expassign [OF lx rec] good_expcond [OF lx rec] good_exppower [OF lx rec] good_expunary [OF lx rec]
    by (cases nt) (simp_all add: level_def)
qed

lemma good_parse:
  assumes lx: "good_lexer d lx"
  shows "good_recs d n (parse pt lx n)"
proof (induction n)
  case 0
  then show ?case by (simp add: good_recs_def)
next
  case (Suc n)
  show ?case
    unfolding good_recs_def
  proof (intro allI impI)
    fix nt k assume "k < Suc n"
    then have "k \<le> n" by simp
    with good_level [OF lx Suc.IH] show "good d k (parse pt lx (Suc n) nt)"
      by (auto intro: good_mono)
  qed
qed

section \<open>The token reader and whole expressions\<close>

definition good_sub :: "nat \<Rightarrow> (cstring \<Rightarrow> ('a, i64) eval) \<Rightarrow> bool" where
  "good_sub d f \<longleftrightarrow> (\<forall>t s. deep d s \<longrightarrow>
     wps (escaped s) (\<lambda>_ s'. after s s' \<and> same_tokens s s') (f t s))"

lemma same_tokens_fields:
  "same_tokens s s' \<Longrightarrow> tp s' = tp s \<and> curtok s' = curtok s \<and> noeval s' = noeval s"
  by (simp add: same_tokens_def SAVETOK_def)

lemma wps_streval:
  assumes sub: "good_sub d f" and s: "after s s'" "deep d s"
    and cont: "\<And>v s''. after s s'' \<Longrightarrow> wps (escaped s) Q (g v s'')"
  shows "wps (escaped s) Q (ebind (expr_streval pt f tok b) g s')"
proof -
  have array: "after s (s'\<lparr>shell := sh\<rparr>)" if "get_array_value pt tok (shell s') = (r, sh)" "noeval s' = 0" for r sh
    using V_get_array [of "shell s'" tok] that s(1) by (auto simp: after_def changed_def intro: V_trans)
  have sub': "wps (escaped s) Q (ebind (f t) (\<lambda>v s. g v (s\<lparr>curlval := l v\<rparr>)) (s'\<lparr>shell := sh\<rparr>))"
    if "after s (s'\<lparr>shell := sh\<rparr>)" for t sh and l :: "i64 \<Rightarrow> lvalue"
  proof -
    have "wps (escaped (s'\<lparr>shell := sh\<rparr>)) (\<lambda>_ s''. after (s'\<lparr>shell := sh\<rparr>) s'' \<and> same_tokens (s'\<lparr>shell := sh\<rparr>) s'') (f t (s'\<lparr>shell := sh\<rparr>))"
      using sub s(2) deep_after [OF that] by (simp add: good_sub_def)
    then have "wps (escaped s) (\<lambda>v s''. wps (escaped s) Q (g v (s''\<lparr>curlval := l v\<rparr>))) (f t (s'\<lparr>shell := sh\<rparr>))"
    proof (rule wps_mono2)
      fix v s'' assume "after (s'\<lparr>shell := sh\<rparr>) s'' \<and> same_tokens (s'\<lparr>shell := sh\<rparr>) s''"
      with that have "after s (s''\<lparr>curlval := l v\<rparr>)" by (auto simp: after_update intro: after_trans)
      then show "wps (escaped s) Q (g v (s''\<lparr>curlval := l v\<rparr>))" by (rule cont)
    qed (use that after_escaped in blast)
    then show ?thesis by (simp add: wps_ebind)
  qed
  have unbound: "changed s s'" using s(1) by (rule after_changed)
  have value': "wps (escaped s) Q (ebind
      (ebind (case value of None \<Rightarrow> eret 0 | Some t \<Rightarrow> if t = [] then eret 0 else f t)
         (\<lambda>tval s. (Inr tval, s\<lparr>curlval := \<lparr>lv_tokstr = Some tok, lv_tokval = tval, lv_ind = ind\<rparr>\<rparr>))) g (s'\<lparr>shell := sh\<rparr>))"
    if "after s (s'\<lparr>shell := sh\<rparr>)" for "value" ind sh
    using that sub' [OF that] cont
    by (cases "value") (simp_all add: wps_ebind after_update)
  have same: "s'\<lparr>shell := shell s'\<rparr> = s'" by simp
  show ?thesis
  proof (cases "noeval s' = 0")
    case False
    with s cont show ?thesis by (simp add: wps_ebind expr_streval_def)
  next
    case True
    note v0 = value' [of "shell s'"]
    show ?thesis
    proof (cases b)
      case True
      obtain r sh where g: "get_array_value pt tok (shell s') = (r, sh)" by fastforce
      note arr = array [OF g \<open>noeval s' = 0\<close>]
      show ?thesis
        using True \<open>noeval s' = 0\<close> g arr after_changed [OF arr] unbound value' [OF arr]
        by (cases r) (auto simp: expr_streval_def wps_ebind Let_def escaped_def changed_def split: if_splits)
    next
      case False
      show ?thesis
        using False \<open>noeval s' = 0\<close> v0 s(1) unbound
        by (auto simp: expr_streval_def wps_ebind Let_def escaped_def changed_def split: if_splits)
    qed
  qed
qed

lemma escaped_same: "shell s' = shell s \<Longrightarrow> noeval s' \<noteq> 0 \<Longrightarrow> escaped s' e s'' \<Longrightarrow> escaped s e s''"
  by (simp add: escaped_def changed_def V_refl)

lemma wps_readtok:
  assumes sub: "good_sub d f"
  shows "deep d s \<Longrightarrow> wps (escaped s) (\<lambda>_ s'. after s s' \<and> tokens_left s' \<le> length (tp s)) (readtok pt f s)"
proof (induction "length (tp s)" arbitrary: s rule: less_induct)
  case less
  let ?Q = "\<lambda>_ s'. after s s' \<and> tokens_left s' \<le> length (tp s)"
  show ?case
  proof (cases "dropWhile cr_whitespace (tp s)")
    case Nil
    then show ?thesis
      by (simp add: readtok_end after_def changed_def tokens_left_def V_refl)
  next
    case (Cons c cp)
    let ?s0 = "s\<lparr>lasttp := Some (c # cp), tp := c # cp\<rparr>"
    have len: "length cp < length (tp s)" using blank_dropped_length [OF Cons] by simp
    have s0: "after s ?s0" by (simp add: after_def changed_def V_refl)
    show ?thesis
    proof (cases "legal_variable_starter c")
      case True
      show ?thesis
      proof (cases "scan_name pt (c # cp)")
        case None
        with True Cons s0 show ?thesis
          by (subst readtok.simps) (simp add: Let_def wps_evalerror after_changed)
      next
        case (Some r)
        obtain tok rest b where r: "r = (tok, rest, b)" by (cases r)
        let ?s1 = "?s0\<lparr>curlval := (if lv_tokstr (curlval s) \<noteq> None \<and> lv_tokstr (curlval s) = tokstr s
                                  then init_lvalue else curlval s), tokstr := Some tok\<rparr>"
        let ?sp = "?s1\<lparr>tokstr := None, tp := rest, noeval := 1, curtok := T_STR\<rparr>"
        have short: "length rest < length (tp s)"
          using scan_name_shorter [OF Some [unfolded r] True] len by simp
        then have peek: "wps (escaped ?sp) (\<lambda>_ s'. after ?sp s' \<and> tokens_left s' \<le> length (tp ?sp)) (readtok pt f ?sp)"
          using less.prems by (intro less.hyps) (simp_all add: deep_def)
        show ?thesis
        proof (cases "readtok pt f ?sp")
          case (Pair p s2)
          show ?thesis
          proof (cases p)
            case (Inl e)
            with peek Pair have "escaped ?sp e s2" by simp
            then have "escaped s e s2" by (rule escaped_same [rotated 2]) simp_all
            with Inl Pair True Cons Some r show ?thesis
              by (subst readtok.simps) (simp add: Let_def del: One_nat_def)
          next
            case (Inr u)
            let ?s3 = "RESTORETOK (SAVETOK ?s1) s2"
            from peek Pair Inr have "after ?sp s2" by simp
            then have s3: "after s ?s3"
              by (simp add: after_def changed_def RESTORETOK_def SAVETOK_def V_refl)
            have fin: "after s (s''\<lparr>tokval := v, lasttok := curtok s'', curtok := T_STR, tp := rest\<rparr>) \<and>
                tokens_left (s''\<lparr>tokval := v, lasttok := curtok s'', curtok := T_STR, tp := rest\<rparr>) \<le> length (tp s)"
              if "after s s''" for v s''
              using that short by (simp add: after_def changed_def tokens_left_def)
            have s3': "after s (?s3\<lparr>lastlval := curlval ?s3\<rparr>)"
              using s3 by (simp add: after_def changed_def)
            have "wps (escaped s) ?Q (ebind (\<lambda>s. expr_streval pt f tok b (s\<lparr>lastlval := curlval s\<rparr>))
                (\<lambda>v s. (Inr (), s\<lparr>tokval := v, lasttok := curtok s, curtok := T_STR, tp := rest\<rparr>)) ?s3)"
              using wps_streval [OF sub s3' less.prems, of ?Q
                  "\<lambda>v s. (Inr (), s\<lparr>tokval := v, lasttok := curtok s, curtok := T_STR, tp := rest\<rparr>)" tok b] fin
              by (simp add: wps_ebind)
            moreover have "wps (escaped s) ?Q (ebind (eret 0)
                (\<lambda>v s. (Inr (), s\<lparr>tokval := v, lasttok := curtok s, curtok := T_STR, tp := rest\<rparr>)) ?s3)"
              using fin [OF s3] by simp
            ultimately show ?thesis
              using Inr Pair True Cons Some r
              by (subst readtok.simps) (simp add: Let_def del: One_nat_def)
          qed
        qed
      qed
    next
      case name: False
      show ?thesis
      proof (cases "c_isdigit c")
        case True
        then have "number_char c" by (simp add: number_char_def c_isalnum_def)
        then have short: "length (dropWhile number_char (c # cp)) \<le> length cp"
          using dropWhile_length_le [of number_char cp] by simp
        show ?thesis
        proof (cases "strlong (takeWhile number_char (c # cp))")
          case (Inl msg)
          with name True Cons after_changed [OF s0] show ?thesis
            unfolding readtok.simps [of pt f s] Cons list.case Let_def by (simp add: wps_evalerror)
        next
          case (Inr v)
          with short len V_refl show ?thesis
            by (simp add: readtok_number [OF Cons True name Inr] tokens_left_def after_def changed_def del: dropWhile.simps)
        qed
      next
        case False
        show ?thesis
        proof (cases "read_operator (curtok s) (lasttok s) c cp")
          case (Lex_error msg)
          with name False Cons after_changed [OF s0] show ?thesis
            unfolding readtok.simps [of pt f s] Cons list.case Let_def by (simp add: wps_evalerror)
        next
          case (Lexeme t a rest)
          with read_operator_shorter [OF Lexeme] len V_refl show ?thesis
            by (simp add: readtok_operator [OF Cons False name Lexeme] tokens_left_def after_def changed_def)
        qed
      qed
    qed
  qed
qed

lemma good_readtok: "good_sub d f \<Longrightarrow> good_lexer d (readtok pt f)"
  by (simp add: good_lexer_def wps_readtok)

lemma good_subexpr: "good_sub d (subexpr d pt)"
proof (induction d)
  case 0
  then show ?case by (simp add: good_sub_def deep_def)
next
  case (Suc d)
  show ?case
    unfolding good_sub_def
  proof (intro allI impI)
    fix t and s :: "'a expr_state"
    assume deep: "deep (Suc d) s"
    let ?lx = "readtok pt (subexpr d pt)"
    let ?s1 = "start_expression t (s\<lparr>expr_stack := (SAVETOK s)\<lparr>c_expression := expression s\<rparr> # expr_stack s\<rparr>)"
    let ?Q = "\<lambda>_ s'. after s s' \<and> same_tokens s s'"
    have lx: "good_lexer d ?lx" using Suc.IH by (rule good_readtok)
    have parse: "good d (length t + 1) (parse pt ?lx (length t + 2) L_comma)"
      using good_parse [OF lx, of "length t + 2"] by (simp add: good_recs_def)
    have esc: "escaped ?s1 e s' \<Longrightarrow> escaped s e s'" for e s'
      by (simp add: escaped_def changed_def start_expression_def split: if_splits)
    show "wps (escaped s) ?Q (subexpr (Suc d) pt t s)"
    proof (cases "dropWhile cr_whitespace t = []")
      case True
      then show ?thesis by (simp add: after_refl same_tokens_def)
    next
      case blank: False
      show ?thesis
      proof (cases "MAX_EXPR_RECURSION_LEVEL \<le> length (expr_stack s)")
        case True
        with blank show ?thesis
          by (auto simp: wps_ebind pushexp_def wps_evalerror changed_def V_refl)
      next
        case room: False
        with deep have deep1: "deep d ?s1" by (simp add: deep_def start_expression_def)
        have fin: "wps (escaped s) ?Q
            (if curtok s3 \<noteq> T_END then evalerror ''arithmetic syntax error in expression'' s3
             else ebind popexp (\<lambda>_. eret val) s3)" if "after ?s1 s3" for s3 val
          using that
          by (auto simp: wps_ebind wps_evalerror popexp_def after_def changed_def start_expression_def
              same_tokens_def RESTORETOK_def SAVETOK_def)
        have "wps (escaped ?s1) (\<lambda>_ s2. after ?s1 s2 \<and> tokens_left s2 \<le> length t) (?lx ?s1)"
          using spec [OF lx [unfolded good_lexer_def], of ?s1] deep1 by (simp add: start_expression_def)
        then have "wps (escaped s) (\<lambda>_ s2. wps (escaped s) ?Q
             (ebind (parse pt ?lx (length t + 2) L_comma) (\<lambda>val s.
               if curtok s \<noteq> T_END then evalerror ''arithmetic syntax error in expression'' s
               else ebind popexp (\<lambda>_. eret val) s) s2)) (?lx ?s1)"
        proof (rule wps_mono2)
          fix u s2 assume s2: "after ?s1 s2 \<and> tokens_left s2 \<le> length t"
          then have "after ?s1 s2" "tokens_left s2 \<le> length t + 1" by auto
          then have "wps (escaped s2) (\<lambda>_ s3. after s2 s3 \<and> tokens_left s3 \<le> tokens_left s2)
              (parse pt ?lx (length t + 2) L_comma s2)"
            by (intro goodD [OF parse] deep_after [THEN iffD2, OF _ deep1])
          then have "wps (escaped s) (\<lambda>val s3. wps (escaped s) ?Q
               (if curtok s3 \<noteq> T_END then evalerror ''arithmetic syntax error in expression'' s3
                else ebind popexp (\<lambda>_. eret val) s3)) (parse pt ?lx (length t + 2) L_comma s2)"
          proof (rule wps_mono2)
            fix val s3 assume "after s2 s3 \<and> tokens_left s3 \<le> tokens_left s2"
            with \<open>after ?s1 s2\<close> have "after ?s1 s3" by (blast intro: after_trans)
            then show "wps (escaped s) ?Q
               (if curtok s3 \<noteq> T_END then evalerror ''arithmetic syntax error in expression'' s3
                else ebind popexp (\<lambda>_. eret val) s3)" by (rule fin)
          next
            fix e s3 assume "escaped s2 e s3"
            with \<open>after ?s1 s2\<close> have "escaped ?s1 e s3" by (rule after_escaped)
            then show "escaped s e s3" by (rule esc)
          qed
          then show "wps (escaped s) ?Q (ebind (parse pt ?lx (length t + 2) L_comma) (\<lambda>val s.
               if curtok s \<noteq> T_END then evalerror ''arithmetic syntax error in expression'' s
               else ebind popexp (\<lambda>_. eret val) s) s2)"
            by (simp only: wps_ebind)
        qed (rule esc)
        moreover have "subexpr (Suc d) pt t s = ebind ?lx (\<lambda>_. ebind (parse pt ?lx (length t + 2) L_comma) (\<lambda>val s.
               if curtok s \<noteq> T_END then evalerror ''arithmetic syntax error in expression'' s
               else ebind popexp (\<lambda>_. eret val) s)) ?s1"
          using blank room by (auto simp: ebind_def [of pushexp] pushexp_def)
        ultimately show ?thesis by (simp only: wps_ebind)
      qed
    qed
  qed
qed

lemma wps_evalexp:
  "wps (\<lambda>e s'. e \<noteq> No_fuel \<and> V (shell s) (shell s')) (\<lambda>_ s'. V (shell s) (shell s') \<and> noeval s' = 0) (evalexp pt t s)"
proof -
  let ?s = "s\<lparr>noeval := 0\<rparr>"
  have "wps (escaped ?s) (\<lambda>_ s'. after ?s s' \<and> same_tokens ?s s') (subexpr (Suc MAX_EXPR_RECURSION_LEVEL) pt t ?s)"
    using good_subexpr [of "Suc MAX_EXPR_RECURSION_LEVEL"] unfolding good_sub_def deep_def
    by (auto simp del: subexpr.simps)
  then show ?thesis
    by (cases "subexpr (Suc MAX_EXPR_RECURSION_LEVEL) pt t ?s"; cases "fst (subexpr (Suc MAX_EXPR_RECURSION_LEVEL) pt t ?s)")
      (auto simp: evalexp_def escaped_def after_def changed_def simp del: subexpr.simps split: escape.splits)
qed

end

section \<open>Properties\<close>

text \<open>Nothing said about the shell: the facts on termination and on operands that are not evaluated.\<close>

interpretation any_change: shell_change pt "\<lambda>_ _. True" for pt
  by unfold_locales simp_all

text \<open>C8: Evaluation ends: for every text, all variables (also such as \<open>x\<close> with the value \<open>x+1\<close>) and
  all answers of the array ports, \<open>evalexp\<close> comes back with a value, with the mark of an invalid
  expression or by a jump to the top level; the model's bound on recursion is never reached.\<close>

theorem evalexp_terminates: "fst (evalexp pt t s) \<noteq> Inl No_fuel"
  using any_change.wps_evalexp [where s = s and pt = pt and t = t]
  by (cases "evalexp pt t s"; cases "fst (evalexp pt t s)") auto

text \<open>C28: What the parser reads while \<open>noeval\<close> is raised (the operand of \<open>&&\<close> and \<open>||\<close> that does not
  matter, the branch of \<open>?:\<close> that is not taken) changes nothing: whatever the operand is, with its
  assignments, increments and variables, and whether or not reading it ends in an error, the shell
  is as before, and \<open>noeval\<close> is put back.\<close>

theorem unevaluated_operand_has_no_effect:
  assumes "noeval s \<noteq> 0" and "expr_stack s \<noteq> []" and "tokens_left s < n"
  shows "(case parse pt (readtok pt (subexpr MAX_EXPR_RECURSION_LEVEL pt)) n nt s of
      (r, s') \<Rightarrow> shell s' = shell s \<and> r \<noteq> Inl No_fuel \<and> (\<forall>v. r = Inr v \<longrightarrow> noeval s' = noeval s))"
proof -
  let ?m = "parse pt (readtok pt (subexpr MAX_EXPR_RECURSION_LEVEL pt)) n nt"
  have deep: "deep MAX_EXPR_RECURSION_LEVEL s"
    using assms(2) by (simp add: deep_def MAX_EXPR_RECURSION_LEVEL_def)
  have good: "any_change.good MAX_EXPR_RECURSION_LEVEL (tokens_left s) ?m"
    using any_change.good_parse [OF any_change.good_readtok [OF any_change.good_subexpr],
        where d = MAX_EXPR_RECURSION_LEVEL and n = n and pt = pt] assms(3)
    by (simp add: any_change.good_recs_def)
  obtain r s' where m: "?m s = (r, s')" by fastforce
  have "wps (any_change.escaped s) (\<lambda>_ s'. any_change.after s s' \<and> tokens_left s' \<le> tokens_left s) (r, s')"
    unfolding m [symmetric] by (rule any_change.goodD [OF good deep order_refl])
  with assms(1) m show ?thesis
    by (cases r) (auto simp: any_change.escaped_def any_change.after_def any_change.changed_def split: if_splits)
qed

text \<open>A variable that is readonly, or that refuses assignments, keeps its value and its attributes.\<close>

definition keeps_readonly :: "'a eshell \<Rightarrow> 'a eshell \<Rightarrow> bool" where
  "keeps_readonly sh sh' \<longleftrightarrow> (\<forall>x v. shell_variables sh x = Some v \<longrightarrow> var_readonly v \<or> var_noassign v \<longrightarrow>
     (\<exists>v'. shell_variables sh' x = Some v' \<and> var_value v' = var_value v \<and>
           var_readonly v' = var_readonly v \<and> var_noassign v' = var_noassign v))"

lemma keeps_readonly_refl: "keeps_readonly sh sh"
  by (simp add: keeps_readonly_def)

lemma keeps_readonly_trans: "keeps_readonly sh sh' \<Longrightarrow> keeps_readonly sh' sh'' \<Longrightarrow> keeps_readonly sh sh''"
  unfolding keeps_readonly_def by metis

lemma bind_keeps_readonly: "keeps_readonly sh (snd (bind_int_variable lhs rhs sh))"
  by (auto simp: keeps_readonly_def bind_int_variable_def split: option.split)

text \<open>C29: Whatever an expression assigns (with \<open>=\<close>, \<open>op=\<close>, \<open>++\<close> and \<open>--\<close>, in the expression or in the
  value of a variable it reads), a readonly variable keeps its value, also when the evaluation
  fails half way, as long as the array ports respect readonly variables.\<close>

theorem evaluation_keeps_readonly_variables:
  assumes "\<And>lhs rhs sh. keeps_readonly sh (snd (assign_array_element pt lhs rhs sh))"
    and "\<And>tok sh. keeps_readonly sh (snd (get_array_value pt tok sh))"
  shows "keeps_readonly (shell s) (shell (snd (evalexp pt t s)))"
proof -
  have change: "shell_change pt keeps_readonly"
    using assms by unfold_locales (auto intro: keeps_readonly_refl bind_keeps_readonly elim: keeps_readonly_trans)
  show ?thesis
    using shell_change.wps_evalexp [OF change, where s = s and t = t]
    by (cases "evalexp pt t s"; cases "fst (evalexp pt t s)") auto
qed

section \<open>Concrete instances\<close>

text \<open>Ports of a shell none of whose variables is an array: a subscript ends at the next bracket, a
  subscripted name reads the scalar, and there is no element to assign to.\<close>

definition scalar_ports :: "unit expr_ports" where
  "scalar_ports =
     \<lparr>skipsubscript = (\<lambda>cp. length (takeWhile (\<lambda>c. c \<noteq> CHR '']'') cp)),
      array_variable_part = (\<lambda>tok sh. shell_variables sh (array_variable_name tok)),
      get_array_value = (\<lambda>tok sh. (Some (case shell_variables sh (array_variable_name tok) of
          None \<Rightarrow> None | Some v \<Rightarrow> var_value v, - 1), sh)),
      assign_array_element = (\<lambda>lhs rhs sh. (True, sh))\<rparr>"

definition demo_var :: "cstring \<Rightarrow> bool \<Rightarrow> shell_var" where
  "demo_var t ro = \<lparr>var_value = Some t, var_readonly = ro, var_noassign = False, var_invisible = False\<rparr>"

definition demo_state :: "cstring \<Rightarrow> nat \<Rightarrow> unit expr_state" where
  "demo_state t nv = \<lparr>expression = Some t, tp = t, lasttp = None, curtok = T_END, lasttok = T_END, assigntok = T_END,
     tokval = 0, tokstr = None, noeval = nv, curlval = init_lvalue, lastlval = init_lvalue,
     expr_stack = [\<lparr>c_curtok = T_END, c_lasttok = T_END, c_expression = None, c_tp = [], c_lasttp = None,
       c_tokval = 0, c_tokstr = None, c_noeval = 0, c_lval = init_lvalue\<rparr>],
     shell = \<lparr>shell_variables = [''x'' \<mapsto> demo_var ''7'' True, ''y'' \<mapsto> demo_var ''x+1'' False],
       unbound_vars_is_error = False, array_vars = ()\<rparr>, diagnostics = []\<rparr>"

theorem unevaluated_operand_has_no_effect_witness:
  "shell (snd (parse scalar_ports (readtok scalar_ports (subexpr MAX_EXPR_RECURSION_LEVEL scalar_ports)) 20 L_comma
     (demo_state ''y = 1 / 0'' 1))) = shell (demo_state ''y = 1 / 0'' 1)"
  using unevaluated_operand_has_no_effect [of "demo_state ''y = 1 / 0'' 1" 20 scalar_ports L_comma]
  by (simp add: demo_state_def tokens_left_def split: prod.splits)

theorem evaluation_keeps_readonly_variables_witness:
  "\<exists>v. shell_variables (shell (snd (evalexp scalar_ports ''y = 3, x = 5'' (demo_state [] 0)))) ''x'' = Some v \<and>
     var_value v = Some ''7''"
proof -
  have "keeps_readonly (shell (demo_state [] 0)) (shell (snd (evalexp scalar_ports ''y = 3, x = 5'' (demo_state [] 0))))"
    by (rule evaluation_keeps_readonly_variables) (simp_all add: scalar_ports_def keeps_readonly_refl)
  moreover have "shell_variables (shell (demo_state [] 0)) ''x'' = Some (demo_var ''7'' True)"
    by (simp add: demo_state_def)
  ultimately show ?thesis unfolding keeps_readonly_def by (fastforce simp: demo_var_def)
qed

end
