(* ===== verification/Arith_Correct.thy ===== *)
theory Arith_Correct
  imports Arith_Sem Arith_Safe
begin

text \<open>
  The evaluator computes the meaning of a printed expression. \<open>lev p\<close> is the parser's function of
  level \<open>p\<close> and \<open>loop p\<close> what it does after its first operand. The invariant \<open>claim\<close> says of a text
  that reading it at a level comes to the level's loop with the value of the tree, at the token
  that follows; it is proved by induction on the tree.
\<close>

section \<open>The levels by number\<close>

definition lev :: "'a expr_ports \<Rightarrow> 'a lexer \<Rightarrow> nat \<Rightarrow> nat \<Rightarrow> ('a, i64) eval" where
  "lev pt lx n p =
     (let rec = parse pt lx n
      in if p = 0 then expcomma pt n lx rec else if p = 1 then expassign pt n lx rec
         else if p = 2 then expcond pt n lx rec else if p = 3 then explor pt n lx rec
         else if p = 4 then expland pt n lx rec else if p = 5 then expbor pt n lx rec
         else if p = 6 then expbxor pt n lx rec else if p = 7 then expband pt n lx rec
         else if p = 8 then expeq pt n lx rec else if p = 9 then expcompare pt n lx rec
         else if p = 10 then expshift pt n lx rec else if p = 11 then expaddsub pt n lx rec
         else if p = 12 then expmuldiv pt n lx rec else if p = 13 then exppower pt n lx rec
         else expunary pt lx rec)"

lemma parse_lev:
  "parse pt lx (Suc n) L_comma = lev pt lx n 0" "parse pt lx (Suc n) L_assign = lev pt lx n 1"
  "parse pt lx (Suc n) L_cond = lev pt lx n 2" "parse pt lx (Suc n) L_power = lev pt lx n 13"
  "parse pt lx (Suc n) L_unary = lev pt lx n 14"
  by (simp_all add: level_def lev_def)

text \<open>The end of one round of an arithmetic loop.\<close>

definition combine :: "token \<Rightarrow> i64 \<Rightarrow> i64 \<Rightarrow> cstring \<Rightarrow> ('a, i64) eval" where
  "combine t a b stp =
     (if token_level t = Some 12 then muldiv_value t a b stp else set_lasttok NUM (the (bin_value t a b)))"

definition assign_cont :: "'a expr_ports \<Rightarrow> 'a lexer \<Rightarrow> nat \<Rightarrow> i64 \<Rightarrow> ('a, i64) eval" where
  "assign_cont pt lx n value s =
       (if curtok s = EQ \<or> curtok s = OP_ASSIGN then
         (if lasttok s \<noteq> T_STR then evalerror ''attempted assignment to non-variable'' s
          else (case tokstr s of
              None \<Rightarrow> evalerror ''arithmetic syntax error in variable assignment'' s
            | Some lhs \<Rightarrow>
                (let special = (curtok s = OP_ASSIGN); op = assigntok s; lind = lv_ind (curlval s)
                 in ebind lx (\<lambda>_. ebind (parse pt lx n L_assign) (\<lambda>rvalue.
                      ebind (if special then assign_op op value rvalue else eret rvalue) (\<lambda>v.
                        ebind (bind_lvalue pt lhs lind (itos v)) (\<lambda>_ s.
                          (Inr v, s\<lparr>curlval := (if lv_tokstr (curlval s) \<noteq> None \<and> lv_tokstr (curlval s) = tokstr s
                                                then init_lvalue else curlval s),
                                    tokstr := None\<rparr>))))) s)))
       else (Inr value, s))"

definition cond_cont :: "'a expr_ports \<Rightarrow> 'a lexer \<Rightarrow> nat \<Rightarrow> i64 \<Rightarrow> ('a, i64) eval" where
  "cond_cont pt lx n cval s =
      (if curtok s = QUES then
         ebind (guarded (cval = 0) (ebind lx (\<lambda>_ s.
                  if curtok s = T_END \<or> curtok s = COL then evalerror ''expression expected'' s
                  else parse pt lx n L_comma s)))
           (\<lambda>val1 s.
             if curtok s \<noteq> COL then evalerror ([CHR 0x60] @ '':'' @ [CHR 0x27] @ '' expected for conditional expression'') s
             else ebind (guarded (cval \<noteq> 0) (ebind lx (\<lambda>_ s.
                           if curtok s = T_END then evalerror ''expression expected'' s else parse pt lx n L_cond s)))
                    (\<lambda>val2. set_lasttok COND (if cval \<noteq> 0 then val1 else val2)) s) s
       else (Inr cval, s))"

definition loop :: "'a expr_ports \<Rightarrow> 'a lexer \<Rightarrow> nat \<Rightarrow> nat \<Rightarrow> nat \<Rightarrow> i64 \<Rightarrow> ('a, i64) eval" where
  "loop pt lx n p k v =
     (if p = 0 then while_tok k (\<lambda>t. t = COMMA) (\<lambda>op value. ebind lx (\<lambda>_. lev pt lx n 1)) v
      else if p = 1 then assign_cont pt lx n v
      else if p = 2 then cond_cont pt lx n v
      else if p = 3 then while_tok k (\<lambda>t. t = LOR) (\<lambda>op val1.
         ebind (guarded (val1 \<noteq> 0) (ebind lx (\<lambda>_. lev pt lx n 4))) (\<lambda>val2. set_lasttok LOR (truth (val1 \<noteq> 0 \<or> val2 \<noteq> 0)))) v
      else if p = 4 then while_tok k (\<lambda>t. t = LAND) (\<lambda>op val1.
         ebind (guarded (val1 = 0) (ebind lx (\<lambda>_. lev pt lx n 5))) (\<lambda>val2. set_lasttok LAND (truth (val1 \<noteq> 0 \<and> val2 \<noteq> 0)))) v
      else if p \<le> 12 then while_tok k (\<lambda>t. token_level t = Some p) (\<lambda>op val1 s.
         ebind lx (\<lambda>_. ebind (lev pt lx n (Suc p)) (\<lambda>val2. combine op val1 val2 (tp s))) s) v
      else if p = 13 then exppower_loop k lx (parse pt lx n) v
      else eret v)"

lemma loop_eqs:
  "loop pt lx n 0 k = while_tok k (\<lambda>t. t = COMMA) (\<lambda>op value. ebind lx (\<lambda>_. lev pt lx n 1))"
  "loop pt lx n (Suc 0) k = assign_cont pt lx n"
  "loop pt lx n 2 k = cond_cont pt lx n"
  "loop pt lx n 3 k = while_tok k (\<lambda>t. t = LOR) (\<lambda>op val1.
     ebind (guarded (val1 \<noteq> 0) (ebind lx (\<lambda>_. lev pt lx n 4))) (\<lambda>val2. set_lasttok LOR (truth (val1 \<noteq> 0 \<or> val2 \<noteq> 0))))"
  "loop pt lx n 4 k = while_tok k (\<lambda>t. t = LAND) (\<lambda>op val1.
     ebind (guarded (val1 = 0) (ebind lx (\<lambda>_. lev pt lx n 5))) (\<lambda>val2. set_lasttok LAND (truth (val1 \<noteq> 0 \<and> val2 \<noteq> 0))))"
  "loop pt lx n 13 k = exppower_loop k lx (parse pt lx n)"
  "loop pt lx n 14 k = eret"
  by (rule ext, simp add: loop_def)+

lemma loop_arith:
  "5 \<le> p \<Longrightarrow> p \<le> 12 \<Longrightarrow> loop pt lx n p k = while_tok k (\<lambda>t. token_level t = Some p) (\<lambda>op val1 s.
         ebind lx (\<lambda>_. ebind (lev pt lx n (Suc p)) (\<lambda>val2. combine op val1 val2 (tp s))) s)"
  by (rule ext) (simp add: loop_def)

lemma word_of_int_sint: "word_of_int (sint a + sint b) = a + b" "word_of_int (sint a - sint b) = a - b"
  "word_of_int (sint a * sint b) = a * b" "word_of_int (- sint a) = - a" for a b :: i64
  by (simp_all add: wi_hom_syms)

lemma token_cases_level:
  "token_level t = Some 5 \<longleftrightarrow> t = BOR" "token_level t = Some 6 \<longleftrightarrow> t = BXOR" "token_level t = Some 7 \<longleftrightarrow> t = BAND"
  "token_level t = Some 8 \<longleftrightarrow> t = EQEQ \<or> t = NEQ"
  "token_level t = Some 9 \<longleftrightarrow> t = LEQ \<or> t = GEQ \<or> t = LT \<or> t = GT"
  "token_level t = Some 10 \<longleftrightarrow> t = LSH \<or> t = RSH" "token_level t = Some 11 \<longleftrightarrow> t = PLUS \<or> t = MINUS"
  "token_level t = Some 12 \<longleftrightarrow> t = MUL \<or> t = DIV \<or> t = MOD" "token_level t = Some 13 \<longleftrightarrow> t = POWER"
  "token_level t = Some 0 \<longleftrightarrow> t = COMMA" "token_level t = Some 1 \<longleftrightarrow> t = EQ \<or> t = OP_ASSIGN"
  "token_level t = Some 2 \<longleftrightarrow> t = QUES" "token_level t = Some 3 \<longleftrightarrow> t = LOR" "token_level t = Some 4 \<longleftrightarrow> t = LAND"
  by (cases t; simp)+

lemma while_tok_cong:
  assumes "\<And>t. ops t = ops' t" and "\<And>op v s. ops op \<Longrightarrow> curtok s = op \<Longrightarrow> body op v s = body' op v s"
  shows "while_tok k ops body v = while_tok k ops' body' v"
proof (induction k arbitrary: v)
  case 0
  with assms(1) show ?case by (simp add: fun_eq_iff)
next
  case (Suc k)
  with assms show ?case by (auto simp: fun_eq_iff ebind_def split: sum.splits prod.splits)
qed

lemma while_tok_stop: "\<not> ops (curtok s) \<Longrightarrow> while_tok k ops body v s = (Inr v, s)"
  by (cases k) simp_all

lemma left_assoc_loop:
  assumes "\<And>t. ops t \<longleftrightarrow> token_level t = Some p" and "5 \<le> p" and "p < 12" and q: "q = Suc p"
    and "\<And>t a b. ops t \<Longrightarrow> bin_value t a b = Some (f t a b)"
  shows "left_assoc n lx ops f (lev pt lx n q) = ebind (lev pt lx n q) (loop pt lx n p n)"
proof -
  have "loop pt lx n p n v = while_tok n ops (\<lambda>op val1. ebind lx (\<lambda>_. ebind (lev pt lx n q)
          (\<lambda>val2. set_lasttok NUM (f op val1 val2)))) v" for v
    using assms by (auto simp: loop_arith combine_def intro!: while_tok_cong)
  then have "loop pt lx n p n = while_tok n ops (\<lambda>op val1. ebind lx (\<lambda>_. ebind (lev pt lx n q)
          (\<lambda>val2. set_lasttok NUM (f op val1 val2))))"
    by (rule ext)
  then show ?thesis by (simp add: left_assoc_def)
qed

lemma lev_step: "p < 14 \<Longrightarrow> lev pt lx n p = ebind (lev pt lx n (Suc p)) (loop pt lx n p n)"
proof -
  assume "p < 14"
  then have "p \<in> set [0..<14]" by simp
  then consider "p = 0" | "p = 1" | "p = 2" | "p = 3" | "p = 4" | "p = 5" | "p = 6" | "p = 7" | "p = 8" | "p = 9"
    | "p = 10" | "p = 11" | "p = 12" | "p = 13" 
    by (simp add: upt_rec numeral_eq_Suc) fast
  then show ?thesis
  proof cases
    case 1 then show ?thesis by (simp add: lev_def loop_eqs Let_def expcomma_def)
  next
    case 2 then show ?thesis by (simp add: lev_def loop_eqs Let_def expassign_def assign_cont_def [abs_def])
  next
    case 3 then show ?thesis by (simp add: lev_def loop_eqs Let_def expcond_def cond_cont_def [abs_def])
  next
    case 4 then show ?thesis by (simp add: lev_def loop_eqs Let_def explor_def)
  next
    case 5 then show ?thesis by (simp add: lev_def loop_eqs Let_def expland_def)
  next
    case 6
    have "left_assoc n lx (\<lambda>t. t = BOR)
        (\<lambda>op v1 v2. v1 OR v2) (lev pt lx n 6) = ebind (lev pt lx n 6) (loop pt lx n 5 n)"
      by (rule left_assoc_loop) (auto simp: token_cases_level bin_value_def word_of_int_sint)
    with 6 show ?thesis by (simp add: lev_def Let_def expbor_def)
  next
    case 7
    have "left_assoc n lx (\<lambda>t. t = BXOR)
        (\<lambda>op v1 v2. v1 XOR v2) (lev pt lx n 7) = ebind (lev pt lx n 7) (loop pt lx n 6 n)"
      by (rule left_assoc_loop) (auto simp: token_cases_level bin_value_def word_of_int_sint)
    with 7 show ?thesis by (simp add: lev_def Let_def expbxor_def)
  next
    case 8
    have "left_assoc n lx (\<lambda>t. t = BAND)
        (\<lambda>op v1 v2. v1 AND v2) (lev pt lx n 8) = ebind (lev pt lx n 8) (loop pt lx n 7 n)"
      by (rule left_assoc_loop) (auto simp: token_cases_level bin_value_def word_of_int_sint)
    with 8 show ?thesis by (simp add: lev_def Let_def expband_def)
  next
    case 9
    have "left_assoc n lx (\<lambda>t. t = EQEQ \<or> t = NEQ)
        (\<lambda>op v1 v2. truth (if op = EQEQ then v1 = v2 else v1 \<noteq> v2)) (lev pt lx n 9) = ebind (lev pt lx n 9) (loop pt lx n 8 n)"
      by (rule left_assoc_loop) (auto simp: token_cases_level bin_value_def word_of_int_sint)
    with 9 show ?thesis by (simp add: lev_def Let_def expeq_def)
  next
    case 10
    have "left_assoc n lx (\<lambda>t. t = LEQ \<or> t = GEQ \<or> t = LT \<or> t = GT)
        (\<lambda>op v1 v2. truth (if op = LEQ then sint v1 \<le> sint v2 else if op = GEQ then sint v1 \<ge> sint v2 else if op = LT then sint v1 < sint v2 else sint v1 > sint v2)) (lev pt lx n 10) = ebind (lev pt lx n 10) (loop pt lx n 9 n)"
      by (rule left_assoc_loop) (auto simp: token_cases_level bin_value_def word_of_int_sint)
    with 10 show ?thesis by (simp add: lev_def Let_def expcompare_def)
  next
    case 11
    have "left_assoc n lx (\<lambda>t. t = LSH \<or> t = RSH)
        (\<lambda>op v1 v2. if op = LSH then c_shl v1 v2 else c_shr v1 v2) (lev pt lx n 11) = ebind (lev pt lx n 11) (loop pt lx n 10 n)"
      by (rule left_assoc_loop) (auto simp: token_cases_level bin_value_def word_of_int_sint)
    with 11 show ?thesis by (simp add: lev_def Let_def expshift_def)
  next
    case 12
    have "left_assoc n lx (\<lambda>t. t = PLUS \<or> t = MINUS)
        (\<lambda>op v1 v2. if op = PLUS then v1 + v2 else v1 - v2) (lev pt lx n 12) = ebind (lev pt lx n 12) (loop pt lx n 11 n)"
      by (rule left_assoc_loop) (auto simp: token_cases_level bin_value_def word_of_int_sint)
    with 12 show ?thesis by (simp add: lev_def Let_def expaddsub_def)
  next
    case 13
    have "while_tok n (\<lambda>t. t = MUL \<or> t = DIV \<or> t = MOD)
         (\<lambda>op val1 s. ebind lx (\<lambda>_. ebind (lev pt lx n 13) (\<lambda>val2. muldiv_value op val1 val2 (tp s))) s) = loop pt lx n 12 n"
      by (rule ext) (auto simp: loop_arith combine_def token_cases_level intro!: while_tok_cong)
    with 13 show ?thesis by (simp add: lev_def expmuldiv_def Let_def)
  next
    case 14 then show ?thesis by (simp add: lev_def loop_eqs Let_def exppower_def)
  qed
qed

text \<open>A loop is over when the token in hand is not one of its operators.\<close>

lemma loop_quiet:
  assumes "p \<le> 14" and "token_level (curtok s) \<noteq> Some p"
  shows "loop pt lx n p k v s = (Inr v, s)"
proof -
  from assms(1) consider "p = 0" | "p = 1" | "p = 2" | "p = 3" | "p = 4" | "5 \<le> p" "p \<le> 12" | "p = 13" | "p = 14" by arith
  then show ?thesis
    using assms(2)
    by cases (auto simp: loop_def while_tok_stop assign_cont_def cond_cont_def token_cases_level eret_def, cases k, simp_all)
qed

section \<open>Texts and tokens\<close>

definition blank_less :: "cstring \<Rightarrow> cstring" where
  "blank_less s = dropWhile cr_whitespace s"

text \<open>The text \<open>rest\<close> goes on with the operator (or the end) \<open>t\<close>, with \<open>rest'\<close> after it; the operator
  in front of an equals sign is \<open>a\<close>.\<close>

definition goes_on :: "cstring \<Rightarrow> token \<Rightarrow> token option \<Rightarrow> cstring \<Rightarrow> bool" where
  "goes_on rest t a rest' \<longleftrightarrow>
     (case blank_less rest of
        [] \<Rightarrow> t = T_END \<and> a = None \<and> rest' = []
      | c # cp \<Rightarrow> \<not> legal_variable_starter c \<and> \<not> c_isdigit c \<and>
          (\<forall>cur prev. read_operator cur prev c cp = Lexeme t a rest'))"

lemma readtok_goes_on:
  assumes "goes_on (tp s) t a rest'"
  shows "\<exists>lp. readtok pt f s = (Inr (), s\<lparr>lasttp := lp, assigntok := (case a of None \<Rightarrow> assigntok s | Some a \<Rightarrow> a),
           lasttok := curtok s, curtok := t, tp := rest'\<rparr>)"
proof (cases "blank_less (tp s)")
  case Nil
  with assms have "t = T_END" "a = None" "rest' = []" by (simp_all add: goes_on_def)
  moreover have b: "dropWhile cr_whitespace (tp s) = []" using Nil unfolding blank_less_def .
  ultimately show ?thesis by (intro exI [of _ "lasttp s"]) (simp add: readtok_end [OF b])
next
  case (Cons c cp)
  with assms show ?thesis
    by (intro exI [of _ "Some (c # cp)"], subst readtok_operator [of s c cp t a rest'])
      (auto simp: goes_on_def blank_less_def)
qed

lemma goes_on_length: "goes_on rest t a rest' \<Longrightarrow> length rest' + (if t = T_END then 0 else 1) \<le> length rest"
proof -
  assume g: "goes_on rest t a rest'"
  show ?thesis
  proof (cases "blank_less rest")
    case Nil
    with g show ?thesis by (simp add: goes_on_def)
  next
    case (Cons c cp)
    with g have "read_operator T_END T_END c cp = Lexeme t a rest'" by (simp add: goes_on_def)
    from read_operator_shorter [OF this] blank_dropped_length [of cr_whitespace rest c cp] Cons
    show ?thesis by (simp add: blank_less_def)
  qed
qed

text \<open>What may stand after an operand, so that the operand ends there.\<close>

definition closes :: "cstring \<Rightarrow> bool" where
  "closes rest \<longleftrightarrow> rest = [] \<or> hd rest = CHR '' '' \<or> hd rest = CHR '')''"

text \<open>The characters an operand starts with.\<close>

definition operand_start :: "char \<Rightarrow> bool" where
  "operand_start c \<longleftrightarrow> legal_variable_starter c \<or> c_isdigit c \<or> c \<in> set ''(!~-+''"

lemma starter_digit: "c_isdigit c \<Longrightarrow> \<not> legal_variable_starter c"
  by (auto simp: c_isdigit_def legal_variable_starter_def c_isalpha_def less_eq_char_def)

lemma show_nat_start: "\<exists>c cs. show_nat n = c # cs \<and> c_isdigit c"
  using show_nat_digits [of n] by (cases "show_nat n") auto

definition operand_text :: "cstring \<Rightarrow> bool" where
  "operand_text s \<longleftrightarrow> s \<noteq> [] \<and> operand_start (hd s)"

lemma operand_text_append: "operand_text s \<Longrightarrow> operand_text (s @ r)"
  by (simp add: operand_text_def)

lemma print_at_text: "operand_text (print_exp a) \<Longrightarrow> operand_text (print_at p a)"
  by (simp add: operand_text_def parens_def operand_start_def)

lemma name_text: "valid_identifier x \<Longrightarrow> operand_text x"
  by (simp add: operand_text_def valid_identifier_def operand_start_def)

lemma token_text_text: "t \<in> unary_ops \<or> t = PREINC \<or> t = PREDEC \<Longrightarrow> operand_text (token_text t)"
  by (auto simp: operand_text_def operand_start_def unary_ops_def token_text_def)

lemma print_exp_text: "wf_aexp a \<Longrightarrow> operand_text (print_exp a)"
proof (induction a)
  case (Num n)
  then show ?case using show_nat_start [of n] by (auto simp: operand_text_def operand_start_def)
next
  case (Binop t a b)
  then show ?case
    by (cases "t = POWER") (simp_all add: Let_def operand_text_append print_at_text del: print_at.simps)
qed (simp_all add: operand_text_append print_at_text name_text token_text_text prefix_text_def del: print_at.simps)

lemma print_start: "wf_aexp a \<Longrightarrow> operand_text (print_at p a)"
  by (simp only: print_exp_text print_at_text)

lemma operand_start_simps:
  assumes "operand_start c"
  shows "\<not> cr_whitespace c" and "c \<noteq> CHR '':''" and "c \<noteq> CHR ''=''"
  using assms
  by (auto simp: operand_start_def cr_whitespace_def legal_variable_starter_def c_isalpha_def c_isdigit_def less_eq_char_def)

section \<open>Reading operands\<close>

lemma strlong_loop_dec:
  "list_all c_isdigit ds \<Longrightarrow> strlong_loop 10 fb v ds = Inr (v * 10 ^ length ds + of_nat (dec_value ds))"
proof (induction ds arbitrary: v)
  case Nil
  then show ?case by (simp add: dec_value_def)
next
  case (Cons c ds)
  have shift: "foldl (\<lambda>v c. 10 * v + digit_value c) k ds = k * 10 ^ length ds + dec_value ds" for k
    by (induction ds rule: rev_induct) (simp_all add: dec_value_def algebra_simps)
  from Cons.prems have c: "c_isdigit c" by simp
  then have "digit_value c < 10"
    by (auto simp: c_isdigit_def digit_value_def less_eq_char_def)
  moreover from c have "c \<noteq> CHR ''#''" by (auto simp: c_isdigit_def less_eq_char_def)
  moreover from c have "VALID_NUMCHAR c" "numchar_value 10 c = digit_value c"
    by (simp_all add: VALID_NUMCHAR_def c_isalnum_def numchar_value_def digit_value_def)
  moreover have "dec_value (c # ds) = digit_value c * 10 ^ length ds + dec_value ds"
    using shift [of "digit_value c"] by (simp add: dec_value_def)
  ultimately show ?case
    using Cons by (simp add: distrib_right)
qed

lemma strlong_show_nat: "strlong (show_nat n) = Inr (of_nat n)"
proof (cases "n = 0")
  case True
  moreover have "show_nat 0 = ''0''" by code_simp
  ultimately show ?thesis by (simp add: strlong_def)
next
  case False
  then have "hd (show_nat n) \<noteq> CHR ''0''" by (simp add: show_nat_head)
  then obtain c cs where cs: "show_nat n = c # cs" "c \<noteq> CHR ''0''" by (cases "show_nat n") auto
  then have "strlong (show_nat n) = strlong_loop 10 False 0 (show_nat n)" by (simp add: strlong_def)
  also have "\<dots> = Inr (of_nat n)" using strlong_loop_dec [OF show_nat_digits] by simp
  finally show ?thesis .
qed

lemma span_closes:
  assumes "list_all P xs" and "closes rest" and "\<not> P (CHR '' '')" and "\<not> P (CHR '')'')"
  shows "takeWhile P (xs @ rest) = xs" and "dropWhile P (xs @ rest) = rest"
  using assms by (induction xs; cases rest; auto simp: closes_def)+

lemma readtok_show_nat:
  assumes "blank_less (tp s) = show_nat n @ rest" and "closes rest"
  shows "\<exists>lp. readtok pt f s = (Inr (), s\<lparr>lasttp := lp, tokval := of_nat n, lasttok := curtok s, curtok := NUM, tp := rest\<rparr>)"
proof -
  obtain c cs where cs: "show_nat n = c # cs" "c_isdigit c" using show_nat_start by blast
  have nc: "list_all number_char (show_nat n)"
    using show_nat_digits [of n] by (induction "show_nat n") (auto simp: list_all_iff number_char_def c_isalnum_def)
  have stop: "\<not> number_char (CHR '' '')" "\<not> number_char (CHR '')'')"
    by (simp_all add: number_char_def c_isalnum_def c_isalpha_def c_isdigit_def less_eq_char_def)
  note span = span_closes [OF nc assms(2) stop]
  have "readtok pt f s = (Inr (), s\<lparr>lasttp := Some (c # cs @ rest), tokval := of_nat n, lasttok := curtok s, curtok := NUM,
           tp := dropWhile number_char (c # cs @ rest)\<rparr>)"
  proof (rule readtok_number)
    show "dropWhile cr_whitespace (tp s) = c # cs @ rest" using assms(1) cs by (simp add: blank_less_def)
    show "strlong (takeWhile number_char (c # cs @ rest)) = Inr (of_nat n)"
      using span(1) cs(1) strlong_show_nat [of n] by (simp del: takeWhile.simps)
  qed (use cs starter_digit in auto)
  then show ?thesis using span(2) cs(1) by (auto simp del: dropWhile.simps)
qed

section \<open>The claim\<close>

text \<open>The variables \<open>X\<close> of the shell hold the values of \<open>\<sigma>\<close>, written in decimal, and may be assigned.\<close>

definition holds_at :: "shell_var option \<Rightarrow> i64 option \<Rightarrow> bool" where
  "holds_at v w \<longleftrightarrow>
     (case w of
        None \<Rightarrow> v = None
      | Some w \<Rightarrow> (\<exists>u. v = Some u \<and> var_value u = Some (itos w) \<and> \<not> var_readonly u \<and> \<not> var_noassign u))"

definition holds :: "cstring set \<Rightarrow> 'a eshell \<Rightarrow> env \<Rightarrow> bool" where
  "holds X sh \<sigma> \<longleftrightarrow> \<not> unbound_vars_is_error sh \<and> (\<forall>x\<in>X. holds_at (shell_variables sh x) (\<sigma> x))"

definition ready :: "cstring set \<Rightarrow> env \<Rightarrow> 'a expr_state \<Rightarrow> bool" where
  "ready X \<sigma> s \<longleftrightarrow> lv_ind (curlval s) = - 1 \<and> length (expr_stack s) < MAX_EXPR_RECURSION_LEVEL \<and> holds X (shell s) \<sigma>"

definition arrives :: "cstring set \<Rightarrow> env \<Rightarrow> 'a expr_state \<Rightarrow> token \<Rightarrow> cstring \<Rightarrow> 'a expr_state \<Rightarrow> bool" where
  "arrives X \<sigma> s t rest s' \<longleftrightarrow> ready X \<sigma> s' \<and> curtok s' = t \<and> tp s' = rest \<and> noeval s' = noeval s \<and> expr_stack s' = expr_stack s"

text \<open>What an operand may come to: with \<open>noeval\<close>, any value and no change.\<close>

definition outcome :: "bool \<Rightarrow> aexp \<Rightarrow> env \<Rightarrow> i64 option \<times> env \<Rightarrow> bool" where
  "outcome unevaluated a \<sigma> r \<longleftrightarrow> (if unevaluated then fst r \<noteq> None \<and> snd r = \<sigma> else r = aeval a \<sigma>)"

text \<open>A run of level \<open>p\<close> from \<open>s\<close> ends with the result \<open>r\<close> before the token \<open>t\<close>.\<close>

definition ends :: "'a expr_ports \<Rightarrow> 'a lexer \<Rightarrow> cstring set \<Rightarrow> nat \<Rightarrow> nat \<Rightarrow> 'a expr_state \<Rightarrow> token \<Rightarrow> cstring \<Rightarrow>
    i64 option \<times> env \<Rightarrow> (escape + i64) \<times> 'a expr_state \<Rightarrow> bool" where
  "ends pt lx X n p s t rest r out \<longleftrightarrow>
     (case r of
        (None, \<sigma>) \<Rightarrow> (\<exists>s'. out = (Inl Longjmp_evalbuf, s') \<and> holds X (shell s') \<sigma>)
      | (Some v, \<sigma>) \<Rightarrow> (\<exists>s' k. out = loop pt lx n p k v s' \<and> tokens_left s' \<le> k \<and> arrives X \<sigma> s t rest s'))"

text \<open>The tokens that may follow at level \<open>p\<close>: of a lower level, or of the level itself where it
  associates to the left.\<close>

definition follow :: "nat \<Rightarrow> token \<Rightarrow> bool" where
  "follow p t \<longleftrightarrow> t \<noteq> EQ \<and> t \<noteq> OP_ASSIGN \<and>
     (case token_level t of None \<Rightarrow> True | Some l \<Rightarrow> l < p \<or> l = p \<and> l \<noteq> 2 \<and> l \<noteq> 13)"

definition claim :: "'a expr_ports \<Rightarrow> (cstring \<Rightarrow> ('a, i64) eval) \<Rightarrow> cstring set \<Rightarrow> aexp \<Rightarrow> cstring \<Rightarrow> nat \<Rightarrow> bool" where
  "claim pt f X a tx p \<longleftrightarrow>
     (\<forall>n s \<sigma> rest t rest'.
        blank_less (tp s) = tx @ rest \<longrightarrow> curtok s \<noteq> T_STR \<longrightarrow> curtok s \<noteq> NUM \<longrightarrow> ready X \<sigma> s \<longrightarrow>
        closes rest \<longrightarrow> goes_on rest t None rest' \<longrightarrow> follow p t \<longrightarrow> length (tp s) \<le> n \<longrightarrow>
        (\<exists>r. outcome (noeval s \<noteq> 0) a \<sigma> r \<and>
             ends pt (readtok pt f) X n p s t rest' r (ebind (readtok pt f) (\<lambda>_. lev pt (readtok pt f) n p) s)))"

lemma claimD:
  assumes "claim pt f X a tx p" and "blank_less (tp s) = tx @ rest" and "curtok s \<noteq> T_STR" and "curtok s \<noteq> NUM"
    and "ready X \<sigma> s" and "closes rest" and "goes_on rest t None rest'" and "follow p t" and "length (tp s) \<le> n"
  obtains r where "outcome (noeval s \<noteq> 0) a \<sigma> r"
    and "ends pt (readtok pt f) X n p s t rest' r (ebind (readtok pt f) (\<lambda>_. lev pt (readtok pt f) n p) s)"
  using assms unfolding claim_def by blast

lemma follow_quiet: "follow p t \<Longrightarrow> p < q \<Longrightarrow> token_level t \<noteq> Some q"
  by (auto simp: follow_def)

lemma follow_mono: "follow p t \<Longrightarrow> p \<le> q \<Longrightarrow> p < q \<or> p \<noteq> 2 \<and> p \<noteq> 13 \<Longrightarrow> follow q t"
  by (auto simp: follow_def split: option.splits)

lemma blank_less_length: "length (blank_less s) \<le> length s"
  by (simp add: blank_less_def dropWhile_length_le)

text \<open>A level with a higher number passes its result down.\<close>

lemma claim_lower:
  assumes "claim pt f X a tx (Suc p)" and "p < 14"
  shows "claim pt f X a tx p"
  unfolding claim_def
proof (intro allI impI)
  fix n and s :: "'a expr_state" and \<sigma> rest t rest'
  let ?lx = "readtok pt f"
  assume s: "blank_less (tp s) = tx @ rest" "curtok s \<noteq> T_STR" "curtok s \<noteq> NUM" "ready X \<sigma> s" "closes rest"
    "goes_on rest t None rest'" "follow p t" "length (tp s) \<le> n"
  then have "follow (Suc p) t" by (auto intro: follow_mono)
  then obtain r where r: "outcome (noeval s \<noteq> 0) a \<sigma> r"
    "ends pt ?lx X n (Suc p) s t rest' r (ebind ?lx (\<lambda>_. lev pt ?lx n (Suc p)) s)"
    using claimD [OF assms(1) s(1-6)] s(8) by blast
  have step: "ebind ?lx (\<lambda>_. lev pt ?lx n p) s = ebind (\<lambda>s. ebind ?lx (\<lambda>_. lev pt ?lx n (Suc p)) s) (loop pt ?lx n p n) s"
    using lev_step [OF assms(2), of pt ?lx n] by (auto simp: ebind_def split: sum.splits prod.splits)
  have "ends pt ?lx X n p s t rest' r (ebind ?lx (\<lambda>_. lev pt ?lx n p) s)"
  proof (cases "fst r")
    case None
    with r(2) show ?thesis
      unfolding step by (cases r) (auto simp: ends_def ebind_def)
  next
    case (Some v)
    with r(2) obtain s' k where s': "ebind ?lx (\<lambda>_. lev pt ?lx n (Suc p)) s = loop pt ?lx n (Suc p) k v s'"
      "arrives X (snd r) s t rest' s'" by (cases r) (auto simp: ends_def)
    from s'(2) have "loop pt ?lx n (Suc p) k v s' = (Inr v, s')"
      using follow_quiet [OF s(7), of "Suc p"] assms(2) by (intro loop_quiet) (auto simp: arrives_def)
    moreover have "length (tx @ rest) \<le> n"
      using blank_less_length [of "tp s"] s(1,8) by simp
    then have "tokens_left s' \<le> n"
      using goes_on_length [OF s(6)] s'(2) by (auto simp: arrives_def tokens_left_def)
    ultimately show ?thesis
      using s' Some unfolding step by (cases r) (auto simp: ends_def ebind_def)
  qed
  with r(1) show "\<exists>r. outcome (noeval s \<noteq> 0) a \<sigma> r \<and> ends pt ?lx X n p s t rest' r (ebind ?lx (\<lambda>_. lev pt ?lx n p) s)"
    by blast
qed

lemma claim_lower':
  assumes "claim pt f X a tx q" and "p \<le> q" and "q \<le> 14"
  shows "claim pt f X a tx p"
  using assms(2,1,3) by (induction rule: inc_induct) (auto intro: claim_lower)

lemma ebind_assoc: "ebind (ebind m f) g = ebind m (\<lambda>v. ebind (f v) g)"
  by (auto simp: ebind_def fun_eq_iff split: sum.splits prod.splits)

lemma ebind_Inr: "m s = (Inr v, s') \<Longrightarrow> ebind m f s = f v s'"
  by (simp add: ebind_def)

lemma ebind_Inl: "m s = (Inl e, s') \<Longrightarrow> ebind m f s = (Inl e, s')"
  by (simp add: ebind_def)

text \<open>Going on from an operand to the token after it.\<close>

lemma lex_on:
  assumes "goes_on (tp s) t a rest'" and "ready X \<sigma> s"
  shows "\<exists>s'. readtok pt f s = (Inr (), s') \<and> arrives X \<sigma> s t rest' s' \<and> lasttok s' = curtok s \<and>
     tokstr s' = tokstr s \<and> tokval s' = tokval s \<and> curlval s' = curlval s \<and>
     assigntok s' = (case a of None \<Rightarrow> assigntok s | Some a \<Rightarrow> a)"
  using readtok_goes_on [OF assms(1), of pt f] assms(2) by (auto simp: arrives_def ready_def)

lemma arrives_trans: "arrives X \<sigma> s t rest s' \<Longrightarrow> arrives X \<sigma>' s' t' rest' s'' \<Longrightarrow> arrives X \<sigma>' s t' rest' s''"
  by (simp add: arrives_def)

lemma blank_less_operand: "operand_text tx \<Longrightarrow> blank_less (tx @ rest) = tx @ rest"
  by (cases tx) (auto simp: blank_less_def operand_start_simps operand_text_def)

lemma blank_less_blank: "blank_less (CHR '' '' # s) = blank_less s"
  by (simp add: blank_less_def cr_whitespace_def)

lemma goes_on_Nil: "goes_on [] T_END None []"
  by (simp add: goes_on_def blank_less_def)

lemma read_paren:
  "read_operator cur prev (CHR ''('') cp = Lexeme LPAR None cp"
  "read_operator cur prev (CHR '')'') cp = Lexeme RPAR None cp"
  by (simp_all add: read_operator_def token_of_char_def)

lemma not_name_or_digit:
  assumes "c \<in> set (''()=!><&|*-+/%~?:,'' @ [CHR 0x5E])"
  shows "\<not> legal_variable_starter c" and "\<not> c_isdigit c" and "\<not> cr_whitespace c"
  using assms unfolding set_append set_simps Un_iff insert_iff empty_iff
  by (elim disjE; simp add: legal_variable_starter_def c_isalpha_def c_isdigit_def cr_whitespace_def less_eq_char_def)+

lemma goes_on_read:
  assumes "blank_less s = c # cp" and "c \<in> set (''()=!><&|*-+/%~?:,'' @ [CHR 0x5E])"
    and "\<And>cur prev. read_operator cur prev c cp = Lexeme t a rest"
  shows "goes_on s t a rest"
  using assms(1,3) not_name_or_digit [OF assms(2)] by (simp add: goes_on_def)

lemma primary_ends:
  assumes "out = (Inr v, s')" and "arrives X \<sigma> s t rest s'"
  shows "ends pt lx X n 14 s t rest (Some v, \<sigma>) out"
  using assms by (auto simp: ends_def loop_eqs eret_def intro!: exI [of _ s'])

lemma lev14_exp0: "curtok s \<notin> unary_ops \<Longrightarrow> lev pt lx n 14 s = exp0 pt lx (parse pt lx n) s"
  by (simp add: lev_def expunary_def unary_ops_def)

lemma outcome_iff [simp]:
  "outcome ne a \<sigma> (None, \<sigma>') \<longleftrightarrow> \<not> ne \<and> aeval a \<sigma> = (None, \<sigma>')"
  "outcome ne a \<sigma> (Some v, \<sigma>') \<longleftrightarrow> (if ne then \<sigma>' = \<sigma> else aeval a \<sigma> = (Some v, \<sigma>'))"
  by (auto simp: outcome_def)

lemma claim_num: "claim pt f X (Num k) (show_nat k) 14"
  unfolding claim_def
proof (intro allI impI)
  fix n and s :: "'a expr_state" and \<sigma> rest t rest'
  let ?lx = "readtok pt f"
  assume s: "blank_less (tp s) = show_nat k @ rest" "ready X \<sigma> s" "closes rest" "goes_on rest t None rest'"
  obtain s1 where s1: "?lx s = (Inr (), s1)" "curtok s1 = NUM" "tokval s1 = of_nat k" "arrives X \<sigma> s NUM rest s1"
    using readtok_show_nat [OF s(1,3), of pt f] s(2) by (auto simp: arrives_def ready_def)
  obtain s2 where s2: "?lx s1 = (Inr (), s2)" "arrives X \<sigma> s1 t rest' s2"
    using lex_on [of s1 t None rest' X \<sigma> pt f] s1(4) s(4) by (auto simp: arrives_def)
  have "ebind ?lx (\<lambda>_. lev pt ?lx n 14) s = (Inr (of_nat k), s2)"
    using s1 s2(1) by (simp add: ebind_Inr lev14_exp0 unary_ops_def exp0_def eret_def)
  then have "ends pt ?lx X n 14 s t rest' (Some (of_nat k), \<sigma>) (ebind ?lx (\<lambda>_. lev pt ?lx n 14) s)"
    using arrives_trans [OF s1(4) s2(2)] by (rule primary_ends)
  then show "\<exists>r. outcome (noeval s \<noteq> 0) (Num k) \<sigma> r \<and> ends pt ?lx X n 14 s t rest' r (ebind ?lx (\<lambda>_. lev pt ?lx n 14) s)"
    by (intro exI [of _ "(Some (of_nat k), \<sigma>)"]) (simp add: outcome_def)
qed

lemma goes_on_close: "goes_on ('')'' @ s) RPAR None s"
proof (rule goes_on_read)
  show "blank_less ('')'' @ s) = CHR '')'' # s" by (simp add: blank_less_def cr_whitespace_def)
qed (simp_all add: read_paren)

text \<open>The result of a level on a subexpression, when the token after it is not of the level.\<close>

lemma claim_quiet:
  assumes "claim pt f X a tx p" and "blank_less (tp s) = tx @ rest" and "curtok s \<noteq> T_STR" and "curtok s \<noteq> NUM"
    and "ready X \<sigma> s" and "closes rest" and "goes_on rest t None rest'" and "follow p t" and "token_level t \<noteq> Some p"
    and "length (tp s) \<le> n" and "p \<le> 14"
  obtains (fault) \<sigma>' s' where "outcome (noeval s \<noteq> 0) a \<sigma> (None, \<sigma>')" "holds X (shell s') \<sigma>'"
      "ebind (readtok pt f) (\<lambda>_. lev pt (readtok pt f) n p) s = (Inl Longjmp_evalbuf, s')"
  | (fine) \<sigma>' v s' where "outcome (noeval s \<noteq> 0) a \<sigma> (Some v, \<sigma>')" "arrives X \<sigma>' s t rest' s'"
      "ebind (readtok pt f) (\<lambda>_. lev pt (readtok pt f) n p) s = (Inr v, s')"
proof -
  from claimD [OF assms(1-8) assms(10)] obtain r where r: "outcome (noeval s \<noteq> 0) a \<sigma> r"
    "ends pt (readtok pt f) X n p s t rest' r (ebind (readtok pt f) (\<lambda>_. lev pt (readtok pt f) n p) s)" .
  obtain u \<sigma>' where u: "r = (u, \<sigma>')" by (cases r)
  show thesis
  proof (cases u)
    case None
    with r u fault show thesis by (auto simp: ends_def)
  next
    case (Some v)
    with r(2) u obtain s' k where s': "ebind (readtok pt f) (\<lambda>_. lev pt (readtok pt f) n p) s = loop pt (readtok pt f) n p k v s'"
      "arrives X \<sigma>' s t rest' s'" by (auto simp: ends_def)
    moreover have "loop pt (readtok pt f) n p k v s' = (Inr v, s')"
      using s'(2) assms(9,11) by (intro loop_quiet) (auto simp: arrives_def)
    ultimately show thesis using fine [of v \<sigma>' s'] r(1) u Some by simp
  qed
qed

lemma claim_parens:
  assumes a: "claim pt f X a tx 0" and tx: "operand_text tx"
  shows "claim pt f X a (parens tx) 14"
  unfolding claim_def
proof (intro allI impI)
  fix n and s :: "'a expr_state" and \<sigma> rest t rest'
  let ?lx = "readtok pt f"
  assume s: "blank_less (tp s) = parens tx @ rest" "ready X \<sigma> s" "closes rest" "goes_on rest t None rest'" "length (tp s) \<le> n"
  have "goes_on (tp s) LPAR None (tx @ '')'' @ rest)"
    using s(1) by (intro goes_on_read [of _ "CHR ''(''"]) (simp_all add: parens_def read_paren)
  then obtain s1 where s1: "?lx s = (Inr (), s1)" "arrives X \<sigma> s LPAR (tx @ '')'' @ rest) s1"
    using lex_on s(2) by blast
  have "length (parens tx @ rest) \<le> n" using blank_less_length [of "tp s"] s(1,5) by simp
  then obtain m where n: "n = Suc m" "length (tp s1) \<le> m"
    using s1(2) by (cases n) (auto simp: parens_def arrives_def)
  have lev: "ebind ?lx (\<lambda>_. lev pt ?lx n 14) s = ebind (ebind ?lx (\<lambda>_. lev pt ?lx m 0)) (\<lambda>v s.
      if curtok s \<noteq> RPAR then evalerror (''missing '' @ [CHR 0x60] @ '')'' @ [CHR 0x27]) s else ebind ?lx (\<lambda>_. eret v) s) s1"
    using s1 by (simp add: ebind_Inr lev14_exp0 unary_ops_def exp0_def arrives_def parse_lev n ebind_assoc del: parse.simps)
  have "curtok s1 \<noteq> T_STR" "curtok s1 \<noteq> NUM" "ready X \<sigma> s1" "noeval s1 = noeval s"
    using s1(2) by (simp_all add: arrives_def)
  note s1' = this
  have tp1: "blank_less (tp s1) = tx @ ('')'' @ rest)"
    using s1(2) blank_less_operand [OF tx] by (simp add: arrives_def)
  show "\<exists>r. outcome (noeval s \<noteq> 0) a \<sigma> r \<and> ends pt ?lx X n 14 s t rest' r (ebind ?lx (\<lambda>_. lev pt ?lx n 14) s)"
  proof (rule claim_quiet [OF a tp1 s1'(1-3) _ goes_on_close _ _ n(2)])
    show "closes ('')'' @ rest)" "follow 0 RPAR" by (simp_all add: closes_def follow_def)
  next
    fix \<sigma>' s' assume "outcome (noeval s1 \<noteq> 0) a \<sigma> (None, \<sigma>')" "holds X (shell s') \<sigma>'"
      "ebind ?lx (\<lambda>_. lev pt ?lx m 0) s1 = (Inl Longjmp_evalbuf, s')"
    then show ?thesis
      using s1'(4) by (intro exI [of _ "(None, \<sigma>')"]) (simp add: ends_def lev ebind_Inl)
  next
    fix v \<sigma>' s2 assume v: "outcome (noeval s1 \<noteq> 0) a \<sigma> (Some v, \<sigma>')" "arrives X \<sigma>' s1 RPAR rest s2"
      "ebind ?lx (\<lambda>_. lev pt ?lx m 0) s1 = (Inr v, s2)"
    then obtain s3 where s3: "?lx s2 = (Inr (), s3)" "arrives X \<sigma>' s2 t rest' s3"
      using lex_on [of s2 t None rest' X \<sigma>' pt f] s(4) by (auto simp: arrives_def)
    have "ebind ?lx (\<lambda>_. lev pt ?lx n 14) s = (Inr v, s3)"
      using v(2,3) s3(1) by (simp add: lev ebind_Inr arrives_def eret_def)
    moreover have "arrives X \<sigma>' s t rest' s3"
      using s1(2) v(2) s3(2) by (blast intro: arrives_trans)
    ultimately have "ends pt ?lx X n 14 s t rest' (Some v, \<sigma>') (ebind ?lx (\<lambda>_. lev pt ?lx n 14) s)"
      by (rule primary_ends)
    with v(1) s1'(4) show ?thesis by (intro exI [of _ "(Some v, \<sigma>')"]) simp
  qed simp_all
qed

lemma read_unary:
  assumes "t \<in> unary_ops" and "operand_text tx"
  shows "goes_on (prefix_text t tx @ rest) t None ((if hd tx = hd (token_text t) then '' '' else []) @ tx @ rest)"
proof (rule goes_on_read [of _ "hd (token_text t)"])
  have tt: "token_text t = [hd (token_text t)]" using assms(1) by (auto simp: unary_ops_def token_text_def)
  have "operand_text (token_text t)" using assms(1) by (simp add: token_text_text)
  then show "blank_less (prefix_text t tx @ rest) =
      hd (token_text t) # ((if hd tx = hd (token_text t) then '' '' else []) @ tx @ rest)"
    using blank_less_operand [of "token_text t"] tt by (simp add: prefix_text_def)
  show "hd (token_text t) \<in> set (''()=!><&|*-+/%~?:,'' @ [CHR 0x5E])"
    using assms(1) by (auto simp: unary_ops_def token_text_def)
  fix cur prev
  let ?cp = "(if hd tx = hd (token_text t) then '' '' else []) @ tx @ rest"
  from assms(2) have "tx \<noteq> []" "hd tx \<noteq> CHR ''=''"
    using operand_start_simps(3) by (auto simp: operand_text_def)
  then have "\<not> starts_with (CHR ''='') ?cp" "\<not> starts_with (hd (token_text t)) ?cp"
    using assms(1) by (auto simp: starts_with_def unary_ops_def token_text_def)
  then show "read_operator cur prev (hd (token_text t)) ?cp = Lexeme t None ?cp"
    using assms(1) unfolding unary_ops_def insert_iff empty_iff
    by (elim disjE) (simp_all add: read_operator_def token_text_def token_of_char_def Let_def)
qed

lemma claim_unop:
  assumes a: "claim pt f X a tx 14" and tx: "operand_text tx" and op: "op \<in> unary_ops"
  shows "claim pt f X (Unop op a) (prefix_text op tx) 14"
  unfolding claim_def
proof (intro allI impI)
  fix n and s :: "'a expr_state" and \<sigma> rest t rest'
  let ?lx = "readtok pt f" and ?sep = "if hd tx = hd (token_text op) then '' '' else []"
  assume s: "blank_less (tp s) = prefix_text op tx @ rest" "ready X \<sigma> s" "closes rest" "goes_on rest t None rest'"
    "follow 14 t" "length (tp s) \<le> n"
  have "operand_text (prefix_text op tx)" using op by (simp add: prefix_text_def operand_text_append token_text_text)
  then have bl: "goes_on (tp s) op None (?sep @ tx @ rest)"
    using read_unary [OF op tx, of rest] s(1) by (simp add: goes_on_def blank_less_operand)
  then obtain s1 where s1: "?lx s = (Inr (), s1)" "arrives X \<sigma> s op (?sep @ tx @ rest) s1"
    using lex_on s(2) by blast
  have "op \<noteq> T_END" using op by (auto simp: unary_ops_def)
  then obtain m where n: "n = Suc m" "length (tp s1) \<le> m"
    using goes_on_length [OF bl] s(6) s1(2) by (cases n) (auto simp: arrives_def)
  have lev: "ebind ?lx (\<lambda>_. lev pt ?lx n 14) s =
      ebind (ebind ?lx (\<lambda>_. lev pt ?lx m 14)) (\<lambda>v. set_lasttok NUM (un_value op v)) s1"
    using s1 op
    by (auto simp: ebind_Inr lev_def [of _ _ _ 14] expunary_def arrives_def parse_lev n ebind_assoc unary_ops_def
        un_value_def word_of_int_sint simp del: parse.simps)
  have s1': "curtok s1 \<noteq> T_STR" "curtok s1 \<noteq> NUM" "ready X \<sigma> s1" "noeval s1 = noeval s"
    using s1(2) op by (auto simp: arrives_def unary_ops_def)
  have tp1: "blank_less (tp s1) = tx @ rest"
    using s1(2) blank_less_operand [OF tx] by (simp add: arrives_def blank_less_blank)
  have "token_level t \<noteq> Some 14" by (cases t) simp_all
  show "\<exists>r. outcome (noeval s \<noteq> 0) (Unop op a) \<sigma> r \<and> ends pt ?lx X n 14 s t rest' r (ebind ?lx (\<lambda>_. lev pt ?lx n 14) s)"
  proof (rule claim_quiet [OF a tp1 s1'(1-3) s(3-5) \<open>token_level t \<noteq> Some 14\<close> n(2)])
    fix \<sigma>' s' assume "outcome (noeval s1 \<noteq> 0) a \<sigma> (None, \<sigma>')" "holds X (shell s') \<sigma>'"
      "ebind ?lx (\<lambda>_. lev pt ?lx m 14) s1 = (Inl Longjmp_evalbuf, s')"
    then show ?thesis
      using s1'(4) by (intro exI [of _ "(None, \<sigma>')"]) (auto simp: ends_def lev ebind_Inl)
  next
    fix v \<sigma>' s2 assume v: "outcome (noeval s1 \<noteq> 0) a \<sigma> (Some v, \<sigma>')" "arrives X \<sigma>' s1 t rest' s2"
      "ebind ?lx (\<lambda>_. lev pt ?lx m 14) s1 = (Inr v, s2)"
    then have "ebind ?lx (\<lambda>_. lev pt ?lx n 14) s = (Inr (un_value op v), s2\<lparr>lasttok := NUM\<rparr>)"
      by (simp add: lev ebind_Inr set_lasttok_def)
    moreover have "arrives X \<sigma>' s t rest' (s2\<lparr>lasttok := NUM\<rparr>)"
      using arrives_trans [OF s1(2) v(2)] by (auto simp: arrives_def ready_def)
    ultimately have "ends pt ?lx X n 14 s t rest' (Some (un_value op v), \<sigma>') (ebind ?lx (\<lambda>_. lev pt ?lx n 14) s)"
      by (rule primary_ends)
    moreover have "outcome (noeval s \<noteq> 0) (Unop op a) \<sigma> (Some (un_value op v), \<sigma>')"
      using v(1) s1'(4) by (auto split: if_splits)
    ultimately show ?thesis by blast
  qed simp_all
qed

section \<open>Binary operators\<close>

definition infix_tokens :: "token set" where
  "infix_tokens = {t. token_level t \<noteq> None \<and> t \<noteq> OP_ASSIGN \<or> t = COL}"

lemma goes_on_infix:
  assumes "t \<in> infix_tokens"
  shows "goes_on (infix_text t @ s) t None (CHR '' '' # s)"
proof (rule goes_on_read [of _ "hd (token_text t)" "tl (token_text t) @ CHR '' '' # s"])
  have "token_text t \<noteq> [] \<and> \<not> cr_whitespace (hd (token_text t))"
    using assms by (cases t) (simp_all add: infix_tokens_def token_text_def cr_whitespace_def)
  then show "blank_less (infix_text t @ s) = hd (token_text t) # tl (token_text t) @ CHR '' '' # s"
    by (cases "token_text t") (auto simp: infix_text_def blank_less_def cr_whitespace_def)
  show "hd (token_text t) \<in> set (''()=!><&|*-+/%~?:,'' @ [CHR 0x5E])"
    using assms by (cases t) (simp_all add: infix_tokens_def token_text_def)
  show "read_operator cur prev (hd (token_text t)) (tl (token_text t) @ CHR '' '' # s) = Lexeme t None (CHR '' '' # s)"
    for cur prev
    using assms by (cases t) (simp_all add: infix_tokens_def token_text_def read_operator_def starts_with_def Let_def token_of_char_def)
qed

lemma closes_infix: "closes (infix_text t @ s)"
  by (simp add: closes_def infix_text_def)

lemma sint_INTMAX_MIN: "sint INTMAX_MIN = - (2 ^ 63)"
  unfolding INTMAX_MIN_def by simp

text \<open>The quotient that overflows.\<close>

lemma min_values:
  "c_div INTMAX_MIN 1 = INTMAX_MIN" "bin_value DIV INTMAX_MIN (- 1) = Some INTMAX_MIN" "bin_value MOD INTMAX_MIN (- 1) = Some 0"
  by code_simp+

lemma muldiv_level: "token_level t = Some 12 \<Longrightarrow> t \<in> {MUL, DIV, MOD}"
  by (cases t) simp_all

lemma combine_value:
  assumes "token_level t = Some l" and "5 \<le> l" and "l \<le> 12"
    and "noeval s \<noteq> 0 \<or> bin_value t a b = Some v"
  shows "\<exists>v' u. combine t a b stp s = (Inr v', s\<lparr>lasttok := u\<rparr>) \<and> (noeval s = 0 \<longrightarrow> v' = v)"
proof (cases "l = 12")
  case True
  with assms(1) have t: "t = MUL \<or> t = DIV \<or> t = MOD" using muldiv_level by auto
  have idle: "\<exists>u. s = s\<lparr>lasttok := u\<rparr>" by (rule exI [of _ "lasttok s"]) simp
  show ?thesis
  proof (cases "(t = DIV \<or> t = MOD) \<and> b = 0")
    case True
    with assms(4) have "noeval s \<noteq> 0" by (auto simp: bin_value_def)
    with True assms(1) \<open>l = 12\<close> show ?thesis
      by (auto simp: combine_def muldiv_value_def set_lasttok_def)
  next
    case False
    show ?thesis
    proof (cases "a = INTMAX_MIN \<and> b = - 1")
      case True
      with t assms(1,4) \<open>l = 12\<close> min_values idle show ?thesis
        by (auto simp: combine_def muldiv_value_def set_lasttok_def Let_def word_of_int_sint bin_value_def [of MUL])
    next
      case False
      with \<open>\<not> ((t = DIV \<or> t = MOD) \<and> b = 0)\<close> t assms(1,4) \<open>l = 12\<close> show ?thesis
        by (auto simp: combine_def muldiv_value_def set_lasttok_def bin_value_def Let_def word_of_int_sint c_div_def c_mod_def)
    qed
  qed
next
  case False
  have "bin_value t a b = Some (the (bin_value t a b))"
    using assms(1-3) False by (cases t) (simp_all add: bin_value_def)
  with False assms show ?thesis by (auto simp: combine_def set_lasttok_def)
qed

lemma combine_error:
  assumes "token_level t = Some l" and "5 \<le> l" and "l \<le> 12" and "noeval s = 0" and "bin_value t a b = None"
  shows "\<exists>s'. combine t a b stp s = (Inl Longjmp_evalbuf, s') \<and> shell s' = shell s"
  using assms by (cases t) (auto simp: bin_value_def combine_def muldiv_value_def evalerror_def split: if_splits)

lemma ebind_at: "m s = m' s \<Longrightarrow> ebind m f s = ebind m' f s"
  by (simp add: ebind_def)

lemma loop_arith_step:
  assumes "curtok s = op" and "token_level op = Some l" and "5 \<le> l" and "l \<le> 12"
  shows "loop pt lx n l (Suc k) v s =
    ebind (ebind lx (\<lambda>_. lev pt lx n (Suc l))) (\<lambda>v2. ebind (combine op v v2 (tp s)) (loop pt lx n l k)) s"
proof -
  have "loop pt lx n l (Suc k) v s = ebind (\<lambda>s. ebind lx (\<lambda>_. ebind (lev pt lx n (Suc l)) (\<lambda>val2. combine op v val2 (tp s))) s)
      (loop pt lx n l k) s"
    using assms by (simp add: loop_arith)
  also have "\<dots> = ebind (ebind lx (\<lambda>_. ebind (lev pt lx n (Suc l)) (\<lambda>val2. combine op v val2 (tp s)))) (loop pt lx n l k) s"
    by (rule ebind_at) simp
  finally show ?thesis by (simp only: ebind_assoc)
qed

lemma ends_error:
  "out = (Inl Longjmp_evalbuf, s') \<Longrightarrow> holds X (shell s') \<sigma> \<Longrightarrow> ends pt lx X n p s t rest (None, \<sigma>) out"
  by (simp add: ends_def)

lemma ends_loop:
  "out = loop pt lx n p k v s' \<Longrightarrow> tokens_left s' \<le> k \<Longrightarrow> arrives X \<sigma> s t rest s' \<Longrightarrow>
     ends pt lx X n p s t rest (Some v, \<sigma>) out"
  by (auto simp: ends_def)

lemma arrives_lasttok: "arrives X \<sigma> s t rest (s'\<lparr>lasttok := u\<rparr>) \<longleftrightarrow> arrives X \<sigma> s t rest s'"
  by (simp add: arrives_def ready_def)

lemma tokens_left_lasttok: "tokens_left (s\<lparr>lasttok := u\<rparr>) = tokens_left s"
  by (simp add: tokens_left_def)

lemma arrives_fields:
  assumes "arrives X \<sigma> s t rest s'"
  shows "ready X \<sigma> s'" and "curtok s' = t" and "tp s' = rest" and "noeval s' = noeval s"
  using assms by (simp_all add: arrives_def)

lemma tokens_left_arrives:
  "arrives X \<sigma> s t rest' s' \<Longrightarrow> goes_on rest t a rest' \<Longrightarrow> tokens_left s' \<le> length rest"
  using goes_on_length by (auto simp: arrives_def tokens_left_def)

text \<open>The first operand of a loop, up to the operator \<open>op\<close>.\<close>

lemma first_operand:
  assumes a: "claim pt f X a ta p" and s: "blank_less (tp s) = ta @ infix_text op @ suff"
    "curtok s \<noteq> T_STR" "curtok s \<noteq> NUM" "ready X \<sigma> s" "length (tp s) \<le> n"
    and op: "token_level op = Some l" "l < p \<or> l = p \<and> l \<noteq> 2 \<and> l \<noteq> 13" "op \<noteq> EQ" "op \<noteq> OP_ASSIGN"
  obtains (fault) \<sigma>' s' where "noeval s = 0" "aeval a \<sigma> = (None, \<sigma>')" "holds X (shell s') \<sigma>'"
      "ebind (readtok pt f) (\<lambda>_. lev pt (readtok pt f) n p) s = (Inl Longjmp_evalbuf, s')"
  | (fine) \<sigma>' v k s' where "if noeval s \<noteq> 0 then \<sigma>' = \<sigma> else aeval a \<sigma> = (Some v, \<sigma>')"
      "arrives X \<sigma>' s op (CHR '' '' # suff) s'" "length suff + 1 < length (tp s)" "length suff + 1 \<le> k"
      "ebind (readtok pt f) (\<lambda>_. lev pt (readtok pt f) n p) s = loop pt (readtok pt f) n p (Suc k) v s'"
proof -
  have inf: "op \<in> infix_tokens" using op by (simp add: infix_tokens_def)
  have fol: "follow p op" using op by (simp add: follow_def)
  from claimD [OF a s(1-4) closes_infix goes_on_infix [OF inf] fol s(5)] obtain r where
    r: "outcome (noeval s \<noteq> 0) a \<sigma> r"
    "ends pt (readtok pt f) X n p s op (CHR '' '' # suff) r (ebind (readtok pt f) (\<lambda>_. lev pt (readtok pt f) n p) s)" .
  obtain u \<sigma>' where u: "r = (u, \<sigma>')" by (cases r)
  have len: "length suff + 1 < length (tp s)"
    using blank_less_length [of "tp s"] s(1) by (simp add: infix_text_def)
  show thesis
  proof (cases u)
    case None
    with r u fault show thesis by (auto simp: ends_def)
  next
    case (Some v)
    with r(2) u obtain s' k where s': "ebind (readtok pt f) (\<lambda>_. lev pt (readtok pt f) n p) s = loop pt (readtok pt f) n p k v s'"
      "tokens_left s' \<le> k" "arrives X \<sigma>' s op (CHR '' '' # suff) s'" by (auto simp: ends_def)
    moreover have "tokens_left s' = length suff + 2"
      using s'(3) op(1) by (auto simp: arrives_def tokens_left_def)
    moreover obtain k' where "k = Suc k'" using s'(2) \<open>tokens_left s' = _\<close> by (cases k) auto
    ultimately show thesis using fine [of \<sigma>' v s' k'] r(1) u Some len by simp
  qed
qed

lemma claim_binop:
  assumes a: "claim pt f X a ta l" and b: "claim pt f X b tb (Suc l)" and tb: "operand_text tb"
    and op: "token_level op = Some l" "5 \<le> l" "l \<le> 12"
  shows "claim pt f X (Binop op a b) (ta @ infix_text op @ tb) l"
  unfolding claim_def
proof (intro allI impI)
  fix n and s :: "'a expr_state" and \<sigma> rest t rest'
  let ?lx = "readtok pt f"
  assume s: "blank_less (tp s) = (ta @ infix_text op @ tb) @ rest" "curtok s \<noteq> T_STR" "curtok s \<noteq> NUM" "ready X \<sigma> s"
    "closes rest" "goes_on rest t None rest'" "follow l t" "length (tp s) \<le> n"
  let ?out = "ebind ?lx (\<lambda>_. lev pt ?lx n l) s"
  have op': "op \<noteq> EQ" "op \<noteq> OP_ASSIGN" "op \<noteq> T_STR" "op \<noteq> NUM" using op by auto
  show "\<exists>r. outcome (noeval s \<noteq> 0) (Binop op a b) \<sigma> r \<and> ends pt ?lx X n l s t rest' r ?out"
  proof (rule first_operand [OF a _ s(2-4,8) op(1) _ op'(1,2)])
    show "blank_less (tp s) = ta @ infix_text op @ tb @ rest" using s(1) by simp
    show "l < l \<or> l = l \<and> l \<noteq> 2 \<and> l \<noteq> 13" using op by simp
  next
    fix \<sigma>1 s1 assume "noeval s = 0" "aeval a \<sigma> = (None, \<sigma>1)" "holds X (shell s1) \<sigma>1" "?out = (Inl Longjmp_evalbuf, s1)"
    then show ?thesis by (intro exI [of _ "(None, \<sigma>1)"]) (simp add: ends_error)
  next
    fix \<sigma>1 va k s1
    assume va: "if noeval s \<noteq> 0 then \<sigma>1 = \<sigma> else aeval a \<sigma> = (Some va, \<sigma>1)"
      and s1: "arrives X \<sigma>1 s op (CHR '' '' # tb @ rest) s1" and len: "length (tb @ rest) + 1 < length (tp s)"
      and k: "length (tb @ rest) + 1 \<le> k" and out: "?out = loop pt ?lx n l (Suc k) va s1"
    note s1' = arrives_fields [OF s1]
    have round: "?out = ebind (ebind ?lx (\<lambda>_. lev pt ?lx n (Suc l))) (\<lambda>v2. ebind (combine op va v2 (tp s1)) (loop pt ?lx n l k)) s1"
      unfolding out by (rule loop_arith_step [OF s1'(2) op])
    have tp1: "blank_less (tp s1) = tb @ rest" "length (tp s1) \<le> n"
      using s1'(3) blank_less_operand [OF tb] len s(8) by (simp_all add: blank_less_blank)
    have fol: "follow (Suc l) t" "token_level t \<noteq> Some (Suc l)"
      using s(7) op follow_quiet [of l t "Suc l"] by (auto intro: follow_mono)
    show ?thesis
    proof (rule claim_quiet [OF b tp1(1) _ _ s1'(1) s(5,6) fol tp1(2)])
      fix \<sigma>2 s2 assume "outcome (noeval s1 \<noteq> 0) b \<sigma>1 (None, \<sigma>2)" "holds X (shell s2) \<sigma>2"
        "ebind ?lx (\<lambda>_. lev pt ?lx n (Suc l)) s1 = (Inl Longjmp_evalbuf, s2)"
      with va s1'(4) show ?thesis
        by (intro exI [of _ "(None, \<sigma>2)"]) (auto simp: round ebind_Inl intro: ends_error)
    next
      fix vb \<sigma>2 s2 assume vb: "outcome (noeval s1 \<noteq> 0) b \<sigma>1 (Some vb, \<sigma>2)" and s2: "arrives X \<sigma>2 s1 t rest' s2"
        and eb: "ebind ?lx (\<lambda>_. lev pt ?lx n (Suc l)) s1 = (Inr vb, s2)"
      have sh2: "holds X (shell s2) \<sigma>2" using s2 by (simp add: arrives_def ready_def)
      have nv2: "noeval s2 = noeval s" using s1'(4) arrives_fields(4) [OF s2] by simp
      show ?thesis
      proof (cases "noeval s = 0 \<and> bin_value op va vb = None")
        case True
        with combine_error [OF op] nv2 obtain s3 where
          s3: "combine op va vb (tp s1) s2 = (Inl Longjmp_evalbuf, s3)" "shell s3 = shell s2" by metis
        then have "ends pt ?lx X n l s t rest' (None, \<sigma>2) ?out"
          using sh2 by (intro ends_error [of _ s3]) (simp_all add: round ebind_Inr eb ebind_Inl)
        with True va vb s1'(4) show ?thesis by (intro exI [of _ "(None, \<sigma>2)"]) simp
      next
        case False
        then obtain v where "noeval s2 \<noteq> 0 \<or> bin_value op va vb = Some v" using nv2 by auto
        from combine_value [OF op this] obtain v' u where
          c: "combine op va vb (tp s1) s2 = (Inr v', s2\<lparr>lasttok := u\<rparr>)" "noeval s2 = 0 \<longrightarrow> v' = v" by blast
        have "ends pt ?lx X n l s t rest' (Some v', \<sigma>2) ?out"
        proof (rule ends_loop)
          show "?out = loop pt ?lx n l k v' (s2\<lparr>lasttok := u\<rparr>)"
            by (simp add: round ebind_Inr eb c(1))
          show "tokens_left (s2\<lparr>lasttok := u\<rparr>) \<le> k"
            using tokens_left_arrives [OF s2 s(6)] k by (simp add: tokens_left_lasttok)
          show "arrives X \<sigma>2 s t rest' (s2\<lparr>lasttok := u\<rparr>)"
            using arrives_trans [OF s1 s2] by (simp add: arrives_lasttok)
        qed
        moreover have "outcome (noeval s \<noteq> 0) (Binop op a b) \<sigma> (Some v', \<sigma>2)"
          using va vb s1'(4) c(2) False nv2 \<open>noeval s2 \<noteq> 0 \<or> _\<close> by (auto split: if_splits)
        ultimately show ?thesis by blast
      qed
    qed (use s1'(2) op' op(3) in auto)
  qed
qed

lemma ends_value:
  assumes "out = (Inr v, s')" and "arrives X \<sigma> s t rest s'" and "token_level t \<noteq> Some p" and "p \<le> 14"
  shows "ends pt lx X n p s t rest (Some v, \<sigma>) out"
  using assms loop_quiet [of p s' pt lx n "tokens_left s'" v]
  by (auto simp: ends_def arrives_def intro!: exI [of _ s'] exI [of _ "tokens_left s'"])

lemma follow_level: "follow p t \<Longrightarrow> p = 2 \<or> p = 13 \<Longrightarrow> token_level t \<noteq> Some p"
  by (auto simp: follow_def)

lemma lev_unfold:
  assumes "p < 14" and "ebind lx (\<lambda>_. lev pt lx n (Suc p)) s = (Inr v, s')"
  shows "ebind lx (\<lambda>_. lev pt lx n p) s = loop pt lx n p n v s'"
  using assms(2) by (simp add: lev_step [OF assms(1)] ebind_assoc [symmetric] ebind_Inr)

lemma lev_unfold_error:
  assumes "p < 14" and "ebind lx (\<lambda>_. lev pt lx n (Suc p)) s = (Inl e, s')"
  shows "ebind lx (\<lambda>_. lev pt lx n p) s = (Inl e, s')"
  using assms(2) by (simp add: lev_step [OF assms(1)] ebind_assoc [symmetric] ebind_Inl)

lemma power_value:
  "\<not> sint b < 0 \<Longrightarrow> bin_value POWER a b = Some (if b = 0 then 1 else ipow a b)"
  by (simp add: bin_value_def ipow_value)

lemma claim_power:
  assumes a: "claim pt f X a ta 14" and b: "claim pt f X b tb 13" and tb: "operand_text tb"
  shows "claim pt f X (Binop POWER a b) (ta @ infix_text POWER @ tb) 13"
  unfolding claim_def
proof (intro allI impI)
  fix n and s :: "'a expr_state" and \<sigma> rest t rest'
  let ?lx = "readtok pt f"
  assume s: "blank_less (tp s) = (ta @ infix_text POWER @ tb) @ rest" "curtok s \<noteq> T_STR" "curtok s \<noteq> NUM" "ready X \<sigma> s"
    "closes rest" "goes_on rest t None rest'" "follow 13 t" "length (tp s) \<le> n"
  let ?out = "ebind ?lx (\<lambda>_. lev pt ?lx n 13) s"
  note quiet = follow_level [OF s(7)]
  show "\<exists>r. outcome (noeval s \<noteq> 0) (Binop POWER a b) \<sigma> r \<and> ends pt ?lx X n 13 s t rest' r ?out"
  proof (rule first_operand [OF a _ s(2-4,8), of POWER "tb @ rest" 13])
    show "blank_less (tp s) = ta @ infix_text POWER @ tb @ rest" using s(1) by simp
  next
    fix \<sigma>1 s1 assume "noeval s = 0" "aeval a \<sigma> = (None, \<sigma>1)" "holds X (shell s1) \<sigma>1"
      "ebind ?lx (\<lambda>_. lev pt ?lx n 14) s = (Inl Longjmp_evalbuf, s1)"
    then show ?thesis
      using lev_unfold_error [of 13 ?lx pt n s] by (intro exI [of _ "(None, \<sigma>1)"]) (simp add: ends_error)
  next
    fix \<sigma>1 va k s1
    assume va: "if noeval s \<noteq> 0 then \<sigma>1 = \<sigma> else aeval a \<sigma> = (Some va, \<sigma>1)"
      and s1: "arrives X \<sigma>1 s POWER (CHR '' '' # tb @ rest) s1" and len: "length (tb @ rest) + 1 < length (tp s)"
      and l14: "ebind ?lx (\<lambda>_. lev pt ?lx n 14) s = loop pt ?lx n 14 (Suc k) va s1"
    note s1' = arrives_fields [OF s1]
    obtain m where m: "n = Suc m" using len s(8) by (cases n) auto
    have out: "?out = loop pt ?lx n 13 n va s1"
      using l14 by (intro lev_unfold) (simp_all add: loop_eqs eret_def)
    have round: "?out = ebind (ebind ?lx (\<lambda>_. lev pt ?lx m 13)) (\<lambda>v2. ebind (set_lasttok NUM v2) (\<lambda>v2 s.
          if noeval s = 0 then
            (if v2 = 0 then (Inr 1, s)
             else if sint v2 < 0 then evalerror ''exponent less than 0'' s
             else exppower_loop m ?lx (parse pt ?lx n) (ipow va v2) s)
          else exppower_loop m ?lx (parse pt ?lx n) 1 s)) s1"
      unfolding out unfolding m using s1'(2) by (simp add: loop_eqs parse_lev ebind_assoc del: parse.simps)
    have tp1: "blank_less (tp s1) = tb @ rest" "length (tp s1) \<le> m"
      using s1'(3) blank_less_operand [OF tb] len s(8) m by (simp_all add: blank_less_blank)
    show ?thesis
    proof (rule claim_quiet [OF b tp1(1) _ _ s1'(1) s(5-7) quiet tp1(2)])
      fix \<sigma>2 s2 assume "outcome (noeval s1 \<noteq> 0) b \<sigma>1 (None, \<sigma>2)" "holds X (shell s2) \<sigma>2"
        "ebind ?lx (\<lambda>_. lev pt ?lx m 13) s1 = (Inl Longjmp_evalbuf, s2)"
      with va s1'(4) show ?thesis
        by (intro exI [of _ "(None, \<sigma>2)"]) (auto simp: round ebind_Inl intro: ends_error)
    next
      fix vb \<sigma>2 s2 assume vb: "outcome (noeval s1 \<noteq> 0) b \<sigma>1 (Some vb, \<sigma>2)" and s2: "arrives X \<sigma>2 s1 t rest' s2"
        and eb: "ebind ?lx (\<lambda>_. lev pt ?lx m 13) s1 = (Inr vb, s2)"
      let ?s2 = "s2\<lparr>lasttok := NUM\<rparr>"
      have nv2: "noeval s2 = noeval s" using s1'(4) arrives_fields(4) [OF s2] by simp
      have stop: "exppower_loop m ?lx (parse pt ?lx n) w ?s2 = (Inr w, ?s2)" for w
        using quiet arrives_fields(2) [OF s2] by (cases m) auto
      have s2': "arrives X \<sigma>2 s t rest' ?s2" using arrives_trans [OF s1 s2] by (simp add: arrives_lasttok)
      show ?thesis
      proof (cases "noeval s = 0 \<and> sint vb < 0")
        case True
        then have "?out = evalerror ''exponent less than 0'' ?s2"
          using nv2 by (auto simp: round ebind_Inr eb)
        moreover have "holds X (shell ?s2) \<sigma>2" using s2' by (simp add: arrives_def ready_def)
        ultimately have "ends pt ?lx X n 13 s t rest' (None, \<sigma>2) ?out"
          by (simp add: ends_def evalerror_def)
        with True va vb s1'(4) show ?thesis by (intro exI [of _ "(None, \<sigma>2)"]) (simp add: bin_value_def)
      next
        case False
        let ?v = "if noeval s = 0 then if vb = 0 then 1 else ipow va vb else 1"
        have "?out = (Inr ?v, ?s2)" using False nv2 stop by (auto simp: round ebind_Inr eb)
        from ends_value [OF this s2'] quiet have "ends pt ?lx X n 13 s t rest' (Some ?v, \<sigma>2) ?out" by simp
        moreover have "outcome (noeval s \<noteq> 0) (Binop POWER a b) \<sigma> (Some ?v, \<sigma>2)"
          using va vb s1'(4) False by (auto simp: power_value split: if_splits)
        ultimately show ?thesis by blast
      qed
    qed (use s1'(2) in auto)
  qed simp_all
qed

section \<open>Operands that may be skipped\<close>

lemma guarded_run:
  "guarded b m s = (case m (if b then s\<lparr>noeval := noeval s + 1\<rparr> else s) of
      (Inl e, s') \<Rightarrow> (Inl e, s')
    | (Inr v, s') \<Rightarrow> (Inr v, if b then s'\<lparr>noeval := noeval s' - 1\<rparr> else s'))"
  by (simp add: guarded_def noeval_enter_def noeval_leave_def ebind_def eret_def split: sum.splits prod.splits)

text \<open>An operand at level \<open>q\<close>, skipped when \<open>g\<close>.\<close>

lemma claim_guarded:
  assumes b: "claim pt f X b tb q" and s: "blank_less (tp s) = tb @ rest" "curtok s \<noteq> T_STR" "curtok s \<noteq> NUM"
    "ready X \<sigma> s" "closes rest" "goes_on rest t None rest'" "follow q t" "token_level t \<noteq> Some q"
    "length (tp s) \<le> n" "q \<le> 14"
    and m: "\<And>nv. m (s\<lparr>noeval := nv\<rparr>) = ebind (readtok pt f) (\<lambda>_. lev pt (readtok pt f) n q) (s\<lparr>noeval := nv\<rparr>)"
  obtains (fault) \<sigma>' s' where "\<not> g" "noeval s = 0" "aeval b \<sigma> = (None, \<sigma>')" "holds X (shell s') \<sigma>'"
      "guarded g m s = (Inl Longjmp_evalbuf, s')"
  | (fine) \<sigma>' v s' where "if g \<or> noeval s \<noteq> 0 then \<sigma>' = \<sigma> else aeval b \<sigma> = (Some v, \<sigma>')"
      "arrives X \<sigma>' s t rest' s'" "guarded g m s = (Inr v, s')"
proof -
  let ?s = "s\<lparr>noeval := noeval s + (if g then 1 else 0)\<rparr>"
  have s1: "(if g then s\<lparr>noeval := noeval s + 1\<rparr> else s) = ?s" by simp
  have ms: "m ?s = ebind (readtok pt f) (\<lambda>_. lev pt (readtok pt f) n q) ?s" by (rule m)
  have pre: "blank_less (tp ?s) = tb @ rest" "curtok ?s \<noteq> T_STR" "curtok ?s \<noteq> NUM" "ready X \<sigma> ?s" "length (tp ?s) \<le> n"
    using s by (simp_all add: ready_def)
  show thesis
  proof (rule claim_quiet [OF b pre(1-4) s(5-8) pre(5) s(10)])
    fix \<sigma>' s' assume o: "outcome (noeval ?s \<noteq> 0) b \<sigma> (None, \<sigma>')" "holds X (shell s') \<sigma>'"
      "ebind (readtok pt f) (\<lambda>_. lev pt (readtok pt f) n q) ?s = (Inl Longjmp_evalbuf, s')"
    show thesis
    proof (rule fault)
      show "guarded g m s = (Inl Longjmp_evalbuf, s')" unfolding guarded_run s1 ms o(3) by simp
    qed (use o(1,2) in \<open>auto split: if_splits\<close>)
  next
    fix v \<sigma>' s' assume o: "outcome (noeval ?s \<noteq> 0) b \<sigma> (Some v, \<sigma>')" "arrives X \<sigma>' ?s t rest' s'"
      "ebind (readtok pt f) (\<lambda>_. lev pt (readtok pt f) n q) ?s = (Inr v, s')"
    show thesis
    proof (rule fine)
      show "guarded g m s = (Inr v, s'\<lparr>noeval := noeval s\<rparr>)"
        using o(2) unfolding guarded_run s1 ms o(3) by (cases g) (simp_all add: arrives_def)
      show "arrives X \<sigma>' s t rest' (s'\<lparr>noeval := noeval s\<rparr>)"
        using o(2) by (auto simp: arrives_def ready_def)
      show "if g \<or> noeval s \<noteq> 0 then \<sigma>' = \<sigma> else aeval b \<sigma> = (Some v, \<sigma>')"
        using o(1) by (auto split: if_splits)
    qed
  qed
qed

text \<open>The two loops with skipped operands: \<open>skip\<close> says for which first value the second operand
  is skipped, \<open>val\<close> is the value of a round.\<close>

lemma claim_logical:
  assumes a: "claim pt f X a ta l" and b: "claim pt f X b tb (Suc l)" and tb: "operand_text tb"
    and op: "token_level op = Some l" "l = 3 \<or> l = 4"
    and step: "\<And>lx n k v s. curtok s = op \<Longrightarrow> loop pt lx n l (Suc k) v s =
      ebind (guarded (skip v) (ebind lx (\<lambda>_. lev pt lx n (Suc l)))) (\<lambda>v2. ebind (set_lasttok op (val v v2)) (loop pt lx n l k)) s"
    and meaning: "\<And>\<sigma>. aeval e \<sigma> = (case aeval a \<sigma> of (None, \<sigma>') \<Rightarrow> (None, \<sigma>')
      | (Some v, \<sigma>') \<Rightarrow> if skip v then (Some (val v 0), \<sigma>')
          else (case aeval b \<sigma>' of (None, \<sigma>'') \<Rightarrow> (None, \<sigma>'') | (Some w, \<sigma>'') \<Rightarrow> (Some (val v w), \<sigma>'')))"
    and skipped: "\<And>v w. skip v \<Longrightarrow> val v w = val v 0"
  shows "claim pt f X e (ta @ infix_text op @ tb) l"
  unfolding claim_def
proof (intro allI impI)
  fix n and s :: "'a expr_state" and \<sigma> rest t rest'
  let ?lx = "readtok pt f"
  assume s: "blank_less (tp s) = (ta @ infix_text op @ tb) @ rest" "curtok s \<noteq> T_STR" "curtok s \<noteq> NUM" "ready X \<sigma> s"
    "closes rest" "goes_on rest t None rest'" "follow l t" "length (tp s) \<le> n"
  let ?out = "ebind ?lx (\<lambda>_. lev pt ?lx n l) s"
  have op': "op \<noteq> EQ" "op \<noteq> OP_ASSIGN" "op \<noteq> T_STR" "op \<noteq> NUM" "l \<noteq> 2" "l \<noteq> 13" using op by auto
  show "\<exists>r. outcome (noeval s \<noteq> 0) e \<sigma> r \<and> ends pt ?lx X n l s t rest' r ?out"
  proof (rule first_operand [OF a _ s(2-4,8) op(1) _ op'(1,2)])
    show "blank_less (tp s) = ta @ infix_text op @ tb @ rest" using s(1) by simp
    show "l < l \<or> l = l \<and> l \<noteq> 2 \<and> l \<noteq> 13" using op' by simp
  next
    fix \<sigma>1 s1 assume "noeval s = 0" "aeval a \<sigma> = (None, \<sigma>1)" "holds X (shell s1) \<sigma>1" "?out = (Inl Longjmp_evalbuf, s1)"
    then show ?thesis by (intro exI [of _ "(None, \<sigma>1)"]) (simp add: ends_error meaning)
  next
    fix \<sigma>1 va k s1
    assume va: "if noeval s \<noteq> 0 then \<sigma>1 = \<sigma> else aeval a \<sigma> = (Some va, \<sigma>1)"
      and s1: "arrives X \<sigma>1 s op (CHR '' '' # tb @ rest) s1" and len: "length (tb @ rest) + 1 < length (tp s)"
      and k: "length (tb @ rest) + 1 \<le> k" and out: "?out = loop pt ?lx n l (Suc k) va s1"
    note s1' = arrives_fields [OF s1]
    note round = out [unfolded step [OF s1'(2)]]
    have tp1: "blank_less (tp s1) = tb @ rest" "length (tp s1) \<le> n"
      using s1'(3) blank_less_operand [OF tb] len s(8) by (simp_all add: blank_less_blank)
    have fol: "follow (Suc l) t" "token_level t \<noteq> Some (Suc l)" "Suc l \<le> 14"
      using s(7) op op' follow_quiet [of l t "Suc l"] by (auto intro: follow_mono)
    show ?thesis
    proof (rule claim_guarded [OF b tp1(1) _ _ s1'(1) s(5,6) fol(1,2) tp1(2) fol(3), where g = "skip va"])
      fix \<sigma>2 s2 assume "\<not> skip va" "noeval s1 = 0" "aeval b \<sigma>1 = (None, \<sigma>2)" "holds X (shell s2) \<sigma>2"
        "guarded (skip va) (ebind ?lx (\<lambda>_. lev pt ?lx n (Suc l))) s1 = (Inl Longjmp_evalbuf, s2)"
      with va s1'(4) show ?thesis
        by (intro exI [of _ "(None, \<sigma>2)"]) (auto simp: round ebind_Inl meaning intro: ends_error)
    next
      fix \<sigma>2 vb s2 assume vb: "if skip va \<or> noeval s1 \<noteq> 0 then \<sigma>2 = \<sigma>1 else aeval b \<sigma>1 = (Some vb, \<sigma>2)"
        and s2: "arrives X \<sigma>2 s1 t rest' s2"
        and eb: "guarded (skip va) (ebind ?lx (\<lambda>_. lev pt ?lx n (Suc l))) s1 = (Inr vb, s2)"
      have "ends pt ?lx X n l s t rest' (Some (val va vb), \<sigma>2) ?out"
      proof (rule ends_loop)
        show "?out = loop pt ?lx n l k (val va vb) (s2\<lparr>lasttok := op\<rparr>)"
          by (simp add: round ebind_Inr eb)
        show "tokens_left (s2\<lparr>lasttok := op\<rparr>) \<le> k"
          using tokens_left_arrives [OF s2 s(6)] k by (simp add: tokens_left_lasttok)
        show "arrives X \<sigma>2 s t rest' (s2\<lparr>lasttok := op\<rparr>)"
          using arrives_trans [OF s1 s2] by (simp add: arrives_lasttok)
      qed
      moreover have "outcome (noeval s \<noteq> 0) e \<sigma> (Some (val va vb), \<sigma>2)"
        using va vb s1'(4) skipped [of va vb] by (auto simp: meaning split: if_splits)
      ultimately show ?thesis by blast
    qed (use s1'(2) op' in auto)
  qed
qed

lemma claim_land:
  assumes "claim pt f X a ta 4" and "claim pt f X b tb 5" and "operand_text tb"
  shows "claim pt f X (Land a b) (ta @ infix_text LAND @ tb) 4"
  by (rule claim_logical [where skip = "\<lambda>v. v = 0" and val = "\<lambda>v w. truth (v \<noteq> 0 \<and> w \<noteq> 0)", OF assms(1) _ assms(3)])
    (use assms(2) in \<open>auto simp: loop_eqs truth_def ebind_assoc split: option.splits prod.splits\<close>)

lemma claim_lor:
  assumes "claim pt f X a ta 3" and "claim pt f X b tb 4" and "operand_text tb"
  shows "claim pt f X (Lor a b) (ta @ infix_text LOR @ tb) 3"
  by (rule claim_logical [where skip = "\<lambda>v. v \<noteq> 0" and val = "\<lambda>v w. truth (v \<noteq> 0 \<or> w \<noteq> 0)", OF assms(1) _ assms(3)])
    (use assms(2) in \<open>auto simp: loop_eqs truth_def ebind_assoc split: option.splits prod.splits\<close>)

text \<open>The first token of an operand is not the end and not a colon.\<close>

lemma read_operator_first: "c \<noteq> CHR '':'' \<Longrightarrow> read_operator cur prev c cp = Lexeme t a rest \<Longrightarrow> t \<noteq> T_END \<and> t \<noteq> COL"
proof -
  let ?P = "\<lambda>l. case l of Lex_error m \<Rightarrow> True | Lexeme t a rest \<Rightarrow> t \<noteq> T_END \<and> t \<noteq> COL"
  have branch: "?P l \<Longrightarrow> ?P l' \<Longrightarrow> ?P (if b then l else l')" for b l l' by simp
  have char: "?P (case token_of_char c of None \<Rightarrow> Lex_error m | Some t \<Rightarrow> Lexeme t None cp)" if "c \<noteq> CHR '':''" for m
    using that by (auto simp: token_of_char_def split: option.splits if_splits)
  assume "c \<noteq> CHR '':''"
  then have "?P (read_operator cur prev c cp)"
    unfolding read_operator_def Let_def by (intro branch char) simp_all
  then show "read_operator cur prev c cp = Lexeme t a rest \<Longrightarrow> t \<noteq> T_END \<and> t \<noteq> COL" by simp
qed

lemma first_token:
  assumes "operand_text tx" and "blank_less (tp s) = tx @ rest" and "readtok pt f s = (Inr u, s')"
  shows "curtok s' \<noteq> T_END \<and> curtok s' \<noteq> COL"
proof -
  obtain c cp where c: "blank_less (tp s) = c # cp" "c \<noteq> CHR '':''"
    using assms(1,2) operand_start_simps(2) by (cases tx) (auto simp: operand_text_def)
  then have d: "dropWhile cr_whitespace (tp s) = c # cp" by (simp add: blank_less_def)
  consider "legal_variable_starter c" | "\<not> legal_variable_starter c" "c_isdigit c" | "\<not> legal_variable_starter c" "\<not> c_isdigit c" by blast
  then show ?thesis
  proof cases
    case 1
    with assms(3) show ?thesis
      unfolding readtok.simps [of pt f s] d list.case Let_def
      by (auto simp: evalerror_def ebind_def split: option.splits sum.splits prod.splits)
  next
    case 2
    with assms(3) show ?thesis
      unfolding readtok.simps [of pt f s] d list.case Let_def
      by (auto simp: evalerror_def split: sum.splits)
  next
    case 3
    with assms(3) read_operator_first [OF c(2)] show ?thesis
      unfolding readtok.simps [of pt f s] d list.case Let_def
      by (auto simp: evalerror_def split: lexeme.splits)
  qed
qed

lemma checked_operand:
  assumes "operand_text tx" and "blank_less (tp s) = tx @ rest" and "\<And>t. stop t \<Longrightarrow> t = T_END \<or> t = COL"
  shows "ebind (readtok pt f) (\<lambda>_ s. if stop (curtok s) then evalerror msg s else m s) s = ebind (readtok pt f) (\<lambda>_. m) s"
proof (cases "readtok pt f s")
  case (Pair r s')
  show ?thesis
  proof (cases r)
    case (Inl e)
    with Pair show ?thesis by (simp add: ebind_def)
  next
    case (Inr u)
    with first_token [OF assms(1,2)] assms(3) Pair have "\<not> stop (curtok s')" by blast
    with Pair Inr show ?thesis by (simp add: ebind_def)
  qed
qed

lemma cond_cont_run:
  assumes "curtok s = QUES"
  shows "cond_cont pt lx n v s =
    ebind (guarded (v = 0) (ebind lx (\<lambda>_ s.
        if (\<lambda>t. t = T_END \<or> t = COL) (curtok s) then evalerror ''expression expected'' s else parse pt lx n L_comma s)))
      (\<lambda>val1 s.
        if curtok s \<noteq> COL then evalerror ([CHR 0x60] @ '':'' @ [CHR 0x27] @ '' expected for conditional expression'') s
        else ebind (guarded (v \<noteq> 0) (ebind lx (\<lambda>_ s.
                      if (\<lambda>t. t = T_END) (curtok s) then evalerror ''expression expected'' s else parse pt lx n L_cond s)))
               (\<lambda>val2. set_lasttok COND (if v \<noteq> 0 then val1 else val2)) s) s"
  using assms by (simp add: cond_cont_def)

lemma claim_ite:
  assumes c: "claim pt f X c tc 3" and a: "claim pt f X a ta 0" and b: "claim pt f X b tb 2"
    and ta: "operand_text ta" and tb: "operand_text tb"
  shows "claim pt f X (Ite c a b) (tc @ infix_text QUES @ ta @ infix_text COL @ tb) 2"
  unfolding claim_def
proof (intro allI impI)
  fix n and s :: "'a expr_state" and \<sigma> rest t rest'
  let ?lx = "readtok pt f"
  assume s: "blank_less (tp s) = (tc @ infix_text QUES @ ta @ infix_text COL @ tb) @ rest" "curtok s \<noteq> T_STR" "curtok s \<noteq> NUM"
    "ready X \<sigma> s" "closes rest" "goes_on rest t None rest'" "follow 2 t" "length (tp s) \<le> n"
  let ?out = "ebind ?lx (\<lambda>_. lev pt ?lx n 2) s"
  let ?goal = "\<exists>r. outcome (noeval s \<noteq> 0) (Ite c a b) \<sigma> r \<and> ends pt ?lx X n 2 s t rest' r ?out"
  note quiet = follow_level [OF s(7)]
  show ?goal
  proof (rule first_operand [OF c _ s(2-4,8), of QUES "ta @ infix_text COL @ tb @ rest" 2])
    show "blank_less (tp s) = tc @ infix_text QUES @ ta @ infix_text COL @ tb @ rest" using s(1) by simp
  next
    fix \<sigma>1 s1 assume "noeval s = 0" "aeval c \<sigma> = (None, \<sigma>1)" "holds X (shell s1) \<sigma>1"
      "ebind ?lx (\<lambda>_. lev pt ?lx n 3) s = (Inl Longjmp_evalbuf, s1)"
    then show ?goal
      using lev_unfold_error [of 2 ?lx pt n s] by (intro exI [of _ "(None, \<sigma>1)"]) (simp add: ends_error)
  next
    fix \<sigma>1 vc k s1
    assume vc: "if noeval s \<noteq> 0 then \<sigma>1 = \<sigma> else aeval c \<sigma> = (Some vc, \<sigma>1)"
      and s1: "arrives X \<sigma>1 s QUES (CHR '' '' # ta @ infix_text COL @ tb @ rest) s1"
      and len: "length (ta @ infix_text COL @ tb @ rest) + 1 < length (tp s)"
      and l3: "ebind ?lx (\<lambda>_. lev pt ?lx n 3) s = loop pt ?lx n 3 (Suc k) vc s1"
    note s1' = arrives_fields [OF s1]
    obtain m where m: "n = Suc m" using len s(8) by (cases n) auto
    have "?out = loop pt ?lx n 2 n vc s1"
      using l3 loop_quiet [of 3 s1 pt ?lx n "Suc k" vc] s1'(2) by (intro lev_unfold) simp_all
    note out = this [unfolded loop_eqs cond_cont_run [OF s1'(2)]]
    have tp1: "blank_less (tp s1) = ta @ (infix_text COL @ tb @ rest)" "length (tp s1) \<le> m"
      using s1'(3) blank_less_operand [OF ta] len s(8) m by (simp_all add: blank_less_blank)
    let ?m1 = "ebind ?lx (\<lambda>_ s. if (\<lambda>t. t = T_END \<or> t = COL) (curtok s) then evalerror ''expression expected'' s
        else parse pt ?lx n L_comma s)"
    let ?m2 = "ebind ?lx (\<lambda>_ s. if (\<lambda>t. t = T_END) (curtok s) then evalerror ''expression expected'' s
        else parse pt ?lx n L_cond s)"
    have m1: "?m1 (s1\<lparr>noeval := nv\<rparr>) = ebind ?lx (\<lambda>_. lev pt ?lx m 0) (s1\<lparr>noeval := nv\<rparr>)" for nv
      using tp1(1) by (subst checked_operand [OF ta, of _ "infix_text COL @ tb @ rest"]) (auto simp: m parse_lev simp del: parse.simps)
    have col: "COL \<in> infix_tokens" by (simp add: infix_tokens_def)
    show ?goal
    proof (rule claim_guarded [OF a tp1(1) _ _ s1'(1) closes_infix goes_on_infix [OF col] _ _ tp1(2) _ m1, where g = "vc = 0"])
      fix \<sigma>2 s2 assume "\<not> vc = 0" "noeval s1 = 0" "aeval a \<sigma>1 = (None, \<sigma>2)" "holds X (shell s2) \<sigma>2"
        "guarded (vc = 0) ?m1 s1 = (Inl Longjmp_evalbuf, s2)"
      with vc s1'(4) show ?goal
        by (intro exI [of _ "(None, \<sigma>2)"]) (auto simp: out ebind_Inl intro: ends_error)
    next
      fix \<sigma>2 va s2 assume va: "if vc = 0 \<or> noeval s1 \<noteq> 0 then \<sigma>2 = \<sigma>1 else aeval a \<sigma>1 = (Some va, \<sigma>2)"
        and s2: "arrives X \<sigma>2 s1 COL (CHR '' '' # tb @ rest) s2" and ea: "guarded (vc = 0) ?m1 s1 = (Inr va, s2)"
      note s2' = arrives_fields [OF s2]
      have round: "?out = ebind (guarded (vc \<noteq> 0) ?m2) (\<lambda>val2. set_lasttok COND (if vc \<noteq> 0 then va else val2)) s2"
        unfolding out by (simp add: ebind_Inr ea s2'(2))
      have tp2: "blank_less (tp s2) = tb @ rest" "length (tp s2) \<le> m"
        using s2'(3) blank_less_operand [OF tb] tp1(2) s1'(3) by (simp_all add: blank_less_blank infix_text_def)
      have m2: "?m2 (s2\<lparr>noeval := nv\<rparr>) = ebind ?lx (\<lambda>_. lev pt ?lx m 2) (s2\<lparr>noeval := nv\<rparr>)" for nv
        using tp2(1) by (subst checked_operand [OF tb, of _ rest]) (auto simp: m parse_lev simp del: parse.simps)
      show ?goal
      proof (rule claim_guarded [OF b tp2(1) _ _ s2'(1) s(5-7) quiet tp2(2) _ m2, where g = "vc \<noteq> 0"])
        fix \<sigma>3 s3 assume "\<not> vc \<noteq> 0" "noeval s2 = 0" "aeval b \<sigma>2 = (None, \<sigma>3)" "holds X (shell s3) \<sigma>3"
          "guarded (vc \<noteq> 0) ?m2 s2 = (Inl Longjmp_evalbuf, s3)"
        with vc va s1'(4) s2'(4) show ?goal
          by (intro exI [of _ "(None, \<sigma>3)"]) (auto simp: round ebind_Inl intro: ends_error)
      next
        fix \<sigma>3 vb s3 assume vb: "if vc \<noteq> 0 \<or> noeval s2 \<noteq> 0 then \<sigma>3 = \<sigma>2 else aeval b \<sigma>2 = (Some vb, \<sigma>3)"
          and s3: "arrives X \<sigma>3 s2 t rest' s3" and eb: "guarded (vc \<noteq> 0) ?m2 s2 = (Inr vb, s3)"
        let ?v = "if vc \<noteq> 0 then va else vb"
        have "?out = (Inr ?v, s3\<lparr>lasttok := COND\<rparr>)"
          unfolding round by (simp add: ebind_Inr eb set_lasttok_def)
        moreover have "arrives X \<sigma>3 s t rest' (s3\<lparr>lasttok := COND\<rparr>)"
          using arrives_trans [OF arrives_trans [OF s1 s2] s3] by (simp add: arrives_lasttok)
        ultimately have "ends pt ?lx X n 2 s t rest' (Some ?v, \<sigma>3) ?out"
          using quiet by (intro ends_value) simp_all
        moreover have "outcome (noeval s \<noteq> 0) (Ite c a b) \<sigma> (Some ?v, \<sigma>3)"
          using vc va vb s1'(4) s2'(4) by (auto split: if_splits)
        ultimately show ?goal by blast
      qed (use s2'(2) in simp_all)
    qed (use s1'(2) in \<open>simp_all add: follow_def\<close>)
  qed simp_all
qed

lemma claim_seq:
  assumes a: "claim pt f X a ta 0" and b: "claim pt f X b tb 1" and tb: "operand_text tb"
  shows "claim pt f X (Seq a b) (ta @ infix_text COMMA @ tb) 0"
  unfolding claim_def
proof (intro allI impI)
  fix n and s :: "'a expr_state" and \<sigma> rest t rest'
  let ?lx = "readtok pt f"
  assume s: "blank_less (tp s) = (ta @ infix_text COMMA @ tb) @ rest" "curtok s \<noteq> T_STR" "curtok s \<noteq> NUM" "ready X \<sigma> s"
    "closes rest" "goes_on rest t None rest'" "follow 0 t" "length (tp s) \<le> n"
  let ?out = "ebind ?lx (\<lambda>_. lev pt ?lx n 0) s"
  show "\<exists>r. outcome (noeval s \<noteq> 0) (Seq a b) \<sigma> r \<and> ends pt ?lx X n 0 s t rest' r ?out"
  proof (rule first_operand [OF a _ s(2-4,8), of COMMA "tb @ rest" 0])
    show "blank_less (tp s) = ta @ infix_text COMMA @ tb @ rest" using s(1) by simp
  next
    fix \<sigma>1 s1 assume "noeval s = 0" "aeval a \<sigma> = (None, \<sigma>1)" "holds X (shell s1) \<sigma>1" "?out = (Inl Longjmp_evalbuf, s1)"
    then show ?thesis by (intro exI [of _ "(None, \<sigma>1)"]) (simp add: ends_error)
  next
    fix \<sigma>1 va k s1
    assume va: "if noeval s \<noteq> 0 then \<sigma>1 = \<sigma> else aeval a \<sigma> = (Some va, \<sigma>1)"
      and s1: "arrives X \<sigma>1 s COMMA (CHR '' '' # tb @ rest) s1" and len: "length (tb @ rest) + 1 < length (tp s)"
      and k: "length (tb @ rest) + 1 \<le> k" and out: "?out = loop pt ?lx n 0 (Suc k) va s1"
    note s1' = arrives_fields [OF s1]
    have round: "?out = ebind (ebind ?lx (\<lambda>_. lev pt ?lx n 1)) (loop pt ?lx n 0 k) s1"
      using s1'(2) by (simp add: out loop_eqs)
    have tp1: "blank_less (tp s1) = tb @ rest" "length (tp s1) \<le> n"
      using s1'(3) blank_less_operand [OF tb] len s(8) by (simp_all add: blank_less_blank)
    have fol: "follow 1 t" "token_level t \<noteq> Some 1" "(1::nat) \<le> 14"
      using s(7) follow_quiet [of 0 t 1] by (auto intro: follow_mono)
    show ?thesis
    proof (rule claim_quiet [OF b tp1(1) _ _ s1'(1) s(5,6) fol(1,2) tp1(2) fol(3)])
      fix \<sigma>2 s2 assume "outcome (noeval s1 \<noteq> 0) b \<sigma>1 (None, \<sigma>2)" "holds X (shell s2) \<sigma>2"
        "ebind ?lx (\<lambda>_. lev pt ?lx n 1) s1 = (Inl Longjmp_evalbuf, s2)"
      with va s1'(4) show ?thesis
        by (intro exI [of _ "(None, \<sigma>2)"]) (auto simp: round ebind_Inl intro: ends_error)
    next
      fix vb \<sigma>2 s2 assume vb: "outcome (noeval s1 \<noteq> 0) b \<sigma>1 (Some vb, \<sigma>2)" and s2: "arrives X \<sigma>2 s1 t rest' s2"
        and eb: "ebind ?lx (\<lambda>_. lev pt ?lx n 1) s1 = (Inr vb, s2)"
      have "ends pt ?lx X n 0 s t rest' (Some vb, \<sigma>2) ?out"
      proof (rule ends_loop)
        show "?out = loop pt ?lx n 0 k vb s2" by (simp add: round ebind_Inr eb del: One_nat_def)
        show "tokens_left s2 \<le> k" using tokens_left_arrives [OF s2 s(6)] k by simp
        show "arrives X \<sigma>2 s t rest' s2" using arrives_trans [OF s1 s2] .
      qed
      moreover have "outcome (noeval s \<noteq> 0) (Seq a b) \<sigma> (Some vb, \<sigma>2)"
        using va vb s1'(4) by (auto split: if_splits)
      ultimately show ?thesis by blast
    qed (use s1'(2) in auto)
  qed simp_all
qed

end
