(* ===== verification/Arith_Eval.thy ===== *)
theory Arith_Eval
  imports Arith_Correct
begin

text \<open>
  The second half of the proof that the evaluator computes the meaning: operands that are
  variables, assignments, increments, and the theorem for whole expressions. What the recursion
  through the value of a variable has to do is the locale \<open>reads_values\<close>, which is interpreted on
  \<open>subexpr\<close> itself.
\<close>

section \<open>Variables\<close>

definition name_ends :: "cstring \<Rightarrow> bool" where
  "name_ends rest \<longleftrightarrow> rest = [] \<or> \<not> legal_variable_char (hd rest) \<and> hd rest \<noteq> CHR ''[''"

lemma closes_name_ends: "closes rest \<Longrightarrow> name_ends rest"
  by (auto simp: closes_def name_ends_def legal_variable_char_def c_isalnum_def c_isalpha_def c_isdigit_def less_eq_char_def)

lemma valid_identifier_chars: "valid_identifier x \<Longrightarrow> list_all legal_variable_char x"
  by (cases x) (auto simp: valid_identifier_def starter_legal)

lemma no_bracket:
  assumes "valid_identifier x"
  shows "CHR ''['' \<notin> set x"
proof -
  have "\<not> legal_variable_char (CHR ''['')"
    by (simp add: legal_variable_char_def c_isalnum_def c_isalpha_def c_isdigit_def less_eq_char_def)
  with valid_identifier_chars [OF assms] show ?thesis by (auto simp: list_all_iff)
qed

lemma scan_plain_name:
  assumes "valid_identifier x" and "name_ends rest"
  shows "scan_name pt (x @ rest) = Some (x, rest, False)"
proof -
  have "takeWhile legal_variable_char rest = []" "dropWhile legal_variable_char rest = rest"
    using assms(2) by (cases rest; simp add: name_ends_def)+
  then have "takeWhile legal_variable_char (x @ rest) = x" "dropWhile legal_variable_char (x @ rest) = rest"
    using valid_identifier_chars [OF assms(1)] by (simp_all add: list_all_iff takeWhile_append2 dropWhile_append2)
  with assms(2) show ?thesis by (auto simp: scan_name_def Let_def name_ends_def)
qed

lemma goes_on_not_post: "goes_on rest t a rest' \<Longrightarrow> t \<noteq> POSTINC \<and> t \<noteq> POSTDEC"
proof -
  let ?P = "\<lambda>l. case l of Lex_error m \<Rightarrow> True | Lexeme t a rest \<Rightarrow> t \<noteq> POSTINC \<and> t \<noteq> POSTDEC"
  have branch: "(b \<Longrightarrow> ?P l) \<Longrightarrow> ?P l' \<Longrightarrow> ?P (if b then l else l')" for b l l' by simp
  have char: "?P (case token_of_char c of None \<Rightarrow> Lex_error m | Some t \<Rightarrow> Lexeme t None cp)" for m c cp
    by (auto simp: token_of_char_def split: option.splits if_splits)
  have op: "?P (read_operator T_END T_END c cp)" for c cp
    unfolding read_operator_def Let_def by (intro branch char) simp_all
  assume g: "goes_on rest t a rest'"
  show ?thesis
  proof (cases "blank_less rest")
    case Nil
    with g show ?thesis by (simp add: goes_on_def)
  next
    case (Cons c cp)
    with g have "read_operator T_END T_END c cp = Lexeme t a rest'" by (simp add: goes_on_def)
    with op [of c cp] show ?thesis by simp
  qed
qed

lemma holds_update:
  assumes "holds X sh \<sigma>" and "x \<in> X" and "valid_identifier x"
  shows "\<exists>sh'. bind_int_variable x (itos w) sh = (False, sh') \<and> holds X sh' (\<sigma>(x \<mapsto> w))"
proof -
  have x: "holds_at (shell_variables sh x) (\<sigma> x)" using assms by (simp add: holds_def)
  show ?thesis
  proof (cases "shell_variables sh x")
    case None
    have "holds_at (Some \<lparr>var_value = Some (itos w), var_readonly = False, var_noassign = False, var_invisible = False\<rparr>) (Some w)"
      by (simp add: holds_at_def)
    with None assms show ?thesis by (simp add: bind_int_variable_def holds_def)
  next
    case (Some u)
    with x have "\<not> var_readonly u" "\<not> var_noassign u" by (auto simp: holds_at_def split: option.splits)
    then have "holds_at (Some (u\<lparr>var_value := Some (itos w), var_invisible := False\<rparr>)) (Some w)"
      by (simp add: holds_at_def)
    with Some assms \<open>\<not> var_readonly u\<close> \<open>\<not> var_noassign u\<close> show ?thesis
      by (simp add: bind_int_variable_def holds_def)
  qed
qed

lemma bind_run:
  assumes "ready X \<sigma> s" and "x \<in> X" and "valid_identifier x"
  shows "\<exists>sh. bind_lvalue pt x (- 1) (itos w) s = (Inr (), s\<lparr>shell := sh\<rparr>) \<and>
    holds X sh (if noeval s = 0 then \<sigma>(x \<mapsto> w) else \<sigma>)"
proof (cases "noeval s = 0")
  case True
  from assms(1) have "holds X (shell s) \<sigma>" by (simp add: ready_def)
  from holds_update [OF this assms(2,3)] obtain sh' where
    "bind_int_variable x (itos w) (shell s) = (False, sh')" "holds X sh' (\<sigma>(x \<mapsto> w))" by blast
  moreover have "x \<noteq> []" using assms(3) by (auto simp: valid_identifier_def)
  ultimately show ?thesis
    using True no_bracket [OF assms(3)]
    by (intro exI [of _ sh']) (simp add: bind_lvalue_def expr_bind_variable_def)
next
  case False
  with assms(1) show ?thesis
    by (intro exI [of _ "shell s"]) (simp add: bind_lvalue_def ready_def)
qed

lemma assign_op_value:
  assumes "op \<in> assign_ops" and "noeval s \<noteq> 0 \<or> bin_value op a b = Some v"
  shows "\<exists>v'. assign_op op a b s = (Inr v', s) \<and> (noeval s = 0 \<longrightarrow> v' = v)"
proof (cases "a = INTMAX_MIN \<and> b = - 1 \<and> (op = DIV \<or> op = MOD)")
  case True
  with assms min_values show ?thesis by (auto simp: assign_op_def Let_def)
next
  case False
  with assms show ?thesis
    unfolding assign_ops_def insert_iff empty_iff
    by (elim disjE) (auto simp: assign_op_def bin_value_def Let_def word_of_int_sint c_div_def c_mod_def split: if_splits)
qed

lemma assign_op_error:
  assumes "op \<in> assign_ops" and "noeval s = 0" and "bin_value op a b = None"
  shows "\<exists>s'. assign_op op a b s = (Inl Longjmp_evalbuf, s') \<and> shell s' = shell s"
  using assms unfolding assign_ops_def insert_iff empty_iff
  by (elim disjE) (auto simp: assign_op_def bin_value_def evalerror_def split: if_splits)

text \<open>A token that no level above \<open>p\<close> takes.\<close>

lemma lev_pass:
  assumes "p \<le> 14" and "ebind lx (\<lambda>_. lev pt lx n 14) s = (Inr v, s')" and "\<And>q. p \<le> q \<Longrightarrow> token_level (curtok s') \<noteq> Some q"
  shows "ebind lx (\<lambda>_. lev pt lx n p) s = (Inr v, s')"
  using assms
proof (induction rule: inc_induct)
  case base
  then show ?case by simp
next
  case (step q)
  then have "ebind lx (\<lambda>_. lev pt lx n (Suc q)) s = (Inr v, s')" by simp
  then have "ebind lx (\<lambda>_. lev pt lx n q) s = loop pt lx n q n v s'" using step.hyps by (intro lev_unfold) simp_all
  also have "\<dots> = (Inr v, s')" using step by (intro loop_quiet) simp_all
  finally show ?case .
qed

lemma token_level_le: "token_level t = Some l \<Longrightarrow> l \<le> 13"
  by (cases t) auto

lemma prec_le: "prec a \<le> 14"
  by (cases a) (auto split: option.splits dest: token_level_le)

text \<open>What is needed of the recursion through variables: the decimal text of a value evaluates to
  the value.\<close>

locale reads_values =
  fixes pt :: "'a expr_ports" and f :: "cstring \<Rightarrow> ('a, i64) eval"
  assumes int_text: "noeval s = 0 \<Longrightarrow> length (expr_stack s) < MAX_EXPR_RECURSION_LEVEL \<Longrightarrow>
    f (itos w) s = (Inr w, s\<lparr>lastlval := init_lvalue\<rparr>)"
begin

abbreviation lx :: "'a lexer" where "lx \<equiv> readtok pt f"

lemma streval_value:
  assumes "ready X \<sigma> s" and "x \<in> X" and "noeval s = 0"
  shows "\<exists>l. expr_streval pt f x False s =
    (Inr (value_of \<sigma> x), s\<lparr>lastlval := l, curlval := \<lparr>lv_tokstr = Some x, lv_tokval = value_of \<sigma> x, lv_ind = - 1\<rparr>\<rparr>)"
proof (cases "\<sigma> x")
  case None
  with assms have "shell_variables (shell s) x = None" "\<not> unbound_vars_is_error (shell s)"
    by (auto simp: ready_def holds_def holds_at_def dest!: bspec [of _ _ x])
  with None assms(3) show ?thesis
    by (intro exI [of _ "lastlval s"]) (simp add: expr_streval_def value_of_def Let_def)
next
  case (Some w)
  with assms obtain u where u: "shell_variables (shell s) x = Some u" "\<not> unbound_vars_is_error (shell s)"
    "var_value u = Some (itos w)" by (auto simp: ready_def holds_def holds_at_def dest!: bspec [of _ _ x])
  moreover have "itos w \<noteq> []" by (simp add: itos_def show_int_def)
  moreover have "f (itos w) s = (Inr w, s\<lparr>lastlval := init_lvalue\<rparr>)"
    using assms by (intro int_text) (simp_all add: ready_def)
  ultimately show ?thesis
    using Some assms(3) by (intro exI [of _ init_lvalue]) (simp add: expr_streval_def value_of_def Let_def ebind_Inr)
qed

text \<open>Reading a name; \<open>t\<close> is the token that is peeked at.\<close>

lemma read_name:
  assumes s: "blank_less (tp s) = x @ rest" "valid_identifier x" "x \<in> X" "ready X \<sigma> s" "name_ends rest"
    and peek: "\<And>st. tp st = rest \<Longrightarrow> curtok st = T_STR \<Longrightarrow>
      \<exists>st'. lx st = (Inr (), st') \<and> curtok st' = t \<and> shell st' = shell st \<and> expr_stack st' = expr_stack st"
  shows "\<exists>s'. lx s = (Inr (), s') \<and> arrives X \<sigma> s T_STR rest s' \<and> tokstr s' = Some x \<and>
    (noeval s = 0 \<and> t \<noteq> EQ \<longrightarrow> tokval s' = value_of \<sigma> x)"
proof -
  obtain c cs where c: "x = c # cs" "legal_variable_starter c" using s(2) by (cases x) (auto simp: valid_identifier_def)
  have d: "dropWhile cr_whitespace (tp s) = c # cs @ rest" using s(1) c by (simp add: blank_less_def)
  have sc: "scan_name pt (c # cs @ rest) = Some (x, rest, False)" using scan_plain_name [OF s(2,5), of pt] c by simp
  define s1 where "s1 = s\<lparr>lasttp := Some (c # cs @ rest), tp := c # cs @ rest,
     curlval := (if lv_tokstr (curlval s) \<noteq> None \<and> lv_tokstr (curlval s) = tokstr s then init_lvalue else curlval s),
     tokstr := Some x\<rparr>"
  obtain s2 where s2: "lx (s1\<lparr>tokstr := None, tp := rest, noeval := 1, curtok := T_STR\<rparr>) = (Inr (), s2)"
    "curtok s2 = t" "shell s2 = shell s" "expr_stack s2 = expr_stack s"
    using peek [of "s1\<lparr>tokstr := None, tp := rest, noeval := 1, curtok := T_STR\<rparr>"] by (auto simp: s1_def)
  let ?s3 = "RESTORETOK (SAVETOK s1) s2"
  let ?fin = "\<lambda>v s. (Inr (), s\<lparr>tokval := v, lasttok := curtok s, curtok := T_STR, tp := rest\<rparr>)"
  have eq: "lx s = ebind (if lasttok ?s3 = PREINC \<or> lasttok ?s3 = PREDEC \<or> t \<noteq> EQ
      then (\<lambda>s. expr_streval pt f x False (s\<lparr>lastlval := curlval s\<rparr>)) else eret 0) ?fin ?s3"
    unfolding readtok.simps [of pt f s] d list.case Let_def
    using c(2) sc s2(1,2) by (simp add: s1_def del: One_nat_def)
  have s3: "ready X \<sigma> (?s3\<lparr>lastlval := curlval ?s3\<rparr>)" "noeval ?s3 = noeval s" "tokstr ?s3 = Some x" "ready X \<sigma> ?s3"
      "expr_stack ?s3 = expr_stack s"
    using s(4) s2(3,4) by (auto simp: ready_def RESTORETOK_def SAVETOK_def s1_def init_lvalue_def)
  show ?thesis
  proof (cases "(lasttok ?s3 = PREINC \<or> lasttok ?s3 = PREDEC \<or> t \<noteq> EQ) \<and> noeval s = 0")
    case True
    from streval_value [OF s3(1) s(3)] True s3(2) obtain l where
      "expr_streval pt f x False (?s3\<lparr>lastlval := curlval ?s3\<rparr>) = (Inr (value_of \<sigma> x), ?s3\<lparr>lastlval := l,
         curlval := \<lparr>lv_tokstr = Some x, lv_tokval = value_of \<sigma> x, lv_ind = - 1\<rparr>\<rparr>)" by auto
    with True s3 show ?thesis
      by (auto simp: eq ebind_def arrives_def ready_def)
  next
    case False
    then have "lx s = ?fin 0 ?s3 \<or> lx s = ?fin 0 (?s3\<lparr>lastlval := curlval ?s3\<rparr>)"
      using s3(2) by (auto simp: eq ebind_def eret_def expr_streval_def)
    with False s3 show ?thesis
      by (elim disjE) (auto simp: arrives_def ready_def)
  qed
qed

lemma peek_goes_on:
  assumes "goes_on rest t a rest'" and "tp st = rest"
  shows "\<exists>st'. lx st = (Inr (), st') \<and> curtok st' = t \<and> shell st' = shell st \<and> expr_stack st' = expr_stack st"
  using readtok_goes_on [of st t a rest' pt f] assms by auto

text \<open>A name as an operand, up to the token \<open>t\<close> after it.\<close>

lemma name_operand:
  assumes s: "blank_less (tp s) = x @ rest" "valid_identifier x" "x \<in> X" "ready X \<sigma> s" "name_ends rest"
    and on: "goes_on rest t a rest'"
  obtains v s' where "ebind lx (\<lambda>_. lev pt lx n 14) s = (Inr v, s')" and "arrives X \<sigma> s t rest' s'"
    and "lasttok s' = T_STR" and "tokstr s' = Some x" and "\<forall>op. a = Some op \<longrightarrow> assigntok s' = op"
    and "noeval s = 0 \<and> t \<noteq> EQ \<longrightarrow> v = value_of \<sigma> x"
proof -
  from read_name [OF s peek_goes_on [OF on]] obtain s1 where s1: "lx s = (Inr (), s1)" "arrives X \<sigma> s T_STR rest s1"
    "tokstr s1 = Some x" "noeval s = 0 \<and> t \<noteq> EQ \<longrightarrow> tokval s1 = value_of \<sigma> x" by blast
  note s1' = arrives_fields [OF s1(2)]
  obtain s2 where s2: "lx (s1\<lparr>tokstr := None, noeval := 1\<rparr>) = (Inr (), s2)" "curtok s2 = t"
    "shell s2 = shell s1" "expr_stack s2 = expr_stack s1"
    using peek_goes_on [OF on, of "s1\<lparr>tokstr := None, noeval := 1\<rparr>"] s1'(3) by auto
  let ?s3 = "RESTORETOK (SAVETOK s1) s2"
  have s3: "ready X \<sigma> ?s3" "tp ?s3 = rest" "curtok ?s3 = T_STR" "tokstr ?s3 = Some x" "noeval ?s3 = noeval s1"
      "expr_stack ?s3 = expr_stack s1"
    using s1' s1(3) s2(3,4) by (auto simp: ready_def RESTORETOK_def SAVETOK_def)
  from lex_on [of ?s3 t a rest' X \<sigma> pt f] on s3(1,2) obtain s4 where
    s4: "lx ?s3 = (Inr (), s4)" "arrives X \<sigma> ?s3 t rest' s4" "lasttok s4 = T_STR" "tokstr s4 = Some x"
      "assigntok s4 = (case a of None \<Rightarrow> assigntok ?s3 | Some a \<Rightarrow> a)"
    using s3(3,4) by auto
  have "exp0 pt lx (parse pt lx n) s1 = (Inr (tokval s1), s4)"
    using s1'(2) s2(1,2) s4(1) goes_on_not_post [OF on]
    by (simp add: exp0_def Let_def ebind_Inr eret_def del: One_nat_def)
  then have "ebind lx (\<lambda>_. lev pt lx n 14) s = (Inr (tokval s1), s4)"
    using s1'(2) by (simp add: ebind_Inr s1(1) lev14_exp0 unary_ops_def)
  moreover have "arrives X \<sigma> s t rest' s4"
    using s4(2) s3(5,6) s1(2) by (simp add: arrives_def)
  ultimately show thesis using that s4(3-5) s1(4) by auto
qed

lemma claim_var:
  assumes "valid_identifier x" and "x \<in> X"
  shows "claim pt f X (Var x) x 14"
  unfolding claim_def
proof (intro allI impI)
  fix n and s :: "'a expr_state" and \<sigma> rest t rest'
  assume s: "blank_less (tp s) = x @ rest" "ready X \<sigma> s" "closes rest" "goes_on rest t None rest'" "follow 14 t"
  obtain v s' where v: "ebind lx (\<lambda>_. lev pt lx n 14) s = (Inr v, s')" "arrives X \<sigma> s t rest' s'"
    "lasttok s' = T_STR" "tokstr s' = Some x" "\<forall>op. None = Some op \<longrightarrow> assigntok s' = op"
    "noeval s = 0 \<and> t \<noteq> EQ \<longrightarrow> v = value_of \<sigma> x"
    by (rule name_operand [where n = n, OF s(1) assms s(2) closes_name_ends [OF s(3)] s(4)])
  have "ends pt lx X n 14 s t rest' (Some v, \<sigma>) (ebind lx (\<lambda>_. lev pt lx n 14) s)"
    using v(1,2) by (rule primary_ends)
  moreover have "t \<noteq> EQ" using s(5) by (simp add: follow_def)
  ultimately show "\<exists>r. outcome (noeval s \<noteq> 0) (Var x) \<sigma> r \<and> ends pt lx X n 14 s t rest' r (ebind lx (\<lambda>_. lev pt lx n 14) s)"
    using v(6) by (intro exI [of _ "(Some v, \<sigma>)"]) simp
qed

text \<open>Assignments, plain and combined with an operator; \<open>ot\<close> is the text of the operator.\<close>

lemma claim_assignment:
  assumes a: "claim pt f X a ta 1" and ta: "operand_text ta" and x: "valid_identifier x" "x \<in> X"
    and ot: "\<And>z. goes_on (ot @ z) tk ao (CHR '' '' # z)" "\<And>z. name_ends (ot @ z)" "\<And>z. ot @ z \<noteq> []"
    and tk: "tk = EQ \<or> tk = OP_ASSIGN \<and> ao = Some op \<and> op \<in> assign_ops"
    and meaning: "\<And>\<sigma>. aeval e \<sigma> = (case aeval a \<sigma> of (None, \<sigma>') \<Rightarrow> (None, \<sigma>')
      | (Some w, \<sigma>') \<Rightarrow> (case (if tk = OP_ASSIGN then bin_value op (value_of \<sigma> x) w else Some w) of
          None \<Rightarrow> (None, \<sigma>') | Some v \<Rightarrow> (Some v, \<sigma>'(x \<mapsto> v))))"
  shows "claim pt f X e (x @ ot @ ta) 1"
  unfolding claim_def
proof (intro allI impI)
  fix n and s :: "'a expr_state" and \<sigma> rest t rest'
  assume s: "blank_less (tp s) = (x @ ot @ ta) @ rest" "curtok s \<noteq> T_STR" "curtok s \<noteq> NUM" "ready X \<sigma> s"
    "closes rest" "goes_on rest t None rest'" "follow 1 t" "length (tp s) \<le> n"
  let ?out = "ebind lx (\<lambda>_. lev pt lx n 1) s"
  let ?goal = "\<exists>r. outcome (noeval s \<noteq> 0) e \<sigma> r \<and> ends pt lx X n 1 s t rest' r ?out"
  have bl: "blank_less (tp s) = x @ (ot @ ta @ rest)" using s(1) by simp
  obtain old s1 where n1: "ebind lx (\<lambda>_. lev pt lx n 14) s = (Inr old, s1)" "arrives X \<sigma> s tk (CHR '' '' # ta @ rest) s1"
    "lasttok s1 = T_STR" "tokstr s1 = Some x" "\<forall>op. ao = Some op \<longrightarrow> assigntok s1 = op"
    "noeval s = 0 \<and> tk \<noteq> EQ \<longrightarrow> old = value_of \<sigma> x"
    by (rule name_operand [where n = n, OF bl x s(4) ot(2) ot(1)])
  note s1' = arrives_fields [OF n1(2)]
  have tl: "token_level (curtok s1) = Some 1" using tk s1'(2) by auto
  have "ebind lx (\<lambda>_. lev pt lx n (Suc 1)) s = (Inr old, s1)"
    using tl by (intro lev_pass [OF _ n1(1)]) simp_all
  then have "?out = loop pt lx n 1 n old s1" by (intro lev_unfold) simp_all
  then have "?out = assign_cont pt lx n old s1" by (simp add: loop_eqs)
  moreover obtain m where m: "n = Suc m"
    using blank_less_length [of "tp s"] s(8) bl ta by (cases n) (auto simp: operand_text_def)
  moreover have "lv_ind (curlval s1) = - 1" using s1'(1) by (simp add: ready_def)
  ultimately have out: "?out = ebind (ebind lx (\<lambda>_. lev pt lx m 1)) (\<lambda>rvalue.
      ebind (if tk = OP_ASSIGN then assign_op (assigntok s1) old rvalue else eret rvalue) (\<lambda>v.
        ebind (bind_lvalue pt x (- 1) (itos v)) (\<lambda>_ s.
          (Inr v, s\<lparr>curlval := (if lv_tokstr (curlval s) \<noteq> None \<and> lv_tokstr (curlval s) = tokstr s
                                then init_lvalue else curlval s), tokstr := None\<rparr>)))) s1"
    using tk s1'(2) n1(3,4) by (auto simp: assign_cont_def parse_lev ebind_assoc simp del: parse.simps)
  have tp1: "blank_less (tp s1) = ta @ rest" using s1'(3) blank_less_operand [OF ta] by (simp add: blank_less_blank)
  have len1: "length (tp s1) \<le> m"
  proof -
    have "length (ot @ ta @ rest) \<ge> Suc (length (CHR '' '' # ta @ rest))"
      using goes_on_length [OF ot(1) [of "ta @ rest"]] tk by (auto split: if_splits)
    moreover have "x \<noteq> []" using x(1) by (auto simp: valid_identifier_def)
    ultimately show ?thesis
      using blank_less_length [of "tp s"] s(8) bl s1'(3) m by (cases x) auto
  qed
  have lev1: "token_level t \<noteq> Some 1" using s(7) token_cases_level(11) [of t] by (simp add: follow_def del: One_nat_def)
  show ?goal
  proof (rule claim_quiet [OF a tp1 _ _ s1'(1) s(5-7) lev1 len1])
    fix \<sigma>2 s2 assume "outcome (noeval s1 \<noteq> 0) a \<sigma> (None, \<sigma>2)" "holds X (shell s2) \<sigma>2"
      "ebind lx (\<lambda>_. lev pt lx m 1) s1 = (Inl Longjmp_evalbuf, s2)"
    with s1'(4) show ?goal
      by (intro exI [of _ "(None, \<sigma>2)"]) (auto simp: out ebind_Inl meaning simp del: One_nat_def intro: ends_error)
  next
    fix w \<sigma>2 s2 assume w: "outcome (noeval s1 \<noteq> 0) a \<sigma> (Some w, \<sigma>2)" and s2: "arrives X \<sigma>2 s1 t rest' s2"
      and ew: "ebind lx (\<lambda>_. lev pt lx m 1) s1 = (Inr w, s2)"
    note s2' = arrives_fields [OF s2]
    let ?fin = "if tk = OP_ASSIGN then bin_value op (value_of \<sigma> x) w else Some w"
    let ?m = "if tk = OP_ASSIGN then assign_op (assigntok s1) old w else eret w"
    have op: "tk = OP_ASSIGN \<Longrightarrow> assigntok s1 = op \<and> op \<in> assign_ops" using tk n1(5) by auto
    have nv2: "noeval s2 = noeval s" using s2'(4) s1'(4) by simp
    show ?goal
    proof (cases "noeval s = 0 \<and> ?fin = None")
      case True
      then have tk': "tk = OP_ASSIGN" "bin_value op old w = None" using n1(6) by (auto split: if_splits)
      with assign_op_error [of op s2 old w] op nv2 True obtain s3 where
        s3: "?m s2 = (Inl Longjmp_evalbuf, s3)" "shell s3 = shell s2" by auto
      have "ends pt lx X n 1 s t rest' (None, \<sigma>2) ?out"
        using s3 s2'(1) by (intro ends_error [of _ s3]) (simp_all add: out ebind_Inr ew ebind_Inl ready_def del: One_nat_def)
      with True tk' w s1'(4) n1(6) show ?goal
        by (intro exI [of _ "(None, \<sigma>2)"]) (simp add: meaning del: One_nat_def)
    next
      case False
      have "\<exists>v. ?m s2 = (Inr v, s2) \<and> (noeval s = 0 \<longrightarrow> ?fin = Some v)"
      proof (cases "tk = OP_ASSIGN")
        case True
        with False nv2 n1(6) obtain v where "noeval s2 \<noteq> 0 \<or> bin_value op old w = Some v" by auto
        from assign_op_value [OF _ this] True op nv2 n1(6) \<open>noeval s2 \<noteq> 0 \<or> _\<close> show ?thesis by auto
      next
        case False
        then show ?thesis by (simp add: eret_def)
      qed
      then obtain v where v: "?m s2 = (Inr v, s2)" "noeval s = 0 \<longrightarrow> ?fin = Some v"
        by (elim exE conjE) (rule that)
      obtain sh where sh: "bind_lvalue pt x (- 1) (itos v) s2 = (Inr (), s2\<lparr>shell := sh\<rparr>)"
        "holds X sh (if noeval s2 = 0 then \<sigma>2(x \<mapsto> v) else \<sigma>2)"
        using bind_run [OF s2'(1) x(2,1)] by blast
      let ?s3 = "s2\<lparr>shell := sh, curlval := (if lv_tokstr (curlval s2) \<noteq> None \<and> lv_tokstr (curlval s2) = tokstr s2
                                then init_lvalue else curlval s2), tokstr := None\<rparr>"
      have "?out = (Inr v, ?s3)"
        unfolding out by (auto simp add: ebind_Inr ew v(1) sh(1) simp del: One_nat_def)
      moreover have "arrives X (if noeval s2 = 0 then \<sigma>2(x \<mapsto> v) else \<sigma>2) s t rest' ?s3"
        using arrives_trans [OF n1(2) s2] sh(2) by (auto simp: arrives_def ready_def init_lvalue_def)
      ultimately have "ends pt lx X n 1 s t rest' (Some v, if noeval s2 = 0 then \<sigma>2(x \<mapsto> v) else \<sigma>2) ?out"
        using lev1 by (intro ends_value) simp_all
      moreover have "outcome (noeval s \<noteq> 0) e \<sigma> (Some v, if noeval s2 = 0 then \<sigma>2(x \<mapsto> v) else \<sigma>2)"
        using w s1'(4) nv2 v(2) by (auto simp: meaning split: if_splits)
      ultimately show ?goal by blast
    qed
  qed (use tk s1'(2) in auto)
qed

text \<open>The increments and decrements.\<close>

lemma read_pre:
  assumes "t = PREINC \<or> t = PREDEC" and "valid_identifier x" and "cur \<noteq> T_STR" and "cur \<noteq> NUM"
  shows "read_operator cur prev (hd (token_text t)) (tl (token_text t) @ x @ rest) = Lexeme t None (x @ rest)"
proof -
  obtain c cs where c: "x = c # cs" "legal_variable_starter c" using assms(2) by (cases x) (auto simp: valid_identifier_def)
  then have "\<not> cr_whitespace c" using operand_start_simps(1) [of c] by (simp add: operand_start_def)
  with assms c show ?thesis
    by (elim disjE) (simp_all add: read_operator_def token_text_def starts_with_def Let_def)
qed

lemma claim_pre:
  assumes x: "valid_identifier x" "x \<in> X" and op: "op = PREINC \<or> op = PREDEC"
  shows "claim pt f X (Pre op x) (token_text op @ x) 14"
  unfolding claim_def
proof (intro allI impI)
  fix n and s :: "'a expr_state" and \<sigma> rest t rest'
  assume s: "blank_less (tp s) = (token_text op @ x) @ rest" "curtok s \<noteq> T_STR" "curtok s \<noteq> NUM" "ready X \<sigma> s"
    "closes rest" "goes_on rest t None rest'" "follow 14 t"
  let ?out = "ebind lx (\<lambda>_. lev pt lx n 14) s"
  obtain c where c: "token_text op = c # tl (token_text op)" "c = hd (token_text op)" "c = CHR ''+'' \<or> c = CHR ''-''"
    using op by (auto simp: token_text_def)
  have d: "dropWhile cr_whitespace (tp s) = c # tl (token_text op) @ x @ rest"
    using s(1) c(1) unfolding blank_less_def by (metis append.assoc append_Cons)
  have nc: "\<not> c_isdigit c" "\<not> legal_variable_starter c" using c(3) not_name_or_digit [of c] by auto
  have "read_operator (curtok s) (lasttok s) c (tl (token_text op) @ x @ rest) = Lexeme op None (x @ rest)"
    using read_pre [OF op x(1) s(2,3)] c(2) by simp
  from readtok_operator [OF d nc this, of pt f] obtain s1 where s1: "lx s = (Inr (), s1)"
    "arrives X \<sigma> s op (x @ rest) s1" using s(4) by (auto simp: arrives_def ready_def)
  note s1' = arrives_fields [OF s1(2)]
  let ?s1 = "s1\<lparr>lasttok := op\<rparr>"
  have r1: "ready X \<sigma> ?s1" "blank_less (tp ?s1) = x @ rest"
    using s1'(1,3) blank_less_operand [OF name_text [OF x(1)]] by (simp_all add: ready_def)
  from read_name [OF r1(2) x r1(1) closes_name_ends [OF s(5)] peek_goes_on [OF s(6)]] obtain s2 where
    s2: "lx ?s1 = (Inr (), s2)" "arrives X \<sigma> ?s1 T_STR rest s2" "tokstr s2 = Some x"
      "noeval s1 = 0 \<and> t \<noteq> EQ \<longrightarrow> tokval s2 = value_of \<sigma> x" by auto
  note s2' = arrives_fields [OF s2(2)]
  let ?v = "tokval s2 + incr_value op" and ?\<sigma> = "if noeval s2 = 0 then \<sigma>(x \<mapsto> tokval s2 + incr_value op) else \<sigma>"
  obtain sh where sh: "bind_lvalue pt x (- 1) (itos ?v) s2 = (Inr (), s2\<lparr>shell := sh\<rparr>)" "holds X sh ?\<sigma>"
    using bind_run [OF s2'(1) x(2,1)] by blast
  let ?s3 = "s2\<lparr>shell := sh, curtok := NUM\<rparr>"
  have r3: "ready X ?\<sigma> ?s3" "goes_on (tp ?s3) t None rest'" using s2'(1,3) sh(2) s(6) by (auto simp: ready_def)
  obtain s4 where s4: "lx ?s3 = (Inr (), s4)" "arrives X ?\<sigma> ?s3 t rest' s4"
    using lex_on [OF r3(2,1), of pt f] by blast
  have "lv_ind (curlval s2) = - 1" using s2'(1) by (simp add: ready_def)
  then have "exp0 pt lx (parse pt lx n) s1 = (Inr ?v, s4)"
    using op s1'(2) s2(1,3) s2'(2) sh(1) s4(1) by (simp add: exp0_def Let_def ebind_Inr eret_def)
  moreover have "curtok s1 \<notin> unary_ops" using op s1'(2) by (auto simp: unary_ops_def)
  ultimately have "?out = (Inr ?v, s4)" by (simp add: ebind_Inr s1(1) lev14_exp0)
  moreover have "arrives X ?\<sigma> s t rest' s4"
    using s4(2) s2(2) s1(2) by (simp add: arrives_def)
  ultimately have "ends pt lx X n 14 s t rest' (Some ?v, ?\<sigma>) ?out" by (rule primary_ends)
  moreover have "outcome (noeval s \<noteq> 0) (Pre op x) \<sigma> (Some ?v, ?\<sigma>)"
    using op s2(4) s1'(4) s2'(4) s(7) by (auto simp: incr_value_def follow_def Let_def)
  ultimately show "\<exists>r. outcome (noeval s \<noteq> 0) (Pre op x) \<sigma> r \<and> ends pt lx X n 14 s t rest' r ?out" by blast
qed

lemma read_post_char:
  "read_operator T_STR prev (CHR ''+'') (CHR ''+'' # rest) = Lexeme POSTINC None rest"
  "read_operator T_STR prev (CHR ''-'') (CHR ''-'' # rest) = Lexeme POSTDEC None rest"
  by (simp_all add: read_operator_def starts_with_def Let_def)

lemma read_post:
  assumes "t = POSTINC \<or> t = POSTDEC" and "tp st = token_text t @ rest" and "curtok st = T_STR"
  shows "\<exists>lp. lx st = (Inr (), st\<lparr>lasttp := lp, lasttok := T_STR, curtok := t, tp := rest\<rparr>)"
proof -
  obtain c where c: "token_text t = [c, c]" "c = CHR ''+'' \<and> t = POSTINC \<or> c = CHR ''-'' \<and> t = POSTDEC"
    using assms(1) by (auto simp: token_text_def)
  have "c \<in> set (''()=!><&|*-+/%~?:,'' @ [CHR 0x5E])" using c(2) by (elim disjE conjE) simp_all
  note nc = not_name_or_digit [OF this]
  then have d: "dropWhile cr_whitespace (tp st) = c # c # rest" using assms(2) c(1) by simp
  have "read_operator (curtok st) (lasttok st) c (c # rest) = Lexeme t None rest"
    using c(2) read_post_char unfolding assms(3) by (elim disjE conjE) simp_all
  from readtok_operator [OF d nc(2,1) this, of pt f] show ?thesis
    unfolding assms(3) option.case by (intro exI [of _ "Some (c # c # rest)"]) simp
qed

lemma claim_post:
  assumes x: "valid_identifier x" "x \<in> X" and op: "op = POSTINC \<or> op = POSTDEC"
  shows "claim pt f X (Post op x) (x @ token_text op) 14"
  unfolding claim_def
proof (intro allI impI)
  fix n and s :: "'a expr_state" and \<sigma> rest t rest'
  assume s: "blank_less (tp s) = (x @ token_text op) @ rest" "ready X \<sigma> s" "closes rest" "goes_on rest t None rest'"
  let ?out = "ebind lx (\<lambda>_. lev pt lx n 14) s"
  have bl: "blank_less (tp s) = x @ (token_text op @ rest)" using s(1) by simp
  have ne: "name_ends (token_text op @ rest)"
    using op by (auto simp: name_ends_def token_text_def legal_variable_char_def c_isalnum_def c_isalpha_def c_isdigit_def less_eq_char_def)
  have peek: "\<exists>st'. lx st = (Inr (), st') \<and> curtok st' = op \<and> shell st' = shell st \<and> expr_stack st' = expr_stack st"
    if "tp st = token_text op @ rest" "curtok st = T_STR" for st
    using read_post [OF op that] by auto
  from read_name [OF bl x s(2) ne peek] obtain s1 where s1: "lx s = (Inr (), s1)"
    "arrives X \<sigma> s T_STR (token_text op @ rest) s1" "tokstr s1 = Some x" "noeval s = 0 \<longrightarrow> tokval s1 = value_of \<sigma> x"
    using op by auto
  note s1' = arrives_fields [OF s1(2)]
  obtain lp where s2: "lx (s1\<lparr>tokstr := None, noeval := 1\<rparr>) =
      (Inr (), s1\<lparr>tokstr := None, noeval := 1, lasttp := lp, lasttok := T_STR, curtok := op, tp := rest\<rparr>)"
    using read_post [OF op, of "s1\<lparr>tokstr := None, noeval := 1\<rparr>" rest] s1'(2,3) by auto
  let ?s2 = "s1\<lparr>lasttp := lp, curtok := op, tp := rest, tokstr := Some x, lasttok := T_STR\<rparr>"
  let ?v = "tokval s1 + incr_value op"
  have r2: "ready X \<sigma> ?s2" using s1'(1) by (simp add: ready_def)
  let ?\<sigma> = "if noeval s1 = 0 then \<sigma>(x \<mapsto> tokval s1 + incr_value op) else \<sigma>"
  obtain sh where sh: "bind_lvalue pt x (- 1) (itos ?v) ?s2 = (Inr (), ?s2\<lparr>shell := sh\<rparr>)" "holds X sh ?\<sigma>"
    using bind_run [OF r2 x(2,1), of pt ?v] by auto
  let ?s3 = "?s2\<lparr>shell := sh, curtok := NUM\<rparr>"
  have r3: "ready X ?\<sigma> ?s3" "goes_on (tp ?s3) t None rest'" using r2 sh(2) s(4) by (auto simp: ready_def)
  obtain s4 where s4: "lx ?s3 = (Inr (), s4)" "arrives X ?\<sigma> ?s3 t rest' s4"
    using lex_on [OF r3(2,1), of pt f] by blast
  have put_back: "s1\<lparr>tokstr := Some x, noeval := noeval s1, curlval := curlval s1\<rparr> = s1" using s1(3) by simp
  have "lv_ind (curlval s1) = - 1" using s1'(1) by (simp add: ready_def)
  then have "exp0 pt lx (parse pt lx n) s1 = (Inr (tokval s1), s4)"
    using op s1'(2) s1(3) s2 sh(1) s4(1) put_back
    by (auto simp: exp0_def Let_def ebind_Inr eret_def SAVETOK_def simp del: One_nat_def)
  then have "?out = (Inr (tokval s1), s4)" using s1'(2) by (auto simp: ebind_Inr s1(1) lev14_exp0 unary_ops_def)
  moreover have "arrives X ?\<sigma> s t rest' s4"
    using s4(2) s1(2) by (simp add: arrives_def)
  ultimately have "ends pt lx X n 14 s t rest' (Some (tokval s1), ?\<sigma>) ?out" by (rule primary_ends)
  moreover have "outcome (noeval s \<noteq> 0) (Post op x) \<sigma> (Some (tokval s1), ?\<sigma>)"
    using op s1(4) s1'(4) by (auto simp: incr_value_def Let_def)
  ultimately show "\<exists>r. outcome (noeval s \<noteq> 0) (Post op x) \<sigma> r \<and> ends pt lx X n 14 s t rest' r ?out" by blast
qed

lemma goes_on_op_assign:
  assumes "op \<in> assign_ops"
  shows "goes_on ((CHR '' '' # token_text op @ ''= '') @ z) OP_ASSIGN (Some op) (CHR '' '' # z)"
proof (rule goes_on_read [of _ "hd (token_text op)" "tl (token_text op) @ ''= '' @ z"])
  show "blank_less ((CHR '' '' # token_text op @ ''= '') @ z) = hd (token_text op) # tl (token_text op) @ ''= '' @ z"
    using assms by (auto simp: assign_ops_def token_text_def blank_less_def cr_whitespace_def)
  show "hd (token_text op) \<in> set (''()=!><&|*-+/%~?:,'' @ [CHR 0x5E])"
    using assms by (auto simp: assign_ops_def token_text_def)
  show "read_operator cur prev (hd (token_text op)) (tl (token_text op) @ ''= '' @ z) = Lexeme OP_ASSIGN (Some op) (CHR '' '' # z)"
    for cur prev
    using assms unfolding assign_ops_def insert_iff empty_iff
    by (elim disjE) (simp_all add: token_text_def read_operator_def starts_with_def Let_def token_of_char_def)
qed

lemma claim_assign:
  assumes a: "claim pt f X a ta 1" "operand_text ta" and x: "valid_identifier x" "x \<in> X"
  shows "claim pt f X (Assign x a) (x @ infix_text EQ @ ta) 1"
proof (rule claim_assignment [OF a x])
  show "goes_on (infix_text EQ @ z) EQ None (CHR '' '' # z)" for z
    by (rule goes_on_infix) (simp add: infix_tokens_def)
  show "name_ends (infix_text EQ @ z)" for z
    using closes_name_ends [OF closes_infix] .
qed (simp_all add: infix_text_def split: option.splits prod.splits)

lemma claim_op_assign:
  assumes a: "claim pt f X a ta 1" "operand_text ta" and x: "valid_identifier x" "x \<in> X" and op: "op \<in> assign_ops"
  shows "claim pt f X (Op_assign op x a) (x @ '' '' @ token_text op @ ''= '' @ ta) 1"
proof -
  have "claim pt f X (Op_assign op x a) (x @ (CHR '' '' # token_text op @ ''= '') @ ta) 1"
  proof (rule claim_assignment [OF a x goes_on_op_assign [OF op]])
    show "name_ends ((CHR '' '' # token_text op @ ''= '') @ z)" for z
      by (intro closes_name_ends) (simp add: closes_def)
  qed (use op in \<open>auto split: option.splits prod.splits\<close>)
  then show ?thesis by simp
qed

text \<open>Every tree, printed where an operand of level \<open>p\<close> may stand.\<close>

lemma claim_at:
  assumes "claim pt f X a (print_exp a) (prec a)" and "wf_aexp a" and "p \<le> 14" and "prec a \<le> 14"
  shows "claim pt f X a (print_at p a) p"
proof (cases "prec a < p")
  case True
  have "claim pt f X a (print_exp a) 0" using assms by (auto intro: claim_lower')
  then have "claim pt f X a (parens (print_exp a)) 14" using assms(2) by (intro claim_parens print_exp_text)
  with True assms(3) show ?thesis by (auto intro: claim_lower')
next
  case False
  with assms show ?thesis by (auto intro: claim_lower')
qed

lemma claim_print: "wf_aexp a \<Longrightarrow> names a \<subseteq> X \<Longrightarrow> claim pt f X a (print_exp a) (prec a)"
proof (induction a)
  case (Unop t a)
  then show ?case by (auto intro!: claim_unop claim_at print_start prec_le simp del: print_at.simps)
next
  case (Binop t a b)
  then obtain l where l: "token_level t = Some l" "5 \<le> l" by (auto split: option.splits)
  note le = token_level_le [OF l(1)]
  have sub: "claim pt f X a (print_at p a) p" "claim pt f X b (print_at p b) p" if "p \<le> 14" for p
    using Binop that by (auto intro!: claim_at prec_le simp del: print_at.simps)
  have tb: "operand_text (print_at p b)" for p using Binop.prems by (auto intro!: print_start simp del: print_at.simps)
  show ?case
  proof (cases "t = POWER")
    case True
    then show ?thesis using sub(1) [of 14] sub(2) [of 13] tb by (auto intro!: claim_power simp del: print_at.simps)
  next
    case False
    with l(1) le have "l \<le> 12" using token_cases_level(9) [of t] by (cases "l = 13") auto
    with False l sub(1) [of l] sub(2) [of "Suc l"] tb show ?thesis
      by (auto intro!: claim_binop simp del: print_at.simps)
  qed
next
  case (Op_assign t x a)
  then have "claim pt f X a (print_at 1 a) 1" "operand_text (print_at 1 a)"
    by (auto intro!: claim_at print_start prec_le simp del: print_at.simps)
  from claim_op_assign [OF this, of x t] Op_assign.prems show ?case by (simp del: print_at.simps)
qed (auto intro!: claim_num claim_var claim_land claim_lor claim_ite claim_assign claim_pre claim_post
     claim_seq claim_at print_start prec_le simp del: print_at.simps One_nat_def)

end

section \<open>Whole expressions\<close>

lemma lev_number:
  assumes "blank_less (tp s) = show_nat k"
  shows "\<exists>lp lt. ebind (readtok pt f) (\<lambda>_. lev pt (readtok pt f) n 14) s =
    (Inr (of_nat k), s\<lparr>lasttp := lp, tokval := of_nat k, lasttok := lt, curtok := T_END, tp := []\<rparr>)"
proof -
  obtain lp where 1: "readtok pt f s = (Inr (), s\<lparr>lasttp := lp, tokval := of_nat k, lasttok := curtok s, curtok := NUM, tp := []\<rparr>)"
    using readtok_show_nat [of s k "[]" pt f] assms by (auto simp: closes_def)
  let ?s1 = "s\<lparr>lasttp := lp, tokval := of_nat k, lasttok := curtok s, curtok := NUM, tp := []\<rparr>"
  obtain lp' where 2: "readtok pt f ?s1 = (Inr (), ?s1\<lparr>lasttp := lp', assigntok := assigntok ?s1, lasttok := NUM, curtok := T_END, tp := []\<rparr>)"
    using readtok_goes_on [of ?s1 T_END None "[]" pt f] goes_on_Nil by auto
  have "ebind (readtok pt f) (\<lambda>_. lev pt (readtok pt f) n 14) s =
      (Inr (of_nat k), ?s1\<lparr>lasttp := lp', assigntok := assigntok ?s1, lasttok := NUM, curtok := T_END, tp := []\<rparr>)"
    using 2 by (simp add: ebind_Inr [where m = "readtok pt f", OF 1] lev14_exp0 unary_ops_def exp0_def ebind_Inr eret_def)
  then show ?thesis by (intro exI [of _ lp'] exI [of _ NUM]) simp
qed

lemma show_int_cases: "show_int i = (if i < 0 then CHR ''-'' # show_nat (nat (- i)) else show_nat (nat i))"
  by (simp add: show_int_def)

lemma lev_itos:
  assumes "tp s = itos w" and "length (tp s) \<le> n"
  shows "\<exists>lp v lt. ebind (readtok pt f) (\<lambda>_. lev pt (readtok pt f) n 0) s =
    (Inr w, s\<lparr>lasttp := lp, tokval := v, lasttok := lt, curtok := T_END, tp := []\<rparr>)"
proof -
  let ?lx = "readtok pt f"
  have "\<exists>lp v lt. ebind ?lx (\<lambda>_. lev pt ?lx n 14) s = (Inr w, s\<lparr>lasttp := lp, tokval := v, lasttok := lt, curtok := T_END, tp := []\<rparr>)"
  proof (cases "sint w < 0")
    case False
    then have "blank_less (tp s) = show_nat (nat (sint w))"
      using assms blank_less_operand [of "show_nat (nat (sint w))" "[]"] print_exp_text [of "Num (nat (sint w))"]
      by (simp add: itos_def show_int_cases)
    from lev_number [OF this, of pt f n] False show ?thesis by fastforce
  next
    case True
    let ?k = "nat (- sint w)"
    have ot: "operand_text (show_nat ?k)" using print_exp_text [of "Num ?k"] by simp
    have hd: "hd (show_nat ?k) \<noteq> CHR ''-''" using show_nat_start [of ?k] by (auto simp: c_isdigit_def less_eq_char_def)
    have tp: "tp s = prefix_text MINUS (show_nat ?k) @ []"
      using assms True hd by (simp add: itos_def show_int_cases prefix_text_def token_text_def)
    have "goes_on (tp s) MINUS None (show_nat ?k)"
      using read_unary [of MINUS "show_nat ?k" "[]"] ot hd unfolding tp by (simp add: unary_ops_def token_text_def)
    from readtok_goes_on [OF this, of pt f] obtain lp where
      1: "?lx s = (Inr (), s\<lparr>lasttp := lp, assigntok := assigntok s, lasttok := curtok s, curtok := MINUS, tp := show_nat ?k\<rparr>)" by auto
    let ?s1 = "s\<lparr>lasttp := lp, assigntok := assigntok s, lasttok := curtok s, curtok := MINUS, tp := show_nat ?k\<rparr>"
    obtain m where n: "n = Suc m" using assms(2) tp by (cases n) (auto simp: prefix_text_def token_text_def)
    have "blank_less (tp ?s1) = show_nat ?k" using blank_less_operand [OF ot, of "[]"] by simp
    from lev_number [OF this, of pt f m] obtain lp' lt where
      2: "ebind ?lx (\<lambda>_. lev pt ?lx m 14) ?s1 = (Inr (of_nat ?k), ?s1\<lparr>lasttp := lp', tokval := of_nat ?k, lasttok := lt, curtok := T_END, tp := []\<rparr>)"
      by blast
    have neg: "- (of_nat ?k :: i64) = w" using True by (simp add: of_nat_nat)
    have "ebind ?lx (\<lambda>_. lev pt ?lx n 14) s =
        ebind (ebind ?lx (\<lambda>_. lev pt ?lx m 14)) (\<lambda>v. set_lasttok NUM (- v)) ?s1"
      by (simp add: ebind_Inr [where m = ?lx, OF 1] lev_def expunary_def n parse_lev ebind_assoc del: parse.simps)
    also have "\<dots> = (Inr w, s\<lparr>lasttp := lp', tokval := of_nat ?k, lasttok := NUM, curtok := T_END, tp := []\<rparr>)"
      using neg by (subst ebind_Inr [where m = "ebind ?lx (\<lambda>_. lev pt ?lx m 14)", OF 2]) (simp add: set_lasttok_def)
    finally show ?thesis by blast
  qed
  then obtain lp v lt where "ebind ?lx (\<lambda>_. lev pt ?lx n 14) s =
    (Inr w, s\<lparr>lasttp := lp, tokval := v, lasttok := lt, curtok := T_END, tp := []\<rparr>)" by blast
  from lev_pass [OF _ this, of 0] show ?thesis by auto
qed

lemma subexpr_itos:
  assumes "length (expr_stack s) < MAX_EXPR_RECURSION_LEVEL"
  shows "subexpr (Suc d) pt (itos w) s = (Inr w, s\<lparr>lastlval := init_lvalue\<rparr>)"
proof -
  let ?lx = "readtok pt (subexpr d pt)"
  let ?s1 = "start_expression (itos w) (s\<lparr>expr_stack := (SAVETOK s)\<lparr>c_expression := expression s\<rparr> # expr_stack s\<rparr>)"
  have "\<not> cr_whitespace (hd (itos w))" "itos w \<noteq> []"
    using show_nat_start [of "nat (sint w)"]
    by (auto simp: itos_def show_int_cases cr_whitespace_def c_isdigit_def less_eq_char_def)
  then have nb: "dropWhile cr_whitespace (itos w) \<noteq> []" by (cases "itos w") auto
  have "tp ?s1 = itos w" "length (tp ?s1) \<le> Suc (length (itos w))" by (simp_all add: start_expression_def)
  from lev_itos [OF this, of pt "subexpr d pt"] obtain lp v lt where
    l: "ebind ?lx (\<lambda>_. lev pt ?lx (Suc (length (itos w))) 0) ?s1 =
      (Inr w, ?s1\<lparr>lasttp := lp, tokval := v, lasttok := lt, curtok := T_END, tp := []\<rparr>)" by blast
  have "subexpr (Suc d) pt (itos w) s = ebind (ebind ?lx (\<lambda>_. lev pt ?lx (Suc (length (itos w))) 0)) (\<lambda>val s.
      if curtok s \<noteq> T_END then evalerror ''arithmetic syntax error in expression'' s else ebind popexp (\<lambda>_. eret val) s) ?s1"
    using assms nb
    by (simp add: ebind_def [of pushexp] pushexp_def ebind_assoc parse_lev del: parse.simps dropWhile_eq_Nil_conv)
  then show ?thesis
    by (subst (asm) ebind_Inr [where m = "ebind ?lx (\<lambda>_. lev pt ?lx (Suc (length (itos w))) 0)", OF l])
      (simp add: ebind_def popexp_def eret_def start_expression_def SAVETOK_def RESTORETOK_def)
qed

text \<open>The recursion through the value of a variable is \<open>subexpr\<close> one level down.\<close>

interpretation nested: reads_values pt "subexpr (Suc d) pt" for pt d
  using subexpr_itos by unfold_locales

lemma subexpr_computes_meaning:
  assumes a: "wf_aexp a" "names a \<subseteq> X" and sh: "holds X (shell s) \<sigma>"
    and room: "Suc (length (expr_stack s)) < MAX_EXPR_RECURSION_LEVEL" and ne: "noeval s = 0"
  shows "\<exists>s'. subexpr (Suc (Suc d)) pt (print_exp a) s =
      ((case fst (aeval a \<sigma>) of Some v \<Rightarrow> Inr v | None \<Rightarrow> Inl Longjmp_evalbuf), s') \<and> holds X (shell s') (snd (aeval a \<sigma>))"
proof -
  let ?f = "subexpr (Suc d) pt"
  let ?lx = "readtok pt ?f" and ?t = "print_exp a"
  let ?s1 = "start_expression ?t (s\<lparr>expr_stack := (SAVETOK s)\<lparr>c_expression := expression s\<rparr> # expr_stack s\<rparr>)"
  let ?fin = "\<lambda>val s. if curtok s \<noteq> T_END then evalerror ''arithmetic syntax error in expression'' s
      else ebind popexp (\<lambda>_. eret val) s"
  note ot = print_exp_text [OF a(1)]
  have nb: "dropWhile cr_whitespace ?t \<noteq> []"
    using blank_less_operand [OF ot, of "[]"] ot by (simp add: blank_less_def operand_text_def del: dropWhile_eq_Nil_conv)
  have run: "subexpr (Suc (Suc d)) pt ?t s = ebind (ebind ?lx (\<lambda>_. lev pt ?lx (Suc (length ?t)) 0)) ?fin ?s1"
    using room nb unfolding subexpr.simps(2) [of "Suc d"]
    by (simp add: ebind_def [of pushexp] pushexp_def ebind_assoc parse_lev del: parse.simps dropWhile_eq_Nil_conv subexpr.simps)
  have s1: "blank_less (tp ?s1) = ?t @ []" "curtok ?s1 \<noteq> T_STR" "curtok ?s1 \<noteq> NUM" "ready X \<sigma> ?s1" "closes []"
    using blank_less_operand [OF ot, of "[]"] room sh
    by (simp_all add: start_expression_def ready_def init_lvalue_def closes_def)
  have c: "claim pt ?f X a ?t 0"
    using nested.claim_print [OF a] prec_le by (auto intro: claim_lower')
  have f: "follow 0 T_END" "token_level T_END \<noteq> Some 0" "length (tp ?s1) \<le> Suc (length ?t)" "0 \<le> (14::nat)"
    by (simp_all add: follow_def start_expression_def)
  have nv: "noeval ?s1 = 0" using ne by (simp add: start_expression_def)
  show ?thesis
  proof (rule claim_quiet [OF c s1 goes_on_Nil f])
    fix \<sigma>' s' assume "outcome (noeval ?s1 \<noteq> 0) a \<sigma> (None, \<sigma>')" and h: "holds X (shell s') \<sigma>'"
      and e: "ebind ?lx (\<lambda>_. lev pt ?lx (Suc (length ?t)) 0) ?s1 = (Inl Longjmp_evalbuf, s')"
    then have "aeval a \<sigma> = (None, \<sigma>')" using nv by simp
    then show ?thesis using h ebind_Inl [where m = "ebind ?lx (\<lambda>_. lev pt ?lx (Suc (length ?t)) 0)", OF e] unfolding run by auto
  next
    fix \<sigma>' v s' assume "outcome (noeval ?s1 \<noteq> 0) a \<sigma> (Some v, \<sigma>')" and h: "arrives X \<sigma>' ?s1 T_END [] s'"
      and e: "ebind ?lx (\<lambda>_. lev pt ?lx (Suc (length ?t)) 0) ?s1 = (Inr v, s')"
    then have v: "aeval a \<sigma> = (Some v, \<sigma>')" using nv by simp
    have "\<exists>s''. ?fin v s' = (Inr v, s'') \<and> shell s'' = shell s'"
      using h by (simp add: arrives_def ebind_def popexp_def eret_def start_expression_def RESTORETOK_def)
    moreover have "holds X (shell s') \<sigma>'" using h by (simp add: arrives_def ready_def)
    moreover have "subexpr (Suc (Suc d)) pt ?t s = ?fin v s'"
      unfolding run by (rule ebind_Inr [where m = "ebind ?lx (\<lambda>_. lev pt ?lx (Suc (length ?t)) 0)", OF e])
    ultimately show ?thesis using v by (auto simp del: subexpr.simps)
  qed
qed

text \<open>C7: The evaluator computes the meaning. Take any expression, built from decimal numbers, names,
  the unary and binary operators, \<open>&&\<close>, \<open>||\<close>, \<open>?:\<close>, assignments, increments and the comma, written
  with no more parentheses than precedence and associativity need, and a shell whose variables hold
  decimal numbers (or are unset) and may be assigned. Then \<open>evalexp\<close> returns the value of the tree
  in signed 64-bit arithmetic and leaves in the variables what the tree assigns; on a division by 0
  or a negative exponent it says that the expression is invalid, and keeps the assignments made
  before.\<close>

theorem evalexp_computes_meaning:
  assumes "wf_aexp a" and "names a \<subseteq> X" and "holds X (shell s) \<sigma>"
    and "Suc (length (expr_stack s)) < MAX_EXPR_RECURSION_LEVEL"
  shows "(case evalexp pt (print_exp a) s of
      (r, s') \<Rightarrow> r = Inr (case fst (aeval a \<sigma>) of Some v \<Rightarrow> (v, True) | None \<Rightarrow> (0, False)) \<and>
                 holds X (shell s') (snd (aeval a \<sigma>)))"
proof -
  have "Suc MAX_EXPR_RECURSION_LEVEL = Suc (Suc 1023)" by (simp add: MAX_EXPR_RECURSION_LEVEL_def)
  with subexpr_computes_meaning [OF assms(1,2), of "s\<lparr>noeval := 0\<rparr>" \<sigma> 1023 pt] assms(3,4) obtain s' where
    "subexpr (Suc MAX_EXPR_RECURSION_LEVEL) pt (print_exp a) (s\<lparr>noeval := 0\<rparr>) =
      ((case fst (aeval a \<sigma>) of Some v \<Rightarrow> Inr v | None \<Rightarrow> Inl Longjmp_evalbuf), s')"
    "holds X (shell s') (snd (aeval a \<sigma>))" by (auto simp del: subexpr.simps)
  then show ?thesis by (auto simp: evalexp_def simp del: subexpr.simps split: option.splits)
qed

text \<open>\<open>z = (x + y) * 3, z++ < 40 ? -z ** 2 : z / 0\<close> with \<open>x\<close> 5 and \<open>y\<close> -2; \<open>z\<close> is unset.\<close>

definition demo_exp :: aexp where
  "demo_exp = Seq (Assign ''z'' (Binop MUL (Binop PLUS (Var ''x'') (Var ''y'')) (Num 3)))
     (Ite (Binop LT (Post POSTINC ''z'') (Num 40)) (Binop POWER (Unop MINUS (Var ''z'')) (Num 2))
       (Binop DIV (Var ''z'') (Num 0)))"

definition demo_env :: env where
  "demo_env = [''x'' \<mapsto> 5, ''y'' \<mapsto> - 2]"

definition demo_shell :: "unit eshell" where
  "demo_shell = \<lparr>shell_variables = [''x'' \<mapsto> demo_var ''5'' False, ''y'' \<mapsto> demo_var ''-2'' False],
     unbound_vars_is_error = False, array_vars = ()\<rparr>"

lemma demo_print: "print_exp demo_exp = ''z = (x + y) * 3 , z++ < 40 ? -z ** 2 : z / 0''"
  by code_simp

lemma demo_meaning: "fst (aeval demo_exp demo_env) = Some 100" "snd (aeval demo_exp demo_env) ''z'' = Some 10"
  by code_simp+

lemma demo_holds: "holds {''x'', ''y'', ''z''} demo_shell demo_env"
proof -
  have "itos 5 = ''5''" "itos (- 2) = ''-2''" by code_simp+
  then show ?thesis by (simp add: holds_def holds_at_def demo_shell_def demo_env_def demo_var_def)
qed

theorem evalexp_computes_meaning_witness:
  "\<exists>s'. evalexp scalar_ports ''z = (x + y) * 3 , z++ < 40 ? -z ** 2 : z / 0'' (demo_state [] 0\<lparr>shell := demo_shell\<rparr>) =
     (Inr (100, True), s') \<and> (\<exists>v. shell_variables (shell s') ''z'' = Some v \<and> var_value v = Some ''10'')"
proof -
  have wf: "wf_aexp demo_exp" by code_simp
  have i: "itos 10 = ''10''" by code_simp
  have r: "Suc (length (expr_stack (demo_state [] 0\<lparr>shell := demo_shell\<rparr>))) < MAX_EXPR_RECURSION_LEVEL"
    by (simp add: demo_state_def MAX_EXPR_RECURSION_LEVEL_def)
  have n: "names demo_exp \<subseteq> {''x'', ''y'', ''z''}" by (simp add: demo_exp_def)
  have h: "holds {''x'', ''y'', ''z''} (shell (demo_state [] 0\<lparr>shell := demo_shell\<rparr>)) demo_env" using demo_holds by simp
  from evalexp_computes_meaning [OF wf n h r, of scalar_ports] i show ?thesis
    by (auto simp: demo_print demo_meaning holds_def holds_at_def)
qed

end
