(* ===== verification/Hashlib.thy ===== *)
theory Hashlib
  imports Rash_Prelude "HOL-Library.Multiset"
begin

text \<open>
  The chained hash tables of hashlib.c and hashlib.h: the FNV-1 string hash, the bucket
  array with its growth policy, and search, insert, remove, copy, flush and walk. A
  \<open>BUCKET_CONTENTS *\<close> that the C code returns is the found item, and the write through
  that pointer that every caller makes next is \<open>hash_set_data\<close>. A NULL table pointer is
  None. The abstraction \<open>hash_alpha\<close> reads a table as a finite map; the operations are
  proved against it under the invariant \<open>hash_inv\<close>, and the table is an interpretation
  of the map interface \<open>string_map\<close> that its clients use.
\<close>

section \<open>Data\<close>

record 'd bucket =
  b_key :: cstring
  b_data :: "'d option"
  b_khash :: "32 word"
  b_times_found :: int

record 'd hash_table =
  bucket_array :: "'d bucket list list"
  nbuckets :: int
  nentries :: int

definition HASH_NOSRCH :: "32 word" where "HASH_NOSRCH = 1"
definition HASH_CREATE :: "32 word" where "HASH_CREATE = 2"
definition DEFAULT_HASH_BUCKETS :: int where "DEFAULT_HASH_BUCKETS = 128"
definition HASH_REHASH_MULTIPLIER :: int where "HASH_REHASH_MULTIPLIER = 4"
definition HASH_REHASH_FACTOR :: int where "HASH_REHASH_FACTOR = 2"

text \<open>\<open>int\<close> is 32 bits wide; a product that leaves its range is wrapped, as the overflow
  test of \<open>hash_grow\<close> expects.\<close>

definition HASH_SHOULDGROW :: "'d hash_table \<Rightarrow> bool" where
  "HASH_SHOULDGROW t \<longleftrightarrow> nentries t \<ge> c_int (nbuckets t * HASH_REHASH_FACTOR)"

section \<open>The hash function\<close>

definition FNV_OFFSET :: "32 word" where "FNV_OFFSET = 2166136261"
definition FNV_PRIME :: "32 word" where "FNV_PRIME = 16777619"

text \<open>\<open>*s\<close> is a (signed) \<open>char\<close>, so a byte from 128 on is sign-extended before the XOR.\<close>

definition char_u32 :: "char \<Rightarrow> 32 word" where
  "char_u32 c = word_of_int (signed_take_bit 7 (of_char c :: int))"

definition hash_step :: "32 word \<Rightarrow> char \<Rightarrow> 32 word" where
  "hash_step i c =
     (let i = i + (push_bit 1 i + push_bit 4 i + push_bit 7 i + push_bit 8 i + push_bit 24 i)
      in i XOR char_u32 c)"

fun hash_string_from :: "32 word \<Rightarrow> cstring \<Rightarrow> 32 word" where
  "hash_string_from i [] = i"
| "hash_string_from i (c # s) = hash_string_from (hash_step i c) s"

definition hash_string :: "cstring \<Rightarrow> 32 word" where
  "hash_string s = hash_string_from FNV_OFFSET s"

text \<open>The bucket number: \<open>hash & (nbuckets - 1)\<close>, an unsigned operation.\<close>

definition bucket_index :: "32 word \<Rightarrow> int \<Rightarrow> nat" where
  "bucket_index h n = unat (h AND (word_of_int n - 1))"

definition hash_bucket :: "cstring \<Rightarrow> 'd hash_table \<Rightarrow> nat" where
  "hash_bucket s t = bucket_index (hash_string s) (nbuckets t)"

section \<open>Operations\<close>

definition hash_create :: "int \<Rightarrow> 'd hash_table" where
  "hash_create buckets =
     (let buckets = (if buckets = 0 then DEFAULT_HASH_BUCKETS else buckets)
      in \<lparr>bucket_array = replicate (nat buckets) [], nbuckets = buckets, nentries = 0\<rparr>)"

definition hash_size :: "'d hash_table option \<Rightarrow> int" where
  "hash_size table = (case table of None \<Rightarrow> 0 | Some t \<Rightarrow> nentries t)"

definition rehash_item :: "int \<Rightarrow> 'd bucket \<Rightarrow> 'd bucket list list \<Rightarrow> 'd bucket list list" where
  "rehash_item nsize item ba =
     (let i = bucket_index (b_khash item) nsize in ba[i := item # ba ! i])"

definition hash_rehash :: "'d hash_table \<Rightarrow> int \<Rightarrow> 'd hash_table" where
  "hash_rehash t nsize =
     (if nsize = nbuckets t then t
      else t\<lparr>nbuckets := nsize,
             bucket_array :=
               fold (rehash_item nsize) (concat (bucket_array t)) (replicate (nat nsize) [])\<rparr>)"

definition hash_grow :: "'d hash_table \<Rightarrow> 'd hash_table" where
  "hash_grow t =
     (let nsize = c_int (nbuckets t * HASH_REHASH_MULTIPLIER)
      in if nsize > 0 then hash_rehash t nsize else t)"

definition hash_shrink :: "'d hash_table \<Rightarrow> 'd hash_table" where
  "hash_shrink t = hash_rehash t (nbuckets t div HASH_REHASH_MULTIPLIER)"

text \<open>Copying: \<open>cpdata\<close> copies one datum; without it the datum is a string and is duplicated.\<close>

definition copy_bucket_array :: "('d \<Rightarrow> 'd) option \<Rightarrow> 'd bucket list \<Rightarrow> 'd bucket list" where
  "copy_bucket_array cpdata ba =
     map (\<lambda>e. e\<lparr>b_data := (case b_data e of None \<Rightarrow> None
                | Some d \<Rightarrow> Some (case cpdata of None \<Rightarrow> d | Some f \<Rightarrow> f d))\<rparr>) ba"

definition hash_copy :: "'d hash_table option \<Rightarrow> ('d \<Rightarrow> 'd) option \<Rightarrow> 'd hash_table option" where
  "hash_copy table cpdata =
     (case table of None \<Rightarrow> None
      | Some t \<Rightarrow> Some \<lparr>bucket_array = map (copy_bucket_array cpdata) (bucket_array t),
                        nbuckets = nbuckets t, nentries = nentries t\<rparr>)"

definition item_matches :: "32 word \<Rightarrow> cstring \<Rightarrow> 'd bucket \<Rightarrow> bool" where
  "item_matches hv s it \<longleftrightarrow> hv = b_khash it \<and> b_key it = s"

text \<open>Apply a change to the first matching item of a chain (the item whose pointer the code holds).\<close>

fun update_first :: "('a \<Rightarrow> bool) \<Rightarrow> ('a \<Rightarrow> 'a) \<Rightarrow> 'a list \<Rightarrow> 'a list" where
  "update_first P f [] = []"
| "update_first P f (x # xs) = (if P x then f x # xs else x # update_first P f xs)"

fun remove_first :: "('a \<Rightarrow> bool) \<Rightarrow> 'a list \<Rightarrow> 'a list" where
  "remove_first P [] = []"
| "remove_first P (x # xs) = (if P x then xs else x # remove_first P xs)"

definition new_bucket :: "cstring \<Rightarrow> 'd bucket" where
  "new_bucket s = \<lparr>b_key = s, b_data = None, b_khash = hash_string s, b_times_found = 0\<rparr>"

text \<open>Prepend a fresh item to its chain, growing the table first when it is full.\<close>

definition hash_add :: "cstring \<Rightarrow> 'd hash_table \<Rightarrow> 'd bucket \<times> 'd hash_table" where
  "hash_add s t =
     (let t = (if HASH_SHOULDGROW t then hash_grow t else t);
          i = hash_bucket s t;
          it = new_bucket s
      in (it, t\<lparr>bucket_array := (bucket_array t)[i := it # bucket_array t ! i],
                 nentries := nentries t + 1\<rparr>))"

definition hash_search ::
  "cstring \<Rightarrow> 'd hash_table option \<Rightarrow> 32 word \<Rightarrow> 'd bucket option \<times> 'd hash_table option" where
  "hash_search s table flags =
     (case table of
        None \<Rightarrow> (None, None)
      | Some t \<Rightarrow>
          if flags AND HASH_CREATE = 0 \<and> nentries t = 0 then (None, Some t)
          else
            let hv = hash_string s; i = hash_bucket s t; chain = bucket_array t ! i
            in (case List.find (item_matches hv s) chain of
                  Some it \<Rightarrow>
                    let found = (\<lambda>e. e\<lparr>b_times_found := b_times_found e + 1\<rparr>)
                    in (Some (found it),
                        Some (t\<lparr>bucket_array :=
                          (bucket_array t)[i := update_first (item_matches hv s) found chain]\<rparr>))
                | None \<Rightarrow>
                    if flags AND HASH_CREATE \<noteq> 0
                    then (let (it, t') = hash_add s t in (Some it, Some t'))
                    else (None, Some t)))"

definition hash_insert ::
  "cstring \<Rightarrow> 'd hash_table option \<Rightarrow> 32 word \<Rightarrow> 'd bucket \<times> 'd hash_table option" where
  "hash_insert s table flags =
     (let t0 = (case table of None \<Rightarrow> hash_create 0 | Some t \<Rightarrow> t);
          (item, t1) = (if flags AND HASH_NOSRCH \<noteq> 0 then (None, Some t0)
                        else hash_search s (Some t0) 0);
          t = (case t1 of None \<Rightarrow> t0 | Some t' \<Rightarrow> t');
          (it, t') = (case item of Some it \<Rightarrow> (it, t) | None \<Rightarrow> hash_add s t)
      in (it, case table of None \<Rightarrow> None | Some _ \<Rightarrow> Some t'))"

definition hash_remove ::
  "cstring \<Rightarrow> 'd hash_table option \<Rightarrow> 'd bucket option \<times> 'd hash_table option" where
  "hash_remove s table =
     (case table of
        None \<Rightarrow> (None, None)
      | Some t \<Rightarrow>
          if nentries t = 0 then (None, Some t)
          else
            let hv = hash_string s; i = hash_bucket s t; chain = bucket_array t ! i
            in (case List.find (item_matches hv s) chain of
                  Some it \<Rightarrow>
                    (Some it, Some (t\<lparr>bucket_array :=
                        (bucket_array t)[i := remove_first (item_matches hv s) chain],
                      nentries := nentries t - 1\<rparr>))
                | None \<Rightarrow> (None, Some t)))"

text \<open>\<open>hash_flush\<close> frees every item, in walk order, and empties the chains.\<close>

definition hash_flush :: "'d hash_table option \<Rightarrow> 'd bucket list \<times> 'd hash_table option" where
  "hash_flush table =
     (case table of
        None \<Rightarrow> ([], None)
      | Some t \<Rightarrow>
          if nentries t = 0 then ([], Some t)
          else (concat (bucket_array t),
                Some (t\<lparr>bucket_array := map (\<lambda>_. []) (bucket_array t), nentries := 0\<rparr>)))"

text \<open>\<open>hash_walk\<close> runs a visitor that may change a state of its own and stops on a negative answer.\<close>

fun walk_items :: "('d bucket \<Rightarrow> 's \<Rightarrow> int \<times> 's) \<Rightarrow> 'd bucket list \<Rightarrow> 's \<Rightarrow> 's" where
  "walk_items func [] s = s"
| "walk_items func (it # its) s =
     (let (r, s') = func it s in if r < 0 then s' else walk_items func its s')"

definition hash_walk ::
  "'d hash_table option \<Rightarrow> ('d bucket \<Rightarrow> 's \<Rightarrow> int \<times> 's) \<Rightarrow> 's \<Rightarrow> 's" where
  "hash_walk table func s =
     (case table of
        None \<Rightarrow> s
      | Some t \<Rightarrow> if nentries t = 0 then s else walk_items func (concat (bucket_array t)) s)"

text \<open>The caller's write \<open>item->data = d\<close> through the pointer a search returned.\<close>

definition hash_set_data :: "cstring \<Rightarrow> 'd option \<Rightarrow> 'd hash_table \<Rightarrow> 'd hash_table" where
  "hash_set_data s d t =
     (let i = hash_bucket s t
      in t\<lparr>bucket_array := (bucket_array t)[i :=
             update_first (item_matches (hash_string s) s) (\<lambda>e. e\<lparr>b_data := d\<rparr>)
               (bucket_array t ! i)]\<rparr>)"

section \<open>Invariant and abstraction\<close>

definition table_items :: "'d hash_table \<Rightarrow> 'd bucket list" where
  "table_items t = concat (bucket_array t)"

definition hash_inv :: "'d hash_table \<Rightarrow> bool" where
  "hash_inv t \<longleftrightarrow>
     (\<exists>k<31. nbuckets t = 2 ^ k) \<and>
     length (bucket_array t) = nat (nbuckets t) \<and>
     (\<forall>i<length (bucket_array t). \<forall>it\<in>set (bucket_array t ! i).
        b_khash it = hash_string (b_key it) \<and> hash_bucket (b_key it) t = i) \<and>
     distinct (map b_key (table_items t)) \<and>
     nentries t = int (length (table_items t))"

text \<open>The finite map a table stands for: the items' keys and data.\<close>

definition hash_alpha :: "'d hash_table \<Rightarrow> cstring \<Rightarrow> 'd option option" where
  "hash_alpha t = map_of (map (\<lambda>it. (b_key it, b_data it)) (table_items t))"

text \<open>What a lookup through \<open>hash_search\<close> reads.\<close>

definition hash_lookup :: "'d hash_table \<Rightarrow> cstring \<Rightarrow> 'd option option" where
  "hash_lookup t s = map_option b_data (fst (hash_search s (Some t) 0))"

definition hash_store :: "cstring \<Rightarrow> 'd option \<Rightarrow> 'd hash_table \<Rightarrow> 'd hash_table" where
  "hash_store s d t =
     (case snd (hash_search s (Some t) HASH_CREATE) of
        None \<Rightarrow> t | Some t' \<Rightarrow> hash_set_data s d t')"

definition hash_delete :: "cstring \<Rightarrow> 'd hash_table \<Rightarrow> 'd hash_table" where
  "hash_delete s t = (case snd (hash_remove s (Some t)) of None \<Rightarrow> t | Some t' \<Rightarrow> t')"

section \<open>The hash function\<close>

lemma fnv_shift_sum:
  "(i::32 word) + (push_bit 1 i + push_bit 4 i + push_bit 7 i + push_bit 8 i + push_bit 24 i)
     = i * FNV_PRIME"
  by (simp add: push_bit_eq_mult FNV_PRIME_def algebra_simps)

lemma hash_step_eq: "hash_step i c = (i * FNV_PRIME) XOR char_u32 c"
  by (simp only: hash_step_def Let_def fnv_shift_sum)

lemma hash_string_from_fold:
  "hash_string_from i s = foldl (\<lambda>h c. (h * FNV_PRIME) XOR char_u32 c) i s"
  by (induction s arbitrary: i) (simp_all add: hash_step_eq)

lemma bucket_index_pow2: "bucket_index h (2 ^ k) = unat h mod 2 ^ k"
proof -
  have "(word_of_int (2 ^ k) :: 32 word) - 1 = mask k"
    by (simp add: mask_eq_exp_minus_1 word_of_int_2p)
  then have "bucket_index h (2 ^ k) = unat (take_bit k h)"
    by (simp only: bucket_index_def take_bit_eq_mask)
  then show ?thesis by (simp only: unsigned_take_bit_eq) (simp add: take_bit_eq_mod)
qed

lemma hash_bucket_less:
  assumes "nbuckets t = 2 ^ k" and "length (bucket_array t) = nat (nbuckets t)"
  shows "hash_bucket s t < length (bucket_array t)"
  using assms by (simp add: hash_bucket_def bucket_index_pow2 nat_power_eq)

lemma hash_inv_bucket_less [simp]:
  "hash_inv t \<Longrightarrow> hash_bucket s t < length (bucket_array t)"
  unfolding hash_inv_def by (blast intro: hash_bucket_less)

lemma table_items_nth:
  "it \<in> set (table_items t) \<longleftrightarrow> (\<exists>i<length (bucket_array t). it \<in> set (bucket_array t ! i))"
  unfolding table_items_def by (rule in_set_concat_nth)

lemma hash_inv_nth:
  assumes "hash_inv t" and "i < length (bucket_array t)" and "it \<in> set (bucket_array t ! i)"
  shows "b_khash it = hash_string (b_key it)" and "hash_bucket (b_key it) t = i"
  using assms unfolding hash_inv_def by blast+

lemma hash_inv_distinct: "hash_inv t \<Longrightarrow> distinct (map b_key (table_items t))"
  by (simp add: hash_inv_def)

lemma hash_inv_chain:
  assumes "hash_inv t"
  shows "it \<in> set (table_items t) \<longleftrightarrow> it \<in> set (bucket_array t ! hash_bucket (b_key it) t)"
  using hash_inv_nth [OF assms] hash_inv_bucket_less [OF assms]
  unfolding table_items_nth by metis

lemma hash_inv_khash:
  assumes "hash_inv t" and "it \<in> set (table_items t)"
  shows "b_khash it = hash_string (b_key it)"
  using assms(2) hash_inv_nth [OF assms(1)] unfolding table_items_nth by blast

lemma hash_alpha_Some:
  assumes "hash_inv t"
  shows "hash_alpha t s = Some d \<longleftrightarrow> (\<exists>it\<in>set (table_items t). b_key it = s \<and> b_data it = d)"
  using hash_inv_distinct [OF assms]
  by (auto simp: hash_alpha_def comp_def intro!: map_of_is_SomeI dest!: map_of_SomeD)

lemma hash_alpha_None:
  "hash_alpha t s = None \<longleftrightarrow> (\<forall>it\<in>set (table_items t). b_key it \<noteq> s)"
  by (force simp: hash_alpha_def map_of_eq_None_iff)

lemma chain_in_items:
  "hash_inv t \<Longrightarrow> y \<in> set (bucket_array t ! hash_bucket s t) \<Longrightarrow> y \<in> set (table_items t)"
  unfolding table_items_nth by (metis hash_inv_bucket_less)

lemma find_chain_eq:
  assumes inv: "hash_inv t" and it: "it \<in> set (table_items t)"
  shows "List.find (item_matches (hash_string (b_key it)) (b_key it))
           (bucket_array t ! hash_bucket (b_key it) t) = Some it"
proof (rule find_unique)
  show "it \<in> set (bucket_array t ! hash_bucket (b_key it) t)"
    using it hash_inv_chain [OF inv] by simp
  show "item_matches (hash_string (b_key it)) (b_key it) it"
    using hash_inv_khash [OF inv it] by (simp add: item_matches_def)
next
  fix y
  assume "y \<in> set (bucket_array t ! hash_bucket (b_key it) t)"
    and m: "item_matches (hash_string (b_key it)) (b_key it) y"
  then have "y \<in> set (table_items t)" using inv by (blast intro: chain_in_items)
  with it m show "y = it"
    using distinct_map_eqD [OF hash_inv_distinct [OF inv]] by (simp add: item_matches_def)
qed

lemma find_chain_None:
  assumes "hash_inv t" and "hash_alpha t s = None"
  shows "List.find (item_matches (hash_string s) s) (bucket_array t ! hash_bucket s t) = None"
  using assms(2) chain_in_items [OF assms(1)]
  unfolding hash_alpha_None find_None_iff_all item_matches_def by blast

lemma find_chain:
  assumes inv: "hash_inv t"
  shows "map_option b_data
           (List.find (item_matches (hash_string s) s) (bucket_array t ! hash_bucket s t))
         = hash_alpha t s"
proof (cases "hash_alpha t s")
  case None
  then show ?thesis by (simp add: find_chain_None [OF inv])
next
  case (Some d)
  then obtain it where "it \<in> set (table_items t)" "b_key it = s" "b_data it = d"
    using hash_alpha_Some [OF inv] by blast
  with Some show ?thesis using find_chain_eq [OF inv, of it] by auto
qed

lemma hash_alpha_eqI:
  assumes "hash_inv t"
    and "\<And>k d. (\<exists>it\<in>set (table_items t). b_key it = k \<and> b_data it = d) \<longleftrightarrow> m k = Some d"
  shows "hash_alpha t = m"
proof
  fix k
  show "hash_alpha t k = m k"
    using hash_alpha_Some [OF assms(1), of k] assms(2) [of k] by (metis option.exhaust)
qed

lemma finite_dom_hash_alpha: "finite (dom (hash_alpha t))"
  by (simp add: hash_alpha_def finite_dom_map_of)

lemma card_dom_hash_alpha:
  assumes "hash_inv t" shows "int (card (dom (hash_alpha t))) = nentries t"
proof -
  have "dom (hash_alpha t) = set (map b_key (table_items t))"
    by (simp add: hash_alpha_def dom_map_of_conv_image_fst image_image)
  then have "card (dom (hash_alpha t)) = length (map b_key (table_items t))"
    using hash_inv_distinct [OF assms] by (simp only: distinct_card)
  then show ?thesis using assms by (simp add: hash_inv_def)
qed

section \<open>Replacing one chain\<close>

lemma hash_bucket_cong [simp]:
  "hash_bucket s (t\<lparr>bucket_array := x\<rparr>) = hash_bucket s t"
  "hash_bucket s (t\<lparr>nentries := n\<rparr>) = hash_bucket s t"
  by (simp_all add: hash_bucket_def)

lemma items_upd_nentries [simp]: "table_items (t\<lparr>nentries := n\<rparr>) = table_items t"
  by (simp add: table_items_def)

lemma items_split:
  assumes "i < length (bucket_array t)"
  obtains xs ys where "table_items t = xs @ bucket_array t ! i @ ys"
    and "\<And>c. table_items (t\<lparr>bucket_array := (bucket_array t)[i := c]\<rparr>) = xs @ c @ ys"
  using that [OF concat_split_at [OF assms, folded table_items_def]]
  by (simp add: table_items_def concat_update_at [OF assms])

lemma hash_inv_replace:
  assumes inv: "hash_inv t" and i: "i < length (bucket_array t)"
    and c: "\<And>it. it \<in> set c \<Longrightarrow> b_khash it = hash_string (b_key it) \<and> hash_bucket (b_key it) t = i"
    and t': "t' = t\<lparr>bucket_array := (bucket_array t)[i := c], nentries := n\<rparr>"
    and dist: "distinct (map b_key (table_items t'))" and n: "n = int (length (table_items t'))"
  shows "hash_inv t'"
proof -
  have "b_khash it = hash_string (b_key it) \<and> hash_bucket (b_key it) t' = j"
    if "j < length (bucket_array t')" "it \<in> set (bucket_array t' ! j)" for j it
    using that c hash_inv_nth [OF inv, of j it] by (cases "j = i") (auto simp: t')
  moreover have "nentries t' = int (length (table_items t'))" using n t' by simp
  ultimately show ?thesis using inv dist unfolding hash_inv_def by (auto simp: t')
qed

lemma keys_update_first [simp]:
  "(\<And>x. b_key (f x) = b_key x) \<Longrightarrow> map b_key (update_first P f c) = map b_key c"
  by (induction c) auto

lemma length_update_first [simp]: "length (update_first P f c) = length c"
  by (induction c) auto

lemma set_update_first_sub: "x \<in> set (update_first P f c) \<Longrightarrow> \<exists>y\<in>set c. x = y \<or> (P y \<and> x = f y)"
  by (induction c) (auto split: if_splits)

lemma set_remove_first: "set (remove_first P c) \<subseteq> set c"
  by (induction c) auto

lemma hash_inv_update_first:
  assumes inv: "hash_inv t"
    and f: "\<And>x. b_key (f x) = b_key x" "\<And>x. b_khash (f x) = b_khash x"
    and i: "i < length (bucket_array t)"
  shows "hash_inv (t\<lparr>bucket_array := (bucket_array t)[i := update_first P f (bucket_array t ! i)]\<rparr>)"
    (is "hash_inv ?t'")
proof -
  obtain xs ys where xy: "table_items t = xs @ bucket_array t ! i @ ys"
    "\<And>c. table_items (t\<lparr>bucket_array := (bucket_array t)[i := c]\<rparr>) = xs @ c @ ys"
    using items_split [OF i] by blast
  have keys: "map b_key (table_items ?t') = map b_key (table_items t)"
    using xy f(1) by (simp add: xy)
  have len: "length (table_items ?t') = length (table_items t)"
    using arg_cong [OF keys, of length] by simp
  show ?thesis
  proof (rule hash_inv_replace [OF inv i])
    fix it assume "it \<in> set (update_first P f (bucket_array t ! i))"
    then show "b_khash it = hash_string (b_key it) \<and> hash_bucket (b_key it) t = i"
      using hash_inv_nth [OF inv i] f by (auto dest!: set_update_first_sub)
  next
    show "?t' = t\<lparr>bucket_array := (bucket_array t)[i := update_first P f (bucket_array t ! i)],
             nentries := nentries t\<rparr>" by simp
    show "distinct (map b_key (table_items ?t'))" by (simp only: keys hash_inv_distinct [OF inv])
    show "nentries t = int (length (table_items ?t'))"
      using inv by (simp only: len hash_inv_def)
  qed
qed

lemma find_split:
  assumes "List.find P c = Some it"
  obtains as bs where "c = as @ it # bs" and "\<And>f. update_first P f c = as @ f it # bs"
    and "remove_first P c = as @ bs" and "P it"
  using assms
proof (induction c arbitrary: thesis)
  case Nil
  then show ?case by simp
next
  case (Cons x c)
  show ?case
  proof (cases "P x")
    case True
    with Cons.prems show ?thesis by (intro Cons.prems(1) [of "[]" c]) auto
  next
    case False
    with Cons.prems(2) have "List.find P c = Some it" by simp
    then obtain as bs where "c = as @ it # bs" "\<And>f. update_first P f c = as @ f it # bs"
      "remove_first P c = as @ bs" "P it" using Cons.IH by blast
    with False show ?thesis by (intro Cons.prems(1) [of "x # as" bs]) auto
  qed
qed

text \<open>Around the item that a key's lookup finds: the whole table's item list, before and after.\<close>

lemma items_around:
  assumes inv: "hash_inv t" and key: "hash_alpha t s = Some d"
  obtains xs it ys where "table_items t = xs @ it # ys" and "b_key it = s" and "b_data it = d"
    and "List.find (item_matches (hash_string s) s) (bucket_array t ! hash_bucket s t) = Some it"
    and "\<And>f. table_items (t\<lparr>bucket_array := (bucket_array t)[hash_bucket s t :=
           update_first (item_matches (hash_string s) s) f (bucket_array t ! hash_bucket s t)]\<rparr>)
         = xs @ f it # ys"
    and "table_items (t\<lparr>bucket_array := (bucket_array t)[hash_bucket s t :=
           remove_first (item_matches (hash_string s) s) (bucket_array t ! hash_bucket s t)]\<rparr>)
         = xs @ ys"
proof -
  from key obtain it where it: "it \<in> set (table_items t)" "b_key it = s" "b_data it = d"
    using hash_alpha_Some [OF inv] by blast
  have fnd: "List.find (item_matches (hash_string s) s) (bucket_array t ! hash_bucket s t) = Some it"
    using find_chain_eq [OF inv it(1)] it(2) by simp
  obtain us vs where uv: "table_items t = us @ bucket_array t ! hash_bucket s t @ vs"
    "\<And>c. table_items (t\<lparr>bucket_array := (bucket_array t)[hash_bucket s t := c]\<rparr>) = us @ c @ vs"
    using items_split [OF hash_inv_bucket_less [OF inv]] by blast
  obtain as bs where ab: "bucket_array t ! hash_bucket s t = as @ it # bs"
    "\<And>f. update_first (item_matches (hash_string s) s) f (bucket_array t ! hash_bucket s t) = as @ f it # bs"
    "remove_first (item_matches (hash_string s) s) (bucket_array t ! hash_bucket s t) = as @ bs"
    using find_split [OF fnd] by metis
  show thesis
    by (rule that [of "us @ as" it "bs @ vs"]) (use it fnd uv ab in simp_all)
qed

lemma distinct_keys_middle:
  assumes "distinct (map b_key (xs @ it # ys))"
  shows "\<forall>x\<in>set xs \<union> set ys. b_key x \<noteq> b_key it"
  using assms by (auto simp: image_iff)

section \<open>The operations against the map\<close>

lemma hash_search_hit:
  assumes inv: "hash_inv t" and key: "hash_alpha t s = Some d"
  shows "\<exists>it t'. hash_search s (Some t) flags = (Some it, Some t') \<and> b_key it = s \<and>
           b_data it = d \<and> hash_inv t' \<and> hash_alpha t' = hash_alpha t \<and>
           nentries t' = nentries t \<and> nbuckets t' = nbuckets t"
proof -
  obtain xs it ys where w: "table_items t = xs @ it # ys" "b_key it = s" "b_data it = d"
    "List.find (item_matches (hash_string s) s) (bucket_array t ! hash_bucket s t) = Some it"
    "\<And>f. table_items (t\<lparr>bucket_array := (bucket_array t)[hash_bucket s t :=
           update_first (item_matches (hash_string s) s) f (bucket_array t ! hash_bucket s t)]\<rparr>)
         = xs @ f it # ys"
    by (rule items_around [OF assms]) (rule that, assumption+)
  have ne: "nentries t \<noteq> 0" using inv w(1) by (simp add: hash_inv_def)
  let ?f = "\<lambda>e. e\<lparr>b_times_found := b_times_found e + 1\<rparr>"
  let ?t' = "t\<lparr>bucket_array := (bucket_array t)[hash_bucket s t :=
     update_first (item_matches (hash_string s) s) ?f (bucket_array t ! hash_bucket s t)]\<rparr>"
  have "hash_inv ?t'" by (rule hash_inv_update_first) (simp_all add: inv)
  moreover have "hash_alpha ?t' = hash_alpha t" by (simp add: hash_alpha_def w(1) w(5))
  ultimately show ?thesis using ne w(2-4) by (simp add: hash_search_def Let_def)
qed

lemma hash_search_miss:
  assumes inv: "hash_inv t" and key: "hash_alpha t s = None"
  shows "hash_search s (Some t) flags =
     (if flags AND HASH_CREATE \<noteq> 0 then (let (it, t') = hash_add s t in (Some it, Some t'))
      else (None, Some t))"
  by (simp add: hash_search_def Let_def find_chain_None [OF inv key])

lemma hash_lookup_alpha [ops_simps]: "hash_inv t \<Longrightarrow> hash_lookup t s = hash_alpha t s"
  using hash_search_hit [of t s _ 0] hash_search_miss [of t s 0]
  by (cases "hash_alpha t s") (fastforce simp: hash_lookup_def)+

lemma hash_set_data_spec:
  assumes inv: "hash_inv t" and key: "s \<in> dom (hash_alpha t)"
  shows "hash_inv (hash_set_data s d t)" and "hash_alpha (hash_set_data s d t) = (hash_alpha t)(s \<mapsto> d)"
    and "nentries (hash_set_data s d t) = nentries t"
proof -
  from key obtain d0 where "hash_alpha t s = Some d0" by blast
  then obtain xs it ys where w: "table_items t = xs @ it # ys" "b_key it = s"
    "\<And>f. table_items (t\<lparr>bucket_array := (bucket_array t)[hash_bucket s t :=
           update_first (item_matches (hash_string s) s) f (bucket_array t ! hash_bucket s t)]\<rparr>)
         = xs @ f it # ys"
    by (rule items_around [OF inv]) (rule that, assumption+)
  show inv': "hash_inv (hash_set_data s d t)"
    unfolding hash_set_data_def Let_def by (rule hash_inv_update_first) (simp_all add: inv)
  have items: "table_items (hash_set_data s d t) = xs @ it\<lparr>b_data := d\<rparr> # ys"
    by (simp add: hash_set_data_def Let_def w(3))
  have "\<forall>x\<in>set xs \<union> set ys. b_key x \<noteq> s"
    using distinct_keys_middle hash_inv_distinct [OF inv] w(1,2) by metis
  then show "hash_alpha (hash_set_data s d t) = (hash_alpha t)(s \<mapsto> d)"
    by (intro hash_alpha_eqI [OF inv']) (auto simp: items hash_alpha_Some [OF inv] w(1,2))
  show "nentries (hash_set_data s d t) = nentries t" by (simp add: hash_set_data_def Let_def)
qed

lemma hash_remove_spec:
  assumes inv: "hash_inv t"
  shows "hash_inv (hash_delete s t)" and "hash_alpha (hash_delete s t) = (hash_alpha t)(s := None)"
    and "map_option b_data (fst (hash_remove s (Some t))) = hash_alpha t s"
proof (atomize (full), cases "hash_alpha t s")
  case None
  have "hash_remove s (Some t) = (None, Some t)"
    by (simp add: hash_remove_def Let_def find_chain_None [OF inv None])
  with None inv show "hash_inv (hash_delete s t) \<and> hash_alpha (hash_delete s t) = (hash_alpha t)(s := None)
    \<and> map_option b_data (fst (hash_remove s (Some t))) = hash_alpha t s"
    by (auto simp: hash_delete_def)
next
  case (Some d)
  obtain xs it ys where w: "table_items t = xs @ it # ys" "b_key it = s" "b_data it = d"
    "List.find (item_matches (hash_string s) s) (bucket_array t ! hash_bucket s t) = Some it"
    "table_items (t\<lparr>bucket_array := (bucket_array t)[hash_bucket s t :=
           remove_first (item_matches (hash_string s) s) (bucket_array t ! hash_bucket s t)]\<rparr>)
         = xs @ ys"
    by (rule items_around [OF inv Some]) (rule that, assumption+)
  let ?c = "remove_first (item_matches (hash_string s) s) (bucket_array t ! hash_bucket s t)"
  let ?t' = "t\<lparr>bucket_array := (bucket_array t)[hash_bucket s t := ?c], nentries := nentries t - 1\<rparr>"
  have ne: "nentries t \<noteq> 0" using inv w(1) by (simp add: hash_inv_def)
  then have rm: "hash_remove s (Some t) = (Some it, Some ?t')"
    by (simp add: hash_remove_def Let_def w(4))
  have dist: "distinct (map b_key (xs @ it # ys))" using hash_inv_distinct [OF inv] w(1) by simp
  have inv': "hash_inv ?t'"
  proof (rule hash_inv_replace [OF inv hash_inv_bucket_less [OF inv]])
    fix e assume "e \<in> set ?c"
    moreover have "set ?c \<subseteq> set (bucket_array t ! hash_bucket s t)"
      by (rule set_remove_first)
    ultimately show "b_khash e = hash_string (b_key e) \<and> hash_bucket (b_key e) t = hash_bucket s t"
      using hash_inv_nth [OF inv hash_inv_bucket_less [OF inv]] by blast
  next
    show "?t' = t\<lparr>bucket_array := (bucket_array t)[hash_bucket s t := ?c], nentries := nentries t - 1\<rparr>" ..
    show "distinct (map b_key (table_items ?t'))" using dist by (simp add: w(5))
    show "nentries t - 1 = int (length (table_items ?t'))"
      using inv w(1) by (simp add: w(5) hash_inv_def)
  qed
  have "\<forall>x\<in>set xs \<union> set ys. b_key x \<noteq> s" using distinct_keys_middle [OF dist] w(2) by simp
  then have "hash_alpha ?t' = (hash_alpha t)(s := None)"
    by (intro hash_alpha_eqI [OF inv']) (auto simp: w(5) hash_alpha_Some [OF inv] w(1,2))
  with inv' rm w(3) Some show "hash_inv (hash_delete s t) \<and> hash_alpha (hash_delete s t) = (hash_alpha t)(s := None)
    \<and> map_option b_data (fst (hash_remove s (Some t))) = hash_alpha t s"
    by (simp add: hash_delete_def)
qed

section \<open>Rehashing\<close>

lemma length_rehash [simp]: "length (fold (rehash_item n) its ba) = length ba"
  by (induction its arbitrary: ba) (simp_all add: rehash_item_def Let_def)

lemma rehash_nth:
  assumes "i < length ba"
  shows "fold (rehash_item n) its ba ! i
           = rev (filter (\<lambda>it. bucket_index (b_khash it) n = i) its) @ ba ! i"
  using assms by (induction its arbitrary: ba) (auto simp: rehash_item_def Let_def nth_list_update)

lemma mset_rehash:
  assumes "\<And>it. it \<in> set its \<Longrightarrow> bucket_index (b_khash it) n < length ba"
  shows "mset (concat (fold (rehash_item n) its ba)) = mset its + mset (concat ba)"
  using assms
proof (induction its arbitrary: ba)
  case Nil
  then show ?case by simp
next
  case (Cons it its)
  let ?i = "bucket_index (b_khash it) n"
  have i: "?i < length ba" using Cons.prems by simp
  have "mset (concat (fold (rehash_item n) its (rehash_item n it ba)))
          = mset its + mset (concat (rehash_item n it ba))"
    using Cons.prems by (intro Cons.IH) (simp add: rehash_item_def Let_def)
  also have "mset (concat (rehash_item n it ba)) = add_mset it (mset (concat ba))"
    by (simp add: rehash_item_def Let_def concat_update_at [OF i] concat_split_at [OF i])
  finally show ?case by simp
qed

lemma hash_rehash_items: "mset (table_items (hash_rehash t (2 ^ k))) = mset (table_items t)"
proof (cases "nbuckets t = 2 ^ k")
  case True
  then show ?thesis by (simp add: hash_rehash_def)
next
  case False
  let ?e = "replicate (2 ^ k) [] :: 'a bucket list list"
  have "bucket_array (hash_rehash t (2 ^ k)) = fold (rehash_item (2 ^ k)) (table_items t) ?e"
    using False by (simp add: hash_rehash_def table_items_def nat_power_eq)
  moreover have "bucket_index h (2 ^ k) < 2 ^ k" for h by (simp add: bucket_index_pow2)
  ultimately show ?thesis using mset_rehash [of "table_items t" "2 ^ k" ?e] by (simp add: table_items_def)
qed

lemma hash_rehash_spec:
  assumes inv: "hash_inv t" and k: "k < 31"
  shows "hash_inv (hash_rehash t (2 ^ k)) \<and> hash_alpha (hash_rehash t (2 ^ k)) = hash_alpha t \<and>
    nentries (hash_rehash t (2 ^ k)) = nentries t \<and> nbuckets (hash_rehash t (2 ^ k)) = 2 ^ k"
proof (cases "nbuckets t = 2 ^ k")
  case True
  with inv show "hash_inv (hash_rehash t (2 ^ k)) \<and> hash_alpha (hash_rehash t (2 ^ k)) = hash_alpha t \<and>
    nentries (hash_rehash t (2 ^ k)) = nentries t \<and> nbuckets (hash_rehash t (2 ^ k)) = 2 ^ k"
    by (simp add: hash_rehash_def)
next
  case False
  let ?t = "hash_rehash t (2 ^ k)"
  let ?e = "replicate (2 ^ k) [] :: 'a bucket list list"
  have ba: "bucket_array ?t = fold (rehash_item (2 ^ k)) (table_items t) ?e"
    and nb: "nbuckets ?t = 2 ^ k" and ne: "nentries ?t = nentries t"
    using False by (simp_all add: hash_rehash_def table_items_def nat_power_eq)
  have idx: "bucket_index h (2 ^ k) < 2 ^ k" for h by (simp add: bucket_index_pow2)
  have ms: "mset (table_items ?t) = mset (table_items t)" by (rule hash_rehash_items)
  then have set: "set (table_items ?t) = set (table_items t)" by (rule mset_eq_setD)
  have keys: "mset (map b_key (table_items ?t)) = mset (map b_key (table_items t))" by (simp add: ms)
  have dist: "distinct (map b_key (table_items ?t))"
    using hash_inv_distinct [OF inv] mset_eq_imp_distinct_iff [OF keys] by simp
  have len: "length (table_items ?t) = length (table_items t)" using ms by (rule mset_eq_length)
  have "b_khash it = hash_string (b_key it) \<and> hash_bucket (b_key it) ?t = i"
    if "i < length (bucket_array ?t)" "it \<in> set (bucket_array ?t ! i)" for i it
  proof -
    from that have "it \<in> set (table_items t)" "bucket_index (b_khash it) (2 ^ k) = i"
      by (simp_all add: ba rehash_nth)
    then show ?thesis using hash_inv_khash [OF inv] by (simp add: hash_bucket_def nb)
  qed
  then have inv': "hash_inv ?t"
    using k dist len ne inv unfolding hash_inv_def by (auto simp: nb ba nat_power_eq)
  moreover have "hash_alpha ?t = hash_alpha t"
    by (rule hash_alpha_eqI [OF inv']) (simp add: set hash_alpha_Some [OF inv])
  ultimately show "hash_inv ?t \<and> hash_alpha ?t = hash_alpha t \<and>
    nentries ?t = nentries t \<and> nbuckets ?t = 2 ^ k" using nb ne by simp
qed

text \<open>Growing quadruples the bucket count, or does nothing once the product no longer fits an \<open>int\<close>.\<close>

lemma c_int_grow_overflow:
  assumes "k < 31" and "29 \<le> k" shows "c_int (2 ^ k * HASH_REHASH_MULTIPLIER) \<le> 0"
proof -
  from assms have "k = 29 \<or> k = 30" by linarith
  then show ?thesis by (auto simp: c_int_def HASH_REHASH_MULTIPLIER_def)
qed

lemma hash_grow_cases:
  assumes inv: "hash_inv t" and k: "nbuckets t = 2 ^ k" "k < 31"
  shows "hash_grow t = (if k < 29 then hash_rehash t (2 ^ (k + 2)) else t)"
proof (cases "k < 29")
  case True
  then have "(2::int) ^ k \<le> 2 ^ 28" by (intro power_increasing) auto
  then have "c_int (2 ^ k * HASH_REHASH_MULTIPLIER) = 2 ^ (k + 2)"
    by (subst c_int_id) (auto simp: HASH_REHASH_MULTIPLIER_def power_add intro: order_trans [of _ 0])
  with True show ?thesis by (simp add: hash_grow_def k)
next
  case False
  with c_int_grow_overflow [OF k(2)] show ?thesis by (simp add: hash_grow_def k)
qed

lemma hash_grow_spec:
  assumes inv: "hash_inv t"
  shows "hash_inv (hash_grow t) \<and> hash_alpha (hash_grow t) = hash_alpha t \<and>
    nentries (hash_grow t) = nentries t"
proof -
  obtain k where k: "nbuckets t = 2 ^ k" "k < 31" using inv by (auto simp: hash_inv_def)
  show ?thesis
    using hash_rehash_spec [OF inv, of "k + 2"] inv by (simp add: hash_grow_cases [OF inv k])
qed

section \<open>Adding an item\<close>

lemma hash_add_spec:
  assumes inv: "hash_inv t" and key: "hash_alpha t s = None"
  shows "fst (hash_add s t) = new_bucket s \<and> hash_inv (snd (hash_add s t)) \<and>
    hash_alpha (snd (hash_add s t)) = (hash_alpha t)(s \<mapsto> None) \<and>
    nentries (snd (hash_add s t)) = nentries t + 1"
proof -
  define g where "g = (if HASH_SHOULDGROW t then hash_grow t else t)"
  have g: "hash_inv g" "hash_alpha g = hash_alpha t" "nentries g = nentries t"
    using hash_grow_spec [OF inv] inv by (simp_all add: g_def)
  let ?i = "hash_bucket s g"
  let ?t' = "g\<lparr>bucket_array := (bucket_array g)[?i := new_bucket s # bucket_array g ! ?i],
               nentries := nentries g + 1\<rparr>"
  have add: "hash_add s t = (new_bucket s, ?t')" by (simp add: hash_add_def Let_def g_def)
  obtain xs ys where xy: "table_items g = xs @ bucket_array g ! ?i @ ys"
    "\<And>c. table_items (g\<lparr>bucket_array := (bucket_array g)[?i := c]\<rparr>) = xs @ c @ ys"
    using items_split [OF hash_inv_bucket_less [OF g(1)]] by blast
  have fresh: "\<forall>x\<in>set (table_items g). b_key x \<noteq> s" using key g(2) hash_alpha_None [of g] by simp
  have inv': "hash_inv ?t'"
  proof (rule hash_inv_replace [OF g(1) hash_inv_bucket_less [OF g(1)]])
    fix it assume "it \<in> set (new_bucket s # bucket_array g ! ?i)"
    then show "b_khash it = hash_string (b_key it) \<and> hash_bucket (b_key it) g = ?i"
      using hash_inv_nth [OF g(1) hash_inv_bucket_less [OF g(1)]] by (auto simp: new_bucket_def)
  next
    show "?t' = g\<lparr>bucket_array := (bucket_array g)[?i := new_bucket s # bucket_array g ! ?i],
               nentries := nentries g + 1\<rparr>" ..
    show "distinct (map b_key (table_items ?t'))"
      using hash_inv_distinct [OF g(1)] fresh by (auto simp: xy new_bucket_def)
    show "nentries g + 1 = int (length (table_items ?t'))"
      using g(1) xy(1) by (simp add: xy(2) hash_inv_def)
  qed
  have "hash_alpha ?t' = (hash_alpha t)(s \<mapsto> None)"
    using fresh by (intro hash_alpha_eqI [OF inv'])
      (auto simp: xy hash_alpha_Some [OF g(1)] new_bucket_def simp flip: g(2))
  with inv' add g(3) show ?thesis by simp
qed

lemma hash_store_spec:
  assumes inv: "hash_inv t"
  shows "hash_inv (hash_store s d t) \<and> hash_alpha (hash_store s d t) = (hash_alpha t)(s \<mapsto> d)"
proof (cases "hash_alpha t s")
  case None
  have c: "HASH_CREATE AND HASH_CREATE \<noteq> 0" by (simp add: HASH_CREATE_def)
  have "hash_store s d t = hash_set_data s d (snd (hash_add s t))"
    using c by (simp add: hash_store_def hash_search_miss [OF inv None] split: prod.splits)
  moreover have "s \<in> dom (hash_alpha (snd (hash_add s t)))" using hash_add_spec [OF inv None] by auto
  ultimately show ?thesis using hash_add_spec [OF inv None] by (simp add: hash_set_data_spec)
next
  case (Some d0)
  obtain it t' where s: "hash_search s (Some t) HASH_CREATE = (Some it, Some t')"
    "hash_inv t'" "hash_alpha t' = hash_alpha t" using hash_search_hit [OF inv Some] by blast
  then have "hash_store s d t = hash_set_data s d t'" by (simp add: hash_store_def)
  moreover have "s \<in> dom (hash_alpha t')" using s(3) Some by auto
  ultimately show ?thesis using s by (simp add: hash_set_data_spec)
qed

section \<open>The interface, and the remaining operations\<close>

interpretation ht: string_map hash_lookup hash_store hash_delete nentries hash_inv
proof
  fix t :: "'d hash_table" and k v
  assume inv: "hash_inv t"
  show "hash_inv (hash_store k v t)" and "hash_inv (hash_delete k t)"
    using hash_store_spec [OF inv] hash_remove_spec(1) [OF inv] by blast+
  then show "hash_lookup (hash_store k v t) = (hash_lookup t)(k \<mapsto> v)"
    and "hash_lookup (hash_delete k t) = (hash_lookup t)(k := None)"
    using inv hash_store_spec [OF inv] hash_remove_spec(2) [OF inv]
    by (simp_all add: fun_eq_iff hash_lookup_alpha)
  have "hash_lookup t = hash_alpha t" using inv by (simp add: fun_eq_iff hash_lookup_alpha)
  then show "finite (dom (hash_lookup t))" "nentries t = int (card (dom (hash_lookup t)))"
    using finite_dom_hash_alpha card_dom_hash_alpha [OF inv] by simp_all
qed

lemma hash_create_spec:
  assumes "buckets = 0 \<or> (\<exists>k<31. buckets = 2 ^ k)"
  shows "hash_inv (hash_create buckets)" and "hash_alpha (hash_create buckets) = Map.empty"
proof -
  have "\<exists>k<31. (if buckets = 0 then DEFAULT_HASH_BUCKETS else buckets) = 2 ^ k"
    using assms by (auto simp: DEFAULT_HASH_BUCKETS_def intro: exI [of _ 7])
  then show "hash_inv (hash_create buckets)"
    by (auto simp: hash_inv_def hash_create_def Let_def table_items_def)
  show "hash_alpha (hash_create buckets) = Map.empty"
    by (simp add: hash_alpha_def hash_create_def Let_def table_items_def)
qed

lemma copy_bucket_array_eta:
  "copy_bucket_array cp = map (\<lambda>e. e\<lparr>b_data := (case b_data e of None \<Rightarrow> None
     | Some d \<Rightarrow> Some (case cp of None \<Rightarrow> d | Some f \<Rightarrow> f d))\<rparr>)"
  by (rule ext) (simp add: copy_bucket_array_def)

lemma items_copy:
  "table_items \<lparr>bucket_array = map (copy_bucket_array cp) ba, nbuckets = n, nentries = e\<rparr>
     = copy_bucket_array cp (concat ba)"
  by (simp add: table_items_def copy_bucket_array_eta map_concat)

lemma hash_copy_spec:
  assumes inv: "hash_inv t" and copy: "hash_copy (Some t) cp = Some t'"
  shows "hash_inv t'" and "hash_alpha t' = (\<lambda>k. map_option (map_option (case cp of None \<Rightarrow> id | Some f \<Rightarrow> f)) (hash_alpha t k))"
proof -
  have t': "t' = \<lparr>bucket_array = map (copy_bucket_array cp) (bucket_array t),
                  nbuckets = nbuckets t, nentries = nentries t\<rparr>"
    using copy by (simp add: hash_copy_def)
  have "b_khash it = hash_string (b_key it) \<and> hash_bucket (b_key it) t' = i"
    if "i < length (bucket_array t')" "it \<in> set (bucket_array t' ! i)" for i it
    using that hash_inv_nth [OF inv, of i] by (auto simp: t' copy_bucket_array_def hash_bucket_def)
  then show inv': "hash_inv t'"
    using inv unfolding hash_inv_def
    by (simp add: t' items_copy) (simp add: copy_bucket_array_def table_items_def comp_def)
  show "hash_alpha t' = (\<lambda>k. map_option (map_option (case cp of None \<Rightarrow> id | Some f \<Rightarrow> f)) (hash_alpha t k))"
  proof -
    have "map (\<lambda>it. (b_key it, b_data it)) (table_items t')
        = map (\<lambda>(k, d). (k, map_option (case cp of None \<Rightarrow> id | Some f \<Rightarrow> f) d))
            (map (\<lambda>it. (b_key it, b_data it)) (table_items t))"
      by (auto simp: t' items_copy copy_bucket_array_def [of _ "concat _"] table_items_def [of t]
          split: option.splits)
    then show ?thesis by (simp add: hash_alpha_def map_of_map comp_def del: map_map)
  qed
qed

lemma hash_flush_spec:
  assumes inv: "hash_inv t"
  shows "\<exists>t'. hash_flush (Some t) = (table_items t, Some t') \<and> hash_inv t' \<and>
           hash_alpha t' = Map.empty \<and> nentries t' = 0"
proof (cases "nentries t = 0")
  case True
  then have "table_items t = []" using inv by (simp add: hash_inv_def)
  with True inv show ?thesis by (simp add: hash_flush_def hash_alpha_def)
next
  case False
  let ?t' = "t\<lparr>bucket_array := map (\<lambda>_. []) (bucket_array t), nentries := 0\<rparr>"
  have "table_items ?t' = []" by (simp add: table_items_def)
  then have "hash_inv ?t'" "hash_alpha ?t' = Map.empty"
    using inv by (auto simp: hash_inv_def hash_alpha_def table_items_def)
  with False show ?thesis by (simp add: hash_flush_def table_items_def)
qed

text \<open>A walk whose visitor never asks to stop visits every item exactly once, in table order.\<close>

lemma walk_items_all:
  assumes "\<And>it s. 0 \<le> fst (func it s)"
  shows "walk_items func its s = fold (\<lambda>it s. snd (func it s)) its s"
proof (induction its arbitrary: s)
  case Nil
  then show ?case by simp
next
  case (Cons it its)
  then show ?case using assms [of it s] by (simp add: split_beta Let_def)
qed

lemma hash_walk_all:
  assumes inv: "hash_inv t" and go: "\<And>it s. 0 \<le> fst (func it s)"
  shows "hash_walk (Some t) func s = fold (\<lambda>it s. snd (func it s)) (table_items t) s"
proof (cases "nentries t = 0")
  case True
  then have "table_items t = []" using inv by (simp add: hash_inv_def)
  with True show ?thesis by (simp add: hash_walk_def)
next
  case False
  then show ?thesis by (simp add: hash_walk_def walk_items_all [OF go] table_items_def)
qed

section \<open>Properties of the table\<close>

text \<open>The hash of a key is its 32-bit FNV-1 hash: the shifts and additions of the code multiply by
  the FNV prime, modulo 2 to the 32.\<close>

theorem hash_string_is_fnv1:
  "hash_string s = foldl (\<lambda>h c. (h * FNV_PRIME) XOR char_u32 c) FNV_OFFSET s"
  by (simp add: hash_string_def hash_string_from_fold hash_step_eq foldl_conv_fold)

text \<open>C32: Resizing a well-formed table to any power of two of buckets keeps every item once, the
  invariant (each item in the chain its hash selects) and so every lookup.\<close>

theorem hash_rehash_keeps_items:
  assumes "hash_inv t" and "k < 31"
  shows "hash_inv (hash_rehash t (2 ^ k)) \<and> hash_lookup (hash_rehash t (2 ^ k)) = hash_lookup t \<and>
     mset (table_items (hash_rehash t (2 ^ k))) = mset (table_items t)"
  using hash_rehash_spec [OF assms] hash_rehash_items [of t k] assms(1) by (simp add: fun_eq_iff hash_lookup_alpha)

text \<open>C33: Storing a datum under a key (a search with \<open>HASH_CREATE\<close>, growing a full table, and the
  write through the item found) changes the table's map at that key only, keeps the invariant, and
  counts one more entry exactly when the key is new.\<close>

theorem hash_store_updates_map:
  assumes "hash_inv t"
  shows "hash_inv (hash_store k v t) \<and> hash_lookup (hash_store k v t) = (hash_lookup t)(k \<mapsto> v) \<and>
     nentries (hash_store k v t) = nentries t + (if hash_lookup t k = None then 1 else 0)"
  by (simp add: assms ht.lookup_store ht.invar_store ht.count_store)

text \<open>The chain a key selects always exists: the index \<open>hash & (nbuckets - 1)\<close> is below the
  number of buckets, so no search reads outside the bucket array.\<close>

theorem hash_bucket_in_bounds:
  assumes "hash_inv t"
  shows "hash_bucket s t < length (bucket_array t) \<and> int (hash_bucket s t) < nbuckets t"
  using assms hash_inv_bucket_less [OF assms, of s] by (auto simp: hash_inv_def)

definition demo_table :: "cstring hash_table" where
  "demo_table = \<lparr>bucket_array = [[(new_bucket ''a'')\<lparr>b_data := Some ''1''\<rparr>]], nbuckets = 1, nentries = 1\<rparr>"

lemma demo_table_inv [simp]: "hash_inv demo_table"
proof -
  have "\<exists>k<31. (1::int) = 2 ^ k" by (rule exI [of _ 0]) simp
  then show ?thesis
    by (simp add: hash_inv_def demo_table_def new_bucket_def hash_bucket_def bucket_index_def table_items_def)
qed

theorem hash_rehash_keeps_items_witness:
  "hash_inv (hash_rehash demo_table 8) \<and> hash_lookup (hash_rehash demo_table 8) ''a'' = Some (Some ''1'')"
proof -
  have "hash_lookup demo_table ''a'' = Some (Some ''1'')"
    by (simp add: hash_lookup_alpha hash_alpha_def table_items_def) (simp add: demo_table_def new_bucket_def)
  with hash_rehash_keeps_items [OF demo_table_inv, of 3] show ?thesis by simp
qed

theorem hash_store_updates_map_witness:
  "nentries (hash_store ''b'' (Some ''2'') demo_table) = 2"
proof -
  have "hash_lookup demo_table ''b'' = None" and "nentries demo_table = 1"
    by (simp add: hash_lookup_alpha hash_alpha_def table_items_def) (simp_all add: demo_table_def new_bucket_def)
  with hash_store_updates_map [OF demo_table_inv, of "''b''" "Some ''2''"] show ?thesis by simp
qed

theorem hash_bucket_in_bounds_witness: "hash_bucket ''zz'' demo_table < 1"
  using hash_bucket_in_bounds [OF demo_table_inv, of "''zz''"] by (simp add: demo_table_def)

end
