(* ===== verification/Shell_Types.thy ===== *)
theory Shell_Types
  imports Rash_Prelude
begin

text \<open>
  The parsed command tree of command.h: redirection instructions with the classifying
  macros, words, redirections and commands. A pointer that the code tests against NULL is
  an option; the \<open>REDIRECTEE\<close> union is a datatype, and reading the member that is not
  stored is an explicit failure (\<open>None\<close> of \<open>redirectee_filename\<close>), because in C
  it reads an integer as a pointer.
\<close>

section \<open>Redirections\<close>

datatype r_instruction =
    r_output_direction | r_input_direction | r_inputa_direction
  | r_appending_to | r_reading_until | r_reading_string
  | r_duplicating_input | r_duplicating_output | r_deblank_reading_until
  | r_close_this | r_err_and_out | r_input_output | r_output_force
  | r_duplicating_input_word | r_duplicating_output_word
  | r_move_input | r_move_output | r_move_input_word | r_move_output_word
  | r_append_err_and_out

definition CLOBBERING_REDIRECT :: "r_instruction \<Rightarrow> bool" where
  "CLOBBERING_REDIRECT ri \<longleftrightarrow> ri = r_output_direction \<or> ri = r_err_and_out"

definition OUTPUT_REDIRECT :: "r_instruction \<Rightarrow> bool" where
  "OUTPUT_REDIRECT ri \<longleftrightarrow> ri = r_output_direction \<or> ri = r_input_output \<or>
     ri = r_err_and_out \<or> ri = r_append_err_and_out \<or> ri = r_output_force"

definition INPUT_REDIRECT :: "r_instruction \<Rightarrow> bool" where
  "INPUT_REDIRECT ri \<longleftrightarrow> ri = r_input_direction \<or> ri = r_inputa_direction \<or> ri = r_input_output"

definition WRITE_REDIRECT :: "r_instruction \<Rightarrow> bool" where
  "WRITE_REDIRECT ri \<longleftrightarrow> ri = r_output_direction \<or> ri = r_input_output \<or> ri = r_err_and_out \<or>
     ri = r_appending_to \<or> ri = r_append_err_and_out \<or> ri = r_output_force"

definition TRANSLATE_REDIRECT :: "r_instruction \<Rightarrow> bool" where
  "TRANSLATE_REDIRECT ri \<longleftrightarrow> ri = r_duplicating_input_word \<or> ri = r_duplicating_output_word \<or>
     ri = r_move_input_word \<or> ri = r_move_output_word"

definition REDIR_VARASSIGN :: "32 word" where "REDIR_VARASSIGN = 1"

definition RASH_DENIED_REDIRECT :: int where "RASH_DENIED_REDIRECT = - 6"
definition EXECUTION_FAILURE :: int where "EXECUTION_FAILURE = 1"
definition EXECUTION_SUCCESS :: int where "EXECUTION_SUCCESS = 0"
definition EX_REDIRFAIL :: int where "EX_REDIRFAIL = 259"
definition NO_PIPE :: int where "NO_PIPE = - 1"

section \<open>Words\<close>

record word_desc =
  w_word :: "cstring option"
  w_flags :: "32 word"

type_synonym word_list = "word_desc option list"

definition W_HASDOLLAR :: "32 word" where "W_HASDOLLAR = push_bit 0 1"
definition W_QUOTED :: "32 word" where "W_QUOTED = push_bit 1 1"
definition W_ASSIGNMENT :: "32 word" where "W_ASSIGNMENT = push_bit 2 1"
definition W_TILDEEXP :: "32 word" where "W_TILDEEXP = push_bit 7 1"
definition W_ARRAYREF :: "32 word" where "W_ARRAYREF = push_bit 9 1"
definition W_COMPASSIGN :: "32 word" where "W_COMPASSIGN = push_bit 15 1"
definition W_HASQUOTEDNULL :: "32 word" where "W_HASQUOTEDNULL = push_bit 18 1"

text \<open>\<open>make_bare_word\<close>: a copy of the string and no flags.\<close>

definition make_bare_word :: "cstring \<Rightarrow> word_desc" where
  "make_bare_word s = \<lparr>w_word = Some s, w_flags = 0\<rparr>"

text \<open>\<open>make_word\<close> and \<open>make_word_flags\<close>, one byte per character.\<close>

definition make_word_flag :: "char \<Rightarrow> 32 word \<Rightarrow> 32 word" where
  "make_word_flag c flags =
     (if c = CHR ''$'' then flags OR W_HASDOLLAR
      else if c = CHR 0x27 \<or> c = CHR 0x60 \<or> c = CHR 0x22 then flags OR W_QUOTED
      else flags)"

definition make_word_flags :: "word_desc \<Rightarrow> cstring \<Rightarrow> word_desc" where
  "make_word_flags w s = w\<lparr>w_flags := fold make_word_flag s (w_flags w)\<rparr>"

definition make_word :: "cstring \<Rightarrow> word_desc" where
  "make_word s = make_word_flags (make_bare_word s) s"

text \<open>The text of a word pointer, where the code guards both pointers.\<close>

definition word_text :: "word_desc option \<Rightarrow> cstring option" where
  "word_text w = (case w of None \<Rightarrow> None | Some d \<Rightarrow> w_word d)"

datatype redirectee = Dest int | Filename "word_desc option"

text \<open>Reading the file-name member: None when the union holds a descriptor number.\<close>

fun redirectee_filename :: "redirectee \<Rightarrow> word_desc option option" where
  "redirectee_filename (Filename w) = Some w"
| "redirectee_filename (Dest n) = None"

record redirect =
  rd_redirector :: redirectee
  rd_rflags :: "32 word"
  rd_flags :: int
  rd_instruction :: r_instruction
  rd_redirectee :: redirectee
  rd_here_doc_eof :: "cstring option"

section \<open>Commands\<close>

text \<open>The bits of \<open>flags\<close> in a command.\<close>

definition CMD_WANT_SUBSHELL :: "32 word" where "CMD_WANT_SUBSHELL = 0x01"
definition CMD_FORCE_SUBSHELL :: "32 word" where "CMD_FORCE_SUBSHELL = 0x02"
definition CMD_INVERT_RETURN :: "32 word" where "CMD_INVERT_RETURN = 0x04"
definition CMD_IGNORE_RETURN :: "32 word" where "CMD_IGNORE_RETURN = 0x08"
definition CMD_NO_FUNCTIONS :: "32 word" where "CMD_NO_FUNCTIONS = 0x10"
definition CMD_INHIBIT_EXPANSION :: "32 word" where "CMD_INHIBIT_EXPANSION = 0x20"
definition CMD_TIME_PIPELINE :: "32 word" where "CMD_TIME_PIPELINE = 0x80"
definition CMD_TIME_POSIX :: "32 word" where "CMD_TIME_POSIX = 0x100"
definition CMD_AMPERSAND :: "32 word" where "CMD_AMPERSAND = 0x200"
definition CMD_COMMAND_BUILTIN :: "32 word" where "CMD_COMMAND_BUILTIN = 0x0800"
definition CMD_STDPATH :: "32 word" where "CMD_STDPATH = 0x4000"

definition has_flag :: "32 word \<Rightarrow> 32 word \<Rightarrow> bool" where
  "has_flag flags f \<longleftrightarrow> flags AND f \<noteq> 0"

text \<open>A connection's \<open>connector\<close> is a character or a token number of the grammar.\<close>

datatype cond_com = Cond_com "32 word" int int "word_desc option" "cond_com option" "cond_com option"

datatype command =
  Command (cmd_flags: "32 word") (cmd_line: int) (cmd_redirects: "redirect list") (cmd_value: command_value)
and command_value =
    Simple (simple_flags: "32 word") (simple_line: int) (simple_words: word_list)
      (simple_redirects: "redirect list")
  | Connection "command option" "command option" int
  | For_com "32 word" int "word_desc option" word_list "command option"
  | Case_com "32 word" int "word_desc option" "(word_list \<times> command option \<times> 32 word) list"
  | While_com "32 word" "command option" "command option"
  | Until_com "32 word" "command option" "command option"
  | If_com "32 word" "command option" "command option" "command option"
  | Function_def "32 word" int "word_desc option" "command option" "cstring option"
  | Group_com "command option"
  | Select_com "32 word" int "word_desc option" word_list "command option"
  | Arith_com "32 word" int word_list
  | Cond_command cond_com
  | Arith_for_com "32 word" int word_list word_list word_list "command option"
  | Subshell_com "32 word" int "command option"
  | Coproc_com "32 word" cstring "command option"

definition PIPE_CONNECTOR :: int where "PIPE_CONNECTOR = of_char (CHR ''|'')"

text \<open>\<open>rash_command_kind\<close>: the name a hook sees for a node.\<close>

fun rash_command_kind :: "command option \<Rightarrow> cstring" where
  "rash_command_kind None = ''none''"
| "rash_command_kind (Some c) =
     (case cmd_value c of
        Simple _ _ _ _ \<Rightarrow> ''simple''
      | Connection _ _ _ \<Rightarrow> ''connection''
      | For_com _ _ _ _ _ \<Rightarrow> ''for''
      | Case_com _ _ _ _ \<Rightarrow> ''case''
      | While_com _ _ _ \<Rightarrow> ''while''
      | If_com _ _ _ _ \<Rightarrow> ''if''
      | Function_def _ _ _ _ _ \<Rightarrow> ''function_def''
      | Group_com _ \<Rightarrow> ''group''
      | Subshell_com _ _ _ \<Rightarrow> ''subshell''
      | Coproc_com _ _ _ \<Rightarrow> ''coproc''
      | _ \<Rightarrow> ''other'')"

section \<open>Which member of the union a redirection holds\<close>

definition rash_redirectee_is_word :: "r_instruction \<Rightarrow> bool" where
  "rash_redirectee_is_word ri \<longleftrightarrow> ri \<in> {r_reading_until, r_deblank_reading_until, r_reading_string,
     r_output_direction, r_input_direction, r_inputa_direction, r_appending_to, r_err_and_out,
     r_append_err_and_out, r_input_output, r_output_force, r_duplicating_input_word,
     r_duplicating_output_word, r_move_input_word, r_move_output_word}"

text \<open>What the parser guarantees: word instructions carry a file name, the others a descriptor.\<close>

definition redirect_wf :: "redirect \<Rightarrow> bool" where
  "redirect_wf r \<longleftrightarrow> (rash_redirectee_is_word (rd_instruction r) \<longleftrightarrow>
      (case rd_redirectee r of Filename _ \<Rightarrow> True | Dest _ \<Rightarrow> False))"

lemma redirect_wf_filename:
  "redirect_wf r \<Longrightarrow> rash_redirectee_is_word (rd_instruction r) \<Longrightarrow>
     \<exists>w. redirectee_filename (rd_redirectee r) = Some w"
  by (cases "rd_redirectee r") (auto simp: redirect_wf_def)

end
