(* ===== verification/Arrays.thy ===== *)
theory Arrays
  imports Shell_Types
begin

text \<open>
  The sparse indexed arrays of array.c: a circular doubly linked list of elements in increasing
  order of their index, with a roving pointer \<open>lastref\<close> into it from which the next search
  starts. The list is modelled by the list of its elements without the dummy head; a pointer to
  an element is its position in the list, and the position one past the last element stands for
  the head, whose index is -1. The values of the elements are never NULL (only the head has no
  value). An index is an \<open>intmax_t\<close>; the code does no arithmetic on it that the callers'
  bounds would let overflow, so it is an integer here.
\<close>

type_synonym array_element = "int \<times> cstring"

record array =
  max_index :: int
  num_elements :: int
  elems :: "array_element list"
  lastref :: "nat option"

definition array_create :: array where
  "array_create = \<lparr>max_index = - 1, num_elements = 0, elems = [], lastref = None\<rparr>"

definition array_empty :: "array \<Rightarrow> bool" where
  "array_empty a \<longleftrightarrow> num_elements a = 0"

text \<open>The index of the element at a position; the head's is -1.\<close>

definition element_index :: "array \<Rightarrow> nat \<Rightarrow> int" where
  "element_index a p = (if p < length (elems a) then fst (elems a ! p) else - 1)"

definition array_first_index :: "array \<Rightarrow> int" where
  "array_first_index a = element_index a 0"

definition array_flush :: "array \<Rightarrow> array" where
  "array_flush a = a\<lparr>elems := [], max_index := - 1, num_elements := 0, lastref := None\<rparr>"

text \<open>\<open>LASTREF\<close>: the roving pointer, or the first element.\<close>

definition LASTREF :: "array \<Rightarrow> nat" where
  "LASTREF a = (case lastref a of Some p \<Rightarrow> p | None \<Rightarrow> 0)"

fun array_copy_loop :: "nat \<Rightarrow> nat \<Rightarrow> array_element list \<Rightarrow> array \<Rightarrow> array" where
  "array_copy_loop ref p [] a1 = a1"
| "array_copy_loop ref p (e # es) a1 =
     array_copy_loop ref (Suc p) es
       (a1\<lparr>elems := elems a1 @ [e],
          lastref := (if p = ref then Some (length (elems a1)) else lastref a1)\<rparr>)"

definition array_copy :: "array \<Rightarrow> array" where
  "array_copy a =
     array_copy_loop (LASTREF a) 0 (elems a)
       (array_create\<lparr>max_index := max_index a, num_elements := num_elements a\<rparr>)"

text \<open>\<open>array_slice\<close>: the elements from position \<open>s\<close> up to position \<open>e\<close>, excluded.
  The largest index of an empty slice is 0.\<close>

definition array_slice :: "array \<Rightarrow> nat \<Rightarrow> nat \<Rightarrow> array" where
  "array_slice a s e =
     (let es = take (e - s) (drop s (elems a)) in
      array_create\<lparr>elems := es, num_elements := int (length es),
        max_index := (if es = [] then 0 else fst (last es))\<rparr>)"

fun array_walk_loop :: "(array_element \<Rightarrow> 'u \<Rightarrow> int \<times> 'u) \<Rightarrow> array_element list \<Rightarrow> 'u \<Rightarrow> 'u" where
  "array_walk_loop f [] u = u"
| "array_walk_loop f (e # es) u = (case f e u of (r, u') \<Rightarrow> if r < 0 then u' else array_walk_loop f es u')"

definition array_walk :: "array \<Rightarrow> (array_element \<Rightarrow> 'u \<Rightarrow> int \<times> 'u) \<Rightarrow> 'u \<Rightarrow> 'u" where
  "array_walk a f u = (if array_empty a then u else array_walk_loop f (elems a) u)"

section \<open>Shifting\<close>

text \<open>\<open>array_shift\<close>: the elements shifted out (empty for NULL) and the array.\<close>

definition array_shift :: "array \<Rightarrow> int \<Rightarrow> bool \<Rightarrow> array_element list \<times> array" where
  "array_shift a n dispose =
     (if array_empty a \<or> n \<le> 0 then ([], a)
      else
        (let a1 = a\<lparr>lastref := None\<rparr>; k = nat n; es = elems a in
         if length es \<le> k then
           (if dispose then ([], array_flush a1)
            else (es, a1\<lparr>elems := [], max_index := - 1, num_elements := 0\<rparr>))
         else
           (let kept = map (\<lambda>(i, v). (i - n, v)) (drop k es) in
            (if dispose then [] else take k es,
             a1\<lparr>elems := kept, num_elements := num_elements a1 - n, max_index := fst (last kept)\<rparr>))))"

text \<open>\<open>array_rshift\<close>: the number of elements and the array.\<close>

definition array_rshift :: "array \<Rightarrow> int \<Rightarrow> cstring option \<Rightarrow> int \<times> array" where
  "array_rshift a n s =
     (if array_empty a \<and> s = None then (0, a)
      else if n \<le> 0 then (num_elements a, a)
      else
        (let new = (case s of None \<Rightarrow> [] | Some v \<Rightarrow> [(0, v)]);
             a1 = a\<lparr>elems := new @ elems a, num_elements := num_elements a + int (length new)\<rparr> in
         if s \<noteq> None \<and> num_elements a1 = 1 then (1, a1\<lparr>max_index := 0\<rparr>)
         else
           (let es = new @ map (\<lambda>(i, v). (i + n, v)) (elems a) in
            (num_elements a1, a1\<lparr>elems := es, max_index := fst (last es), lastref := None\<rparr>))))"

definition array_unshift_element :: "array \<Rightarrow> array_element list \<times> array" where
  "array_unshift_element a = array_shift a 1 False"

definition array_shift_element :: "array \<Rightarrow> cstring \<Rightarrow> int \<times> array" where
  "array_shift_element a v = array_rshift a 1 (Some v)"

section \<open>Inserting, removing and referencing\<close>

text \<open>Where a search starts: at the roving pointer, or at the first element when the index is in
  the lower half below it; and whether it goes forward.\<close>

definition search_start :: "array \<Rightarrow> int \<Rightarrow> nat \<times> bool" where
  "search_start a i =
     (let start = LASTREF a; startind = element_index a start in
      if i < startind sdiv 2 then (0, True)
      else if i \<ge> startind then (start, True)
      else (start, False))"

datatype insert_spot = Replace_at nat | Before_elt nat | After_elt nat | No_spot

fun insert_forw :: "int \<Rightarrow> nat \<Rightarrow> array_element list \<Rightarrow> insert_spot" where
  "insert_forw i p [] = No_spot"
| "insert_forw i p (e # es) =
     (if fst e = i then Replace_at p
      else if fst e > i then Before_elt p
      else insert_forw i (Suc p) es)"

text \<open>Backwards: the elements from position \<open>p\<close> down to the first.\<close>

fun insert_back :: "int \<Rightarrow> nat \<Rightarrow> array_element list \<Rightarrow> insert_spot" where
  "insert_back i p [] = No_spot"
| "insert_back i p (e # es) =
     (if fst e = i then Replace_at p
      else if fst e < i then After_elt p
      else insert_back i (p - 1) es)"

definition array_insert :: "array \<Rightarrow> int \<Rightarrow> cstring \<Rightarrow> int \<times> array" where
  "array_insert a i v =
     (if i > max_index a then
        (0, a\<lparr>elems := elems a @ [(i, v)], max_index := i, num_elements := num_elements a + 1,
            lastref := Some (length (elems a))\<rparr>)
      else if i < array_first_index a then
        (0, a\<lparr>elems := (i, v) # elems a, num_elements := num_elements a + 1, lastref := Some 0\<rparr>)
      else
        (case search_start a i of (p, forw) \<Rightarrow>
           (case (if forw then insert_forw i p (drop p (elems a)) else insert_back i p (rev (take (Suc p) (elems a)))) of
              Replace_at q \<Rightarrow> (0, a\<lparr>elems := (elems a)[q := (i, v)], lastref := Some q\<rparr>)
            | Before_elt q \<Rightarrow>
                (0, a\<lparr>elems := take q (elems a) @ (i, v) # drop q (elems a),
                    num_elements := num_elements a + 1, lastref := Some q\<rparr>)
            | After_elt q \<Rightarrow>
                (0, a\<lparr>elems := take (Suc q) (elems a) @ (i, v) # drop (Suc q) (elems a),
                    num_elements := num_elements a + 1, lastref := Some (Suc q)\<rparr>)
            | No_spot \<Rightarrow> (- 1, a\<lparr>lastref := None\<rparr>))))"

fun remove_forw :: "int \<Rightarrow> nat \<Rightarrow> array_element list \<Rightarrow> nat option" where
  "remove_forw i p [] = None"
| "remove_forw i p (e # es) =
     (if fst e = i then Some p
      else (case es of [] \<Rightarrow> None | e' # _ \<Rightarrow> if fst e' > i then None else remove_forw i (Suc p) es))"

fun remove_back :: "int \<Rightarrow> nat \<Rightarrow> array_element list \<Rightarrow> nat option" where
  "remove_back i p [] = None"
| "remove_back i p (e # es) =
     (if fst e = i then Some p
      else (case es of [] \<Rightarrow> None | e' # _ \<Rightarrow> if fst e' < i then None else remove_back i (p - 1) es))"

definition array_remove :: "array \<Rightarrow> int \<Rightarrow> array_element option \<times> array" where
  "array_remove a i =
     (if array_empty a then (None, a)
      else if i > max_index a \<or> i < array_first_index a then (None, a)
      else
        (case search_start a i of (p, forw) \<Rightarrow>
           (case (if forw then remove_forw i p (drop p (elems a)) else remove_back i p (rev (take (Suc p) (elems a)))) of
              None \<Rightarrow> (None, a)
            | Some q \<Rightarrow>
                (Some (elems a ! q),
                 a\<lparr>elems := take q (elems a) @ drop (Suc q) (elems a), num_elements := num_elements a - 1,
                   max_index := (if i = max_index a
                     then (if q = 0 then - 1 else fst (elems a ! (q - 1))) else max_index a),
                   lastref := (if Suc q < length (elems a) then Some q
                     else if 0 < q then Some (q - 1) else None)\<rparr>))))"

text \<open>The search of \<open>array_reference\<close> keeps the element to leave the roving pointer at;
  \<open>hd\<close> is the position of the head.\<close>

fun reference_forw :: "int \<Rightarrow> nat \<Rightarrow> nat \<Rightarrow> array_element list \<Rightarrow> cstring option \<times> nat" where
  "reference_forw i start p [] = (None, start)"
| "reference_forw i start p (e # es) =
     (if fst e = i then (Some (snd e), p)
      else (case es of [] \<Rightarrow> (None, start)
         | e' # _ \<Rightarrow> if fst e' > i then (None, Suc p) else reference_forw i start (Suc p) es))"

fun reference_back :: "int \<Rightarrow> nat \<Rightarrow> nat \<Rightarrow> nat \<Rightarrow> array_element list \<Rightarrow> cstring option \<times> nat" where
  "reference_back i hd_pos start p [] = (None, start)"
| "reference_back i hd_pos start p (e # es) =
     (if fst e = i then (Some (snd e), p)
      else (case es of [] \<Rightarrow> (None, if - 1 < i then hd_pos else start)
         | e' # _ \<Rightarrow> if fst e' < i then (None, p - 1) else reference_back i hd_pos start (p - 1) es))"

definition array_reference :: "array \<Rightarrow> int \<Rightarrow> cstring option \<times> array" where
  "array_reference a i =
     (if array_empty a then (None, a)
      else if i > max_index a \<or> i < array_first_index a then (None, a)
      else
        (case search_start a i of (p, forw) \<Rightarrow>
           (case (if forw then reference_forw i p p (drop p (elems a))
                  else reference_back i (length (elems a)) p p (rev (take (Suc p) (elems a)))) of
              (r, q) \<Rightarrow> (r, a\<lparr>lastref := Some q\<rparr>))))"

section \<open>The invariant\<close>

definition array_ok :: "array \<Rightarrow> bool" where
  "array_ok a \<longleftrightarrow>
     sorted_wrt (<) (map fst (elems a)) \<and>
     (\<forall>e\<in>set (elems a). 0 \<le> fst e) \<and>
     num_elements a = int (length (elems a)) \<and>
     max_index a = (if elems a = [] then - 1 else fst (last (elems a))) \<and>
     (case lastref a of None \<Rightarrow> True | Some p \<Rightarrow> p < length (elems a))"

text \<open>What the array stands for.\<close>

definition array_view :: "array \<Rightarrow> int \<Rightarrow> cstring option" where
  "array_view a = map_of (elems a)"

definition sorted_keys :: "array_element list \<Rightarrow> bool" where
  "sorted_keys es \<longleftrightarrow> sorted_wrt (<) (map fst es)"

lemma sorted_keys_Nil [simp]: "sorted_keys []"
  by (simp add: sorted_keys_def)

lemma sorted_keys_Cons [simp]: "sorted_keys (e # es) \<longleftrightarrow> (\<forall>x\<in>set es. fst e < fst x) \<and> sorted_keys es"
  by (simp add: sorted_keys_def)

lemma sorted_keys_append [simp]:
  "sorted_keys (xs @ ys) \<longleftrightarrow> sorted_keys xs \<and> sorted_keys ys \<and> (\<forall>x\<in>set xs. \<forall>y\<in>set ys. fst x < fst y)"
  by (auto simp: sorted_keys_def sorted_wrt_append)

lemma sorted_keys_shift: "sorted_keys (map (\<lambda>(i, v). (i + n, v)) es) = sorted_keys es"
  by (induction es) auto

lemma sorted_keys_unshift: "sorted_keys (map (\<lambda>(i, v). (i - n, v)) es) = sorted_keys es"
  by (induction es) auto

lemma sorted_keys_drop: "sorted_keys es \<Longrightarrow> sorted_keys (drop n es)"
  by (simp add: sorted_keys_def sorted_wrt_drop flip: drop_map)

lemma sorted_keys_take: "sorted_keys es \<Longrightarrow> sorted_keys (take n es)"
  by (simp add: sorted_keys_def sorted_wrt_take flip: take_map)

lemma sorted_keys_distinct: "sorted_keys es \<Longrightarrow> distinct (map fst es)"
  by (induction es) auto

lemma sorted_keys_nth: "sorted_keys es \<Longrightarrow> p < q \<Longrightarrow> q < length es \<Longrightarrow> fst (es ! p) < fst (es ! q)"
  using sorted_wrt_nth_less [of "(<)" "map fst es" p q] by (simp add: sorted_keys_def)

lemma sorted_keys_last: "sorted_keys es \<Longrightarrow> e \<in> set es \<Longrightarrow> fst e \<le> fst (last es)"
proof (induction es)
  case Nil
  then show ?case by simp
next
  case (Cons x es)
  show ?case
  proof (cases "es = []")
    case True
    with Cons.prems show ?thesis by simp
  next
    case False
    with Cons show ?thesis by (auto intro: less_imp_le)
  qed
qed

lemma sorted_keys_first: "sorted_keys es \<Longrightarrow> e \<in> set es \<Longrightarrow> fst (es ! 0) \<le> fst e"
  by (cases es) (auto intro: less_imp_le)

lemma map_of_sorted_insert:
  "sorted_keys (xs @ ys) \<Longrightarrow> \<forall>e\<in>set xs. fst e < i \<Longrightarrow> \<forall>e\<in>set ys. i < fst e \<Longrightarrow>
     map_of (xs @ (i, v) # ys) = (map_of (xs @ ys))(i \<mapsto> v)"
  by (induction xs) (auto simp: fun_eq_iff)

lemma map_of_sorted_replace:
  "sorted_keys (xs @ (i, w) # ys) \<Longrightarrow> map_of (xs @ (i, v) # ys) = (map_of (xs @ (i, w) # ys))(i \<mapsto> v)"
  by (induction xs) (auto simp: fun_eq_iff)

lemma map_of_sorted_remove:
  "sorted_keys (xs @ (i, w) # ys) \<Longrightarrow> map_of (xs @ ys) = (map_of (xs @ (i, w) # ys))(i := None)"
proof (induction xs)
  case Nil
  then have "map_of ys i = None" by (auto simp: map_of_eq_None_iff)
  then show ?case by auto
next
  case (Cons x xs)
  then show ?case by (auto simp: fun_eq_iff)
qed

lemma map_of_sorted_mem: "sorted_keys (xs @ (i, w) # ys) \<Longrightarrow> map_of (xs @ (i, w) # ys) i = Some w"
  by (induction xs) auto

lemma array_ok_alt:
  "array_ok a \<longleftrightarrow> sorted_keys (elems a) \<and> (\<forall>e\<in>set (elems a). 0 \<le> fst e) \<and>
     num_elements a = int (length (elems a)) \<and>
     max_index a = (if elems a = [] then - 1 else fst (last (elems a))) \<and>
     (case lastref a of None \<Rightarrow> True | Some p \<Rightarrow> p < length (elems a))"
  by (simp add: array_ok_def sorted_keys_def)

lemma array_create_ok [simp]: "array_ok array_create"
  by (simp add: array_ok_def array_create_def)

lemma array_empty_iff: "array_ok a \<Longrightarrow> array_empty a \<longleftrightarrow> elems a = []"
  by (simp add: array_ok_def array_empty_def)

lemma array_flush_ok [simp]: "array_ok (array_flush a)"
  by (simp add: array_ok_def array_flush_def)

lemma array_flush_view [simp]: "array_view (array_flush a) = Map.empty"
  by (simp add: array_view_def array_flush_def)

section \<open>The searches\<close>

lemma insert_forw_spec:
  "sorted_keys es \<Longrightarrow>
     (case insert_forw i p es of
        Replace_at q \<Rightarrow> \<exists>xs w ys. es = xs @ (i, w) # ys \<and> q = p + length xs
      | Before_elt q \<Rightarrow> \<exists>xs ys. es = xs @ ys \<and> ys \<noteq> [] \<and> q = p + length xs \<and> (\<forall>e\<in>set xs. fst e < i) \<and> (\<forall>e\<in>set ys. i < fst e)
      | After_elt q \<Rightarrow> False
      | No_spot \<Rightarrow> \<forall>e\<in>set es. fst e < i)"
proof (induction es arbitrary: p)
  case Nil
  then show ?case by simp
next
  case (Cons e es)
  consider "fst e = i" | "fst e > i" | "fst e < i" by fastforce
  then show ?case
  proof cases
    case 1
    then show ?thesis by (cases e) (auto intro: exI [of _ "[]"])
  next
    case 2
    then show ?thesis using Cons.prems by (fastforce intro: exI [of _ "[]"])
  next
    case 3
    note IH = Cons.IH [of "Suc p"]
    show ?thesis
    proof (cases "insert_forw i (Suc p) es")
      case (Replace_at q)
      with IH Cons.prems obtain xs w ys where "es = xs @ (i, w) # ys" "q = Suc p + length xs" by auto
      with 3 Replace_at show ?thesis by (auto intro!: exI [of _ "e # xs"])
    next
      case (Before_elt q)
      with IH Cons.prems obtain xs ys where "es = xs @ ys" "ys \<noteq> []" "q = Suc p + length xs"
        "\<forall>e\<in>set xs. fst e < i" "\<forall>e\<in>set ys. i < fst e" by auto
      then have "\<exists>xs ys. e # es = xs @ ys \<and> ys \<noteq> [] \<and> q = p + length xs \<and> (\<forall>e\<in>set xs. fst e < i) \<and> (\<forall>e\<in>set ys. i < fst e)"
        using 3 by (intro exI [of _ "e # xs"] exI [of _ ys]) simp
      with 3 Before_elt show ?thesis by simp
    next
      case (After_elt q)
      with IH Cons.prems show ?thesis by simp
    next
      case No_spot
      with IH Cons.prems 3 show ?thesis by simp
    qed
  qed
qed

text \<open>Backwards over the reversed prefix.\<close>

lemma insert_back_spec:
  "sorted_keys (rev bs) \<Longrightarrow> length bs \<le> Suc p \<Longrightarrow>
     (case insert_back i p bs of
        Replace_at q \<Rightarrow> \<exists>xs w ys. rev bs = xs @ (i, w) # ys \<and> Suc q + length ys = Suc p
      | Before_elt q \<Rightarrow> False
      | After_elt q \<Rightarrow> \<exists>xs ys. rev bs = xs @ ys \<and> xs \<noteq> [] \<and> Suc q + length ys = Suc p \<and>
          (\<forall>e\<in>set xs. fst e < i) \<and> (\<forall>e\<in>set ys. i < fst e)
      | No_spot \<Rightarrow> \<forall>e\<in>set bs. i < fst e)"
proof (induction bs arbitrary: p)
  case Nil
  then show ?case by simp
next
  case (Cons e bs)
  consider "fst e = i" | "fst e < i" | "fst e > i" by fastforce
  then show ?case
  proof cases
    case 1
    then show ?thesis by (cases e) (auto intro!: exI [of _ "rev bs"])
  next
    case 2
    then show ?thesis using Cons.prems by (fastforce intro!: exI [of _ "rev bs @ [e]"])
  next
    case 3
    have le: "bs \<noteq> [] \<Longrightarrow> length bs \<le> Suc (p - 1) \<and> Suc (p - 1) = p" using Cons.prems(2) by (cases bs) auto
    note IH = Cons.IH [of "p - 1"]
    show ?thesis
    proof (cases "bs = []")
      case True
      with 3 show ?thesis by simp
    next
      case False
      show ?thesis
      proof (cases "insert_back i (p - 1) bs")
        case (Replace_at q)
        with IH Cons.prems le [OF False] obtain xs w ys where "rev bs = xs @ (i, w) # ys" "Suc q + length ys = p" by auto
        with 3 Replace_at show ?thesis by (auto intro!: exI [of _ xs])
      next
        case (After_elt q)
        with IH Cons.prems le [OF False] obtain xs ys where "rev bs = xs @ ys" "xs \<noteq> []" "Suc q + length ys = p"
          "\<forall>e\<in>set xs. fst e < i" "\<forall>e\<in>set ys. i < fst e" by auto
        then have "\<exists>xs ys. rev (e # bs) = xs @ ys \<and> xs \<noteq> [] \<and> Suc q + length ys = Suc p \<and>
          (\<forall>e\<in>set xs. fst e < i) \<and> (\<forall>e\<in>set ys. i < fst e)"
          using 3 by (intro exI [of _ xs] exI [of _ "ys @ [e]"]) simp
        with 3 After_elt show ?thesis by simp
      next
        case (Before_elt q)
        with IH Cons.prems le [OF False] show ?thesis by simp
      next
        case No_spot
        with IH Cons.prems le [OF False] 3 show ?thesis by simp
      qed
    qed
  qed
qed

lemma remove_forw_spec:
  "sorted_keys es \<Longrightarrow>
     (case remove_forw i p es of
        Some q \<Rightarrow> \<exists>xs w ys. es = xs @ (i, w) # ys \<and> q = p + length xs
      | None \<Rightarrow> fst (es ! 0) \<le> i \<longrightarrow> map_of es i = None)"
proof (induction i p es rule: remove_forw.induct)
  case (1 i p)
  then show ?case by simp
next
  case (2 i p e es)
  show ?case
  proof (cases "fst e = i")
    case True
    then show ?thesis by (cases e) (auto intro: exI [of _ "[]"])
  next
    case False
    show ?thesis
    proof (cases es)
      case Nil
      with False show ?thesis by auto
    next
      case (Cons e' es')
      show ?thesis
      proof (cases "fst e' > i")
        case True
        with Cons 2(2) False have "map_of (e # es) i = None"
          by (auto simp: map_of_eq_None_iff)
        with True Cons False show ?thesis by simp
      next
        case le: False
        note IH = 2(1) [OF False Cons le]
        show ?thesis
        proof (cases "remove_forw i (Suc p) es")
          case None
          with IH 2(2) Cons le False show ?thesis by (cases e) auto
        next
          case (Some q)
          with IH 2(2) obtain xs w ys where "es = xs @ (i, w) # ys" "q = Suc p + length xs" by auto
          then have "\<exists>xs w ys. e # es = xs @ (i, w) # ys \<and> q = p + length xs"
            by (intro exI [of _ "e # xs"] exI [of _ w] exI [of _ ys]) simp
          moreover have "remove_forw i p (e # es) = Some q" using Some Cons False le by simp
          ultimately show ?thesis by simp
        qed
      qed
    qed
  qed
qed

lemma remove_back_spec:
  "sorted_keys (rev bs) \<Longrightarrow> length bs \<le> Suc p \<Longrightarrow>
     (case remove_back i p bs of
        Some q \<Rightarrow> \<exists>xs w ys. rev bs = xs @ (i, w) # ys \<and> Suc q + length ys = Suc p
      | None \<Rightarrow> bs \<noteq> [] \<longrightarrow> i \<le> fst (hd bs) \<longrightarrow> map_of (rev bs) i = None)"
proof (induction i p bs rule: remove_back.induct)
  case (1 i p)
  then show ?case by simp
next
  case (2 i p e es)
  show ?case
  proof (cases "fst e = i")
    case True
    then have "\<exists>xs w ys. rev (e # es) = xs @ (i, w) # ys \<and> Suc p + length ys = Suc p"
      by (cases e) (auto intro!: exI [of _ "rev es"])
    with True show ?thesis by simp
  next
    case False
    show ?thesis
    proof (cases es)
      case Nil
      with False show ?thesis by auto
    next
      case (Cons e' es')
      show ?thesis
      proof (cases "fst e' < i")
        case True
        with Cons 2(2) False have "map_of (rev (e # es)) i = None"
          by (fastforce simp: map_of_eq_None_iff)
        with True Cons False show ?thesis by simp
      next
        case le: False
        have len: "length es \<le> Suc (p - 1)" "Suc (p - 1) = p" using 2(3) Cons by auto
        have srt: "sorted_keys (rev es)" using 2(2) by simp
        note IH = 2(1) [OF False Cons le srt len(1)]
        show ?thesis
        proof (cases "remove_back i (p - 1) es")
          case None
          with IH Cons le False show ?thesis by (cases e) (auto simp: map_add_def split: option.splits)
        next
          case (Some q)
          with IH len obtain xs w ys where "rev es = xs @ (i, w) # ys" "Suc q + length ys = p" by auto
          then have "\<exists>xs w ys. rev (e # es) = xs @ (i, w) # ys \<and> Suc q + length ys = Suc p"
            by (intro exI [of _ xs] exI [of _ w] exI [of _ "ys @ [e]"]) simp
          moreover have "remove_back i p (e # es) = Some q" using Some Cons False le by simp
          ultimately show ?thesis by simp
        qed
      qed
    qed
  qed
qed

text \<open>The referencing search finds what the removing search finds, and otherwise stops at an
  element of the list.\<close>

lemma reference_forw_remove:
  "sorted_keys es \<Longrightarrow>
     (case reference_forw i start p es of
        (Some v, q) \<Rightarrow> remove_forw i p es = Some q \<and> p \<le> q \<and> q < p + length es \<and> es ! (q - p) = (i, v)
      | (None, q) \<Rightarrow> remove_forw i p es = None \<and> (q = start \<or> q < p + length es))"
proof (induction i start p es rule: reference_forw.induct)
  case (1 i start p)
  then show ?case by simp
next
  case (2 i start p e es)
  show ?case
  proof (cases "fst e = i")
    case True
    then show ?thesis by (cases e) auto
  next
    case False
    show ?thesis
    proof (cases es)
      case Nil
      with False show ?thesis by auto
    next
      case (Cons e' es')
      show ?thesis
      proof (cases "fst e' > i")
        case True
        with Cons False show ?thesis by simp
      next
        case le: False
        have srt: "sorted_keys es" using 2(2) by simp
        note IH = 2(1) [OF False Cons le srt]
        have r: "reference_forw i start p (e # es) = reference_forw i start (Suc p) es"
          and r': "remove_forw i p (e # es) = remove_forw i (Suc p) es" using Cons False le by auto
        show ?thesis
        proof (cases "reference_forw i start (Suc p) es")
          case (Pair v q)
          with IH show ?thesis by (cases v) (auto simp: r r' nth_Cons' simp del: reference_forw.simps remove_forw.simps)
        qed
      qed
    qed
  qed
qed

lemma reference_back_remove:
  "sorted_keys (rev bs) \<Longrightarrow> length bs = Suc p \<Longrightarrow> fst (last bs) \<le> i \<Longrightarrow> i \<le> fst (hd bs) \<Longrightarrow>
     (case reference_back i hd_pos start p bs of
        (Some v, q) \<Rightarrow> remove_back i p bs = Some q \<and> q \<le> p \<and> rev bs ! q = (i, v)
      | (None, q) \<Rightarrow> remove_back i p bs = None \<and> (q = start \<or> q \<le> p))"
proof (induction i hd_pos start p bs rule: reference_back.induct)
  case (1 i hd_pos start p)
  then show ?case by simp
next
  case (2 i hd_pos start p e es)
  show ?case
  proof (cases "fst e = i")
    case True
    then show ?thesis using 2(3) by (cases e) (auto simp: nth_append)
  next
    case False
    show ?thesis
    proof (cases es)
      case Nil
      with False 2(4,5) show ?thesis by auto
    next
      case (Cons e' es')
      show ?thesis
      proof (cases "fst e' < i")
        case True
        with Cons False show ?thesis by simp
      next
        case le: False
        have pr: "sorted_keys (rev es)" "length es = Suc (p - 1)" "fst (last es) \<le> i" "i \<le> fst (hd es)"
          using 2(2-4) Cons le by auto
        note IH = 2(1) [OF False Cons le pr]
        have r: "reference_back i hd_pos start p (e # es) = reference_back i hd_pos start (p - 1) es"
          and r': "remove_back i p (e # es) = remove_back i (p - 1) es" using Cons False le by auto
        show ?thesis
        proof (cases "reference_back i hd_pos start (p - 1) es")
          case (Pair v q)
          with IH pr(2) show ?thesis
            by (cases v) (auto simp: r r' nth_append simp del: reference_back.simps remove_back.simps)
        qed
      qed
    qed
  qed
qed

section \<open>The operations refine a finite map\<close>

lemma search_start_cases:
  assumes "array_ok a" and "elems a \<noteq> []" and "search_start a i = (p, forw)"
  shows "p < length (elems a) \<and>
     (forw \<longrightarrow> p = 0 \<or> fst (elems a ! p) \<le> i) \<and> (\<not> forw \<longrightarrow> i < fst (elems a ! p))"
proof -
  have "LASTREF a < length (elems a)"
    using assms(1,2) by (auto simp: LASTREF_def array_ok_def split: option.splits)
  then show ?thesis
    using assms(2,3) by (auto simp: search_start_def Let_def element_index_def split: if_splits)
qed

lemma array_first_le:
  assumes "array_ok a" and "elems a \<noteq> []" and "\<not> i < array_first_index a"
  shows "fst (elems a ! 0) \<le> i"
  using assms by (simp add: array_first_index_def element_index_def)

lemma array_le_last:
  assumes "array_ok a" and "elems a \<noteq> []" and "\<not> i > max_index a"
  shows "i \<le> fst (last (elems a))"
  using assms by (simp add: array_ok_def)

lemma last_append_Cons: "ys \<noteq> [] \<Longrightarrow> last (xs @ e # ys) = last ys"
  by (cases ys) auto

text \<open>Where the new element goes, whatever direction the search took.\<close>

definition spot_ok :: "int \<Rightarrow> array_element list \<Rightarrow> insert_spot \<Rightarrow> bool" where
  "spot_ok i es sp \<longleftrightarrow>
     (case sp of
        Replace_at q \<Rightarrow> \<exists>xs w ys. es = xs @ (i, w) # ys \<and> q = length xs
      | Before_elt q \<Rightarrow> \<exists>xs ys. es = xs @ ys \<and> ys \<noteq> [] \<and> q = length xs \<and> (\<forall>e\<in>set xs. fst e < i) \<and> (\<forall>e\<in>set ys. i < fst e)
      | After_elt q \<Rightarrow> \<exists>xs ys. es = xs @ ys \<and> ys \<noteq> [] \<and> Suc q = length xs \<and> (\<forall>e\<in>set xs. fst e < i) \<and> (\<forall>e\<in>set ys. i < fst e)
      | No_spot \<Rightarrow> False)"

lemma insert_forw_spot:
  assumes srt: "sorted_keys es" and p: "p < length es" "p = 0 \<or> fst (es ! p) \<le> i" and le: "i \<le> fst (last es)"
  shows "spot_ok i es (insert_forw i p (drop p es))"
proof -
  have es: "es = take p es @ drop p es" by simp
  have before: "\<forall>e\<in>set (take p es). fst e < i"
  proof
    fix e
    assume "e \<in> set (take p es)"
    then obtain q where "q < p" "e = es ! q" by (auto simp: in_set_conv_nth)
    with sorted_keys_nth [OF srt, of q p] p show "fst e < i" by auto
  qed
  have last: "last (drop p es) = last es" "drop p es \<noteq> []" using p by (simp_all add: last_drop)
  note spec = insert_forw_spec [OF sorted_keys_drop [OF srt, of p], of i p]
  show ?thesis
  proof (cases "insert_forw i p (drop p es)")
    case (Replace_at q)
    with spec obtain xs w ys where "drop p es = xs @ (i, w) # ys" "q = p + length xs" by auto
    then have "es = (take p es @ xs) @ (i, w) # ys \<and> q = length (take p es @ xs)" using es p by simp
    with Replace_at show ?thesis unfolding spot_ok_def by (simp only: insert_spot.case) blast
  next
    case (Before_elt q)
    with spec obtain xs ys where d: "drop p es = xs @ ys" "ys \<noteq> []" "q = p + length xs"
      "\<forall>e\<in>set xs. fst e < i" "\<forall>e\<in>set ys. i < fst e" by auto
    then have "es = (take p es @ xs) @ ys \<and> q = length (take p es @ xs)" using es p by simp
    moreover have "\<forall>e\<in>set (take p es @ xs). fst e < i" using before d(4) by auto
    ultimately show ?thesis using Before_elt d(2,5) unfolding spot_ok_def by (simp only: insert_spot.case) blast
  next
    case (After_elt q)
    with spec show ?thesis by simp
  next
    case No_spot
    with spec last_in_set [OF last(2)] have "fst (last (drop p es)) < i" by simp
    with last le show ?thesis by simp
  qed
qed

lemma insert_back_spot:
  assumes srt: "sorted_keys es" and p: "p < length es" "i < fst (es ! p)" and ge: "fst (es ! 0) \<le> i"
  shows "spot_ok i es (insert_back i p (rev (take (Suc p) es)))"
proof -
  have es: "es = take (Suc p) es @ drop (Suc p) es" by simp
  have after: "\<forall>e\<in>set (drop (Suc p) es). i < fst e"
  proof
    fix e
    assume "e \<in> set (drop (Suc p) es)"
    then obtain q where "q < length es - Suc p" "e = es ! (Suc p + q)" by (auto simp: in_set_conv_nth)
    moreover from this have "fst (es ! p) < fst (es ! (Suc p + q))" using p by (intro sorted_keys_nth [OF srt]) auto
    ultimately show "i < fst e" using p by simp
  qed
  have srt': "sorted_keys (rev (rev (take (Suc p) es)))" using sorted_keys_take [OF srt] by simp
  note spec = insert_back_spec [OF srt', of p i]
  have len: "length (take (Suc p) es) = Suc p" using p by simp
  show ?thesis
  proof (cases "insert_back i p (rev (take (Suc p) es))")
    case (Replace_at q)
    with spec obtain xs w ys where d: "take (Suc p) es = xs @ (i, w) # ys" "Suc q + length ys = Suc p" by auto
    with len have "q = length xs" by simp
    then have "es = xs @ (i, w) # (ys @ drop (Suc p) es) \<and> q = length xs" using es d by simp
    with Replace_at show ?thesis unfolding spot_ok_def by (simp only: insert_spot.case) blast
  next
    case (After_elt q)
    with spec obtain xs ys where d: "take (Suc p) es = xs @ ys" "Suc q + length ys = Suc p"
      "\<forall>e\<in>set xs. fst e < i" "\<forall>e\<in>set ys. i < fst e" by auto
    with len have q: "Suc q = length xs" by simp
    have "ys @ drop (Suc p) es \<noteq> []"
    proof
      assume "ys @ drop (Suc p) es = []"
      with es d have "es = xs" by simp
      then have "xs ! p \<in> set xs" "i < fst (xs ! p)" using p by simp_all
      then show False using bspec [OF d(3), of "xs ! p"] by simp
    qed
    moreover have "es = xs @ (ys @ drop (Suc p) es)" using es d by simp
    moreover have "\<forall>e\<in>set (ys @ drop (Suc p) es). i < fst e" using d(4) after by auto
    ultimately show ?thesis using After_elt d(3) q unfolding spot_ok_def by (simp only: insert_spot.case) blast
  next
    case (Before_elt q)
    with spec show ?thesis by simp
  next
    case No_spot
    moreover have "es ! 0 \<in> set (rev (take (Suc p) es))" using p nth_mem [of 0 "take (Suc p) es"] by simp
    ultimately show ?thesis using spec ge by fastforce
  qed
qed

text \<open>The middle part of \<open>array_insert\<close>.\<close>

definition array_place :: "array \<Rightarrow> int \<Rightarrow> cstring \<Rightarrow> insert_spot \<Rightarrow> int \<times> array" where
  "array_place a i v sp =
     (case sp of
        Replace_at q \<Rightarrow> (0, a\<lparr>elems := (elems a)[q := (i, v)], lastref := Some q\<rparr>)
      | Before_elt q \<Rightarrow>
          (0, a\<lparr>elems := take q (elems a) @ (i, v) # drop q (elems a),
              num_elements := num_elements a + 1, lastref := Some q\<rparr>)
      | After_elt q \<Rightarrow>
          (0, a\<lparr>elems := take (Suc q) (elems a) @ (i, v) # drop (Suc q) (elems a),
              num_elements := num_elements a + 1, lastref := Some (Suc q)\<rparr>)
      | No_spot \<Rightarrow> (- 1, a\<lparr>lastref := None\<rparr>))"

definition inserted :: "int \<Rightarrow> cstring \<Rightarrow> array \<Rightarrow> int \<times> array \<Rightarrow> bool" where
  "inserted i v a r \<longleftrightarrow>
     fst r = 0 \<and> array_ok (snd r) \<and> array_view (snd r) = (array_view a)(i \<mapsto> v) \<and>
     (\<exists>p. lastref (snd r) = Some p \<and> elems (snd r) ! p = (i, v))"

lemma array_place_between:
  assumes "array_ok a" and "0 \<le> i" and es: "elems a = xs @ ys" "ys \<noteq> []"
    and "\<forall>e\<in>set xs. fst e < i" and "\<forall>e\<in>set ys. i < fst e"
  shows "inserted i v a (0, a\<lparr>elems := xs @ (i, v) # ys, num_elements := num_elements a + 1, lastref := Some (length xs)\<rparr>)"
  using assms map_of_sorted_insert [of xs ys i v]
  by (auto simp: inserted_def array_ok_alt array_view_def last_append_Cons)

lemma array_place_spot:
  assumes ok: "array_ok a" and "0 \<le> i" and sp: "spot_ok i (elems a) sp"
  shows "inserted i v a (array_place a i v sp)"
proof (cases sp)
  case (Replace_at q)
  with sp obtain xs w ys where es: "elems a = xs @ (i, w) # ys" "q = length xs"
    by (auto simp: spot_ok_def)
  with ok \<open>0 \<le> i\<close> map_of_sorted_replace [of xs i w ys v] show ?thesis
    by (auto simp: Replace_at array_place_def inserted_def array_ok_alt array_view_def)
next
  case (Before_elt q)
  with sp obtain xs ys where es: "elems a = xs @ ys" "ys \<noteq> []" "q = length xs"
    "\<forall>e\<in>set xs. fst e < i" "\<forall>e\<in>set ys. i < fst e" by (auto simp: spot_ok_def)
  with array_place_between [OF ok \<open>0 \<le> i\<close> es(1,2,4,5)] show ?thesis
    by (simp add: Before_elt array_place_def)
next
  case (After_elt q)
  with sp obtain xs ys where es: "elems a = xs @ ys" "ys \<noteq> []" "Suc q = length xs"
    "\<forall>e\<in>set xs. fst e < i" "\<forall>e\<in>set ys. i < fst e" by (auto simp: spot_ok_def)
  with array_place_between [OF ok \<open>0 \<le> i\<close> es(1,2,4,5)] show ?thesis
    by (simp add: After_elt array_place_def)
next
  case No_spot
  with sp show ?thesis by (simp add: spot_ok_def)
qed

lemma array_insert_inserted:
  assumes ok: "array_ok a" and i: "0 \<le> i"
  shows "inserted i v a (array_insert a i v)"
proof -
  consider "i > max_index a" | "\<not> i > max_index a" "i < array_first_index a"
    | "\<not> i > max_index a" "\<not> i < array_first_index a" by blast
  then show ?thesis
  proof cases
    case 1
    then have "\<forall>e\<in>set (elems a). fst e < i"
      using ok sorted_keys_last [of "elems a"] by (auto simp: array_ok_alt split: if_splits) force
    with 1 ok i map_of_sorted_insert [of "elems a" "[]" i v] show ?thesis
      by (auto simp: array_insert_def inserted_def array_ok_alt array_view_def)
  next
    case 2
    then have ne: "elems a \<noteq> []" using ok i by (auto simp: array_ok_def)
    with 2 have "\<forall>e\<in>set (elems a). i < fst e"
      using ok sorted_keys_first [of "elems a"] by (auto simp: array_ok_alt array_first_index_def element_index_def) force
    with 2 array_place_between [OF ok i _ ne, of "[]"] show ?thesis
      by (simp add: array_insert_def)
  next
    case 3
    then have ne: "elems a \<noteq> []" using ok i by (auto simp: array_ok_def)
    have srt: "sorted_keys (elems a)" using ok by (simp add: array_ok_alt)
    obtain p forw where s: "search_start a i = (p, forw)" by fastforce
    note c = search_start_cases [OF ok ne s]
    have "spot_ok i (elems a) (if forw then insert_forw i p (drop p (elems a)) else insert_back i p (rev (take (Suc p) (elems a))))"
      using c insert_forw_spot [OF srt, of p i] insert_back_spot [OF srt, of p i]
        array_first_le [OF ok ne 3(2)] array_le_last [OF ok ne 3(1)] by auto
    from array_place_spot [OF ok i this, of v] 3 s show ?thesis
      by (simp add: array_insert_def array_place_def)
  qed
qed

text \<open>The searches of \<open>array_remove\<close> and \<open>array_reference\<close>.\<close>

definition find_pos :: "array \<Rightarrow> int \<Rightarrow> nat \<Rightarrow> bool \<Rightarrow> nat option" where
  "find_pos a i p forw =
     (if forw then remove_forw i p (drop p (elems a)) else remove_back i p (rev (take (Suc p) (elems a))))"

lemma find_pos_spec:
  assumes ok: "array_ok a" and p: "p < length (elems a)"
    and f: "forw \<Longrightarrow> p = 0 \<or> fst (elems a ! p) \<le> i" and b: "\<not> forw \<Longrightarrow> i < fst (elems a ! p)"
    and first: "fst (elems a ! 0) \<le> i"
  shows "case find_pos a i p forw of
           Some q \<Rightarrow> \<exists>xs w ys. elems a = xs @ (i, w) # ys \<and> q = length xs
         | None \<Rightarrow> array_view a i = None"
proof -
  have srt: "sorted_keys (elems a)" using ok by (simp add: array_ok_alt)
  show ?thesis
  proof (cases forw)
    case True
    have es: "elems a = take p (elems a) @ drop p (elems a)" by simp
    have nth0: "drop p (elems a) ! 0 = elems a ! p" using p by simp
    note spec = remove_forw_spec [OF sorted_keys_drop [OF srt, of p], of i p]
    show ?thesis
    proof (cases "remove_forw i p (drop p (elems a))")
      case None
      have "\<forall>e\<in>set (take p (elems a)). fst e \<noteq> i"
      proof
        fix e
        assume "e \<in> set (take p (elems a))"
        then obtain q where "q < p" "e = elems a ! q" by (auto simp: in_set_conv_nth)
        with sorted_keys_nth [OF srt, of q p] p f [OF True] show "fst e \<noteq> i" by auto
      qed
      then have "map_of (take p (elems a)) i = None" by (auto simp: map_of_eq_None_iff)
      moreover have "map_of (drop p (elems a)) i = None"
        using spec None nth0 f [OF True] first by auto
      ultimately have "map_of (take p (elems a) @ drop p (elems a)) i = None"
        by (simp add: map_add_def del: append_take_drop_id)
      with None True show ?thesis by (simp add: find_pos_def array_view_def)
    next
      case (Some q)
      with spec obtain xs w ys where d: "drop p (elems a) = xs @ (i, w) # ys" "q = p + length xs" by auto
      then have "elems a = (take p (elems a) @ xs) @ (i, w) # ys \<and> q = length (take p (elems a) @ xs)"
        using es p by simp
      with Some True show ?thesis unfolding find_pos_def by (simp only: option.case if_True) blast
    qed
  next
    case False
    have es: "elems a = take (Suc p) (elems a) @ drop (Suc p) (elems a)" by simp
    have hd0: "hd (rev (take (Suc p) (elems a))) = elems a ! p" using p by (simp add: hd_rev take_Suc_conv_app_nth)
    have len: "length (rev (take (Suc p) (elems a))) = Suc p" using p by simp
    have srt': "sorted_keys (rev (rev (take (Suc p) (elems a))))" using sorted_keys_take [OF srt] by simp
    note spec = remove_back_spec [OF srt', of p i]
    show ?thesis
    proof (cases "remove_back i p (rev (take (Suc p) (elems a)))")
      case None
      have "\<forall>e\<in>set (drop (Suc p) (elems a)). fst e \<noteq> i"
      proof
        fix e
        assume "e \<in> set (drop (Suc p) (elems a))"
        then obtain q where "q < length (elems a) - Suc p" "e = elems a ! (Suc p + q)" by (auto simp: in_set_conv_nth)
        moreover from this have "fst (elems a ! p) < fst (elems a ! (Suc p + q))" using p by (intro sorted_keys_nth [OF srt]) auto
        ultimately show "fst e \<noteq> i" using b [OF False] by simp
      qed
      then have "map_of (drop (Suc p) (elems a)) i = None" by (auto simp: map_of_eq_None_iff)
      moreover have "map_of (take (Suc p) (elems a)) i = None"
        using spec None hd0 len b [OF False] by fastforce
      ultimately have "map_of (take (Suc p) (elems a) @ drop (Suc p) (elems a)) i = None"
        by (simp add: map_add_def del: append_take_drop_id)
      with None False show ?thesis by (simp add: find_pos_def array_view_def)
    next
      case (Some q)
      with spec len obtain xs w ys where d: "take (Suc p) (elems a) = xs @ (i, w) # ys" "Suc q + length ys = Suc p" by auto
      moreover have "length (take (Suc p) (elems a)) = Suc p" using p by simp
      ultimately have "q = length xs" by simp
      with d have "elems a = xs @ (i, w) # (ys @ drop (Suc p) (elems a)) \<and> q = length xs" using es by simp
      with Some False show ?thesis unfolding find_pos_def by (simp only: option.case if_False) blast
    qed
  qed
qed

lemma array_view_outside:
  assumes ok: "array_ok a" and out: "i > max_index a \<or> i < array_first_index a"
  shows "array_view a i = None"
proof (cases "elems a = []")
  case True
  then show ?thesis by (simp add: array_view_def)
next
  case False
  have srt: "sorted_keys (elems a)" using ok by (simp add: array_ok_alt)
  have "fst e \<noteq> i" if "e \<in> set (elems a)" for e
    using out sorted_keys_first [OF srt that] sorted_keys_last [OF srt that] False ok
    by (auto simp: array_ok_alt array_first_index_def element_index_def)
  then show ?thesis by (auto simp: array_view_def map_of_eq_None_iff)
qed

lemma array_remove_effect:
  assumes ok: "array_ok a"
  shows "array_ok (snd (array_remove a i)) \<and>
     array_view (snd (array_remove a i)) = (array_view a)(i := None) \<and>
     map_option snd (fst (array_remove a i)) = array_view a i"
proof -
  consider "elems a = []" | "elems a \<noteq> []" "i > max_index a \<or> i < array_first_index a"
    | "elems a \<noteq> []" "\<not> i > max_index a" "\<not> i < array_first_index a" by blast
  then show ?thesis
  proof cases
    case 1
    with ok show ?thesis by (simp add: array_remove_def array_empty_def array_view_def array_ok_def)
  next
    case 2
    with ok array_view_outside [OF ok 2(2)] show ?thesis
      by (auto simp: array_remove_def array_empty_def fun_upd_idem)
  next
    case 3
    have srt: "sorted_keys (elems a)" using ok by (simp add: array_ok_alt)
    obtain p forw where s: "search_start a i = (p, forw)" by fastforce
    note c = search_start_cases [OF ok 3(1) s]
    have spec: "case find_pos a i p forw of
        Some q \<Rightarrow> \<exists>xs w ys. elems a = xs @ (i, w) # ys \<and> q = length xs | None \<Rightarrow> array_view a i = None"
      using c array_first_le [OF ok 3(1,3)] by (intro find_pos_spec [OF ok]) auto
    have ne: "\<not> array_empty a" using ok 3(1) by (simp add: array_ok_def array_empty_def)
    show ?thesis
    proof (cases "find_pos a i p forw")
      case None
      with spec 3 s ne ok show ?thesis
        by (simp add: array_remove_def find_pos_def fun_upd_idem)
    next
      case (Some q)
      with spec obtain xs w ys where es: "elems a = xs @ (i, w) # ys" "q = length xs" by auto
      have v: "array_view a i = Some w" and v': "map_of (xs @ ys) = (array_view a)(i := None)"
        using map_of_sorted_mem [of xs i w ys] map_of_sorted_remove [of xs i w ys] srt es
        by (simp_all add: array_view_def)
      have r: "array_remove a i =
        (Some (i, w), a\<lparr>elems := xs @ ys, num_elements := num_elements a - 1,
           max_index := (if i = max_index a then (if xs = [] then - 1 else fst (last xs)) else max_index a),
           lastref := (if ys \<noteq> [] then Some q else if xs \<noteq> [] then Some (q - 1) else None)\<rparr>)"
        using 3 s ne Some es by (auto simp: array_remove_def find_pos_def nth_append last_conv_nth)
      have m: "i = max_index a \<longleftrightarrow> ys = []"
        using ok es srt last_in_set [of ys] by (auto simp: array_ok_alt last_append_Cons)
      have "array_ok (snd (array_remove a i))"
        using ok es srt m unfolding r by (auto simp: array_ok_alt last_append_Cons)
      moreover have "array_view (snd (array_remove a i)) = (array_view a)(i := None)"
        using v' unfolding r by (simp add: array_view_def)
      ultimately show ?thesis using v unfolding r by simp
    qed
  qed
qed

lemma array_reference_effect:
  assumes ok: "array_ok a"
  shows "fst (array_reference a i) = array_view a i \<and> array_ok (snd (array_reference a i)) \<and>
     elems (snd (array_reference a i)) = elems a"
proof -
  consider "elems a = []" | "elems a \<noteq> []" "i > max_index a \<or> i < array_first_index a"
    | "elems a \<noteq> []" "\<not> i > max_index a" "\<not> i < array_first_index a" by blast
  then show ?thesis
  proof cases
    case 1
    with ok show ?thesis by (simp add: array_reference_def array_empty_def array_view_def array_ok_def)
  next
    case 2
    with ok array_view_outside [OF ok 2(2)] show ?thesis by (auto simp: array_reference_def)
  next
    case 3
    have srt: "sorted_keys (elems a)" using ok by (simp add: array_ok_alt)
    obtain p forw where s: "search_start a i = (p, forw)" by fastforce
    note c = search_start_cases [OF ok 3(1) s]
    note first = array_first_le [OF ok 3(1,3)]
    have spec: "case find_pos a i p forw of
        Some q \<Rightarrow> \<exists>xs w ys. elems a = xs @ (i, w) # ys \<and> q = length xs | None \<Rightarrow> array_view a i = None"
      using c first by (intro find_pos_spec [OF ok]) auto
    have ne: "\<not> array_empty a" using ok 3(1) by (simp add: array_ok_def array_empty_def)
    define look where "look = (if forw then reference_forw i p p (drop p (elems a))
       else reference_back i (length (elems a)) p p (rev (take (Suc p) (elems a))))"
    have r: "array_reference a i = (fst look, a\<lparr>lastref := Some (snd look)\<rparr>)"
      using 3 s ne by (simp add: array_reference_def look_def split: prod.splits)
    have found: "case look of
        (Some v, q) \<Rightarrow> find_pos a i p forw = Some q \<and> q < length (elems a) \<and> elems a ! q = (i, v)
      | (None, q) \<Rightarrow> find_pos a i p forw = None \<and> q < length (elems a)"
    proof (cases forw)
      case True
      then show ?thesis
        using c reference_forw_remove [OF sorted_keys_drop [OF srt, of p], of i p p]
        by (cases look) (auto simp: look_def find_pos_def split: option.splits)
    next
      case False
      have srt': "sorted_keys (rev (rev (take (Suc p) (elems a))))" using sorted_keys_take [OF srt] by simp
      have len: "length (rev (take (Suc p) (elems a))) = Suc p" using c by simp
      have lst: "last (rev (take (Suc p) (elems a))) = elems a ! 0"
        using 3(1) by (simp add: last_rev hd_conv_nth)
      have hd0: "hd (rev (take (Suc p) (elems a))) = elems a ! p" using c by (simp add: hd_rev take_Suc_conv_app_nth)
      show ?thesis
        using False c first lst hd0 reference_back_remove [OF srt' len, where i = i and hd_pos = "length (elems a)" and start = p]
        by (cases look) (auto simp: look_def find_pos_def split: option.splits)
    qed
    obtain v q where l: "look = (v, q)" by fastforce
    show ?thesis
    proof (cases v)
      case None
      with found l spec ok r show ?thesis by (simp add: array_ok_def)
    next
      case (Some w)
      with found l have q: "find_pos a i p forw = Some q" "q < length (elems a)" "elems a ! q = (i, w)" by auto
      then have "array_view a i = Some w"
        using srt nth_mem [of q "elems a"] by (simp add: array_view_def sorted_keys_distinct)
      with q l Some ok r show ?thesis by (simp add: array_ok_def)
    qed
  qed
qed

interpretation av: indexed_store
  "\<lambda>i v a. snd (array_insert a i v)" "\<lambda>i a. snd (array_remove a i)" "\<lambda>i a. array_reference a i"
  array_view "\<lambda>i. 0 \<le> i" array_ok
  using array_insert_inserted array_remove_effect array_reference_effect
  by unfold_locales (auto simp: inserted_def array_view_def)

section \<open>Conversions\<close>

text \<open>A word list is None for NULL.\<close>

definition array_to_word_list :: "array \<Rightarrow> word_desc list option" where
  "array_to_word_list a =
     (if array_empty a then None else Some (rev (fold (\<lambda>e l. make_bare_word (snd e) # l) (elems a) [])))"

definition array_keys_to_word_list :: "array \<Rightarrow> word_desc list option" where
  "array_keys_to_word_list a =
     (if array_empty a then None
      else Some (rev (fold (\<lambda>e l. make_bare_word (show_int (fst e)) # l) (elems a) [])))"

definition array_to_kvpair_list :: "array \<Rightarrow> word_desc list option" where
  "array_to_kvpair_list a =
     (if array_empty a then None
      else Some (rev (fold (\<lambda>e l. make_bare_word (snd e) # make_bare_word (show_int (fst e)) # l) (elems a) [])))"

fun array_assign_loop :: "int \<Rightarrow> cstring list \<Rightarrow> array \<Rightarrow> array" where
  "array_assign_loop i [] a = a"
| "array_assign_loop i (w # ws) a = array_assign_loop (i + 1) ws (snd (array_insert a i w))"

definition array_assign_list :: "array \<Rightarrow> cstring list \<Rightarrow> array" where
  "array_assign_list a ws = array_assign_loop 0 ws a"

definition array_from_word_list :: "cstring list \<Rightarrow> array option" where
  "array_from_word_list ws = (if ws = [] then None else Some (array_assign_list array_create ws))"

definition array_to_argv :: "array \<Rightarrow> cstring list option \<times> int" where
  "array_to_argv a =
     (if array_empty a then (None, 0) else (Some (map snd (elems a)), int (length (elems a))))"

text \<open>\<open>array_from_argv\<close>, with \<open>count\<close> the length of the vector; NULL entries and a NULL array
  are left out. Every element already in the array gets the first string of the vector.\<close>

definition array_from_argv :: "array \<Rightarrow> cstring list \<Rightarrow> array" where
  "array_from_argv a vec =
     (let count = int (length vec) in
      if num_elements a = 0 then array_assign_loop 0 vec a
      else if num_elements a = count \<and> count = 1 then
        a\<lparr>elems := (elems a)[0 := (fst (elems a ! 0), vec ! 0)]\<rparr>
      else if num_elements a \<le> count then
        (let a1 = a\<lparr>elems := map (\<lambda>(i, v). (i, vec ! 0)) (elems a)\<rparr> in
         array_assign_loop (num_elements a) (drop (nat (num_elements a)) vec) a1)
      else array_assign_loop 0 vec (array_flush a))"

text \<open>The rewriting functions apply a quoting function of subst.c to every value.\<close>

definition array_rewrite :: "(cstring \<Rightarrow> cstring) \<Rightarrow> array \<Rightarrow> array option" where
  "array_rewrite quote a =
     (if array_empty a then None else Some (a\<lparr>elems := map (\<lambda>(i, v). (i, quote v)) (elems a)\<rparr>))"

text \<open>\<open>array_subrange\<close>, \<open>array_patsub\<close> and \<open>array_modcase\<close>: the last step, joining the words
  (\<open>string_list_pos_params\<close>), is a parameter.\<close>

definition array_subrange ::
  "(char \<Rightarrow> word_desc list \<Rightarrow> int \<Rightarrow> int \<Rightarrow> cstring) \<Rightarrow> array \<Rightarrow> int \<Rightarrow> int \<Rightarrow> bool \<Rightarrow> int \<Rightarrow> int \<Rightarrow> cstring option" where
  "array_subrange string_list_pos_params a start nelem starsub quoted pflags =
     (if array_empty a \<or> start > max_index a then None
      else
        (let h = length (takeWhile (\<lambda>e. start > fst e) (elems a)) in
         if h = length (elems a) then None
         else
           (let p = min (h + nat nelem) (length (elems a)) in
            (case array_to_word_list (array_slice a h p) of
               None \<Rightarrow> None
             | Some wl \<Rightarrow>
                 Some (string_list_pos_params (if starsub then CHR 0x2A else CHR 0x40) wl quoted pflags)))))"

definition MATCH_QUOTED :: "32 word" where "MATCH_QUOTED = 0x20"
definition MATCH_ASSIGNRHS :: "32 word" where "MATCH_ASSIGNRHS = 0x40"
definition MATCH_STARSUB :: "32 word" where "MATCH_STARSUB = 0x80"

text \<open>The words of a list, rewritten in place and joined according to the match flags.\<close>

definition join_rewritten ::
  "(char \<Rightarrow> word_desc list \<Rightarrow> int \<Rightarrow> int \<Rightarrow> cstring) \<Rightarrow> (cstring \<Rightarrow> cstring) \<Rightarrow> word_desc list \<Rightarrow> 32 word \<Rightarrow> cstring" where
  "join_rewritten string_list_pos_params f wl mflags =
     string_list_pos_params
       (if mflags AND MATCH_STARSUB = MATCH_STARSUB then CHR 0x2A else CHR 0x40)
       (map (\<lambda>w. w\<lparr>w_word := map_option f (w_word w)\<rparr>) wl)
       (if mflags AND MATCH_QUOTED = MATCH_QUOTED then 1 else 0)
       (if mflags AND MATCH_ASSIGNRHS \<noteq> 0 then 8 else 0)"

definition array_patsub ::
  "(char \<Rightarrow> word_desc list \<Rightarrow> int \<Rightarrow> int \<Rightarrow> cstring) \<Rightarrow> (cstring \<Rightarrow> cstring \<Rightarrow> cstring \<Rightarrow> 32 word \<Rightarrow> cstring) \<Rightarrow>
   array \<Rightarrow> cstring \<Rightarrow> cstring \<Rightarrow> 32 word \<Rightarrow> cstring option" where
  "array_patsub string_list_pos_params pat_subst a pat rep mflags =
     (if array_empty a then None
      else map_option (\<lambda>wl. join_rewritten string_list_pos_params (\<lambda>w. pat_subst w pat rep mflags) wl mflags)
             (array_to_word_list a))"

definition array_modcase ::
  "(char \<Rightarrow> word_desc list \<Rightarrow> int \<Rightarrow> int \<Rightarrow> cstring) \<Rightarrow> (cstring \<Rightarrow> cstring \<Rightarrow> int \<Rightarrow> cstring) \<Rightarrow>
   array \<Rightarrow> cstring \<Rightarrow> int \<Rightarrow> 32 word \<Rightarrow> cstring option" where
  "array_modcase string_list_pos_params sh_modcase a pat modop mflags =
     (if array_empty a then None
      else map_option (\<lambda>wl. join_rewritten string_list_pos_params (\<lambda>w. sh_modcase w pat modop) wl mflags)
             (array_to_word_list a))"

text \<open>Text forms; \<open>quote_value\<close> is the choice between \<open>ansic_quote\<close> and
  \<open>sh_double_quote\<close>, \<open>quote_string\<close> the function of subst.c.\<close>

fun array_to_string_loop :: "cstring \<Rightarrow> (cstring \<Rightarrow> cstring) \<Rightarrow> array_element list \<Rightarrow> cstring" where
  "array_to_string_loop sep quote [] = []"
| "array_to_string_loop sep quote (e # es) =
     quote (snd e) @ (if es \<noteq> [] then sep else []) @ array_to_string_loop sep quote es"

definition array_to_string :: "(cstring \<Rightarrow> cstring) \<Rightarrow> array \<Rightarrow> cstring \<Rightarrow> bool \<Rightarrow> cstring" where
  "array_to_string quote_string a sep quoted =
     (if array_empty a then []
      else array_to_string_loop sep (if quoted then quote_string else (\<lambda>v. v)) (elems a))"

fun array_kvpair_loop :: "(cstring \<Rightarrow> cstring) \<Rightarrow> array_element list \<Rightarrow> cstring" where
  "array_kvpair_loop quote_value [] = []"
| "array_kvpair_loop quote_value (e # es) =
     show_int (fst e) @ CHR 0x20 # quote_value (snd e) @ (if es \<noteq> [] then '' '' else []) @
     array_kvpair_loop quote_value es"

definition array_to_kvpair :: "(cstring \<Rightarrow> cstring) \<Rightarrow> (cstring \<Rightarrow> cstring) \<Rightarrow> array \<Rightarrow> bool \<Rightarrow> cstring option" where
  "array_to_kvpair quote_value sh_single_quote a quoted =
     (if array_empty a then None
      else Some ((if quoted then sh_single_quote else (\<lambda>v. v)) (array_kvpair_loop quote_value (elems a))))"

fun array_assign_text_loop :: "(cstring \<Rightarrow> cstring) \<Rightarrow> array_element list \<Rightarrow> cstring" where
  "array_assign_text_loop quote_value [] = []"
| "array_assign_text_loop quote_value (e # es) =
     CHR 0x5B # show_int (fst e) @ '']='' @ quote_value (snd e) @ (if es \<noteq> [] then '' '' else []) @
     array_assign_text_loop quote_value es"

definition array_to_assign :: "(cstring \<Rightarrow> cstring) \<Rightarrow> (cstring \<Rightarrow> cstring) \<Rightarrow> array \<Rightarrow> bool \<Rightarrow> cstring option" where
  "array_to_assign quote_value sh_single_quote a quoted =
     (if array_empty a then None
      else
        Some ((if quoted then sh_single_quote else (\<lambda>v. v))
          (CHR 0x28 # array_assign_text_loop quote_value (elems a) @ '')'')))"

section \<open>What the operations promise\<close>

text \<open>C34: Any sequence of assignments, unsets and reads of legal indices on a well-formed array
  answers exactly like the same sequence on a finite map from indices to strings, leaves an array
  that stands for the resulting map, and keeps the array well formed (sorted, counted, its largest
  index and its roving pointer right). The roving pointer is never observable.\<close>

theorem array_ops_refine_map:
  assumes "array_ok a" and "\<forall>x\<in>set xs. 0 \<le> store_op_key x"
  shows "fst (run_ops av.do_op xs a) = fst (run_ops map_op xs (array_view a)) \<and>
     array_view (snd (run_ops av.do_op xs a)) = snd (run_ops map_op xs (array_view a)) \<and>
     array_ok (snd (run_ops av.do_op xs a))"
  using assms by (rule av.run_refines)

definition demo_ops :: "int store_op list" where
  "demo_ops = [Put_op 9 ''nine'', Put_op 2 ''two'', Put_op 5 ''five'', Get_op 2, Put_op 2 ''deux'',
     Del_op 9, Get_op 9, Get_op 2, Put_op 3 ''three'', Get_op 5]"

theorem array_ops_refine_map_witness:
  "fst (run_ops av.do_op demo_ops array_create) =
     [None, None, None, Some ''two'', None, None, None, Some ''deux'', None, Some ''five'']"
proof -
  have "\<forall>x\<in>set demo_ops. 0 \<le> store_op_key x" by (simp add: demo_ops_def)
  from array_ops_refine_map [OF array_create_ok this] show ?thesis
    by (simp add: array_view_def array_create_def demo_ops_def)
qed

text \<open>An assignment \<open>a[i]=v\<close> to a legal index always succeeds and leaves the roving
  pointer on the element it stored.\<close>

theorem array_insert_succeeds:
  assumes "array_ok a" and "0 \<le> i"
  shows "fst (array_insert a i v) = 0 \<and>
     (\<exists>p. lastref (snd (array_insert a i v)) = Some p \<and> elems (snd (array_insert a i v)) ! p = (i, v))"
  using array_insert_inserted [OF assms, of v] by (auto simp: inserted_def)

lemma array_shift_elems:
  assumes ok: "array_ok a" and "0 \<le> n"
  shows "elems (snd (array_shift a n dispose)) = map (\<lambda>(i, v). (i - n, v)) (drop (nat n) (elems a))"
  using assms by (auto simp: array_shift_def array_ok_def array_empty_def Let_def array_flush_def)

lemma array_shift_dropped:
  assumes "array_ok a" and "0 \<le> n"
  shows "fst (array_shift a n dispose) = (if dispose then [] else take (nat n) (elems a))"
  using assms by (auto simp: array_shift_def array_ok_def array_empty_def Let_def)

text \<open>The element at position \<open>p\<close> has at least the index \<open>p\<close>.\<close>

lemma sorted_keys_index_ge:
  "sorted_keys es \<Longrightarrow> \<forall>e\<in>set es. b \<le> fst e \<Longrightarrow> p < length es \<Longrightarrow> b + int p \<le> fst (es ! p)"
proof (induction es arbitrary: b p)
  case Nil
  then show ?case by simp
next
  case (Cons e es)
  show ?case
  proof (cases p)
    case 0
    with Cons.prems show ?thesis by simp
  next
    case (Suc q)
    have "\<forall>x\<in>set es. b + 1 \<le> fst x" using Cons.prems(1,2) by fastforce
    with Cons.IH [of "b + 1" q] Cons.prems(1,3) Suc show ?thesis by simp
  qed
qed

lemma array_shift_ok:
  assumes ok: "array_ok a"
  shows "array_ok (snd (array_shift a n dispose))"
proof -
  consider "array_empty a \<or> n \<le> 0" | "\<not> array_empty a" "0 < n" "length (elems a) \<le> nat n"
    | "\<not> array_empty a" "0 < n" "nat n < length (elems a)" by fastforce
  then show ?thesis
  proof cases
    case 1
    then have "snd (array_shift a n dispose) = a" by (simp add: array_shift_def)
    with ok show ?thesis by simp
  next
    case 2
    then have "elems (snd (array_shift a n dispose)) = [] \<and> num_elements (snd (array_shift a n dispose)) = 0 \<and>
        max_index (snd (array_shift a n dispose)) = - 1 \<and> lastref (snd (array_shift a n dispose)) = None"
      by (simp add: array_shift_def Let_def array_flush_def)
    then show ?thesis by (simp add: array_ok_def)
  next
    case 3
    let ?es = "map (\<lambda>(i, v). (i - n, v)) (drop (nat n) (elems a))"
    have srt: "sorted_keys (elems a)" using ok by (simp add: array_ok_alt)
    have "n \<le> fst e" if "e \<in> set (drop (nat n) (elems a))" for e
    proof -
      from that obtain q where q: "q < length (elems a) - nat n" "e = elems a ! (nat n + q)"
        by (auto simp: in_set_conv_nth)
      then have "0 + int (nat n + q) \<le> fst (elems a ! (nat n + q))"
        using ok by (intro sorted_keys_index_ge [OF srt]) (auto simp: array_ok_def)
      with q 3 show ?thesis by simp
    qed
    moreover have "sorted_keys (map (\<lambda>(i, v). (i - n, v)) (drop (nat n) (elems a)))"
      using sorted_keys_drop [OF srt] by (simp add: sorted_keys_unshift)
    ultimately have shifted: "sorted_keys ?es" "\<forall>e\<in>set ?es. 0 \<le> fst e" "?es \<noteq> []"
      using 3 by (simp_all add: case_prod_unfold)
    have "elems (snd (array_shift a n dispose)) = ?es \<and>
        num_elements (snd (array_shift a n dispose)) = num_elements a - n \<and>
        max_index (snd (array_shift a n dispose)) = fst (last ?es) \<and> lastref (snd (array_shift a n dispose)) = None"
      using 3 by (simp add: array_shift_def Let_def)
    moreover have "num_elements a - n = int (length ?es)" using 3 ok by (simp add: array_ok_def)
    ultimately show ?thesis using shifted by (simp add: array_ok_alt)
  qed
qed

text \<open>\<open>array_shift\<close> by \<open>n\<close> keeps the array well formed: it drops the first \<open>n\<close>
  elements (not indices) and lowers the index of every other element by \<open>n\<close>, and no index
  becomes negative although the array is sparse. Without disposal it hands back exactly the
  elements it dropped.\<close>

theorem array_shift_spec:
  assumes "array_ok a" and "0 \<le> n"
  shows "array_ok (snd (array_shift a n dispose)) \<and>
     elems (snd (array_shift a n dispose)) = map (\<lambda>(i, v). (i - n, v)) (drop (nat n) (elems a)) \<and>
     fst (array_shift a n dispose) = (if dispose then [] else take (nat n) (elems a))"
  by (simp only: array_shift_ok [OF assms(1)] array_shift_elems [OF assms] array_shift_dropped [OF assms])

definition demo_array :: array where
  "demo_array = \<lparr>max_index = 9, num_elements = 3, elems = [(0, ''a''), (4, ''b''), (9, ''c'')], lastref = Some 1\<rparr>"

lemma demo_array_ok [simp]: "array_ok demo_array"
  by (simp add: array_ok_def demo_array_def)

theorem array_insert_succeeds_witness: "fst (array_insert demo_array 5 ''x'') = 0"
  using array_insert_succeeds [OF demo_array_ok, of 5] by simp

theorem array_shift_spec_witness:
  "elems (snd (array_shift demo_array 2 False)) = [(7, ''c'')] \<and>
   fst (array_shift demo_array 2 False) = [(0, ''a''), (4, ''b'')]"
  using array_shift_spec [OF demo_array_ok, of 2 False] by (simp add: demo_array_def)

lemma array_rshift_ok:
  assumes ok: "array_ok a"
  shows "array_ok (snd (array_rshift a n s))"
proof -
  let ?es = "map (\<lambda>(i, v). (i + n, v)) (elems a)"
  have srt: "sorted_keys ?es" using ok by (simp add: sorted_keys_shift array_ok_alt)
  consider "array_empty a \<and> s = None \<or> n \<le> 0" | "elems a \<noteq> []" "0 < n" "s = None"
    | v where "elems a = []" "0 < n" "s = Some v" | v where "elems a \<noteq> []" "0 < n" "s = Some v"
    using array_empty_iff [OF ok] by (cases s; cases "elems a = []"; cases "n \<le> 0") (auto simp: not_le)
  then show ?thesis
  proof cases
    case 1
    with ok show ?thesis by (auto simp: array_rshift_def)
  next
    case 2
    then have "snd (array_rshift a n s) = a\<lparr>elems := ?es, max_index := fst (last ?es), lastref := None\<rparr>"
      using ok by (simp add: array_rshift_def array_ok_def array_empty_def Let_def)
    with 2 ok srt show ?thesis by (auto simp: array_ok_alt)
  next
    case (3 v)
    then have "snd (array_rshift a n s) = a\<lparr>elems := [(0, v)], num_elements := 1, max_index := 0\<rparr>"
      using ok by (simp add: array_rshift_def array_ok_def array_empty_def Let_def)
    with 3 ok show ?thesis by (auto simp: array_ok_alt split: option.splits)
  next
    case (4 v)
    then have "snd (array_rshift a n s) = a\<lparr>elems := (0, v) # ?es, num_elements := num_elements a + 1,
        max_index := fst (last ?es), lastref := None\<rparr>"
      using ok by (simp add: array_rshift_def array_ok_def array_empty_def Let_def)
    with 4 ok srt show ?thesis by (auto simp: array_ok_alt)
  qed
qed

text \<open>Pushing a value at the front of a well-formed array and popping the front again gives
  back the value, at index 0, and the array as it was (up to the roving pointer).\<close>

theorem array_push_pop:
  assumes "array_ok a"
  shows "array_unshift_element (snd (array_shift_element a v)) = ([(0, v)], a\<lparr>lastref := None\<rparr>)"
  using assms
  by (auto simp: array_unshift_element_def array_shift_element_def array_shift_def array_rshift_def
      array_ok_def array_empty_def Let_def comp_def case_prod_unfold last_map)

theorem array_push_pop_witness:
  "array_unshift_element (snd (array_shift_element demo_array ''z'')) = ([(0, ''z'')], demo_array\<lparr>lastref := None\<rparr>)"
  by (rule array_push_pop) simp

lemma array_assign_loop_append:
  assumes "array_ok a" and "num_elements a = int (length (elems a))" and "max_index a = i - 1" and "0 \<le> i"
  shows "array_ok (array_assign_loop i ws a) \<and>
     elems (array_assign_loop i ws a) = elems a @ zip (map (\<lambda>k. i + int k) [0..<length ws]) ws"
  using assms
proof (induction ws arbitrary: i a)
  case Nil
  then show ?case by simp
next
  case (Cons w ws)
  let ?a = "snd (array_insert a i w)"
  have a: "?a = a\<lparr>elems := elems a @ [(i, w)], max_index := i, num_elements := num_elements a + 1,
            lastref := Some (length (elems a))\<rparr>"
    using Cons.prems by (simp add: array_insert_def)
  have "array_ok ?a" using array_insert_inserted [OF Cons.prems(1,4), of w] by (simp add: inserted_def)
  then have "array_ok (array_assign_loop (i + 1) ws ?a) \<and> elems (array_assign_loop (i + 1) ws ?a) =
      elems ?a @ zip (map (\<lambda>k. i + 1 + int k) [0..<length ws]) ws"
    using Cons.prems by (intro Cons.IH) (auto simp: a)
  moreover have "map (\<lambda>k. i + int k) [0..<length (w # ws)] = i # map (\<lambda>k. i + 1 + int k) [0..<length ws]"
    by (simp add: upt_conv_Cons comp_def add.assoc flip: map_Suc_upt del: upt_Suc)
  ultimately show ?case by (simp add: a del: upt_Suc)
qed

text \<open>Making an array of a list of words and listing it again gives the words in order, and its
  keys are 0, 1, 2 and so on.\<close>

theorem array_word_list_roundtrip:
  assumes "ws \<noteq> []"
  shows "\<exists>a. array_from_word_list ws = Some a \<and> array_ok a \<and>
     array_to_word_list a = Some (map make_bare_word ws) \<and>
     array_keys_to_word_list a = Some (map (\<lambda>k. make_bare_word (show_int (int k))) [0..<length ws]) \<and>
     array_to_argv a = (Some ws, int (length ws))"
proof -
  have fold_rev: "rev (fold (\<lambda>e l. f e # l) es acc) = rev acc @ map f es" for f :: "array_element \<Rightarrow> 'b" and es acc
    by (induction es arbitrary: acc) auto
  let ?a = "array_assign_loop 0 ws array_create"
  have e: "array_ok ?a" "elems ?a = zip (map int [0..<length ws]) ws"
    using array_assign_loop_append [OF array_create_ok, of 0 ws] by (simp_all add: array_create_def)
  then have ne: "\<not> array_empty ?a" and len: "length (elems ?a) = length ws"
    using assms by (auto simp: array_ok_def array_empty_def)
  have snds: "map snd (elems ?a) = ws" and fsts: "map fst (elems ?a) = map int [0..<length ws]"
    by (simp_all add: e)
  have "map (\<lambda>e. make_bare_word (snd e)) (elems ?a) = map make_bare_word ws"
    using snds by (metis (no_types, lifting) list.map_comp comp_def map_eq_conv)
  moreover have "map (\<lambda>e. make_bare_word (show_int (fst e))) (elems ?a) =
      map (\<lambda>k. make_bare_word (show_int (int k))) [0..<length ws]"
  proof -
    have "map (\<lambda>e. make_bare_word (show_int (fst e))) (elems ?a) = map (\<lambda>i. make_bare_word (show_int i)) (map fst (elems ?a))"
      by simp
    also have "\<dots> = map (\<lambda>k. make_bare_word (show_int (int k))) [0..<length ws]" by (simp add: fsts)
    finally show ?thesis .
  qed
  ultimately show ?thesis
    using assms ne e(1) snds len
    by (simp add: array_from_word_list_def array_assign_list_def array_to_word_list_def
        array_keys_to_word_list_def array_to_argv_def fold_rev)
qed

theorem array_word_list_roundtrip_witness:
  "\<exists>a. array_from_word_list [''x'', ''y''] = Some a \<and> array_to_argv a = (Some [''x'', ''y''], 2)"
  using array_word_list_roundtrip [of "[''x'', ''y'']"] by auto

lemma dropWhile_sorted:
  "sorted_keys es \<Longrightarrow> dropWhile (\<lambda>e. start > fst e) es = filter (\<lambda>e. start \<le> fst e) es"
proof (induction es)
  case Nil
  then show ?case by simp
next
  case (Cons e es)
  show ?case
  proof (cases "start > fst e")
    case True
    with Cons show ?thesis by simp
  next
    case False
    with Cons.prems have "\<forall>x\<in>set es. start \<le> fst x" by fastforce
    with False show ?thesis by simp
  qed
qed

lemma take_upto_length:
  "h \<le> length xs \<Longrightarrow> take (min (h + n) (length xs) - h) (drop h xs) = take n (drop h xs)"
  by (cases "h + n \<le> length xs") (simp_all add: min_def)

lemma array_slice_empty: "array_empty (array_slice a s e) \<longleftrightarrow> elems (array_slice a s e) = []"
  by (auto simp: array_empty_def array_slice_def Let_def min_def)

lemma fold_words: "rev (fold (\<lambda>e l. f e # l) es acc) = rev acc @ map f es"
  by (induction es arbitrary: acc) auto

text \<open>\<open>array_subrange\<close> joins exactly the values of the first \<open>nelem\<close> set elements whose
  index is at least \<open>start\<close> (unset indices are not counted), in order; when there are none it
  returns NULL.\<close>

theorem array_subrange_exact:
  assumes "array_ok a"
  shows "array_subrange join a start nelem starsub quoted pflags =
     (let vs = take (nat nelem) (map snd (filter (\<lambda>e. start \<le> fst e) (elems a))) in
      if vs = [] then None
      else Some (join (if starsub then CHR 0x2A else CHR 0x40) (map make_bare_word vs) quoted pflags))"
proof -
  have srt: "sorted_keys (elems a)" using assms by (simp add: array_ok_alt)
  let ?P = "\<lambda>e. start > fst e"
  let ?h = "length (takeWhile ?P (elems a))"
  have f: "drop ?h (elems a) = filter (\<lambda>e. start \<le> fst e) (elems a)"
    using dropWhile_sorted [OF srt] by (simp add: dropWhile_eq_drop)
  have le: "?h \<le> length (elems a)" by (rule length_takeWhile_le)
  let ?p = "min (?h + nat nelem) (length (elems a))"
  have sl: "elems (array_slice a ?h ?p) = take (nat nelem) (filter (\<lambda>e. start \<le> fst e) (elems a))"
    using take_upto_length [OF le, of "nat nelem"] by (simp add: array_slice_def Let_def array_create_def f)
  then have wl: "array_to_word_list (array_slice a ?h ?p) =
      (let vs = take (nat nelem) (map snd (filter (\<lambda>e. start \<le> fst e) (elems a))) in
       if vs = [] then None else Some (map make_bare_word vs))"
    unfolding array_to_word_list_def array_slice_empty sl fold_words Let_def by (simp add: comp_def flip: take_map)
  have none: "filter (\<lambda>e. start \<le> fst e) (elems a) = []" if "array_empty a \<or> start > max_index a"
    using that assms sorted_keys_last [OF srt] array_empty_iff [OF assms]
    by (auto simp: filter_empty_conv array_ok_def) fastforce+
  show ?thesis
  proof (cases "array_empty a \<or> start > max_index a")
    case True
    with none show ?thesis by (simp add: array_subrange_def)
  next
    case False
    show ?thesis
    proof (cases "?h = length (elems a)")
      case True
      with f have "filter (\<lambda>e. start \<le> fst e) (elems a) = []" by simp
      with False True show ?thesis by (simp add: array_subrange_def)
    next
      case ne: False
      have "array_subrange join a start nelem starsub quoted pflags =
        map_option (\<lambda>wl. join (if starsub then CHR 0x2A else CHR 0x40) wl quoted pflags)
          (array_to_word_list (array_slice a ?h ?p))"
        using False ne by (simp add: array_subrange_def Let_def map_option_case cong: if_cong)
      then show ?thesis by (simp add: wl Let_def)
    qed
  qed
qed

theorem array_subrange_exact_witness:
  "array_subrange (\<lambda>c wl q f. concat (map (\<lambda>w. the (w_word w)) wl)) demo_array 1 5 False 0 0 = Some ''bc''"
  by (subst array_subrange_exact) (simp_all add: demo_array_def make_bare_word_def array_ok_def)

text \<open>A copy has the elements, the counter and the largest index of the original, is well formed,
  and starts with the roving pointer on the element the original's stands for.\<close>

lemma array_copy_loop_append:
  "array_copy_loop ref p es a1 =
     a1\<lparr>elems := elems a1 @ es,
        lastref := (if p \<le> ref \<and> ref < p + length es then Some (length (elems a1) + (ref - p)) else lastref a1)\<rparr>"
  by (induction es arbitrary: p a1) auto

lemma array_copy_result:
  "array_copy a = a\<lparr>lastref := (if LASTREF a < length (elems a) then Some (LASTREF a) else None)\<rparr>"
  by (simp add: array_copy_def array_copy_loop_append array_create_def)

theorem array_copy_same:
  assumes "array_ok a"
  shows "array_ok (array_copy a) \<and> elems (array_copy a) = elems a \<and> array_view (array_copy a) = array_view a"
  using assms by (auto simp: array_copy_result array_ok_def array_view_def)

text \<open>What \<open>array_from_argv\<close> does to an array that is not empty: the elements it has all become
  the first string of the vector. (Its caller empties the array first.)\<close>

lemma array_from_argv_repeats_first:
  "elems (array_from_argv \<lparr>max_index = 1, num_elements = 2, elems = [(0, ''a''), (1, ''b'')], lastref = None\<rparr>
     [''x'', ''y'', ''z'']) = [(0, ''x''), (1, ''x''), (2, ''z'')]"
  by (simp add: array_from_argv_def array_insert_def)

end
