(* ===== verification/Assoc.thy ===== *)
theory Assoc
  imports Hashlib Arrays
begin

text \<open>
  The associative arrays of assoc.c, a client of the hash table: the data of an item is a string,
  or NULL. Assigning searches with \<open>HASH_CREATE\<close> and writes through the returned item;
  listing walks the chains in bucket order. The quoting functions and \<open>string_list_pos_params\<close>
  are parameters.
\<close>

type_synonym assoc = "cstring hash_table"

definition assoc_empty :: "assoc \<Rightarrow> bool" where
  "assoc_empty h \<longleftrightarrow> nentries h = 0"

definition assoc_flush :: "assoc option \<Rightarrow> assoc option" where
  "assoc_flush h = snd (hash_flush h)"

definition assoc_insert :: "assoc option \<Rightarrow> cstring \<Rightarrow> cstring option \<Rightarrow> int \<times> assoc option" where
  "assoc_insert h key v =
     (case hash_search key h HASH_CREATE of
        (None, h') \<Rightarrow> (- 1, h')
      | (Some b, h') \<Rightarrow> (0, map_option (hash_set_data key v) h'))"

text \<open>\<open>assoc_replace\<close> hands back the old datum.\<close>

definition assoc_replace :: "assoc option \<Rightarrow> cstring \<Rightarrow> cstring option \<Rightarrow> cstring option \<times> assoc option" where
  "assoc_replace h key v =
     (case hash_search key h HASH_CREATE of
        (None, h') \<Rightarrow> (None, h')
      | (Some b, h') \<Rightarrow> (b_data b, map_option (hash_set_data key v) h'))"

definition assoc_remove :: "assoc option \<Rightarrow> cstring \<Rightarrow> assoc option" where
  "assoc_remove h s = snd (hash_remove s h)"

definition assoc_reference :: "assoc option \<Rightarrow> cstring \<Rightarrow> cstring option \<times> assoc option" where
  "assoc_reference h s =
     (case h of
        None \<Rightarrow> (None, None)
      | Some t \<Rightarrow>
          (case hash_search s (Some t) 0 of
             (None, h') \<Rightarrow> (None, h')
           | (Some b, h') \<Rightarrow> (b_data b, h')))"

text \<open>The rewriting functions: every datum is replaced by its quoted form.\<close>

definition assoc_rewrite :: "(cstring \<Rightarrow> cstring) \<Rightarrow> assoc option \<Rightarrow> assoc option" where
  "assoc_rewrite quote h =
     (case h of
        None \<Rightarrow> None
      | Some t \<Rightarrow>
          if assoc_empty t then None
          else Some (t\<lparr>bucket_array :=
            map (map (\<lambda>b. b\<lparr>b_data := map_option quote (b_data b)\<rparr>)) (bucket_array t)\<rparr>))"

definition text_of :: "cstring option \<Rightarrow> cstring" where
  "text_of d = (case d of None \<Rightarrow> [] | Some s \<Rightarrow> s)"

text \<open>Listing: one pass over the chains pushing words, then a reversal. A NULL datum is an empty
  word here; \<open>make_bare_word\<close> would read through it.\<close>

definition assoc_to_word_list_internal :: "assoc option \<Rightarrow> bool \<Rightarrow> word_desc list option" where
  "assoc_to_word_list_internal h keys =
     (case h of
        None \<Rightarrow> None
      | Some t \<Rightarrow>
          if assoc_empty t then None
          else
            Some (rev (fold (\<lambda>b l. make_bare_word (if keys then b_key b else text_of (b_data b)) # l)
              (concat (bucket_array t)) [])))"

definition assoc_to_word_list :: "assoc option \<Rightarrow> word_desc list option" where
  "assoc_to_word_list h = assoc_to_word_list_internal h False"

definition assoc_keys_to_word_list :: "assoc option \<Rightarrow> word_desc list option" where
  "assoc_keys_to_word_list h = assoc_to_word_list_internal h True"

definition assoc_to_kvpair_list :: "assoc option \<Rightarrow> word_desc list option" where
  "assoc_to_kvpair_list h =
     (case h of
        None \<Rightarrow> None
      | Some t \<Rightarrow>
          if assoc_empty t then None
          else
            Some (rev (fold (\<lambda>b l. make_bare_word (text_of (b_data b)) # make_bare_word (b_key b) # l)
              (concat (bucket_array t)) [])))"

text \<open>\<open>assoc_subrange\<close>: \<open>start\<close> counts from 1. When \<open>nelem\<close> is not positive the list is cut
  after the first word all the same, because \<open>t\<close> starts at the first word.\<close>

definition assoc_subrange ::
  "(char \<Rightarrow> word_desc list \<Rightarrow> int \<Rightarrow> int \<Rightarrow> cstring) \<Rightarrow> assoc \<Rightarrow> int \<Rightarrow> int \<Rightarrow> bool \<Rightarrow> int \<Rightarrow> int \<Rightarrow> cstring option" where
  "assoc_subrange string_list_pos_params hash start nelem starsub quoted pflags =
     (if assoc_empty hash then None
      else
        (case assoc_to_word_list (Some hash) of
           None \<Rightarrow> None
         | Some wl \<Rightarrow>
             (let l = drop (nat (start - 1)) wl in
              if l = [] then None
              else
                (let h = (if nelem \<le> 0 then take 1 l else take (nat nelem) l) in
                 Some (string_list_pos_params (if starsub then CHR 0x2A else CHR 0x40) h quoted pflags)))))"

definition assoc_patsub ::
  "(char \<Rightarrow> word_desc list \<Rightarrow> int \<Rightarrow> int \<Rightarrow> cstring) \<Rightarrow> (cstring \<Rightarrow> cstring \<Rightarrow> cstring \<Rightarrow> 32 word \<Rightarrow> cstring) \<Rightarrow>
   assoc option \<Rightarrow> cstring \<Rightarrow> cstring \<Rightarrow> 32 word \<Rightarrow> cstring option" where
  "assoc_patsub string_list_pos_params pat_subst h pat rep mflags =
     map_option (\<lambda>wl. join_rewritten string_list_pos_params (\<lambda>w. pat_subst w pat rep mflags) wl mflags)
       (assoc_to_word_list h)"

definition assoc_modcase ::
  "(char \<Rightarrow> word_desc list \<Rightarrow> int \<Rightarrow> int \<Rightarrow> cstring) \<Rightarrow> (cstring \<Rightarrow> cstring \<Rightarrow> int \<Rightarrow> cstring) \<Rightarrow>
   assoc option \<Rightarrow> cstring \<Rightarrow> int \<Rightarrow> 32 word \<Rightarrow> cstring option" where
  "assoc_modcase string_list_pos_params sh_modcase h pat modop mflags =
     map_option (\<lambda>wl. join_rewritten string_list_pos_params (\<lambda>w. sh_modcase w pat modop) wl mflags)
       (assoc_to_word_list h)"

text \<open>Text forms; \<open>quote_key\<close> and \<open>quote_value\<close> choose among the quoting functions of the
  library. Every pair is followed by a blank, the last one too.\<close>

definition assoc_pair_text :: "(cstring \<Rightarrow> cstring) \<Rightarrow> cstring \<Rightarrow> cstring bucket \<Rightarrow> cstring" where
  "assoc_pair_text quote_value key b =
     key @ CHR 0x20 # (case b_data b of None \<Rightarrow> [CHR 0x22, CHR 0x22] | Some d \<Rightarrow> quote_value d) @ '' ''"

definition assoc_to_kvpair ::
  "(cstring \<Rightarrow> cstring) \<Rightarrow> (cstring \<Rightarrow> cstring) \<Rightarrow> (cstring \<Rightarrow> cstring) \<Rightarrow> assoc option \<Rightarrow> bool \<Rightarrow> cstring option" where
  "assoc_to_kvpair quote_key quote_value sh_single_quote hash quoted =
     (case hash of
        None \<Rightarrow> None
      | Some t \<Rightarrow>
          if assoc_empty t then None
          else Some ((if quoted then sh_single_quote else (\<lambda>v. v))
            (concat (map (\<lambda>b. assoc_pair_text quote_value (quote_key (b_key b)) b) (concat (bucket_array t))))))"

definition assoc_assign_text :: "(cstring \<Rightarrow> cstring) \<Rightarrow> cstring \<Rightarrow> cstring bucket \<Rightarrow> cstring" where
  "assoc_assign_text quote_value key b =
     CHR 0x5B # key @ '']='' @ (case b_data b of None \<Rightarrow> [] | Some d \<Rightarrow> quote_value d) @ '' ''"

definition assoc_to_assign ::
  "(cstring \<Rightarrow> cstring) \<Rightarrow> (cstring \<Rightarrow> cstring) \<Rightarrow> (cstring \<Rightarrow> cstring) \<Rightarrow> assoc option \<Rightarrow> bool \<Rightarrow> cstring option" where
  "assoc_to_assign quote_key quote_value sh_single_quote hash quoted =
     (case hash of
        None \<Rightarrow> None
      | Some t \<Rightarrow>
          if assoc_empty t then None
          else Some ((if quoted then sh_single_quote else (\<lambda>v. v))
            (CHR 0x28 # concat (map (\<lambda>b. assoc_assign_text quote_value (quote_key (b_key b)) b)
               (concat (bucket_array t))) @ '')'')))"

definition join_strings :: "cstring \<Rightarrow> cstring list \<Rightarrow> cstring" where
  "join_strings sep ws = (case ws of [] \<Rightarrow> [] | w # ws \<Rightarrow> w @ concat (map (\<lambda>x. sep @ x) ws))"

definition assoc_to_string :: "(cstring \<Rightarrow> cstring) \<Rightarrow> assoc option \<Rightarrow> cstring \<Rightarrow> bool \<Rightarrow> cstring option" where
  "assoc_to_string quote_string h sep quoted =
     (case h of
        None \<Rightarrow> None
      | Some t \<Rightarrow>
          if assoc_empty t then Some []
          else
            Some (join_strings sep
              (map (if quoted then quote_string else (\<lambda>v. v))
                 (concat (map (\<lambda>b. case b_data b of None \<Rightarrow> [] | Some d \<Rightarrow> [d]) (concat (bucket_array t)))))))"

section \<open>The operations refine a finite map\<close>

definition assoc_view :: "assoc \<Rightarrow> cstring \<Rightarrow> cstring option" where
  "assoc_view t k = Option.bind (hash_alpha t k) (\<lambda>d. d)"

text \<open>The operations on a table that exists.\<close>

definition assoc_put :: "cstring \<Rightarrow> cstring \<Rightarrow> assoc \<Rightarrow> assoc" where
  "assoc_put k v t = the (snd (assoc_insert (Some t) k (Some v)))"

definition assoc_del :: "cstring \<Rightarrow> assoc \<Rightarrow> assoc" where
  "assoc_del k t = the (assoc_remove (Some t) k)"

definition assoc_get :: "cstring \<Rightarrow> assoc \<Rightarrow> cstring option \<times> assoc" where
  "assoc_get k t = (case assoc_reference (Some t) k of (r, h) \<Rightarrow> (r, the h))"

lemma hash_search_create_Some:
  assumes "hash_inv t"
  shows "\<exists>b t'. hash_search s (Some t) HASH_CREATE = (Some b, Some t')"
proof (cases "hash_alpha t s")
  case None
  have c: "HASH_CREATE AND HASH_CREATE \<noteq> 0" by (simp add: HASH_CREATE_def)
  with hash_search_miss [OF assms None, of HASH_CREATE] show ?thesis by (simp split: prod.splits)
next
  case (Some d)
  then show ?thesis using hash_search_hit [OF assms Some] by blast
qed

lemma assoc_insert_store:
  assumes "hash_inv t"
  shows "assoc_insert (Some t) k v = (0, Some (hash_store k v t))"
  using hash_search_create_Some [OF assms, of k] by (auto simp: assoc_insert_def hash_store_def)

lemma assoc_remove_delete: "hash_inv t \<Longrightarrow> assoc_remove (Some t) k = Some (hash_delete k t)"
  by (auto simp: assoc_remove_def hash_delete_def hash_remove_def Let_def split: option.splits)

lemma assoc_reference_lookup:
  assumes inv: "hash_inv t"
  shows "fst (assoc_get k t) = assoc_view t k \<and> hash_inv (snd (assoc_get k t)) \<and>
     hash_alpha (snd (assoc_get k t)) = hash_alpha t"
proof (cases "hash_alpha t k")
  case None
  with inv hash_search_miss [OF inv None, of 0] show ?thesis
    by (auto simp: assoc_get_def assoc_reference_def assoc_view_def split: prod.splits)
next
  case (Some d)
  obtain b t' where s: "hash_search k (Some t) 0 = (Some b, Some t')" "hash_inv t'" "hash_alpha t' = hash_alpha t"
    using hash_search_hit [OF inv Some] by blast
  moreover have "b_data b = d" using hash_lookup_alpha [OF inv, of k] s Some by (simp add: hash_lookup_def)
  ultimately show ?thesis using Some by (simp add: assoc_get_def assoc_reference_def assoc_view_def)
qed

interpretation as: indexed_store assoc_put assoc_del assoc_get assoc_view "\<lambda>_. True" hash_inv
proof
  fix t :: assoc and k v
  assume inv: "hash_inv t"
  note st = hash_store_spec [OF inv] and dl = hash_remove_spec [OF inv] and rf = assoc_reference_lookup [OF inv]
  show "hash_inv (assoc_put k v t)" and "assoc_view (assoc_put k v t) = (assoc_view t)(k \<mapsto> v)"
    using st by (auto simp: assoc_put_def assoc_insert_store [OF inv] assoc_view_def fun_eq_iff)
  show "hash_inv (assoc_del k t)" and "assoc_view (assoc_del k t) = (assoc_view t)(k := None)"
    using dl by (auto simp: assoc_del_def assoc_remove_delete [OF inv] assoc_view_def fun_eq_iff)
  show "hash_inv (snd (assoc_get k t))" "assoc_view (snd (assoc_get k t)) = assoc_view t"
    "fst (assoc_get k t) = assoc_view t k"
    using rf by (auto simp: assoc_view_def fun_eq_iff)
qed

text \<open>C37: Any sequence of assignments, unsets and reads on an associative array answers like the same
  sequence on a finite map from strings to strings and keeps the hash table's invariant, whatever
  the order of keys, the collisions and the growth of the table.\<close>

theorem assoc_ops_refine_map:
  assumes "hash_inv t"
  shows "fst (run_ops as.do_op xs t) = fst (run_ops map_op xs (assoc_view t)) \<and>
     assoc_view (snd (run_ops as.do_op xs t)) = snd (run_ops map_op xs (assoc_view t)) \<and>
     hash_inv (snd (run_ops as.do_op xs t))"
  using assms by (rule as.run_refines) simp

lemma hash_create_1: "hash_inv (hash_create 1)" "hash_alpha (hash_create 1) = Map.empty"
proof -
  have "\<exists>k<31. (1::int) = 2 ^ k" by (rule exI [of _ 0]) simp
  with hash_create_spec [of 1] show "hash_inv (hash_create 1)" "hash_alpha (hash_create 1) = Map.empty" by blast+
qed

theorem assoc_ops_refine_map_witness:
  "fst (run_ops as.do_op [Put_op ''a'' ''1'', Put_op ''b'' ''2'', Del_op ''a'', Get_op ''a'', Get_op ''b'']
     (hash_create 1)) = [None, None, None, None, Some ''2'']"
  using assoc_ops_refine_map [OF hash_create_1(1), of "[Put_op ''a'' ''1'', Put_op ''b'' ''2'', Del_op ''a'', Get_op ''a'', Get_op ''b'']"]
  by (simp add: assoc_view_def hash_create_1)

section \<open>Listing and rebuilding\<close>

text \<open>Assigning the words of a key-value list pair by pair (a missing last value is empty).\<close>

fun assign_kvlist :: "word_desc list \<Rightarrow> assoc \<Rightarrow> assoc" where
  "assign_kvlist [] t = t"
| "assign_kvlist [k] t = assoc_put (text_of (w_word k)) [] t"
| "assign_kvlist (k # v # ws) t = assign_kvlist ws (assoc_put (text_of (w_word k)) (text_of (w_word v)) t)"

definition item_pairs :: "assoc \<Rightarrow> (cstring \<times> cstring) list" where
  "item_pairs t = map (\<lambda>b. (b_key b, text_of (b_data b))) (table_items t)"

lemma assign_kvlist_pairs:
  "assign_kvlist (concat (map (\<lambda>(k, v). [make_bare_word k, make_bare_word v]) kvs)) t =
     fold (\<lambda>(k, v). assoc_put k v) kvs t"
  by (induction kvs arbitrary: t) (auto simp: make_bare_word_def text_of_def)

lemma fold_pair_words:
  "rev (fold (\<lambda>b l. f b # g b # l) xs acc) = rev acc @ concat (map (\<lambda>b. [g b, f b]) xs)"
  by (induction xs arbitrary: acc) auto

lemma kvpair_list_items:
  assumes "\<not> assoc_empty t"
  shows "assoc_to_kvpair_list (Some t) =
     Some (concat (map (\<lambda>(k, v). [make_bare_word k, make_bare_word v]) (item_pairs t)))"
  using assms
  by (simp add: assoc_to_kvpair_list_def fold_pair_words item_pairs_def table_items_def comp_def)

lemma map_of_item_pairs:
  assumes "\<forall>b\<in>set (table_items t). b_data b \<noteq> None"
  shows "map_of (item_pairs t) = assoc_view t"
proof
  fix k
  have "map_of (map (\<lambda>b. (b_key b, text_of (b_data b))) its) k =
      Option.bind (map_of (map (\<lambda>it. (b_key it, b_data it)) its) k) (\<lambda>d. d)"
    if "\<forall>b\<in>set its. b_data b \<noteq> None" for its
    using that by (induction its) (auto simp: text_of_def)
  with assms show "map_of (item_pairs t) k = assoc_view t k"
    by (simp add: item_pairs_def assoc_view_def hash_alpha_def)
qed

text \<open>Listing an associative array as alternating keys and values and assigning that list, pair by
  pair, to an empty array rebuilds the same map, for every array whose values are set.\<close>

theorem assoc_kvpair_roundtrip:
  assumes "hash_inv t" and "\<forall>b\<in>set (table_items t). b_data b \<noteq> None" and "\<not> assoc_empty t"
    and "hash_inv e" and "assoc_view e = Map.empty"
  shows "\<exists>ws. assoc_to_kvpair_list (Some t) = Some ws \<and> assoc_view (assign_kvlist ws e) = assoc_view t"
proof -
  have "distinct (map fst (item_pairs t))"
    using hash_inv_distinct [OF assms(1)] by (simp add: item_pairs_def comp_def)
  then have "map_of (rev (item_pairs t)) = map_of (item_pairs t)"
    using map_of_inject_set [of "rev (item_pairs t)" "item_pairs t"] by (simp add: rev_map flip: rev_map)
  then show ?thesis
    using as.fold_put [OF assms(4), of "item_pairs t"] map_of_item_pairs [OF assms(2)] assms(5)
    by (simp add: kvpair_list_items [OF assms(3)] assign_kvlist_pairs)
qed

text \<open>For a positive count, \<open>assoc_subrange\<close> joins exactly the values at places \<open>start\<close> to
  \<open>start + nelem - 1\<close> of the listing order, places counted from 1.\<close>

theorem assoc_subrange_exact:
  assumes "\<not> assoc_empty t" and "1 \<le> start" and "0 < nelem"
  shows "assoc_subrange join t start nelem starsub quoted pflags =
     (let vs = take (nat nelem) (drop (nat start - 1) (map (\<lambda>b. make_bare_word (text_of (b_data b))) (table_items t))) in
      if vs = [] then None else Some (join (if starsub then CHR 0x2A else CHR 0x40) vs quoted pflags))"
proof -
  have "nat (start - 1) = nat start - 1" using assms(2) by (simp add: nat_diff_distrib')
  then show ?thesis
    using assms
    by (simp add: assoc_subrange_def assoc_to_word_list_def assoc_to_word_list_internal_def fold_words
        table_items_def Let_def)
qed

definition demo_assoc :: assoc where
  "demo_assoc = \<lparr>bucket_array = [[(new_bucket ''b'')\<lparr>b_data := Some ''2''\<rparr>, (new_bucket ''a'')\<lparr>b_data := Some ''1''\<rparr>]],
     nbuckets = 1, nentries = 2\<rparr>"

lemma demo_assoc_inv [simp]: "hash_inv demo_assoc"
proof -
  have "\<exists>k<31. (1::int) = 2 ^ k" by (rule exI [of _ 0]) simp
  then show ?thesis
    by (simp add: hash_inv_def demo_assoc_def new_bucket_def hash_bucket_def bucket_index_def table_items_def)
qed

theorem assoc_kvpair_roundtrip_witness:
  "\<exists>ws. assoc_to_kvpair_list (Some demo_assoc) = Some ws \<and>
     assoc_view (assign_kvlist ws (hash_create 1)) = assoc_view demo_assoc"
proof (rule assoc_kvpair_roundtrip)
  show "assoc_view (hash_create 1) = Map.empty" by (simp add: assoc_view_def hash_create_1 fun_eq_iff)
qed (simp_all add: hash_create_1 assoc_empty_def, simp_all add: demo_assoc_def table_items_def)

definition demo_join :: "char \<Rightarrow> word_desc list \<Rightarrow> int \<Rightarrow> int \<Rightarrow> cstring" where
  "demo_join c wl quoted pflags = concat (map (\<lambda>w. text_of (w_word w)) wl)"

theorem assoc_subrange_exact_witness:
  "assoc_subrange demo_join demo_assoc 2 5 False 0 0 = Some ''1''"
  using assoc_subrange_exact [of demo_assoc 2 5 demo_join False 0 0]
  by (simp add: demo_assoc_def assoc_empty_def table_items_def demo_join_def make_bare_word_def text_of_def)

text \<open>A count of zero still yields one element.\<close>

lemma assoc_subrange_zero_count:
  "assoc_subrange demo_join demo_assoc 1 0 False 0 0 = Some ''2''"
  by (simp add: assoc_subrange_def assoc_to_word_list_def assoc_to_word_list_internal_def demo_assoc_def
      assoc_empty_def demo_join_def make_bare_word_def text_of_def)

end
