(* ===== verification/Exec_Control.thy ===== *)
theory Exec_Control
  imports Shell_Types C_Numbers
begin

text \<open>
  The executor's control flow (execute_cmd.c): \<open>execute_command_internal\<close> and the functions it
  calls for connections, loops, conditionals, \<open>case\<close>, groups, simple commands, functions and
  builtins, with the counters \<open>breaking\<close>, \<open>continuing\<close> and \<open>loop_level\<close> of builtins/break.def, the
  status, the flags that keep \<open>set -e\<close> off, and the jumps that leave a command early. The commands run
  in the foreground of the shell itself: what runs in a child process (subshells, pipelines,
  coprocesses, asynchronous commands, programs) is a port, and so are word expansion, redirections
  and the builtins other than \<open>break\<close>, \<open>continue\<close> and \<open>return\<close>. POSIX mode, the debugger, line numbers
  and traps other than ERR are left out. Where the code sets a flag in a command it is about to
  execute, the model executes the command with the flag set: the place of a command in the program
  decides the flags, so each execution of it sets the same ones.
\<close>

section \<open>State\<close>

text \<open>Where \<open>sh_longjmp\<close> goes: to the top level with a code, or to \<open>execute_function\<close> with the value
  of \<open>return\<close>.\<close>

datatype jump = Jump_ERREXIT | Jump_DISCARD | Jump_FORCE_EOF | Jump_EXITPROG | Return_catch int

record 'w senv =
  last_command_exit_value :: int
  shell_functions :: "cstring \<rightharpoonup> command"
  world :: 'w

record 'w sstate =
  env :: "'w senv"
  loop_level :: nat
  funcnest :: nat
  return_catch_flag :: nat

record 'w xstate =
  base :: "'w sstate"
  breaking :: nat
  continuing :: nat

text \<open>A run may not end (None); it ends with a jump or with a value.\<close>

type_synonym ('j, 's, 'v) gen_run = "'s \<Rightarrow> (('j + 'v) \<times> 's) option"
type_synonym ('s, 'v) run = "(jump, 's, 'v) gen_run"
type_synonym ('w, 'v) envop = "'w senv \<Rightarrow> (jump + 'v) \<times> 'w senv"

definition xret :: "'v \<Rightarrow> ('j, 's, 'v) gen_run" where
  "xret v s = Some (Inr v, s)"

definition xjump :: "'j \<Rightarrow> ('j, 's, 'v) gen_run" where
  "xjump j s = Some (Inl j, s)"

definition xbind :: "('j, 's, 'v) gen_run \<Rightarrow> ('v \<Rightarrow> ('j, 's, 'u) gen_run) \<Rightarrow> ('j, 's, 'u) gen_run" where
  "xbind m f s =
     (case m s of
        None \<Rightarrow> None
      | Some (Inl j, s') \<Rightarrow> Some (Inl j, s')
      | Some (Inr v, s') \<Rightarrow> f v s')"

text \<open>What an unwind-protect does at the end, also when the run ends with a jump.\<close>

definition unwinding :: "('s \<Rightarrow> 's) \<Rightarrow> ('j, 's, 'v) gen_run \<Rightarrow> ('j, 's, 'v) gen_run" where
  "unwinding f m s = map_option (\<lambda>(r, s'). (r, f s')) (m s)"

definition upd_env :: "('w senv \<Rightarrow> 'w senv) \<Rightarrow> 'w sstate \<Rightarrow> 'w sstate" where
  "upd_env f b = b\<lparr>env := f (env b)\<rparr>"

definition upd_world :: "('w \<Rightarrow> 'w) \<Rightarrow> 'w sstate \<Rightarrow> 'w sstate" where
  "upd_world f = upd_env (\<lambda>e. e\<lparr>world := f (world e)\<rparr>)"

definition set_status :: "int \<Rightarrow> 'w sstate \<Rightarrow> 'w sstate" where
  "set_status v = upd_env (\<lambda>e. e\<lparr>last_command_exit_value := v\<rparr>)"

definition env_op :: "('w, 'v) envop \<Rightarrow> ('w sstate, 'v) run" where
  "env_op f b = (case f (env b) of (r, e) \<Rightarrow> Some (r, b\<lparr>env := e\<rparr>))"

definition on_base :: "('w sstate, 'v) run \<Rightarrow> ('w xstate, 'v) run" where
  "on_base m s = map_option (\<lambda>(r, b). (r, s\<lparr>base := b\<rparr>)) (m (base s))"

definition base_mod :: "('w sstate \<Rightarrow> 'w sstate) \<Rightarrow> 'w xstate \<Rightarrow> 'w xstate" where
  "base_mod f s = s\<lparr>base := f (base s)\<rparr>"

section \<open>Ports\<close>

text \<open>The code around the executor. An operation on the environment sees \<open>$?\<close> and the functions; the
  gates answer whether a hook denies; \<open>eval_arith_for_expr\<close> answers None for an invalid expression;
  \<open>do_redirections\<close> and \<open>apply_simple_redirects\<close> answer whether they succeeded and
  \<open>cleanup_redirects\<close> undoes them.\<close>

record 'w exec_ports =
  exit_immediately_on_error :: "'w senv \<Rightarrow> bool"
  read_but_dont_execute :: "'w senv \<Rightarrow> bool"
  interactive_shell :: bool
  restricted :: bool
  funcnest_max :: "'w senv \<Rightarrow> nat"
  error_trapped :: "'w senv \<Rightarrow> bool"
  run_error_trap :: "'w senv \<Rightarrow> 'w senv"
  expand_words :: "word_list \<Rightarrow> 32 word \<Rightarrow> ('w, cstring list) envop"
  expand_words_no_vars :: "word_list \<Rightarrow> ('w, cstring list) envop"
  bind_loop_variable :: "cstring \<Rightarrow> cstring \<Rightarrow> ('w, bool) envop"
  select_query :: "cstring list \<Rightarrow> ('w, cstring option) envop"
  eval_arith_for_expr :: "word_list \<Rightarrow> ('w, int option) envop"
  case_subject :: "word_desc option \<Rightarrow> ('w, cstring) envop"
  case_match :: "word_desc option \<Rightarrow> cstring \<Rightarrow> ('w, bool) envop"
  cond_term :: "bool \<Rightarrow> cond_com \<Rightarrow> ('w, int) envop"
  do_redirections :: "redirect list \<Rightarrow> ('w, bool) envop"
  apply_simple_redirects :: "redirect list \<Rightarrow> ('w, bool) envop"
  cleanup_redirects :: "redirect list \<Rightarrow> 'w \<Rightarrow> 'w"
  comsub_status :: "'w senv \<Rightarrow> int option"
  fork_null_command :: "redirect list \<Rightarrow> 'w senv \<Rightarrow> (int \<times> 'w senv) option"
  before_simple :: "cstring list \<Rightarrow> ('w, bool) envop"
  choose_dispatch :: "cstring list \<Rightarrow> bool \<Rightarrow> ('w, bool \<times> bool \<times> bool) envop"
  after_simple :: "cstring list \<Rightarrow> int \<Rightarrow> 'w senv \<Rightarrow> 'w senv"
  on_builtin :: "cstring list \<Rightarrow> ('w, bool) envop"
  on_function :: "cstring \<Rightarrow> cstring list \<Rightarrow> ('w, bool) envop"
  want_stdio_capture :: "'w senv \<Rightarrow> bool"
  begin_capture :: "'w \<Rightarrow> 'w"
  end_capture :: "'w \<Rightarrow> 'w"
  find_shell_builtin :: "cstring \<Rightarrow> 'w senv \<Rightarrow> bool"
  run_builtin :: "cstring list \<Rightarrow> 32 word \<Rightarrow> ('w, int) envop"
  execute_disk_command :: "cstring list \<Rightarrow> redirect list \<Rightarrow> 32 word \<Rightarrow> ('w, int) envop"
  enter_function :: "cstring \<Rightarrow> cstring list \<Rightarrow> 'w \<Rightarrow> 'w"
  leave_function :: "'w \<Rightarrow> 'w"
  function_readonly :: "cstring \<Rightarrow> 'w \<Rightarrow> bool"
  run_in_child :: "command \<Rightarrow> ('w, int) envop"
  run_coproc :: "command \<Rightarrow> ('w, int) envop"
  run_async :: "command \<Rightarrow> ('w, int) envop"
  execute_pipeline :: "command \<Rightarrow> ('w, int) envop"
  print_times :: "'w \<Rightarrow> 'w"

section \<open>Statuses and flags\<close>

definition EX_BADUSAGE :: int where "EX_BADUSAGE = 2"
definition EX_SHERRBASE :: int where "EX_SHERRBASE = 256"
definition EX_BADSYNTAX :: int where "EX_BADSYNTAX = 257"
definition EX_USAGE :: int where "EX_USAGE = 258"
definition EX_BADASSIGN :: int where "EX_BADASSIGN = 260"
definition EX_EXPFAIL :: int where "EX_EXPFAIL = 261"
definition EX_DISKFALLBACK :: int where "EX_DISKFALLBACK = 262"
definition EX_UTILERROR :: int where "EX_UTILERROR = 263"

definition builtin_status :: "int \<Rightarrow> int" where
  "builtin_status result =
     (if result = EX_USAGE \<or> result = EX_BADSYNTAX then EX_BADUSAGE
      else if result = EX_REDIRFAIL \<or> result = EX_BADASSIGN \<or> result = EX_EXPFAIL \<or> result = EX_UTILERROR
      then EXECUTION_FAILURE
      else if result > EX_SHERRBASE then EXECUTION_FAILURE else EXECUTION_SUCCESS)"

text \<open>\<open>command->flags |= f\<close>, where the command is there.\<close>

definition or_flags :: "32 word \<Rightarrow> command option \<Rightarrow> command option" where
  "or_flags f = map_option (\<lambda>c. Command (cmd_flags c OR f) (cmd_line c) (cmd_redirects c) (cmd_value c))"

definition ignoring :: "bool \<Rightarrow> command option \<Rightarrow> command option" where
  "ignoring b c = (if b then or_flags CMD_IGNORE_RETURN c else c)"

definition ignore_bit :: "bool \<Rightarrow> 32 word \<Rightarrow> 32 word" where
  "ignore_bit b flags = (if b then flags OR CMD_IGNORE_RETURN else flags)"

definition invert_status :: "bool \<Rightarrow> int \<Rightarrow> int" where
  "invert_status invert r = (if invert then (if r = EXECUTION_SUCCESS then EXECUTION_FAILURE else EXECUTION_SUCCESS) else r)"

text \<open>What follows a command that may end the shell: the ERR trap, then \<open>set -e\<close>.\<close>

definition command_failed :: "'w exec_ports \<Rightarrow> bool \<Rightarrow> bool \<Rightarrow> bool \<Rightarrow> int \<Rightarrow> ('w, int) envop" where
  "command_failed pt was_error_trap ignore_return invert r e =
     (let e1 = (if was_error_trap \<and> \<not> ignore_return \<and> \<not> invert \<and> r \<noteq> EXECUTION_SUCCESS
                then run_error_trap pt (e\<lparr>last_command_exit_value := r\<rparr>) else e)
      in if \<not> ignore_return \<and> \<not> invert \<and> exit_immediately_on_error pt e1 \<and> r \<noteq> EXECUTION_SUCCESS
         then (Inl Jump_ERREXIT, e1\<lparr>last_command_exit_value := r\<rparr>)
         else (Inr r, e1))"

section \<open>break, continue and return\<close>

definition is_option :: "char \<Rightarrow> cstring \<Rightarrow> bool" where
  "is_option c s \<longleftrightarrow> s = [CHR ''-'', c]"

definition skip_dashes :: "cstring list \<Rightarrow> cstring list" where
  "skip_dashes args = (if args \<noteq> [] \<and> is_option (CHR ''-'') (hd args) then tl args else args)"

definition helpopt :: "cstring list \<Rightarrow> bool" where
  "helpopt args \<longleftrightarrow> args \<noteq> [] \<and> hd args = ''--help''"

text \<open>\<open>no_args\<close> for an argument too many is a jump.\<close>

definition no_args :: "cstring list \<Rightarrow> 'v \<Rightarrow> ('w, 'v) envop" where
  "no_args rest v e = (if rest \<noteq> [] then (Inl Jump_DISCARD, e\<lparr>last_command_exit_value := EX_BADUSAGE\<rparr>) else (Inr v, e))"

text \<open>\<open>get_numeric_arg\<close> with \<open>fatal\<close> 1 in a script and 2 in an interactive shell.\<close>

definition get_numeric_arg :: "'w exec_ports \<Rightarrow> cstring list \<Rightarrow> ('w, int) envop" where
  "get_numeric_arg pt args e =
     (case skip_dashes args of
        [] \<Rightarrow> (Inr 1, e)
      | a # rest \<Rightarrow>
          (case valid_number a of
             None \<Rightarrow> (Inl (if interactive_shell pt then Jump_DISCARD else Jump_EXITPROG),
                      e\<lparr>last_command_exit_value := EX_BADUSAGE\<rparr>)
           | Some n \<Rightarrow> no_args rest n e))"

text \<open>The count of \<open>break\<close> and \<open>continue\<close>: 0 stands for a count that is out of range.\<close>

definition loop_count :: "'w exec_ports \<Rightarrow> cstring list \<Rightarrow> ('w sstate, nat) run" where
  "loop_count pt args b = xbind (env_op (get_numeric_arg pt args)) (\<lambda>n. xret (min (nat n) (loop_level b))) b"

definition break_builtin :: "'w exec_ports \<Rightarrow> cstring list \<Rightarrow> ('w xstate, int) run" where
  "break_builtin pt args s =
     (if helpopt args then xret EX_USAGE s
      else if loop_level (base s) = 0 then xret EXECUTION_SUCCESS s
      else xbind (on_base (loop_count pt args)) (\<lambda>newbreak s.
             if newbreak = 0 then Some (Inr EXECUTION_FAILURE, s\<lparr>breaking := loop_level (base s)\<rparr>)
             else Some (Inr EXECUTION_SUCCESS, s\<lparr>breaking := newbreak\<rparr>)) s)"

definition continue_builtin :: "'w exec_ports \<Rightarrow> cstring list \<Rightarrow> ('w xstate, int) run" where
  "continue_builtin pt args s =
     (if helpopt args then xret EX_USAGE s
      else if loop_level (base s) = 0 then xret EXECUTION_SUCCESS s
      else xbind (on_base (loop_count pt args)) (\<lambda>newcont s.
             if newcont = 0 then Some (Inr EXECUTION_FAILURE, s\<lparr>breaking := loop_level (base s)\<rparr>)
             else Some (Inr EXECUTION_SUCCESS, s\<lparr>continuing := newcont\<rparr>)) s)"

definition get_exitstat :: "cstring list \<Rightarrow> ('w, int) envop" where
  "get_exitstat args e =
     (case skip_dashes args of
        [] \<Rightarrow> (Inr (last_command_exit_value e), e)
      | a # rest \<Rightarrow>
          (case valid_number a of
             None \<Rightarrow> (Inr EX_USAGE, e)
           | Some n \<Rightarrow> no_args rest (n mod 256) e))"

definition return_builtin :: "cstring list \<Rightarrow> ('w sstate, int) run" where
  "return_builtin args b =
     (if helpopt args then xret EX_USAGE b
      else xbind (env_op (get_exitstat args)) (\<lambda>v b.
             if return_catch_flag b \<noteq> 0 then xjump (Return_catch v) b else xret EX_USAGE b) b)"

section \<open>Simple commands\<close>

text \<open>\<open>check_command_builtin\<close>: the command after \<open>command [-p] [--]\<close> and whether \<open>-p\<close> was given; None
  when the words are not of this form.\<close>

definition check_command_builtin :: "'w exec_ports \<Rightarrow> cstring list \<Rightarrow> (cstring list \<times> bool) option" where
  "check_command_builtin pt ws =
     (let w = tl ws; p = (w \<noteq> [] \<and> is_option (CHR ''p'') (hd w)); w1 = (if p then tl w else w)
      in if p \<and> restricted pt then None
         else if w1 \<noteq> [] \<and> is_option (CHR ''-'') (hd w1) then (if tl w1 = [] then None else Some (tl w1, p))
         else if w1 \<noteq> [] \<and> hd w1 \<noteq> [] \<and> hd (hd w1) = CHR ''-'' then None
         else if w1 = [] then None else Some (w1, p))"

lemma check_command_builtin_shorter: "check_command_builtin pt ws = Some (ws', p) \<Longrightarrow> length ws' < length ws"
  by (cases ws) (auto simp: check_command_builtin_def Let_def split: if_splits)

text \<open>The loop of \<open>rash_stage_resolve_simple\<close> that strips \<open>command\<close>.\<close>

function strip_command :: "'w exec_ports \<Rightarrow> 'w senv \<Rightarrow> cstring list \<Rightarrow> 32 word \<Rightarrow> cstring list \<times> 32 word" where
  "strip_command pt e ws flags =
     (if ws \<noteq> [] \<and> hd ws = ''command'' \<and> find_shell_builtin pt ''command'' e then
        (case check_command_builtin pt ws of
           None \<Rightarrow> (ws, flags)
         | Some (ws', p) \<Rightarrow>
             strip_command pt e ws' (flags OR CMD_COMMAND_BUILTIN OR CMD_NO_FUNCTIONS OR (if p then CMD_STDPATH else 0)))
      else (ws, flags))"
  by pat_completeness auto
termination
  by (relation "measure (\<lambda>(pt, e, ws, flags). length ws)") (auto dest: check_command_builtin_shorter)

declare strip_command.simps [simp del]

datatype target = Function command | Builtin | Disk | Denied

text \<open>\<open>rash_stage_resolve_simple\<close>: the words, the flags and the function, if the command is one.\<close>

definition rash_stage_resolve_simple ::
  "'w exec_ports \<Rightarrow> cstring list \<Rightarrow> 32 word \<Rightarrow> 'w senv \<Rightarrow> cstring list \<times> 32 word \<times> command option" where
  "rash_stage_resolve_simple pt ws flags e =
     (let func = (if has_flag flags CMD_NO_FUNCTIONS then None else shell_functions e (hd ws))
      in if func = None then (case strip_command pt e ws flags of (ws', flags') \<Rightarrow> (ws', flags', None))
         else (ws, flags, func))"

text \<open>The start of \<open>rash_stage_dispatch_simple\<close>: where the command goes, after the dispatch hooks.\<close>

definition choose_target ::
  "'w exec_ports \<Rightarrow> cstring list \<Rightarrow> command option \<Rightarrow> ('w, target) envop" where
  "choose_target pt ws func e =
     (case choose_dispatch pt ws (func \<noteq> None) e of
        (Inl j, e') \<Rightarrow> (Inl j, e')
      | (Inr (denied, force_disk, prefer_builtin), e') \<Rightarrow>
          if denied then (Inr Denied, e'\<lparr>last_command_exit_value := EXECUTION_FAILURE\<rparr>)
          else
            (let func' = (if force_disk \<or> prefer_builtin then None else func)
             in (Inr (case func' of
                    Some c \<Rightarrow> Function c
                  | None \<Rightarrow> if \<not> force_disk \<and> find_shell_builtin pt (hd ws) e' then Builtin else Disk), e')))"

text \<open>\<open>execute_null_command\<close>; redirections of standard input or to a variable are made in a child.\<close>

definition execute_null_command :: "'w exec_ports \<Rightarrow> redirect list \<Rightarrow> ('w sstate, int) run" where
  "execute_null_command pt redirs b =
     (case fork_null_command pt redirs (env b) of
        Some (r, e) \<Rightarrow> xret r (b\<lparr>env := e\<rparr>)
      | None \<Rightarrow>
          xbind (env_op (do_redirections pt redirs)) (\<lambda>ok b.
            xret (if \<not> ok then EXECUTION_FAILURE
                  else (case comsub_status pt (env b) of Some r \<Rightarrow> r | None \<Rightarrow> EXECUTION_SUCCESS))
                 (upd_world (cleanup_redirects pt redirs) b)) b)"

text \<open>\<open>execute_simple_command\<close> up to the dispatch: a status, or what to dispatch. The output is
  captured from here on when a hook after the command wants it.\<close>

definition simple_prepare ::
  "'w exec_ports \<Rightarrow> 32 word \<Rightarrow> word_list \<Rightarrow> redirect list \<Rightarrow>
     ('w sstate, int + (bool \<times> cstring list \<times> 32 word \<times> target)) run" where
  "simple_prepare pt flags ws redirs =
     xbind (env_op (expand_words pt ws flags)) (\<lambda>words.
       if words = [] then xbind (execute_null_command pt redirs) (\<lambda>r. xret (Inl r))
       else xbind (env_op (before_simple pt words)) (\<lambda>denied b.
         if denied then xret (Inl EXECUTION_FAILURE) (set_status EXECUTION_FAILURE b)
         else
           (let capture_stdio = want_stdio_capture pt (env b);
                b1 = (if capture_stdio then upd_world (begin_capture pt) b else b)
            in case rash_stage_resolve_simple pt words flags (env b1) of
                 (words', flags', func) \<Rightarrow>
                   xbind (env_op (choose_target pt words' func)) (\<lambda>t. xret (Inr (capture_stdio, words', flags', t))) b1)))"

text \<open>The end of \<open>execute_simple_command\<close>: the capture ends and the hooks after the command run.\<close>

definition simple_finish :: "'w exec_ports \<Rightarrow> bool \<Rightarrow> cstring list \<Rightarrow> int \<Rightarrow> ('w sstate, int) run" where
  "simple_finish pt capture_stdio words r b =
     (let b1 = (if capture_stdio then upd_world (end_capture pt) b else b)
      in xret r (upd_env (after_simple pt words r) b1))"

text \<open>The status of a builtin and of a function as a command; None is the fallback to a program.\<close>

definition dispatched_status :: "target \<Rightarrow> int \<Rightarrow> int option" where
  "dispatched_status t r =
     (if t = Builtin then
        (if r = EX_DISKFALLBACK then None else Some (if r > EX_SHERRBASE then builtin_status r else r))
      else Some (if r = EX_USAGE then EX_BADUSAGE else if r > EX_SHERRBASE then builtin_status r else r))"

text \<open>The redirections of a builtin or a function are undone at its end, also when a jump leaves it;
  those of \<open>exec\<close> without a command stay.\<close>

definition undo_simple :: "'w exec_ports \<Rightarrow> cstring list \<Rightarrow> redirect list \<Rightarrow> 'w sstate \<Rightarrow> 'w sstate" where
  "undo_simple pt words redirs b =
     (if words = [''exec''] then b else upd_world (cleanup_redirects pt redirs) b)"

section \<open>Functions and builtins\<close>

text \<open>\<open>execute_function\<close>, before and after the body. The function's loops are its own: \<open>loop_level\<close>
  starts at 0 and the unwind-protect frame puts the caller's back.\<close>

definition function_entry :: "'w exec_ports \<Rightarrow> cstring list \<Rightarrow> 'w sstate \<Rightarrow> 'w sstate" where
  "function_entry pt words b =
     (upd_world (enter_function pt (hd words) (tl words)) b)
       \<lparr>loop_level := 0, funcnest := funcnest b + 1, return_catch_flag := return_catch_flag b + 1\<rparr>"

definition function_exit :: "'w exec_ports \<Rightarrow> 'w sstate \<Rightarrow> 'w sstate \<Rightarrow> 'w sstate" where
  "function_exit pt caller b =
     (upd_world (leave_function pt) b)
       \<lparr>loop_level := loop_level caller, funcnest := funcnest caller, return_catch_flag := return_catch_flag caller\<rparr>"

definition catch_return :: "('s, int) run \<Rightarrow> ('s, int) run" where
  "catch_return m s =
     (case m s of Some (Inl (Return_catch v), s') \<Rightarrow> Some (Inr v, s') | out \<Rightarrow> out)"

text \<open>The nesting limit and the gate of the hooks; Inr False when a hook denies.\<close>

definition function_gate :: "'w exec_ports \<Rightarrow> cstring list \<Rightarrow> ('w sstate, bool) run" where
  "function_gate pt words b =
     (if 0 < funcnest_max pt (env b) \<and> funcnest_max pt (env b) \<le> funcnest b then xjump Jump_DISCARD (b\<lparr>funcnest := 0\<rparr>)
      else xbind (env_op (on_function pt (hd words) (tl words))) (\<lambda>denied. xret (\<not> denied)) b)"

definition execute_function ::
  "'w exec_ports \<Rightarrow> (command option \<Rightarrow> ('w xstate, int) run) \<Rightarrow> command \<Rightarrow> cstring list \<Rightarrow> 32 word \<Rightarrow> ('w xstate, int) run" where
  "execute_function pt rec body words flags =
     xbind (on_base (function_gate pt words)) (\<lambda>go_on s.
       if \<not> go_on then xret EXECUTION_FAILURE s
       else catch_return
              (unwinding (base_mod (function_exit pt (base s)))
                (rec (ignoring (has_flag flags CMD_IGNORE_RETURN) (Some body))))
              (base_mod (function_entry pt words) s))"

definition execute_builtin :: "'w exec_ports \<Rightarrow> cstring list \<Rightarrow> 32 word \<Rightarrow> ('w xstate, int) run" where
  "execute_builtin pt words flags =
     xbind (on_base (env_op (on_builtin pt words))) (\<lambda>denied.
       if denied then xret EXECUTION_FAILURE
       else if hd words = ''break'' then break_builtin pt (tl words)
       else if hd words = ''continue'' then continue_builtin pt (tl words)
       else if hd words = ''return'' then on_base (return_builtin (tl words))
       else on_base (env_op (run_builtin pt words flags)))"

definition execute_builtin_or_function ::
  "'w exec_ports \<Rightarrow> (command option \<Rightarrow> ('w xstate, int) run) \<Rightarrow> cstring list \<Rightarrow> 32 word \<Rightarrow> target \<Rightarrow> redirect list \<Rightarrow> ('w xstate, int) run" where
  "execute_builtin_or_function pt rec words flags t redirs =
     xbind (on_base (env_op (apply_simple_redirects pt redirs))) (\<lambda>ok.
       if \<not> ok then xret EX_REDIRFAIL
       else unwinding (base_mod (undo_simple pt words redirs))
              (case t of
                 Function body \<Rightarrow> execute_function pt rec body words flags
               | _ \<Rightarrow> execute_builtin pt words flags))"

definition rash_stage_dispatch_simple ::
  "'w exec_ports \<Rightarrow> (command option \<Rightarrow> ('w xstate, int) run) \<Rightarrow> cstring list \<Rightarrow> 32 word \<Rightarrow> target \<Rightarrow> redirect list \<Rightarrow> ('w xstate, int) run" where
  "rash_stage_dispatch_simple pt rec words flags t redirs =
     (if t = Denied then xret EXECUTION_FAILURE
      else if t = Disk then on_base (env_op (execute_disk_command pt words redirs flags))
      else xbind (execute_builtin_or_function pt rec words flags t redirs) (\<lambda>r.
             case dispatched_status t r of
               Some v \<Rightarrow> xret v
             | None \<Rightarrow> on_base (env_op (execute_disk_command pt words redirs flags))))"

definition execute_simple_command ::
  "'w exec_ports \<Rightarrow> (command option \<Rightarrow> ('w xstate, int) run) \<Rightarrow> 32 word \<Rightarrow> word_list \<Rightarrow> redirect list \<Rightarrow> ('w xstate, int) run" where
  "execute_simple_command pt rec flags ws redirs =
     xbind (on_base (simple_prepare pt flags ws redirs)) (\<lambda>plan.
       case plan of
         Inl r \<Rightarrow> xret r
       | Inr (capture_stdio, words, flags', t) \<Rightarrow>
           xbind (rash_stage_dispatch_simple pt rec words flags' t redirs) (\<lambda>r. on_base (simple_finish pt capture_stdio words r)))"

section \<open>Loops\<close>

text \<open>The loops take a bound on the number of rounds; None is that it was reached.\<close>

definition enter_loop :: "'w sstate \<Rightarrow> 'w sstate" where
  "enter_loop b = b\<lparr>loop_level := loop_level b + 1\<rparr>"

definition leave_loop :: "'w sstate \<Rightarrow> 'w sstate" where
  "leave_loop b = b\<lparr>loop_level := loop_level b - 1\<rparr>"

definition in_loop :: "('w xstate, int) run \<Rightarrow> ('w xstate, int) run" where
  "in_loop m s = xbind m (\<lambda>r s. xret r (base_mod leave_loop s)) (base_mod enter_loop s)"

text \<open>After the body: whether \<open>break\<close> or \<open>continue\<close> ends the loop.\<close>

definition loop_control :: "('w xstate, bool) run" where
  "loop_control s =
     (if breaking s \<noteq> 0 then xret True (s\<lparr>breaking := breaking s - 1\<rparr>)
      else if continuing s \<noteq> 0 then xret (continuing s \<noteq> 1) (s\<lparr>continuing := continuing s - 1\<rparr>)
      else xret False s)"

primrec for_loop ::
  "'w exec_ports \<Rightarrow> (command option \<Rightarrow> ('w xstate, int) run) \<Rightarrow> cstring \<Rightarrow> command option \<Rightarrow> cstring list \<Rightarrow> int \<Rightarrow> ('w xstate, int) run" where
  "for_loop pt rec name action [] retval = xret retval"
| "for_loop pt rec name action (w # ws) retval =
     xbind (on_base (env_op (bind_loop_variable pt name w))) (\<lambda>ok.
       if \<not> ok then xret EXECUTION_FAILURE
       else xbind (rec action) (\<lambda>r. xbind loop_control (\<lambda>leave.
              if leave then xret r else for_loop pt rec name action ws r)))"

definition check_identifier :: "word_desc \<Rightarrow> bool \<Rightarrow> bool" where
  "check_identifier w check_word =
     (let s = (case w_word w of None \<Rightarrow> [] | Some s \<Rightarrow> s)
      in if w_flags w AND (W_HASDOLLAR OR W_QUOTED) \<noteq> 0 then False
         else if check_word \<and> (all_digits s \<or> \<not> valid_identifier s) then False
         else True)"

definition loop_name :: "word_desc option \<Rightarrow> cstring option" where
  "loop_name w = (case w of None \<Rightarrow> None | Some d \<Rightarrow> if check_identifier d True then w_word d else None)"

definition execute_for_command ::
  "'w exec_ports \<Rightarrow> (command option \<Rightarrow> ('w xstate, int) run) \<Rightarrow> 32 word \<Rightarrow> word_desc option \<Rightarrow> word_list \<Rightarrow> command option \<Rightarrow> ('w xstate, int) run" where
  "execute_for_command pt rec flags name ws action =
     (case loop_name name of
        None \<Rightarrow> xret EXECUTION_FAILURE
      | Some x \<Rightarrow> in_loop (xbind (on_base (env_op (expand_words_no_vars pt ws))) (\<lambda>words.
          for_loop pt rec x (ignoring (has_flag flags CMD_IGNORE_RETURN) action) words EXECUTION_SUCCESS)))"

primrec select_loop ::
  "nat \<Rightarrow> 'w exec_ports \<Rightarrow> (command option \<Rightarrow> ('w xstate, int) run) \<Rightarrow> cstring \<Rightarrow> command option \<Rightarrow> cstring list \<Rightarrow> ('w xstate, int) run" where
  "select_loop 0 pt rec name action ws = (\<lambda>s. None)"
| "select_loop (Suc k) pt rec name action ws =
     xbind (on_base (env_op (select_query pt ws))) (\<lambda>selection.
       case selection of
         None \<Rightarrow> xret EXECUTION_FAILURE
       | Some w \<Rightarrow> xbind (on_base (env_op (bind_loop_variable pt name w))) (\<lambda>ok.
           if \<not> ok then xret EXECUTION_FAILURE
           else xbind (rec action) (\<lambda>r. xbind loop_control (\<lambda>leave.
                  if leave then xret r else select_loop k pt rec name action ws))))"

text \<open>An empty list of words returns from within the loop's own level.\<close>

definition execute_select_command ::
  "nat \<Rightarrow> 'w exec_ports \<Rightarrow> (command option \<Rightarrow> ('w xstate, int) run) \<Rightarrow> 32 word \<Rightarrow> word_desc option \<Rightarrow> word_list \<Rightarrow> command option \<Rightarrow> ('w xstate, int) run" where
  "execute_select_command k pt rec flags name ws action =
     (case loop_name name of
        None \<Rightarrow> xret EXECUTION_FAILURE
      | Some x \<Rightarrow> (\<lambda>s. xbind (on_base (env_op (expand_words_no_vars pt ws))) (\<lambda>words.
          if words = [] then xret EXECUTION_SUCCESS
          else xbind (select_loop k pt rec x (ignoring (has_flag flags CMD_IGNORE_RETURN) action) words)
                 (\<lambda>r s. xret r (base_mod leave_loop s))) (base_mod enter_loop s)))"

primrec while_loop ::
  "nat \<Rightarrow> (command option \<Rightarrow> ('w xstate, int) run) \<Rightarrow> bool \<Rightarrow> command option \<Rightarrow> command option \<Rightarrow> int \<Rightarrow> ('w xstate, int) run" where
  "while_loop 0 rec until test action body_status = (\<lambda>s. None)"
| "while_loop (Suc k) rec until test action body_status =
     xbind (rec test) (\<lambda>return_value.
       if (return_value = EXECUTION_SUCCESS) = until then
         (\<lambda>s. xret body_status (s\<lparr>breaking := breaking s - 1, continuing := continuing s - 1\<rparr>))
       else xbind (rec action) (\<lambda>r. xbind loop_control (\<lambda>leave.
              if leave then xret r else while_loop k rec until test action r)))"

definition execute_while_or_until ::
  "nat \<Rightarrow> (command option \<Rightarrow> ('w xstate, int) run) \<Rightarrow> bool \<Rightarrow> 32 word \<Rightarrow> command option \<Rightarrow> command option \<Rightarrow> ('w xstate, int) run" where
  "execute_while_or_until k rec until flags test action =
     in_loop (while_loop k rec until (ignoring True test)
                (ignoring (has_flag flags CMD_IGNORE_RETURN) action) EXECUTION_SUCCESS)"

primrec arith_for_loop ::
  "nat \<Rightarrow> 'w exec_ports \<Rightarrow> (command option \<Rightarrow> ('w xstate, int) run) \<Rightarrow> word_list \<Rightarrow> word_list \<Rightarrow> command option \<Rightarrow> int \<Rightarrow> ('w xstate, int) run" where
  "arith_for_loop 0 pt rec test step action body_status = (\<lambda>s. None)"
| "arith_for_loop (Suc k) pt rec test step action body_status =
     xbind (on_base (env_op (eval_arith_for_expr pt test))) (\<lambda>v. xbind loop_control (\<lambda>leave.
       case v of
         None \<Rightarrow> xret EXECUTION_FAILURE
       | Some x \<Rightarrow>
           if leave \<or> x = 0 then xret body_status
           else xbind (rec action) (\<lambda>r. xbind loop_control (\<lambda>leave.
                  if leave then xret r
                  else xbind (on_base (env_op (eval_arith_for_expr pt step))) (\<lambda>v.
                         case v of
                           None \<Rightarrow> xret EXECUTION_FAILURE
                         | Some _ \<Rightarrow> arith_for_loop k pt rec test step action r)))))"

definition execute_arith_for_command ::
  "nat \<Rightarrow> 'w exec_ports \<Rightarrow> (command option \<Rightarrow> ('w xstate, int) run) \<Rightarrow> 32 word \<Rightarrow> word_list \<Rightarrow> word_list \<Rightarrow> word_list \<Rightarrow>
     command option \<Rightarrow> ('w xstate, int) run" where
  "execute_arith_for_command k pt rec flags init test step action =
     in_loop (xbind (on_base (env_op (eval_arith_for_expr pt init))) (\<lambda>v.
       case v of
         None \<Rightarrow> xret EXECUTION_FAILURE
       | Some _ \<Rightarrow> arith_for_loop k pt rec test step
                     (ignoring (has_flag flags CMD_IGNORE_RETURN) action) EXECUTION_SUCCESS))"

section \<open>Conditionals and lists\<close>

definition execute_if_command ::
  "(command option \<Rightarrow> ('w xstate, int) run) \<Rightarrow> 32 word \<Rightarrow> command option \<Rightarrow> command option \<Rightarrow> command option \<Rightarrow> ('w xstate, int) run" where
  "execute_if_command rec flags test true_case false_case =
     xbind (rec (ignoring True test)) (\<lambda>return_value.
       rec (ignoring (has_flag flags CMD_IGNORE_RETURN)
              (if return_value = EXECUTION_SUCCESS then true_case else false_case)))"

definition CASEPAT_FALLTHROUGH :: "32 word" where "CASEPAT_FALLTHROUGH = 0x01"
definition CASEPAT_TESTNEXT :: "32 word" where "CASEPAT_TESTNEXT = 0x02"

primrec match_patterns :: "'w exec_ports \<Rightarrow> word_list \<Rightarrow> cstring \<Rightarrow> ('w sstate, bool) run" where
  "match_patterns pt [] subj = xret False"
| "match_patterns pt (p # ps) subj =
     xbind (env_op (case_match pt p subj)) (\<lambda>m. if m then xret True else match_patterns pt ps subj)"

text \<open>The clauses from one on; \<open>matched\<close> when the clause before falls through to this one.\<close>

primrec case_loop ::
  "'w exec_ports \<Rightarrow> (command option \<Rightarrow> ('w xstate, int) run) \<Rightarrow> bool \<Rightarrow> cstring \<Rightarrow> bool \<Rightarrow>
     (word_list \<times> command option \<times> 32 word) list \<Rightarrow> int \<Rightarrow> ('w xstate, int) run" where
  "case_loop pt rec ignore_return subj matched [] retval = xret retval"
| "case_loop pt rec ignore_return subj matched (clause # clauses) retval =
     xbind (if matched then xret True else on_base (match_patterns pt (fst clause) subj)) (\<lambda>m.
       if m then
         xbind (rec (ignoring ignore_return (fst (snd clause)))) (\<lambda>r.
           if has_flag (snd (snd clause)) CASEPAT_FALLTHROUGH then case_loop pt rec ignore_return subj True clauses r
           else if has_flag (snd (snd clause)) CASEPAT_TESTNEXT then case_loop pt rec ignore_return subj False clauses r
           else xret r)
       else case_loop pt rec ignore_return subj False clauses retval)"

definition execute_case_command ::
  "'w exec_ports \<Rightarrow> (command option \<Rightarrow> ('w xstate, int) run) \<Rightarrow> 32 word \<Rightarrow> word_desc option \<Rightarrow>
     (word_list \<times> command option \<times> 32 word) list \<Rightarrow> ('w xstate, int) run" where
  "execute_case_command pt rec flags word clauses =
     xbind (on_base (env_op (case_subject pt word))) (\<lambda>subj.
       case_loop pt rec (has_flag flags CMD_IGNORE_RETURN) subj False clauses EXECUTION_SUCCESS)"

definition AND_AND :: int where "AND_AND = 288"
definition OR_OR :: int where "OR_OR = 289"

text \<open>\<open>execute_connection\<close> in the foreground. The left side of \<open>&\<close> is started in a child.\<close>

definition execute_connection ::
  "'w exec_ports \<Rightarrow> (command option \<Rightarrow> ('w xstate, int) run) \<Rightarrow> command \<Rightarrow> bool \<Rightarrow> bool \<Rightarrow>
     command option \<Rightarrow> command option \<Rightarrow> int \<Rightarrow> ('w xstate, int) run" where
  "execute_connection pt rec self ignore_return invert first second connector =
     (if connector = of_char (CHR ''&'') then
        (case ignoring ignore_return first of
           None \<Rightarrow> xret EXECUTION_SUCCESS
         | Some tc \<Rightarrow>
             xbind (on_base (env_op (run_async pt tc))) (\<lambda>r.
               if second = None then xret r else rec (ignoring ignore_return second)))
      else if connector = of_char (CHR '';'') \<or> connector = of_char (CHR 0x0A) then
        xbind (rec (ignoring (ignore_return \<or> invert) first))
          (\<lambda>_. rec (ignoring (ignore_return \<or> invert) second))
      else if connector = PIPE_CONNECTOR then
        (\<lambda>s. xbind (on_base (env_op (execute_pipeline pt self)))
               (\<lambda>r. on_base (env_op (command_failed pt (error_trapped pt (env (base s))) ignore_return invert r))) s)
      else if connector = AND_AND \<or> connector = OR_OR then
        xbind (rec (ignoring True first)) (\<lambda>r.
          if (r = EXECUTION_SUCCESS) = (connector = AND_AND) then rec (ignoring ignore_return second) else xret r)
      else xjump Jump_DISCARD)"

section \<open>Other commands\<close>

definition execute_arith_command :: "'w exec_ports \<Rightarrow> word_list \<Rightarrow> ('w sstate, int) run" where
  "execute_arith_command pt expr =
     xbind (env_op (eval_arith_for_expr pt expr)) (\<lambda>v.
       xret (if v = None \<or> v = Some 0 then EXECUTION_FAILURE else EXECUTION_SUCCESS))"

definition COND_AND :: int where "COND_AND = 1"
definition COND_OR :: int where "COND_OR = 2"
definition COND_UNARY :: int where "COND_UNARY = 3"
definition COND_BINARY :: int where "COND_BINARY = 4"
definition COND_EXPR :: int where "COND_EXPR = 6"

text \<open>\<open>execute_cond_node\<close>; \<open>ignore\<close> is CMD_IGNORE_RETURN, which a node hands down.\<close>

fun execute_cond_node :: "'w exec_ports \<Rightarrow> bool \<Rightarrow> cond_com option \<Rightarrow> ('w sstate, int) run" where
  "execute_cond_node pt ignore None = xjump Jump_DISCARD"
| "execute_cond_node pt ignore (Some (Cond_com flags line ty oper left right)) =
     (let ign = (ignore \<or> has_flag flags CMD_IGNORE_RETURN)
      in xbind
          (if ty = COND_EXPR then execute_cond_node pt ign left
           else if ty = COND_OR then
             xbind (execute_cond_node pt ign left) (\<lambda>r.
               if r \<noteq> EXECUTION_SUCCESS then execute_cond_node pt ign right else xret r)
           else if ty = COND_AND then
             xbind (execute_cond_node pt ign left) (\<lambda>r.
               if r = EXECUTION_SUCCESS then execute_cond_node pt ign right else xret r)
           else if ty = COND_UNARY \<or> ty = COND_BINARY then
             env_op (cond_term pt ign (Cond_com flags line ty oper left right))
           else xjump Jump_DISCARD)
          (\<lambda>r. xret (invert_status (has_flag flags CMD_INVERT_RETURN) r)))"

definition execute_cond_command :: "'w exec_ports \<Rightarrow> bool \<Rightarrow> cond_com \<Rightarrow> ('w sstate, int) run" where
  "execute_cond_command pt ignore cond =
     xbind (execute_cond_node pt ignore (Some cond)) (\<lambda>r b. xret r (set_status r b))"

definition execute_intern_function :: "'w exec_ports \<Rightarrow> word_desc option \<Rightarrow> command option \<Rightarrow> ('w sstate, int) run" where
  "execute_intern_function pt name body b =
     (case (name, body) of
        (Some d, Some c) \<Rightarrow>
          (case w_word d of
             None \<Rightarrow> xret EXECUTION_FAILURE b
           | Some f \<Rightarrow>
               if w_flags d AND (W_HASDOLLAR OR W_QUOTED) \<noteq> 0 then xret EXECUTION_FAILURE b
               else if shell_functions (env b) f \<noteq> None \<and> function_readonly pt f (world (env b)) then xret EXECUTION_FAILURE b
               else xret EXECUTION_SUCCESS (upd_env (\<lambda>e. e\<lparr>shell_functions := (shell_functions e)(f \<mapsto> c)\<rparr>) b))
      | _ \<Rightarrow> xret EXECUTION_FAILURE b)"

section \<open>Commands\<close>

text \<open>The cases of the switch in \<open>execute_command_internal\<close>, with the ERR trap and \<open>set -e\<close> where they
  follow a command. \<open>n\<close> bounds the rounds of a loop.\<close>

definition execute_switch ::
  "'w exec_ports \<Rightarrow> nat \<Rightarrow> (command option \<Rightarrow> ('w xstate, int) run) \<Rightarrow> command \<Rightarrow> bool \<Rightarrow> bool \<Rightarrow> ('w xstate, int) run" where
  "execute_switch pt n rec self ignore_return invert s =
     (let was_error_trap = error_trapped pt (env (base s));
          ig = ignore_bit (ignore_return \<or> invert)
      in case cmd_value self of
           Simple flags line ws redirs \<Rightarrow>
             xbind (execute_simple_command pt rec (ig flags) ws redirs) (\<lambda>r.
               on_base (env_op (command_failed pt (was_error_trap \<and> \<not> has_flag flags CMD_COMMAND_BUILTIN)
                 ignore_return invert r))) s
         | For_com flags line name ws action \<Rightarrow> execute_for_command pt rec (ig flags) name ws action s
         | Arith_for_com flags line init test step action \<Rightarrow>
             execute_arith_for_command n pt rec (ig flags) init test step action s
         | Select_com flags line name ws action \<Rightarrow> execute_select_command n pt rec (ig flags) name ws action s
         | Case_com flags line word clauses \<Rightarrow> execute_case_command pt rec (ig flags) word clauses s
         | While_com flags test action \<Rightarrow> execute_while_or_until n rec False (ig flags) test action s
         | Until_com flags test action \<Rightarrow> execute_while_or_until n rec True (ig flags) test action s
         | If_com flags test true_case false_case \<Rightarrow> execute_if_command rec (ig flags) test true_case false_case s
         | Group_com c \<Rightarrow> rec (ignoring (ignore_return \<or> invert) c) s
         | Connection first second connector \<Rightarrow>
             execute_connection pt rec self ignore_return invert first second connector s
         | Arith_com flags line expr \<Rightarrow>
             xbind (on_base (execute_arith_command pt expr)) (\<lambda>r.
               on_base (env_op (command_failed pt was_error_trap ignore_return invert r))) s
         | Cond_command cond \<Rightarrow>
             xbind (on_base (execute_cond_command pt ignore_return cond)) (\<lambda>r.
               on_base (env_op (command_failed pt was_error_trap ignore_return invert r))) s
         | Function_def flags line name body src \<Rightarrow>
             xbind (on_base (execute_intern_function pt name body)) (\<lambda>r.
               on_base (env_op (command_failed pt was_error_trap ignore_return invert r))) s
         | Subshell_com flags line c \<Rightarrow> xret EXECUTION_SUCCESS s
         | Coproc_com flags nm c \<Rightarrow> xret EXECUTION_SUCCESS s)"

text \<open>A command that runs in a child, and its status in the parent.\<close>

definition execute_forked :: "'w exec_ports \<Rightarrow> command \<Rightarrow> bool \<Rightarrow> bool \<Rightarrow> bool \<Rightarrow> ('w sstate, int) run" where
  "execute_forked pt self user_subshell ignore_return invert b =
     xbind (env_op (run_in_child pt self)) (\<lambda>r b1.
       (let r' = invert_status invert r; b2 = set_status r' b1
        in if user_subshell then
             env_op (command_failed pt (error_trapped pt (env b)) ignore_return invert r') b2
           else xret r' b2)) b"

text \<open>The part of \<open>execute_command_internal\<close> after the redirections of a compound command.\<close>

definition finish_command :: "bool \<Rightarrow> int \<Rightarrow> ('w sstate, int) run" where
  "finish_command invert r b = (let r' = invert_status invert r in xret r' (set_status r' b))"

definition redirection_failed :: "'w exec_ports \<Rightarrow> bool \<Rightarrow> bool \<Rightarrow> bool \<Rightarrow> ('w sstate, int) run" where
  "redirection_failed pt was_error_trap ignore_return invert b =
     env_op (command_failed pt was_error_trap ignore_return invert EXECUTION_FAILURE) (set_status EXECUTION_FAILURE b)"

definition command_body ::
  "'w exec_ports \<Rightarrow> nat \<Rightarrow> (command option \<Rightarrow> ('w xstate, int) run) \<Rightarrow> command \<Rightarrow> ('w xstate, int) run" where
  "command_body pt n rec c s =
     (let invert = has_flag (cmd_flags c) CMD_INVERT_RETURN;
          flags = (if exit_immediately_on_error pt (env (base s)) \<and> invert
                   then cmd_flags c OR CMD_IGNORE_RETURN else cmd_flags c);
          self = Command flags (cmd_line c) (cmd_redirects c) (cmd_value c);
          ignore_return = has_flag flags CMD_IGNORE_RETURN;
          subshell = (case cmd_value c of Subshell_com _ _ _ \<Rightarrow> True | _ \<Rightarrow> False);
          coproc = (case cmd_value c of Coproc_com _ _ _ \<Rightarrow> True | _ \<Rightarrow> False)
      in if coproc then on_base (xbind (env_op (run_coproc pt self)) (\<lambda>r b. xret r (set_status r b))) s
         else if subshell \<or> has_flag flags (CMD_WANT_SUBSHELL OR CMD_FORCE_SUBSHELL) then
           on_base (execute_forked pt self (subshell \<or> has_flag flags CMD_WANT_SUBSHELL) ignore_return invert) s
         else if has_flag flags CMD_TIME_PIPELINE then
           unwinding (base_mod (upd_world (print_times pt)))
             (rec (Some (Command (flags AND NOT (CMD_TIME_PIPELINE OR CMD_TIME_POSIX)) (cmd_line c) (cmd_redirects c) (cmd_value c)))) s
         else
           xbind (on_base (env_op (do_redirections pt (cmd_redirects c)))) (\<lambda>ok s1.
             if \<not> ok then
               on_base (redirection_failed pt (error_trapped pt (env (base s))) ignore_return invert)
                 (base_mod (upd_world (cleanup_redirects pt (cmd_redirects c))) s1)
             else
               xbind (unwinding (base_mod (upd_world (cleanup_redirects pt (cmd_redirects c))))
                       (execute_switch pt n rec self ignore_return invert))
                 (\<lambda>r. on_base (finish_command invert r)) s1) s)"

definition execute_command_internal ::
  "'w exec_ports \<Rightarrow> (command \<Rightarrow> ('w xstate, int) run) \<Rightarrow> command option \<Rightarrow> ('w xstate, int) run" where
  "execute_command_internal pt body c s =
     (if breaking s \<noteq> 0 \<or> continuing s \<noteq> 0 \<or> read_but_dont_execute pt (env (base s)) then
        xret (last_command_exit_value (env (base s))) s
      else (case c of None \<Rightarrow> xret EXECUTION_SUCCESS s | Some c \<Rightarrow> body c s))"

text \<open>\<open>n\<close> bounds the nesting of commands and of function calls.\<close>

primrec execute :: "'w exec_ports \<Rightarrow> nat \<Rightarrow> command option \<Rightarrow> ('w xstate, int) run" where
  "execute pt 0 = execute_command_internal pt (\<lambda>c s. None)"
| "execute pt (Suc n) = execute_command_internal pt (command_body pt n (execute pt n))"

end
