(* ===== verification/Exec_Errexit.thy ===== *)
theory Exec_Errexit
  imports Exec_Control
begin

text \<open>
  \<open>set -e\<close> and the contexts that keep it off (execute_cmd.c). The code marks the test of an \<open>if\<close> or
  of a loop, the left side of \<open>&&\<close> and \<open>||\<close> and the operand of \<open>!\<close> with CMD_IGNORE_RETURN before
  it executes them, and each construct hands the mark on to the commands in it. The theorem is that
  the mark reaches every place where the shell would exit: the body of a function called there, the
  branches of a nested \<open>case\<close>, the words of a nested loop.
\<close>

section \<open>Runs that do not end by set -e\<close>

definition calm :: "('s, 'v) run \<Rightarrow> bool" where
  "calm m \<longleftrightarrow> (\<forall>s s'. m s \<noteq> Some (Inl Jump_ERREXIT, s'))"

definition calm_op :: "('w, 'v) envop \<Rightarrow> bool" where
  "calm_op f \<longleftrightarrow> (\<forall>e. fst (f e) \<noteq> Inl Jump_ERREXIT)"

named_theorems calm_rules

lemma calmD: "calm m \<Longrightarrow> m s \<noteq> Some (Inl Jump_ERREXIT, s')"
  by (simp add: calm_def)

lemma calm_xret [calm_rules]: "calm (xret v)"
  by (simp add: calm_def xret_def)

lemma calm_xjump [calm_rules]: "j \<noteq> Jump_ERREXIT \<Longrightarrow> calm (xjump j)"
  by (simp add: calm_def xjump_def)

lemma calm_none [calm_rules]: "calm (\<lambda>s. None)"
  by (simp add: calm_def)

lemma calm_xbind [calm_rules]: "calm m \<Longrightarrow> (\<And>v. calm (f v)) \<Longrightarrow> calm (xbind m f)"
  by (auto simp: calm_def xbind_def split: option.splits prod.splits sum.splits)

lemma calm_unwinding [calm_rules]: "calm m \<Longrightarrow> calm (unwinding f m)"
  by (auto simp: calm_def unwinding_def)

lemma calm_env_op [calm_rules]: "calm_op f \<Longrightarrow> calm (env_op f)"
  by (auto simp: calm_def calm_op_def env_op_def split: prod.splits) (metis fst_conv)

lemma calm_on_base [calm_rules]: "calm m \<Longrightarrow> calm (on_base m)"
  by (auto simp: calm_def on_base_def)

lemma calm_in_loop [calm_rules]: "calm m \<Longrightarrow> calm (in_loop m)"
  using calm_xbind [of m "\<lambda>r s. xret r (base_mod leave_loop s)"]
  by (auto simp: calm_def in_loop_def xret_def)

lemma calm_catch_return [calm_rules]: "calm m \<Longrightarrow> calm (catch_return m)"
  by (auto simp: calm_def catch_return_def split: option.splits prod.splits sum.splits jump.splits)

lemma calm_if [calm_rules]: "(P \<Longrightarrow> calm m) \<Longrightarrow> (\<not> P \<Longrightarrow> calm m') \<Longrightarrow> calm (if P then m else m')"
  by simp

lemma calm_if_at [calm_rules]: "calm m \<Longrightarrow> calm m' \<Longrightarrow> calm (\<lambda>s. if P s then m s else m' s)"
  by (simp add: calm_def)

lemma calm_loop_control [calm_rules]: "calm loop_control"
  by (simp add: calm_def loop_control_def xret_def)

lemma calm_op_if [calm_rules]: "(P \<Longrightarrow> calm_op f) \<Longrightarrow> (\<not> P \<Longrightarrow> calm_op g) \<Longrightarrow> calm_op (if P then f else g)"
  by simp

text \<open>What the ports are trusted with: a builtin, a pipeline and a program that is told to ignore its
  status does not end the shell by \<open>set -e\<close>, and the other ports never do.\<close>

definition calm_ports :: "'w exec_ports \<Rightarrow> bool" where
  "calm_ports pt \<longleftrightarrow>
     (\<forall>ws f. calm_op (expand_words pt ws f)) \<and> (\<forall>ws. calm_op (expand_words_no_vars pt ws)) \<and>
     (\<forall>x v. calm_op (bind_loop_variable pt x v)) \<and> (\<forall>ws. calm_op (select_query pt ws)) \<and>
     (\<forall>ws. calm_op (eval_arith_for_expr pt ws)) \<and> (\<forall>w. calm_op (case_subject pt w)) \<and>
     (\<forall>w x. calm_op (case_match pt w x)) \<and> (\<forall>i c. calm_op (cond_term pt i c)) \<and>
     (\<forall>rs. calm_op (do_redirections pt rs)) \<and> (\<forall>rs. calm_op (apply_simple_redirects pt rs)) \<and>
     (\<forall>ws. calm_op (before_simple pt ws)) \<and> (\<forall>ws f. calm_op (choose_dispatch pt ws f)) \<and>
     (\<forall>ws. calm_op (on_builtin pt ws)) \<and> (\<forall>f ws. calm_op (on_function pt f ws)) \<and>
     (\<forall>ws f. has_flag f CMD_IGNORE_RETURN \<longrightarrow> calm_op (run_builtin pt ws f)) \<and>
     (\<forall>ws rs f. has_flag f CMD_IGNORE_RETURN \<longrightarrow> calm_op (execute_disk_command pt ws rs f)) \<and>
     (\<forall>c. calm_op (run_in_child pt c)) \<and> (\<forall>c. calm_op (run_coproc pt c)) \<and> (\<forall>c. calm_op (run_async pt c)) \<and>
     (\<forall>c. has_flag (cmd_flags c) CMD_IGNORE_RETURN \<longrightarrow> calm_op (execute_pipeline pt c))"

lemma calm_portsD [calm_rules]:
  assumes "calm_ports pt"
  shows "calm_op (expand_words pt ws f)" "calm_op (expand_words_no_vars pt ws)" "calm_op (bind_loop_variable pt x v)"
    "calm_op (select_query pt vs)" "calm_op (eval_arith_for_expr pt ws)" "calm_op (case_subject pt wd)"
    "calm_op (case_match pt wd x)" "calm_op (cond_term pt i cond)" "calm_op (do_redirections pt rs)"
    "calm_op (apply_simple_redirects pt rs)" "calm_op (before_simple pt vs)" "calm_op (choose_dispatch pt vs is_fun)"
    "calm_op (on_builtin pt vs)" "calm_op (on_function pt x vs)"
    "has_flag f CMD_IGNORE_RETURN \<Longrightarrow> calm_op (run_builtin pt vs f)"
    "has_flag f CMD_IGNORE_RETURN \<Longrightarrow> calm_op (execute_disk_command pt vs rs f)"
    "calm_op (run_in_child pt c)" "calm_op (run_coproc pt c)" "calm_op (run_async pt c)"
    "has_flag (cmd_flags c) CMD_IGNORE_RETURN \<Longrightarrow> calm_op (execute_pipeline pt c)"
  using assms by (simp_all add: calm_ports_def)

text \<open>A command that carries the mark.\<close>

definition spared :: "command option \<Rightarrow> bool" where
  "spared c \<longleftrightarrow> (case c of None \<Rightarrow> True | Some c \<Rightarrow> has_flag (cmd_flags c) CMD_IGNORE_RETURN)"

definition calm_rec :: "(command option \<Rightarrow> ('w xstate, int) run) \<Rightarrow> bool" where
  "calm_rec rec \<longleftrightarrow> (\<forall>c. spared c \<longrightarrow> calm (rec c))"

lemma has_flag_or [simp]: "has_flag (x OR f) g \<longleftrightarrow> has_flag x g \<or> has_flag f g"
  by (simp add: has_flag_def bit.conj_disj_distrib2 or_eq_0_iff)

lemma ignore_return_itself [simp]: "has_flag CMD_IGNORE_RETURN CMD_IGNORE_RETURN"
  by (simp add: has_flag_def CMD_IGNORE_RETURN_def)

lemma spared_ignoring [simp]: "spared (ignoring True c)"
  by (cases c) (simp_all add: spared_def ignoring_def or_flags_def)

lemma spared_None [simp]: "spared None"
  by (simp add: spared_def)

lemma ignore_bit_True [simp]: "has_flag (ignore_bit True flags) CMD_IGNORE_RETURN"
  by (simp add: ignore_bit_def)

lemma calm_recD: "calm_rec rec \<Longrightarrow> spared c \<Longrightarrow> calm (rec c)"
  by (simp add: calm_rec_def)

section \<open>The constructs hand the mark on\<close>

lemma calm_command_failed [calm_rules]: "calm_op (command_failed pt trap True inverted r)"
  by (simp add: calm_op_def command_failed_def)

lemma calm_loop_count [calm_rules]: "calm (loop_count pt args)"
  by (auto simp: calm_def loop_count_def xbind_def xret_def env_op_def get_numeric_arg_def no_args_def
      split: option.splits prod.splits sum.splits list.splits if_splits)

lemma calm_loop_exits [calm_rules]: "calm (break_builtin pt args)" "calm (continue_builtin pt args)"
  unfolding break_builtin_def continue_builtin_def
  using calm_on_base [OF calm_loop_count, of pt args]
  by (auto simp: calm_def xbind_def xret_def split: option.splits prod.splits sum.splits)

lemma calm_return [calm_rules]: "calm (return_builtin args)"
  by (auto simp: calm_def return_builtin_def xbind_def xret_def xjump_def env_op_def get_exitstat_def no_args_def
      split: option.splits prod.splits sum.splits list.splits if_splits)

lemma strip_command_keeps:
  "has_flag flags f \<Longrightarrow> has_flag (snd (strip_command pt e ws flags)) f"
  by (induction pt e ws flags rule: strip_command.induct) (subst strip_command.simps, auto split: option.splits simp: Let_def)

lemma calm_null_command [calm_rules]: "calm_ports pt \<Longrightarrow> calm (execute_null_command pt redirs)"
proof -
  assume "calm_ports pt"
  then have "calm (xbind (env_op (do_redirections pt redirs)) (\<lambda>ok b.
            xret (if \<not> ok then EXECUTION_FAILURE
                  else (case comsub_status pt (env b) of Some r \<Rightarrow> r | None \<Rightarrow> EXECUTION_SUCCESS))
                 (upd_world (cleanup_redirects pt redirs) b)))"
    by (intro calm_rules) (simp_all add: calm_def xret_def)
  then show ?thesis
    by (auto simp: calm_def execute_null_command_def xret_def split: option.splits)
qed

lemma calm_choose_target [calm_rules]: "calm_ports pt \<Longrightarrow> calm_op (choose_target pt ws func)"
  using calm_portsD(12) [of pt ws "func \<noteq> None"]
  by (auto simp: calm_op_def choose_target_def Let_def split: prod.splits sum.splits) (metis fst_conv)

lemma calm_prepare [calm_rules]:
  assumes "calm_ports pt"
  shows "calm (simple_prepare pt flags ws redirs)"
proof -
  have "calm (\<lambda>b. let capture_stdio = want_stdio_capture pt (env b);
                b1 = (if capture_stdio then upd_world (begin_capture pt) b else b)
            in case rash_stage_resolve_simple pt words flags (env b1) of
                 (words', flags', func) \<Rightarrow>
                   xbind (env_op (choose_target pt words' func)) (\<lambda>t. xret (Inr (capture_stdio, words', flags', t))) b1)"
    for words
    by (auto simp: calm_def Let_def calmD [OF calm_xbind [OF calm_env_op [OF calm_choose_target [OF assms]] calm_xret]]
        split: prod.splits)
  moreover have "calm (\<lambda>b. xret (Inl EXECUTION_FAILURE) (set_status EXECUTION_FAILURE b))"
    by (simp add: calm_def xret_def)
  ultimately show ?thesis
    unfolding simple_prepare_def using assms by (intro calm_rules)
qed

lemma prepared_flags:
  assumes "simple_prepare pt flags ws redirs b = Some (Inr (Inr (cap, words, flags', t)), b')" and "has_flag flags f"
  shows "has_flag flags' f"
  using assms strip_command_keeps [of flags f pt]
  by (auto simp: simple_prepare_def xbind_def xret_def env_op_def rash_stage_resolve_simple_def Let_def
      split: option.splits prod.splits sum.splits if_splits) (metis snd_conv)+

lemma calm_finish [calm_rules]: "calm (simple_finish pt cap words r)"
  by (simp add: calm_def simple_finish_def xret_def Let_def)

lemma calm_function [calm_rules]:
  assumes "calm_ports pt" and "calm_rec rec" and "has_flag flags CMD_IGNORE_RETURN"
  shows "calm (execute_function pt rec body words flags)"
proof -
  have "calm (function_gate pt words)"
    using calm_env_op [OF calm_portsD(14) [OF assms(1)]]
    by (auto simp: calm_def function_gate_def xjump_def xbind_def xret_def split: option.splits prod.splits sum.splits)
  moreover have "calm (catch_return (unwinding f (rec (ignoring (has_flag flags CMD_IGNORE_RETURN) (Some body)))))" for f
    using assms by (intro calm_rules calm_recD) simp_all
  ultimately show ?thesis
    unfolding execute_function_def by (intro calm_xbind calm_on_base) (simp_all add: calm_def xret_def)
qed

lemma calm_builtin [calm_rules]:
  "calm_ports pt \<Longrightarrow> has_flag flags CMD_IGNORE_RETURN \<Longrightarrow> calm (execute_builtin pt words flags)"
  unfolding execute_builtin_def by (intro calm_rules)

lemma calm_dispatch [calm_rules]:
  assumes "calm_ports pt" and "calm_rec rec" and "has_flag flags CMD_IGNORE_RETURN"
  shows "calm (rash_stage_dispatch_simple pt rec words flags t redirs)"
proof -
  have "calm (case t of Function body \<Rightarrow> execute_function pt rec body words flags | _ \<Rightarrow> execute_builtin pt words flags)"
    using assms by (cases t) (simp_all add: calm_rules)
  moreover have "calm (case dispatched_status t r of Some v \<Rightarrow> xret v
       | None \<Rightarrow> on_base (env_op (execute_disk_command pt words redirs flags)))" for r
    using assms by (auto intro!: calm_rules split: option.split)
  ultimately show ?thesis
    unfolding rash_stage_dispatch_simple_def execute_builtin_or_function_def
    using assms by (intro calm_rules)
qed

lemma calm_simple [calm_rules]:
  assumes "calm_ports pt" and "calm_rec rec" and "has_flag flags CMD_IGNORE_RETURN"
  shows "calm (execute_simple_command pt rec flags ws redirs)"
  unfolding calm_def
proof (intro allI notI)
  fix s s'
  assume run: "execute_simple_command pt rec flags ws redirs s = Some (Inl Jump_ERREXIT, s')"
  have after: "calm (xbind (rash_stage_dispatch_simple pt rec words flags' t redirs) (\<lambda>r. on_base (simple_finish pt cap words r)))"
    if "has_flag flags' CMD_IGNORE_RETURN" for cap words flags' t
    using assms that by (intro calm_rules)
  show False
    using run prepared_flags [OF _ assms(3), of pt ws redirs "base s"] calmD [OF calm_prepare [OF assms(1)], of flags ws redirs "base s"]
    by (auto simp: execute_simple_command_def xbind_def [of "on_base _"] on_base_def xret_def
        dest!: calmD [OF after] split: option.splits prod.splits sum.splits)
qed

lemma calm_option [calm_rules]: "(x = None \<Longrightarrow> calm m) \<Longrightarrow> (\<And>y. x = Some y \<Longrightarrow> calm (f y)) \<Longrightarrow>
    calm (case x of None \<Rightarrow> m | Some y \<Rightarrow> f y)"
  by (cases x) simp_all

lemma calm_for_loop [calm_rules]: "calm_ports pt \<Longrightarrow> calm (rec action) \<Longrightarrow> calm (for_loop pt rec name action ws r)"
proof (induction ws arbitrary: r)
  case Nil
  then show ?case by (simp add: calm_xret)
next
  case (Cons w ws)
  show ?case unfolding for_loop.simps by (intro calm_rules Cons)
qed

lemma calm_select_loop [calm_rules]: "calm_ports pt \<Longrightarrow> calm (rec action) \<Longrightarrow> calm (select_loop k pt rec name action ws)"
proof (induction k)
  case 0
  then show ?case by (simp add: calm_none)
next
  case (Suc k)
  show ?case unfolding select_loop.simps by (intro calm_rules Suc)
qed

lemma calm_while_loop [calm_rules]: "calm (rec test) \<Longrightarrow> calm (rec action) \<Longrightarrow> calm (while_loop k rec until test action r)"
proof (induction k arbitrary: r)
  case 0
  then show ?case by (simp add: calm_none)
next
  case (Suc k)
  have "calm (\<lambda>s :: 'a xstate. xret r (s\<lparr>breaking := breaking s - 1, continuing := continuing s - 1\<rparr>))"
    by (simp add: calm_def xret_def)
  then show ?case unfolding while_loop.simps by (intro calm_rules Suc)
qed

lemma calm_arith_for_loop [calm_rules]:
  "calm_ports pt \<Longrightarrow> calm (rec action) \<Longrightarrow> calm (arith_for_loop k pt rec test step action r)"
proof (induction k arbitrary: r)
  case 0
  then show ?case by (simp add: calm_none)
next
  case (Suc k)
  show ?case unfolding arith_for_loop.simps by (intro calm_rules Suc)
qed

lemma calm_match_patterns [calm_rules]: "calm_ports pt \<Longrightarrow> calm (match_patterns pt ps subj)"
  by (induction ps) (simp_all add: calm_rules)

lemma calm_case_loop [calm_rules]: "calm_ports pt \<Longrightarrow> calm_rec rec \<Longrightarrow> calm (case_loop pt rec True subj matched clauses r)"
proof (induction clauses arbitrary: matched r)
  case Nil
  then show ?case by (simp add: calm_xret)
next
  case (Cons clause clauses)
  show ?case unfolding case_loop.simps by (intro calm_rules calm_recD Cons spared_ignoring)
qed

lemma calm_connection [calm_rules]:
  assumes "calm_ports pt" and "calm_rec rec" and "has_flag (cmd_flags self) CMD_IGNORE_RETURN"
  shows "calm (execute_connection pt rec self True inverted first second connector)"
proof -
  have pipe: "calm (\<lambda>s. xbind (on_base (env_op (execute_pipeline pt self)))
               (\<lambda>r. on_base (env_op (command_failed pt (error_trapped pt (env (base s))) True inverted r))) s)"
    using calmD [OF calm_xbind [OF calm_on_base [OF calm_env_op [OF calm_portsD(20) [OF assms(1,3)]]]
          calm_on_base [OF calm_env_op [OF calm_command_failed]]]]
    by (simp add: calm_def)
  show ?thesis
    unfolding execute_connection_def
    by (intro calm_rules calm_recD [OF assms(2)] assms(1) pipe) simp_all
qed

lemma calm_cond_node [calm_rules]: "calm_ports pt \<Longrightarrow> calm (execute_cond_node pt ignore c)"
  by (induction pt ignore c rule: execute_cond_node.induct)
    (auto simp: Let_def intro!: calm_rules)

lemma calm_cond_command [calm_rules]: "calm_ports pt \<Longrightarrow> calm (execute_cond_command pt ignore c)"
  unfolding execute_cond_command_def by (intro calm_xbind calm_cond_node) (simp_all add: calm_def xret_def)

lemma calm_intern_function [calm_rules]: "calm (execute_intern_function pt name body)"
  by (auto simp: calm_def execute_intern_function_def xret_def split: option.splits)

lemma calm_arith_command [calm_rules]: "calm_ports pt \<Longrightarrow> calm (execute_arith_command pt expr)"
  unfolding execute_arith_command_def by (intro calm_rules)

lemma calm_switch:
  assumes pt: "calm_ports pt" and rec: "calm_rec rec" and self: "has_flag (cmd_flags self) CMD_IGNORE_RETURN"
  shows "calm (execute_switch pt n rec self True inverted)"
proof -
  let ?ig = "ignore_bit True"
  have ig: "has_flag (?ig f) CMD_IGNORE_RETURN" for f by simp
  have failed: "calm (xbind m (\<lambda>r. on_base (env_op (command_failed pt trap True inverted r))))"
    if "calm m" for m :: "('a xstate, int) run" and trap
    using that by (intro calm_rules)
  have parts:
    "calm (execute_for_command pt rec (?ig f) name ws act)"
    "calm (execute_arith_for_command n pt rec (?ig f) init test step act)"
    "calm (execute_while_or_until n rec until (?ig f) t act)"
    "calm (execute_if_command rec (?ig f) t act act')"
    "calm (execute_case_command pt rec (?ig f) word clauses)"
    for f name ws act act' init test step until t word clauses
    unfolding execute_for_command_def execute_arith_for_command_def execute_while_or_until_def
      execute_if_command_def execute_case_command_def eqTrueI [OF ig]
    by (intro calm_rules calm_recD [OF rec] pt rec spared_ignoring)+
  have sel: "calm (execute_select_command n pt rec (?ig f) name ws act)" for f name ws act
  proof -
    have "calm (xbind (on_base (env_op (expand_words_no_vars pt ws))) (\<lambda>words.
          if words = [] then xret EXECUTION_SUCCESS
          else xbind (select_loop n pt rec x (ignoring True act) words) (\<lambda>r s. xret r (base_mod leave_loop s))))" for x
      by (intro calm_rules calm_recD [OF rec] pt spared_ignoring) (simp add: calm_def xret_def)
    then show ?thesis
      unfolding execute_select_command_def eqTrueI [OF ig]
      by (auto simp: calm_def xret_def split: option.split)
  qed
  note all = parts [THEN calmD] sel [THEN calmD]
    failed [OF calm_simple [OF pt rec ig], THEN calmD]
    failed [OF calm_on_base [OF calm_cond_command [OF pt]], THEN calmD]
    failed [OF calm_on_base [OF calm_arith_command [OF pt]], THEN calmD]
    failed [OF calm_on_base [OF calm_intern_function], THEN calmD]
    calm_connection [OF pt rec self, THEN calmD]
    calm_recD [OF rec spared_ignoring, THEN calmD]
  show ?thesis
    unfolding calm_def execute_switch_def Let_def
    by (cases "cmd_value self") (simp_all add: all xret_def)
qed

lemma untimed [simp]: "has_flag (flags AND NOT (CMD_TIME_PIPELINE OR CMD_TIME_POSIX)) CMD_IGNORE_RETURN = has_flag flags CMD_IGNORE_RETURN"
proof -
  have "NOT (CMD_TIME_PIPELINE OR CMD_TIME_POSIX) AND CMD_IGNORE_RETURN = CMD_IGNORE_RETURN"
    by (simp add: CMD_TIME_PIPELINE_def CMD_TIME_POSIX_def CMD_IGNORE_RETURN_def)
  then show ?thesis by (simp add: has_flag_def and.assoc del: bit.de_Morgan_disj)
qed

lemma calm_body:
  assumes pt: "calm_ports pt" and rec: "calm_rec rec" and c: "has_flag (cmd_flags c) CMD_IGNORE_RETURN"
  shows "calm (command_body pt n rec c)"
proof -
  let ?self = "\<lambda>f. Command f (cmd_line c) (cmd_redirects c) (cmd_value c)"
  have self: "has_flag (cmd_flags (?self f)) CMD_IGNORE_RETURN \<longleftrightarrow> has_flag f CMD_IGNORE_RETURN" for f by simp
  have fork: "calm (execute_forked pt self user True inverted)" for self user inverted
  proof -
    have "calm (\<lambda>b1. let r' = invert_status inverted r; b2 = set_status r' b1
        in if user then env_op (command_failed pt trap True inverted r') b2 else xret r' b2)" for r trap
      by (auto simp: calm_def xret_def Let_def calmD [OF calm_env_op [OF calm_command_failed]])
    then have "calm (xbind (env_op (run_in_child pt self)) (\<lambda>r b1. let r' = invert_status inverted r; b2 = set_status r' b1
        in if user then env_op (command_failed pt trap True inverted r') b2 else xret r' b2))" for trap
      by (intro calm_rules pt)
    then show ?thesis by (simp add: execute_forked_def calm_def)
  qed
  have coproc: "calm (on_base (xbind (env_op (run_coproc pt self)) (\<lambda>r b. xret r (set_status r b))))" for self
    by (intro calm_rules pt) (simp add: calm_def xret_def)
  have main: "calm (xbind (on_base (env_op (do_redirections pt rs))) (\<lambda>ok s1.
             if \<not> ok then on_base (redirection_failed pt trap True inverted) (base_mod (upd_world (cleanup_redirects pt rs)) s1)
             else xbind (unwinding (base_mod (upd_world (cleanup_redirects pt rs))) (execute_switch pt n rec (?self f) True inverted))
                 (\<lambda>r. on_base (finish_command inverted r)) s1))"
    if "has_flag f CMD_IGNORE_RETURN" for rs trap inverted f
  proof (rule calm_xbind [OF calm_on_base [OF calm_env_op [OF calm_portsD(9) [OF pt]]]])
    have "calm (xbind (unwinding g (execute_switch pt n rec (?self f) True inverted)) (\<lambda>r. on_base (finish_command inverted r)))" for g
      using that by (intro calm_rules calm_switch pt rec) (simp_all add: calm_def finish_command_def xret_def Let_def)
    moreover have "calm (on_base (redirection_failed pt trap True inverted))"
      by (intro calm_rules) (simp add: calm_def redirection_failed_def calmD [OF calm_env_op [OF calm_command_failed]])
    ultimately show "calm (\<lambda>s1. if \<not> ok then on_base (redirection_failed pt trap True inverted) (base_mod (upd_world (cleanup_redirects pt rs)) s1)
             else xbind (unwinding (base_mod (upd_world (cleanup_redirects pt rs))) (execute_switch pt n rec (?self f) True inverted))
                 (\<lambda>r. on_base (finish_command inverted r)) s1)" for ok
      by (auto simp: calm_def)
  qed
  have time: "calm (unwinding g (rec (Some (?self (f AND NOT (CMD_TIME_PIPELINE OR CMD_TIME_POSIX))))))"
    if "has_flag f CMD_IGNORE_RETURN" for f g
    using that by (intro calm_rules calm_recD [OF rec]) (simp add: spared_def del: bit.de_Morgan_disj)
  show ?thesis
    unfolding calm_def
  proof (intro allI)
    fix s s' :: "'a xstate"
    define f where "f = (if exit_immediately_on_error pt (env (base s)) \<and> has_flag (cmd_flags c) CMD_INVERT_RETURN
                   then cmd_flags c OR CMD_IGNORE_RETURN else cmd_flags c)"
    have f: "has_flag f CMD_IGNORE_RETURN" by (simp add: f_def c)
    show "command_body pt n rec c s \<noteq> Some (Inl Jump_ERREXIT, s')"
      unfolding command_body_def Let_def f_def [symmetric] eqTrueI [OF f]
      using f by (simp add: fork [THEN calm_on_base, THEN calmD] coproc [THEN calmD] main [THEN calmD]
          time [THEN calmD] del: bit.de_Morgan_disj has_flag_or)
  qed
qed

lemma calm_execute: "calm_ports pt \<Longrightarrow> calm_rec (execute pt n)"
proof (induction n)
  case 0
  then show ?case
    by (auto simp: calm_rec_def calm_def execute_command_internal_def xret_def split: option.splits)
next
  case (Suc n)
  then show ?case
    using calmD [OF calm_body [OF Suc.prems Suc.IH]]
    by (auto simp: calm_rec_def calm_def spared_def execute_command_internal_def xret_def split: option.splits)
qed

section \<open>The property\<close>


text \<open>Ports under which every word stands for itself, with the builtin \<open>false\<close> and \<open>set -e\<close> on.\<close>

definition demo_ports :: "unit exec_ports" where
  "demo_ports = \<lparr>exit_immediately_on_error = (\<lambda>e. True), read_but_dont_execute = (\<lambda>e. False),
     interactive_shell = False, restricted = False, funcnest_max = (\<lambda>e. 0), error_trapped = (\<lambda>e. False),
     run_error_trap = id,
     expand_words = (\<lambda>ws f e. (Inr (map (\<lambda>w. case w of Some d \<Rightarrow> the (w_word d) | None \<Rightarrow> []) ws), e)),
     expand_words_no_vars = (\<lambda>ws e. (Inr (map (\<lambda>w. case w of Some d \<Rightarrow> the (w_word d) | None \<Rightarrow> []) ws), e)),
     bind_loop_variable = (\<lambda>x v e. (Inr True, e)), select_query = (\<lambda>ws e. (Inr (Some (hd ws)), e)),
     eval_arith_for_expr = (\<lambda>ws e. (Inr (Some 1), e)), case_subject = (\<lambda>w e. (Inr [], e)),
     case_match = (\<lambda>w x e. (Inr False, e)), cond_term = (\<lambda>i c e. (Inr 0, e)),
     do_redirections = (\<lambda>rs e. (Inr True, e)), apply_simple_redirects = (\<lambda>rs e. (Inr True, e)),
     cleanup_redirects = (\<lambda>rs w. w), comsub_status = (\<lambda>e. None), fork_null_command = (\<lambda>rs e. None),
     before_simple = (\<lambda>ws e. (Inr False, e)), choose_dispatch = (\<lambda>ws f e. (Inr (False, False, False), e)),
     after_simple = (\<lambda>ws r e. e), on_builtin = (\<lambda>ws e. (Inr False, e)), on_function = (\<lambda>f ws e. (Inr False, e)),
     want_stdio_capture = (\<lambda>e. False), begin_capture = id, end_capture = id,
     find_shell_builtin = (\<lambda>w e. w \<in> {''false'', ''true'', ''break'', ''continue'', ''return'', ''command''}),
     run_builtin = (\<lambda>ws f e. (Inr (if hd ws = ''false'' then 1 else 0), e)),
     execute_disk_command = (\<lambda>ws rs f e. (Inr 127, e)), enter_function = (\<lambda>f ws w. w), leave_function = id,
     function_readonly = (\<lambda>f w. False), run_in_child = (\<lambda>c e. (Inr 0, e)), run_coproc = (\<lambda>c e. (Inr 0, e)),
     run_async = (\<lambda>c e. (Inr 0, e)), execute_pipeline = (\<lambda>c e. (Inr 0, e)), print_times = id\<rparr>"

definition demo_word :: "cstring \<Rightarrow> word_desc option" where
  "demo_word x = Some \<lparr>w_word = Some x, w_flags = 0\<rparr>"

definition demo_simple :: "32 word \<Rightarrow> cstring list \<Rightarrow> command" where
  "demo_simple f ws = Command f 1 [] (Simple 0 1 (map demo_word ws) [])"

definition demo_state :: "unit xstate" where
  "demo_state = \<lparr>base = \<lparr>env = \<lparr>last_command_exit_value = 0, shell_functions = (\<lambda>f. None), world = ()\<rparr>,
     loop_level = 0, funcnest = 0, return_catch_flag = 0\<rparr>, breaking = 0, continuing = 0\<rparr>"

lemma demo_calm: "calm_ports demo_ports"
  by (simp add: calm_ports_def calm_op_def demo_ports_def)

text \<open>The same failing command ends the shell without the mark and does not with it.\<close>

lemma demo_false:
  "map_option fst (execute demo_ports 1 (Some (demo_simple 0 [''false''])) demo_state) = Some (Inl Jump_ERREXIT)"
  "map_option fst (execute demo_ports 1 (Some (demo_simple CMD_IGNORE_RETURN [''false''])) demo_state) = Some (Inr 1)"
  by code_simp+


end
