(* ===== verification/Exec_Fuel.thy ===== *)
theory Exec_Fuel
  imports Exec_Errexit
begin

text \<open>
  The bound of \<open>execute\<close> is only a bound: a run that ends within it ends in the same way within any
  larger one. None therefore stands for a run that the bound was too small for, and what a command
  does is a matter of the command and the ports alone.
\<close>

definition refines :: "('j, 's, 'v) gen_run \<Rightarrow> ('j, 's, 'v) gen_run \<Rightarrow> bool" where
  "refines m m' \<longleftrightarrow> (\<forall>s out. m s = Some out \<longrightarrow> m' s = Some out)"

named_theorems refine_rules

lemma refinesD: "refines m m' \<Longrightarrow> m s = Some out \<Longrightarrow> m' s = Some out"
  unfolding refines_def by blast

lemma refines_refl [refine_rules]: "refines m m"
  by (simp add: refines_def)

lemma refines_none [refine_rules]: "refines (\<lambda>s. None) m"
  by (simp add: refines_def)

lemma refines_xbind [refine_rules]: "refines m m' \<Longrightarrow> (\<And>v. refines (f v) (f' v)) \<Longrightarrow> refines (xbind m f) (xbind m' f')"
  by (auto simp: refines_def xbind_def split: option.splits prod.splits sum.splits)

lemma refines_unwinding [refine_rules]: "refines m m' \<Longrightarrow> refines (unwinding f m) (unwinding f m')"
  by (auto simp: refines_def unwinding_def)

lemma refines_at: "(\<And>x. refines (m x) (m' x)) \<Longrightarrow> refines (\<lambda>s. m (g s) s) (\<lambda>s. m' (g s) s)"
  by (simp add: refines_def)

lemma refines_after: "refines m m' \<Longrightarrow> refines (\<lambda>s. m (g s)) (\<lambda>s. m' (g s))"
  by (simp add: refines_def)

lemma refines_in_loop [refine_rules]: "refines m m' \<Longrightarrow> refines (in_loop m) (in_loop m')"
  unfolding in_loop_def by (rule refines_after [where g = "base_mod enter_loop"]) (rule refines_xbind, assumption, rule refines_refl)

lemma refines_catch_return [refine_rules]: "refines m m' \<Longrightarrow> refines (catch_return m) (catch_return m')"
  unfolding refines_def catch_return_def
  by (metis (no_types, lifting) option.case_eq_if option.collapse option.distinct(1))

lemma refines_if [refine_rules]: "refines m m' \<Longrightarrow> refines n n' \<Longrightarrow> refines (if P then m else n) (if P then m' else n')"
  by simp

lemma refines_option [refine_rules]: "refines m m' \<Longrightarrow> (\<And>y. refines (f y) (f' y)) \<Longrightarrow>
    refines (case x of None \<Rightarrow> m | Some y \<Rightarrow> f y) (case x of None \<Rightarrow> m' | Some y \<Rightarrow> f' y)"
  by (cases x) simp_all

section \<open>The loops\<close>

lemma refines_for_loop: "refines (rec action) (rec' action) \<Longrightarrow> refines (for_loop pt rec name action ws r) (for_loop pt rec' name action ws r)"
proof (induction ws arbitrary: r)
  case (Cons w ws)
  show ?case unfolding for_loop.simps by (intro refine_rules Cons)
qed (simp add: refines_refl)

lemma refines_select_loop:
  "refines (rec action) (rec' action) \<Longrightarrow> k \<le> k' \<Longrightarrow>
     refines (select_loop k pt rec name action ws) (select_loop k' pt rec' name action ws)"
proof (induction k arbitrary: k')
  case (Suc k)
  then obtain l where l: "k' = Suc l" "k \<le> l" by (cases k') auto
  show ?case unfolding l select_loop.simps by (intro refine_rules Suc l)
qed (simp add: refines_none)

lemma refines_while_loop:
  "refines (rec test) (rec' test) \<Longrightarrow> refines (rec action) (rec' action) \<Longrightarrow> k \<le> k' \<Longrightarrow>
     refines (while_loop k rec until test action r) (while_loop k' rec' until test action r)"
proof (induction k arbitrary: k' r)
  case (Suc k)
  then obtain l where l: "k' = Suc l" "k \<le> l" by (cases k') auto
  show ?case unfolding l while_loop.simps by (intro refine_rules Suc l)
qed (simp add: refines_none)

lemma refines_arith_for_loop:
  "refines (rec action) (rec' action) \<Longrightarrow> k \<le> k' \<Longrightarrow>
     refines (arith_for_loop k pt rec test step action r) (arith_for_loop k' pt rec' test step action r)"
proof (induction k arbitrary: k' r)
  case (Suc k)
  then obtain l where l: "k' = Suc l" "k \<le> l" by (cases k') auto
  show ?case unfolding l arith_for_loop.simps by (intro refine_rules Suc l)
qed (simp add: refines_none)

lemma refines_case_loop:
  "(\<And>c. refines (rec c) (rec' c)) \<Longrightarrow> refines (case_loop pt rec ig subj matched clauses r) (case_loop pt rec' ig subj matched clauses r)"
proof (induction clauses arbitrary: matched r)
  case (Cons clause clauses)
  show ?case unfolding case_loop.simps by (intro refine_rules Cons)
qed (simp add: refines_refl)

section \<open>The constructs\<close>

lemma refines_function:
  assumes "\<And>c. refines (rec c) (rec' c)"
  shows "refines (execute_function pt rec body words flags) (execute_function pt rec' body words flags)"
  unfolding execute_function_def
proof (intro refines_xbind refines_refl)
  fix go_on
  show "refines
     (\<lambda>s. if \<not> go_on then xret EXECUTION_FAILURE s
       else catch_return (unwinding (base_mod (function_exit pt (base s))) (rec (ignoring (has_flag flags CMD_IGNORE_RETURN) (Some body))))
              (base_mod (function_entry pt words) s))
     (\<lambda>s. if \<not> go_on then xret EXECUTION_FAILURE s
       else catch_return (unwinding (base_mod (function_exit pt (base s))) (rec' (ignoring (has_flag flags CMD_IGNORE_RETURN) (Some body))))
              (base_mod (function_entry pt words) s))"
    using refinesD [OF refines_catch_return [OF refines_unwinding [OF assms]]]
    by (cases go_on) (auto simp: refines_def)
qed

lemma refines_simple:
  assumes "\<And>c. refines (rec c) (rec' c)"
  shows "refines (execute_simple_command pt rec flags ws redirs) (execute_simple_command pt rec' flags ws redirs)"
proof -
  have target: "refines (case t of Function body \<Rightarrow> execute_function pt rec body words f | _ \<Rightarrow> execute_builtin pt words f)
      (case t of Function body \<Rightarrow> execute_function pt rec' body words f | _ \<Rightarrow> execute_builtin pt words f)" for t words f
    using assms by (cases t) (simp_all add: refines_function refines_refl)
  have dispatch: "refines (rash_stage_dispatch_simple pt rec words f t redirs) (rash_stage_dispatch_simple pt rec' words f t redirs)"
    for words f t
    unfolding rash_stage_dispatch_simple_def execute_builtin_or_function_def
    by (intro refines_if refines_xbind refines_refl refines_unwinding target)
  show ?thesis
    unfolding execute_simple_command_def
  proof (intro refines_xbind refines_refl)
    fix plan :: "int + bool \<times> cstring list \<times> 32 word \<times> target"
    show "refines (case plan of Inl r \<Rightarrow> xret r
         | Inr (cap, words, flags', t) \<Rightarrow>
             xbind (rash_stage_dispatch_simple pt rec words flags' t redirs) (\<lambda>r. on_base (simple_finish pt cap words r)))
       (case plan of Inl r \<Rightarrow> xret r
         | Inr (cap, words, flags', t) \<Rightarrow>
             xbind (rash_stage_dispatch_simple pt rec' words flags' t redirs) (\<lambda>r. on_base (simple_finish pt cap words r)))"
      by (auto intro!: refines_xbind dispatch refines_refl split: sum.split prod.split)
  qed
qed

lemma refines_connection:
  assumes "\<And>c. refines (rec c) (rec' c)"
  shows "refines (execute_connection pt rec self ig inverted first second connector)
    (execute_connection pt rec' self ig inverted first second connector)"
  unfolding execute_connection_def by (intro refine_rules assms)

lemma refines_switch:
  assumes rec: "\<And>c. refines (rec c) (rec' c)" and "n \<le> n'"
  shows "refines (execute_switch pt n rec self ig inverted) (execute_switch pt n' rec' self ig inverted)"
proof -
  note loops = refines_for_loop [OF rec] refines_select_loop [OF rec assms(2)] refines_while_loop [OF rec rec assms(2)]
    refines_arith_for_loop [OF rec assms(2)] refines_case_loop [OF rec]
  have parts:
    "refines (execute_for_command pt rec f name ws act) (execute_for_command pt rec' f name ws act)"
    "refines (execute_arith_for_command n pt rec f init test step act) (execute_arith_for_command n' pt rec' f init test step act)"
    "refines (execute_while_or_until n rec until f t act) (execute_while_or_until n' rec' until f t act)"
    "refines (execute_if_command rec f t act act') (execute_if_command rec' f t act act')"
    "refines (execute_case_command pt rec f word clauses) (execute_case_command pt rec' f word clauses)"
    for f name ws act act' init test step until t word clauses
    unfolding execute_for_command_def execute_arith_for_command_def execute_while_or_until_def
      execute_if_command_def execute_case_command_def
    by (intro refine_rules loops rec)+
  have sel: "refines (execute_select_command n pt rec f name ws act) (execute_select_command n' pt rec' f name ws act)" for f name ws act
    unfolding execute_select_command_def
    by (intro refines_option refines_refl refines_after [where g = "base_mod enter_loop"] refines_xbind refines_if loops)
  have simple: "refines (xbind (execute_simple_command pt rec f ws redirs) k) (xbind (execute_simple_command pt rec' f ws redirs) k)"
    for f ws redirs and k :: "int \<Rightarrow> ('a xstate, int) run"
    by (intro refines_xbind refines_simple rec refines_refl)
  note all = parts [THEN refinesD] sel [THEN refinesD] simple [THEN refinesD] rec [THEN refinesD]
    refines_connection [OF rec, THEN refinesD]
  show ?thesis
    unfolding refines_def execute_switch_def Let_def
    by (cases "cmd_value self") (auto dest: all)
qed

lemma refines_body:
  assumes rec: "\<And>c. refines (rec c) (rec' c)" and n: "n \<le> n'"
  shows "refines (command_body pt n rec c) (command_body pt n' rec' c)"
proof -
  have main: "refines
      (xbind (on_base (env_op (do_redirections pt rs))) (\<lambda>ok s1.
             if \<not> ok then failed s1
             else xbind (unwinding g (execute_switch pt n rec self ig inverted)) k s1))
      (xbind (on_base (env_op (do_redirections pt rs))) (\<lambda>ok s1.
             if \<not> ok then failed s1
             else xbind (unwinding g (execute_switch pt n' rec' self ig inverted)) k s1))"
    for rs g self ig inverted and failed :: "('a xstate, int) run" and k :: "int \<Rightarrow> ('a xstate, int) run"
  proof (intro refines_xbind refines_refl)
    fix ok
    show "refines (\<lambda>s1. if \<not> ok then failed s1 else xbind (unwinding g (execute_switch pt n rec self ig inverted)) k s1)
        (\<lambda>s1. if \<not> ok then failed s1 else xbind (unwinding g (execute_switch pt n' rec' self ig inverted)) k s1)"
      by (cases ok) (simp_all add: refines_refl refines_xbind refines_unwinding refines_switch [OF rec n])
  qed
  note all = main [THEN refinesD] refines_unwinding [OF rec, THEN refinesD]
  show ?thesis
    unfolding refines_def command_body_def Let_def
    by (auto dest: all simp del: bit.de_Morgan_disj split: if_splits)
qed

lemma refines_execute: "n \<le> n' \<Longrightarrow> refines (execute pt n c) (execute pt n' c)"
proof (induction n arbitrary: n' c)
  case 0
  then show ?case
    by (cases n') (auto simp: refines_def execute_command_internal_def split: option.splits)
next
  case (Suc n)
  then obtain l where l: "n' = Suc l" "n \<le> l" by (cases n') auto
  show ?case
    using refinesD [OF refines_body [OF Suc.IH [OF l(2)] l(2)]]
    by (auto simp: refines_def l execute_command_internal_def split: option.splits)
qed

text \<open>A run that ends ends in the same way with a larger bound.\<close>

theorem more_fuel_changes_nothing:
  assumes "execute pt n c s = Some out" and "n \<le> n'"
  shows "execute pt n' c s = Some out"
  using assms(1) by (rule refinesD [OF refines_execute [OF assms(2)]])

theorem more_fuel_changes_nothing_witness:
  "\<exists>out. execute demo_ports 1 (Some (demo_simple 0 [''true''])) demo_state = Some out \<and>
     execute demo_ports 50 (Some (demo_simple 0 [''true''])) demo_state = Some out"
proof -
  have "map_option fst (execute demo_ports 1 (Some (demo_simple 0 [''true''])) demo_state) = Some (Inr 0)" by code_simp
  then obtain out where out: "execute demo_ports 1 (Some (demo_simple 0 [''true''])) demo_state = Some out"
    by (metis None_eq_map_option_iff option.collapse option.distinct(1))
  from out more_fuel_changes_nothing [OF out, of 50] show ?thesis by fastforce
qed

end
