(* ===== verification/Exec_Structured.thy ===== *)
theory Exec_Structured
  imports Exec_Control
begin

text \<open>
  The same executor without the counters: \<open>break\<close> and \<open>continue\<close> are outcomes of a command that the
  constructs of the language hand on, and a loop consumes one level. The theorem of this theory is
  that the code computes exactly this: whatever the program, the counters \<open>breaking\<close> and
  \<open>continuing\<close> and the test at the start of \<open>execute_command_internal\<close> have the effect of the
  outcomes.
\<close>

section \<open>Outcomes\<close>

text \<open>\<open>Break k\<close> leaves \<open>k + 1\<close> loops; \<open>Continue k\<close> leaves \<open>k\<close> and resumes the one around them.\<close>

datatype mode = Go | Break nat | Continue nat

type_synonym ('w, 'v) srun = "(jump \<times> mode, 'w sstate, 'v \<times> mode) gen_run"

text \<open>An operation that neither breaks nor continues, done while the mode is \<open>md\<close>.\<close>

definition during :: "mode \<Rightarrow> ('w sstate, 'v) run \<Rightarrow> ('w, 'v) srun" where
  "during md m b =
     map_option (\<lambda>(r, b'). ((case r of Inl j \<Rightarrow> Inl (j, md) | Inr v \<Rightarrow> Inr (v, md)), b')) (m b)"

text \<open>The next command is reached only in the mode \<open>Go\<close>.\<close>

definition sbind :: "('w, int) srun \<Rightarrow> (int \<Rightarrow> ('w, int) srun) \<Rightarrow> ('w, int) srun" where
  "sbind m f = xbind m (\<lambda>(v, md). if md = Go then f v else xret (v, md))"

text \<open>What a loop does after its body: whether it ends, and what is left of the mode.\<close>

fun after_round :: "mode \<Rightarrow> bool \<times> mode" where
  "after_round Go = (False, Go)"
| "after_round (Break 0) = (True, Go)"
| "after_round (Break (Suc k)) = (True, Break k)"
| "after_round (Continue 0) = (False, Go)"
| "after_round (Continue (Suc k)) = (True, Continue k)"

text \<open>When the test of a loop says that it is over, one level is consumed as well.\<close>

fun loop_over :: "mode \<Rightarrow> mode" where
  "loop_over Go = Go"
| "loop_over (Break 0) = Go"
| "loop_over (Break (Suc k)) = Break k"
| "loop_over (Continue 0) = Go"
| "loop_over (Continue (Suc k)) = Continue k"

section \<open>The constructs\<close>

definition loop_exit_builtin :: "'w exec_ports \<Rightarrow> (nat \<Rightarrow> mode) \<Rightarrow> cstring list \<Rightarrow> ('w, int) srun" where
  "loop_exit_builtin pt how args b =
     (if helpopt args then xret (EX_USAGE, Go) b
      else if loop_level b = 0 then xret (EXECUTION_SUCCESS, Go) b
      else xbind (during Go (loop_count pt args)) (\<lambda>(n, _) b.
             if n = 0 then xret (EXECUTION_FAILURE, Break (loop_level b - 1)) b
             else xret (EXECUTION_SUCCESS, how (n - 1)) b) b)"

definition s_builtin :: "'w exec_ports \<Rightarrow> cstring list \<Rightarrow> 32 word \<Rightarrow> ('w, int) srun" where
  "s_builtin pt words flags =
     xbind (during Go (env_op (on_builtin pt words))) (\<lambda>(denied, _).
       if denied then xret (EXECUTION_FAILURE, Go)
       else if hd words = ''break'' then loop_exit_builtin pt Break (tl words)
       else if hd words = ''continue'' then loop_exit_builtin pt Continue (tl words)
       else if hd words = ''return'' then during Go (return_builtin (tl words))
       else during Go (env_op (run_builtin pt words flags)))"

definition s_catch_return :: "('w, int) srun \<Rightarrow> ('w, int) srun" where
  "s_catch_return m b =
     (case m b of Some (Inl (Return_catch v, md), b') \<Rightarrow> Some (Inr (v, md), b') | out \<Rightarrow> out)"

definition s_function ::
  "'w exec_ports \<Rightarrow> (command option \<Rightarrow> ('w, int) srun) \<Rightarrow> command \<Rightarrow> cstring list \<Rightarrow> 32 word \<Rightarrow> ('w, int) srun" where
  "s_function pt rec body words flags =
     xbind (during Go (function_gate pt words)) (\<lambda>(go_on, _) b.
       if \<not> go_on then xret (EXECUTION_FAILURE, Go) b
       else s_catch_return (unwinding (function_exit pt b) (rec (ignoring (has_flag flags CMD_IGNORE_RETURN) (Some body))))
              (function_entry pt words b))"

definition s_dispatch ::
  "'w exec_ports \<Rightarrow> (command option \<Rightarrow> ('w, int) srun) \<Rightarrow> cstring list \<Rightarrow> 32 word \<Rightarrow> target \<Rightarrow> redirect list \<Rightarrow> ('w, int) srun" where
  "s_dispatch pt rec words flags t redirs =
     (if t = Denied then xret (EXECUTION_FAILURE, Go)
      else if t = Disk then during Go (env_op (execute_disk_command pt words redirs flags))
      else xbind
          (xbind (during Go (env_op (apply_simple_redirects pt redirs))) (\<lambda>(ok, _).
             if \<not> ok then xret (EX_REDIRFAIL, Go)
             else unwinding (undo_simple pt words redirs)
                    (case t of
                       Function body \<Rightarrow> s_function pt rec body words flags
                     | _ \<Rightarrow> s_builtin pt words flags)))
          (\<lambda>(r, md). case dispatched_status t r of
             Some v \<Rightarrow> xret (v, md)
           | None \<Rightarrow> during md (env_op (execute_disk_command pt words redirs flags))))"

definition s_simple ::
  "'w exec_ports \<Rightarrow> (command option \<Rightarrow> ('w, int) srun) \<Rightarrow> 32 word \<Rightarrow> word_list \<Rightarrow> redirect list \<Rightarrow> ('w, int) srun" where
  "s_simple pt rec flags ws redirs =
     xbind (during Go (simple_prepare pt flags ws redirs)) (\<lambda>(plan, _).
       case plan of
         Inl r \<Rightarrow> xret (r, Go)
       | Inr (capture_stdio, words, flags', t) \<Rightarrow>
           xbind (s_dispatch pt rec words flags' t redirs)
             (\<lambda>(r, md). during md (simple_finish pt capture_stdio words r)))"

definition s_in_loop :: "('w, int) srun \<Rightarrow> ('w, int) srun" where
  "s_in_loop m b = xbind m (\<lambda>r b. xret r (leave_loop b)) (enter_loop b)"

primrec s_for_loop ::
  "'w exec_ports \<Rightarrow> (command option \<Rightarrow> ('w, int) srun) \<Rightarrow> cstring \<Rightarrow> command option \<Rightarrow> cstring list \<Rightarrow> int \<Rightarrow> ('w, int) srun" where
  "s_for_loop pt rec name action [] retval = xret (retval, Go)"
| "s_for_loop pt rec name action (w # ws) retval =
     xbind (during Go (env_op (bind_loop_variable pt name w))) (\<lambda>(ok, _).
       if \<not> ok then xret (EXECUTION_FAILURE, Go)
       else xbind (rec action) (\<lambda>(r, md). case after_round md of (leave, md') \<Rightarrow>
              if leave then xret (r, md') else s_for_loop pt rec name action ws r))"

definition s_for ::
  "'w exec_ports \<Rightarrow> (command option \<Rightarrow> ('w, int) srun) \<Rightarrow> 32 word \<Rightarrow> word_desc option \<Rightarrow> word_list \<Rightarrow> command option \<Rightarrow> ('w, int) srun" where
  "s_for pt rec flags name ws action =
     (case loop_name name of
        None \<Rightarrow> xret (EXECUTION_FAILURE, Go)
      | Some x \<Rightarrow> s_in_loop (xbind (during Go (env_op (expand_words_no_vars pt ws))) (\<lambda>(words, _).
          s_for_loop pt rec x (ignoring (has_flag flags CMD_IGNORE_RETURN) action) words EXECUTION_SUCCESS)))"

primrec s_select_loop ::
  "nat \<Rightarrow> 'w exec_ports \<Rightarrow> (command option \<Rightarrow> ('w, int) srun) \<Rightarrow> cstring \<Rightarrow> command option \<Rightarrow> cstring list \<Rightarrow> ('w, int) srun" where
  "s_select_loop 0 pt rec name action ws = (\<lambda>b. None)"
| "s_select_loop (Suc k) pt rec name action ws =
     xbind (during Go (env_op (select_query pt ws))) (\<lambda>(selection, _).
       case selection of
         None \<Rightarrow> xret (EXECUTION_FAILURE, Go)
       | Some w \<Rightarrow> xbind (during Go (env_op (bind_loop_variable pt name w))) (\<lambda>(ok, _).
           if \<not> ok then xret (EXECUTION_FAILURE, Go)
           else xbind (rec action) (\<lambda>(r, md). case after_round md of (leave, md') \<Rightarrow>
                  if leave then xret (r, md') else s_select_loop k pt rec name action ws)))"

definition s_select ::
  "nat \<Rightarrow> 'w exec_ports \<Rightarrow> (command option \<Rightarrow> ('w, int) srun) \<Rightarrow> 32 word \<Rightarrow> word_desc option \<Rightarrow> word_list \<Rightarrow> command option \<Rightarrow> ('w, int) srun" where
  "s_select k pt rec flags name ws action =
     (case loop_name name of
        None \<Rightarrow> xret (EXECUTION_FAILURE, Go)
      | Some x \<Rightarrow> (\<lambda>b. xbind (during Go (env_op (expand_words_no_vars pt ws))) (\<lambda>(words, _).
          if words = [] then xret (EXECUTION_SUCCESS, Go)
          else xbind (s_select_loop k pt rec x (ignoring (has_flag flags CMD_IGNORE_RETURN) action) words)
                 (\<lambda>r b. xret r (leave_loop b))) (enter_loop b)))"

text \<open>A \<open>break\<close> or \<open>continue\<close> in the test of a loop: the test's status still decides whether the loop
  is over; if it is not, the body is skipped and its status is that of the test.\<close>

primrec s_while_loop ::
  "nat \<Rightarrow> (command option \<Rightarrow> ('w, int) srun) \<Rightarrow> bool \<Rightarrow> command option \<Rightarrow> command option \<Rightarrow> int \<Rightarrow> ('w, int) srun" where
  "s_while_loop 0 rec until test action body_status = (\<lambda>b. None)"
| "s_while_loop (Suc k) rec until test action body_status =
     xbind (rec test) (\<lambda>(v, md).
       if (v = EXECUTION_SUCCESS) = until then xret (body_status, loop_over md)
       else xbind (if md = Go then rec action else xret (v, md)) (\<lambda>(r, md). case after_round md of (leave, md') \<Rightarrow>
              if leave then xret (r, md') else s_while_loop k rec until test action r))"

primrec s_arith_for_loop ::
  "nat \<Rightarrow> 'w exec_ports \<Rightarrow> (command option \<Rightarrow> ('w, int) srun) \<Rightarrow> word_list \<Rightarrow> word_list \<Rightarrow> command option \<Rightarrow> int \<Rightarrow> ('w, int) srun" where
  "s_arith_for_loop 0 pt rec test step action body_status = (\<lambda>b. None)"
| "s_arith_for_loop (Suc k) pt rec test step action body_status =
     xbind (during Go (env_op (eval_arith_for_expr pt test))) (\<lambda>(v, _).
       case v of
         None \<Rightarrow> xret (EXECUTION_FAILURE, Go)
       | Some x \<Rightarrow>
           if x = 0 then xret (body_status, Go)
           else xbind (rec action) (\<lambda>(r, md). case after_round md of (leave, md') \<Rightarrow>
                  if leave then xret (r, md')
                  else xbind (during Go (env_op (eval_arith_for_expr pt step))) (\<lambda>(v, _).
                         case v of
                           None \<Rightarrow> xret (EXECUTION_FAILURE, Go)
                         | Some _ \<Rightarrow> s_arith_for_loop k pt rec test step action r)))"

definition s_arith_for ::
  "nat \<Rightarrow> 'w exec_ports \<Rightarrow> (command option \<Rightarrow> ('w, int) srun) \<Rightarrow> 32 word \<Rightarrow> word_list \<Rightarrow> word_list \<Rightarrow> word_list \<Rightarrow>
     command option \<Rightarrow> ('w, int) srun" where
  "s_arith_for k pt rec flags init test step action =
     s_in_loop (xbind (during Go (env_op (eval_arith_for_expr pt init))) (\<lambda>(v, _).
       case v of
         None \<Rightarrow> xret (EXECUTION_FAILURE, Go)
       | Some _ \<Rightarrow> s_arith_for_loop k pt rec test step
                     (ignoring (has_flag flags CMD_IGNORE_RETURN) action) EXECUTION_SUCCESS))"

definition s_if ::
  "(command option \<Rightarrow> ('w, int) srun) \<Rightarrow> 32 word \<Rightarrow> command option \<Rightarrow> command option \<Rightarrow> command option \<Rightarrow> ('w, int) srun" where
  "s_if rec flags test true_case false_case =
     sbind (rec (ignoring True test)) (\<lambda>return_value.
       rec (ignoring (has_flag flags CMD_IGNORE_RETURN)
              (if return_value = EXECUTION_SUCCESS then true_case else false_case)))"

text \<open>After a clause that falls through or asks for the next test, the patterns that follow are
  expanded and matched even in a clause that left by \<open>break\<close> or \<open>continue\<close>; the commands are skipped.\<close>

primrec s_case_loop ::
  "'w exec_ports \<Rightarrow> (command option \<Rightarrow> ('w, int) srun) \<Rightarrow> bool \<Rightarrow> cstring \<Rightarrow> bool \<Rightarrow> mode \<Rightarrow>
     (word_list \<times> command option \<times> 32 word) list \<Rightarrow> int \<Rightarrow> ('w, int) srun" where
  "s_case_loop pt rec ignore_return subj matched md [] retval = xret (retval, md)"
| "s_case_loop pt rec ignore_return subj matched md (clause # clauses) retval =
     xbind (if matched then xret (True, md) else during md (match_patterns pt (fst clause) subj)) (\<lambda>(m, _).
       if m then
         xbind (if md = Go then rec (ignoring ignore_return (fst (snd clause)))
                else (\<lambda>b. xret (last_command_exit_value (env b), md) b)) (\<lambda>(r, md').
           if has_flag (snd (snd clause)) CASEPAT_FALLTHROUGH then s_case_loop pt rec ignore_return subj True md' clauses r
           else if has_flag (snd (snd clause)) CASEPAT_TESTNEXT then s_case_loop pt rec ignore_return subj False md' clauses r
           else xret (r, md'))
       else s_case_loop pt rec ignore_return subj False md clauses retval)"

definition s_case ::
  "'w exec_ports \<Rightarrow> (command option \<Rightarrow> ('w, int) srun) \<Rightarrow> 32 word \<Rightarrow> word_desc option \<Rightarrow>
     (word_list \<times> command option \<times> 32 word) list \<Rightarrow> ('w, int) srun" where
  "s_case pt rec flags word clauses =
     xbind (during Go (env_op (case_subject pt word))) (\<lambda>(subj, _).
       s_case_loop pt rec (has_flag flags CMD_IGNORE_RETURN) subj False Go clauses EXECUTION_SUCCESS)"

definition s_connection ::
  "'w exec_ports \<Rightarrow> (command option \<Rightarrow> ('w, int) srun) \<Rightarrow> command \<Rightarrow> bool \<Rightarrow> bool \<Rightarrow>
     command option \<Rightarrow> command option \<Rightarrow> int \<Rightarrow> ('w, int) srun" where
  "s_connection pt rec self ignore_return invert first second connector =
     (if connector = of_char (CHR ''&'') then
        (case ignoring ignore_return first of
           None \<Rightarrow> xret (EXECUTION_SUCCESS, Go)
         | Some tc \<Rightarrow>
             xbind (during Go (env_op (run_async pt tc))) (\<lambda>(r, _).
               if second = None then xret (r, Go) else rec (ignoring ignore_return second)))
      else if connector = of_char (CHR '';'') \<or> connector = of_char (CHR 0x0A) then
        sbind (rec (ignoring (ignore_return \<or> invert) first))
          (\<lambda>_. rec (ignoring (ignore_return \<or> invert) second))
      else if connector = PIPE_CONNECTOR then
        during Go (\<lambda>b. xbind (env_op (execute_pipeline pt self))
               (\<lambda>r. env_op (command_failed pt (error_trapped pt (env b)) ignore_return invert r)) b)
      else if connector = AND_AND \<or> connector = OR_OR then
        sbind (rec (ignoring True first)) (\<lambda>r.
          if (r = EXECUTION_SUCCESS) = (connector = AND_AND) then rec (ignoring ignore_return second) else xret (r, Go))
      else xjump (Jump_DISCARD, Go))"

definition s_switch ::
  "'w exec_ports \<Rightarrow> nat \<Rightarrow> (command option \<Rightarrow> ('w, int) srun) \<Rightarrow> command \<Rightarrow> bool \<Rightarrow> bool \<Rightarrow> ('w, int) srun" where
  "s_switch pt n rec self ignore_return invert b =
     (let was_error_trap = error_trapped pt (env b);
          ig = ignore_bit (ignore_return \<or> invert);
          failed = (\<lambda>trap r. env_op (command_failed pt trap ignore_return invert r))
      in case cmd_value self of
           Simple flags line ws redirs \<Rightarrow>
             xbind (s_simple pt rec (ig flags) ws redirs)
               (\<lambda>(r, md). during md (failed (was_error_trap \<and> \<not> has_flag flags CMD_COMMAND_BUILTIN) r)) b
         | For_com flags line name ws action \<Rightarrow> s_for pt rec (ig flags) name ws action b
         | Arith_for_com flags line init test step action \<Rightarrow> s_arith_for n pt rec (ig flags) init test step action b
         | Select_com flags line name ws action \<Rightarrow> s_select n pt rec (ig flags) name ws action b
         | Case_com flags line word clauses \<Rightarrow> s_case pt rec (ig flags) word clauses b
         | While_com flags test action \<Rightarrow>
             s_in_loop (s_while_loop n rec False (ignoring True test)
               (ignoring (has_flag (ig flags) CMD_IGNORE_RETURN) action) EXECUTION_SUCCESS) b
         | Until_com flags test action \<Rightarrow>
             s_in_loop (s_while_loop n rec True (ignoring True test)
               (ignoring (has_flag (ig flags) CMD_IGNORE_RETURN) action) EXECUTION_SUCCESS) b
         | If_com flags test true_case false_case \<Rightarrow> s_if rec (ig flags) test true_case false_case b
         | Group_com c \<Rightarrow> rec (ignoring (ignore_return \<or> invert) c) b
         | Connection first second connector \<Rightarrow>
             s_connection pt rec self ignore_return invert first second connector b
         | Arith_com flags line expr \<Rightarrow>
             during Go (xbind (execute_arith_command pt expr) (failed was_error_trap)) b
         | Cond_command cond \<Rightarrow>
             during Go (xbind (execute_cond_command pt ignore_return cond) (failed was_error_trap)) b
         | Function_def flags line name body src \<Rightarrow>
             during Go (xbind (execute_intern_function pt name body) (failed was_error_trap)) b
         | Subshell_com flags line c \<Rightarrow> xret (EXECUTION_SUCCESS, Go) b
         | Coproc_com flags nm c \<Rightarrow> xret (EXECUTION_SUCCESS, Go) b)"

definition s_body ::
  "'w exec_ports \<Rightarrow> nat \<Rightarrow> (command option \<Rightarrow> ('w, int) srun) \<Rightarrow> command \<Rightarrow> ('w, int) srun" where
  "s_body pt n rec c b =
     (let invert = has_flag (cmd_flags c) CMD_INVERT_RETURN;
          flags = (if exit_immediately_on_error pt (env b) \<and> invert then cmd_flags c OR CMD_IGNORE_RETURN else cmd_flags c);
          self = Command flags (cmd_line c) (cmd_redirects c) (cmd_value c);
          ignore_return = has_flag flags CMD_IGNORE_RETURN;
          subshell = (case cmd_value c of Subshell_com _ _ _ \<Rightarrow> True | _ \<Rightarrow> False);
          coproc = (case cmd_value c of Coproc_com _ _ _ \<Rightarrow> True | _ \<Rightarrow> False)
      in if coproc then during Go (xbind (env_op (run_coproc pt self)) (\<lambda>r b. xret r (set_status r b))) b
         else if subshell \<or> has_flag flags (CMD_WANT_SUBSHELL OR CMD_FORCE_SUBSHELL) then
           during Go (execute_forked pt self (subshell \<or> has_flag flags CMD_WANT_SUBSHELL) ignore_return invert) b
         else if has_flag flags CMD_TIME_PIPELINE then
           unwinding (upd_world (print_times pt))
             (rec (Some (Command (flags AND NOT (CMD_TIME_PIPELINE OR CMD_TIME_POSIX)) (cmd_line c) (cmd_redirects c) (cmd_value c)))) b
         else
           xbind (during Go (env_op (do_redirections pt (cmd_redirects c)))) (\<lambda>(ok, _) b1.
             if \<not> ok then
               during Go (redirection_failed pt (error_trapped pt (env b)) ignore_return invert)
                 (upd_world (cleanup_redirects pt (cmd_redirects c)) b1)
             else
               xbind (unwinding (upd_world (cleanup_redirects pt (cmd_redirects c)))
                       (s_switch pt n rec self ignore_return invert))
                 (\<lambda>(r, md). during md (finish_command invert r)) b1) b)"

primrec structured :: "'w exec_ports \<Rightarrow> nat \<Rightarrow> command option \<Rightarrow> ('w, int) srun" where
  "structured pt 0 c b =
     (if read_but_dont_execute pt (env b) then xret (last_command_exit_value (env b), Go) b
      else (case c of None \<Rightarrow> xret (EXECUTION_SUCCESS, Go) b | Some c \<Rightarrow> None))"
| "structured pt (Suc n) c b =
     (if read_but_dont_execute pt (env b) then xret (last_command_exit_value (env b), Go) b
      else (case c of None \<Rightarrow> xret (EXECUTION_SUCCESS, Go) b | Some c \<Rightarrow> s_body pt n (structured pt n) c b))"

section \<open>The code implements it\<close>

fun with_mode :: "mode \<Rightarrow> 'w sstate \<Rightarrow> 'w xstate" where
  "with_mode Go b = \<lparr>base = b, breaking = 0, continuing = 0\<rparr>"
| "with_mode (Break k) b = \<lparr>base = b, breaking = Suc k, continuing = 0\<rparr>"
| "with_mode (Continue k) b = \<lparr>base = b, breaking = 0, continuing = Suc k\<rparr>"

definition counters :: "((jump \<times> mode) + ('v \<times> mode)) \<times> 'w sstate \<Rightarrow> (jump + 'v) \<times> 'w xstate" where
  "counters out = (case out of
      (Inl (j, md), b) \<Rightarrow> (Inl j, with_mode md b) | (Inr (v, md), b) \<Rightarrow> (Inr v, with_mode md b))"

lemma counters_simps [simp]:
  "counters (Inl (j, md), b) = (Inl j, with_mode md b)" "counters (Inr (v, md), b) = (Inr v, with_mode md b)"
  by (simp_all add: counters_def)

text \<open>In the mode \<open>md\<close>, the code's run \<open>C\<close> does what the structured run \<open>A\<close> does.\<close>

definition implements :: "mode \<Rightarrow> ('w xstate, 'v) run \<Rightarrow> ('w, 'v) srun \<Rightarrow> bool" where
  "implements md C A \<longleftrightarrow> (\<forall>b. C (with_mode md b) = map_option counters (A b))"

lemma implementsD: "implements md C A \<Longrightarrow> C (with_mode md b) = map_option counters (A b)"
  by (simp add: implements_def)

lemma implements_xret: "implements md (xret v) (xret (v, md))"
  by (simp add: implements_def xret_def)

lemma implements_xjump: "implements md (xjump j) (xjump (j, md))"
  by (simp add: implements_def xjump_def)

lemma implements_none: "implements md (\<lambda>s. None) (\<lambda>b. None)"
  by (simp add: implements_def)

lemma base_with_mode [simp]: "base (with_mode md b) = b"
  by (cases md) simp_all

lemma update_base_with_mode [simp]: "(with_mode md b)\<lparr>base := b'\<rparr> = with_mode md b'"
  by (cases md) simp_all

lemma base_mod_with_mode [simp]: "base_mod f (with_mode md b) = with_mode md (f b)"
  by (simp add: base_mod_def)

lemma implements_during: "implements md (on_base m) (during md m)"
  by (auto simp: implements_def on_base_def during_def option.map_comp comp_def split: prod.splits sum.splits
      intro!: option.map_cong)

lemma implements_xbind:
  assumes "implements md C A" and "\<And>v md'. implements md' (F v) (G (v, md'))"
  shows "implements md (xbind C F) (xbind A G)"
  unfolding implements_def
proof
  fix b
  have C: "C (with_mode md b) = map_option counters (A b)" using assms(1) by (rule implementsD)
  show "xbind C F (with_mode md b) = map_option counters (xbind A G b)"
  proof (cases "A b")
    case None
    with C show ?thesis by (simp add: xbind_def)
  next
    case (Some out)
    obtain r b' where out: "out = (r, b')" by (cases out)
    show ?thesis
    proof (cases r)
      case (Inl j)
      with C Some out show ?thesis by (cases j) (simp add: xbind_def)
    next
      case (Inr v)
      with C Some out show ?thesis
        using implementsD [OF assms(2)] by (cases v) (simp add: xbind_def)
    qed
  qed
qed

lemma implements_during_bind:
  assumes "\<And>v. implements md (F v) (G v)"
  shows "implements md (xbind (on_base m) F) (xbind (during md m) (\<lambda>(v, _). G v))"
  unfolding implements_def
proof
  fix b
  show "xbind (on_base m) F (with_mode md b) = map_option counters (xbind (during md m) (\<lambda>(v, _). G v) b)"
    using implementsD [OF assms]
    by (cases "m b") (auto simp: xbind_def on_base_def during_def split: prod.splits sum.splits)
qed

lemma implements_if: "(P \<Longrightarrow> implements md C A) \<Longrightarrow> (\<not> P \<Longrightarrow> implements md C' A') \<Longrightarrow>
    implements md (if P then C else C') (if P then A else A')"
  by simp

lemma implements_unwinding:
  "implements md C A \<Longrightarrow> implements md (unwinding (base_mod f) C) (unwinding f A)"
  by (auto simp: implements_def unwinding_def option.map_comp comp_def counters_def split: prod.splits sum.splits
      intro!: option.map_cong)

lemma implements_in_loop: "implements Go C A \<Longrightarrow> implements Go (in_loop C) (s_in_loop A)"
  unfolding implements_def
proof
  fix b assume "\<forall>b. C (with_mode Go b) = map_option counters (A b)"
  then have "C (with_mode Go (enter_loop b)) = map_option counters (A (enter_loop b))" ..
  then show "in_loop C (with_mode Go b) = map_option counters (s_in_loop A b)"
    by (cases "A (enter_loop b)")
      (auto simp: in_loop_def s_in_loop_def xbind_def xret_def base_mod_def counters_def simp del: with_mode.simps split: prod.splits sum.splits)
qed

lemma loop_control_mode:
  "loop_control (with_mode md b) = (case after_round md of (leave, md') \<Rightarrow> Some (Inr leave, with_mode md' b))"
  by (cases md rule: after_round.cases) (simp_all add: loop_control_def xret_def)

lemma after_round_stays: "after_round md = (False, md') \<Longrightarrow> md' = Go"
  by (cases md rule: after_round.cases) auto

text \<open>After the body of a loop; \<open>again\<close> is the next round.\<close>

lemma implements_round:
  assumes "implements md C A" and "\<And>r. implements Go (again r) (s_again r)"
  shows "implements md (xbind C (\<lambda>r. xbind loop_control (\<lambda>leave. if leave then xret r else again r)))
    (xbind A (\<lambda>(r, md). case after_round md of (leave, md') \<Rightarrow> if leave then xret (r, md') else s_again r))"
proof (rule implements_xbind [OF assms(1)])
  fix r md'
  show "implements md' (xbind loop_control (\<lambda>leave. if leave then xret r else again r))
     (case (r, md') of (r, md) \<Rightarrow> case after_round md of (leave, md') \<Rightarrow> if leave then xret (r, md') else s_again r)"
    using implementsD [OF assms(2)]
    by (auto simp: implements_def xbind_def loop_control_mode xret_def split: prod.splits dest: after_round_stays)
qed

lemma loop_count_result:
  "loop_count pt args b = Some (r, b') \<Longrightarrow> loop_level b' = loop_level b \<and> (\<forall>n. r = Inr n \<longrightarrow> n \<le> loop_level b)"
  by (auto simp: loop_count_def xbind_def env_op_def xret_def split: prod.splits sum.splits)

lemma implements_loop_exit:
  "implements Go (break_builtin pt args) (loop_exit_builtin pt Break args)"
  "implements Go (continue_builtin pt args) (loop_exit_builtin pt Continue args)"
  by (auto simp: implements_def break_builtin_def continue_builtin_def loop_exit_builtin_def xret_def xbind_def
      on_base_def during_def Suc_diff_Suc dest!: loop_count_result split: option.splits prod.splits sum.splits)

lemma implements_builtin: "implements Go (execute_builtin pt words flags) (s_builtin pt words flags)"
  unfolding execute_builtin_def s_builtin_def
  by (intro implements_during_bind implements_if implements_xret implements_loop_exit implements_during)

lemma xbind_xret: "xbind (xret v) F = F v"
  by (simp add: xbind_def xret_def fun_eq_iff)

section \<open>What a construct needs of the commands in it\<close>

text \<open>\<open>rec\<close> executes a command as \<open>srec\<close> says, skips it when a loop is being left, and the status of a
  command that leaves a loop is \<open>$?\<close>.\<close>

locale implemented =
  fixes rec :: "command option \<Rightarrow> ('w xstate, int) run" and srec :: "command option \<Rightarrow> ('w, int) srun"
  assumes runs: "implements Go (rec c) (srec c)"
    and skips: "md \<noteq> Go \<Longrightarrow> rec c (with_mode md b) = Some (Inr (last_command_exit_value (env b)), with_mode md b)"
    and settled: "srec c b = Some (Inr (v, md), b') \<Longrightarrow> md \<noteq> Go \<Longrightarrow> last_command_exit_value (env b') = v"
begin

text \<open>What follows a command that was executed; \<open>b\<close> is the state when it left a loop.\<close>

lemma implements_rec:
  assumes "\<And>v. implements Go (F v) (G (v, Go))"
    and "\<And>v md b. md \<noteq> Go \<Longrightarrow> last_command_exit_value (env b) = v \<Longrightarrow> F v (with_mode md b) = map_option counters (G (v, md) b)"
  shows "implements Go (xbind (rec c) F) (xbind (srec c) G)"
  unfolding implements_def
proof
  fix b
  have C: "rec c (with_mode Go b) = map_option counters (srec c b)" using runs by (rule implementsD)
  show "xbind (rec c) F (with_mode Go b) = map_option counters (xbind (srec c) G b)"
  proof (cases "srec c b")
    case None
    with C show ?thesis by (simp add: xbind_def)
  next
    case (Some out)
    obtain r b' where out: "out = (r, b')" by (cases out)
    show ?thesis
    proof (cases r)
      case (Inl j)
      with C Some out show ?thesis by (cases j) (simp add: xbind_def)
    next
      case (Inr w)
      obtain v md where w: "w = (v, md)" by (cases w)
      have "F v (with_mode md b') = map_option counters (G (v, md) b')"
      proof (cases "md = Go")
        case True
        then show ?thesis using implementsD [OF assms(1)] by blast
      next
        case False
        with Some out Inr w have "last_command_exit_value (env b') = v" by (intro settled [of c b v md b']) simp_all
        with False show ?thesis by (rule assms(2))
      qed
      with C Some out Inr w show ?thesis by (simp add: xbind_def del: with_mode.simps)
    qed
  qed
qed

lemma implements_sbind:
  assumes "\<And>v. implements Go (F v) (G v)"
    and "\<And>v md b. md \<noteq> Go \<Longrightarrow> last_command_exit_value (env b) = v \<Longrightarrow> F v (with_mode md b) = Some (Inr v, with_mode md b)"
  shows "implements Go (xbind (rec c) F) (sbind (srec c) G)"
  unfolding sbind_def using assms by (intro implements_rec) (simp_all add: xret_def)

lemma implements_function: "implements Go (execute_function pt rec body words flags) (s_function pt srec body words flags)"
  unfolding execute_function_def s_function_def
proof (rule implements_during_bind)
  fix go_on
  let ?c = "ignoring (has_flag flags CMD_IGNORE_RETURN) (Some body)"
  have "implements Go (unwinding (base_mod (function_exit pt b)) (rec ?c)) (unwinding (function_exit pt b) (srec ?c))" for b
    using runs by (rule implements_unwinding)
  then have eq: "unwinding (base_mod (function_exit pt b)) (rec ?c) (with_mode Go (function_entry pt words b)) =
      map_option counters (unwinding (function_exit pt b) (srec ?c) (function_entry pt words b))" for b
    by (rule implementsD)
  have "catch_return (unwinding (base_mod (function_exit pt b)) (rec ?c)) (with_mode Go (function_entry pt words b)) =
      map_option counters (s_catch_return (unwinding (function_exit pt b) (srec ?c)) (function_entry pt words b))" for b
    unfolding catch_return_def s_catch_return_def eq
    by (auto simp: counters_def split: option.splits prod.splits sum.splits jump.splits)
  then show "implements Go
     (\<lambda>s. if \<not> go_on then xret EXECUTION_FAILURE s
          else catch_return (unwinding (base_mod (function_exit pt (base s))) (rec ?c)) (base_mod (function_entry pt words) s))
     (\<lambda>b. if \<not> go_on then xret (EXECUTION_FAILURE, Go) b
          else s_catch_return (unwinding (function_exit pt b) (srec ?c)) (function_entry pt words b))"
    by (simp add: implements_def xret_def base_mod_def)
qed

lemma implements_dispatch:
  "implements Go (rash_stage_dispatch_simple pt rec words flags t redirs) (s_dispatch pt srec words flags t redirs)"
proof -
  have "implements Go (case t of Function body \<Rightarrow> execute_function pt rec body words flags | _ \<Rightarrow> execute_builtin pt words flags)
      (case t of Function body \<Rightarrow> s_function pt srec body words flags | _ \<Rightarrow> s_builtin pt words flags)"
    by (cases t) (simp_all add: implements_function implements_builtin)
  moreover have "implements md' (case dispatched_status t v of Some v \<Rightarrow> xret v
         | None \<Rightarrow> on_base (env_op (execute_disk_command pt words redirs flags)))
       (case (v, md') of (r, md) \<Rightarrow> case dispatched_status t r of Some v \<Rightarrow> xret (v, md)
         | None \<Rightarrow> during md (env_op (execute_disk_command pt words redirs flags)))" for v md'
    by (simp add: implements_xret implements_during split: option.split)
  ultimately show ?thesis
    unfolding rash_stage_dispatch_simple_def s_dispatch_def execute_builtin_or_function_def
    by (intro implements_if implements_xret implements_during implements_xbind implements_during_bind implements_unwinding)
qed

lemma implements_simple: "implements Go (execute_simple_command pt rec flags ws redirs) (s_simple pt srec flags ws redirs)"
proof -
  have "implements md' (on_base (simple_finish pt cap words v)) (case (v, md') of (r, md) \<Rightarrow> during md (simple_finish pt cap words r))"
    for cap words v md' by (simp add: implements_during)
  note fin = implements_xbind [OF implements_dispatch this]
  show ?thesis
    unfolding execute_simple_command_def s_simple_def
    by (rule implements_during_bind) (auto intro!: fin implements_xret split: sum.split prod.split)
qed

lemma implements_for_loop: "implements Go (for_loop pt rec name action ws r) (s_for_loop pt srec name action ws r)"
proof (induction ws arbitrary: r)
  case Nil
  then show ?case by (simp add: implements_xret)
next
  case (Cons w ws)
  show ?case
    unfolding for_loop.simps s_for_loop.simps
    by (intro implements_during_bind implements_if implements_xret implements_round runs Cons)
qed

lemma implements_for: "implements Go (execute_for_command pt rec flags name ws action) (s_for pt srec flags name ws action)"
proof (cases "loop_name name")
  case None
  then show ?thesis by (simp add: execute_for_command_def s_for_def implements_xret)
next
  case (Some x)
  then show ?thesis
    unfolding execute_for_command_def s_for_def Some option.case
    by (intro implements_in_loop implements_during_bind implements_for_loop)
qed

lemma implements_select_loop: "implements Go (select_loop k pt rec name action ws) (s_select_loop k pt srec name action ws)"
proof (induction k)
  case 0
  then show ?case by (simp add: implements_none)
next
  case (Suc k)
  have "implements Go
      (case sel of None \<Rightarrow> xret EXECUTION_FAILURE | Some w \<Rightarrow> xbind (on_base (env_op (bind_loop_variable pt name w))) (\<lambda>ok.
           if \<not> ok then xret EXECUTION_FAILURE
           else xbind (rec action) (\<lambda>r. xbind loop_control (\<lambda>leave. if leave then xret r else select_loop k pt rec name action ws))))
      (case sel of None \<Rightarrow> xret (EXECUTION_FAILURE, Go) | Some w \<Rightarrow> xbind (during Go (env_op (bind_loop_variable pt name w))) (\<lambda>(ok, _).
           if \<not> ok then xret (EXECUTION_FAILURE, Go)
           else xbind (srec action) (\<lambda>(r, md). case after_round md of (leave, md') \<Rightarrow>
                  if leave then xret (r, md') else s_select_loop k pt srec name action ws)))" for sel
    by (cases sel) (simp_all only: option.case, intro implements_xret,
      intro implements_during_bind implements_if implements_xret implements_round runs Suc)
  then show ?case unfolding select_loop.simps s_select_loop.simps by (intro implements_during_bind)
qed

text \<open>Leaving a loop after its body.\<close>

lemma implements_leave: "implements Go C A \<Longrightarrow>
    implements Go (xbind C (\<lambda>r s. xret r (base_mod leave_loop s))) (xbind A (\<lambda>r b. xret r (leave_loop b)))"
proof (rule implements_xbind)
  show "implements md (\<lambda>s. xret v (base_mod leave_loop s)) (\<lambda>b. xret (v, md) (leave_loop b))" for v md
    by (simp add: implements_def xret_def)
qed

lemma implements_select: "implements Go (execute_select_command k pt rec flags name ws action) (s_select k pt srec flags name ws action)"
proof (cases "loop_name name")
  case None
  then show ?thesis by (simp add: execute_select_command_def s_select_def implements_xret)
next
  case (Some x)
  let ?a = "ignoring (has_flag flags CMD_IGNORE_RETURN) action"
  have "implements Go
     (xbind (on_base (env_op (expand_words_no_vars pt ws))) (\<lambda>words.
          if words = [] then xret EXECUTION_SUCCESS
          else xbind (select_loop k pt rec x ?a words) (\<lambda>r s. xret r (base_mod leave_loop s))))
     (xbind (during Go (env_op (expand_words_no_vars pt ws))) (\<lambda>(words, _).
          if words = [] then xret (EXECUTION_SUCCESS, Go)
          else xbind (s_select_loop k pt srec x ?a words) (\<lambda>r b. xret r (leave_loop b))))"
    by (intro implements_during_bind implements_if implements_xret implements_leave implements_select_loop)
  from implementsD [OF this] show ?thesis
    unfolding execute_select_command_def s_select_def Some option.case
    by (simp add: implements_def base_mod_def)
qed

lemma implements_while_loop:
  "implements Go (while_loop k rec until test action r) (s_while_loop k srec until test action r)"
proof (induction k arbitrary: r)
  case 0
  then show ?case by (simp add: implements_none)
next
  case (Suc k)
  let ?round = "\<lambda>r. xbind loop_control (\<lambda>leave. if leave then xret r else while_loop k rec until test action r)"
  show ?case
    unfolding while_loop.simps s_while_loop.simps
  proof (rule implements_rec)
    fix v
    have "implements Go (\<lambda>s :: 'w xstate. xret r (s\<lparr>breaking := breaking s - 1, continuing := continuing s - 1\<rparr>)) (xret (r, Go))"
      by (simp add: implements_def xret_def)
    moreover note implements_round [OF runs Suc, of action "\<lambda>r. r"]
    ultimately show "implements Go
        (if (v = EXECUTION_SUCCESS) = until then (\<lambda>s. xret r (s\<lparr>breaking := breaking s - 1, continuing := continuing s - 1\<rparr>))
         else xbind (rec action) ?round)
        (case (v, Go) of (v, md) \<Rightarrow>
         if (v = EXECUTION_SUCCESS) = until then xret (r, loop_over md)
         else xbind (if md = Go then srec action else xret (v, md)) (\<lambda>(r, md). case after_round md of (leave, md') \<Rightarrow>
              if leave then xret (r, md') else s_while_loop k srec until test action r))"
      by simp
  next
    fix v md and b :: "'w sstate" assume md: "md \<noteq> Go" and v: "last_command_exit_value (env b) = v"
    have "with_mode md b\<lparr>breaking := breaking (with_mode md b) - 1, continuing := continuing (with_mode md b) - 1\<rparr> =
        with_mode (loop_over md) b"
      by (cases md rule: loop_over.cases) simp_all
    moreover have "xbind (rec action) ?round (with_mode md b) = ?round v (with_mode md b)"
      using skips [OF md, of action b] v by (simp add: xbind_def)
    moreover have "\<dots> = map_option counters ((case after_round md of (leave, md') \<Rightarrow>
              if leave then xret (v, md') else s_while_loop k srec until test action v) b)"
      using implementsD [OF Suc]
      by (auto simp: xbind_def loop_control_mode xret_def split: prod.splits dest: after_round_stays)
    ultimately show "(if (v = EXECUTION_SUCCESS) = until then (\<lambda>s. xret r (s\<lparr>breaking := breaking s - 1, continuing := continuing s - 1\<rparr>))
         else xbind (rec action) ?round) (with_mode md b) =
        map_option counters ((case (v, md) of (v, md) \<Rightarrow>
         if (v = EXECUTION_SUCCESS) = until then xret (r, loop_over md)
         else xbind (if md = Go then srec action else xret (v, md)) (\<lambda>(r, md). case after_round md of (leave, md') \<Rightarrow>
              if leave then xret (r, md') else s_while_loop k srec until test action r)) b)"
      using md by (auto simp: xret_def xbind_def)
  qed
qed

lemma implements_arith_for_loop:
  "implements Go (arith_for_loop k pt rec test step action r) (s_arith_for_loop k pt srec test step action r)"
proof (induction k arbitrary: r)
  case 0
  then show ?case by (simp add: implements_none)
next
  case (Suc k)
  have step: "implements Go
      (xbind (on_base (env_op (eval_arith_for_expr pt step))) (\<lambda>v. case v of None \<Rightarrow> xret EXECUTION_FAILURE
                         | Some _ \<Rightarrow> arith_for_loop k pt rec test step action r))
      (xbind (during Go (env_op (eval_arith_for_expr pt step))) (\<lambda>(v, _). case v of None \<Rightarrow> xret (EXECUTION_FAILURE, Go)
                         | Some _ \<Rightarrow> s_arith_for_loop k pt srec test step action r))" for r
    by (intro implements_during_bind) (simp add: implements_xret Suc split: option.split)
  have quiet: "xbind loop_control F (with_mode Go b) = F False (with_mode Go b)"
    for F :: "bool \<Rightarrow> ('w xstate, int) run" and b
    by (simp add: xbind_def loop_control_def xret_def)
  have "implements Go
      (xbind loop_control (\<lambda>leave. case v of None \<Rightarrow> xret EXECUTION_FAILURE
       | Some x \<Rightarrow> if leave \<or> x = 0 then xret r
           else xbind (rec action) (\<lambda>r. xbind loop_control (\<lambda>leave. if leave then xret r
                  else xbind (on_base (env_op (eval_arith_for_expr pt step))) (\<lambda>v. case v of None \<Rightarrow> xret EXECUTION_FAILURE
                         | Some _ \<Rightarrow> arith_for_loop k pt rec test step action r)))))
      (case v of None \<Rightarrow> xret (EXECUTION_FAILURE, Go)
       | Some x \<Rightarrow> if x = 0 then xret (r, Go)
           else xbind (srec action) (\<lambda>(r, md). case after_round md of (leave, md') \<Rightarrow> if leave then xret (r, md')
                  else xbind (during Go (env_op (eval_arith_for_expr pt step))) (\<lambda>(v, _). case v of None \<Rightarrow> xret (EXECUTION_FAILURE, Go)
                         | Some _ \<Rightarrow> s_arith_for_loop k pt srec test step action r)))" for v
    unfolding implements_def quiet
    using implementsD [OF implements_round [OF runs step]]
    by (cases v) (auto simp: xret_def)
  then show ?case unfolding arith_for_loop.simps s_arith_for_loop.simps by (intro implements_during_bind)
qed

lemma implements_arith_for:
  "implements Go (execute_arith_for_command k pt rec flags init test step action) (s_arith_for k pt srec flags init test step action)"
  unfolding execute_arith_for_command_def s_arith_for_def
  by (intro implements_in_loop implements_during_bind)
    (simp add: implements_xret implements_arith_for_loop split: option.split)

lemma implements_if_command:
  "implements Go (execute_if_command rec flags test t e) (s_if srec flags test t e)"
  unfolding execute_if_command_def s_if_def
  by (intro implements_sbind runs) (simp add: skips)

lemma implements_case_loop:
  "implements md (case_loop pt rec ig subj matched clauses r) (s_case_loop pt srec ig subj matched md clauses r)"
proof (induction clauses arbitrary: md matched r)
  case Nil
  then show ?case by (simp add: implements_xret)
next
  case (Cons clause clauses)
  let ?c = "ignoring ig (fst (snd clause))"
  have body: "implements md (rec ?c) (if md = Go then srec ?c else (\<lambda>b. xret (last_command_exit_value (env b), md) b))" for md
    using runs skips by (auto simp: implements_def xret_def simp del: with_mode.simps)
  have matched: "implements md
      (xbind (rec ?c) (\<lambda>r. if has_flag (snd (snd clause)) CASEPAT_FALLTHROUGH then case_loop pt rec ig subj True clauses r
           else if has_flag (snd (snd clause)) CASEPAT_TESTNEXT then case_loop pt rec ig subj False clauses r
           else xret r))
      (xbind (if md = Go then srec ?c else (\<lambda>b. xret (last_command_exit_value (env b), md) b)) (\<lambda>(r, md').
           if has_flag (snd (snd clause)) CASEPAT_FALLTHROUGH then s_case_loop pt srec ig subj True md' clauses r
           else if has_flag (snd (snd clause)) CASEPAT_TESTNEXT then s_case_loop pt srec ig subj False md' clauses r
           else xret (r, md')))" for md
    using body by (rule implements_xbind) (simp add: Cons implements_xret)
  have test: "implements md (xbind (on_base (match_patterns pt (fst clause) subj)) F)
      (xbind (during md (match_patterns pt (fst clause) subj)) (\<lambda>(m, _). G m))"
    if "\<And>m. implements md (F m) (G m)" for F :: "bool \<Rightarrow> ('w xstate, int) run" and G md
    using that by (rule implements_during_bind)
  show ?case
  proof (cases matched)
    case True
    then show ?thesis using matched by (simp add: xbind_xret)
  next
    case False
    have "implements md
      (xbind (on_base (match_patterns pt (fst clause) subj)) (\<lambda>m. if m then
         xbind (rec ?c) (\<lambda>r. if has_flag (snd (snd clause)) CASEPAT_FALLTHROUGH then case_loop pt rec ig subj True clauses r
           else if has_flag (snd (snd clause)) CASEPAT_TESTNEXT then case_loop pt rec ig subj False clauses r
           else xret r)
       else case_loop pt rec ig subj False clauses r))
      (xbind (during md (match_patterns pt (fst clause) subj)) (\<lambda>(m, _). if m then
         xbind (if md = Go then srec ?c else (\<lambda>b. xret (last_command_exit_value (env b), md) b)) (\<lambda>(r, md').
           if has_flag (snd (snd clause)) CASEPAT_FALLTHROUGH then s_case_loop pt srec ig subj True md' clauses r
           else if has_flag (snd (snd clause)) CASEPAT_TESTNEXT then s_case_loop pt srec ig subj False md' clauses r
           else xret (r, md'))
       else s_case_loop pt srec ig subj False md clauses r))"
      by (intro test implements_if matched Cons)
    with False show ?thesis by simp
  qed
qed

lemma implements_case: "implements Go (execute_case_command pt rec flags word clauses) (s_case pt srec flags word clauses)"
  unfolding execute_case_command_def s_case_def by (intro implements_during_bind implements_case_loop)

lemma implements_connection:
  "implements Go (execute_connection pt rec self ig invd first second connector)
     (s_connection pt srec self ig invd first second connector)"
proof -
  have async: "implements Go
      (case ignoring ig first of None \<Rightarrow> xret EXECUTION_SUCCESS
       | Some tc \<Rightarrow> xbind (on_base (env_op (run_async pt tc))) (\<lambda>r. if second = None then xret r else rec (ignoring ig second)))
      (case ignoring ig first of None \<Rightarrow> xret (EXECUTION_SUCCESS, Go)
       | Some tc \<Rightarrow> xbind (during Go (env_op (run_async pt tc))) (\<lambda>(r, _). if second = None then xret (r, Go) else srec (ignoring ig second)))"
    by (cases "ignoring ig first") (auto intro!: implements_xret implements_during_bind implements_if runs)
  have pipe: "implements Go
      (\<lambda>s. xbind (on_base (env_op (execute_pipeline pt self)))
               (\<lambda>r. on_base (env_op (command_failed pt (error_trapped pt (env (base s))) ig invd r))) s)
      (during Go (\<lambda>b. xbind (env_op (execute_pipeline pt self))
               (\<lambda>r. env_op (command_failed pt (error_trapped pt (env b)) ig invd r)) b))"
    by (auto simp: implements_def xbind_def on_base_def during_def env_op_def simp del: with_mode.simps split: prod.splits sum.splits)
  have list: "implements Go
      (xbind (rec c1) (\<lambda>_. rec c2)) (sbind (srec c1) (\<lambda>_. srec c2))" for c1 c2
    by (intro implements_sbind runs) (simp add: skips)
  have andor: "implements Go
      (xbind (rec c1) (\<lambda>r. if (r = EXECUTION_SUCCESS) = P then rec c2 else xret r))
      (sbind (srec c1) (\<lambda>r. if (r = EXECUTION_SUCCESS) = P then srec c2 else xret (r, Go)))" for c1 c2 P
    by (intro implements_sbind implements_if implements_xret runs) (simp add: skips xret_def)
  show ?thesis
    unfolding execute_connection_def s_connection_def
    by (intro implements_if async list pipe andor implements_xjump)
qed

text \<open>A command, and then the ERR trap and \<open>set -e\<close>.\<close>

lemma implements_then:
  assumes "implements Go C A"
  shows "implements Go (xbind C (\<lambda>r. on_base (m r))) (xbind A (\<lambda>(r, md). during md (m r)))"
  using assms by (rule implements_xbind) (simp add: implements_during)

lemma implements_during_then:
  "implements Go (xbind (on_base m) (\<lambda>r. on_base (m' r))) (during Go (xbind m m'))"
  by (auto simp: implements_def xbind_def on_base_def during_def option.map_comp comp_def simp del: with_mode.simps
      split: option.splits prod.splits sum.splits intro!: option.map_cong)

lemma implements_switch:
  "implements Go (execute_switch pt n rec self ig invd) (s_switch pt n srec self ig invd)"
  unfolding implements_def execute_switch_def s_switch_def execute_while_or_until_def Let_def base_with_mode
  by (cases "cmd_value self")
    (simp_all only: command_value.case implementsD [OF implements_then] implementsD [OF implements_during_then]
      implementsD [OF implements_simple] implements_simple
      implementsD [OF implements_for] implementsD [OF implements_arith_for] implementsD [OF implements_select]
      implementsD [OF implements_case] implementsD [OF implements_in_loop] implements_while_loop
      implementsD [OF implements_if_command] implementsD [OF runs] implementsD [OF implements_connection]
      implementsD [OF implements_xret] simp_thms)

lemma implements_body: "implements Go (command_body pt n rec c) (s_body pt n srec c)"
proof -
  have main: "implements Go
      (\<lambda>s. xbind (on_base (env_op (do_redirections pt rs))) (\<lambda>ok s1.
             if \<not> ok then
               on_base (redirection_failed pt trap ig invd) (base_mod (upd_world (cleanup_redirects pt rs)) s1)
             else
               xbind (unwinding (base_mod (upd_world (cleanup_redirects pt rs)))
                       (execute_switch pt n rec self ig invd))
                 (\<lambda>r. on_base (finish_command invd r)) s1) s)
      (\<lambda>b. xbind (during Go (env_op (do_redirections pt rs))) (\<lambda>(ok, _) b1.
             if \<not> ok then
               during Go (redirection_failed pt trap ig invd) (upd_world (cleanup_redirects pt rs) b1)
             else
               xbind (unwinding (upd_world (cleanup_redirects pt rs))
                       (s_switch pt n srec self ig invd))
                 (\<lambda>(r, md). during md (finish_command invd r)) b1) b)" for rs trap ig invd self
  proof (rule implements_during_bind)
    fix ok
    show "implements Go
      (\<lambda>s1. if \<not> ok then on_base (redirection_failed pt trap ig invd) (base_mod (upd_world (cleanup_redirects pt rs)) s1)
             else xbind (unwinding (base_mod (upd_world (cleanup_redirects pt rs))) (execute_switch pt n rec self ig invd))
                 (\<lambda>r. on_base (finish_command invd r)) s1)
      (\<lambda>b1. if \<not> ok then during Go (redirection_failed pt trap ig invd) (upd_world (cleanup_redirects pt rs) b1)
             else xbind (unwinding (upd_world (cleanup_redirects pt rs)) (s_switch pt n srec self ig invd))
                 (\<lambda>(r, md). during md (finish_command invd r)) b1)"
      unfolding implements_def
      by (simp add: implementsD [OF implements_during] implementsD [OF implements_then]
          implements_unwinding implements_switch del: with_mode.simps)
  qed
  show ?thesis
    unfolding implements_def command_body_def s_body_def Let_def base_with_mode
    by (simp only: implementsD [OF main] implementsD [OF implements_during] implementsD [OF implements_unwinding [OF runs]]
        if_distrib [of "map_option counters"] simp_thms)
qed

end

section \<open>Every command\<close>

lemma during_settled: "during md m b = Some (Inr (v, md'), b') \<Longrightarrow> md' = md \<and> m b = Some (Inr v, b')"
  by (auto simp: during_def split: sum.splits) (metis sum.exhaust)+

lemma s_body_settled:
  assumes "s_body pt n srec c b = Some (Inr (v, md), b')" and "md \<noteq> Go"
    and "\<And>c b v md b'. srec c b = Some (Inr (v, md), b') \<Longrightarrow> md \<noteq> Go \<Longrightarrow> last_command_exit_value (env b') = v"
  shows "last_command_exit_value (env b') = v"
  using assms
  by (auto simp: s_body_def Let_def xbind_def unwinding_def finish_command_def xret_def set_status_def upd_env_def
      upd_world_def dest!: during_settled split: if_splits option.splits prod.splits sum.splits)

lemma structured_settled:
  "structured pt n c b = Some (Inr (v, md), b') \<Longrightarrow> md \<noteq> Go \<Longrightarrow> last_command_exit_value (env b') = v"
proof (induction n arbitrary: c b v md b')
  case 0
  then show ?case by (auto simp: xret_def split: if_splits option.splits)
next
  case (Suc n)
  then show ?case
    by (auto simp: xret_def dest: s_body_settled [OF _ _ Suc.IH] split: if_splits option.splits)
qed

lemma execute_skips:
  "md \<noteq> Go \<Longrightarrow> execute pt n c (with_mode md b) = Some (Inr (last_command_exit_value (env b)), with_mode md b)"
  by (cases n; cases md) (simp_all add: execute_command_internal_def xret_def)

lemma implements_execute: "implements Go (execute pt n c) (structured pt n c)"
proof (induction n arbitrary: c)
  case 0
  then show ?case
    by (auto simp: implements_def execute_command_internal_def xret_def split: option.split)
next
  case (Suc n)
  have "implemented (execute pt n) (structured pt n)"
    by unfold_locales (fact Suc, fact execute_skips, fact structured_settled)
  then show ?case
    using implementsD [OF implemented.implements_body]
    by (auto simp: implements_def execute_command_internal_def xret_def split: option.split)
qed

interpretation executor: implemented "execute pt n" "structured pt n" for pt :: "'w exec_ports" and n
  by unfold_locales (fact implements_execute, fact execute_skips, fact structured_settled)

text \<open>C9: The counters \<open>breaking\<close> and \<open>continuing\<close> and the test at the start of
  \<open>execute_command_internal\<close> do what structured \<open>break\<close> and \<open>continue\<close> mean, for every command, from
  a state in which no loop is being left: the same status or jump, the same state, and the counters
  that the outcome stands for.\<close>

theorem counters_implement_loop_exits:
  "execute pt n c \<lparr>base = b, breaking = 0, continuing = 0\<rparr> = map_option counters (structured pt n c b)"
  using implementsD [OF executor.runs, of pt n c b] by simp

end
