(* ===== verification/Exec_Loops.thy ===== *)
theory Exec_Loops
  imports Exec_Structured Exec_Errexit
begin

text \<open>
  \<open>loop_level\<close>, \<open>breaking\<close> and \<open>continuing\<close> (builtins/break.def, execute_cmd.c). A command that
  finishes leaves \<open>loop_level\<close> as it was and asks to leave at most that many loops, so at the top
  level and at the start of a function nothing is left to be broken out of. The one construct that
  does not keep this is \<open>select\<close> over no words: it returns from within its own level.
\<close>

section \<open>Commands without select\<close>

definition all_some :: "bool option \<Rightarrow> bool" where
  "all_some x \<longleftrightarrow> x \<noteq> Some False"

primrec no_select :: "command \<Rightarrow> bool" and no_select_value :: "command_value \<Rightarrow> bool" where
  "no_select (Command flags line redirs v) = no_select_value v"
| "no_select_value (Simple flags line ws redirs) = True"
| "no_select_value (Connection first second connector) =
     (all_some (map_option no_select first) \<and> all_some (map_option no_select second))"
| "no_select_value (For_com flags line name ws action) = all_some (map_option no_select action)"
| "no_select_value (Case_com flags line word clauses) =
     list_all (\<lambda>clause. all_some (fst (snd clause)))
       (map (map_prod id (map_prod (map_option no_select) id)) clauses)"
| "no_select_value (While_com flags test action) =
     (all_some (map_option no_select test) \<and> all_some (map_option no_select action))"
| "no_select_value (Until_com flags test action) =
     (all_some (map_option no_select test) \<and> all_some (map_option no_select action))"
| "no_select_value (If_com flags test t e) =
     (all_some (map_option no_select test) \<and> all_some (map_option no_select t) \<and> all_some (map_option no_select e))"
| "no_select_value (Function_def flags line name body src) = all_some (map_option no_select body)"
| "no_select_value (Group_com c) = all_some (map_option no_select c)"
| "no_select_value (Select_com flags line name ws action) = False"
| "no_select_value (Arith_com flags line ws) = True"
| "no_select_value (Cond_command c) = True"
| "no_select_value (Arith_for_com flags line init test step action) = all_some (map_option no_select action)"
| "no_select_value (Subshell_com flags line c) = True"
| "no_select_value (Coproc_com flags name c) = True"

definition plain :: "command option \<Rightarrow> bool" where
  "plain c \<longleftrightarrow> all_some (map_option no_select c)"

lemma plain_simps [simp]: "plain None" "plain (Some c) \<longleftrightarrow> no_select c"
  by (simp_all add: plain_def all_some_def)

lemma no_select_collapse [simp]: "no_select (Command flags line redirs (cmd_value c)) = no_select c"
  by (cases c) simp

lemma plain_ignoring [simp]: "plain (ignoring b c) = plain c"
proof (cases c)
  case (Some a)
  then show ?thesis by (cases a) (simp add: ignoring_def or_flags_def)
qed (simp add: ignoring_def or_flags_def)

section \<open>Balanced runs\<close>

text \<open>The functions that may be called have no \<open>select\<close> either.\<close>

definition plain_functions :: "'w senv \<Rightarrow> bool" where
  "plain_functions e \<longleftrightarrow> (\<forall>f c. shell_functions e f = Some c \<longrightarrow> no_select c)"

fun level :: "mode \<Rightarrow> nat" where
  "level Go = 0"
| "level (Break k) = Suc k"
| "level (Continue k) = Suc k"

text \<open>A run from the mode \<open>md\<close> that keeps the level of the loops and asks to leave at most the loops
  around it but \<open>d\<close>; a \<open>return\<close> comes only when no loop is being left.\<close>

definition in_balance :: "nat \<Rightarrow> nat \<Rightarrow> ((jump \<times> mode) + ('v \<times> mode)) \<times> 'w sstate \<Rightarrow> bool" where
  "in_balance l most out \<longleftrightarrow>
     (case out of
        (Inr (v, md), b) \<Rightarrow> loop_level b = l \<and> level md \<le> most \<and> plain_functions (env b)
      | (Inl (j, md), b) \<Rightarrow> (\<forall>v. j = Return_catch v \<longrightarrow> md = Go \<and> plain_functions (env b)))"

lemma in_balance_simps [simp]:
  "in_balance l most (Inr (v, md), b) \<longleftrightarrow> loop_level b = l \<and> level md \<le> most \<and> plain_functions (env b)"
  "in_balance l most (Inl (j, md), b) \<longleftrightarrow> (\<forall>v. j = Return_catch v \<longrightarrow> md = Go \<and> plain_functions (env b))"
  by (simp_all add: in_balance_def)

definition balanced :: "nat \<Rightarrow> mode \<Rightarrow> ('w, 'v) srun \<Rightarrow> bool" where
  "balanced d md m \<longleftrightarrow>
     (\<forall>b out. plain_functions (env b) \<longrightarrow> level md \<le> loop_level b \<longrightarrow> m b = Some out \<longrightarrow>
       in_balance (loop_level b) (loop_level b - d) out)"

lemma balancedD:
  "balanced d md m \<Longrightarrow> m b = Some out \<Longrightarrow> plain_functions (env b) \<Longrightarrow> level md \<le> loop_level b \<Longrightarrow>
     in_balance (loop_level b) (loop_level b - d) out"
  unfolding balanced_def by blast

text \<open>The same of an operation that knows nothing of the mode.\<close>

definition steady :: "('w sstate, 'v) run \<Rightarrow> bool" where
  "steady m \<longleftrightarrow>
     (\<forall>b r b'. plain_functions (env b) \<longrightarrow> m b = Some (r, b') \<longrightarrow>
       (case r of
          Inr v \<Rightarrow> loop_level b' = loop_level b \<and> plain_functions (env b')
        | Inl j \<Rightarrow> (\<forall>v. j = Return_catch v \<longrightarrow> plain_functions (env b'))))"

lemma steadyD:
  "steady m \<Longrightarrow> m b = Some (Inr v, b') \<Longrightarrow> plain_functions (env b) \<Longrightarrow>
     loop_level b' = loop_level b \<and> plain_functions (env b')"
  "steady m \<Longrightarrow> m b = Some (Inl (Return_catch u), b') \<Longrightarrow> plain_functions (env b) \<Longrightarrow> plain_functions (env b')"
  by (force simp: steady_def)+

lemma steadyI:
  assumes "\<And>b v b'. plain_functions (env b) \<Longrightarrow> m b = Some (Inr v, b') \<Longrightarrow> loop_level b' = loop_level b \<and> plain_functions (env b')"
    and "\<And>b v b'. plain_functions (env b) \<Longrightarrow> m b = Some (Inl (Return_catch v), b') \<Longrightarrow> plain_functions (env b')"
  shows "steady m"
  unfolding steady_def
proof (intro allI impI)
  fix b r b'
  assume b: "plain_functions (env b)" "m b = Some (r, b')"
  show "case r of Inr v \<Rightarrow> loop_level b' = loop_level b \<and> plain_functions (env b')
      | Inl j \<Rightarrow> \<forall>v. j = Return_catch v \<longrightarrow> plain_functions (env b')"
    using assms(1) [OF b(1), of _ b'] assms(2) [OF b(1), of _ b'] b(2)
    by (cases r) auto
qed

lemma during_out:
  assumes "during md m b = Some out"
  obtains (val) v b' where "m b = Some (Inr v, b')" "out = (Inr (v, md), b')"
  | (jmp) j b' where "m b = Some (Inl j, b')" "out = (Inl (j, md), b')"
  using assms by (cases "m b") (auto simp: during_def split: sum.splits elim: that)

definition no_return :: "('w sstate, 'v) run \<Rightarrow> bool" where
  "no_return m \<longleftrightarrow> (\<forall>b v b'. m b \<noteq> Some (Inl (Return_catch v), b'))"

definition tame :: "('w, 'v) envop \<Rightarrow> bool" where
  "tame f \<longleftrightarrow> (\<forall>e. plain_functions e \<longrightarrow> plain_functions (snd (f e))) \<and> (\<forall>e v. fst (f e) \<noteq> Inl (Return_catch v))"

named_theorems level_rules

lemma balanced_xret [level_rules]: "level md \<le> 0 \<Longrightarrow> balanced d md' (xret (v, md))"
  by (simp add: balanced_def xret_def)

lemma balanced_xret_same: "balanced 0 md (xret (v, md))"
  by (simp add: balanced_def xret_def)

lemma balanced_none [level_rules]: "balanced d md (\<lambda>b. None)"
  by (simp add: balanced_def)

lemma balanced_if [level_rules]: "(P \<Longrightarrow> balanced d md m) \<Longrightarrow> (\<not> P \<Longrightarrow> balanced d md m') \<Longrightarrow> balanced d md (if P then m else m')"
  by simp

lemma balanced_xbind:
  fixes m :: "('w, 'v) srun"
  assumes "balanced 0 md m" and "\<And>v md'. balanced d md' (f (v, md'))"
  shows "balanced d md (xbind m f)"
  unfolding balanced_def
proof (intro allI impI)
  fix b :: "'w sstate" and out
  assume b: "plain_functions (env b)" "level md \<le> loop_level b" and run: "xbind m f b = Some out"
  then obtain r b' where m: "m b = Some (r, b')" by (auto simp: xbind_def split: option.splits)
  note bal = balancedD [OF assms(1) m b]
  show "in_balance (loop_level b) (loop_level b - d) out"
  proof (cases r)
    case (Inl j)
    with bal m run show ?thesis by (cases j) (auto simp: xbind_def)
  next
    case (Inr w)
    obtain v md' where w: "w = (v, md')" by (cases w)
    with bal m run Inr have "f (v, md') b' = Some out" "loop_level b' = loop_level b" "level md' \<le> loop_level b'"
      "plain_functions (env b')" by (auto simp: xbind_def)
    with balancedD [OF assms(2)] show ?thesis by fastforce
  qed
qed

lemma balanced_during [level_rules]:
  assumes "steady m" and "md = Go \<or> no_return m"
  shows "balanced 0 md (during md m)"
  unfolding balanced_def
proof (intro allI impI)
  fix b and out :: "(jump \<times> mode + 'b \<times> mode) \<times> 'a sstate"
  assume b: "plain_functions (env b)" "level md \<le> loop_level b" and "during md m b = Some out"
  from this(3) show "in_balance (loop_level b) (loop_level b - 0) out"
  proof (cases rule: during_out)
    case val
    with steadyD(1) [OF assms(1) _ b(1)] b(2) show ?thesis by simp
  next
    case jmp
    with steadyD(2) [OF assms(1) _ b(1)] assms(2) show ?thesis by (auto simp: no_return_def)
  qed
qed

lemma balanced_during_bind [level_rules]:
  assumes "steady m" and "md = Go \<or> no_return m" and "\<And>v. balanced d md (f v)"
  shows "balanced d md (xbind (during md m) (\<lambda>(v, _). f v))"
proof -
  let ?f = "\<lambda>(v, md'). if md' = md then f v else xret (undefined, Go)"
  have "xbind (during md m) (\<lambda>(v, _). f v) = xbind (during md m) ?f"
    by (auto simp: fun_eq_iff xbind_def during_def split: option.splits prod.splits sum.splits)
  moreover have "balanced d md' (?f (v, md'))" for v md'
    using assms(3) by (simp add: balanced_xret)
  ultimately show ?thesis using balanced_xbind [OF balanced_during [OF assms(1,2)], of d ?f] by simp
qed

section \<open>What the ports are trusted with\<close>

text \<open>No port puts a function with \<open>select\<close> in place, and only a builtin returns from a function.\<close>

definition keeps_plain :: "('w senv \<Rightarrow> 'w senv) \<Rightarrow> bool" where
  "keeps_plain f \<longleftrightarrow> (\<forall>e. plain_functions e \<longrightarrow> plain_functions (f e))"

definition tame_ports :: "'w exec_ports \<Rightarrow> bool" where
  "tame_ports pt \<longleftrightarrow>
     (\<forall>ws f. tame (expand_words pt ws f)) \<and> (\<forall>ws. tame (expand_words_no_vars pt ws)) \<and>
     (\<forall>x v. tame (bind_loop_variable pt x v)) \<and> (\<forall>ws. tame (select_query pt ws)) \<and>
     (\<forall>ws. tame (eval_arith_for_expr pt ws)) \<and> (\<forall>w. tame (case_subject pt w)) \<and>
     (\<forall>w x. tame (case_match pt w x)) \<and> (\<forall>i c. tame (cond_term pt i c)) \<and>
     (\<forall>rs. tame (do_redirections pt rs)) \<and> (\<forall>rs. tame (apply_simple_redirects pt rs)) \<and>
     (\<forall>ws. tame (before_simple pt ws)) \<and> (\<forall>ws f. tame (choose_dispatch pt ws f)) \<and>
     (\<forall>ws. tame (on_builtin pt ws)) \<and> (\<forall>f ws. tame (on_function pt f ws)) \<and>
     (\<forall>ws f. keeps_plain (\<lambda>e. snd (run_builtin pt ws f e))) \<and>
     (\<forall>ws rs f. tame (execute_disk_command pt ws rs f)) \<and>
     (\<forall>c. tame (run_in_child pt c)) \<and> (\<forall>c. tame (run_coproc pt c)) \<and> (\<forall>c. tame (run_async pt c)) \<and>
     (\<forall>c. tame (execute_pipeline pt c)) \<and> keeps_plain (run_error_trap pt) \<and>
     (\<forall>ws r. keeps_plain (after_simple pt ws r)) \<and>
     (\<forall>rs e r e'. plain_functions e \<longrightarrow> fork_null_command pt rs e = Some (r, e') \<longrightarrow> plain_functions e')"

lemma tame_portsD [level_rules]:
  assumes "tame_ports pt"
  shows "tame (expand_words pt ws f)" "tame (expand_words_no_vars pt ws)" "tame (bind_loop_variable pt x v)"
    "tame (select_query pt vs)" "tame (eval_arith_for_expr pt ws)" "tame (case_subject pt wd)"
    "tame (case_match pt wd x)" "tame (cond_term pt i cond)" "tame (do_redirections pt rs)"
    "tame (apply_simple_redirects pt rs)" "tame (before_simple pt vs)" "tame (choose_dispatch pt vs is_fun)"
    "tame (on_builtin pt vs)" "tame (on_function pt x vs)" "tame (execute_disk_command pt vs rs f)"
    "tame (run_in_child pt c)" "tame (run_coproc pt c)" "tame (run_async pt c)" "tame (execute_pipeline pt c)"
  using assms by (simp_all add: tame_ports_def)

lemma tame_ports_others:
  assumes "tame_ports pt"
  shows "keeps_plain (\<lambda>e. snd (run_builtin pt vs f e))" "keeps_plain (run_error_trap pt)" "keeps_plain (after_simple pt vs r)"
    "plain_functions e \<Longrightarrow> fork_null_command pt rs e = Some (r, e') \<Longrightarrow> plain_functions e'"
  using assms unfolding tame_ports_def by auto

lemma plain_functions_updates [simp]:
  "plain_functions (e\<lparr>last_command_exit_value := r\<rparr>) = plain_functions e"
  "plain_functions (env (upd_world g b)) = plain_functions (env b)"
  "plain_functions (env (set_status r b)) = plain_functions (env b)"
  "loop_level (upd_world g b) = loop_level b" "loop_level (upd_env h b) = loop_level b"
  "loop_level (set_status r b) = loop_level b"
  by (simp_all add: plain_functions_def upd_world_def upd_env_def set_status_def)

lemma env_op_out: "env_op f b = Some (r, b') \<Longrightarrow> r = fst (f (env b)) \<and> env b' = snd (f (env b)) \<and> loop_level b' = loop_level b"
  by (auto simp: env_op_def split: prod.splits)

lemma steady_env_op [level_rules]: "tame f \<Longrightarrow> steady (env_op f)"
  by (rule steadyI) (auto simp: tame_def dest!: env_op_out)

lemma no_return_env_op [level_rules]: "tame f \<Longrightarrow> no_return (env_op f)"
  unfolding no_return_def
  by (auto simp: tame_def dest!: env_op_out) metis

lemma steady_builtin [level_rules]: "tame_ports pt \<Longrightarrow> steady (env_op (run_builtin pt words flags))"
  using tame_ports_others(1) [of pt words flags]
  by (intro steadyI) (auto simp: keeps_plain_def dest!: env_op_out)

lemma steady_xret [level_rules]: "steady (xret v)"
  by (rule steadyI) (simp_all add: xret_def)

lemma no_return_xret [level_rules]: "no_return (xret v)"
  by (simp add: no_return_def xret_def)

lemma steady_xjump [level_rules]: "steady (xjump j)"
  by (rule steadyI) (simp_all add: xjump_def)

lemma steady_xbind [level_rules]:
  assumes "steady m" and "\<And>v. steady (f v)"
  shows "steady (xbind m f)"
proof (rule steadyI)
  fix b v b'
  assume b: "plain_functions (env b)" and "xbind m f b = Some (Inr v, b')"
  then obtain u b1 where "m b = Some (Inr u, b1)" "f u b1 = Some (Inr v, b')"
    by (auto simp: xbind_def split: option.splits sum.splits)
  with steadyD(1) [OF assms(1) _ b] steadyD(1) [OF assms(2)]
  show "loop_level b' = loop_level b \<and> plain_functions (env b')" by fastforce
next
  fix b v b'
  assume b: "plain_functions (env b)" and "xbind m f b = Some (Inl (Return_catch v), b')"
  then consider "m b = Some (Inl (Return_catch v), b')" | u b1 where "m b = Some (Inr u, b1)" "f u b1 = Some (Inl (Return_catch v), b')"
    by (auto simp: xbind_def split: option.splits sum.splits)
  then show "plain_functions (env b')"
    using steadyD [OF assms(1) _ b] steadyD(2) [OF assms(2)] by cases blast+
qed

lemma no_return_xbind [level_rules]: "no_return m \<Longrightarrow> (\<And>v. no_return (f v)) \<Longrightarrow> no_return (xbind m f)"
  by (auto simp: no_return_def xbind_def split: option.splits prod.splits sum.splits)

lemma steady_if [level_rules]: "(P \<Longrightarrow> steady m) \<Longrightarrow> (\<not> P \<Longrightarrow> steady m') \<Longrightarrow> steady (if P then m else m')"
  by simp

lemma no_return_if [level_rules]: "(P \<Longrightarrow> no_return m) \<Longrightarrow> (\<not> P \<Longrightarrow> no_return m') \<Longrightarrow> no_return (if P then m else m')"
  by simp

text \<open>A step that ends with a status in a changed environment.\<close>

lemma steady_return [level_rules]:
  "(\<And>b. plain_functions (env b) \<Longrightarrow> loop_level (g b) = loop_level b \<and> plain_functions (env (g b))) \<Longrightarrow>
     steady (\<lambda>b. xret (v b) (g b))"
  by (rule steadyI) (auto simp: xret_def)

lemma no_return_return [level_rules]: "no_return (\<lambda>b. xret (v b) (g b))"
  by (simp add: no_return_def xret_def)

lemma tame_command_failed [level_rules]: "tame_ports pt \<Longrightarrow> tame (command_failed pt trap ignore_return inverted r)"
  using tame_ports_others(2) [of pt]
  by (auto simp: tame_def command_failed_def keeps_plain_def Let_def)

section \<open>Simple commands\<close>

lemma loop_count_balance: "steady (loop_count pt args)" "no_return (loop_count pt args)"
  by (auto simp: steady_def no_return_def loop_count_def xbind_def env_op_def xret_def get_numeric_arg_def no_args_def
      split: list.splits option.splits prod.splits sum.splits if_splits)

lemma balanced_loop_exit [level_rules]:
  assumes "\<And>k. level (how k) = Suc k"
  shows "balanced 0 Go (loop_exit_builtin pt how args)"
  unfolding balanced_def
proof (intro allI impI)
  fix b and out :: "(jump \<times> mode + int \<times> mode) \<times> 'a sstate"
  assume b: "plain_functions (env b)" "level Go \<le> loop_level b" and run: "loop_exit_builtin pt how args b = Some out"
  show "in_balance (loop_level b) (loop_level b - 0) out"
  proof (cases "helpopt args \<or> loop_level b = 0")
    case True
    with run b show ?thesis by (auto simp: loop_exit_builtin_def xret_def split: if_splits)
  next
    case False
    with run obtain out' where c: "during Go (loop_count pt args) b = Some out'"
      by (auto simp: loop_exit_builtin_def xbind_def split: option.splits)
    then show ?thesis
    proof (cases rule: during_out)
      case (val n b')
      with loop_count_result [of pt args b] steadyD(1) [OF loop_count_balance(1) _ b(1)] run False c assms
      show ?thesis by (force simp: loop_exit_builtin_def xbind_def xret_def split: if_splits)
    next
      case (jmp j b')
      with steadyD(2) [OF loop_count_balance(1) _ b(1)] run False c
      show ?thesis by (auto simp: loop_exit_builtin_def xbind_def)
    qed
  qed
qed

lemma steady_return_builtin [level_rules]: "steady (return_builtin args)"
  unfolding steady_def
  by (auto simp: return_builtin_def xbind_def env_op_def xret_def xjump_def get_exitstat_def no_args_def
      split: list.splits option.splits prod.splits sum.splits if_splits)

lemma balanced_builtin [level_rules]: "tame_ports pt \<Longrightarrow> balanced 0 Go (s_builtin pt words flags)"
  unfolding s_builtin_def by (intro level_rules disjI1 refl) simp_all

lemma null_command_balance [level_rules]:
  assumes "tame_ports pt"
  shows "steady (execute_null_command pt redirs)" "no_return (execute_null_command pt redirs)"
proof -
  let ?m = "xbind (env_op (do_redirections pt redirs)) (\<lambda>ok b.
            xret (if \<not> ok then EXECUTION_FAILURE
                  else (case comsub_status pt (env b) of Some r \<Rightarrow> r | None \<Rightarrow> EXECUTION_SUCCESS))
                 (upd_world (cleanup_redirects pt redirs) b))"
  have m: "steady ?m" "no_return ?m"
    using assms by (intro level_rules; simp)+
  show "no_return (execute_null_command pt redirs)"
    using m(2) by (auto simp: no_return_def execute_null_command_def xret_def split: option.splits)
  show "steady (execute_null_command pt redirs)"
  proof (rule steadyI)
    fix b v b'
    assume "plain_functions (env b)" "execute_null_command pt redirs b = Some (Inr v, b')"
    with steadyD(1) [OF m(1)] tame_ports_others(4) [OF assms, of "env b" redirs]
    show "loop_level b' = loop_level b \<and> plain_functions (env b')"
      by (auto simp: execute_null_command_def xret_def split: option.splits)
  next
    fix b v b'
    assume "plain_functions (env b)" "execute_null_command pt redirs b = Some (Inl (Return_catch v), b')"
    with steadyD(2) [OF m(1)] show "plain_functions (env b')"
      by (auto simp: execute_null_command_def xret_def split: option.splits)
  qed
qed

lemma tame_choose_target [level_rules]: "tame_ports pt \<Longrightarrow> tame (choose_target pt ws func)"
  using tame_portsD(12) [of pt ws "func \<noteq> None"]
  by (auto simp: tame_def choose_target_def Let_def split: prod.splits sum.splits) (metis fst_conv snd_conv)+

lemma steady_finish [level_rules]: "tame_ports pt \<Longrightarrow> steady (simple_finish pt cap words r)"
  using tame_ports_others(3) [of pt words r]
  by (intro steadyI) (auto simp: simple_finish_def xret_def Let_def keeps_plain_def upd_env_def)

lemma no_return_finish [level_rules]: "no_return (simple_finish pt cap words r)"
  by (simp add: no_return_def simple_finish_def xret_def Let_def)

text \<open>What is dispatched: a function is one of the shell's functions.\<close>

lemma resolve_no_select:
  "plain_functions e \<Longrightarrow> rash_stage_resolve_simple pt ws flags e = (ws', flags', Some c) \<Longrightarrow> no_select c"
  by (auto simp: rash_stage_resolve_simple_def Let_def plain_functions_def split: if_splits prod.splits)

lemma choose_function: "choose_target pt ws func e = (Inr (Function c), e') \<Longrightarrow> func = Some c"
  by (auto simp: choose_target_def Let_def split: prod.splits sum.splits option.splits if_splits)

definition plain_plan :: "int + (bool \<times> cstring list \<times> 32 word \<times> target) \<Rightarrow> bool" where
  "plain_plan plan \<longleftrightarrow> (\<forall>cap words flags body. plan = Inr (cap, words, flags, Function body) \<longrightarrow> no_select body)"

definition dispatch_at :: "'w exec_ports \<Rightarrow> cstring list \<Rightarrow> 32 word \<Rightarrow>
    ('w sstate, int + (bool \<times> cstring list \<times> 32 word \<times> target)) run" where
  "dispatch_at pt words flags b =
     (let capture_stdio = want_stdio_capture pt (env b);
          b1 = (if capture_stdio then upd_world (begin_capture pt) b else b)
      in case rash_stage_resolve_simple pt words flags (env b1) of
           (words', flags', func) \<Rightarrow>
             xbind (env_op (choose_target pt words' func)) (\<lambda>t. xret (Inr (capture_stdio, words', flags', t))) b1)"

lemma dispatch_at_balance:
  assumes "tame_ports pt"
  shows "steady (dispatch_at pt words flags)" "no_return (dispatch_at pt words flags)"
proof -
  have step: "steady (xbind (env_op (choose_target pt ws func)) (\<lambda>t. xret (k t)))"
    "no_return (xbind (env_op (choose_target pt ws func)) (\<lambda>t. xret (k t)))"
    for ws func and k :: "target \<Rightarrow> int + (bool \<times> cstring list \<times> 32 word \<times> target)"
    by (intro level_rules assms)+
  show "steady (dispatch_at pt words flags)"
    by (rule steadyI)
      (auto simp: dispatch_at_def Let_def split: prod.splits if_splits dest: steadyD [OF step(1)])
  show "no_return (dispatch_at pt words flags)"
    using step(2) by (auto simp: no_return_def dispatch_at_def Let_def split: prod.splits)
qed

lemma dispatch_at_plain:
  assumes "plain_functions (env b)" and "dispatch_at pt words flags b = Some (Inr plan, b')"
  shows "plain_plan plan"
proof -
  have "plain_functions (env (if P then upd_world (begin_capture pt) b else b))" for P
    using assms(1) by simp
  from resolve_no_select [OF this] assms(2) show ?thesis
    by (fastforce simp: dispatch_at_def Let_def plain_plan_def xbind_def xret_def env_op_def
        split: prod.splits sum.splits dest!: choose_function)
qed

lemma prepare_balance:
  assumes "tame_ports pt"
  shows "steady (simple_prepare pt flags ws redirs)" "no_return (simple_prepare pt flags ws redirs)"
    "plain_functions (env b) \<Longrightarrow> simple_prepare pt flags ws redirs b = Some (Inr plan, b') \<Longrightarrow> plain_plan plan"
proof -
  let ?null = "xbind (execute_null_command pt redirs) (\<lambda>r. xret (Inl r))"
  let ?gate = "\<lambda>words. xbind (env_op (before_simple pt words)) (\<lambda>denied b.
         if denied then xret (Inl EXECUTION_FAILURE) (set_status EXECUTION_FAILURE b) else dispatch_at pt words flags b)"
  have prepare: "simple_prepare pt flags ws redirs = xbind (env_op (expand_words pt ws flags)) (\<lambda>words.
      if words = [] then ?null else ?gate words)"
    unfolding simple_prepare_def dispatch_at_def by (rule refl)
  have "steady (\<lambda>b. if denied then xret (Inl EXECUTION_FAILURE) (set_status EXECUTION_FAILURE b) else dispatch_at pt words flags b)"
    for denied words
    using dispatch_at_balance(1) [OF assms] by (cases denied) (simp_all add: steady_return)
  then show "steady (simple_prepare pt flags ws redirs)"
    unfolding prepare using assms by (intro level_rules)
  have "no_return (\<lambda>b. if denied then xret (Inl EXECUTION_FAILURE) (set_status EXECUTION_FAILURE b) else dispatch_at pt words flags b)"
    for denied words
    using dispatch_at_balance(2) [OF assms] by (cases denied) (simp_all add: no_return_return)
  then show "no_return (simple_prepare pt flags ws redirs)"
    unfolding prepare using assms by (intro level_rules)
  assume b: "plain_functions (env b)" and run: "simple_prepare pt flags ws redirs b = Some (Inr plan, b')"
  from run obtain words b1 where b1: "env_op (expand_words pt ws flags) b = Some (Inr words, b1)"
    and rest: "(if words = [] then ?null else ?gate words) b1 = Some (Inr plan, b')"
    unfolding prepare by (auto simp: xbind_def split: option.splits sum.splits)
  have p1: "plain_functions (env b1)"
    using steadyD(1) [OF steady_env_op [OF tame_portsD(1) [OF assms]] b1 b] by simp
  show "plain_plan plan"
  proof (cases "words = []")
    case True
    with rest show ?thesis by (auto simp: plain_plan_def xbind_def xret_def split: option.splits sum.splits)
  next
    case False
    with rest obtain denied b2 where b2: "env_op (before_simple pt words) b1 = Some (Inr denied, b2)"
      and rest2: "(if denied then xret (Inl EXECUTION_FAILURE) (set_status EXECUTION_FAILURE b2) else dispatch_at pt words flags b2)
        = Some (Inr plan, b')"
      by (auto simp: xbind_def split: option.splits sum.splits)
    have "plain_functions (env b2)"
      using steadyD(1) [OF steady_env_op [OF tame_portsD(11) [OF assms]] b2 p1] by simp
    with rest2 show ?thesis by (auto simp: xret_def plain_plan_def dest: dispatch_at_plain split: if_splits)
  qed
qed

definition balanced_rec :: "(command option \<Rightarrow> ('w, int) srun) \<Rightarrow> bool" where
  "balanced_rec rec \<longleftrightarrow> (\<forall>c. plain c \<longrightarrow> balanced 0 Go (rec c))"

lemma balanced_recD: "balanced_rec rec \<Longrightarrow> plain c \<Longrightarrow> balanced 0 Go (rec c)"
  by (simp add: balanced_rec_def)

lemma balanced_unwinding [level_rules]:
  assumes "balanced d md m" and "\<And>b. loop_level (g b) = loop_level b \<and> plain_functions (env (g b)) = plain_functions (env b)"
  shows "balanced d md (unwinding g m)"
  unfolding balanced_def
proof (intro allI impI)
  fix b and out :: "(jump \<times> mode + 'b \<times> mode) \<times> 'a sstate"
  assume b: "plain_functions (env b)" "level md \<le> loop_level b" and "unwinding g m b = Some out"
  then obtain r b' where m: "m b = Some (r, b')" and out: "out = (r, g b')"
    by (auto simp: unwinding_def)
  from balancedD [OF assms(1) m b] show "in_balance (loop_level b) (loop_level b - d) out"
    by (cases r) (auto simp: out assms(2))
qed

lemma function_boundary [simp]:
  "loop_level (function_entry pt words b) = 0" "plain_functions (env (function_entry pt words b)) = plain_functions (env b)"
  "loop_level (function_exit pt caller b) = loop_level caller"
  "plain_functions (env (function_exit pt caller b)) = plain_functions (env b)"
  by (simp_all add: function_entry_def function_exit_def plain_functions_def upd_world_def upd_env_def)

text \<open>A function starts with no loop around it, so nothing that its body breaks out of is the
  caller's.\<close>

lemma balanced_call:
  assumes "balanced 0 Go m"
  shows "balanced 0 Go (\<lambda>b. s_catch_return (unwinding (function_exit pt b) m) (function_entry pt words b))"
  unfolding balanced_def
proof (intro allI impI)
  fix b and out :: "(jump \<times> mode + int \<times> mode) \<times> 'a sstate"
  assume b: "plain_functions (env b)"
    and "s_catch_return (unwinding (function_exit pt b) m) (function_entry pt words b) = Some out"
  then obtain r b' where m: "m (function_entry pt words b) = Some (r, b')"
    and out: "s_catch_return (\<lambda>_. Some (r, function_exit pt b b')) b = Some out"
    by (auto simp: s_catch_return_def unwinding_def split: option.splits)
  have bal: "in_balance 0 0 (r, b')"
    using balancedD [OF assms m] b by simp
  show "in_balance (loop_level b) (loop_level b - 0) out"
  proof (cases r)
    case (Inl w)
    with bal out show ?thesis
      by (cases w; cases "fst w") (auto simp: s_catch_return_def)
  next
    case (Inr w)
    with bal out show ?thesis by (cases w) (auto simp: s_catch_return_def)
  qed
qed

lemma function_gate_balance:
  assumes "tame_ports pt"
  shows "steady (function_gate pt words)" "no_return (function_gate pt words)"
proof -
  have m: "steady (xbind (env_op (on_function pt (hd words) (tl words))) (\<lambda>denied. xret (\<not> denied)))"
    "no_return (xbind (env_op (on_function pt (hd words) (tl words))) (\<lambda>denied. xret (\<not> denied)))"
    by (intro level_rules assms)+
  show "no_return (function_gate pt words)"
    using m(2) by (auto simp: no_return_def function_gate_def xjump_def)
  show "steady (function_gate pt words)"
    by (rule steadyI) (auto simp: function_gate_def xjump_def dest: steadyD [OF m(1)] split: if_splits)
qed

lemma balanced_function [level_rules]:
  assumes "tame_ports pt" and "balanced_rec rec" and "no_select body"
  shows "balanced 0 Go (s_function pt rec body words flags)"
proof -
  let ?call = "\<lambda>b. s_catch_return (unwinding (function_exit pt b) (rec (ignoring (has_flag flags CMD_IGNORE_RETURN) (Some body))))
              (function_entry pt words b)"
  have "balanced 0 Go ?call"
    using assms by (intro balanced_call balanced_recD) simp_all
  then have "balanced 0 Go (\<lambda>b. if \<not> go_on then xret (EXECUTION_FAILURE, Go) b else ?call b)" for go_on
    by (cases go_on) (simp_all add: balanced_xret)
  then show ?thesis
    unfolding s_function_def by (intro balanced_during_bind function_gate_balance assms disjI1 refl)
qed

lemma balanced_dispatch [level_rules]:
  assumes "tame_ports pt" and "balanced_rec rec" and "\<And>body. t = Function body \<Longrightarrow> no_select body"
  shows "balanced 0 Go (s_dispatch pt rec words flags t redirs)"
proof -
  have target: "balanced 0 Go (case t of Function body \<Rightarrow> s_function pt rec body words flags | _ \<Rightarrow> s_builtin pt words flags)"
    using assms by (cases t) (simp_all add: level_rules)
  have fallback: "balanced 0 md (case (r, md) of (r, md) \<Rightarrow> case dispatched_status t r of Some v \<Rightarrow> xret (v, md)
           | None \<Rightarrow> during md (env_op (execute_disk_command pt words redirs flags)))" for r md
    by (auto intro!: balanced_xret_same level_rules assms split: option.split)
  have undo: "loop_level (undo_simple pt words redirs b) = loop_level b \<and>
      plain_functions (env (undo_simple pt words redirs b)) = plain_functions (env b)" for b
    by (simp add: undo_simple_def)
  show ?thesis
    unfolding s_dispatch_def
    by (intro balanced_if balanced_during_bind balanced_during balanced_xret balanced_unwinding balanced_xbind [OF _ fallback]
        target undo steady_env_op tame_portsD assms disjI1 refl) simp_all
qed

lemma balanced_simple [level_rules]:
  assumes "tame_ports pt" and "balanced_rec rec"
  shows "balanced 0 Go (s_simple pt rec flags ws redirs)"
  unfolding balanced_def
proof (intro allI impI)
  fix b and out :: "(jump \<times> mode + int \<times> mode) \<times> 'a sstate"
  assume b: "plain_functions (env b)" and run: "s_simple pt rec flags ws redirs b = Some out"
  obtain out' where p: "during Go (simple_prepare pt flags ws redirs) b = Some out'"
    using run by (auto simp: s_simple_def xbind_def split: option.splits)
  then show "in_balance (loop_level b) (loop_level b - 0) out"
  proof (cases rule: during_out)
    case (val plan b')
    note q = steadyD(1) [OF prepare_balance(1) [OF assms(1)] val(1) b] prepare_balance(3) [OF assms(1) b val(1)]
    have fin: "balanced 0 md (case (r, md) of (r, md) \<Rightarrow> during md (simple_finish pt cap words r))" for cap words r md
      by (simp add: level_rules assms)
    show ?thesis
    proof (cases plan)
      case (Inl r)
      with run p val q show ?thesis by (auto simp: s_simple_def xbind_def xret_def)
    next
      case (Inr d)
      obtain cap words flags' t where d: "d = (cap, words, flags', t)" by (cases d)
      have "balanced 0 Go (xbind (s_dispatch pt rec words flags' t redirs) (\<lambda>(r, md). during md (simple_finish pt cap words r)))"
        using q(2) Inr d by (intro balanced_xbind [OF _ fin] balanced_dispatch assms) (auto simp: plain_plan_def)
      from balancedD [OF this, of b' out] run p val q(1) Inr d show ?thesis
        by (simp add: s_simple_def xbind_def)
    qed
  next
    case (jmp j b')
    with run p prepare_balance(2) [OF assms(1), of flags ws redirs] show ?thesis
      by (auto simp: s_simple_def xbind_def no_return_def)
  qed
qed

section \<open>Loops\<close>

lemma balanced_in_loop [level_rules]:
  assumes "balanced 1 Go m"
  shows "balanced 0 Go (s_in_loop m)"
  unfolding balanced_def
proof (intro allI impI)
  fix b and out :: "(jump \<times> mode + int \<times> mode) \<times> 'a sstate"
  assume b: "plain_functions (env b)" and "s_in_loop m b = Some out"
  then obtain r b' where m: "m (enter_loop b) = Some (r, b')" and out: "out = (r, case r of Inl _ \<Rightarrow> b' | Inr _ \<Rightarrow> leave_loop b')"
    by (auto simp: s_in_loop_def xbind_def xret_def split: option.splits sum.splits)
  have "in_balance (loop_level b + 1) (loop_level b) (r, b')"
    using balancedD [OF assms m] b by (simp add: enter_loop_def)
  then show "in_balance (loop_level b) (loop_level b - 0) out"
    by (cases r) (auto simp: out leave_loop_def)
qed

lemma level_after_round: "after_round md = (leave, md') \<Longrightarrow> level md' = level md - 1"
  by (cases md rule: after_round.cases) auto

lemma level_loop_over: "level (loop_over md) = level md - 1"
  by (cases md rule: loop_over.cases) auto

text \<open>After the body, one level less is asked for, or the loop goes on.\<close>

lemma balanced_after_round:
  assumes "balanced 1 Go (again r)"
  shows "balanced 1 md (case after_round md of (leave, md') \<Rightarrow> if leave then xret (r, md') else again r)"
proof (cases "after_round md")
  case (Pair leave md')
  show ?thesis
  proof (cases leave)
    case True
    with Pair level_after_round [OF Pair] show ?thesis by (auto simp: balanced_def xret_def)
  next
    case False
    with assms Pair show ?thesis by (simp add: balanced_def)
  qed
qed

lemma balanced_round [level_rules]:
  assumes "balanced 0 Go m" and "\<And>r. balanced 1 Go (again r)"
  shows "balanced 1 Go (xbind m (\<lambda>(r, md). case after_round md of (leave, md') \<Rightarrow> if leave then xret (r, md') else again r))"
  using assms(1) by (rule balanced_xbind) (simp add: balanced_after_round assms(2) del: One_nat_def)

lemma balanced_option [level_rules]: "(x = None \<Longrightarrow> balanced d md m) \<Longrightarrow> (\<And>y. x = Some y \<Longrightarrow> balanced d md (f y)) \<Longrightarrow>
    balanced d md (case x of None \<Rightarrow> m | Some y \<Rightarrow> f y)"
  by (cases x) simp_all

lemma balanced_go: "level Go \<le> 0" by simp

lemma balanced_for_loop: "tame_ports pt \<Longrightarrow> balanced 0 Go (rec action) \<Longrightarrow> balanced 1 Go (s_for_loop pt rec name action ws r)"
proof (induction ws arbitrary: r)
  case Nil
  then show ?case by (simp add: balanced_xret)
next
  case (Cons w ws)
  show ?case unfolding s_for_loop.simps by (intro level_rules balanced_go disjI1 refl Cons)
qed

lemma balanced_select_loop: "tame_ports pt \<Longrightarrow> balanced 0 Go (rec action) \<Longrightarrow> balanced 1 Go (s_select_loop k pt rec name action ws)"
proof (induction k)
  case 0
  then show ?case by (simp add: balanced_none)
next
  case (Suc k)
  show ?case unfolding s_select_loop.simps by (intro level_rules balanced_go disjI1 refl Suc)
qed

lemma balanced_arith_for_loop:
  "tame_ports pt \<Longrightarrow> balanced 0 Go (rec action) \<Longrightarrow> balanced 1 Go (s_arith_for_loop k pt rec test step action r)"
proof (induction k arbitrary: r)
  case 0
  then show ?case by (simp add: balanced_none)
next
  case (Suc k)
  show ?case unfolding s_arith_for_loop.simps by (intro level_rules balanced_go disjI1 refl Suc)
qed

lemma balanced_while_loop:
  "balanced 0 Go (rec test) \<Longrightarrow> balanced 0 Go (rec action) \<Longrightarrow> balanced 1 Go (s_while_loop k rec until test action r)"
proof (induction k arbitrary: r)
  case 0
  then show ?case by (simp add: balanced_none)
next
  case (Suc k)
  have over: "balanced 1 md (xret (r, loop_over md))" for md
    by (auto simp: balanced_def xret_def level_loop_over)
  have body: "balanced 0 md (if md = Go then rec action else xret (v, md))" for v md
    using Suc.prems by (auto simp: balanced_xret_same)
  have next_round: "balanced 1 md (case (r, md) of (r, md) \<Rightarrow> case after_round md of (leave, md') \<Rightarrow>
              if leave then xret (r, md') else s_while_loop k rec until test action r)" for r md
    using Suc by (simp add: balanced_after_round del: One_nat_def)
  show ?case
    unfolding s_while_loop.simps
    by (rule balanced_xbind [OF Suc.prems(1)])
      (simp del: One_nat_def add: over balanced_xbind [OF body next_round])
qed

section \<open>The other constructs\<close>

lemma balanced_sbind [level_rules]:
  assumes "balanced 0 Go m" and "\<And>v. balanced 0 Go (f v)"
  shows "balanced 0 Go (sbind m f)"
  unfolding sbind_def using assms(1)
  by (rule balanced_xbind) (simp add: balanced_xret_same assms(2))

lemma match_patterns_balance [level_rules]:
  "tame_ports pt \<Longrightarrow> steady (match_patterns pt ps subj)" "tame_ports pt \<Longrightarrow> no_return (match_patterns pt ps subj)"
  by (induction ps) (simp_all add: level_rules)

lemma balanced_case_loop:
  assumes "tame_ports pt" and "balanced_rec rec"
  shows "list_all (\<lambda>clause. plain (fst (snd clause))) clauses \<Longrightarrow>
     balanced 0 md (s_case_loop pt rec ig subj matched md clauses r)"
proof (induction clauses arbitrary: md matched r)
  case Nil
  then show ?case by (simp add: balanced_xret_same)
next
  case (Cons clause clauses)
  let ?c = "ignoring ig (fst (snd clause))"
  let ?body = "\<lambda>md. if md = Go then rec ?c else (\<lambda>b. xret (last_command_exit_value (env b), md) b)"
  let ?next = "\<lambda>(r, md'). if has_flag (snd (snd clause)) CASEPAT_FALLTHROUGH then s_case_loop pt rec ig subj True md' clauses r
           else if has_flag (snd (snd clause)) CASEPAT_TESTNEXT then s_case_loop pt rec ig subj False md' clauses r
           else xret (r, md')"
  have body: "balanced 0 md (?body md)" for md
    using balanced_recD [OF assms(2), of ?c] Cons.prems by (auto simp: balanced_def xret_def)
  have nxt: "balanced 0 md (?next (r, md))" for r md
    using Cons by (simp add: balanced_xret_same)
  have matched: "balanced 0 md (xbind (?body md) ?next)" for md
    using body nxt by (rule balanced_xbind)
  have rest: "balanced 0 md (s_case_loop pt rec ig subj False md clauses r)" for md r
    using Cons by simp
  have test: "balanced 0 md (if matched then xret (True, md) else during md (match_patterns pt (fst clause) subj))"
    by (simp add: balanced_xret_same level_rules assms)
  show ?case
  proof (cases matched)
    case True
    then show ?thesis using matched by (simp add: xbind_xret)
  next
    case False
    have "balanced 0 md (xbind (during md (match_patterns pt (fst clause) subj)) (\<lambda>(m, _).
        if m then xbind (?body md) ?next else s_case_loop pt rec ig subj False md clauses r))"
      by (intro balanced_during_bind balanced_if matched rest match_patterns_balance assms disjI2)
    with False show ?thesis by simp
  qed
qed

lemma steady_cond_node [level_rules]: "tame_ports pt \<Longrightarrow> steady (execute_cond_node pt ignore c)"
  by (induction pt ignore c rule: execute_cond_node.induct) (auto simp: Let_def intro!: level_rules)

lemma steady_status [level_rules]: "steady (\<lambda>b. xret r (set_status v b))"
  by (rule steady_return) simp

lemma steady_intern_function [level_rules]: "plain body \<Longrightarrow> steady (execute_intern_function pt name body)"
  by (rule steadyI)
    (auto simp: execute_intern_function_def xret_def upd_env_def plain_functions_def split: option.splits if_splits)

lemma steady_cond_command [level_rules]: "tame_ports pt \<Longrightarrow> steady (execute_cond_command pt ignore c)"
  unfolding execute_cond_command_def by (intro level_rules)

lemma steady_arith_command [level_rules]: "tame_ports pt \<Longrightarrow> steady (execute_arith_command pt expr)"
  unfolding execute_arith_command_def by (intro level_rules)

lemma balanced_connection:
  assumes "tame_ports pt" and rec: "balanced_rec rec" and "plain first" and "plain second"
  shows "balanced 0 Go (s_connection pt rec self ig inverted first second connector)"
proof -
  have r: "balanced 0 Go (rec (ignoring i first))" "balanced 0 Go (rec (ignoring i second))" for i
    using assms by (simp_all add: balanced_recD)
  have pipe: "steady (\<lambda>b. xbind (env_op (execute_pipeline pt self))
      (\<lambda>r. env_op (command_failed pt (error_trapped pt (env b)) ig inverted r)) b)"
  proof -
    have "steady (xbind (env_op (execute_pipeline pt self)) (\<lambda>r. env_op (command_failed pt trap ig inverted r)))" for trap
      by (intro level_rules assms)
    then show ?thesis unfolding steady_def by blast
  qed
  have async: "balanced 0 Go (case ignoring ig first of
           None \<Rightarrow> xret (EXECUTION_SUCCESS, Go)
         | Some tc \<Rightarrow> xbind (during Go (env_op (run_async pt tc))) (\<lambda>(r, _).
               if second = None then xret (r, Go) else rec (ignoring ig second)))"
    by (intro level_rules balanced_go disjI1 refl assms r)
  have err: "balanced 0 Go (xjump (Jump_DISCARD, Go) :: ('a, int) srun)"
    by (simp add: balanced_def xjump_def)
  show ?thesis
    unfolding s_connection_def
    by (intro balanced_if async balanced_sbind r balanced_during pipe balanced_xret balanced_go err disjI1 refl)
qed

lemma plain_clauses: "no_select_value (Case_com flags line word clauses) \<Longrightarrow> list_all (\<lambda>clause. plain (fst (snd clause))) clauses"
  by (auto simp: list_all_iff plain_def)

lemma balanced_switch:
  assumes pt: "tame_ports pt" and rec: "balanced_rec rec" and self: "no_select_value (cmd_value self)"
  shows "balanced 0 Go (s_switch pt n rec self ig inverted)"
proof -
  let ?ig = "ignore_bit (ig \<or> inverted)"
  have r: "balanced 0 Go (rec (ignoring i c))" if "plain c" for i c
    using that rec by (simp add: balanced_recD)
  have fin: "balanced 0 md (case (r, md) of (r, md) \<Rightarrow> during md (env_op (command_failed pt trap ig inverted r)))" for r md trap
    by (simp add: level_rules pt)
  have simple: "balanced 0 Go (xbind (s_simple pt rec (?ig f) ws rs) (\<lambda>(r, md). during md (env_op (command_failed pt trap ig inverted r))))"
    for f ws rs trap
    by (intro balanced_xbind [OF _ fin] balanced_simple pt rec)
  have failed: "balanced 0 Go (during Go (xbind m (\<lambda>r. env_op (command_failed pt trap ig inverted r))))" if "steady m"
    for m :: "('a sstate, int) run" and trap
    using that by (intro level_rules pt disjI1 refl)
  have loops:
    "plain act \<Longrightarrow> balanced 0 Go (s_for pt rec (?ig f) name ws act)"
    "plain act \<Longrightarrow> balanced 0 Go (s_arith_for n pt rec (?ig f) init test step act)"
    for f name ws act init test step
    unfolding s_for_def s_arith_for_def
    by (intro level_rules balanced_go disjI1 refl pt r balanced_for_loop balanced_arith_for_loop; assumption)+
  have while: "plain t \<Longrightarrow> plain act \<Longrightarrow> balanced 0 Go (s_in_loop (s_while_loop n rec until (ignoring True t) (ignoring i act) x))"
    for until t act i x
    by (intro balanced_in_loop balanced_while_loop r)
  have cond: "plain t \<Longrightarrow> plain c1 \<Longrightarrow> plain c2 \<Longrightarrow> balanced 0 Go (s_if rec (?ig f) t c1 c2)" for f t c1 c2
    unfolding s_if_def by (intro balanced_sbind r) simp_all
  have cases: "list_all (\<lambda>clause. plain (fst (snd clause))) clauses \<Longrightarrow> balanced 0 Go (s_case pt rec (?ig f) word clauses)"
    for f word clauses
    unfolding s_case_def by (intro balanced_during_bind balanced_case_loop level_rules disjI1 refl pt rec)
  let ?failed = "\<lambda>trap r. env_op (command_failed pt trap ig inverted r)"
  have switch: "balanced 0 Go (case cmd_value self of
           Simple flags line ws redirs \<Rightarrow>
             xbind (s_simple pt rec (?ig flags) ws redirs)
               (\<lambda>(r, md). during md (?failed (trap \<and> \<not> has_flag flags CMD_COMMAND_BUILTIN) r))
         | For_com flags line name ws action \<Rightarrow> s_for pt rec (?ig flags) name ws action
         | Arith_for_com flags line init test step action \<Rightarrow> s_arith_for n pt rec (?ig flags) init test step action
         | Select_com flags line name ws action \<Rightarrow> s_select n pt rec (?ig flags) name ws action
         | Case_com flags line word clauses \<Rightarrow> s_case pt rec (?ig flags) word clauses
         | While_com flags test action \<Rightarrow>
             s_in_loop (s_while_loop n rec False (ignoring True test)
               (ignoring (has_flag (?ig flags) CMD_IGNORE_RETURN) action) EXECUTION_SUCCESS)
         | Until_com flags test action \<Rightarrow>
             s_in_loop (s_while_loop n rec True (ignoring True test)
               (ignoring (has_flag (?ig flags) CMD_IGNORE_RETURN) action) EXECUTION_SUCCESS)
         | If_com flags test true_case false_case \<Rightarrow> s_if rec (?ig flags) test true_case false_case
         | Group_com c \<Rightarrow> rec (ignoring (ig \<or> inverted) c)
         | Connection first second connector \<Rightarrow> s_connection pt rec self ig inverted first second connector
         | Arith_com flags line expr \<Rightarrow> during Go (xbind (execute_arith_command pt expr) (?failed trap))
         | Cond_command cond \<Rightarrow> during Go (xbind (execute_cond_command pt ig cond) (?failed trap))
         | Function_def flags line name body src \<Rightarrow>
             during Go (xbind (execute_intern_function pt name body) (?failed trap))
         | Subshell_com flags line c \<Rightarrow> xret (EXECUTION_SUCCESS, Go)
         | Coproc_com flags nm c \<Rightarrow> xret (EXECUTION_SUCCESS, Go))" for trap
    using self
    by (cases "cmd_value self")
      (simp_all add: plain_def [symmetric] simple loops while cond cases [OF plain_clauses] r failed level_rules pt
        balanced_connection [OF pt rec] del: no_select_value.simps(4) ignore_bit_True)
  show ?thesis
    unfolding balanced_def
  proof (intro allI impI)
    fix b and out :: "(jump \<times> mode + int \<times> mode) \<times> 'a sstate"
    assume b: "plain_functions (env b)" and run: "s_switch pt n rec self ig inverted b = Some out"
    show "in_balance (loop_level b) (loop_level b - 0) out"
      by (rule balancedD [OF switch [of "error_trapped pt (env b)"] _ b])
        (use run in \<open>simp_all add: s_switch_def Let_def split: command_value.splits\<close>)
  qed
qed

lemma finish_balance: "steady (finish_command inverted r)" "no_return (finish_command inverted r)"
  by (auto simp: steady_def no_return_def finish_command_def xret_def Let_def)

lemma steady_at: "(\<And>x. steady (m x)) \<Longrightarrow> steady (\<lambda>b. m (g b) b)"
  unfolding steady_def by blast

lemma steady_after:
  assumes "steady m" and "\<And>b. loop_level (g b) = loop_level b \<and> plain_functions (env (g b)) = plain_functions (env b)"
  shows "steady (\<lambda>b. m (g b))"
proof (rule steadyI)
  fix b v b'
  assume "plain_functions (env b)" "m (g b) = Some (Inr v, b')"
  with steadyD(1) [OF assms(1), of "g b" v b'] assms(2) [of b]
  show "loop_level b' = loop_level b \<and> plain_functions (env b')" by simp
next
  fix b v b'
  assume "plain_functions (env b)" "m (g b) = Some (Inl (Return_catch v), b')"
  with steadyD(2) [OF assms(1), of "g b" v b'] assms(2) [of b]
  show "plain_functions (env b')" by simp
qed

lemma steady_forked: "tame_ports pt \<Longrightarrow> steady (execute_forked pt self user ig inverted)"
proof -
  assume pt: "tame_ports pt"
  have s: "steady (\<lambda>b. env_op (command_failed pt trap ig inverted r) (set_status v b))" for trap r v
    by (rule steady_after [OF steady_env_op [OF tame_command_failed [OF pt]]]) simp
  have "steady (xbind (env_op (run_in_child pt self)) (\<lambda>r b1.
       let r' = invert_status inverted r; b2 = set_status r' b1
        in if user then env_op (command_failed pt trap ig inverted r') b2 else xret r' b2))" for trap
  proof (intro level_rules pt)
    show "steady (\<lambda>b1. let r' = invert_status inverted v; b2 = set_status r' b1
        in if user then env_op (command_failed pt trap ig inverted r') b2 else xret r' b2)" for v
      using s by (cases user) (simp_all add: Let_def steady_status)
  qed
  then show ?thesis
    unfolding execute_forked_def by (rule steady_at)
qed

lemma balanced_body:
  assumes pt: "tame_ports pt" and rec: "balanced_rec rec" and c: "no_select c"
  shows "balanced 0 Go (s_body pt n rec c)"
proof -
  let ?self = "\<lambda>f. Command f (cmd_line c) (cmd_redirects c) (cmd_value c)"
  have self: "no_select (?self f)" "no_select_value (cmd_value c)" for f
    using c by (cases c; simp)+
  have coproc: "balanced 0 Go (during Go (xbind (env_op (run_coproc pt self)) (\<lambda>r b. xret r (set_status r b))))" for self
    by (intro balanced_during steady_xbind steady_env_op tame_portsD steady_status pt disjI1 refl)
  have fork: "balanced 0 Go (during Go (execute_forked pt self user ig inverted))" for self user ig inverted
    by (intro balanced_during steady_forked pt disjI1 refl)
  have time: "balanced 0 Go (unwinding (upd_world g) (rec (Some (?self f))))" for f g
    by (intro balanced_unwinding balanced_recD [OF rec]) (simp_all only: plain_simps self plain_functions_updates simp_thms)
  have failed: "steady (\<lambda>b. redirection_failed pt trap ig inverted (upd_world g b))" for trap ig inverted g
    unfolding redirection_failed_def by (rule steady_after [OF steady_env_op [OF tame_command_failed [OF pt]]]) simp
  have switch: "balanced 0 Go (xbind (unwinding (upd_world g) (s_switch pt n rec (?self f) ig inverted))
                 (\<lambda>(r, md). during md (finish_command inverted r)))" for f g ig inverted
    by (intro balanced_xbind balanced_unwinding balanced_switch pt rec)
      (simp_all add: self finish_balance balanced_during)
  have after: "balanced 0 Go (\<lambda>b1. if \<not> ok then during Go (redirection_failed pt trap ig inverted) (upd_world g b1)
             else xbind (unwinding (upd_world g) (s_switch pt n rec (?self f) ig inverted))
                 (\<lambda>(r, md). during md (finish_command inverted r)) b1)" for ok trap f g ig inverted
  proof (cases ok)
    case False
    have "balanced 0 Go (during Go (\<lambda>b. redirection_failed pt trap ig inverted (upd_world g b)))"
      by (intro balanced_during failed disjI1 refl)
    with False show ?thesis by (simp add: during_def balanced_def)
  qed (simp add: switch)
  have main: "balanced 0 Go (xbind (during Go (env_op (do_redirections pt rs))) (\<lambda>(ok, _) b1.
             if \<not> ok then during Go (redirection_failed pt trap ig inverted) (upd_world g b1)
             else xbind (unwinding (upd_world g) (s_switch pt n rec (?self f) ig inverted))
                 (\<lambda>(r, md). during md (finish_command inverted r)) b1))" for rs trap f g ig inverted
    by (intro balanced_during_bind after steady_env_op tame_portsD pt disjI1 refl)
  show ?thesis
    unfolding balanced_def
  proof (intro allI impI)
    fix b and out :: "(jump \<times> mode + int \<times> mode) \<times> 'a sstate"
    assume b: "plain_functions (env b)" "level Go \<le> loop_level b" and run: "s_body pt n rec c b = Some out"
    show "in_balance (loop_level b) (loop_level b - 0) out"
      using run balancedD [OF coproc _ b] balancedD [OF fork _ b] balancedD [OF time _ b] balancedD [OF main _ b]
      unfolding s_body_def Let_def by (simp only: split: if_splits)
  qed
qed

lemma balanced_structured: "tame_ports pt \<Longrightarrow> balanced_rec (structured pt n)"
proof (induction n)
  case 0
  then show ?case
    by (auto simp: balanced_rec_def balanced_def xret_def split: option.splits)
next
  case (Suc n)
  then show ?case
    using balanced_body [OF Suc.prems Suc.IH]
    by (auto simp: balanced_rec_def balanced_def xret_def split: option.splits)
qed

section \<open>The properties\<close>


definition demo_for :: command where
  "demo_for = Command 0 1 [] (For_com 0 1 (demo_word ''x'') (map demo_word [''a'', ''b''])
     (Some (demo_simple 0 [''break'', ''7''])))"

lemma demo_for_run: "map_option fst (execute demo_ports 3 (Some demo_for) demo_state) = Some (Inr 0)"
  by code_simp

lemma demo_tame: "tame_ports demo_ports"
  by (simp add: tame_ports_def tame_def keeps_plain_def demo_ports_def)


text \<open>C35: A \<open>select\<close> over an empty list of words succeeds and leaves \<open>loop_level\<close> one too high: the shell
  believes that it is still inside a loop. A \<open>break\<close> that follows, in no loop at all, is taken for one in
  that loop, and from then on every command is skipped.\<close>

theorem select_over_nothing_keeps_its_level:
  assumes "loop_name name = Some x" and "expand_words_no_vars pt ws (env (base s)) = (Inr [], e)"
  shows "\<exists>s' s''. execute_select_command k pt rec flags name ws action s = Some (Inr EXECUTION_SUCCESS, s') \<and>
    loop_level (base s') = loop_level (base s) + 1 \<and>
    break_builtin pt [] s' = Some (Inr EXECUTION_SUCCESS, s'') \<and>
    (\<forall>n c. execute pt n c s'' = Some (Inr (last_command_exit_value (env (base s''))), s''))"
proof (intro exI conjI allI)
  let ?s' = "s\<lparr>base := (enter_loop (base s))\<lparr>env := e\<rparr>\<rparr>"
  show "execute_select_command k pt rec flags name ws action s = Some (Inr EXECUTION_SUCCESS, ?s')"
    using assms
    by (simp add: execute_select_command_def xbind_def on_base_def env_op_def xret_def base_mod_def enter_loop_def)
  show "loop_level (base ?s') = loop_level (base s) + 1"
    by (simp add: enter_loop_def)
  show "break_builtin pt [] ?s' = Some (Inr EXECUTION_SUCCESS, ?s'\<lparr>breaking := 1\<rparr>)"
    by (simp add: break_builtin_def helpopt_def loop_count_def get_numeric_arg_def skip_dashes_def xbind_def on_base_def
        env_op_def xret_def enter_loop_def)
  show "execute pt n c (?s'\<lparr>breaking := 1\<rparr>) =
      Some (Inr (last_command_exit_value (env (base (?s'\<lparr>breaking := 1\<rparr>)))), ?s'\<lparr>breaking := 1\<rparr>)" for n c
    by (cases n) (simp_all add: execute_command_internal_def xret_def)
qed

text \<open>\<open>select x in; do :; done\<close> and then \<open>break\<close>: the break finds a loop and asks to leave it, and from
  then on every command is skipped.\<close>

definition demo_select :: command where
  "demo_select = Command 0 1 [] (Select_com 0 1 (demo_word ''x'') [] (Some (demo_simple 0 [''true''])))"

theorem select_over_nothing_keeps_its_level_witness:
  "\<exists>s' s''. execute_select_command 1 demo_ports (execute demo_ports 1) 0 (demo_word ''x'') [] None demo_state =
      Some (Inr EXECUTION_SUCCESS, s') \<and> loop_level (base s') = loop_level (base demo_state) + 1 \<and>
    break_builtin demo_ports [] s' = Some (Inr EXECUTION_SUCCESS, s'') \<and>
    (\<forall>n c. execute demo_ports n c s'' = Some (Inr (last_command_exit_value (env (base s''))), s''))"
  by (rule select_over_nothing_keeps_its_level [where x = "''x''" and e = "env (base demo_state)"])
    (simp_all add: demo_ports_def demo_word_def, code_simp)

lemma break_after_empty_select:
  "map_option (\<lambda>(r, s). breaking s)
     (execute demo_ports 3 (Some (Command 0 1 [] (Connection (Some demo_select) (Some (demo_simple 0 [''break''])) (of_char (CHR '';'')))))
        demo_state) = Some 1"
  by code_simp

end
