(* ===== verification/Hook_Api.thy ===== *)
theory Hook_Api
  imports Shell_Types
begin

text \<open>
  What a LuaJIT hook callback can do to the shell (hooks.c). LuaJIT itself is not part of
  the repository: a callback is a tree of the calls it makes through the \<open>rash\<close> table,
  one constructor per kind of call, each continuing with the call's result (an error a
  script does not catch with \<open>pcall\<close> ends in \<open>CError\<close>, and so does running out of
  the instruction allowance). Every terminating script is such a tree, so statements over
  all trees are statements over all hooks.
\<close>

section \<open>Lua values\<close>

text \<open>
  A number carries its integer value and its text, a string the integer it converts to
  when it is numeric: \<open>lua_isnumber\<close> accepts numeric strings and \<open>lua_isstring\<close>
  accepts numbers.
\<close>

datatype lua_value =
    LNil
  | LBool bool
  | LNumber int cstring
  | LString cstring "int option"
  | LTable "lua_value list"
  | LFunction

fun lua_tonumber :: "lua_value \<Rightarrow> int option" where
  "lua_tonumber (LNumber n _) = Some n"
| "lua_tonumber (LString _ n) = n"
| "lua_tonumber _ = None"

text \<open>The value \<open>lua_pushinteger\<close> makes.\<close>

definition lua_int :: "int \<Rightarrow> lua_value" where
  "lua_int n = LNumber n (show_int n)"

fun lua_tostring :: "lua_value \<Rightarrow> cstring option" where
  "lua_tostring (LNumber _ s) = Some s"
| "lua_tostring (LString s _) = Some s"
| "lua_tostring _ = None"

type_synonym lua_result = "cstring + lua_value list"

datatype (dead 'w) callback =
    CReturn lua_value
  | CError "cstring option"
  | CDeny cstring "lua_result \<Rightarrow> 'w callback"
  | CRun "lua_result \<Rightarrow> 'w callback"
  | CWarn cstring "lua_result \<Rightarrow> 'w callback"
  | CPort "'w \<Rightarrow> lua_result \<times> 'w" "lua_result \<Rightarrow> 'w callback"
  | CInstall "cstring list" "'w \<Rightarrow> (cstring + int) \<times> 'w" "lua_result \<Rightarrow> 'w callback"

section \<open>The shell's hook variables\<close>

text \<open>The ten \<open>in_..._stage\<close> flags.\<close>

datatype stage =
    before_stage | dispatch_stage | expand_stage | redirect_policy_stage | redirect_stage
  | download_pipe_stage | before_pipeline_stage | builtin_stage | function_stage | exec_stage

instantiation stage :: enum
begin

definition "Enum.enum = [before_stage, dispatch_stage, expand_stage, redirect_policy_stage,
  redirect_stage, download_pipe_stage, before_pipeline_stage, builtin_stage, function_stage, exec_stage]"

definition "Enum.enum_all P \<longleftrightarrow> list_all P (Enum.enum :: stage list)"

definition "Enum.enum_ex P \<longleftrightarrow> list_ex P (Enum.enum :: stage list)"

instance
proof
  show univ: "(UNIV :: stage set) = set Enum.enum"
    unfolding enum_stage_def by (auto intro: stage.exhaust)
  show "distinct (Enum.enum :: stage list)" unfolding enum_stage_def by simp
  show "Enum.enum_all P \<longleftrightarrow> Ball UNIV P" for P :: "stage \<Rightarrow> bool"
    unfolding enum_all_stage_def univ by (simp add: list_all_iff)
  show "Enum.enum_ex P \<longleftrightarrow> Bex UNIV P" for P :: "stage \<Rightarrow> bool"
    unfolding enum_ex_stage_def univ by (simp add: list_ex_iff)
qed

end

text \<open>The variables any hook run can change, with the standard error stream and the rest of
  the world the shell and its hooks act on.\<close>

record 'w core =
  current_hook_enforcing :: bool
  in_stage :: "stage \<Rightarrow> bool"
  stage_denied :: bool
  stage_deny_reason :: cstring
  rack_denied :: bool
  rack_deny_reason :: cstring
  download_pipe_handled :: bool
  download_pipe_exec_status :: int
  last_command_exit_value :: int
  pipestatus :: "int list"
  stderr_log :: "cstring list"
  world :: 'w

text \<open>\<open>RASH_HOOK_CONTEXT\<close>: one run of the parse-stage hooks around one command.\<close>

record hook_context =
  hc_active :: bool
  hc_executed :: bool
  hc_denied :: bool
  hc_result :: int
  hc_deny_reason :: cstring

record 'w hstate =
  core :: "'w core"
  ctx :: hook_context
  active_hook_context :: bool
  rack_depth :: nat

text \<open>The static initial values.\<close>

definition init_core :: "'w \<Rightarrow> 'w core" where
  "init_core w = \<lparr>current_hook_enforcing = False, in_stage = (\<lambda>_. False), stage_denied = False,
     stage_deny_reason = [], rack_denied = False, rack_deny_reason = [],
     download_pipe_handled = False, download_pipe_exec_status = 0, last_command_exit_value = 0, pipestatus = [], stderr_log = [], world = w\<rparr>"

definition init_hstate :: "'w \<Rightarrow> 'w hstate" where
  "init_hstate w = \<lparr>core = init_core w,
     ctx = \<lparr>hc_active = False, hc_executed = False, hc_denied = False, hc_result = 0, hc_deny_reason = []\<rparr>,
     active_hook_context = False, rack_depth = 0\<rparr>"

lemma init_sel [simp]:
  "world (init_core w) = w" "\<not> current_hook_enforcing (init_core w)" "\<not> in_stage (init_core w) st"
  "\<not> stage_denied (init_core w)" "\<not> rack_denied (init_core w)" "core (init_hstate w) = init_core w"
  "rack_depth (init_hstate w) = 0" "\<not> active_hook_context (init_hstate w)" "\<not> hc_active (ctx (init_hstate w))"
  by (simp_all add: init_core_def init_hstate_def)

text \<open>The executor proper, \<open>execute_command_internal\<close>: any function of the world and of
  the variables that stage hooks inside it change.\<close>

type_synonym 'w executor = "'w core \<Rightarrow> int \<times> 'w core"

definition upd_core :: "('w core \<Rightarrow> 'w core) \<Rightarrow> 'w hstate \<Rightarrow> 'w hstate" where
  "upd_core f s = s\<lparr>core := f (core s)\<rparr>"

definition log_line :: "cstring \<Rightarrow> 'w core \<Rightarrow> 'w core" where
  "log_line l c = c\<lparr>stderr_log := stderr_log c @ [l]\<rparr>"

definition rash_hook_warning :: "cstring \<Rightarrow> cstring option \<Rightarrow> 'w core \<Rightarrow> 'w core" where
  "rash_hook_warning prefix path =
     log_line (''rash: warning: '' @ prefix @ (case path of None \<Rightarrow> [] | Some p \<Rightarrow> p))"

definition escape_advisory :: "char \<Rightarrow> cstring" where
  "escape_advisory c = (if c = CHR 0x0A \<or> c = CHR 0x0D then [CHR 0x5C, CHR ''n''] else [c])"

definition rash_advisory_message :: "cstring \<Rightarrow> 'w core \<Rightarrow> 'w core" where
  "rash_advisory_message message = log_line (''rash: advisory hook: '' @ concat (map escape_advisory message))"

definition RASH_DENY_REASON_MAX :: nat where "RASH_DENY_REASON_MAX = 512"

text \<open>The bounded copy of a reason: at most one byte less than the buffer.\<close>

definition deny_reason_copy :: "cstring \<Rightarrow> cstring" where
  "deny_reason_copy reason =
     (let len = (if length reason \<ge> RASH_DENY_REASON_MAX then RASH_DENY_REASON_MAX - 1 else length reason)
      in take len reason)"

definition denied_line :: "cstring \<Rightarrow> cstring" where
  "denied_line reason = ''rash: denied: '' @ reason"

definition in_any_stage :: "'w core \<Rightarrow> bool" where
  "in_any_stage c \<longleftrightarrow> in_stage c before_stage \<or> in_stage c dispatch_stage \<or> in_stage c expand_stage \<or>
     in_stage c redirect_policy_stage \<or> in_stage c redirect_stage \<or> in_stage c download_pipe_stage \<or>
     in_stage c before_pipeline_stage \<or> in_stage c builtin_stage \<or> in_stage c function_stage \<or>
     in_stage c exec_stage"

lemma in_any_stage_iff: "in_any_stage c \<longleftrightarrow> (\<exists>st. in_stage c st)"
  unfolding in_any_stage_def by (metis stage.exhaust)

section \<open>Denying\<close>

definition rash_mark_denied :: "cstring option \<Rightarrow> 'w hstate \<Rightarrow> 'w hstate" where
  "rash_mark_denied reason s =
     (if hc_denied (ctx s) then s
      else
        let r = deny_reason_copy (case reason of None \<Rightarrow> ''command denied by lifecycle hook'' | Some r \<Rightarrow> r)
        in (upd_core (log_line (denied_line r)) s)
             \<lparr>ctx := (ctx s)\<lparr>hc_denied := True, hc_executed := True,
                        hc_result := EXECUTION_FAILURE, hc_deny_reason := r\<rparr>\<rparr>)"

definition deny_stage :: "cstring \<Rightarrow> 'w core \<Rightarrow> 'w core" where
  "deny_stage reason c =
     (if stage_denied c then c
      else log_line (denied_line (deny_reason_copy reason))
             (c\<lparr>stage_denied := True, stage_deny_reason := deny_reason_copy reason\<rparr>))"

definition deny_rack :: "cstring \<Rightarrow> 'w core \<Rightarrow> 'w core" where
  "deny_rack reason c =
     (if rack_denied c then c
      else log_line (denied_line (deny_reason_copy reason))
             (c\<lparr>rack_denied := True, rack_deny_reason := deny_reason_copy reason\<rparr>))"

definition rash_lua_deny :: "cstring \<Rightarrow> 'w hstate \<Rightarrow> lua_result \<times> 'w hstate" where
  "rash_lua_deny reason s =
     (if \<not> current_hook_enforcing (core s) then
        (Inr [], upd_core (rash_hook_warning
           ''advisory hook called rash.deny; deny ignored (unowned hooks cannot enforce): ''
           (Some reason)) s)
      else if in_any_stage (core s) then (Inr [], upd_core (deny_stage reason) s)
      else if rack_depth s > 0 \<and> (\<not> active_hook_context s \<or> \<not> hc_active (ctx s)) then
        (Inr [], upd_core (deny_rack reason) s)
      else if \<not> active_hook_context s \<or> \<not> hc_active (ctx s) then
        (Inl ''rash.deny must run inside a lifecycle hook'', s)
      else if hc_executed (ctx s) \<and> \<not> hc_denied (ctx s) then
        (Inl ''rash.deny cannot run after run()'', s)
      else (Inr [], rash_mark_denied (Some reason) s))"

section \<open>Running an installer\<close>

definition RASH_INSTALLER_ARGV_MAX :: nat where "RASH_INSTALLER_ARGV_MAX = 64"

text \<open>\<open>rash.exec_with_stdin\<close>; \<open>f\<close> stands for the pipe, the child and the wait: a Lua error
  message or the child's exit status.\<close>

definition rash_lua_exec_with_stdin ::
  "cstring list \<Rightarrow> ('w \<Rightarrow> (cstring + int) \<times> 'w) \<Rightarrow> 'w hstate \<Rightarrow> lua_result \<times> 'w hstate" where
  "rash_lua_exec_with_stdin argv f s =
     (if argv = [] \<or> length argv > RASH_INSTALLER_ARGV_MAX then
        (Inl ''rash.exec_with_stdin expects 1..64 argv entries'', s)
      else
        (case f (world (core s)) of
           (Inl e, w) \<Rightarrow> (Inl e, upd_core (\<lambda>c. c\<lparr>world := w\<rparr>) s)
         | (Inr status, w) \<Rightarrow>
             (Inr [lua_int status], upd_core (\<lambda>c. c\<lparr>world := w, download_pipe_handled := True,
                download_pipe_exec_status := status\<rparr>) s)))"

section \<open>Running a callback\<close>

text \<open>
  \<open>runner\<close> is what the \<open>run\<close> or \<open>next\<close> closure handed to the callback does, with the
  closure's \<open>called\<close> flag. The result is what the protected call reports: an error object
  (its text when it has one) or the callback's first return value.
\<close>

type_synonym 'w runner = "bool \<Rightarrow> 'w hstate \<Rightarrow> lua_result \<times> bool \<times> 'w hstate"

primrec run_callback ::
  "'w runner \<Rightarrow> 'w callback \<Rightarrow> bool \<Rightarrow> 'w hstate \<Rightarrow> (cstring option + lua_value) \<times> bool \<times> 'w hstate" where
  "run_callback runner (CReturn v) called s = (Inr v, called, s)"
| "run_callback runner (CError e) called s = (Inl e, called, s)"
| "run_callback runner (CDeny reason k) called s =
     (case rash_lua_deny reason s of (r, s') \<Rightarrow> run_callback runner (k r) called s')"
| "run_callback runner (CRun k) called s =
     (case runner called s of (r, called', s') \<Rightarrow> run_callback runner (k r) called' s')"
| "run_callback runner (CWarn m k) called s =
     run_callback runner (k (Inr [])) called (upd_core (rash_advisory_message m) s)"
| "run_callback runner (CPort f k) called s =
     (case f (world (core s)) of (r, w) \<Rightarrow>
        run_callback runner (k r) called (upd_core (\<lambda>c. c\<lparr>world := w\<rparr>) s))"
| "run_callback runner (CInstall argv f k) called s =
     (case rash_lua_exec_with_stdin argv f s of (r, s') \<Rightarrow> run_callback runner (k r) called s')"

definition lua_error_text :: "cstring option \<Rightarrow> cstring" where
  "lua_error_text e = (case e of None \<Rightarrow> ''(no error object)'' | Some m \<Rightarrow> m)"

end
