(* ===== verification/Hook_Lifecycle.thy ===== *)
theory Hook_Lifecycle
  imports Hook_Api
begin

text \<open>
  The two ways hooks wrap a command (hooks.c): the chain of parse-stage hooks with its
  \<open>run\<close> closure (\<open>rash_hooks_execute\<close>, \<open>rash_invoke_hook\<close>), and the rack of layers
  with their \<open>next\<close> closure (\<open>rash_rack_execute\<close>, \<open>rash_rack_invoke\<close>). The lists of
  hooks stand for the registry tables with their enforcing bits. The command itself is the
  parameter \<open>exec\<close>, for \<open>execute_command_internal\<close>.
\<close>

type_synonym 'w hook = "(command \<Rightarrow> 'w callback) \<times> bool"

section \<open>The parse-stage chain\<close>

definition rash_execute_original :: "'w executor \<Rightarrow> 'w hstate \<Rightarrow> int \<times> 'w hstate" where
  "rash_execute_original exec s =
     (if hc_executed (ctx s) then (hc_result (ctx s), s)
      else (case exec (core s) of
        (r, c) \<Rightarrow> (r, s\<lparr>core := c, ctx := (ctx s)\<lparr>hc_executed := True, hc_result := r\<rparr>\<rparr>)))"

text \<open>The \<open>run\<close> closure; \<open>invoke_rest\<close> invokes the hooks after its owner.\<close>

definition rash_hook_run :: "('w hstate \<Rightarrow> int \<times> 'w hstate) \<Rightarrow> 'w runner" where
  "rash_hook_run invoke_rest called s =
     (if \<not> hc_active (ctx s) then (Inl ''rash hook run() escaped its command lifecycle'', called, s)
      else if called then (Inl ''rash hook called run() more than once'', called, s)
      else (case invoke_rest s of (r, s') \<Rightarrow> (Inr [lua_int r], True, s')))"

definition hook_outcome :: "bool \<Rightarrow> (cstring option + lua_value) \<Rightarrow> 'w hstate \<Rightarrow> 'w hstate" where
  "hook_outcome enforcing out s =
     (case out of
        Inl e \<Rightarrow>
          if enforcing then
            rash_mark_denied (Some ''enforcing lifecycle hook failed'')
              (upd_core (rash_hook_warning ''enforcing hook failed; denying command: '' (Some (lua_error_text e))) s)
          else
            upd_core (rash_hook_warning ''advisory hook failed; continuing command execution: ''
              (Some (lua_error_text e))) s
      | Inr v \<Rightarrow>
          (case lua_tonumber v of
             None \<Rightarrow> s
           | Some n \<Rightarrow> s\<lparr>ctx := (ctx s)\<lparr>hc_executed := True, hc_result := c_int n\<rparr>\<rparr>))"

definition enter_hook :: "bool \<Rightarrow> 'w hstate \<Rightarrow> 'w hstate" where
  "enter_hook enforcing s =
     (upd_core (\<lambda>c. c\<lparr>current_hook_enforcing := enforcing\<rparr>) s)\<lparr>active_hook_context := True\<rparr>"

definition leave_hook :: "'w hstate \<Rightarrow> 'w hstate" where
  "leave_hook s =
     (upd_core (\<lambda>c. c\<lparr>current_hook_enforcing := False\<rparr>) s)\<lparr>active_hook_context := False\<rparr>"

primrec rash_invoke_hook ::
  "'w executor \<Rightarrow> command \<Rightarrow> 'w hook list \<Rightarrow> 'w hstate \<Rightarrow> int \<times> 'w hstate" where
  "rash_invoke_hook exec cmd [] s =
     (if hc_denied (ctx s) then (hc_result (ctx s), s) else rash_execute_original exec s)"
| "rash_invoke_hook exec cmd (h # hooks) s =
     (if hc_denied (ctx s) then (hc_result (ctx s), s)
      else
        (case run_callback (rash_hook_run (rash_invoke_hook exec cmd hooks)) (fst h cmd) False
                (enter_hook (snd h) s) of
           (out, called, s1) \<Rightarrow>
             let s2 = leave_hook (hook_outcome (snd h) out s1)
             in if hc_denied (ctx s2) then (hc_result (ctx s2), s2)
                else if \<not> hc_executed (ctx s2) then rash_invoke_hook exec cmd hooks s2
                else (hc_result (ctx s2), s2)))"

definition new_hook_context :: hook_context where
  "new_hook_context = \<lparr>hc_active = True, hc_executed = False, hc_denied = False,
     hc_result = EXECUTION_FAILURE, hc_deny_reason = []\<rparr>"

text \<open>\<open>reloadhooks\<close> itself runs without its hooks.\<close>

definition rash_hook_is_reload_builtin_command :: "bool \<Rightarrow> command option \<Rightarrow> bool" where
  "rash_hook_is_reload_builtin_command enabled command =
     (case command of
        None \<Rightarrow> False
      | Some c \<Rightarrow> enabled \<and>
          (case cmd_value c of
             Simple _ _ (w # _) _ \<Rightarrow> word_text w = Some ''reloadhooks''
           | _ \<Rightarrow> False))"

definition rash_hooks_execute ::
  "bool \<Rightarrow> 'w executor \<Rightarrow> 'w hook list \<Rightarrow> command \<Rightarrow> 'w hstate \<Rightarrow> int \<times> 'w hstate" where
  "rash_hooks_execute reload_enabled exec hooks cmd s =
     (if rash_hook_is_reload_builtin_command reload_enabled (Some cmd) then
        (case exec (core s) of (r, c) \<Rightarrow> (r, s\<lparr>core := c\<rparr>))
      else
        (case rash_invoke_hook exec cmd hooks (s\<lparr>ctx := new_hook_context\<rparr>) of
           (r, s') \<Rightarrow> (r, s'\<lparr>ctx := (ctx s')\<lparr>hc_active := False\<rparr>\<rparr>)))"

text \<open>A long jump out of the command ends the context, so that retained closures fail.\<close>

definition rash_unwind_hook_context :: "'w hstate \<Rightarrow> 'w hstate" where
  "rash_unwind_hook_context s = s\<lparr>ctx := (ctx s)\<lparr>hc_active := False\<rparr>\<rparr>"

definition rash_hooks_active :: "bool \<Rightarrow> nat \<Rightarrow> int \<Rightarrow> bool" where
  "rash_hooks_active running_trap hook_execution_depth hook_state \<longleftrightarrow>
     \<not> running_trap \<and> hook_execution_depth = 0 \<and> hook_state = 1"

section \<open>The rack\<close>

definition rash_rack_next :: "('w hstate \<Rightarrow> int \<times> 'w hstate) \<Rightarrow> 'w runner" where
  "rash_rack_next invoke_rest called s =
     (case invoke_rest s of (r, s') \<Rightarrow> (Inr [lua_int r], called, s'))"

text \<open>\<open>set_pipestatus_from_exit\<close>: PIPESTATUS becomes the single status.\<close>

definition set_pipestatus_from_exit :: "int \<Rightarrow> 'w core \<Rightarrow> 'w core" where
  "set_pipestatus_from_exit s c = c\<lparr>pipestatus := [s]\<rparr>"

definition run_exec :: "'w executor \<Rightarrow> 'w hstate \<Rightarrow> int \<times> 'w hstate" where
  "run_exec exec s = (case exec (core s) of (r, c) \<Rightarrow> (r, s\<lparr>core := c\<rparr>))"

definition rack_outcome ::
  "'w executor \<Rightarrow> bool \<Rightarrow> (cstring option + lua_value) \<Rightarrow> 'w hstate \<Rightarrow> int \<times> 'w hstate" where
  "rack_outcome exec enforcing out s =
     (if rack_denied (core s) then
        (EXECUTION_FAILURE,
         upd_core (\<lambda>c. set_pipestatus_from_exit EXECUTION_FAILURE
                          (c\<lparr>last_command_exit_value := EXECUTION_FAILURE\<rparr>)) s)
      else
        (case out of
           Inl e \<Rightarrow>
             if enforcing then
               (EXECUTION_FAILURE, upd_core (rash_hook_warning
                  ''enforcing rack layer failed; denying command: '' (Some (lua_error_text e))) s)
             else run_exec exec (upd_core (rash_hook_warning
                  ''advisory rack layer failed; running command: '' (Some (lua_error_text e))) s)
         | Inr v \<Rightarrow>
             (case lua_tonumber v of
                Some n \<Rightarrow> (c_int n, s)
              | None \<Rightarrow> (EXECUTION_FAILURE, upd_core (rash_hook_warning
                  ''rack layer did not return a status; denying'' None) s))))"

primrec rash_rack_invoke ::
  "'w executor \<Rightarrow> command \<Rightarrow> 'w hook list \<Rightarrow> 'w hstate \<Rightarrow> int \<times> 'w hstate" where
  "rash_rack_invoke exec cmd [] s = run_exec exec s"
| "rash_rack_invoke exec cmd (l # layers) s =
     (case run_callback (rash_rack_next (rash_rack_invoke exec cmd layers)) (fst l cmd) False
             (upd_core (\<lambda>c. c\<lparr>current_hook_enforcing := snd l, rack_denied := False\<rparr>) s) of
        (out, called, s1) \<Rightarrow>
          rack_outcome exec (snd l) out
            (upd_core (\<lambda>c. c\<lparr>current_hook_enforcing := current_hook_enforcing (core s)\<rparr>) s1))"

text \<open>\<open>rash_exec\<close> is the value of the environment variable RASH_EXEC, \<open>have_lua\<close> whether a
  Lua state is loaded.\<close>

definition rash_rack_execute ::
  "cstring option \<Rightarrow> bool \<Rightarrow> 'w executor \<Rightarrow> 'w hook list \<Rightarrow> command \<Rightarrow> 'w hstate \<Rightarrow> int \<times> 'w hstate" where
  "rash_rack_execute rash_exec have_lua exec layers cmd s =
     (if rash_exec = Some ''c'' then run_exec exec s
      else if rack_depth s > 0 then run_exec exec s
      else if \<not> have_lua \<or> layers = [] then run_exec exec s
      else
        (case rash_rack_invoke exec cmd layers (s\<lparr>rack_depth := Suc (rack_depth s)\<rparr>) of
           (r, s') \<Rightarrow> (r, s'\<lparr>rack_depth := rack_depth s' - 1\<rparr>)))"

section \<open>Facts on callbacks\<close>

text \<open>What a script is restricted to: the world changes of its ports, the values it returns,
  and the calls it makes.\<close>

primrec ports_rel :: "('w \<Rightarrow> 'w \<Rightarrow> bool) \<Rightarrow> 'w callback \<Rightarrow> bool" where
  "ports_rel R (CReturn v) \<longleftrightarrow> True"
| "ports_rel R (CError e) \<longleftrightarrow> True"
| "ports_rel R (CDeny reason k) \<longleftrightarrow> (\<forall>r. ports_rel R (k r))"
| "ports_rel R (CRun k) \<longleftrightarrow> (\<forall>r. ports_rel R (k r))"
| "ports_rel R (CWarn m k) \<longleftrightarrow> (\<forall>r. ports_rel R (k r))"
| "ports_rel R (CPort f k) \<longleftrightarrow> (\<forall>w. R w (snd (f w))) \<and> (\<forall>r. ports_rel R (k r))"
| "ports_rel R (CInstall a f k) \<longleftrightarrow> (\<forall>w. R w (snd (f w))) \<and> (\<forall>r. ports_rel R (k r))"

primrec returns_only :: "(lua_value \<Rightarrow> bool) \<Rightarrow> 'w callback \<Rightarrow> bool" where
  "returns_only Q (CReturn v) \<longleftrightarrow> Q v"
| "returns_only Q (CError e) \<longleftrightarrow> True"
| "returns_only Q (CDeny reason k) \<longleftrightarrow> (\<forall>r. returns_only Q (k r))"
| "returns_only Q (CRun k) \<longleftrightarrow> (\<forall>r. returns_only Q (k r))"
| "returns_only Q (CWarn m k) \<longleftrightarrow> (\<forall>r. returns_only Q (k r))"
| "returns_only Q (CPort f k) \<longleftrightarrow> (\<forall>r. returns_only Q (k r))"
| "returns_only Q (CInstall a f k) \<longleftrightarrow> (\<forall>r. returns_only Q (k r))"

primrec never_errors :: "'w callback \<Rightarrow> bool" where
  "never_errors (CReturn v) \<longleftrightarrow> True"
| "never_errors (CError e) \<longleftrightarrow> False"
| "never_errors (CDeny reason k) \<longleftrightarrow> (\<forall>r. never_errors (k r))"
| "never_errors (CRun k) \<longleftrightarrow> (\<forall>r. never_errors (k r))"
| "never_errors (CWarn m k) \<longleftrightarrow> (\<forall>r. never_errors (k r))"
| "never_errors (CPort f k) \<longleftrightarrow> (\<forall>r. never_errors (k r))"
| "never_errors (CInstall a f k) \<longleftrightarrow> (\<forall>r. never_errors (k r))"

text \<open>A refusing script: on every path it raises an error or calls \<open>rash.deny\<close>, and before
  that it does not call its closure.\<close>

primrec refuses :: "'w callback \<Rightarrow> bool" where
  "refuses (CReturn v) \<longleftrightarrow> False"
| "refuses (CError e) \<longleftrightarrow> True"
| "refuses (CDeny reason k) \<longleftrightarrow> True"
| "refuses (CRun k) \<longleftrightarrow> False"
| "refuses (CWarn m k) \<longleftrightarrow> (\<forall>r. refuses (k r))"
| "refuses (CPort f k) \<longleftrightarrow> (\<forall>r. refuses (k r))"
| "refuses (CInstall a f k) \<longleftrightarrow> (\<forall>r. refuses (k r))"

lemma callback_tree_induct [case_names CReturn CError CDeny CRun CWarn CPort CInstall]:
  assumes "\<And>v. P (CReturn v)" and "\<And>e. P (CError e)"
    and "\<And>reason k. (\<And>r. P (k r)) \<Longrightarrow> P (CDeny reason k)"
    and "\<And>k. (\<And>r. P (k r)) \<Longrightarrow> P (CRun k)"
    and "\<And>m k. (\<And>r. P (k r)) \<Longrightarrow> P (CWarn m k)"
    and "\<And>f k. (\<And>r. P (k r)) \<Longrightarrow> P (CPort f k)"
    and "\<And>a f k. (\<And>r. P (k r)) \<Longrightarrow> P (CInstall a f k)"
  shows "P cb"
  by (induction cb) (simp_all add: assms)

text \<open>The changes to the world and to the installer's variables that a port makes.\<close>

definition set_world :: "'w \<Rightarrow> bool \<Rightarrow> int \<Rightarrow> 'w core \<Rightarrow> 'w core" where
  "set_world w h st c = c\<lparr>world := w, download_pipe_handled := h, download_pipe_exec_status := st\<rparr>"

lemma set_world_sel [simp]:
  "world (set_world w h st c) = w" "in_stage (set_world w h st c) = in_stage c"
  "current_hook_enforcing (set_world w h st c) = current_hook_enforcing c"
  "rack_denied (set_world w h st c) = rack_denied c" "stage_denied (set_world w h st c) = stage_denied c"
  by (simp_all add: set_world_def)

lemma port_is_set_world:
  "upd_core (\<lambda>c. c\<lparr>world := w\<rparr>) s =
     upd_core (set_world w (download_pipe_handled (core s)) (download_pipe_exec_status (core s))) s"
  by (simp add: upd_core_def set_world_def)

text \<open>An installer call leaves everything alone but what \<open>set_world\<close> sets, with the world unchanged
  or changed by the port.\<close>

lemma exec_with_stdin_state:
  "\<exists>w h st. snd (rash_lua_exec_with_stdin a f s) = upd_core (set_world w h st) s \<and>
     (w = world (core s) \<or> w = snd (f (world (core s))))"
proof (cases "a = [] \<or> length a > RASH_INSTALLER_ARGV_MAX")
  case True
  then show ?thesis
    by (intro exI [of _ "world (core s)"] exI [of _ "download_pipe_handled (core s)"]
        exI [of _ "download_pipe_exec_status (core s)"])
      (auto simp: rash_lua_exec_with_stdin_def upd_core_def set_world_def)
next
  case False
  obtain r w where f: "f (world (core s)) = (r, w)" by fastforce
  show ?thesis
  proof (cases r)
    case (Inl e)
    with False f show ?thesis
      by (auto simp: rash_lua_exec_with_stdin_def port_is_set_world)
  next
    case (Inr st)
    with False f show ?thesis
      by (auto simp: rash_lua_exec_with_stdin_def upd_core_def set_world_def
          intro!: exI [of _ w] exI [of _ True] exI [of _ st])
  qed
qed

lemma exec_with_stdin_meter:
  assumes "ports_rel (\<lambda>w w'. meter w' = meter w) (CInstall a f k)" and "rash_lua_exec_with_stdin a f s = (r, s1)"
  shows "\<exists>w h st. s1 = upd_core (set_world w h st) s \<and> meter w = meter (world (core s))"
  using exec_with_stdin_state [of a f s] assms by auto

text \<open>Whatever every single action keeps, the whole run keeps; \<open>P\<close> speaks of the closure's
  flag and the state.\<close>

lemma run_callback_keeps:
  assumes deny: "\<And>reason b s. P b s \<Longrightarrow> P b (snd (rash_lua_deny reason s))"
    and run: "\<And>b s. P b s \<Longrightarrow> P (fst (snd (runner b s))) (snd (snd (runner b s)))"
    and warn: "\<And>m b s. P b s \<Longrightarrow> P b (upd_core (rash_advisory_message m) s)"
    and refl: "\<And>w. R w w"
    and port: "\<And>w h st b s. P b s \<Longrightarrow> R (world (core s)) w \<Longrightarrow> P b (upd_core (set_world w h st) s)"
  shows "ports_rel R cb \<Longrightarrow> P called s \<Longrightarrow> run_callback runner cb called s = (out, called', s') \<Longrightarrow> P called' s'"
proof (induction cb arbitrary: called s rule: callback_tree_induct)
  case (CDeny reason k)
  obtain r s1 where d: "rash_lua_deny reason s = (r, s1)" by fastforce
  with CDeny.prems deny [of called s reason] have "P called s1" by simp
  with CDeny d show ?case by auto
next
  case (CRun k)
  obtain r b s1 where d: "runner called s = (r, b, s1)" by (cases "runner called s")
  with CRun.prems run [of called s] have "P b s1" by simp
  with CRun d show ?case by auto
next
  case (CWarn m k)
  with warn have "P called (upd_core (rash_advisory_message m) s)" by blast
  with CWarn show ?case by auto
next
  case (CPort f k)
  obtain r w where d: "f (world (core s)) = (r, w)" by fastforce
  with CPort.prems(1) have "R (world (core s)) w" by (metis ports_rel.simps(6) snd_conv)
  with CPort.prems port have "P called (upd_core (\<lambda>c. c\<lparr>world := w\<rparr>) s)"
    unfolding port_is_set_world by blast
  with CPort d show ?case by auto
next
  case (CInstall a f k)
  obtain r s1 where d: "rash_lua_exec_with_stdin a f s = (r, s1)" by fastforce
  obtain w h st where s1: "s1 = upd_core (set_world w h st) s"
      and w: "w = world (core s) \<or> w = snd (f (world (core s)))"
    using exec_with_stdin_state [of a f s] d by auto
  have "R (world (core s)) w"
    using w CInstall.prems(1) refl by auto
  with CInstall.prems port s1 have "P called s1" by blast
  with CInstall d show ?case by auto
qed auto

lemma run_callback_value:
  "returns_only Q cb \<Longrightarrow> run_callback runner cb called s = (Inr v, called', s') \<Longrightarrow> Q v"
  by (induction cb arbitrary: called s rule: callback_tree_induct) (fastforce split: prod.splits)+

lemma run_callback_no_error:
  "never_errors cb \<Longrightarrow> run_callback runner cb called s \<noteq> (Inl e, called', s')"
  by (induction cb arbitrary: called s rule: callback_tree_induct) (fastforce split: prod.splits)+

lemma upd_core_sel [simp]:
  "core (upd_core f s) = f (core s)" "ctx (upd_core f s) = ctx s"
  "active_hook_context (upd_core f s) = active_hook_context s" "rack_depth (upd_core f s) = rack_depth s"
  by (simp_all add: upd_core_def)

lemma log_line_sel [simp]:
  "world (log_line l c) = world c" "in_stage (log_line l c) = in_stage c"
  "current_hook_enforcing (log_line l c) = current_hook_enforcing c"
  "rack_denied (log_line l c) = rack_denied c" "stage_denied (log_line l c) = stage_denied c"
  by (simp_all add: log_line_def)

lemma warning_sel [simp]:
  "world (rash_hook_warning p m c) = world c" "in_stage (rash_hook_warning p m c) = in_stage c"
  "current_hook_enforcing (rash_hook_warning p m c) = current_hook_enforcing c"
  "rack_denied (rash_hook_warning p m c) = rack_denied c"
  "stage_denied (rash_hook_warning p m c) = stage_denied c"
  "world (rash_advisory_message m' c) = world c" "in_stage (rash_advisory_message m' c) = in_stage c"
  "current_hook_enforcing (rash_advisory_message m' c) = current_hook_enforcing c"
  "rack_denied (rash_advisory_message m' c) = rack_denied c"
  "stage_denied (rash_advisory_message m' c) = stage_denied c"
  by (simp_all add: rash_hook_warning_def rash_advisory_message_def)

lemma mark_denied_sel [simp]:
  "world (core (rash_mark_denied r s)) = world (core s)"
  "in_stage (core (rash_mark_denied r s)) = in_stage (core s)"
  "current_hook_enforcing (core (rash_mark_denied r s)) = current_hook_enforcing (core s)"
  "rack_denied (core (rash_mark_denied r s)) = rack_denied (core s)"
  "hc_denied (ctx (rash_mark_denied r s))"
  "hc_active (ctx (rash_mark_denied r s)) = hc_active (ctx s)"
  "rack_depth (rash_mark_denied r s) = rack_depth s"
  "active_hook_context (rash_mark_denied r s) = active_hook_context s"
  by (simp_all add: rash_mark_denied_def Let_def)

lemma deny_stage_sel [simp]:
  "world (deny_stage r c) = world c" "in_stage (deny_stage r c) = in_stage c"
  "current_hook_enforcing (deny_stage r c) = current_hook_enforcing c"
  "rack_denied (deny_stage r c) = rack_denied c" "stage_denied (deny_stage r c)"
  by (simp_all add: deny_stage_def)

lemma deny_rack_sel [simp]:
  "world (deny_rack r c) = world c" "in_stage (deny_rack r c) = in_stage c"
  "current_hook_enforcing (deny_rack r c) = current_hook_enforcing c"
  "rack_denied (deny_rack r c)" "stage_denied (deny_rack r c) = stage_denied c"
  by (simp_all add: deny_rack_def)

text \<open>What \<open>rash.deny\<close> never touches.\<close>

lemma lua_deny_keeps [simp]:
  "world (core (snd (rash_lua_deny r s))) = world (core s)"
  "in_stage (core (snd (rash_lua_deny r s))) = in_stage (core s)"
  "current_hook_enforcing (core (snd (rash_lua_deny r s))) = current_hook_enforcing (core s)"
  "hc_active (ctx (snd (rash_lua_deny r s))) = hc_active (ctx s)"
  "rack_depth (snd (rash_lua_deny r s)) = rack_depth s"
  "active_hook_context (snd (rash_lua_deny r s)) = active_hook_context s"
  by (simp_all add: rash_lua_deny_def)

lemma lua_deny_advisory:
  "\<not> current_hook_enforcing (core s) \<Longrightarrow> ctx (snd (rash_lua_deny r s)) = ctx s \<and>
     rack_denied (core (snd (rash_lua_deny r s))) = rack_denied (core s) \<and>
     stage_denied (core (snd (rash_lua_deny r s))) = stage_denied (core s)"
  by (simp add: rash_lua_deny_def)

lemma lua_deny_ctx_cases:
  "ctx (snd (rash_lua_deny r s)) = ctx s \<or>
     snd (rash_lua_deny r s) = rash_mark_denied (Some r) s \<and> \<not> (hc_executed (ctx s) \<and> \<not> hc_denied (ctx s))"
  by (auto simp: rash_lua_deny_def)

lemma enter_leave_sel [simp]:
  "world (core (enter_hook e s)) = world (core s)" "ctx (enter_hook e s) = ctx s"
  "in_stage (core (enter_hook e s)) = in_stage (core s)"
  "current_hook_enforcing (core (enter_hook e s)) = e" "active_hook_context (enter_hook e s)"
  "rack_depth (enter_hook e s) = rack_depth s"
  "world (core (leave_hook s)) = world (core s)" "ctx (leave_hook s) = ctx s"
  "in_stage (core (leave_hook s)) = in_stage (core s)"
  "\<not> current_hook_enforcing (core (leave_hook s))" "\<not> active_hook_context (leave_hook s)"
  "rack_depth (leave_hook s) = rack_depth s"
  by (simp_all add: enter_hook_def leave_hook_def)

section \<open>The chain runs its command at most once\<close>

text \<open>\<open>meter\<close> reads off the world how often the command ran: the executor advances it by one,
  scripts leave it alone.\<close>

definition metered :: "('w \<Rightarrow> nat) \<Rightarrow> 'w executor \<Rightarrow> bool" where
  "metered meter exec \<longleftrightarrow> (\<forall>c. meter (world (snd (exec c))) = Suc (meter (world c)))"

definition hooks_keep :: "('w \<Rightarrow> nat) \<Rightarrow> 'w hook list \<Rightarrow> bool" where
  "hooks_keep meter hooks \<longleftrightarrow> (\<forall>h\<in>set hooks. \<forall>cmd. ports_rel (\<lambda>w w'. meter w' = meter w) (fst h cmd))"

lemma hooks_keep_Cons [simp]:
  "hooks_keep meter (h # hs) \<longleftrightarrow> (\<forall>cmd. ports_rel (\<lambda>w w'. meter w' = meter w) (fst h cmd)) \<and> hooks_keep meter hs"
  by (auto simp: hooks_keep_def)

definition at_most_once :: "('w \<Rightarrow> nat) \<Rightarrow> nat \<Rightarrow> 'w hstate \<Rightarrow> bool" where
  "at_most_once meter n s \<longleftrightarrow>
     meter (world (core s)) = n \<or> hc_executed (ctx s) \<and> meter (world (core s)) = Suc n"

lemma at_most_once_cong:
  "world (core s') = world (core s) \<Longrightarrow> ctx s' = ctx s \<Longrightarrow> at_most_once meter n s' = at_most_once meter n s"
  by (simp add: at_most_once_def)

lemma mark_denied_executed:
  "hc_executed (ctx s) \<or> \<not> hc_denied (ctx s) \<Longrightarrow> hc_executed (ctx (rash_mark_denied r s))"
  by (auto simp: rash_mark_denied_def Let_def)

lemma at_most_once_mark:
  assumes "at_most_once meter n s" shows "at_most_once meter n (rash_mark_denied r s)"
  using assms by (auto simp: at_most_once_def rash_mark_denied_def Let_def)

lemma at_most_once_deny:
  assumes "at_most_once meter n s" shows "at_most_once meter n (snd (rash_lua_deny r s))"
  using lua_deny_ctx_cases [of r s] assms at_most_once_mark [OF assms, of "Some r"]
  by (auto simp: at_most_once_def)

lemma at_most_once_outcome:
  assumes "at_most_once meter n s" shows "at_most_once meter n (hook_outcome e out s)"
proof (cases out)
  case (Inl er)
  have w: "at_most_once meter n (upd_core (rash_hook_warning p m) s)" for p m
    using assms by (simp add: at_most_once_def)
  show ?thesis using Inl w at_most_once_mark [OF w] by (simp add: hook_outcome_def)
next
  case (Inr v)
  then show ?thesis using assms by (auto simp: hook_outcome_def at_most_once_def split: option.splits)
qed

lemma invoke_at_most_once:
  assumes "metered meter exec" and "hooks_keep meter hooks" and "at_most_once meter n s"
  shows "at_most_once meter n (snd (rash_invoke_hook exec cmd hooks s))"
  using assms(2,3)
proof (induction hooks arbitrary: s)
  case Nil
  with assms(1) show ?case
    by (auto simp: rash_execute_original_def at_most_once_def metered_def split: prod.splits) (metis snd_conv)+
next
  case (Cons h hooks)
  let ?runner = "rash_hook_run (rash_invoke_hook exec cmd hooks)"
  obtain out called s1 where r: "run_callback ?runner (fst h cmd) False (enter_hook (snd h) s) = (out, called, s1)"
    by (cases "run_callback ?runner (fst h cmd) False (enter_hook (snd h) s)")
  have ports: "ports_rel (\<lambda>w w'. meter w' = meter w) (fst h cmd)" using Cons.prems(1) by simp
  have s1: "at_most_once meter n s1"
  proof (rule run_callback_keeps [where P = "\<lambda>b s. at_most_once meter n s", OF _ _ _ _ _ ports _ r])
    show "at_most_once meter n (enter_hook (snd h) s)"
      using Cons.prems(2) by (simp add: at_most_once_def)
    show "at_most_once meter n (snd (snd (?runner b s)))" if "at_most_once meter n s" for b s
      using Cons.IH [of s] Cons.prems that by (auto simp: rash_hook_run_def split: prod.splits)
    show "at_most_once meter n (snd (rash_lua_deny reason s))" if "at_most_once meter n s" for reason s
      using that by (rule at_most_once_deny)
  qed (auto simp: at_most_once_def)
  then have "at_most_once meter n (leave_hook (hook_outcome (snd h) out s1))"
    using at_most_once_outcome [OF s1, of "snd h" out] by (simp add: at_most_once_def)
  with Cons r show ?case by (auto simp: Let_def)
qed

section \<open>Advisory hooks only watch\<close>

definition not_a_status :: "lua_value \<Rightarrow> bool" where
  "not_a_status v \<longleftrightarrow> lua_tonumber v = None"

definition advisory_only :: "'w hook list \<Rightarrow> bool" where
  "advisory_only hooks \<longleftrightarrow> (\<forall>h\<in>set hooks. \<not> snd h \<and> (\<forall>cmd. returns_only not_a_status (fst h cmd)))"

lemma advisory_only_Cons [simp]:
  "advisory_only (h # hs) \<longleftrightarrow> \<not> snd h \<and> (\<forall>cmd. returns_only not_a_status (fst h cmd)) \<and> advisory_only hs"
  by (auto simp: advisory_only_def)

text \<open>Executors leave the enforcing bit as they find it or cleared, as the stage loops do.\<close>

definition settles :: "'w executor \<Rightarrow> bool" where
  "settles exec \<longleftrightarrow> (\<forall>c. current_hook_enforcing (snd (exec c)) \<longrightarrow> current_hook_enforcing c)"

text \<open>Not denied, and the command has run exactly once if at all, with the result recorded.\<close>

definition watched :: "'w executor \<Rightarrow> ('w \<Rightarrow> nat) \<Rightarrow> nat \<Rightarrow> 'w hstate \<Rightarrow> bool" where
  "watched exec meter n s \<longleftrightarrow> \<not> hc_denied (ctx s) \<and> \<not> current_hook_enforcing (core s) \<and>
     (if hc_executed (ctx s) then meter (world (core s)) = Suc n \<and> (\<exists>c. hc_result (ctx s) = fst (exec c))
      else meter (world (core s)) = n)"

lemma watched_cong:
  "world (core s') = world (core s) \<Longrightarrow> ctx s' = ctx s \<Longrightarrow>
     current_hook_enforcing (core s') = current_hook_enforcing (core s) \<Longrightarrow>
     watched exec meter n s' = watched exec meter n s"
  by (simp add: watched_def)

lemma invoke_watched:
  assumes "metered meter exec" and "settles exec" and "hooks_keep meter hooks"
    and "advisory_only hooks" and "watched exec meter n s"
  shows "watched exec meter n (snd (rash_invoke_hook exec cmd hooks s)) \<and>
     hc_executed (ctx (snd (rash_invoke_hook exec cmd hooks s))) \<and>
     fst (rash_invoke_hook exec cmd hooks s) = hc_result (ctx (snd (rash_invoke_hook exec cmd hooks s)))"
  using assms(3-5)
proof (induction hooks arbitrary: s)
  case Nil
  obtain r c where e: "exec (core s) = (r, c)" by fastforce
  have "meter (world c) = Suc (meter (world (core s)))" and "current_hook_enforcing c \<longrightarrow> current_hook_enforcing (core s)"
    using assms(1,2) e unfolding metered_def settles_def by (metis snd_conv)+
  moreover have "\<exists>c. r = fst (exec c)" using e by (metis fst_conv)
  ultimately show ?case using Nil(3) e by (auto simp: rash_execute_original_def watched_def)
next
  case (Cons h hooks)
  let ?runner = "rash_hook_run (rash_invoke_hook exec cmd hooks)"
  obtain out called s1 where r: "run_callback ?runner (fst h cmd) False (enter_hook (snd h) s) = (out, called, s1)"
    by (cases "run_callback ?runner (fst h cmd) False (enter_hook (snd h) s)")
  have ports: "ports_rel (\<lambda>w w'. meter w' = meter w) (fst h cmd)" and adv: "\<not> snd h"
    using Cons.prems by auto
  have s1: "watched exec meter n s1"
  proof (rule run_callback_keeps [where P = "\<lambda>b s. watched exec meter n s", OF _ _ _ _ _ ports _ r])
    show "watched exec meter n (enter_hook (snd h) s)"
      using Cons.prems(3) adv by (simp add: watched_def)
    show "watched exec meter n (snd (snd (?runner b s)))" if "watched exec meter n s" for b s
      using Cons.IH [of s] Cons.prems that by (auto simp: rash_hook_run_def split: prod.splits)
    show "watched exec meter n (snd (rash_lua_deny reason s))" if "watched exec meter n s" for reason s
      using that lua_deny_advisory [of s reason] by (simp add: watched_def)
  qed (auto simp: watched_def)
  have "hook_outcome (snd h) out s1 = s1 \<or> (\<exists>m. hook_outcome (snd h) out s1 = upd_core (rash_hook_warning
      ''advisory hook failed; continuing command execution: '' m) s1)"
  proof (cases out)
    case (Inl e)
    then show ?thesis using adv by (auto simp: hook_outcome_def)
  next
    case (Inr v)
    with r have "not_a_status v" using Cons.prems(2) run_callback_value by fastforce
    with Inr show ?thesis by (simp add: hook_outcome_def not_a_status_def)
  qed
  then have s2: "watched exec meter n (leave_hook (hook_outcome (snd h) out s1))"
    using s1 by (auto simp: watched_def)
  show ?case
  proof (cases "hc_executed (ctx (leave_hook (hook_outcome (snd h) out s1)))")
    case True
    with s2 r Cons.prems(3) show ?thesis by (simp add: Let_def watched_def)
  next
    case False
    with s2 r Cons show ?thesis by (simp add: Let_def watched_def)
  qed
qed

section \<open>An enforcing refusal is final\<close>

text \<open>Once denied, nothing a script does runs the command.\<close>

definition refused :: "('w \<Rightarrow> nat) \<Rightarrow> nat \<Rightarrow> 'w hstate \<Rightarrow> bool" where
  "refused meter n s \<longleftrightarrow> hc_denied (ctx s) \<and> hc_active (ctx s) \<and> (\<forall>st. \<not> in_stage (core s) st) \<and>
     meter (world (core s)) = n"

lemma invoke_denied:
  "hc_denied (ctx s) \<Longrightarrow> rash_invoke_hook exec cmd hooks s = (hc_result (ctx s), s)"
  by (cases hooks) simp_all

lemma runner_denied:
  "hc_denied (ctx s) \<Longrightarrow> snd (snd (rash_hook_run (rash_invoke_hook exec cmd hooks) b s)) = s"
  by (simp add: rash_hook_run_def invoke_denied)

lemma refused_deny:
  "refused meter n s \<Longrightarrow> refused meter n (snd (rash_lua_deny r s)) \<and> ctx (snd (rash_lua_deny r s)) = ctx s"
  using lua_deny_ctx_cases [of r s] by (auto simp: refused_def rash_mark_denied_def Let_def)

lemma callback_refused:
  assumes ports: "ports_rel (\<lambda>w w'. meter w' = meter w) cb" and s: "refused meter n s"
    and r: "run_callback (rash_hook_run (rash_invoke_hook exec cmd hooks)) cb called s = (out, called', s')"
  shows "refused meter n s' \<and> ctx s' = ctx s"
proof (rule run_callback_keeps [where P = "\<lambda>b t. refused meter n t \<and> ctx t = ctx s", OF _ _ _ _ _ ports _ r])
  show "refused meter n (snd (rash_lua_deny reason t)) \<and> ctx (snd (rash_lua_deny reason t)) = ctx s"
    if "refused meter n t \<and> ctx t = ctx s" for reason t
    using refused_deny [of meter n t reason] that by simp
  show "refused meter n (snd (snd (rash_hook_run (rash_invoke_hook exec cmd hooks) b t))) \<and>
      ctx (snd (snd (rash_hook_run (rash_invoke_hook exec cmd hooks) b t))) = ctx s"
    if "refused meter n t \<and> ctx t = ctx s" for b t
  proof -
    have "snd (snd (rash_hook_run (rash_invoke_hook exec cmd hooks) b t)) = t"
      using that unfolding refused_def by (intro runner_denied) blast
    with that show ?thesis by simp
  qed
qed (use s in \<open>auto simp: refused_def\<close>)

text \<open>Before any hook has decided: no denial, no result, no stage hook on the stack.\<close>

definition undecided :: "('w \<Rightarrow> nat) \<Rightarrow> nat \<Rightarrow> 'w hstate \<Rightarrow> bool" where
  "undecided meter n s \<longleftrightarrow> \<not> hc_denied (ctx s) \<and> \<not> hc_executed (ctx s) \<and> hc_active (ctx s) \<and>
     (\<forall>st. \<not> in_stage (core s) st) \<and> meter (world (core s)) = n"

text \<open>A refusing script run as an enforcing hook has denied by its end, or it ends in an error.\<close>

lemma callback_refuses:
  assumes "refuses cb" and "ports_rel (\<lambda>w w'. meter w' = meter w) cb" and "undecided meter n s"
    and "current_hook_enforcing (core s)" and "active_hook_context s"
    and "run_callback (rash_hook_run (rash_invoke_hook exec cmd hooks)) cb called s = (out, called', s')"
  shows "refused meter n s' \<and> hc_result (ctx s') = EXECUTION_FAILURE \<or>
     undecided meter n s' \<and> (\<exists>e. out = Inl e)"
  using assms
proof (induction cb arbitrary: called s rule: callback_tree_induct)
  case (CDeny reason k)
  have any: "\<not> in_any_stage (core s)" using CDeny.prems(3) by (simp add: undecided_def in_any_stage_iff)
  with CDeny.prems have d: "rash_lua_deny reason s = (Inr [], rash_mark_denied (Some reason) s)"
    by (simp add: rash_lua_deny_def undecided_def)
  have "refused meter n (rash_mark_denied (Some reason) s)"
    and res: "hc_result (ctx (rash_mark_denied (Some reason) s)) = EXECUTION_FAILURE"
    using CDeny.prems(3) by (simp_all add: refused_def undecided_def) (simp add: rash_mark_denied_def Let_def)
  moreover have "ports_rel (\<lambda>w w'. meter w' = meter w) (k (Inr []))" using CDeny.prems(2) by simp
  moreover have "run_callback (rash_hook_run (rash_invoke_hook exec cmd hooks)) (k (Inr [])) called
      (rash_mark_denied (Some reason) s) = (out, called', s')"
    using CDeny.prems(6) d by simp
  ultimately have "refused meter n s' \<and> ctx s' = ctx (rash_mark_denied (Some reason) s)"
    by (intro callback_refused)
  with res show ?case by simp
next
  case (CWarn m k)
  have "undecided meter n (upd_core (rash_advisory_message m) s)"
    using CWarn.prems(3) by (simp add: undecided_def)
  moreover have "refuses (k (Inr []))" and "ports_rel (\<lambda>w w'. meter w' = meter w) (k (Inr []))"
    using CWarn.prems(1,2) by simp_all
  ultimately show ?case
    using CWarn.prems(4-6) by (intro CWarn.IH [of "Inr []" "upd_core (rash_advisory_message m) s" called]) simp_all
next
  case (CPort f k)
  obtain r w where f: "f (world (core s)) = (r, w)" by fastforce
  moreover have "meter (snd (f (world (core s)))) = meter (world (core s))" using CPort.prems(2) by simp
  ultimately have "meter w = meter (world (core s))" by simp
  then have "undecided meter n (upd_core (\<lambda>c. c\<lparr>world := w\<rparr>) s)"
    using CPort.prems(3) by (simp add: undecided_def)
  moreover have "refuses (k r)" and "ports_rel (\<lambda>w w'. meter w' = meter w) (k r)"
    using CPort.prems(1,2) by simp_all
  ultimately show ?case
    using CPort.prems(4-6) f
    by (intro CPort.IH [of r "upd_core (\<lambda>c. c\<lparr>world := w\<rparr>) s" called]) simp_all
next
  case (CInstall a f k)
  obtain r s1 where d: "rash_lua_exec_with_stdin a f s = (r, s1)" by fastforce
  obtain w h st where s1: "s1 = upd_core (set_world w h st) s" "meter w = meter (world (core s))"
    using exec_with_stdin_meter [OF CInstall.prems(2) d] by blast
  have "undecided meter n s1" using CInstall.prems(3) s1 by (simp add: undecided_def)
  moreover have "refuses (k r)" and "ports_rel (\<lambda>w w'. meter w' = meter w) (k r)"
    using CInstall.prems(1,2) by simp_all
  ultimately show ?case
    using CInstall.prems(4-6) d s1(1) by (intro CInstall.IH [of r s1 called]) simp_all
next
  case (CError e)
  then show ?case by auto
qed simp_all

text \<open>A decided state: the command will not run any more.\<close>

definition decided :: "('w \<Rightarrow> nat) \<Rightarrow> nat \<Rightarrow> 'w hstate \<Rightarrow> bool" where
  "decided meter n s \<longleftrightarrow> (hc_denied (ctx s) \<or> hc_executed (ctx s)) \<and> hc_active (ctx s) \<and>
     (\<forall>st. \<not> in_stage (core s) st) \<and> meter (world (core s)) = n"

lemma undecided_enter: "undecided meter n (enter_hook e s) = undecided meter n s"
  by (simp add: undecided_def)

lemma undecided_leave: "undecided meter n (leave_hook s) = undecided meter n s"
  by (simp add: undecided_def)

lemma decided_leave: "decided meter n (leave_hook s) = decided meter n s"
  by (simp add: decided_def)

lemma decided_outcome: "decided meter n s \<Longrightarrow> decided meter n (hook_outcome e out s)"
  by (auto simp: decided_def hook_outcome_def split: sum.splits option.splits)

lemma undecided_outcome:
  "undecided meter n s \<Longrightarrow> undecided meter n (hook_outcome e out s) \<or> decided meter n (hook_outcome e out s)"
  by (auto simp: decided_def undecided_def hook_outcome_def split: sum.splits option.splits)

lemma invoke_refuser:
  assumes "refuses (fst h cmd)" and "snd h" and "ports_rel (\<lambda>w w'. meter w' = meter w) (fst h cmd)"
    and "undecided meter n s"
  shows "decided meter n (snd (rash_invoke_hook exec cmd (h # hooks) s))"
proof -
  let ?runner = "rash_hook_run (rash_invoke_hook exec cmd hooks)"
  obtain out called s1 where r: "run_callback ?runner (fst h cmd) False (enter_hook (snd h) s) = (out, called, s1)"
    by (cases "run_callback ?runner (fst h cmd) False (enter_hook (snd h) s)")
  have "refused meter n s1 \<and> hc_result (ctx s1) = EXECUTION_FAILURE \<or> undecided meter n s1 \<and> (\<exists>e. out = Inl e)"
    using assms by (intro callback_refuses [OF assms(1,3) _ _ _ r]) (simp_all add: undecided_def)
  then have "hc_denied (ctx (hook_outcome (snd h) out s1))" and d: "decided meter n (hook_outcome (snd h) out s1)"
    using assms(2)
    by (auto simp: hook_outcome_def refused_def decided_def undecided_def split: sum.splits option.splits)
  then show ?thesis using r assms(4) by (simp add: Let_def undecided_def decided_leave)
qed

text \<open>Inside a hook before the refusing one.\<close>

definition before_refusal :: "('w \<Rightarrow> nat) \<Rightarrow> nat \<Rightarrow> bool \<Rightarrow> 'w hstate \<Rightarrow> bool" where
  "before_refusal meter n called s \<longleftrightarrow>
     decided meter n s \<and> (called \<or> hc_denied (ctx s)) \<or> undecided meter n s \<and> \<not> called"

lemma before_refusal_deny:
  assumes "before_refusal meter n b s" shows "before_refusal meter n b (snd (rash_lua_deny r s))"
  using assms lua_deny_ctx_cases [of r s]
  by (auto simp: before_refusal_def decided_def undecided_def rash_mark_denied_def Let_def)

lemma before_refusal_run:
  assumes rest: "\<And>s. undecided meter n s \<Longrightarrow> decided meter n (snd (rash_invoke_hook exec cmd hooks s))"
    and "before_refusal meter n b s" and "runner = rash_hook_run (rash_invoke_hook exec cmd hooks)"
  shows "before_refusal meter n (fst (snd (runner b s))) (snd (snd (runner b s)))"
proof (cases "hc_denied (ctx s)")
  case True
  with assms(2,3) runner_denied [OF True] show ?thesis
    by (simp add: before_refusal_def undecided_def decided_def)
next
  case denied: False
  show ?thesis
  proof (cases b)
    case True
    with denied assms(2,3) show ?thesis by (auto simp: before_refusal_def rash_hook_run_def decided_def)
  next
    case False
    with denied assms(2) have u: "undecided meter n s" by (simp add: before_refusal_def)
    obtain r s1 where e: "rash_invoke_hook exec cmd hooks s = (r, s1)" by fastforce
    with rest [OF u] u False assms(3) show ?thesis
      by (simp add: rash_hook_run_def undecided_def before_refusal_def)
  qed
qed

lemma invoke_deny_wins:
  assumes "hooks_keep meter hooks" and "\<exists>h\<in>set hooks. snd h \<and> refuses (fst h cmd)" and "undecided meter n s"
  shows "decided meter n (snd (rash_invoke_hook exec cmd hooks s))"
  using assms
proof (induction hooks arbitrary: s)
  case Nil
  then show ?case by simp
next
  case (Cons h hooks)
  have ports: "ports_rel (\<lambda>w w'. meter w' = meter w) (fst h cmd)" using Cons.prems(1) by simp
  show ?case
  proof (cases "snd h \<and> refuses (fst h cmd)")
    case True
    with ports Cons.prems(3) show ?thesis using invoke_refuser by blast
  next
    case False
    then have tail: "\<And>s. undecided meter n s \<Longrightarrow> decided meter n (snd (rash_invoke_hook exec cmd hooks s))"
      using Cons.prems(1,2) Cons.IH by auto
    let ?runner = "rash_hook_run (rash_invoke_hook exec cmd hooks)"
    obtain out called s1 where r: "run_callback ?runner (fst h cmd) False (enter_hook (snd h) s) = (out, called, s1)"
      by (cases "run_callback ?runner (fst h cmd) False (enter_hook (snd h) s)")
    have "before_refusal meter n called s1"
    proof (rule run_callback_keeps [where P = "before_refusal meter n", OF _ _ _ _ _ ports _ r])
      show "before_refusal meter n (fst (snd (?runner b s))) (snd (snd (?runner b s)))"
        if "before_refusal meter n b s" for b s
        by (rule before_refusal_run [OF tail that refl])
      show "before_refusal meter n b (snd (rash_lua_deny reason s))" if "before_refusal meter n b s" for b s reason
        using that by (rule before_refusal_deny)
      show "before_refusal meter n False (enter_hook (snd h) s)"
        using Cons.prems(3) by (simp add: before_refusal_def undecided_def)
    qed (auto simp: before_refusal_def decided_def undecided_def)
    then have "decided meter n (leave_hook (hook_outcome (snd h) out s1)) \<or>
        undecided meter n (leave_hook (hook_outcome (snd h) out s1))"
      unfolding before_refusal_def decided_leave undecided_leave
      using decided_outcome undecided_outcome by blast
    then consider "decided meter n (leave_hook (hook_outcome (snd h) out s1))"
      | "undecided meter n (leave_hook (hook_outcome (snd h) out s1))" by blast
    then show ?thesis
    proof cases
      case 1
      with r Cons.prems(3) show ?thesis by (auto simp: Let_def undecided_def decided_def)
    next
      case 2
      with r Cons.prems(3) tail [OF 2] show ?thesis by (simp add: Let_def undecided_def)
    qed
  qed
qed

section \<open>Properties of the chain\<close>

lemma hooks_execute_run:
  "\<not> rash_hook_is_reload_builtin_command reload (Some cmd) \<Longrightarrow>
     world (core (snd (rash_hooks_execute reload exec hooks cmd s))) =
       world (core (snd (rash_invoke_hook exec cmd hooks (s\<lparr>ctx := new_hook_context\<rparr>)))) \<and>
     fst (rash_hooks_execute reload exec hooks cmd s) =
       fst (rash_invoke_hook exec cmd hooks (s\<lparr>ctx := new_hook_context\<rparr>))"
  by (simp add: rash_hooks_execute_def split: prod.splits)

lemma new_context_sel [simp]:
  "hc_active new_hook_context" "\<not> hc_executed new_hook_context" "\<not> hc_denied new_hook_context"
  "hc_result new_hook_context = EXECUTION_FAILURE"
  by (simp_all add: new_hook_context_def)

text \<open>Whatever hooks that call only their own closure do (call \<open>run\<close> again, fail, deny, return a number),
  one command that enters the chain of parse-stage hooks is executed at most once. For closures that
  are kept see \<open>Hook_Kept\<close>.\<close>

theorem hooks_execute_at_most_once:
  assumes "metered meter exec" and "hooks_keep meter hooks"
  shows "meter (world (core (snd (rash_hooks_execute reload exec hooks cmd s)))) \<le> Suc (meter (world (core s)))"
proof (cases "rash_hook_is_reload_builtin_command reload (Some cmd)")
  case True
  with assms(1) show ?thesis by (auto simp: rash_hooks_execute_def metered_def split: prod.splits) (metis order_refl snd_conv)
next
  case False
  have "at_most_once meter (meter (world (core s))) (s\<lparr>ctx := new_hook_context\<rparr>)"
    by (simp add: at_most_once_def)
  from invoke_at_most_once [OF assms this, of cmd] show ?thesis
    by (auto simp: hooks_execute_run [OF False] at_most_once_def)
qed

text \<open>C4: When every hook is advisory and none returns a number, the chain is transparent: the
  command runs exactly once and its status is the status of the chain, even when hooks fail,
  call \<open>rash.deny\<close>, or skip \<open>run\<close>.\<close>

theorem advisory_hooks_transparent:
  assumes "metered meter exec" and "settles exec" and "hooks_keep meter hooks" and "advisory_only hooks"
    and "\<not> current_hook_enforcing (core s)"
  shows "meter (world (core (snd (rash_hooks_execute reload exec hooks cmd s)))) = Suc (meter (world (core s))) \<and>
     (\<exists>c. fst (rash_hooks_execute reload exec hooks cmd s) = fst (exec c))"
proof (cases "rash_hook_is_reload_builtin_command reload (Some cmd)")
  case True
  with assms(1) show ?thesis by (auto simp: rash_hooks_execute_def metered_def split: prod.splits) (metis snd_conv fst_conv)+
next
  case False
  have "watched exec meter (meter (world (core s))) (s\<lparr>ctx := new_hook_context\<rparr>)"
    using assms(5) by (simp add: watched_def)
  from invoke_watched [OF assms(1-4) this, of cmd] show ?thesis
    by (auto simp: hooks_execute_run [OF False] watched_def)
qed

text \<open>C2: A refusal by an enforcing hook is final: if any hook of the chain is enforcing and
  denies or fails on every path before calling \<open>run\<close>, then the command is never executed,
  whatever the other hooks do before or after it.\<close>

theorem enforcing_refusal_final:
  assumes "hooks_keep meter hooks" and "\<exists>h\<in>set hooks. snd h \<and> refuses (fst h cmd)"
    and "\<forall>st. \<not> in_stage (core s) st" and "\<not> rash_hook_is_reload_builtin_command reload (Some cmd)"
  shows "meter (world (core (snd (rash_hooks_execute reload exec hooks cmd s)))) = meter (world (core s))"
proof -
  have "undecided meter (meter (world (core s))) (s\<lparr>ctx := new_hook_context\<rparr>)"
    using assms(3) by (simp add: undecided_def)
  from invoke_deny_wins [OF assms(1,2) this, of exec] show ?thesis
    by (simp add: hooks_execute_run [OF assms(4)] decided_def)
qed

text \<open>C3: An enforcing hook at the head of the chain that refuses, and returns no number, makes
  the command fail closed: status EXECUTION_FAILURE and no execution.\<close>

theorem enforcing_head_fails_closed:
  fixes meter :: "'w \<Rightarrow> nat"
  assumes "snd h" and "refuses (fst h cmd)" and "returns_only not_a_status (fst h cmd)"
    and "ports_rel (\<lambda>w w'. meter w' = meter w) (fst h cmd)"
    and "\<forall>st. \<not> in_stage (core s) st" and "\<not> rash_hook_is_reload_builtin_command reload (Some cmd)"
  shows "fst (rash_hooks_execute reload exec (h # hooks) cmd s) = EXECUTION_FAILURE \<and>
     meter (world (core (snd (rash_hooks_execute reload exec (h # hooks) cmd s)))) = meter (world (core s))"
proof -
  let ?s = "s\<lparr>ctx := new_hook_context\<rparr>" and ?n = "meter (world (core s))"
  let ?runner = "rash_hook_run (rash_invoke_hook exec cmd hooks)"
  obtain out called s1 where r: "run_callback ?runner (fst h cmd) False (enter_hook (snd h) ?s) = (out, called, s1)"
    by (cases "run_callback ?runner (fst h cmd) False (enter_hook (snd h) ?s)")
  have "undecided meter ?n (enter_hook (snd h) ?s)" using assms(5) by (simp add: undecided_def)
  then have c: "refused meter ?n s1 \<and> hc_result (ctx s1) = EXECUTION_FAILURE \<or> undecided meter ?n s1 \<and> (\<exists>e. out = Inl e)"
    using assms(1) by (intro callback_refuses [OF assms(2,4) _ _ _ r]) simp_all
  have v: "not_a_status v" if "out = Inr v" for v
    using run_callback_value [OF assms(3)] r that by simp
  have "hc_denied (ctx (hook_outcome (snd h) out s1)) \<and> hc_result (ctx (hook_outcome (snd h) out s1)) = EXECUTION_FAILURE
      \<and> meter (world (core (hook_outcome (snd h) out s1))) = ?n"
  proof (cases out)
    case (Inl e)
    with c assms(1) show ?thesis
      by (auto simp: hook_outcome_def refused_def undecided_def rash_mark_denied_def Let_def)
  next
    case (Inr x)
    with c v [OF Inr] show ?thesis by (auto simp: hook_outcome_def refused_def not_a_status_def)
  qed
  then show ?thesis using r by (simp add: hooks_execute_run [OF assms(6)] Let_def)
qed

section \<open>Concrete chains\<close>

text \<open>A command, an executor that counts its runs, and three hooks.\<close>

definition demo_command :: command where
  "demo_command = Command 0 1 [] (Simple 0 1 [Some (make_bare_word ''ls'')] [])"

definition demo_exec :: "nat executor" where
  "demo_exec c = (7, c\<lparr>world := Suc (world c)\<rparr>)"

definition denying_hook :: "command \<Rightarrow> nat callback" where
  "denying_hook cmd = CWarn ''checking'' (\<lambda>_. CDeny ''no'' (\<lambda>_. CReturn LNil))"

definition running_hook :: "command \<Rightarrow> nat callback" where
  "running_hook cmd = CRun (\<lambda>_. CRun (\<lambda>_. CReturn LNil))"

definition failing_hook :: "command \<Rightarrow> nat callback" where
  "failing_hook cmd = CError (Some ''bad'')"

lemmas demo_defs = demo_command_def demo_exec_def denying_hook_def running_hook_def failing_hook_def

lemma demo_metered: "metered id demo_exec" "settles demo_exec"
  by (simp_all add: metered_def settles_def demo_exec_def)

lemma demo_not_reload: "\<not> rash_hook_is_reload_builtin_command True (Some demo_command)"
  by (simp add: rash_hook_is_reload_builtin_command_def demo_command_def word_text_def make_bare_word_def)

theorem hooks_execute_at_most_once_witness:
  "id (world (core (snd (rash_hooks_execute True demo_exec [(running_hook, True), (running_hook, False)]
     demo_command (init_hstate 0))))) \<le> Suc 0"
  using hooks_execute_at_most_once [of id demo_exec "[(running_hook, True), (running_hook, False)]" True
      demo_command "init_hstate 0"] demo_metered
  by (simp add: hooks_keep_def running_hook_def)

theorem advisory_hooks_transparent_witness:
  "world (core (snd (rash_hooks_execute True demo_exec [(denying_hook, False), (failing_hook, False)]
     demo_command (init_hstate 0)))) = 1"
  using advisory_hooks_transparent [of id demo_exec "[(denying_hook, False), (failing_hook, False)]"
      "init_hstate 0" True demo_command] demo_metered
  by (simp add: hooks_keep_def advisory_only_def not_a_status_def denying_hook_def failing_hook_def)

theorem enforcing_refusal_final_witness:
  "world (core (snd (rash_hooks_execute True demo_exec [(running_hook, False), (denying_hook, True)]
     demo_command (init_hstate 0)))) = 0"
  using enforcing_refusal_final [of id "[(running_hook, False), (denying_hook, True)]" demo_command
      "init_hstate 0" True demo_exec] demo_not_reload
  by (simp add: hooks_keep_def running_hook_def denying_hook_def)

theorem enforcing_head_fails_closed_witness:
  "fst (rash_hooks_execute True demo_exec [(failing_hook, True)] demo_command (init_hstate 0)) = EXECUTION_FAILURE"
  using enforcing_head_fails_closed [of "(failing_hook, True)" demo_command id "init_hstate 0" True demo_exec "[]"]
    demo_not_reload
  by (simp add: failing_hook_def)

text \<open>A hook that denies and then returns a number: the denial holds, but the number replaces the
  failing status, so that a refused command reports success.\<close>

definition deny_return_zero :: "command \<Rightarrow> nat callback" where
  "deny_return_zero cmd = CDeny ''no'' (\<lambda>_. CReturn (lua_int 0))"

lemma denied_command_reports_success:
  "fst (rash_hooks_execute True demo_exec [(deny_return_zero, True)] demo_command (init_hstate 0)) = EXECUTION_SUCCESS \<and>
   world (core (snd (rash_hooks_execute True demo_exec [(deny_return_zero, True)] demo_command (init_hstate 0)))) = 0"
  by (simp add: rash_hooks_execute_def demo_not_reload deny_return_zero_def rash_lua_deny_def in_any_stage_def
      hook_outcome_def rash_mark_denied_def enter_hook_def leave_hook_def upd_core_def lua_int_def Let_def
      log_line_def c_int_def EXECUTION_SUCCESS_def)

section \<open>Properties of the rack\<close>

primrec never_runs :: "'w callback \<Rightarrow> bool" where
  "never_runs (CReturn v) \<longleftrightarrow> True"
| "never_runs (CError e) \<longleftrightarrow> True"
| "never_runs (CDeny reason k) \<longleftrightarrow> (\<forall>r. never_runs (k r))"
| "never_runs (CRun k) \<longleftrightarrow> False"
| "never_runs (CWarn m k) \<longleftrightarrow> (\<forall>r. never_runs (k r))"
| "never_runs (CPort f k) \<longleftrightarrow> (\<forall>r. never_runs (k r))"
| "never_runs (CInstall a f k) \<longleftrightarrow> (\<forall>r. never_runs (k r))"

text \<open>Inside the rack, outside any chain and any stage.\<close>

definition in_rack :: "('w \<Rightarrow> nat) \<Rightarrow> nat \<Rightarrow> 'w hstate \<Rightarrow> bool" where
  "in_rack meter n s \<longleftrightarrow> rack_depth s > 0 \<and> \<not> (active_hook_context s \<and> hc_active (ctx s)) \<and>
     (\<forall>st. \<not> in_stage (core s) st) \<and> meter (world (core s)) = n"

lemma in_rack_deny: "in_rack meter n s \<Longrightarrow> in_rack meter n (snd (rash_lua_deny r s))"
  by (simp add: in_rack_def)

lemma in_rack_upd:
  "in_rack meter n s \<Longrightarrow> in_stage (f (core s)) = in_stage (core s) \<Longrightarrow>
     meter (world (f (core s))) = meter (world (core s)) \<Longrightarrow> in_rack meter n (upd_core f s)"
  by (simp add: in_rack_def)

lemma rack_callback_refuses:
  assumes "refuses cb" and "never_runs cb" and "ports_rel (\<lambda>w w'. meter w' = meter w) cb" and "in_rack meter n s"
    and "current_hook_enforcing (core s)" and "run_callback runner cb called s = (out, called', s')"
  shows "in_rack meter n s' \<and> (rack_denied (core s') \<or> (\<exists>e. out = Inl e))"
  using assms
proof (induction cb arbitrary: s rule: callback_tree_induct)
  case (CDeny reason k)
  have any: "\<not> in_any_stage (core s)" using CDeny.prems(4) by (simp add: in_rack_def in_any_stage_iff)
  then have d: "rash_lua_deny reason s = (Inr [], upd_core (deny_rack reason) s)"
    using CDeny.prems(4,5) by (auto simp: rash_lua_deny_def in_rack_def)
  have keep: "in_rack meter n t' \<and> rack_denied (core t')"
    if "never_runs cb'" and "ports_rel (\<lambda>w w'. meter w' = meter w) cb'" and "in_rack meter n t"
      and "rack_denied (core t)" and "run_callback runner cb' called t = (out, called', t')" for cb' t t'
    using that
  proof (induction cb' arbitrary: t rule: callback_tree_induct)
    case (CDeny reason k)
    obtain r t1 where e: "rash_lua_deny reason t = (r, t1)" by fastforce
    have "in_rack meter n t1" using in_rack_deny [OF CDeny.prems(3), of reason] e by simp
    moreover have "rack_denied (core t1)"
      using CDeny.prems(4) e by (auto simp: rash_lua_deny_def rash_mark_denied_def Let_def split: if_splits)
    ultimately show ?case
      using CDeny.prems e by (intro CDeny.IH [of r t1]) simp_all
  next
    case (CWarn m k)
    show ?case
      using CWarn.prems by (intro CWarn.IH [of "Inr []" "upd_core (rash_advisory_message m) t"])
        (simp_all add: in_rack_upd)
  next
    case (CPort f k)
    obtain r w where f: "f (world (core t)) = (r, w)" by fastforce
    moreover have "meter (snd (f (world (core t)))) = meter (world (core t))" using CPort.prems(2) by simp
    ultimately show ?case
      using CPort.prems by (intro CPort.IH [of r "upd_core (\<lambda>c. c\<lparr>world := w\<rparr>) t"]) (simp_all add: in_rack_upd)
  next
    case (CInstall a f k)
    obtain r t1 where e: "rash_lua_exec_with_stdin a f t = (r, t1)" by fastforce
    then obtain w h st where "t1 = upd_core (set_world w h st) t" "meter w = meter (world (core t))"
      using exec_with_stdin_meter [OF CInstall.prems(2)] by blast
    then show ?case
      using CInstall.prems e by (intro CInstall.IH [of r t1]) (simp_all add: in_rack_upd)
  qed simp_all
  have "in_rack meter n (upd_core (deny_rack reason) s)" using CDeny.prems(4) by (simp add: in_rack_upd)
  with CDeny.prems(2,3,6) d keep [of "k (Inr [])" "upd_core (deny_rack reason) s" s'] show ?case by simp
next
  case (CWarn m k)
  show ?case
    using CWarn.prems by (intro CWarn.IH [of "Inr []" "upd_core (rash_advisory_message m) s"])
      (simp_all add: in_rack_upd)
next
  case (CPort f k)
  obtain r w where f: "f (world (core s)) = (r, w)" by fastforce
  moreover have "meter (snd (f (world (core s)))) = meter (world (core s))" using CPort.prems(3) by simp
  ultimately show ?case
    using CPort.prems by (intro CPort.IH [of r "upd_core (\<lambda>c. c\<lparr>world := w\<rparr>) s"]) (simp_all add: in_rack_upd)
next
  case (CInstall a f k)
  obtain r s1 where e: "rash_lua_exec_with_stdin a f s = (r, s1)" by fastforce
  then obtain w h st where "s1 = upd_core (set_world w h st) s" "meter w = meter (world (core s))"
    using exec_with_stdin_meter [OF CInstall.prems(3)] by blast
  then show ?case
    using CInstall.prems e by (intro CInstall.IH [of r s1]) (simp_all add: in_rack_upd)
next
  case (CError e)
  then show ?case by auto
qed simp_all

lemma rack_outcome_keeps:
  assumes "in_rack meter n s" and "rack_denied (core s) \<or> enforcing \<or> (\<forall>e. out \<noteq> Inl e)"
  shows "in_rack meter n (snd (rack_outcome exec enforcing out s))"
  using assms by (auto simp: rack_outcome_def set_pipestatus_from_exit_def intro!: in_rack_upd split: sum.splits option.splits)

lemma rack_invoke_refused:
  assumes "hooks_keep meter (pre @ [l])" and "snd l" and "refuses (fst l cmd)" and "never_runs (fst l cmd)"
    and "\<forall>h\<in>set pre. snd h \<or> never_errors (fst h cmd)" and "in_rack meter n s"
  shows "in_rack meter n (snd (rash_rack_invoke exec cmd (pre @ l # post) s))"
  using assms(1,5,6)
proof (induction pre arbitrary: s)
  case Nil
  let ?s = "upd_core (\<lambda>c. c\<lparr>current_hook_enforcing := snd l, rack_denied := False\<rparr>) s"
  let ?runner = "rash_rack_next (rash_rack_invoke exec cmd post)"
  obtain out called s1 where r: "run_callback ?runner (fst l cmd) False ?s = (out, called, s1)"
    by (cases "run_callback ?runner (fst l cmd) False ?s")
  have "ports_rel (\<lambda>w w'. meter w' = meter w) (fst l cmd)" using Nil.prems(1) by simp
  moreover have "in_rack meter n ?s" using Nil.prems(3) by (simp add: in_rack_upd)
  ultimately have "in_rack meter n s1 \<and> (rack_denied (core s1) \<or> (\<exists>e. out = Inl e))"
    using assms(2) by (intro rack_callback_refuses [OF assms(3,4) _ _ _ r]) simp_all
  then show ?case using r assms(2) by (simp add: rack_outcome_keeps in_rack_upd)
next
  case (Cons h pre)
  let ?s = "upd_core (\<lambda>c. c\<lparr>current_hook_enforcing := snd h, rack_denied := False\<rparr>) s"
  let ?runner = "rash_rack_next (rash_rack_invoke exec cmd (pre @ l # post))"
  obtain out called s1 where r: "run_callback ?runner (fst h cmd) False ?s = (out, called, s1)"
    by (cases "run_callback ?runner (fst h cmd) False ?s")
  have ports: "ports_rel (\<lambda>w w'. meter w' = meter w) (fst h cmd)" using Cons.prems(1) by simp
  have "in_rack meter n s1"
  proof (rule run_callback_keeps [where P = "\<lambda>b s. in_rack meter n s", OF _ _ _ _ _ ports _ r])
    show "in_rack meter n (snd (snd (?runner b t)))" if "in_rack meter n t" for b t
    proof -
      have "in_rack meter n (snd (rash_rack_invoke exec cmd (pre @ l # post) t))"
        using Cons.IH [OF _ _ that] Cons.prems(1,2) by simp
      then show ?thesis by (cases "rash_rack_invoke exec cmd (pre @ l # post) t") (simp add: rash_rack_next_def)
    qed
    show "in_rack meter n ?s" using Cons.prems(3) by (simp add: in_rack_upd)
  qed (simp_all add: in_rack_deny in_rack_upd)
  moreover have "snd h \<or> (\<forall>e. out \<noteq> Inl e)"
    using Cons.prems(2) r run_callback_no_error by fastforce
  ultimately show ?case using r by (auto intro!: rack_outcome_keeps in_rack_upd)
qed

text \<open>C5: A rack layer that is enforcing and refuses without calling \<open>next\<close> keeps the command
  from running, provided the layers outside it are enforcing or do not fail.\<close>

theorem rack_refusal_final:
  assumes "hooks_keep meter (pre @ [l])" and "snd l" and "refuses (fst l cmd)" and "never_runs (fst l cmd)"
    and "\<forall>h\<in>set pre. snd h \<or> never_errors (fst h cmd)"
    and "\<forall>st. \<not> in_stage (core s) st" and "\<not> (active_hook_context s \<and> hc_active (ctx s))"
    and "rash_exec \<noteq> Some ''c''" and "rack_depth s = 0" 
  shows "meter (world (core (snd (rash_rack_execute rash_exec True exec (pre @ l # post) cmd s)))) =
     meter (world (core s))"
proof -
  have "in_rack meter (meter (world (core s))) (s\<lparr>rack_depth := Suc (rack_depth s)\<rparr>)"
    using assms(6,7) by (simp add: in_rack_def)
  from rack_invoke_refused [OF assms(1-5) this, of exec post] assms(8,9)
  show ?thesis by (auto simp: rash_rack_execute_def in_rack_def split: prod.splits)
qed

text \<open>A layer that hands on to the next one and returns its status.\<close>

definition pass_layer :: "command \<Rightarrow> 'w callback" where
  "pass_layer cmd = CRun (\<lambda>r. CReturn (case r of Inr (v # _) \<Rightarrow> v | _ \<Rightarrow> LNil))"

lemma pass_layer_invoke:
  assumes "fst h = pass_layer" and "rash_rack_invoke exec cmd layers
      (upd_core (\<lambda>c. c\<lparr>current_hook_enforcing := snd h, rack_denied := False\<rparr>) s) = (r, s1)"
    and "- (2 ^ 31) \<le> r" and "r < 2 ^ 31" and "\<not> rack_denied (core s1)"
  shows "rash_rack_invoke exec cmd (h # layers) s =
     (r, upd_core (\<lambda>c. c\<lparr>current_hook_enforcing := current_hook_enforcing (core s)\<rparr>) s1)"
  using assms by (simp add: pass_layer_def rash_rack_next_def rack_outcome_def lua_int_def c_int_id)

lemma rack_pass_invoke:
  assumes "layers \<noteq> []" and "\<forall>h\<in>set layers. fst h = pass_layer"
    and int: "\<And>c. - (2 ^ 31) \<le> fst (exec c) \<and> fst (exec c) < 2 ^ 31"
    and denied: "\<And>c. \<not> rack_denied c \<Longrightarrow> \<not> rack_denied (snd (exec c))"
    and "c = (core s)\<lparr>current_hook_enforcing := snd (last layers), rack_denied := False\<rparr>"
  shows "rash_rack_invoke exec cmd layers s =
     (fst (exec c), s\<lparr>core := (snd (exec c))\<lparr>current_hook_enforcing := current_hook_enforcing (core s)\<rparr>\<rparr>)"
  using assms(1,2,5)
proof (induction layers arbitrary: s c rule: list_nonempty_induct)
  case (single h)
  let ?s = "upd_core (\<lambda>c. c\<lparr>current_hook_enforcing := snd h, rack_denied := False\<rparr>) s"
  have "rash_rack_invoke exec cmd [] ?s = (fst (exec c), ?s\<lparr>core := snd (exec c)\<rparr>)"
    using single(2) by (simp add: run_exec_def split: prod.splits)
  from pass_layer_invoke [OF _ this] single int [of c] denied [of c]
  show ?case by (simp add: upd_core_def)
next
  case (cons h layers)
  let ?s = "upd_core (\<lambda>c. c\<lparr>current_hook_enforcing := snd h, rack_denied := False\<rparr>) s"
  have "c = (core ?s)\<lparr>current_hook_enforcing := snd (last layers), rack_denied := False\<rparr>"
    using cons by simp
  then have "rash_rack_invoke exec cmd layers ?s =
      (fst (exec c), ?s\<lparr>core := (snd (exec c))\<lparr>current_hook_enforcing := current_hook_enforcing (core ?s)\<rparr>\<rparr>)"
    using cons.IH [of c ?s] cons.prems(1) by simp
  from pass_layer_invoke [OF _ this] cons int [of c] denied [of c]
  show ?case by (simp add: upd_core_def)
qed

text \<open>C6: Layers that hand on through \<open>next\<close> and return its status do not change what a command
  does: the command runs once, from the state it had but for the enforcing bit of the innermost
  layer, and its status is the status of the rack.\<close>

theorem rack_pass_through:
  assumes "\<forall>h\<in>set layers. fst h = pass_layer"
    and "\<And>c. - (2 ^ 31) \<le> fst (exec c) \<and> fst (exec c) < 2 ^ 31"
    and "\<And>c. \<not> rack_denied c \<Longrightarrow> \<not> rack_denied (snd (exec c))"
    and "layers \<noteq> []" and "rash_exec \<noteq> Some ''c''" and "rack_depth s = 0"
    and "c = (core s)\<lparr>current_hook_enforcing := snd (last layers), rack_denied := False\<rparr>"
  shows "rash_rack_execute rash_exec True exec layers cmd s =
     (fst (exec c), s\<lparr>core := (snd (exec c))\<lparr>current_hook_enforcing := current_hook_enforcing (core s)\<rparr>\<rparr>)"
  using rack_pass_invoke [OF assms(4,1-3), where c = c and s = "s\<lparr>rack_depth := Suc 0\<rparr>" and cmd = cmd] assms(4-7)
  by (cases s) (simp add: rash_rack_execute_def)

text \<open>The rack is passed by, and the command runs directly and once, when RASH_EXEC is
  \<open>c\<close>, inside another rack, without a Lua state and without layers.\<close>

theorem rack_bypass:
  assumes "rash_exec = Some ''c'' \<or> rack_depth s > 0 \<or> \<not> have_lua \<or> layers = []"
  shows "rash_rack_execute rash_exec have_lua exec layers cmd s =
     (fst (exec (core s)), s\<lparr>core := snd (exec (core s))\<rparr>)"
  using assms by (auto simp: rash_rack_execute_def run_exec_def split: prod.splits)

theorem rack_bypass_witness:
  "fst (rash_rack_execute (Some ''c'') True demo_exec [(denying_hook, True)] demo_command (init_hstate 0)) = 7"
  using rack_bypass [of "Some ''c''" "init_hstate 0" True "[(denying_hook, True)]" demo_exec demo_command]
  by (simp add: demo_exec_def)

theorem rack_refusal_final_witness:
  "world (core (snd (rash_rack_execute None True demo_exec ([(pass_layer, False)] @ (denying_hook, True) # [])
     demo_command (init_hstate 0)))) = 0"
  using rack_refusal_final [of id "[(pass_layer, False)]" "(denying_hook, True)" demo_command "init_hstate 0"
      None demo_exec "[]"]
  by (simp add: hooks_keep_def pass_layer_def denying_hook_def)

theorem rack_pass_through_witness:
  "fst (rash_rack_execute None True demo_exec [(pass_layer, False), (pass_layer, True)] demo_command (init_hstate 0)) = 7"
  using rack_pass_through [of "[(pass_layer, False), (pass_layer, True)]" demo_exec None "init_hstate 0" _ demo_command]
  by (simp add: demo_exec_def)

text \<open>Three ways around the rack. A layer's \<open>rash.deny\<close> does not stop its own \<open>next\<close>, the
  inner layer clears the denial again, and a failing advisory layer runs the command itself,
  skipping an enforcing layer inside it, or a second time.\<close>

definition deny_then_next :: "command \<Rightarrow> nat callback" where
  "deny_then_next cmd = CDeny ''no'' (\<lambda>_. pass_layer cmd)"

definition next_then_fail :: "command \<Rightarrow> nat callback" where
  "next_then_fail cmd = CRun (\<lambda>_. CError None)"

lemmas rack_run_defs = rash_rack_execute_def rash_rack_next_def rack_outcome_def run_exec_def demo_exec_def
  upd_core_def rash_lua_deny_def in_any_stage_def deny_rack_def log_line_def rash_hook_warning_def lua_int_def
  c_int_def set_pipestatus_from_exit_def Let_def init_hstate_def

lemma rack_denial_lost:
  "fst (rash_rack_execute None True demo_exec [(deny_then_next, True), (pass_layer, True)] demo_command (init_hstate 0)) = 7 \<and>
   world (core (snd (rash_rack_execute None True demo_exec [(deny_then_next, True), (pass_layer, True)]
     demo_command (init_hstate 0)))) = 1"
  by (simp add: rack_run_defs deny_then_next_def pass_layer_def)

lemma rack_failing_layer_bypasses:
  "world (core (snd (rash_rack_execute None True demo_exec [(failing_hook, False), (denying_hook, True)]
     demo_command (init_hstate 0)))) = 1"
  by (simp add: rack_run_defs failing_hook_def)

lemma rack_failing_layer_runs_twice:
  "world (core (snd (rash_rack_execute None True demo_exec [(next_then_fail, False)]
     demo_command (init_hstate 0)))) = 2"
  by (simp add: rack_run_defs next_then_fail_def)

end
