(* ===== verification/Hook_Redirect.thy ===== *)
theory Hook_Redirect
  imports Shell_Types
begin

text \<open>
  The pure part of the redirect policy (hooks.c): which words Lua may expand, what a safe
  redirect target is, the pre-expansion of a redirect list, and the rows a policy hook sees.
  The variable table is a map, and \<open>lstat\<close> a map from paths to whether the entry is a
  regular file.
\<close>

section \<open>Characters and strings\<close>

text \<open>\<open>strpbrk\<close> and \<open>strstr\<close> as tests.\<close>

definition strpbrk :: "cstring \<Rightarrow> cstring \<Rightarrow> bool" where
  "strpbrk s cs \<longleftrightarrow> list_ex (\<lambda>c. c \<in> set cs) s"

fun strstr :: "cstring \<Rightarrow> cstring \<Rightarrow> bool" where
  "strstr [] p \<longleftrightarrow> p = []"
| "strstr (c # s) p \<longleftrightarrow> take (length p) (c # s) = p \<or> strstr s p"

definition RASH_REDIR_UNSAFE_CHARS :: cstring where
  "RASH_REDIR_UNSAFE_CHARS = ''*?[]()<>{}!'' @ [CHR 0x22, CHR 0x27, CHR 0x60, CHR 0x5C] @ ''$~''"

definition name_start :: "char \<Rightarrow> bool" where
  "name_start c \<longleftrightarrow> (CHR ''A'' \<le> c \<and> c \<le> CHR ''Z'') \<or> (CHR ''a'' \<le> c \<and> c \<le> CHR ''z'') \<or> c = CHR ''_''"

definition name_char :: "char \<Rightarrow> bool" where
  "name_char c \<longleftrightarrow> name_start c \<or> (CHR ''0'' \<le> c \<and> c \<le> CHR ''9'')"

fun rash_simple_name :: "cstring \<Rightarrow> bool" where
  "rash_simple_name [] = False"
| "rash_simple_name (c # s) \<longleftrightarrow> name_start c \<and> list_all name_char s"

section \<open>Words a Lua expansion may take\<close>

definition W_NOT_LUA :: "32 word" where
  "W_NOT_LUA = W_QUOTED OR W_ASSIGNMENT OR W_ARRAYREF OR W_COMPASSIGN OR W_HASQUOTEDNULL OR W_TILDEEXP"

definition rash_word_lua_expandable :: "word_desc option \<Rightarrow> bool" where
  "rash_word_lua_expandable word =
     (case word of
        None \<Rightarrow> False
      | Some w \<Rightarrow>
          (case w_word w of
             None \<Rightarrow> False
           | Some s \<Rightarrow>
               if w_flags w AND W_NOT_LUA \<noteq> 0 then False
               else if s = [] then True
               else if strpbrk s ([CHR 0x22, CHR 0x27, CHR 0x60, CHR 0x5C] @ ''*?[{~'') then False
               else if strstr s ''$(('' \<or> strstr s ''$('' \<or> strstr s ''${'' then False
               else if hd s = CHR ''$'' then rash_simple_name (tl s)
               else CHR ''$'' \<notin> set s))"

definition rash_expand_mode :: "word_list \<Rightarrow> cstring" where
  "rash_expand_mode words =
     (if words = [] then ''c''
      else if list_all rash_word_lua_expandable words then ''lua'' else ''c'')"

section \<open>Safe redirect targets\<close>

record shell_var =
  sv_value :: "cstring option"
  sv_invisible :: bool
  sv_nameref :: bool
  sv_array :: bool
  sv_assoc :: bool
  sv_dynamic :: bool

type_synonym var_table = "cstring \<Rightarrow> shell_var option"

definition DEFAULT_IFS :: cstring where "DEFAULT_IFS = [CHR '' '', CHR 0x09, CHR 0x0A]"

definition ifs_chars_of :: "var_table \<Rightarrow> cstring" where
  "ifs_chars_of vars =
     (case vars ''IFS'' of
        None \<Rightarrow> DEFAULT_IFS
      | Some v \<Rightarrow> if sv_invisible v then DEFAULT_IFS
                   else (case sv_value v of None \<Rightarrow> DEFAULT_IFS | Some s \<Rightarrow> s))"

definition rash_redirect_name_value :: "var_table \<Rightarrow> cstring \<Rightarrow> cstring option" where
  "rash_redirect_name_value vars name =
     (case vars name of
        None \<Rightarrow> None
      | Some v \<Rightarrow>
          if sv_invisible v \<or> sv_nameref v \<or> sv_array v \<or> sv_assoc v \<or> sv_dynamic v then None
          else
            (case sv_value v of
               None \<Rightarrow> None
             | Some value \<Rightarrow>
                 if value = [] then None
                 else if list_ex (\<lambda>c. c \<in> set (RASH_REDIR_UNSAFE_CHARS @ DEFAULT_IFS) \<or>
                                      c \<in> set (ifs_chars_of vars)) value then None
                 else Some value))"

definition rash_redirect_safe_target :: "var_table \<Rightarrow> word_desc option \<Rightarrow> cstring option" where
  "rash_redirect_safe_target vars word =
     (if \<not> rash_word_lua_expandable word then None
      else
        (case word_text word of
           None \<Rightarrow> None
         | Some s \<Rightarrow>
             if s = [] then None
             else if strpbrk s RASH_REDIR_UNSAFE_CHARS \<and> hd s \<noteq> CHR ''$'' then None
             else if hd s = CHR ''$'' then rash_redirect_name_value vars (tl s)
             else Some s))"

section \<open>Pre-expansion of a redirect list\<close>

definition preexpand_instruction :: "r_instruction \<Rightarrow> bool" where
  "preexpand_instruction ri \<longleftrightarrow> ri \<in> {r_duplicating_input, r_duplicating_output, r_close_this,
     r_move_input, r_move_output, r_output_direction, r_input_direction, r_inputa_direction,
     r_appending_to, r_err_and_out, r_append_err_and_out, r_input_output, r_output_force}"

text \<open>The second loop: the path of each row and whether a name was resolved. \<open>Some None\<close>
  leaves the list to the C code; the outer None is a read of the wrong union member.\<close>

fun preexpand_paths :: "var_table \<Rightarrow> redirect list \<Rightarrow> (cstring option list \<times> bool) option option" where
  "preexpand_paths vars [] = Some (Some ([], False))"
| "preexpand_paths vars (r # rs) =
     (if \<not> rash_redirectee_is_word (rd_instruction r) then
        (case preexpand_paths vars rs of
           Some (Some (paths, renamed)) \<Rightarrow> Some (Some (None # paths, renamed))
         | res \<Rightarrow> res)
      else
        (case redirectee_filename (rd_redirectee r) of
           None \<Rightarrow> None
         | Some word \<Rightarrow>
             (case rash_redirect_safe_target vars word of
                None \<Rightarrow> Some None
              | Some target \<Rightarrow>
                  (case preexpand_paths vars rs of
                     Some (Some (paths, renamed)) \<Rightarrow>
                       Some (Some (Some target # paths, word_text word \<noteq> Some target \<or> renamed))
                   | res \<Rightarrow> res))))"

definition apply_row :: "redirect \<Rightarrow> cstring option \<Rightarrow> redirect" where
  "apply_row r path =
     (case path of None \<Rightarrow> r | Some t \<Rightarrow> r\<lparr>rd_redirectee := Filename (Some (make_bare_word t))\<rparr>)"

definition rash_redirects_preexpand ::
  "var_table \<Rightarrow> redirect list \<Rightarrow> (cstring option list \<times> redirect list option) option option" where
  "rash_redirects_preexpand vars rs =
     (if list_ex (\<lambda>r. rd_rflags r AND REDIR_VARASSIGN \<noteq> 0 \<or> \<not> preexpand_instruction (rd_instruction r)) rs
      then Some None
      else
        (case preexpand_paths vars rs of
           None \<Rightarrow> None
         | Some None \<Rightarrow> Some None
         | Some (Some (paths, renamed)) \<Rightarrow>
             Some (Some (paths, if renamed then Some (map2 apply_row rs paths) else None))))"

section \<open>What a policy hook sees\<close>

definition rash_redirect_kind :: "r_instruction \<Rightarrow> cstring" where
  "rash_redirect_kind ri =
     (if ri = r_output_direction then ''output''
      else if ri = r_output_force then ''force''
      else if ri = r_appending_to then ''append''
      else if ri = r_input_direction then ''input''
      else if ri = r_inputa_direction then ''inputa''
      else if ri = r_err_and_out then ''err_and_out''
      else if ri = r_append_err_and_out then ''append_err_and_out''
      else if ri = r_input_output then ''input_output''
      else ''other'')"

definition rash_redirect_will_clobber :: "r_instruction \<Rightarrow> bool \<Rightarrow> bool \<Rightarrow> bool" where
  "rash_redirect_will_clobber ri exists is_reg =
     (if \<not> exists \<or> \<not> is_reg then False
      else ri = r_output_direction \<or> ri = r_output_force \<or> ri = r_err_and_out)"

record redirect_row =
  row_is_input :: bool
  row_is_clobber :: bool
  row_word :: "cstring option"
  row_path :: "(cstring \<times> bool \<times> bool) option"

text \<open>\<open>lstat\<close>: None when the path does not exist, otherwise whether it is a regular file.\<close>

type_synonym lstat_fun = "cstring \<Rightarrow> bool option"

definition push_redirect_row :: "lstat_fun \<Rightarrow> redirect \<Rightarrow> cstring option \<Rightarrow> redirect_row option" where
  "push_redirect_row lstat r path =
     (case (if rash_redirectee_is_word (rd_instruction r)
            then map_option word_text (redirectee_filename (rd_redirectee r)) else Some None) of
        None \<Rightarrow> None
      | Some word \<Rightarrow> Some \<lparr>row_is_input = INPUT_REDIRECT (rd_instruction r),
            row_is_clobber = CLOBBERING_REDIRECT (rd_instruction r) \<or> rd_instruction r = r_output_force,
            row_word = word,
            row_path = (case path of None \<Rightarrow> None
              | Some p \<Rightarrow> Some (p, lstat p \<noteq> None,
                  rash_redirect_will_clobber (rd_instruction r) (lstat p \<noteq> None) (lstat p = Some True)))\<rparr>)"

fun rash_push_redirects ::
  "lstat_fun \<Rightarrow> redirect list \<Rightarrow> cstring option list option \<Rightarrow> redirect_row list option" where
  "rash_push_redirects lstat [] paths = Some []"
| "rash_push_redirects lstat (r # rs) paths =
     (case push_redirect_row lstat r (case paths of None \<Rightarrow> None | Some ps \<Rightarrow> hd ps) of
        None \<Rightarrow> None
      | Some row \<Rightarrow> map_option ((#) row) (rash_push_redirects lstat rs (map_option tl paths)))"

section \<open>Reading the union\<close>

lemma preexpand_paths_wf: "list_all redirect_wf rs \<Longrightarrow> preexpand_paths vars rs \<noteq> None"
  by (induction rs) (auto dest: redirect_wf_filename split: option.splits)

lemma preexpand_wf: "list_all redirect_wf rs \<Longrightarrow> rash_redirects_preexpand vars rs \<noteq> None"
  using preexpand_paths_wf [of rs vars] by (auto simp: rash_redirects_preexpand_def split: option.splits)

text \<open>On a redirect list as the parser builds it, pre-expansion never reads a descriptor
  number as a file name (nor a file name as a number), whatever the words are.\<close>

theorem preexpand_reads_right_member:
  assumes "list_all redirect_wf rs"
  shows "rash_redirects_preexpand vars rs \<noteq> None"
  by (rule preexpand_wf [OF assms])

lemma push_redirect_row_wf: "redirect_wf r \<Longrightarrow> \<exists>row. push_redirect_row lstat r path = Some row"
  using redirect_wf_filename [of r]
  by (cases "rash_redirectee_is_word (rd_instruction r)") (auto simp: push_redirect_row_def)

lemma push_redirects_wf:
  assumes "list_all redirect_wf rs"
  shows "\<exists>rows. rash_push_redirects lstat rs paths = Some rows \<and> length rows = length rs"
  using assms
proof (induction rs arbitrary: paths)
  case Nil
  then show ?case by simp
next
  case (Cons r rs)
  obtain row where "push_redirect_row lstat r (case paths of None \<Rightarrow> None | Some ps \<Rightarrow> hd ps) = Some row"
    using push_redirect_row_wf Cons.prems by fastforce
  moreover obtain rows where "rash_push_redirects lstat rs (map_option tl paths) = Some rows" "length rows = length rs"
    using Cons by auto
  ultimately show ?case by simp
qed

text \<open>Nor does the table a policy hook sees, and it has one row for each redirection.\<close>

theorem push_redirects_reads_right_member:
  assumes "list_all redirect_wf rs"
  shows "\<exists>rows. rash_push_redirects lstat rs paths = Some rows \<and> length rows = length rs"
  by (rule push_redirects_wf [OF assms])

section \<open>Safe targets\<close>

lemma strpbrk_iff: "strpbrk s cs \<longleftrightarrow> set s \<inter> set cs \<noteq> {}"
  by (auto simp: strpbrk_def list_ex_iff)

text \<open>A safe target is a non-empty string without any character that expansion treats as
  syntax, and a target that came from a variable has no blank and no IFS character, so that it
  stays one word.\<close>

theorem safe_target_is_literal:
  assumes "rash_redirect_safe_target vars word = Some t"
  shows "t \<noteq> [] \<and> set t \<inter> set RASH_REDIR_UNSAFE_CHARS = {} \<and>
     (word_text word = Some t \<or>
      (\<exists>name v. word_text word = Some (CHR ''$'' # name) \<and> rash_simple_name name \<and> vars name = Some v \<and>
         sv_value v = Some t \<and> set t \<inter> set DEFAULT_IFS = {} \<and> set t \<inter> set (ifs_chars_of vars) = {}))"
proof -
  obtain s where s: "word_text word = Some s" "s \<noteq> []" "rash_word_lua_expandable word"
    using assms by (auto simp: rash_redirect_safe_target_def split: option.splits if_splits)
  show ?thesis
  proof (cases "hd s = CHR ''$''")
    case False
    with assms s show ?thesis
      by (auto simp: rash_redirect_safe_target_def strpbrk_iff split: if_splits)
  next
    case True
    with s(2) obtain name where name: "s = CHR ''$'' # name" by (cases s) auto
    have "rash_simple_name name"
      using s name
      by (auto simp: rash_word_lua_expandable_def word_text_def split: option.splits if_splits)
    moreover have "rash_redirect_name_value vars name = Some t"
      using assms s(1,3) name by (simp add: rash_redirect_safe_target_def split: if_splits)
    ultimately show ?thesis using s(1) name
      by (auto simp: rash_redirect_name_value_def list_ex_iff split: option.splits if_splits)
  qed
qed

section \<open>The applied list is the approved list\<close>

lemma preexpand_paths_length:
  "preexpand_paths vars rs = Some (Some (paths, ren)) \<Longrightarrow> length paths = length rs"
  by (induction rs arbitrary: paths ren) (auto split: if_splits option.splits)

lemma preexpand_paths_nth:
  assumes "preexpand_paths vars rs = Some (Some (paths, ren))" and "i < length rs"
  shows "if rash_redirectee_is_word (rd_instruction (rs ! i))
     then \<exists>w t. rd_redirectee (rs ! i) = Filename w \<and> rash_redirect_safe_target vars w = Some t \<and>
            paths ! i = Some t \<and> (ren \<or> word_text w = Some t)
     else paths ! i = None"
  using assms
proof (induction rs arbitrary: paths ren i)
  case Nil
  then show ?case by simp
next
  case (Cons r rs)
  show ?case
  proof (cases i)
    case 0
    with Cons.prems(1) show ?thesis
      by (auto split: if_splits option.splits elim: redirectee_filename.elims)
  next
    case (Suc j)
    obtain p ps ren' where "paths = p # ps" "preexpand_paths vars rs = Some (Some (ps, ren'))" "ren' \<longrightarrow> ren"
      using Cons.prems(1) by (auto split: if_splits option.splits)
    with Suc Cons.prems(2) Cons.IH [of ps ren' j] show ?thesis by (auto split: if_splits)
  qed
qed

text \<open>C22: What is applied is what the policy saw: when pre-expansion succeeds, the list that the
  C code then opens (the copy, or the original when nothing was renamed) has for each file
  redirection exactly the path of the policy's row as its word, and differs from the original in
  nothing else.\<close>

theorem applied_paths_are_policy_paths:
  assumes "rash_redirects_preexpand vars rs = Some (Some (paths, copy))" and "i < length rs"
    and "applied = (case copy of None \<Rightarrow> rs | Some l \<Rightarrow> l)"
  shows "length applied = length rs \<and> length paths = length rs \<and>
     (if rash_redirectee_is_word (rd_instruction (rs ! i))
      then \<exists>w t. rd_redirectee (applied ! i) = Filename w \<and> word_text w = Some t \<and> paths ! i = Some t
      else paths ! i = None \<and> applied ! i = rs ! i) \<and>
     (applied ! i)\<lparr>rd_redirectee := rd_redirectee (rs ! i)\<rparr> = rs ! i"
proof -
  obtain ren where p: "preexpand_paths vars rs = Some (Some (paths, ren))"
      and copy: "copy = (if ren then Some (map2 apply_row rs paths) else None)"
    using assms(1) by (auto simp: rash_redirects_preexpand_def split: if_splits option.splits)
  have len: "length paths = length rs" by (rule preexpand_paths_length [OF p])
  note row = preexpand_paths_nth [OF p assms(2)]
  show ?thesis
  proof (cases ren)
    case True
    then have "applied ! i = apply_row (rs ! i) (paths ! i)" "length applied = length rs"
      using assms(2,3) copy len by auto
    with row len show ?thesis
      by (auto simp: apply_row_def make_bare_word_def word_text_def split: if_splits)
  next
    case False
    then have "applied = rs" using assms(3) copy by simp
    with False row len show ?thesis by (auto split: if_splits)
  qed
qed

section \<open>A list with a variable\<close>

definition demo_vars :: var_table where
  "demo_vars = [''OUT'' \<mapsto> \<lparr>sv_value = Some ''log.txt'', sv_invisible = False, sv_nameref = False,
     sv_array = False, sv_assoc = False, sv_dynamic = False\<rparr>]"

definition demo_redirects :: "redirect list" where
  "demo_redirects =
     [\<lparr>rd_redirector = Dest 1, rd_rflags = 0, rd_flags = 0, rd_instruction = r_output_direction,
        rd_redirectee = Filename (Some \<lparr>w_word = Some ''$OUT'', w_flags = W_HASDOLLAR\<rparr>), rd_here_doc_eof = None\<rparr>,
      \<lparr>rd_redirector = Dest 2, rd_rflags = 0, rd_flags = 0, rd_instruction = r_duplicating_output,
        rd_redirectee = Dest 1, rd_here_doc_eof = None\<rparr>]"

lemmas demo_redirect_defs = demo_vars_def demo_redirects_def W_HASDOLLAR_def W_NOT_LUA_def W_QUOTED_def
  W_ASSIGNMENT_def W_ARRAYREF_def W_COMPASSIGN_def W_HASQUOTEDNULL_def W_TILDEEXP_def REDIR_VARASSIGN_def

lemma demo_safe_target:
  "rash_redirect_safe_target demo_vars (Some \<lparr>w_word = Some ''$OUT'', w_flags = W_HASDOLLAR\<rparr>) = Some ''log.txt''"
  by (simp add: demo_redirect_defs rash_redirect_safe_target_def rash_word_lua_expandable_def strpbrk_def
      word_text_def rash_redirect_name_value_def RASH_REDIR_UNSAFE_CHARS_def DEFAULT_IFS_def ifs_chars_of_def
      name_start_def name_char_def)

lemma demo_preexpand:
  "rash_redirects_preexpand demo_vars demo_redirects =
     Some (Some ([Some ''log.txt'', None], Some (map2 apply_row demo_redirects [Some ''log.txt'', None])))"
  using demo_safe_target
  by (simp add: rash_redirects_preexpand_def demo_redirects_def preexpand_instruction_def
      rash_redirectee_is_word_def word_text_def REDIR_VARASSIGN_def)

lemma demo_wf: "list_all redirect_wf demo_redirects"
  by (simp add: demo_redirects_def redirect_wf_def rash_redirectee_is_word_def)

theorem preexpand_reads_right_member_witness: "rash_redirects_preexpand demo_vars demo_redirects \<noteq> None"
  by (rule preexpand_reads_right_member [OF demo_wf])

theorem push_redirects_reads_right_member_witness:
  "\<exists>rows. rash_push_redirects (\<lambda>_. None) demo_redirects None = Some rows \<and> length rows = 2"
proof -
  have "length demo_redirects = 2" by (simp add: demo_redirects_def)
  then show ?thesis using push_redirects_reads_right_member [OF demo_wf, of "\<lambda>_. None" None] by simp
qed

theorem safe_target_is_literal_witness:
  "set ''log.txt'' \<inter> set RASH_REDIR_UNSAFE_CHARS = {}"
  using safe_target_is_literal [OF demo_safe_target] by blast

theorem applied_paths_are_policy_paths_witness:
  "\<exists>w. rd_redirectee (map2 apply_row demo_redirects [Some ''log.txt'', None] ! 0) = Filename w \<and>
     word_text w = Some ''log.txt''"
  using applied_paths_are_policy_paths [OF demo_preexpand, of 0 "map2 apply_row demo_redirects [Some ''log.txt'', None]"]
  by (simp add: demo_redirects_def rash_redirectee_is_word_def)

end
