(* ===== verification/Hook_Stages.thy ===== *)
theory Hook_Stages
  imports Hook_Lifecycle Hook_Redirect
begin

text \<open>
  The stage hooks of hooks.c: the sensors the executor calls before a simple command, at
  dispatch, expansion and redirection, before a pipeline, a builtin, a function, an exec, and
  after a command. All sensors run their table with the same loop; each is a definition of its
  own with its guards, its stage flag, its messages and its use of the hooks' values. The
  interface that the executor relies on, a gate that may deny, is the locale \<open>deny_gate\<close>,
  interpreted on each of the gates.
\<close>

section \<open>What a hook is handed\<close>

datatype hook_event =
    Ev_simple "cstring list" int "cstring option" "cstring option"
  | Ev_dispatch "cstring list" cstring
  | Ev_expand "cstring list" cstring
  | Ev_policy "redirect_row list"
  | Ev_redirect cstring cstring int bool bool
  | Ev_pipeline "cstring list" "cstring list"
  | Ev_named cstring "cstring list"
  | Ev_exec cstring "cstring list"
  | Ev_download cstring "cstring list" "cstring list"

type_synonym 'w stage_hook = "(hook_event \<Rightarrow> 'w callback) \<times> bool"

text \<open>The tables with their enforcing bits, as \<open>rash_hooks_initialize\<close> leaves them.\<close>

record 'w hook_config =
  hook_state :: int
  rash_lua :: bool
  running_trap :: bool
  hook_table :: "'w hook list"
  rack_table :: "'w hook list"
  before_table :: "'w stage_hook list"
  after_table :: "'w stage_hook list"
  redirect_table :: "'w stage_hook list"
  clobber_table :: "'w stage_hook list"
  download_pipe_table :: "'w stage_hook list"
  before_pipeline_table :: "'w stage_hook list"
  on_builtin_table :: "'w stage_hook list"
  on_function_table :: "'w stage_hook list"
  on_exec_table :: "'w stage_hook list"
  stdio_bundle_table :: "'w stage_hook list"
  dispatch_table :: "'w stage_hook list"
  expand_hook_table :: "'w stage_hook list"
  redirect_policy_table :: "'w stage_hook list"

definition rash_hooks_have_redirect_observers :: "'w hook_config \<Rightarrow> bool" where
  "rash_hooks_have_redirect_observers cfg \<longleftrightarrow> redirect_table cfg \<noteq> [] \<or> clobber_table cfg \<noteq> []"

definition rash_hooks_have_any_observers :: "'w hook_config \<Rightarrow> bool" where
  "rash_hooks_have_any_observers cfg \<longleftrightarrow> hook_table cfg \<noteq> [] \<or> before_table cfg \<noteq> [] \<or>
     after_table cfg \<noteq> [] \<or> redirect_table cfg \<noteq> [] \<or> clobber_table cfg \<noteq> [] \<or>
     download_pipe_table cfg \<noteq> [] \<or> before_pipeline_table cfg \<noteq> [] \<or> on_builtin_table cfg \<noteq> [] \<or>
     on_function_table cfg \<noteq> [] \<or> on_exec_table cfg \<noteq> [] \<or> stdio_bundle_table cfg \<noteq> [] \<or>
     redirect_policy_table cfg \<noteq> []"

text \<open>\<open>rash_push_words\<close>: a missing word is the empty string.\<close>

definition rash_push_words :: "word_list \<Rightarrow> cstring list" where
  "rash_push_words words = map (\<lambda>w. case word_text w of None \<Rightarrow> [] | Some s \<Rightarrow> s) words"

section \<open>The common loop\<close>

text \<open>A stage hook gets no closure, and a call of one that was kept from a command that has ended fails.
  What a stage hook does with a kept closure of the running command is in \<open>Hook_Kept\<close>.\<close>

definition no_runner :: "'w runner" where
  "no_runner called s = (Inl ''rash hook run() escaped its command lifecycle'', called, s)"

definition call_hook :: "'w stage_hook \<Rightarrow> hook_event \<Rightarrow> 'w hstate \<Rightarrow> (cstring option + lua_value) \<times> 'w hstate" where
  "call_hook h ev s =
     (case run_callback no_runner (fst h ev) False
             (upd_core (\<lambda>c. c\<lparr>current_hook_enforcing := snd h\<rparr>) s) of
        (out, called, s') \<Rightarrow> (out, s'))"

text \<open>The texts of a sensor, and whether a failing advisory hook denies too.\<close>

record sensor =
  sn_enforcing :: cstring
  sn_advisory :: cstring
  sn_denied :: "cstring option"
  sn_fail_closed :: bool

definition hook_failed :: "sensor \<Rightarrow> cstring option \<Rightarrow> 'w core \<Rightarrow> 'w core" where
  "hook_failed sn e c =
     (if current_hook_enforcing c then
        (case sn_denied sn of None \<Rightarrow> id | Some line \<Rightarrow> log_line line)
          ((rash_hook_warning (sn_enforcing sn) (Some (lua_error_text e)) c)\<lparr>stage_denied := True\<rparr>)
      else
        (rash_hook_warning (sn_advisory sn) (Some (lua_error_text e)) c)
          \<lparr>stage_denied := stage_denied c \<or> sn_fail_closed sn\<rparr>)"

primrec stage_loop ::
  "sensor \<Rightarrow> ('a \<Rightarrow> lua_value \<Rightarrow> 'a) \<Rightarrow> ('w core \<Rightarrow> bool) \<Rightarrow> hook_event \<Rightarrow> 'w stage_hook list \<Rightarrow>
     'a \<Rightarrow> 'w hstate \<Rightarrow> 'a \<times> 'w hstate" where
  "stage_loop sn val stop ev [] a s = (a, s)"
| "stage_loop sn val stop ev (h # hs) a s =
     (case call_hook h ev s of
        (out, s1) \<Rightarrow>
          let a' = (case out of Inl e \<Rightarrow> a | Inr v \<Rightarrow> val a v);
              s2 = (case out of Inl e \<Rightarrow> upd_core (hook_failed sn e) s1 | Inr v \<Rightarrow> s1)
          in if stage_denied (core s2) \<or> stop (core s2) then (a', s2)
             else stage_loop sn val stop ev hs a' s2)"

definition stage_enter :: "stage \<Rightarrow> 'w core \<Rightarrow> 'w core" where
  "stage_enter st c = c\<lparr>stage_denied := False, stage_deny_reason := [], in_stage := (in_stage c)(st := True)\<rparr>"

definition stage_leave :: "stage \<Rightarrow> 'w core \<Rightarrow> 'w core" where
  "stage_leave st c = c\<lparr>in_stage := (in_stage c)(st := False), current_hook_enforcing := False\<rparr>"

text \<open>A sensor that only looks at the denial.\<close>

definition run_gate :: "sensor \<Rightarrow> stage \<Rightarrow> hook_event \<Rightarrow> 'w stage_hook list \<Rightarrow> 'w hstate \<Rightarrow> 'w hstate" where
  "run_gate sn st ev hooks s =
     upd_core (stage_leave st)
       (snd (stage_loop sn (\<lambda>a v. a) (\<lambda>c. False) ev hooks () (upd_core (stage_enter st) s)))"

definition gate_status :: "'w hstate \<Rightarrow> int" where
  "gate_status s = (if stage_denied (core s) then EXECUTION_FAILURE else 0)"

section \<open>The sensors\<close>

definition sensor_live :: "'w hook_config \<Rightarrow> 'w stage_hook list \<Rightarrow> bool" where
  "sensor_live cfg table \<longleftrightarrow> \<not> running_trap cfg \<and> hook_state cfg = 1 \<and> table \<noteq> [] \<and> rash_lua cfg"

definition sn_before :: sensor where
  "sn_before = \<lparr>sn_enforcing = ''enforcing before-hook failed; denying command: '',
     sn_advisory = ''advisory before-hook failed; continuing: '',
     sn_denied = Some ''rash: denied: enforcing before-hook failed'', sn_fail_closed = False\<rparr>"

definition rash_hooks_before_simple :: "'w hook_config \<Rightarrow> word_list \<Rightarrow> 'w hstate \<Rightarrow> int \<times> 'w hstate" where
  "rash_hooks_before_simple cfg words s =
     (if running_trap cfg then (0, s)
      else if hook_state cfg \<noteq> 1 \<or> before_table cfg = [] \<or> \<not> rash_lua cfg then (0, s)
      else
        let s' = run_gate sn_before before_stage (Ev_simple (rash_push_words words) 0 None None) (before_table cfg) s
        in (gate_status s', s'))"

definition sn_pipeline :: sensor where
  "sn_pipeline = \<lparr>sn_enforcing = ''enforcing before_pipeline failed; denying pipeline: '',
     sn_advisory = ''advisory before_pipeline failed; continuing: '',
     sn_denied = Some ''rash: denied: enforcing before_pipeline failed'', sn_fail_closed = False\<rparr>"

text \<open>Only the words of a simple command are expanded; \<open>expand_words\<close> is the shell's expansion.\<close>

type_synonym 'w expander = "word_list \<Rightarrow> 'w core \<Rightarrow> word_list \<times> 'w core"

definition rash_copy_expand_simple ::
  "'w expander \<Rightarrow> command option \<Rightarrow> 'w core \<Rightarrow> word_list \<times> 'w core" where
  "rash_copy_expand_simple expand_words cmd c =
     (case cmd of
        None \<Rightarrow> ([], c)
      | Some com \<Rightarrow>
          (case cmd_value com of
             Simple _ _ words _ \<Rightarrow> expand_words words c
           | _ \<Rightarrow> ([], c)))"

definition pipeline_sides :: "command option \<Rightarrow> (command option \<times> command option) option" where
  "pipeline_sides command =
     (case command of
        None \<Rightarrow> None
      | Some c \<Rightarrow>
          (case cmd_value c of
             Connection l r op \<Rightarrow> if op = PIPE_CONNECTOR then Some (l, r) else None
           | _ \<Rightarrow> None))"

definition rash_hooks_before_pipeline ::
  "'w expander \<Rightarrow> 'w hook_config \<Rightarrow> command option \<Rightarrow> 'w hstate \<Rightarrow> int \<times> 'w hstate" where
  "rash_hooks_before_pipeline expand_words cfg command s =
     (if running_trap cfg then (0, s)
      else if hook_state cfg \<noteq> 1 \<or> before_pipeline_table cfg = [] \<or> \<not> rash_lua cfg then (0, s)
      else
        (case pipeline_sides command of
           None \<Rightarrow> (0, s)
         | Some (left, right) \<Rightarrow>
             (case rash_copy_expand_simple expand_words left (core s) of
                (lw, c1) \<Rightarrow>
                  (case rash_copy_expand_simple expand_words right c1 of
                     (rw, c2) \<Rightarrow>
                       let s' = run_gate sn_pipeline before_pipeline_stage
                                  (Ev_pipeline (rash_push_words lw) (rash_push_words rw))
                                  (before_pipeline_table cfg) (s\<lparr>core := c2\<rparr>)
                       in (gate_status s', s')))))"

definition sn_builtin :: sensor where
  "sn_builtin = \<lparr>sn_enforcing = ''enforcing on_builtin failed; denying builtin: '',
     sn_advisory = ''advisory on_builtin failed; continuing: '',
     sn_denied = Some ''rash: denied: enforcing on_builtin failed'', sn_fail_closed = False\<rparr>"

text \<open>The event carries the first word, or \<open>this_command_name\<close> when there is none.\<close>

definition builtin_event_name :: "cstring option \<Rightarrow> word_list \<Rightarrow> cstring" where
  "builtin_event_name this_command_name words =
     (case (if words = [] then None else word_text (hd words)) of
        Some n \<Rightarrow> n
      | None \<Rightarrow> (case this_command_name of None \<Rightarrow> [] | Some n \<Rightarrow> n))"

definition rash_hooks_on_builtin ::
  "'w hook_config \<Rightarrow> cstring option \<times> word_list \<Rightarrow> 'w hstate \<Rightarrow> int \<times> 'w hstate" where
  "rash_hooks_on_builtin cfg e s =
     (if running_trap cfg then (0, s)
      else if hook_state cfg \<noteq> 1 \<or> on_builtin_table cfg = [] \<or> \<not> rash_lua cfg then (0, s)
      else
        let s' = run_gate sn_builtin builtin_stage
                   (Ev_named (builtin_event_name (fst e) (snd e)) (rash_push_words (snd e))) (on_builtin_table cfg) s
        in (gate_status s', s'))"

definition sn_function :: sensor where
  "sn_function = \<lparr>sn_enforcing = ''enforcing on_function failed; denying function: '',
     sn_advisory = ''advisory on_function failed; continuing: '',
     sn_denied = Some ''rash: denied: enforcing on_function failed'', sn_fail_closed = False\<rparr>"

definition rash_hooks_on_function ::
  "'w hook_config \<Rightarrow> cstring option \<times> word_list \<Rightarrow> 'w hstate \<Rightarrow> int \<times> 'w hstate" where
  "rash_hooks_on_function cfg e s =
     (if running_trap cfg then (0, s)
      else if hook_state cfg \<noteq> 1 \<or> on_function_table cfg = [] \<or> \<not> rash_lua cfg then (0, s)
      else
        let s' = run_gate sn_function function_stage
                   (Ev_named (case fst e of None \<Rightarrow> [] | Some n \<Rightarrow> n) (rash_push_words (snd e))) (on_function_table cfg) s
        in (gate_status s', s'))"

definition sn_exec :: sensor where
  "sn_exec = \<lparr>sn_enforcing = ''enforcing on_exec failed; denying exec: '',
     sn_advisory = ''advisory on_exec failed; continuing: '',
     sn_denied = Some ''rash: denied: enforcing on_exec failed'', sn_fail_closed = False\<rparr>"

definition rash_hooks_on_exec ::
  "'w hook_config \<Rightarrow> cstring option \<times> cstring list \<Rightarrow> 'w hstate \<Rightarrow> int \<times> 'w hstate" where
  "rash_hooks_on_exec cfg e s =
     (if running_trap cfg then (0, s)
      else if hook_state cfg \<noteq> 1 \<or> on_exec_table cfg = [] \<or> \<not> rash_lua cfg then (0, s)
      else
        let s' = run_gate sn_exec exec_stage
                   (Ev_exec (case fst e of None \<Rightarrow> [] | Some p \<Rightarrow> p) (snd e)) (on_exec_table cfg) s
        in if stage_denied (core s') then
             (EXECUTION_FAILURE, upd_core (\<lambda>c. c\<lparr>last_command_exit_value := EXECUTION_FAILURE\<rparr>) s')
           else (0, s'))"

section \<open>Dispatch and expansion\<close>

definition sn_dispatch :: sensor where
  "sn_dispatch = \<lparr>sn_enforcing = ''enforcing dispatch hook failed; denying command: '',
     sn_advisory = ''advisory dispatch hook failed; continuing: '',
     sn_denied = Some ''rash: denied: enforcing dispatch hook failed'', sn_fail_closed = False\<rparr>"

record dispatch_choice =
  force_disk :: bool
  prefer_builtin :: bool

text \<open>A string value chooses; other values, and other strings, leave the choice.\<close>

definition dispatch_value :: "dispatch_choice \<Rightarrow> lua_value \<Rightarrow> dispatch_choice" where
  "dispatch_value d v =
     (if lua_tostring v = Some ''disk'' then \<lparr>force_disk = True, prefer_builtin = False\<rparr>
      else if lua_tostring v = Some ''builtin'' then \<lparr>force_disk = False, prefer_builtin = True\<rparr>
      else d)"

definition resolved_name :: "bool \<Rightarrow> bool \<Rightarrow> cstring" where
  "resolved_name have_function have_builtin =
     (if have_function then ''function'' else if have_builtin then ''builtin'' else ''command'')"

definition rash_hooks_choose_dispatch ::
  "'w hook_config \<Rightarrow> word_list \<Rightarrow> bool \<Rightarrow> bool \<Rightarrow> 'w hstate \<Rightarrow> int \<times> dispatch_choice \<times> 'w hstate" where
  "rash_hooks_choose_dispatch cfg words have_function have_builtin s =
     (let d0 = \<lparr>force_disk = False, prefer_builtin = False\<rparr>
      in if \<not> rash_lua cfg \<or> dispatch_table cfg = [] then (0, d0, s)
         else
           (case stage_loop sn_dispatch dispatch_value (\<lambda>c. False)
                   (Ev_dispatch (rash_push_words words) (resolved_name have_function have_builtin))
                   (dispatch_table cfg) d0 (upd_core (stage_enter dispatch_stage) s) of
              (d, s1) \<Rightarrow>
                let s' = upd_core (stage_leave dispatch_stage) s1
                in (if stage_denied (core s') then 1 else 0, d, s')))"

definition sn_expand :: sensor where
  "sn_expand = \<lparr>sn_enforcing = ''enforcing expand hook failed; denying command: '',
     sn_advisory = ''advisory expand hook failed; using C expand: '',
     sn_denied = None, sn_fail_closed = False\<rparr>"

definition rash_words_from_lua_table :: "lua_value \<Rightarrow> word_list" where
  "rash_words_from_lua_table v =
     (case v of
        LTable vs \<Rightarrow>
          if list_all (\<lambda>x. lua_tostring x \<noteq> None) vs
          then map (\<lambda>x. Some (make_word (case lua_tostring x of None \<Rightarrow> [] | Some t \<Rightarrow> t))) vs
          else []
      | _ \<Rightarrow> [])"

definition expand_value :: "bool \<Rightarrow> word_list \<Rightarrow> lua_value \<Rightarrow> word_list" where
  "expand_value use_lua built v =
     (if use_lua then
        (let new = rash_words_from_lua_table v in if new \<noteq> [] then new else built)
      else built)"

text \<open>This sensor clears the denial but keeps its reason.\<close>

definition expand_enter :: "'w core \<Rightarrow> 'w core" where
  "expand_enter c = c\<lparr>stage_denied := False, in_stage := (in_stage c)(expand_stage := True)\<rparr>"

text \<open>The status is -1 (denied), 1 (use the list of words) or 0 (expand in C).\<close>

definition rash_hooks_try_lua_expand ::
  "'w hook_config \<Rightarrow> word_list \<Rightarrow> 'w hstate \<Rightarrow> int \<times> word_list \<times> 'w hstate" where
  "rash_hooks_try_lua_expand cfg unexpanded s =
     (if \<not> rash_lua cfg \<or> expand_hook_table cfg = [] then (0, [], s)
      else
        (let mode = rash_expand_mode unexpanded;
             use_lua = (mode = ''lua'')
         in case stage_loop sn_expand (expand_value use_lua) (\<lambda>c. False)
                   (Ev_expand (rash_push_words unexpanded) mode)
                   (expand_hook_table cfg) [] (upd_core expand_enter s) of
              (built, s1) \<Rightarrow>
                let s' = upd_core (stage_leave expand_stage) s1
                in if stage_denied (core s') then (- 1, [], s')
                   else if \<not> use_lua \<or> built = [] then (0, [], s')
                   else (1, built, s')))"

section \<open>Redirections\<close>

definition sn_policy :: sensor where
  "sn_policy = \<lparr>sn_enforcing = ''enforcing redirect policy failed; denying redirect: '',
     sn_advisory = ''advisory redirect policy failed; applying redirects: '',
     sn_denied = Some ''rash: denied: enforcing redirect policy failed'', sn_fail_closed = False\<rparr>"

text \<open>None when the wrong union member would be read. The list returned is the copy to apply.\<close>

definition rash_hooks_redirect_policy ::
  "lstat_fun \<Rightarrow> var_table \<Rightarrow> 'w hook_config \<Rightarrow> redirect list \<Rightarrow> 'w hstate \<Rightarrow>
     (int \<times> redirect list option \<times> 'w hstate) option" where
  "rash_hooks_redirect_policy lstat vars cfg redirects s =
     (if redirects = [] then Some (0, None, s)
      else if \<not> rash_lua cfg \<or> redirect_policy_table cfg = [] then Some (0, None, s)
      else
        (case rash_redirects_preexpand vars redirects of
           None \<Rightarrow> None
         | Some pre \<Rightarrow>
             (case rash_push_redirects lstat redirects (map_option fst pre) of
                None \<Rightarrow> None
              | Some rows \<Rightarrow>
                  let s' = run_gate sn_policy redirect_policy_stage (Ev_policy rows) (redirect_policy_table cfg) s
                  in if stage_denied (core s') then Some (1, None, s')
                     else Some (0, (case pre of None \<Rightarrow> None | Some p \<Rightarrow> snd p), s'))))"

text \<open>\<open>do_redirections\<close> is the parameter \<open>apply_list\<close>, \<open>undo\<close> what follows its failure in the
  parent (\<open>undo_partial_redirects\<close> and \<open>dispose_exec_redirects\<close>).\<close>

definition rash_stage_apply_simple_redirects ::
  "(redirect list \<Rightarrow> 'w core \<Rightarrow> int \<times> 'w core) \<Rightarrow> ('w core \<Rightarrow> 'w core) \<Rightarrow> lstat_fun \<Rightarrow> var_table \<Rightarrow>
     'w hook_config \<Rightarrow> redirect list \<Rightarrow> bool \<Rightarrow> 'w hstate \<Rightarrow> (int \<times> 'w hstate) option" where
  "rash_stage_apply_simple_redirects apply_list undo lstat vars cfg redirects undoable s =
     (let finish = (\<lambda>(r, c) s'.
            if r = 0 then (0, s'\<lparr>core := c\<rparr>)
            else if undoable then (EX_REDIRFAIL, s'\<lparr>core := undo c\<rparr>)
            else (EXECUTION_FAILURE, s'\<lparr>core := c\<rparr>))
      in if redirects = [] then Some (finish (apply_list [] (core s)) s)
         else
           (case rash_hooks_redirect_policy lstat vars cfg redirects s of
              None \<Rightarrow> None
            | Some (denied, copy, s') \<Rightarrow>
                if denied \<noteq> 0 then Some (if undoable then EX_REDIRFAIL else EXECUTION_FAILURE, s')
                else Some (finish (apply_list (case copy of None \<Rightarrow> redirects | Some l \<Rightarrow> l) (core s')) s')))"

definition sn_redirect :: sensor where
  "sn_redirect = \<lparr>sn_enforcing = ''enforcing on_redirect failed; denying redirect: '',
     sn_advisory = ''advisory on_redirect failed; continuing: '',
     sn_denied = Some ''rash: denied: enforcing on_redirect failed'', sn_fail_closed = False\<rparr>"

definition sn_clobber :: sensor where
  "sn_clobber = \<lparr>sn_enforcing = ''enforcing on_clobber failed; denying redirect: '',
     sn_advisory = ''advisory on_clobber failed; continuing: '',
     sn_denied = Some ''rash: denied: enforcing on_clobber failed'', sn_fail_closed = False\<rparr>"

definition run_redirect_hooks :: "'w hook_config \<Rightarrow> hook_event \<Rightarrow> bool \<Rightarrow> 'w hstate \<Rightarrow> 'w hstate" where
  "run_redirect_hooks cfg ev clobber s =
     (let s1 = snd (stage_loop sn_redirect (\<lambda>a v. a) (\<lambda>c. False) ev (redirect_table cfg) () s)
      in if \<not> stage_denied (core s1) \<and> clobber
         then snd (stage_loop sn_clobber (\<lambda>a v. a) (\<lambda>c. False) ev (clobber_table cfg) () s1)
         else s1)"

definition rash_hooks_on_redirect ::
  "lstat_fun \<Rightarrow> 'w hook_config \<Rightarrow> cstring option \<times> r_instruction \<times> int \<Rightarrow> 'w hstate \<Rightarrow> int \<times> 'w hstate" where
  "rash_hooks_on_redirect lstat cfg e s =
     (case e of (path, ri, fd) \<Rightarrow>
        (case path of
           None \<Rightarrow> (0, s)
         | Some p \<Rightarrow>
             if running_trap cfg then (0, s)
             else if hook_state cfg \<noteq> 1 \<or> \<not> rash_lua cfg \<or> \<not> rash_hooks_have_redirect_observers cfg then (0, s)
             else
               (let exists = (lstat p \<noteq> None);
                    clobber = rash_redirect_will_clobber ri exists (lstat p = Some True);
                    ev = Ev_redirect p (rash_redirect_kind ri) fd exists clobber;
                    s' = upd_core (stage_leave redirect_stage)
                           (run_redirect_hooks cfg ev clobber (upd_core (stage_enter redirect_stage) s))
                in (if stage_denied (core s') then 1 else 0, s'))))"

section \<open>After a command\<close>

text \<open>No stage flag, no denial: each hook runs; \<open>val\<close> is what its value does.\<close>

primrec after_loop ::
  "cstring \<Rightarrow> (lua_value \<Rightarrow> 'w core \<Rightarrow> 'w core) \<Rightarrow> hook_event \<Rightarrow> 'w stage_hook list \<Rightarrow> 'w hstate \<Rightarrow> 'w hstate" where
  "after_loop msg val ev [] s = s"
| "after_loop msg val ev (h # hs) s =
     (case call_hook h ev s of
        (out, s1) \<Rightarrow>
          after_loop msg val ev hs
            (case out of
               Inl e \<Rightarrow> upd_core (rash_hook_warning msg (Some (lua_error_text e))) s1
             | Inr v \<Rightarrow> upd_core (val v) s1))"

definition rash_hooks_after_simple ::
  "'w hook_config \<Rightarrow> word_list \<Rightarrow> int \<Rightarrow> cstring option \<Rightarrow> cstring option \<Rightarrow> 'w hstate \<Rightarrow> 'w hstate" where
  "rash_hooks_after_simple cfg words status out err s =
     (if running_trap cfg then s
      else if hook_state cfg \<noteq> 1 \<or> after_table cfg = [] \<or> \<not> rash_lua cfg then s
      else upd_core (\<lambda>c. c\<lparr>current_hook_enforcing := False\<rparr>)
             (after_loop ''after-hook failed: '' (\<lambda>v. id) (Ev_simple (rash_push_words words) status out err)
                (after_table cfg) s))"

text \<open>\<open>fd\<close> is \<open>rash_capture_fd ()\<close>, \<open>write_fully\<close> the effect of writing a string to it.\<close>

definition rash_hooks_stdio_bundle ::
  "(int \<Rightarrow> cstring \<Rightarrow> 'w \<Rightarrow> 'w) \<Rightarrow> int \<Rightarrow> 'w hook_config \<Rightarrow> word_list \<Rightarrow> int \<Rightarrow> cstring option \<Rightarrow>
     cstring option \<Rightarrow> 'w hstate \<Rightarrow> 'w hstate" where
  "rash_hooks_stdio_bundle write_fully fd cfg words status out err s =
     (if running_trap cfg then s
      else if hook_state cfg \<noteq> 1 \<or> stdio_bundle_table cfg = [] \<or> \<not> rash_lua cfg then s
      else if fd < 0 then s
      else upd_core (\<lambda>c. c\<lparr>current_hook_enforcing := False\<rparr>)
             (after_loop ''on_stdio_bundle failed: ''
                (\<lambda>v. case lua_tostring v of None \<Rightarrow> id
                       | Some payload \<Rightarrow> (\<lambda>c. c\<lparr>world := write_fully fd payload (world c)\<rparr>))
                (Ev_simple (rash_push_words words) status out err) (stdio_bundle_table cfg) s))"

definition rash_hooks_want_stdio_capture :: "'w hook_config \<Rightarrow> bool" where
  "rash_hooks_want_stdio_capture cfg \<longleftrightarrow>
     (if running_trap cfg then False else hook_state cfg = 1 \<and> after_table cfg \<noteq> [] \<and> rash_lua cfg)"

definition rash_hooks_want_stdio_bundle :: "int \<Rightarrow> 'w hook_config \<Rightarrow> bool" where
  "rash_hooks_want_stdio_bundle fd cfg \<longleftrightarrow>
     (if running_trap cfg then False
      else if hook_state cfg \<noteq> 1 \<or> stdio_bundle_table cfg = [] \<or> \<not> rash_lua cfg then False
      else fd \<ge> 0)"

section \<open>What a stage hook can do\<close>

lemma ports_any: "ports_rel (\<lambda>w w'. True) cb"
  by (induction cb) simp_all

text \<open>The part of the state no callback of a stage touches.\<close>

lemma call_hook_keeps:
  assumes "call_hook h ev s = (out, s')"
  shows "in_stage (core s') = in_stage (core s) \<and> current_hook_enforcing (core s') = snd h"
proof -
  obtain called where r: "run_callback no_runner (fst h ev) False
      (upd_core (\<lambda>c. c\<lparr>current_hook_enforcing := snd h\<rparr>) s) = (out, called, s')"
    using assms by (auto simp: call_hook_def split: prod.splits)
  show ?thesis
    by (rule run_callback_keeps [where P = "\<lambda>b t. in_stage (core t) = in_stage (core s) \<and>
          current_hook_enforcing (core t) = snd h", OF _ _ _ _ _ ports_any _ r])
      (simp_all add: no_runner_def)
qed

lemma call_hook_advisory:
  assumes "call_hook h ev s = (out, s')" and "\<not> snd h"
  shows "stage_denied (core s') = stage_denied (core s) \<and> ctx s' = ctx s \<and> rack_denied (core s') = rack_denied (core s)"
proof -
  obtain called where r: "run_callback no_runner (fst h ev) False
      (upd_core (\<lambda>c. c\<lparr>current_hook_enforcing := snd h\<rparr>) s) = (out, called, s')"
    using assms by (auto simp: call_hook_def split: prod.splits)
  let ?P = "\<lambda>b t. \<not> current_hook_enforcing (core t) \<and> stage_denied (core t) = stage_denied (core s) \<and>
      ctx t = ctx s \<and> rack_denied (core t) = rack_denied (core s)"
  have "?P called s'"
  proof (rule run_callback_keeps [where P = ?P, OF _ _ _ _ _ ports_any _ r])
    show "?P b (snd (rash_lua_deny reason t))" if "?P b t" for reason b t
      using that lua_deny_advisory [of t reason] by simp
  qed (use assms(2) in \<open>simp_all add: no_runner_def\<close>)
  then show ?thesis by simp
qed

text \<open>A denial of a stage stays.\<close>

lemma stage_denied_stays:
  assumes "run_callback no_runner cb called s = (out, called', s')" and "stage_denied (core s)"
    and "in_stage (core s) st"
  shows "stage_denied (core s')"
proof -
  let ?P = "\<lambda>b t. stage_denied (core t) \<and> in_stage (core t) st"
  have "?P called' s'"
  proof (rule run_callback_keeps [where P = ?P, OF _ _ _ _ _ ports_any _ assms(1)])
    show "?P b (snd (rash_lua_deny reason t))" if "?P b t" for reason b t
      using that by (auto simp: rash_lua_deny_def in_any_stage_iff)
  qed (use assms(2,3) in \<open>simp_all add: no_runner_def\<close>)
  then show ?thesis by simp
qed

lemma stage_callback_refuses:
  assumes "refuses cb" and "run_callback no_runner cb called s = (out, called', s')"
    and "current_hook_enforcing (core s)" and "in_stage (core s) st"
  shows "stage_denied (core s') \<or> (\<exists>e. out = Inl e)"
  using assms
proof (induction cb arbitrary: s rule: callback_tree_induct)
  case (CDeny reason k)
  have "in_any_stage (core s)" using CDeny.prems(4) by (auto simp: in_any_stage_iff)
  then have "rash_lua_deny reason s = (Inr [], upd_core (deny_stage reason) s)"
    using CDeny.prems(3) by (simp add: rash_lua_deny_def)
  then have "run_callback no_runner (k (Inr [])) called (upd_core (deny_stage reason) s) = (out, called', s')"
    using CDeny.prems(2) by simp
  from stage_denied_stays [OF this, of st] CDeny.prems(4) show ?case by simp
next
  case (CWarn m k)
  show ?case using CWarn.prems by (intro CWarn.IH [of "Inr []" "upd_core (rash_advisory_message m) s"]) simp_all
next
  case (CPort f k)
  obtain r w where f: "f (world (core s)) = (r, w)" by fastforce
  show ?case using CPort.prems f by (intro CPort.IH [of r "upd_core (\<lambda>c. c\<lparr>world := w\<rparr>) s"]) simp_all
next
  case (CInstall a f k)
  obtain r s1 where d: "rash_lua_exec_with_stdin a f s = (r, s1)" by fastforce
  then obtain w h st' where "s1 = upd_core (set_world w h st') s"
    using exec_with_stdin_state [of a f s] by auto
  then show ?case using CInstall.prems d by (intro CInstall.IH [of r s1]) simp_all
next
  case (CError e)
  then show ?case by auto
qed simp_all

lemma hook_failed_sel [simp]:
  "in_stage (hook_failed sn e c) = in_stage c" "world (hook_failed sn e c) = world c"
  "rack_denied (hook_failed sn e c) = rack_denied c"
  "stage_denied (hook_failed sn e c) = (stage_denied c \<or> current_hook_enforcing c \<or> sn_fail_closed sn)"
  by (auto simp: hook_failed_def split: option.splits)

text \<open>The loop stays in its stage, stops at a denial, and an enforcing refusal is one.\<close>

lemma stage_loop_stage: "in_stage (core (snd (stage_loop sn val stop ev hooks a s))) = in_stage (core s)"
  by (induction hooks arbitrary: a s)
    (auto simp: Let_def dest!: call_hook_keeps split: prod.splits sum.splits)

lemma stage_loop_refuses:
  assumes "\<exists>h\<in>set hooks. snd h \<and> refuses (fst h ev)" and "in_stage (core s) st"
  shows "stage_denied (core (snd (stage_loop sn val (\<lambda>c. False) ev hooks a s)))"
  using assms
proof (induction hooks arbitrary: a s)
  case Nil
  then show ?case by simp
next
  case (Cons h hooks)
  obtain out s1 where c: "call_hook h ev s = (out, s1)" by fastforce
  let ?s2 = "case out of Inl e \<Rightarrow> upd_core (hook_failed sn e) s1 | Inr v \<Rightarrow> s1"
  have keep: "in_stage (core ?s2) st" using call_hook_keeps [OF c] Cons.prems(2) by (simp split: sum.splits)
  show ?case
  proof (cases "stage_denied (core ?s2)")
    case True
    with c show ?thesis by (simp add: Let_def)
  next
    case False
    have "\<not> (snd h \<and> refuses (fst h ev))"
    proof
      assume h: "snd h \<and> refuses (fst h ev)"
      obtain called where "run_callback no_runner (fst h ev) False
          (upd_core (\<lambda>c. c\<lparr>current_hook_enforcing := snd h\<rparr>) s) = (out, called, s1)"
        using c by (auto simp: call_hook_def split: prod.splits)
      from stage_callback_refuses [OF _ this, of st] h Cons.prems(2)
      have "stage_denied (core s1) \<or> (\<exists>e. out = Inl e)" by simp
      with False call_hook_keeps [OF c] h show False by (auto split: sum.splits)
    qed
    with Cons.prems(1) have "\<exists>h\<in>set hooks. snd h \<and> refuses (fst h ev)" by auto
    with Cons.IH [OF _ keep] False c show ?thesis by (simp add: Let_def)
  qed
qed

lemma stage_loop_advisory:
  assumes "\<forall>h\<in>set hooks. \<not> snd h" and "\<not> sn_fail_closed sn" and "\<not> stage_denied (core s)"
  shows "\<not> stage_denied (core (snd (stage_loop sn val stop ev hooks a s)))"
  using assms(1,3)
proof (induction hooks arbitrary: a s)
  case Nil
  then show ?case by simp
next
  case (Cons h hooks)
  obtain out s1 where c: "call_hook h ev s = (out, s1)" by fastforce
  let ?s2 = "case out of Inl e \<Rightarrow> upd_core (hook_failed sn e) s1 | Inr v \<Rightarrow> s1"
  have "\<not> stage_denied (core ?s2)"
    using call_hook_keeps [OF c] call_hook_advisory [OF c] Cons.prems assms(2) by (simp split: sum.splits)
  with Cons c show ?case by (simp add: Let_def)
qed

lemma run_gate_refuses:
  "\<exists>h\<in>set hooks. snd h \<and> refuses (fst h ev) \<Longrightarrow> stage_denied (core (run_gate sn st ev hooks s))"
  unfolding run_gate_def
  by (simp add: stage_leave_def) (rule stage_loop_refuses [where st = st], simp, simp add: stage_enter_def)

lemma run_gate_advisory:
  "\<forall>h\<in>set hooks. \<not> snd h \<Longrightarrow> \<not> sn_fail_closed sn \<Longrightarrow> \<not> stage_denied (core (run_gate sn st ev hooks s))"
  unfolding run_gate_def
  by (simp add: stage_leave_def) (rule stage_loop_advisory, simp_all add: stage_enter_def)

text \<open>No gate leaves its flag, or an enforcing bit, behind.\<close>

lemma run_gate_leaves:
  "in_stage (core (run_gate sn st ev hooks s)) = (in_stage (core s))(st := False) \<and>
     \<not> current_hook_enforcing (core (run_gate sn st ev hooks s))"
  unfolding run_gate_def by (simp add: stage_leave_def stage_loop_stage) (simp add: stage_enter_def)

lemma try_lua_expand_refuses:
  assumes "rash_lua cfg" and "h \<in> set (expand_hook_table cfg)" and "snd h" and "\<And>ev. refuses (fst h ev)"
  shows "\<exists>s'. rash_hooks_try_lua_expand cfg ws s = (- 1, [], s')"
proof -
  let ?mode = "rash_expand_mode ws"
  obtain built s1 where l: "stage_loop sn_expand (expand_value (?mode = ''lua'')) (\<lambda>c. False)
      (Ev_expand (rash_push_words ws) ?mode) (expand_hook_table cfg) [] (upd_core expand_enter s) = (built, s1)"
    by fastforce
  have "stage_denied (core (snd (stage_loop sn_expand (expand_value (?mode = ''lua'')) (\<lambda>c. False)
      (Ev_expand (rash_push_words ws) ?mode) (expand_hook_table cfg) [] (upd_core expand_enter s))))"
    using assms(2-4) by (intro stage_loop_refuses [where st = expand_stage]) (auto simp: expand_enter_def)
  then have "stage_denied (core s1)" using l by simp
  then show ?thesis using assms(1,2) l
    by (auto simp: rash_hooks_try_lua_expand_def Let_def stage_leave_def)
qed

section \<open>The gate interface\<close>

text \<open>A gate in front of an action: the executor goes on only when the gate answers 0.\<close>

definition guarded ::
  "('c \<Rightarrow> 'e \<Rightarrow> 'w hstate \<Rightarrow> int \<times> 'w hstate) \<Rightarrow> ('w hstate \<Rightarrow> int \<times> 'w hstate) \<Rightarrow> 'c \<Rightarrow> 'e \<Rightarrow>
     'w hstate \<Rightarrow> int \<times> 'w hstate" where
  "guarded gate act cfg e s =
     (case gate cfg e s of (r, s') \<Rightarrow> if r \<noteq> 0 then (EXECUTION_FAILURE, s') else act s')"

text \<open>
  What the executor relies on: \<open>table\<close> is the list of hooks the gate consults, \<open>event\<close> what
  it hands them. A gate that does not listen does nothing; an enforcing hook that refuses makes
  it answer non-zero; advisory hooks never do; and it clears the enforcing bit.
\<close>

locale deny_gate =
  fixes gate :: "'c \<Rightarrow> 'e \<Rightarrow> 'w hstate \<Rightarrow> int \<times> 'w hstate"
    and table :: "'c \<Rightarrow> 'e \<Rightarrow> 'w stage_hook list"
    and event :: "'c \<Rightarrow> 'e \<Rightarrow> 'w hstate \<Rightarrow> hook_event"
    and listening :: "'c \<Rightarrow> 'e \<Rightarrow> bool"
  assumes quiet: "\<not> listening cfg e \<Longrightarrow> gate cfg e s = (0, s)"
    and refusal: "listening cfg e \<Longrightarrow> h \<in> set (table cfg e) \<Longrightarrow> snd h \<Longrightarrow>
      refuses (fst h (event cfg e s)) \<Longrightarrow> fst (gate cfg e s) \<noteq> 0"
    and advice: "\<forall>h\<in>set (table cfg e). \<not> snd h \<Longrightarrow> fst (gate cfg e s) = 0"
    and settled: "listening cfg e \<Longrightarrow> \<not> current_hook_enforcing (core (snd (gate cfg e s)))"
begin

lemma refusal_blocks:
  assumes "listening cfg e" and "h \<in> set (table cfg e)" and "snd h" and "refuses (fst h (event cfg e s))"
  shows "guarded gate act cfg e s = (EXECUTION_FAILURE, snd (gate cfg e s))"
  using refusal [OF assms] by (cases "gate cfg e s") (simp add: guarded_def)

lemma advice_admits:
  assumes "\<forall>h\<in>set (table cfg e). \<not> snd h"
  shows "guarded gate act cfg e s = act (snd (gate cfg e s))"
  using advice [OF assms, of s] by (auto simp: guarded_def split: prod.splits)

lemma quiet_admits: "\<not> listening cfg e \<Longrightarrow> guarded gate act cfg e s = act s"
  by (simp add: guarded_def quiet)

lemma settled_after: "\<not> current_hook_enforcing (core s) \<Longrightarrow> \<not> current_hook_enforcing (core (snd (gate cfg e s)))"
  using settled [of cfg e s] quiet [of cfg e s] by (cases "listening cfg e") auto

end

lemma gate_status_refuses:
  "h \<in> set hooks \<Longrightarrow> snd h \<Longrightarrow> refuses (fst h ev) \<Longrightarrow> gate_status (run_gate sn st ev hooks s) = EXECUTION_FAILURE"
  using run_gate_refuses [of hooks ev sn st s] by (auto simp: gate_status_def)

lemma gate_status_advisory:
  "\<forall>h\<in>set hooks. \<not> snd h \<Longrightarrow> \<not> sn_fail_closed sn \<Longrightarrow> gate_status (run_gate sn st ev hooks s) = 0"
  by (simp add: gate_status_def run_gate_advisory)

lemmas gate_facts = gate_status_refuses gate_status_advisory run_gate_leaves sensor_live_def Let_def EXECUTION_FAILURE_def

lemma failure_not_zero: "EXECUTION_FAILURE \<noteq> 0" by (simp add: EXECUTION_FAILURE_def)

interpretation before: deny_gate rash_hooks_before_simple "\<lambda>cfg e. before_table cfg"
    "\<lambda>cfg words s. Ev_simple (rash_push_words words) 0 None None" "\<lambda>cfg e. sensor_live cfg (before_table cfg)"
  by unfold_locales
    (auto simp: rash_hooks_before_simple_def gate_facts sn_before_def dest: gate_status_refuses [where sn = sn_before])

interpretation on_builtin: deny_gate rash_hooks_on_builtin "\<lambda>cfg e. on_builtin_table cfg"
    "\<lambda>cfg e s. Ev_named (builtin_event_name (fst e) (snd e)) (rash_push_words (snd e))"
    "\<lambda>cfg e. sensor_live cfg (on_builtin_table cfg)"
  by unfold_locales (auto simp: rash_hooks_on_builtin_def gate_facts sn_builtin_def)

interpretation on_function: deny_gate rash_hooks_on_function "\<lambda>cfg e. on_function_table cfg"
    "\<lambda>cfg e s. Ev_named (case fst e of None \<Rightarrow> [] | Some n \<Rightarrow> n) (rash_push_words (snd e))"
    "\<lambda>cfg e. sensor_live cfg (on_function_table cfg)"
  by unfold_locales (auto simp: rash_hooks_on_function_def gate_facts sn_function_def)

interpretation on_exec: deny_gate rash_hooks_on_exec "\<lambda>cfg e. on_exec_table cfg"
    "\<lambda>cfg e s. Ev_exec (case fst e of None \<Rightarrow> [] | Some p \<Rightarrow> p) (snd e)"
    "\<lambda>cfg e. sensor_live cfg (on_exec_table cfg)"
proof
  show "fst (rash_hooks_on_exec cfg e s) \<noteq> 0"
    if "sensor_live cfg (on_exec_table cfg)" "h \<in> set (on_exec_table cfg)" "snd h"
      "refuses (fst h (Ev_exec (case fst e of None \<Rightarrow> [] | Some p \<Rightarrow> p) (snd e)))" for cfg e h s
    using that run_gate_refuses [of "on_exec_table cfg" "Ev_exec (case fst e of None \<Rightarrow> [] | Some p \<Rightarrow> p) (snd e)" sn_exec exec_stage s]
    by (auto simp: rash_hooks_on_exec_def sensor_live_def Let_def failure_not_zero)
qed (auto simp: rash_hooks_on_exec_def gate_facts sn_exec_def run_gate_advisory)

definition pipeline_event ::
  "'w expander \<Rightarrow> command option \<Rightarrow> 'w core \<Rightarrow> hook_event" where
  "pipeline_event expand_words command c =
     (case pipeline_sides command of
        None \<Rightarrow> Ev_pipeline [] []
      | Some (l, r) \<Rightarrow>
          (case rash_copy_expand_simple expand_words l c of
             (lw, c1) \<Rightarrow> Ev_pipeline (rash_push_words lw)
                           (rash_push_words (fst (rash_copy_expand_simple expand_words r c1)))))"

interpretation pipeline: deny_gate "rash_hooks_before_pipeline expand_words" "\<lambda>cfg e. before_pipeline_table cfg"
    "\<lambda>cfg e s. pipeline_event expand_words e (core s)"
    "\<lambda>cfg e. sensor_live cfg (before_pipeline_table cfg) \<and> pipeline_sides e \<noteq> None" for expand_words
  by unfold_locales
    (auto simp: rash_hooks_before_pipeline_def pipeline_event_def gate_facts sn_pipeline_def
      split: option.splits prod.splits)

text \<open>The redirection sensor consults its table, and the clobber table for a path it would
  truncate.\<close>

definition redirect_hooks ::
  "lstat_fun \<Rightarrow> 'w hook_config \<Rightarrow> cstring option \<times> r_instruction \<times> int \<Rightarrow> 'w stage_hook list" where
  "redirect_hooks lstat cfg e =
     (case e of (path, ri, fd) \<Rightarrow>
        redirect_table cfg @
        (case path of None \<Rightarrow> []
         | Some p \<Rightarrow> if rash_redirect_will_clobber ri (lstat p \<noteq> None) (lstat p = Some True) then clobber_table cfg else []))"

definition redirect_event :: "lstat_fun \<Rightarrow> cstring option \<times> r_instruction \<times> int \<Rightarrow> hook_event" where
  "redirect_event lstat e =
     (case e of (path, ri, fd) \<Rightarrow>
        (case path of None \<Rightarrow> Ev_redirect [] [] 0 False False
         | Some p \<Rightarrow> Ev_redirect p (rash_redirect_kind ri) fd (lstat p \<noteq> None)
             (rash_redirect_will_clobber ri (lstat p \<noteq> None) (lstat p = Some True))))"

definition redirect_listening :: "'w hook_config \<Rightarrow> cstring option \<times> r_instruction \<times> int \<Rightarrow> bool" where
  "redirect_listening cfg e \<longleftrightarrow> fst e \<noteq> None \<and> \<not> running_trap cfg \<and> hook_state cfg = 1 \<and> rash_lua cfg \<and>
     rash_hooks_have_redirect_observers cfg"

lemma stage_leave_sel [simp]:
  "stage_denied (stage_leave st c) = stage_denied c" "\<not> current_hook_enforcing (stage_leave st c)"
  "stage_denied (stage_enter st c) = False" "in_stage (stage_enter st c) st"
  by (simp_all add: stage_leave_def stage_enter_def)

lemma run_redirect_hooks_refuses:
  assumes "h \<in> set (redirect_table cfg) \<or> clobber \<and> h \<in> set (clobber_table cfg)" and "snd h"
    and "refuses (fst h ev)" and "in_stage (core s) st"
  shows "stage_denied (core (run_redirect_hooks cfg ev clobber s))"
proof -
  let ?s1 = "snd (stage_loop sn_redirect (\<lambda>a v. a) (\<lambda>c. False) ev (redirect_table cfg) () s)"
  have in_st: "in_stage (core ?s1) st" using assms(4) by (simp add: stage_loop_stage)
  show ?thesis
  proof (cases "h \<in> set (redirect_table cfg)")
    case True
    then have "stage_denied (core ?s1)" using assms(2-4) by (intro stage_loop_refuses [where st = st]) auto
    then show ?thesis by (simp add: run_redirect_hooks_def)
  next
    case False
    then have "stage_denied (core (snd (stage_loop sn_clobber (\<lambda>a v. a) (\<lambda>c. False) ev (clobber_table cfg) () ?s1)))"
      using assms(1-3) in_st by (intro stage_loop_refuses [where st = st]) auto
    with False assms(1) show ?thesis by (simp add: run_redirect_hooks_def Let_def)
  qed
qed

lemma run_redirect_hooks_advice:
  assumes "\<forall>h\<in>set (redirect_table cfg). \<not> snd h" and "clobber \<Longrightarrow> \<forall>h\<in>set (clobber_table cfg). \<not> snd h"
    and "\<not> stage_denied (core s)"
  shows "\<not> stage_denied (core (run_redirect_hooks cfg ev clobber s))"
  using assms stage_loop_advisory [of "redirect_table cfg" sn_redirect s]
  by (simp add: run_redirect_hooks_def Let_def sn_redirect_def sn_clobber_def stage_loop_advisory)

lemma on_redirect_refuses:
  assumes "redirect_listening cfg e" and "h \<in> set (redirect_hooks lstat cfg e)" and "snd h"
    and "refuses (fst h (redirect_event lstat e))"
  shows "fst (rash_hooks_on_redirect lstat cfg e s) \<noteq> 0"
proof -
  obtain p ri fd where e: "e = (Some p, ri, fd)"
    using assms(1) by (cases e) (auto simp: redirect_listening_def)
  have "stage_denied (core (run_redirect_hooks cfg (redirect_event lstat e)
      (rash_redirect_will_clobber ri (lstat p \<noteq> None) (lstat p = Some True)) (upd_core (stage_enter redirect_stage) s)))"
    using assms(2-4)
    by (intro run_redirect_hooks_refuses [where st = redirect_stage and h = h]) (auto simp: redirect_hooks_def e split: if_splits)
  then show ?thesis
    using assms(1) by (simp add: e rash_hooks_on_redirect_def redirect_listening_def Let_def redirect_event_def)
qed

lemma on_redirect_advice:
  assumes "\<forall>h\<in>set (redirect_hooks lstat cfg e). \<not> snd h"
  shows "fst (rash_hooks_on_redirect lstat cfg e s) = 0"
proof (cases e)
  case (fields path ri fd)
  show ?thesis
  proof (cases path)
    case None
    then show ?thesis by (simp add: fields rash_hooks_on_redirect_def)
  next
    case (Some p)
    have "\<not> stage_denied (core (run_redirect_hooks cfg ev
        (rash_redirect_will_clobber ri (lstat p \<noteq> None) (lstat p = Some True)) (upd_core (stage_enter redirect_stage) s)))" for ev
      using assms by (intro run_redirect_hooks_advice) (auto simp: redirect_hooks_def fields Some)
    then show ?thesis by (simp add: fields Some rash_hooks_on_redirect_def Let_def)
  qed
qed

interpretation on_redirect: deny_gate "rash_hooks_on_redirect lstat" "redirect_hooks lstat"
    "\<lambda>cfg e s. redirect_event lstat e" redirect_listening for lstat
proof
  show "\<not> current_hook_enforcing (core (snd (rash_hooks_on_redirect lstat cfg e s)))"
    if "redirect_listening cfg e" for cfg e s
    using that by (cases e) (auto simp: rash_hooks_on_redirect_def redirect_listening_def Let_def)
qed (auto simp: on_redirect_refuses on_redirect_advice,
     auto simp: rash_hooks_on_redirect_def redirect_listening_def split: option.splits)

section \<open>The executor's use of the gates\<close>

text \<open>\<open>execute_builtin\<close>, \<open>execute_function\<close>, \<open>execute_pipeline\<close> and \<open>shell_execve\<close> return
  EXECUTION_FAILURE at once when their gate answers non-zero; the rest of each is \<open>act\<close>.\<close>

definition execute_builtin_gate ::
  "'w hook_config \<Rightarrow> cstring option \<Rightarrow> ('w hstate \<Rightarrow> int \<times> 'w hstate) \<Rightarrow> word_list \<Rightarrow> 'w hstate \<Rightarrow> int \<times> 'w hstate" where
  "execute_builtin_gate cfg this_command_name act words =
     guarded rash_hooks_on_builtin act cfg (this_command_name, words)"

definition execute_function_gate ::
  "'w hook_config \<Rightarrow> cstring option \<Rightarrow> ('w hstate \<Rightarrow> int \<times> 'w hstate) \<Rightarrow> word_list \<Rightarrow> 'w hstate \<Rightarrow> int \<times> 'w hstate" where
  "execute_function_gate cfg name act words = guarded rash_hooks_on_function act cfg (name, words)"

definition execute_pipeline_gate ::
  "'w expander \<Rightarrow> 'w hook_config \<Rightarrow> ('w hstate \<Rightarrow> int \<times> 'w hstate) \<Rightarrow> command option \<Rightarrow> 'w hstate \<Rightarrow> int \<times> 'w hstate" where
  "execute_pipeline_gate expand_words cfg act command =
     guarded (rash_hooks_before_pipeline expand_words) act cfg command"

definition shell_execve_gate ::
  "'w hook_config \<Rightarrow> ('w hstate \<Rightarrow> int \<times> 'w hstate) \<Rightarrow> cstring \<Rightarrow> cstring list \<Rightarrow> 'w hstate \<Rightarrow> int \<times> 'w hstate" where
  "shell_execve_gate cfg act command args s =
     (case rash_hooks_on_exec cfg (Some command, args) s of
        (r, s') \<Rightarrow>
          if r \<noteq> 0 then
            (if last_command_exit_value (core s') \<noteq> 0 then last_command_exit_value (core s') else EXECUTION_FAILURE, s')
          else act s')"

text \<open>\<open>do_redirection_internal\<close> around the opening of a file: the sensor sees the expanded path
  and the file is not opened when it denies.\<close>

definition open_redirect_gate ::
  "lstat_fun \<Rightarrow> 'w hook_config \<Rightarrow> (cstring \<Rightarrow> 'w hstate \<Rightarrow> int \<times> 'w hstate) \<Rightarrow> cstring \<Rightarrow> r_instruction \<Rightarrow> int \<Rightarrow>
     'w hstate \<Rightarrow> int \<times> 'w hstate" where
  "open_redirect_gate lstat cfg redir_open path ri redirector s =
     (case rash_hooks_on_redirect lstat cfg (Some path, ri, redirector) s of
        (r, s') \<Rightarrow> if r \<noteq> 0 then (RASH_DENIED_REDIRECT, s') else redir_open path s')"

text \<open>\<open>rash_stage_expand_simple_words\<close>; \<open>prepare\<close> stands for the assignment and array-reference
  fixes of the words.\<close>

definition rash_stage_expand_simple_words ::
  "'w expander \<Rightarrow> (word_list \<Rightarrow> word_list) \<Rightarrow> 'w hook_config \<Rightarrow> word_list \<Rightarrow> 32 word \<Rightarrow> 'w hstate \<Rightarrow> word_list \<times> 'w hstate" where
  "rash_stage_expand_simple_words expand_words prepare cfg ws cmdflags s =
     (if cmdflags AND CMD_INHIBIT_EXPANSION = 0 then
        (case rash_hooks_try_lua_expand cfg (prepare ws) s of
           (lua_expand, words, s') \<Rightarrow>
             if lua_expand = 0 then
               (case expand_words (prepare ws) (core s') of (words, c) \<Rightarrow> (words, s'\<lparr>core := c\<rparr>))
             else if lua_expand < 0 then ([], s')
             else (words, s'))
      else (ws, s))"

text \<open>\<open>execute_simple_command\<close> from the expansion to the before hooks, in the shell itself
  (\<open>already_forked\<close> is 0): a command without words is a null command, which only performs its
  redirections; otherwise the before hooks guard the rest.\<close>

definition simple_command_seams ::
  "'w expander \<Rightarrow> (word_list \<Rightarrow> word_list) \<Rightarrow> ('w hstate \<Rightarrow> int \<times> 'w hstate) \<Rightarrow>
     (word_list \<Rightarrow> 'w hstate \<Rightarrow> int \<times> 'w hstate) \<Rightarrow> 'w hook_config \<Rightarrow> word_list \<Rightarrow> 32 word \<Rightarrow> 'w hstate \<Rightarrow> int \<times> 'w hstate" where
  "simple_command_seams expand_words prepare null_command rest cfg ws cmdflags s =
     (case rash_stage_expand_simple_words expand_words prepare cfg ws cmdflags s of
        (words, s1) \<Rightarrow>
          if words = [] then
            (case null_command s1 of (r, s2) \<Rightarrow> (r, upd_core (set_pipestatus_from_exit r) s2))
          else
            (case rash_hooks_before_simple cfg words s1 of
               (r, s2) \<Rightarrow>
                 if r \<noteq> 0 then
                   (EXECUTION_FAILURE, upd_core (\<lambda>c. set_pipestatus_from_exit EXECUTION_FAILURE
                      (c\<lparr>last_command_exit_value := EXECUTION_FAILURE\<rparr>)) s2)
                 else rest words s2))"

section \<open>Properties\<close>

text \<open>C19: A refusal by an enforcing hook stops a builtin, a function and an exec: whatever the rest
  of the executor would do (\<open>act\<close>) it is not reached, and the status is EXECUTION_FAILURE.\<close>

theorem refusal_stops_command:
  assumes "snd h" and "\<forall>name. refuses (fst h (Ev_named name (rash_push_words words))) \<and> refuses (fst h (Ev_exec name args))"
  shows "(sensor_live cfg (on_builtin_table cfg) \<and> h \<in> set (on_builtin_table cfg) \<longrightarrow>
            (\<exists>s'. \<forall>act. execute_builtin_gate cfg tcn act words s = (EXECUTION_FAILURE, s'))) \<and>
         (sensor_live cfg (on_function_table cfg) \<and> h \<in> set (on_function_table cfg) \<longrightarrow>
            (\<exists>s'. \<forall>act. execute_function_gate cfg tcn act words s = (EXECUTION_FAILURE, s'))) \<and>
         (sensor_live cfg (on_exec_table cfg) \<and> h \<in> set (on_exec_table cfg) \<longrightarrow>
            (\<exists>s'. \<forall>act. shell_execve_gate cfg act path args s = (EXECUTION_FAILURE, s')))"
proof (intro conjI impI)
  assume "sensor_live cfg (on_builtin_table cfg) \<and> h \<in> set (on_builtin_table cfg)"
  with assms show "\<exists>s'. \<forall>act. execute_builtin_gate cfg tcn act words s = (EXECUTION_FAILURE, s')"
    unfolding execute_builtin_gate_def by (auto intro!: exI on_builtin.refusal_blocks)
next
  assume "sensor_live cfg (on_function_table cfg) \<and> h \<in> set (on_function_table cfg)"
  with assms show "\<exists>s'. \<forall>act. execute_function_gate cfg tcn act words s = (EXECUTION_FAILURE, s')"
    unfolding execute_function_gate_def by (auto intro!: exI on_function.refusal_blocks)
next
  assume l: "sensor_live cfg (on_exec_table cfg) \<and> h \<in> set (on_exec_table cfg)"
  then have "fst (rash_hooks_on_exec cfg (Some path, args) s) \<noteq> 0"
    using assms by (intro on_exec.refusal) auto
  then have "last_command_exit_value (core (snd (rash_hooks_on_exec cfg (Some path, args) s))) = EXECUTION_FAILURE"
    by (auto simp: rash_hooks_on_exec_def Let_def split: if_splits)
  with \<open>fst _ \<noteq> 0\<close> show "\<exists>s'. \<forall>act. shell_execve_gate cfg act path args s = (EXECUTION_FAILURE, s')"
    by (cases "rash_hooks_on_exec cfg (Some path, args) s") (simp add: shell_execve_gate_def failure_not_zero)
qed

text \<open>C20: A pipeline one of whose enforcing before_pipeline hooks refuses the expanded words of
  its two sides is not started.\<close>

theorem refusal_stops_pipeline:
  assumes "sensor_live cfg (before_pipeline_table cfg)" and "pipeline_sides command \<noteq> None"
    and "h \<in> set (before_pipeline_table cfg)" and "snd h" and "refuses (fst h (pipeline_event expand_words command (core s)))"
  shows "\<exists>s'. \<forall>act. execute_pipeline_gate expand_words cfg act command s = (EXECUTION_FAILURE, s')"
  unfolding execute_pipeline_gate_def
  using pipeline.refusal_blocks [of cfg command h expand_words s] assms by auto

text \<open>A file that an enforcing on_redirect hook refuses, or an enforcing on_clobber hook when
  opening it would truncate an existing regular file, is not opened.\<close>

theorem refused_redirect_not_opened:
  assumes "redirect_listening cfg (Some path, ri, fd)" and "h \<in> set (redirect_hooks lstat cfg (Some path, ri, fd))"
    and "snd h" and "refuses (fst h (redirect_event lstat (Some path, ri, fd)))"
  shows "\<exists>s'. \<forall>redir_open. open_redirect_gate lstat cfg redir_open path ri fd s = (RASH_DENIED_REDIRECT, s')"
  using on_redirect.refusal [OF assms, of s]
  by (cases "rash_hooks_on_redirect lstat cfg (Some path, ri, fd) s") (simp add: open_redirect_gate_def)

text \<open>C21: A redirect list that an enforcing policy hook refuses is not applied at all: nothing is
  opened, and the parent reports EX_REDIRFAIL, a child EXECUTION_FAILURE.\<close>

theorem refused_redirects_not_applied:
  assumes "list_all redirect_wf redirects" and "redirects \<noteq> []" and "rash_lua cfg"
    and "h \<in> set (redirect_policy_table cfg)" and "snd h" and "\<forall>rows. refuses (fst h (Ev_policy rows))"
  shows "\<exists>s'. \<forall>apply_list undo. rash_stage_apply_simple_redirects apply_list undo lstat vars cfg redirects undoable s =
     Some (if undoable then EX_REDIRFAIL else EXECUTION_FAILURE, s')"
proof -
  obtain pre where pre: "rash_redirects_preexpand vars redirects = Some pre"
    using preexpand_wf [OF assms(1), of vars] by blast
  obtain rows where rows: "rash_push_redirects lstat redirects (map_option fst pre) = Some rows"
    using push_redirects_wf [OF assms(1)] by blast
  have "stage_denied (core (run_gate sn_policy redirect_policy_stage (Ev_policy rows) (redirect_policy_table cfg) s))"
    using assms(4-6) by (intro run_gate_refuses) auto
  then have "\<exists>s'. rash_hooks_redirect_policy lstat vars cfg redirects s = Some (1, None, s')"
    using assms(2-4) pre rows by (auto simp: rash_hooks_redirect_policy_def Let_def)
  then show ?thesis using assms(2) by (auto simp: rash_stage_apply_simple_redirects_def Let_def)
qed

text \<open>The words of an on_expand hook replace the C expansion only when the hook was shown mode
  \<open>lua\<close>, that is when every word is a literal or a plain \<open>$NAME\<close>; a denial or a C shape never
  yields words.\<close>

theorem lua_expansion_only_for_lua_shapes:
  "(case rash_hooks_try_lua_expand cfg unexpanded s of (r, words, s') \<Rightarrow>
      (r = 1 \<and> words \<noteq> [] \<and> unexpanded \<noteq> [] \<and> list_all rash_word_lua_expandable unexpanded \<and> \<not> stage_denied (core s')) \<or>
      (r = 0 \<or> r = - 1 \<and> stage_denied (core s')) \<and> words = [])"
  by (auto simp: rash_hooks_try_lua_expand_def rash_expand_mode_def Let_def split: prod.splits if_splits)

text \<open>A command refused by an enforcing before hook does not run, fails, and leaves
  EXECUTION_FAILURE in the exit status and in PIPESTATUS.\<close>

theorem before_refusal_stops_simple_command:
  assumes "sensor_live cfg (before_table cfg)" and "h \<in> set (before_table cfg)" and "snd h"
    and "\<forall>ws. refuses (fst h (Ev_simple ws 0 None None))"
    and "rash_stage_expand_simple_words expand_words prepare cfg ws cmdflags s = (words, s1)" and "words \<noteq> []"
  shows "\<exists>s'. (\<forall>null_command rest. simple_command_seams expand_words prepare null_command rest cfg ws cmdflags s =
       (EXECUTION_FAILURE, s')) \<and>
     last_command_exit_value (core s') = EXECUTION_FAILURE \<and> pipestatus (core s') = [EXECUTION_FAILURE]"
proof -
  have "fst (rash_hooks_before_simple cfg words s1) \<noteq> 0"
    using assms(1-4) by (intro before.refusal) auto
  with assms(5,6) show ?thesis
    by (cases "rash_hooks_before_simple cfg words s1") (simp add: simple_command_seams_def set_pipestatus_from_exit_def)
qed

text \<open>At dispatch the hooks choose at most one of disk and builtin, and advisory hooks never
  stop the command.\<close>

theorem dispatch_choice_exclusive:
  "(case rash_hooks_choose_dispatch cfg words f b s of (r, d, s') \<Rightarrow>
      \<not> (force_disk d \<and> prefer_builtin d) \<and> (r = 0 \<or> r = 1 \<and> (\<exists>h\<in>set (dispatch_table cfg). snd h)))"
proof -
  have excl: "\<not> (force_disk a \<and> prefer_builtin a) \<Longrightarrow>
      \<not> (force_disk (fst (stage_loop sn_dispatch dispatch_value (\<lambda>c. False) ev hooks a t)) \<and>
         prefer_builtin (fst (stage_loop sn_dispatch dispatch_value (\<lambda>c. False) ev hooks a t)))"
    for ev :: hook_event and hooks :: "'w stage_hook list" and a t
  proof (induction hooks arbitrary: a t)
    case (Cons h hooks)
    have "\<not> (force_disk (dispatch_value a v) \<and> prefer_builtin (dispatch_value a v))" for v
      using Cons.prems by (simp add: dispatch_value_def)
    with Cons show ?case by (auto simp: Let_def split: prod.splits sum.splits)
  qed simp
  let ?ev = "Ev_dispatch (rash_push_words words) (resolved_name f b)"
  let ?d0 = "\<lparr>force_disk = False, prefer_builtin = False\<rparr>"
  let ?l = "stage_loop sn_dispatch dispatch_value (\<lambda>c. False) ?ev (dispatch_table cfg) ?d0 (upd_core (stage_enter dispatch_stage) s)"
  have "\<not> (force_disk (fst ?l) \<and> prefer_builtin (fst ?l))" by (rule excl) simp
  moreover have "\<exists>h\<in>set (dispatch_table cfg). snd h" if "stage_denied (core (snd ?l))"
  proof (rule ccontr)
    assume "\<not> (\<exists>h\<in>set (dispatch_table cfg). snd h)"
    then have "\<not> stage_denied (core (snd ?l))" by (intro stage_loop_advisory) (simp_all add: sn_dispatch_def)
    with that show False by simp
  qed
  ultimately show ?thesis
    by (auto simp: rash_hooks_choose_dispatch_def Let_def split: prod.splits)
qed

section \<open>Concrete tables\<close>

definition demo_config :: "'w stage_hook list \<Rightarrow> 'w hook_config" where
  "demo_config hooks = \<lparr>hook_state = 1, rash_lua = True, running_trap = False, hook_table = [], rack_table = [],
     before_table = hooks, after_table = [], redirect_table = [], clobber_table = hooks, download_pipe_table = hooks,
     before_pipeline_table = hooks, on_builtin_table = hooks, on_function_table = hooks, on_exec_table = hooks,
     stdio_bundle_table = [], dispatch_table = [], expand_hook_table = [], redirect_policy_table = hooks\<rparr>"

lemma demo_config_sel [simp]:
  "hook_state (demo_config hooks) = 1" "rash_lua (demo_config hooks)" "\<not> running_trap (demo_config hooks)"
  "before_table (demo_config hooks) = hooks" "clobber_table (demo_config hooks) = hooks"
  "redirect_table (demo_config hooks) = []" "download_pipe_table (demo_config hooks) = hooks"
  "before_pipeline_table (demo_config hooks) = hooks" "on_builtin_table (demo_config hooks) = hooks"
  "on_function_table (demo_config hooks) = hooks" "on_exec_table (demo_config hooks) = hooks"
  "redirect_policy_table (demo_config hooks) = hooks" "expand_hook_table (demo_config hooks) = []"
  by (simp_all add: demo_config_def)

definition demo_refuser :: "nat stage_hook" where
  "demo_refuser = ((\<lambda>ev. CWarn ''seen'' (\<lambda>_. CDeny ''no'' (\<lambda>_. CReturn LNil))), True)"

lemma demo_refuser_facts: "snd demo_refuser" "refuses (fst demo_refuser ev)"
  by (simp_all add: demo_refuser_def)

lemma demo_live: "sensor_live (demo_config [demo_refuser]) [demo_refuser]"
  by (simp add: sensor_live_def)

theorem refusal_stops_command_witness:
  "\<exists>s'. \<forall>act. execute_builtin_gate (demo_config [demo_refuser]) None act [Some (make_bare_word ''cd'')] (init_hstate 0) =
     (EXECUTION_FAILURE, s')"
  using refusal_stops_command [of demo_refuser "[Some (make_bare_word ''cd'')]" "[]" "demo_config [demo_refuser]" None
      "init_hstate 0" "[]"] demo_live
  by (simp add: demo_refuser_facts)

definition demo_pipeline :: "command option" where
  "demo_pipeline = Some (Command 0 1 [] (Connection (Some demo_command) (Some demo_command) PIPE_CONNECTOR))"

theorem refusal_stops_pipeline_witness:
  "\<exists>s'. \<forall>act. execute_pipeline_gate (\<lambda>ws c. (ws, c)) (demo_config [demo_refuser]) act demo_pipeline (init_hstate 0) =
     (EXECUTION_FAILURE, s')"
  using refusal_stops_pipeline [of "demo_config [demo_refuser]" demo_pipeline demo_refuser "\<lambda>ws c. (ws, c)" "init_hstate 0"] demo_live
  by (simp add: demo_refuser_facts demo_pipeline_def pipeline_sides_def)

theorem refused_redirect_not_opened_witness:
  "\<exists>s'. \<forall>redir_open. open_redirect_gate (\<lambda>_. Some True) (demo_config [demo_refuser]) redir_open ''f''
     r_output_direction 1 (init_hstate 0) = (RASH_DENIED_REDIRECT, s')"
  using refused_redirect_not_opened [of "demo_config [demo_refuser]" "''f''" r_output_direction 1 demo_refuser
      "\<lambda>_. Some True" "init_hstate 0"]
  by (simp add: demo_refuser_facts redirect_listening_def rash_hooks_have_redirect_observers_def redirect_hooks_def
      rash_redirect_will_clobber_def)

theorem refused_redirects_not_applied_witness:
  "\<exists>s'. \<forall>apply_list undo. rash_stage_apply_simple_redirects apply_list undo (\<lambda>_. None) demo_vars
     (demo_config [demo_refuser]) demo_redirects True (init_hstate 0) = Some (EX_REDIRFAIL, s')"
  using refused_redirects_not_applied [OF demo_wf, of "demo_config [demo_refuser]" demo_refuser "\<lambda>_. None" demo_vars True "init_hstate 0"]
  by (simp add: demo_refuser_facts demo_redirects_def)

theorem before_refusal_stops_simple_command_witness:
  "\<exists>s'. (\<forall>null_command rest. simple_command_seams (\<lambda>ws c. (ws, c)) id null_command rest (demo_config [demo_refuser])
       [Some (make_bare_word ''ls'')] 0 (init_hstate 0) = (EXECUTION_FAILURE, s')) \<and>
     last_command_exit_value (core s') = EXECUTION_FAILURE \<and> pipestatus (core s') = [EXECUTION_FAILURE]"
  using before_refusal_stops_simple_command [of "demo_config [demo_refuser]" demo_refuser "\<lambda>ws c. (ws, c)" id
      "[Some (make_bare_word ''ls'')]" 0 "init_hstate 0" "[Some (make_bare_word ''ls'')]" "init_hstate 0"] demo_live
  by (simp add: demo_refuser_facts rash_stage_expand_simple_words_def rash_hooks_try_lua_expand_def)

text \<open>A denial at expansion: the command becomes a null command, so its redirections are still
  performed and their status is the command's.\<close>

lemma denied_expansion_runs_null_command:
  "simple_command_seams expand_words id null_command rest
      ((demo_config [])\<lparr>expand_hook_table := [demo_refuser]\<rparr>) [Some (make_bare_word ''ls'')] 0 (init_hstate 0) =
   (case null_command (snd (rash_stage_expand_simple_words expand_words id
        ((demo_config [])\<lparr>expand_hook_table := [demo_refuser]\<rparr>) [Some (make_bare_word ''ls'')] 0 (init_hstate 0))) of
      (r, s2) \<Rightarrow> (r, upd_core (set_pipestatus_from_exit r) s2))"
proof -
  let ?ws = "[Some (make_bare_word ''ls'')]" and ?cfg = "(demo_config [])\<lparr>expand_hook_table := [demo_refuser]\<rparr>"
  have "\<exists>s'. rash_hooks_try_lua_expand ?cfg ?ws (init_hstate 0) = (- 1, [], s')"
    by (rule try_lua_expand_refuses [where h = demo_refuser]) (simp_all add: demo_refuser_facts)
  then have "fst (rash_stage_expand_simple_words expand_words id ?cfg ?ws 0 (init_hstate 0)) = []"
    by (auto simp: rash_stage_expand_simple_words_def)
  then show ?thesis by (auto simp: simple_command_seams_def split: prod.splits)
qed

end
