(* ===== verification/Hook_Download.thy ===== *)
theory Hook_Download
  imports Hook_Stages C_Numbers
begin

text \<open>
  The download-to-shell seam of hooks.c: recognising \<open>curl ... | bash\<close>, capturing the
  producer's output within a limit, handing it to the on_download_pipe hooks, and never falling
  through to the plain pipeline. The producer process is a parameter: the pieces its output is
  read in and its wait status.
\<close>

section \<open>The shape\<close>

definition rash_word_basename :: "cstring \<Rightarrow> cstring option" where
  "rash_word_basename word =
     (if word = [] then None else Some (rev (takeWhile (\<lambda>c. c \<noteq> CHR ''/'') (rev word))))"

definition rash_is_download_producer_name :: "cstring option \<Rightarrow> bool" where
  "rash_is_download_producer_name base \<longleftrightarrow> base = Some ''curl'' \<or> base = Some ''wget''"

definition rash_is_download_consumer_name :: "cstring option \<Rightarrow> bool" where
  "rash_is_download_consumer_name base \<longleftrightarrow> base = Some ''bash'' \<or> base = Some ''sh'' \<or> base = Some ''rash''"

definition simple_words_of :: "command option \<Rightarrow> word_list option" where
  "simple_words_of cmd =
     (case cmd of
        None \<Rightarrow> None
      | Some c \<Rightarrow> (case cmd_value c of Simple _ _ ws _ \<Rightarrow> Some ws | _ \<Rightarrow> None))"

definition rash_download_shape_match :: "command option \<Rightarrow> bool" where
  "rash_download_shape_match command =
     (case pipeline_sides command of
        None \<Rightarrow> False
      | Some (left, right) \<Rightarrow>
          (case (simple_words_of left, simple_words_of right) of
             (Some (Some lw # _), Some (Some rw # _)) \<Rightarrow>
               rash_is_download_producer_name (Option.bind (w_word lw) rash_word_basename) \<and>
               rash_is_download_consumer_name (Option.bind (w_word rw) rash_word_basename)
           | _ \<Rightarrow> False))"

section \<open>Argument vectors\<close>

text \<open>At most \<open>max\<close> words, all of them with text.\<close>

fun rash_word_list_to_argv :: "nat \<Rightarrow> word_list \<Rightarrow> cstring list option" where
  "rash_word_list_to_argv n [] = Some []"
| "rash_word_list_to_argv 0 (w # ws) = None"
| "rash_word_list_to_argv (Suc n) (w # ws) =
     (case word_text w of
        None \<Rightarrow> None
      | Some t \<Rightarrow> map_option ((#) t) (rash_word_list_to_argv n ws))"

lemma word_list_to_argv_length: "rash_word_list_to_argv n ws = Some argv \<Longrightarrow> length argv = length ws \<and> length ws \<le> n"
  by (induction n ws arbitrary: argv rule: rash_word_list_to_argv.induct) (auto split: option.splits)

section \<open>Capturing\<close>

text \<open>\<open>Exited\<close> is WIFEXITED with its status; a failed \<open>waitpid\<close> is None.\<close>

datatype wait_status = Exited int | Signaled int

datatype producer_run = Not_started | Produced "cstring list" "wait_status option"

datatype capture = Capture_failed | Capture_oversize | Captured cstring int

fun capture_chunks :: "nat \<Rightarrow> cstring \<Rightarrow> cstring list \<Rightarrow> cstring option" where
  "capture_chunks cap buf [] = Some buf"
| "capture_chunks cap buf (got # chunks) =
     (if length buf + length got > cap then None else capture_chunks cap (buf @ got) chunks)"

definition rash_capture_argv_stdout :: "nat \<Rightarrow> producer_run \<Rightarrow> capture" where
  "rash_capture_argv_stdout cap run =
     (case run of
        Not_started \<Rightarrow> Capture_failed
      | Produced chunks st \<Rightarrow>
          (case capture_chunks cap [] chunks of
             None \<Rightarrow> Capture_oversize
           | Some buf \<Rightarrow>
               (case st of
                  None \<Rightarrow> Capture_failed
                | Some (Exited n) \<Rightarrow> Captured buf n
                | Some (Signaled n) \<Rightarrow> Captured buf EXECUTION_FAILURE)))"

text \<open>The size passed to \<open>xmalloc\<close> for the buffer, a \<open>size_t\<close>.\<close>

definition capture_buffer_size :: "nat \<Rightarrow> 64 word" where
  "capture_buffer_size cap = word_of_nat cap + 1"

lemma capture_chunks_iff:
  "length buf \<le> cap \<Longrightarrow> capture_chunks cap buf chunks =
     (if length (buf @ concat chunks) \<le> cap then Some (buf @ concat chunks) else None)"
  by (induction chunks arbitrary: buf) auto

text \<open>The capture is exact and bounded: it succeeds exactly when the whole output fits the
  limit, and then holds the whole output.\<close>

theorem capture_exact:
  "rash_capture_argv_stdout cap (Produced chunks (Some (Exited n))) =
     (if length (concat chunks) \<le> cap then Captured (concat chunks) n else Capture_oversize)"
  by (simp add: rash_capture_argv_stdout_def capture_chunks_iff)

text \<open>No write to the capture buffer, the closing NUL included, passes its end, provided the
  limit is not the largest \<open>size_t\<close>.\<close>

theorem capture_fits_buffer:
  assumes "cap < 2 ^ 64 - 1" and "rash_capture_argv_stdout cap run = Captured buf n"
  shows "length buf < unat (capture_buffer_size cap)"
proof -
  have "unat (capture_buffer_size cap) = cap + 1"
    using assms(1) by (simp add: capture_buffer_size_def unat_word_ariths unat_of_nat)
  moreover have "length buf \<le> cap"
    using assms(2)
    by (auto simp: rash_capture_argv_stdout_def capture_chunks_iff
        split: producer_run.splits if_splits option.splits wait_status.splits)
  ultimately show ?thesis by simp
qed

theorem capture_fits_buffer_witness:
  "length ''echo'' < unat (capture_buffer_size 16)"
  by (rule capture_fits_buffer [of 16 "Produced [''ec'', ''ho''] (Some (Exited 0))" _ 0])
    (simp_all add: rash_capture_argv_stdout_def capture_chunks_iff)

text \<open>With RASH_INSTALLER_MAX_BYTES set to -1 (or to \<open>2 ^ 64 - 1\<close>) the buffer has size 0.\<close>

lemma minus_one_limit_empties_buffer:
  "rash_installer_max_bytes (Some ''-1'') = 2 ^ 64 - 1 \<and> capture_buffer_size (2 ^ 64 - 1) = 0"
  by (simp add: rash_installer_max_bytes_def strtoull_def scan_number_def c_isspace_def c_isdigit_def
      dec_value_def digit_value_def capture_buffer_size_def)

section \<open>The seam\<close>

definition sn_download :: sensor where
  "sn_download = \<lparr>sn_enforcing = ''enforcing on_download_pipe failed; denying: '',
     sn_advisory = ''advisory on_download_pipe failed; continuing deny: '',
     sn_denied = Some ''rash: denied: enforcing on_download_pipe failed'', sn_fail_closed = True\<rparr>"

definition download_enter :: "'w core \<Rightarrow> 'w core" where
  "download_enter c = (stage_enter download_pipe_stage c)
     \<lparr>download_pipe_handled := False, download_pipe_exec_status := EXECUTION_FAILURE\<rparr>"

text \<open>The hooks' part, once the producer has been captured. The result is the return value and
  \<open>*result\<close>.\<close>

definition download_hooks ::
  "'w stage_hook list \<Rightarrow> cstring \<Rightarrow> cstring list \<Rightarrow> cstring list \<Rightarrow> 'w hstate \<Rightarrow> int \<times> int \<times> 'w hstate" where
  "download_hooks hooks buffer producer_argv consumer_argv s =
     (let s1 = snd (stage_loop sn_download (\<lambda>a v. a) download_pipe_handled
                 (Ev_download buffer producer_argv consumer_argv) hooks () (upd_core download_enter s));
          s2 = upd_core (stage_leave download_pipe_stage) s1
      in if stage_denied (core s2) then (1, EXECUTION_FAILURE, s2)
         else if \<not> download_pipe_handled (core s2) then
           (1, EXECUTION_FAILURE, upd_core (log_line
              ''rash: download-to-shell: handler did not exec_with_stdin; refusing fall-through'') s2)
         else (1, download_pipe_exec_status (core s2), s2))"

text \<open>\<open>produce\<close> runs the producer; \<open>env\<close> is the value of RASH_INSTALLER_MAX_BYTES.\<close>

definition rash_hooks_try_download_pipe ::
  "(cstring list \<Rightarrow> 'w \<Rightarrow> producer_run \<times> 'w) \<Rightarrow> cstring option \<Rightarrow> 'w hook_config \<Rightarrow> command option \<Rightarrow>
     bool \<Rightarrow> int \<Rightarrow> int \<Rightarrow> 'w hstate \<Rightarrow> int \<times> int \<times> 'w hstate" where
  "rash_hooks_try_download_pipe produce env cfg command asynchronous pipe_in pipe_out s =
     (if asynchronous \<or> pipe_in \<noteq> NO_PIPE \<or> pipe_out \<noteq> NO_PIPE then (0, EXECUTION_FAILURE, s)
      else if running_trap cfg then (0, EXECUTION_FAILURE, s)
      else if hook_state cfg \<noteq> 1 \<or> download_pipe_table cfg = [] \<or> \<not> rash_lua cfg then (0, EXECUTION_FAILURE, s)
      else if \<not> rash_download_shape_match command then (0, EXECUTION_FAILURE, s)
      else
        (case pipeline_sides command of
           None \<Rightarrow> (0, EXECUTION_FAILURE, s)
         | Some (left, right) \<Rightarrow>
             (case Option.bind (simple_words_of left) (rash_word_list_to_argv RASH_INSTALLER_ARGV_MAX) of
                None \<Rightarrow> (1, EXECUTION_FAILURE, upd_core (log_line
                  ''rash: download-to-shell: cannot build producer argv'') s)
              | Some producer_argv \<Rightarrow>
                  (case Option.bind (simple_words_of right) (rash_word_list_to_argv RASH_INSTALLER_ARGV_MAX) of
                     None \<Rightarrow> (1, EXECUTION_FAILURE, upd_core (log_line
                       ''rash: download-to-shell: cannot build consumer argv'') s)
                   | Some consumer_argv \<Rightarrow>
                       (case produce producer_argv (world (core s)) of
                          (run, w) \<Rightarrow>
                            let s1 = upd_core (\<lambda>c. c\<lparr>world := w\<rparr>) s
                            in (case rash_capture_argv_stdout (rash_installer_max_bytes env) run of
                                  Capture_oversize \<Rightarrow> (1, EXECUTION_FAILURE, upd_core (log_line
                                    ''rash: download-to-shell: producer stdout exceeds RASH_INSTALLER_MAX_BYTES'') s1)
                                | Capture_failed \<Rightarrow> (1, EXECUTION_FAILURE, upd_core (log_line
                                    ''rash: download-to-shell: producer capture failed'') s1)
                                | Captured buffer status \<Rightarrow>
                                    if status \<noteq> 0 then
                                      (1, status, upd_core (log_line
                                         (''rash: download-to-shell: producer exited '' @ show_int status)) s1)
                                    else download_hooks (download_pipe_table cfg) buffer producer_argv consumer_argv s1))))))"

section \<open>Properties\<close>

text \<open>When the seam applies.\<close>

definition download_applies :: "'w hook_config \<Rightarrow> command option \<Rightarrow> bool \<Rightarrow> int \<Rightarrow> int \<Rightarrow> bool" where
  "download_applies cfg command asynchronous pipe_in pipe_out \<longleftrightarrow>
     \<not> asynchronous \<and> pipe_in = NO_PIPE \<and> pipe_out = NO_PIPE \<and>
     sensor_live cfg (download_pipe_table cfg) \<and> rash_download_shape_match command"

lemma shape_sides:
  "rash_download_shape_match command \<Longrightarrow> \<exists>l r. pipeline_sides command = Some (l, r)"
  by (auto simp: rash_download_shape_match_def split: option.splits)

text \<open>\<open>last_run\<close> reads off the world the status of the last installer that was run: only
  \<open>exec_with_stdin\<close> sets it, when it answers a status.\<close>

primrec records_installs :: "('w \<Rightarrow> int option) \<Rightarrow> 'w callback \<Rightarrow> bool" where
  "records_installs last_run (CReturn v) \<longleftrightarrow> True"
| "records_installs last_run (CError e) \<longleftrightarrow> True"
| "records_installs last_run (CDeny reason k) \<longleftrightarrow> (\<forall>r. records_installs last_run (k r))"
| "records_installs last_run (CRun k) \<longleftrightarrow> (\<forall>r. records_installs last_run (k r))"
| "records_installs last_run (CWarn m k) \<longleftrightarrow> (\<forall>r. records_installs last_run (k r))"
| "records_installs last_run (CPort f k) \<longleftrightarrow> (\<forall>w. last_run (snd (f w)) = last_run w) \<and> (\<forall>r. records_installs last_run (k r))"
| "records_installs last_run (CInstall a f k) \<longleftrightarrow>
     (\<forall>w. last_run (snd (f w)) = (case fst (f w) of Inl e \<Rightarrow> last_run w | Inr st \<Rightarrow> Some st)) \<and> (\<forall>r. records_installs last_run (k r))"

text \<open>The two variables of the seam tell what was run since they were reset.\<close>

definition told :: "('w \<Rightarrow> int option) \<Rightarrow> 'w core \<Rightarrow> bool" where
  "told last_run c \<longleftrightarrow> last_run (world c) = (if download_pipe_handled c then Some (download_pipe_exec_status c) else None)"

lemma told_cong:
  "world c' = world c \<Longrightarrow> download_pipe_handled c' = download_pipe_handled c \<Longrightarrow>
     download_pipe_exec_status c' = download_pipe_exec_status c \<Longrightarrow> told last_run c' = told last_run c"
  by (simp add: told_def)

lemma told_log [simp]: "told last_run (log_line l c) = told last_run c"
  by (simp add: told_def log_line_def)

lemma told_deny: "told last_run (core (snd (rash_lua_deny reason s))) = told last_run (core s)"
  by (simp add: rash_lua_deny_def rash_hook_warning_def deny_stage_def deny_rack_def rash_mark_denied_def Let_def told_def
      log_line_def)

lemma told_install:
  assumes "\<forall>w. last_run (snd (f w)) = (case fst (f w) of Inl e \<Rightarrow> last_run w | Inr st \<Rightarrow> Some st)" and "told last_run (core s)"
  shows "told last_run (core (snd (rash_lua_exec_with_stdin a f s)))"
proof -
  obtain r w where f: "f (world (core s)) = (r, w)" by fastforce
  have w: "last_run w = (case r of Inl e \<Rightarrow> last_run (world (core s)) | Inr st \<Rightarrow> Some st)" using spec [OF assms(1), of "world (core s)"] f by simp
  show ?thesis
    using assms(2) f w by (cases r) (auto simp: rash_lua_exec_with_stdin_def told_def)
qed

lemma told_callback:
  "records_installs last_run cb \<Longrightarrow> told last_run (core s) \<Longrightarrow> run_callback no_runner cb called s = (out, called', s') \<Longrightarrow>
     told last_run (core s')"
proof (induction cb arbitrary: s rule: callback_tree_induct)
  case (CDeny reason k)
  obtain r s1 where "rash_lua_deny reason s = (r, s1)" by fastforce
  with CDeny told_deny [of last_run reason s] show ?case by simp
next
  case (CRun k)
  then show ?case by (simp add: no_runner_def)
next
  case (CWarn m k)
  have "told last_run (core (upd_core (rash_advisory_message m) s))"
    using CWarn.prems(2) by (simp add: rash_advisory_message_def)
  with CWarn.IH [of "Inr []" "upd_core (rash_advisory_message m) s"] CWarn.prems show ?case by simp
next
  case (CPort f k)
  obtain r w where f: "f (world (core s)) = (r, w)" by fastforce
  then have "last_run w = last_run (world (core s))" using CPort.prems(1) by (metis records_installs.simps(6) snd_conv)
  then have "told last_run (core (upd_core (\<lambda>c. c\<lparr>world := w\<rparr>) s))" using CPort.prems(2) by (simp add: told_def)
  with CPort.IH [of r "upd_core (\<lambda>c. c\<lparr>world := w\<rparr>) s"] CPort.prems f show ?case by simp
next
  case (CInstall a f k)
  obtain r s1 where "rash_lua_exec_with_stdin a f s = (r, s1)" by fastforce
  with CInstall told_install [of last_run f s a] show ?case by simp
qed simp_all

lemma told_loop:
  assumes "\<forall>h\<in>set hooks. records_installs last_run (fst h ev)" and "told last_run (core s)"
  shows "told last_run (core (snd (stage_loop sn val stop ev hooks a s)))"
  using assms
proof (induction hooks arbitrary: a s)
  case (Cons h hooks)
  obtain out s1 where c: "call_hook h ev s = (out, s1)" by fastforce
  let ?s2 = "case out of Inl e \<Rightarrow> upd_core (hook_failed sn e) s1 | Inr v \<Rightarrow> s1"
  obtain called where "run_callback no_runner (fst h ev) False
      (upd_core (\<lambda>c. c\<lparr>current_hook_enforcing := snd h\<rparr>) s) = (out, called, s1)"
    using c by (auto simp: call_hook_def split: prod.splits)
  moreover have "records_installs last_run (fst h ev)" using Cons.prems(1) by simp
  moreover have "told last_run (core (upd_core (\<lambda>c. c\<lparr>current_hook_enforcing := snd h\<rparr>) s))"
    using Cons.prems(2) by (simp add: told_def)
  ultimately have "told last_run (core s1)" using told_callback by blast
  moreover have "told last_run (hook_failed sn e c) = told last_run c" for e c
    by (simp add: hook_failed_def told_def rash_hook_warning_def log_line_def split: option.split)
  ultimately have "told last_run (core ?s2)" by (simp split: sum.split)
  with Cons c show ?case by (simp add: Let_def)
qed simp

lemma download_hooks_result:
  assumes "\<forall>h\<in>set hooks. records_installs last_run (fst h (Ev_download buffer p c))" and "last_run (world (core s)) = None"
    and "download_hooks hooks buffer p c s = (r, result, s')"
  shows "r = 1 \<and> (case last_run (world (core s')) of None \<Rightarrow> result = EXECUTION_FAILURE
     | Some st \<Rightarrow> result = (if stage_denied (core s') then EXECUTION_FAILURE else st))"
proof -
  let ?l = "snd (stage_loop sn_download (\<lambda>a v. a) download_pipe_handled (Ev_download buffer p c) hooks ()
      (upd_core download_enter s))"
  have "told last_run (core (upd_core download_enter s))"
    using assms(2) by (simp add: told_def download_enter_def stage_enter_def)
  from told_loop [OF assms(1) this, of sn_download "\<lambda>a v. a" download_pipe_handled "()"]
  have "told last_run (core ?l)" by simp
  then show ?thesis
    using assms(3) by (auto simp: download_hooks_def Let_def told_def stage_leave_def log_line_def split: if_splits)
qed

text \<open>The ways out of the seam: refused before the hooks, or through them.\<close>

lemma try_download_cases:
  assumes "download_applies cfg command asynchronous pipe_in pipe_out"
    and "rash_hooks_try_download_pipe produce env cfg command asynchronous pipe_in pipe_out s = (r, result, s')"
  shows "r = 1 \<and> result \<noteq> 0 \<and> world (core s') = world (core s) \<or>
    (\<exists>argv. r = 1 \<and> result \<noteq> 0 \<and> world (core s') = snd (produce argv (world (core s)))) \<or>
    (\<exists>buffer p c argv. download_hooks (download_pipe_table cfg) buffer p c
       (upd_core (\<lambda>c. c\<lparr>world := snd (produce argv (world (core s)))\<rparr>) s) = (r, result, s'))"
proof -
  obtain l rt where sides: "pipeline_sides command = Some (l, rt)"
    using assms(1) shape_sides [of command] unfolding download_applies_def by blast
  let ?left = "Option.bind (simple_words_of l) (rash_word_list_to_argv RASH_INSTALLER_ARGV_MAX)"
  let ?right = "Option.bind (simple_words_of rt) (rash_word_list_to_argv RASH_INSTALLER_ARGV_MAX)"
  note run = assms(2) [unfolded rash_hooks_try_download_pipe_def]
  consider (noargv) "?left = None \<or> ?right = None" | (argv) p c where "?left = Some p" "?right = Some c"
    by (cases ?left; cases ?right) auto
  then show ?thesis
  proof cases
    case noargv
    with assms(1) run show ?thesis
      by (cases ?left) (auto simp: download_applies_def sensor_live_def sides failure_not_zero)
  next
    case argv
    obtain pr w where w: "produce p (world (core s)) = (pr, w)" by fastforce
    let ?s1 = "upd_core (\<lambda>c. c\<lparr>world := w\<rparr>) s"
    have run1: "(case rash_capture_argv_stdout (rash_installer_max_bytes env) pr of
          Capture_oversize \<Rightarrow> (1, EXECUTION_FAILURE, upd_core (log_line
            ''rash: download-to-shell: producer stdout exceeds RASH_INSTALLER_MAX_BYTES'') ?s1)
        | Capture_failed \<Rightarrow> (1, EXECUTION_FAILURE, upd_core (log_line
            ''rash: download-to-shell: producer capture failed'') ?s1)
        | Captured buffer status \<Rightarrow>
            if status \<noteq> 0 then (1, status, upd_core (log_line
                 (''rash: download-to-shell: producer exited '' @ show_int status)) ?s1)
            else download_hooks (download_pipe_table cfg) buffer p c ?s1) = (r, result, s')"
      using assms(1) run argv w by (simp add: download_applies_def sensor_live_def sides Let_def)
    then show ?thesis
    proof (cases "rash_capture_argv_stdout (rash_installer_max_bytes env) pr")
      case (Captured buffer status)
      show ?thesis
      proof (cases "status = 0")
        case True
        then have "download_hooks (download_pipe_table cfg) buffer p c
            (upd_core (\<lambda>c. c\<lparr>world := snd (produce p (world (core s)))\<rparr>) s) = (r, result, s')"
          using run1 w Captured by simp
        then show ?thesis by blast
      next
        case False
        with run1 w Captured have "r = 1 \<and> result \<noteq> 0 \<and> world (core s') = snd (produce p (world (core s)))" by auto
        then show ?thesis by blast
      qed
    qed (use run1 w in \<open>auto simp: failure_not_zero intro!: exI [of _ p]\<close>)
  qed
qed

text \<open>C23: Where the seam applies the plain pipeline never runs: the call always reports that it handled the command,
  whatever the variables of the seam held before. Let the world record the status of the last installer, which only
  \<open>exec_with_stdin\<close> sets, and let none be recorded at the start. If a hook of this run ran an installer, the result is
  the status of the last one that ran, or EXECUTION_FAILURE when a hook denied or failed; if none ran, the result is
  not success.\<close>

theorem download_never_falls_through:
  assumes "download_applies cfg command asynchronous pipe_in pipe_out"
    and "\<forall>h\<in>set (download_pipe_table cfg). \<forall>ev. records_installs last_run (fst h ev)"
    and "last_run (world (core s)) = None" and "\<And>argv w. last_run (snd (produce argv w)) = last_run w"
    and "rash_hooks_try_download_pipe produce env cfg command asynchronous pipe_in pipe_out s = (r, result, s')"
  shows "r = 1 \<and> (case last_run (world (core s')) of None \<Rightarrow> result \<noteq> 0
     | Some st \<Rightarrow> result = (if stage_denied (core s') then EXECUTION_FAILURE else st))"
  using try_download_cases [OF assms(1,5)]
proof (elim disjE conjE exE)
  assume r: "r = 1" "result \<noteq> 0" and w: "world (core s') = world (core s)"
  then show ?thesis using assms(3) by simp
next
  fix argv
  assume r: "r = 1" "result \<noteq> 0" and w: "world (core s') = snd (produce argv (world (core s)))"
  then show ?thesis using assms(3) assms(4) [of argv "world (core s)"] by simp
next
  fix buffer p c argv
  assume run: "download_hooks (download_pipe_table cfg) buffer p c
      (upd_core (\<lambda>c. c\<lparr>world := snd (produce argv (world (core s)))\<rparr>) s) = (r, result, s')"
  have "\<forall>h\<in>set (download_pipe_table cfg). records_installs last_run (fst h (Ev_download buffer p c))"
    using assms(2) by blast
  from download_hooks_result [OF this _ run] assms(3) assms(4) [of argv "world (core s)"]
  have "r = 1 \<and> (case last_run (world (core s')) of None \<Rightarrow> result = EXECUTION_FAILURE
      | Some st \<Rightarrow> result = (if stage_denied (core s') then EXECUTION_FAILURE else st))"
    by simp
  then show ?thesis using failure_not_zero by (cases "last_run (world (core s'))") auto
qed

text \<open>A command whose output is too long or whose producer fails never reaches a hook: the
  stage variables and the hooks' world are untouched apart from the producer's own effect.\<close>

theorem download_oversize_not_handed_on:
  assumes "download_applies cfg command asynchronous pipe_in pipe_out"
    and "pipeline_sides command = Some (l, rt)"
    and "Option.bind (simple_words_of l) (rash_word_list_to_argv RASH_INSTALLER_ARGV_MAX) = Some pargv"
    and "Option.bind (simple_words_of rt) (rash_word_list_to_argv RASH_INSTALLER_ARGV_MAX) = Some cargv"
    and "produce pargv (world (core s)) = (Produced chunks st, w)"
    and "length (concat chunks) > rash_installer_max_bytes env"
  shows "\<exists>line. rash_hooks_try_download_pipe produce env cfg command asynchronous pipe_in pipe_out s =
     (1, EXECUTION_FAILURE, upd_core (\<lambda>c. log_line line (c\<lparr>world := w\<rparr>)) s)"
proof -
  have "rash_capture_argv_stdout (rash_installer_max_bytes env) (Produced chunks st) = Capture_oversize"
    using assms(6) by (simp add: rash_capture_argv_stdout_def capture_chunks_iff)
  with assms(1-5) show ?thesis
    unfolding rash_hooks_try_download_pipe_def download_applies_def sensor_live_def
    by (auto simp: upd_core_def Let_def)
qed

text \<open>A script that ends in an error on every path, whatever it does before.\<close>

primrec always_fails :: "'w callback \<Rightarrow> bool" where
  "always_fails (CReturn v) \<longleftrightarrow> False"
| "always_fails (CError e) \<longleftrightarrow> True"
| "always_fails (CDeny reason k) \<longleftrightarrow> (\<forall>r. always_fails (k r))"
| "always_fails (CRun k) \<longleftrightarrow> (\<forall>r. always_fails (k r))"
| "always_fails (CWarn m k) \<longleftrightarrow> (\<forall>r. always_fails (k r))"
| "always_fails (CPort f k) \<longleftrightarrow> (\<forall>r. always_fails (k r))"
| "always_fails (CInstall a f k) \<longleftrightarrow> (\<forall>r. always_fails (k r))"

text \<open>A script that decides nothing: it returns and neither denies nor runs an installer.\<close>

primrec passes_by :: "'w callback \<Rightarrow> bool" where
  "passes_by (CReturn v) \<longleftrightarrow> True"
| "passes_by (CError e) \<longleftrightarrow> False"
| "passes_by (CDeny reason k) \<longleftrightarrow> False"
| "passes_by (CRun k) \<longleftrightarrow> (\<forall>r. passes_by (k r))"
| "passes_by (CWarn m k) \<longleftrightarrow> (\<forall>r. passes_by (k r))"
| "passes_by (CPort f k) \<longleftrightarrow> (\<forall>r. passes_by (k r))"
| "passes_by (CInstall a f k) \<longleftrightarrow> False"

lemma always_fails_errs:
  "always_fails cb \<Longrightarrow> run_callback no_runner cb called s = (out, called', s') \<Longrightarrow> \<exists>e. out = Inl e"
proof (induction cb arbitrary: s rule: callback_tree_induct)
  case (CDeny reason k)
  obtain r s1 where "rash_lua_deny reason s = (r, s1)" by fastforce
  with CDeny show ?case by auto
next
  case (CPort f k)
  obtain r w where "f (world (core s)) = (r, w)" by fastforce
  with CPort show ?case by auto
next
  case (CInstall a f k)
  obtain r s1 where "rash_lua_exec_with_stdin a f s = (r, s1)" by fastforce
  with CInstall show ?case by auto
qed (auto simp: no_runner_def)

lemma passes_by_decides_nothing:
  "passes_by cb \<Longrightarrow> run_callback no_runner cb called s = (out, called', s') \<Longrightarrow>
     (\<exists>v. out = Inr v) \<and> stage_denied (core s') = stage_denied (core s) \<and>
     download_pipe_handled (core s') = download_pipe_handled (core s)"
proof (induction cb arbitrary: s rule: callback_tree_induct)
  case (CWarn m k)
  from CWarn.IH [of "Inr []" "upd_core (rash_advisory_message m) s"] CWarn.prems
  show ?case by (simp add: rash_advisory_message_def log_line_def)
next
  case (CPort f k)
  obtain r w where "f (world (core s)) = (r, w)" by fastforce
  with CPort.IH [of r "upd_core (\<lambda>c. c\<lparr>world := w\<rparr>) s"] CPort.prems show ?case by simp
qed (auto simp: no_runner_def)

text \<open>The hook that decides ends the loop in a denial, and the hooks after it are not called.\<close>

lemma failing_hook_ends_loop:
  assumes pre: "\<forall>h\<in>set pre. passes_by (fst h ev)"
    and h: "always_fails (fst h ev) \<or> snd h \<and> refuses (fst h ev)"
    and s: "in_stage (core s) st" "\<not> stage_denied (core s)" "\<not> download_pipe_handled (core s)"
  shows "stage_loop sn_download val download_pipe_handled ev (pre @ h # post) a s =
      stage_loop sn_download val download_pipe_handled ev (pre @ [h]) a s \<and>
    stage_denied (core (snd (stage_loop sn_download val download_pipe_handled ev (pre @ [h]) a s)))"
  using pre s
proof (induction pre arbitrary: a s)
  case Nil
  obtain out s1 where c: "call_hook h ev s = (out, s1)" by fastforce
  then obtain called where run: "run_callback no_runner (fst h ev) False
      (upd_core (\<lambda>c. c\<lparr>current_hook_enforcing := snd h\<rparr>) s) = (out, called, s1)"
    by (auto simp: call_hook_def split: prod.splits)
  have "stage_denied (core s1) \<or> (\<exists>e. out = Inl e)"
  proof (cases "always_fails (fst h ev)")
    case True
    with always_fails_errs run show ?thesis by blast
  next
    case False
    with h stage_callback_refuses [OF _ run, of st] Nil.prems(2) show ?thesis by simp
  qed
  then have "stage_denied (core (case out of Inl e \<Rightarrow> upd_core (hook_failed sn_download e) s1 | Inr v \<Rightarrow> s1))"
    by (cases out) (auto simp: sn_download_def)
  then show ?case using c by (simp add: Let_def)
next
  case (Cons g pre)
  obtain out s1 where c: "call_hook g ev s = (out, s1)" by fastforce
  then obtain called where run: "run_callback no_runner (fst g ev) False
      (upd_core (\<lambda>c. c\<lparr>current_hook_enforcing := snd g\<rparr>) s) = (out, called, s1)"
    by (auto simp: call_hook_def split: prod.splits)
  have "(\<exists>v. out = Inr v) \<and> \<not> stage_denied (core s1) \<and> \<not> download_pipe_handled (core s1)"
    using passes_by_decides_nothing [OF _ run] Cons.prems by simp
  moreover have "in_stage (core s1) st" using call_hook_keeps [OF c] Cons.prems(2) by simp
  ultimately show ?case using Cons.IH [of s1] Cons.prems(1) c by (auto simp: Let_def)
qed

text \<open>C24: A hook of the seam that fails on every path, whatever its rank and whether or not it has run an installer
  before, or that is enforcing and refuses, closes the seam: if every hook before it returned without denying or
  running an installer, the result is EXECUTION_FAILURE, the stage is denied, and the hooks after it are not called.\<close>

theorem download_failure_is_closed:
  assumes "\<forall>g\<in>set pre. passes_by (fst g (Ev_download buffer p c))"
    and "always_fails (fst h (Ev_download buffer p c)) \<or> snd h \<and> refuses (fst h (Ev_download buffer p c))"
  shows "\<exists>s'. download_hooks (pre @ h # post) buffer p c s = (1, EXECUTION_FAILURE, s') \<and> stage_denied (core s') \<and>
    download_hooks (pre @ [h]) buffer p c s = (1, EXECUTION_FAILURE, s')"
proof -
  let ?s = "upd_core download_enter s"
  have s: "in_stage (core ?s) download_pipe_stage" "\<not> stage_denied (core ?s)" "\<not> download_pipe_handled (core ?s)"
    by (simp_all add: download_enter_def stage_enter_def)
  note loop = failing_hook_ends_loop [OF assms s, of "\<lambda>a v. a" post "()"]
  define s2 where "s2 = upd_core (stage_leave download_pipe_stage) (snd (stage_loop sn_download (\<lambda>a v. a)
    download_pipe_handled (Ev_download buffer p c) (pre @ [h]) () ?s))"
  have "stage_denied (core s2)" using loop by (simp add: s2_def stage_leave_def)
  then show ?thesis using loop by (simp add: download_hooks_def s2_def Let_def)
qed

section \<open>A concrete download\<close>

definition demo_side :: "cstring list \<Rightarrow> command option" where
  "demo_side ws = Some (Command 0 1 [] (Simple 0 1 (map (\<lambda>w. Some (make_bare_word w)) ws) []))"

definition demo_download :: "command option" where
  "demo_download = Some (Command 0 1 [] (Connection (demo_side [''/usr/bin/curl'', ''u'']) (demo_side [''sh'']) PIPE_CONNECTOR))"

definition demo_produce :: "cstring list \<Rightarrow> nat \<Rightarrow> producer_run \<times> nat" where
  "demo_produce argv w = (Produced [''echo'', '' hi''] (Some (Exited 0)), w)"

definition demo_installer :: "nat stage_hook" where
  "demo_installer = ((\<lambda>ev. CInstall [''sh''] (\<lambda>w. (Inr 0, Suc w)) (\<lambda>_. CReturn LNil)), False)"

lemmas demo_download_defs = demo_download_def demo_side_def pipeline_sides_def simple_words_of_def
  rash_word_basename_def rash_is_download_producer_name_def rash_is_download_consumer_name_def
  make_bare_word_def word_text_def RASH_INSTALLER_ARGV_MAX_def numeral_eq_Suc

lemma demo_applies: "download_applies (demo_config [demo_installer]) demo_download False NO_PIPE NO_PIPE"
  by (simp add: download_applies_def sensor_live_def rash_download_shape_match_def demo_download_def demo_side_def
      pipeline_sides_def simple_words_of_def rash_word_basename_def rash_is_download_producer_name_def
      rash_is_download_consumer_name_def make_bare_word_def)

definition demo_last_run :: "nat \<Rightarrow> int option" where
  "demo_last_run w = (if w = 0 then None else Some 0)"

theorem download_never_falls_through_witness:
  "fst (rash_hooks_try_download_pipe demo_produce None (demo_config [demo_installer]) demo_download False NO_PIPE NO_PIPE
     (init_hstate 0)) = 1"
  using download_never_falls_through [OF demo_applies, of demo_last_run "init_hstate 0" demo_produce None]
  by (cases "rash_hooks_try_download_pipe demo_produce None (demo_config [demo_installer]) demo_download False NO_PIPE NO_PIPE
     (init_hstate 0)") (simp add: demo_last_run_def demo_config_def demo_installer_def demo_produce_def)

theorem download_oversize_not_handed_on_witness:
  "fst (snd (rash_hooks_try_download_pipe demo_produce (Some ''3'') (demo_config [demo_installer]) demo_download False NO_PIPE NO_PIPE
     (init_hstate 0))) = EXECUTION_FAILURE"
proof -
  have "Option.bind (simple_words_of (demo_side [''/usr/bin/curl'', ''u''])) (rash_word_list_to_argv RASH_INSTALLER_ARGV_MAX) =
      Some [''/usr/bin/curl'', ''u'']"
    by (simp add: demo_side_def simple_words_of_def RASH_INSTALLER_ARGV_MAX_def numeral_eq_Suc word_text_def make_bare_word_def)
  moreover have "Option.bind (simple_words_of (demo_side [''sh''])) (rash_word_list_to_argv RASH_INSTALLER_ARGV_MAX) = Some [''sh'']"
    by (simp add: demo_side_def simple_words_of_def RASH_INSTALLER_ARGV_MAX_def numeral_eq_Suc word_text_def make_bare_word_def)
  moreover have "pipeline_sides demo_download = Some (demo_side [''/usr/bin/curl'', ''u''], demo_side [''sh''])"
    by (simp add: demo_download_def pipeline_sides_def)
  moreover have "rash_installer_max_bytes (Some ''3'') = 3"
    by (simp add: rash_installer_max_bytes_def strtoull_def scan_number_def c_isspace_def c_isdigit_def
      dec_value_def digit_value_def)
  ultimately obtain line where "rash_hooks_try_download_pipe demo_produce (Some ''3'') (demo_config [demo_installer])
      demo_download False NO_PIPE NO_PIPE (init_hstate 0) =
      (1, EXECUTION_FAILURE, upd_core (\<lambda>c. log_line line (c\<lparr>world := 0\<rparr>)) (init_hstate 0))"
    using download_oversize_not_handed_on [OF demo_applies, of "demo_side [''/usr/bin/curl'', ''u'']" "demo_side [''sh'']"
        "[''/usr/bin/curl'', ''u'']" "[''sh'']" demo_produce "init_hstate 0" "[''echo'', '' hi'']" "Some (Exited 0)" 0 "Some ''3''"]
    by (auto simp: demo_produce_def)
  then show ?thesis by simp
qed

text \<open>An advisory hook that runs an installer, which exits with 0, and then fails.\<close>

definition install_then_fail :: "nat stage_hook" where
  "install_then_fail = ((\<lambda>ev. CInstall [''sh''] (\<lambda>w. (Inr 0, Suc w)) (\<lambda>_. CError None)), False)"

theorem download_failure_is_closed_witness:
  "\<exists>s'. download_hooks ([(\<lambda>ev. CReturn LNil, True)] @ install_then_fail # [demo_installer]) ''x'' [''curl''] [''sh''] (init_hstate 0) =
       (1, EXECUTION_FAILURE, s') \<and> stage_denied (core s') \<and>
     download_hooks ([(\<lambda>ev. CReturn LNil, True)] @ [install_then_fail]) ''x'' [''curl''] [''sh''] (init_hstate 0) =
       (1, EXECUTION_FAILURE, s')"
  by (rule download_failure_is_closed) (simp_all add: install_then_fail_def)

end
