(* ===== verification/Hook_Kept.thy ===== *)
theory Hook_Kept
  imports Hook_Lifecycle
begin

text \<open>
  The chain of parse-stage hooks with closures that outlive the call they were made for
  (hooks.c). A Lua script may store the \<open>run\<close> closure it was given in a global variable,
  and any later script may call it: a later hook of the same command, a stage hook inside the
  command, or a hook of another command. Here every closure has a handle, its place in the
  list of all closures made so far, and a callback names the closure it calls by its handle.
  \<open>Hook_Lifecycle\<close> is the case of hooks that call only their own closure.
\<close>

section \<open>Callbacks and closures\<close>

datatype (dead 'w) kcallback =
    KReturn lua_value
  | KError "cstring option"
  | KDeny cstring "lua_result \<Rightarrow> 'w kcallback"
  | KRun nat "lua_result \<Rightarrow> 'w kcallback"
  | KWarn cstring "lua_result \<Rightarrow> 'w kcallback"
  | KPort "'w \<Rightarrow> lua_result \<times> 'w" "lua_result \<Rightarrow> 'w kcallback"
  | KInstall "cstring list" "'w \<Rightarrow> (cstring + int) \<times> 'w" "lua_result \<Rightarrow> 'w kcallback"

text \<open>A hook gets the command and the handle of its own closure.\<close>

type_synonym 'w khook = "(command \<Rightarrow> nat \<Rightarrow> 'w kcallback) \<times> bool"

text \<open>\<open>RASH_HOOK_RUNNER\<close>. The context is a number: the contexts of the commands that have
  ended are kept in a list, and the command that runs now has the next number.\<close>

record krunner =
  kr_context :: nat
  kr_next_hook :: nat
  kr_called :: bool

record 'w kept =
  hs :: "'w hstate"
  runners :: "krunner list"
  ended :: "hook_context list"

definition upd_hs :: "('w hstate \<Rightarrow> 'w hstate) \<Rightarrow> 'w kept \<Rightarrow> 'w kept" where
  "upd_hs f k = k\<lparr>hs := f (hs k)\<rparr>"

definition context_of :: "'w kept \<Rightarrow> nat \<Rightarrow> hook_context" where
  "context_of k c = (if c < length (ended k) then ended k ! c else ctx (hs k))"

text \<open>The closure with handle \<open>h\<close>; there is no other value a script could call.\<close>

definition kept_hook_run ::
  "(nat \<Rightarrow> 'w kept \<Rightarrow> (int \<times> 'w kept) option) \<Rightarrow> nat \<Rightarrow> 'w kept \<Rightarrow> (lua_result \<times> 'w kept) option" where
  "kept_hook_run invoke h k =
     (if h \<ge> length (runners k) then Some (Inl ''attempt to call a nil value'', k)
      else if \<not> hc_active (context_of k (kr_context (runners k ! h))) then
        Some (Inl ''rash hook run() escaped its command lifecycle'', k)
      else if kr_called (runners k ! h) then Some (Inl ''rash hook called run() more than once'', k)
      else
        (case invoke (kr_next_hook (runners k ! h))
                (k\<lparr>runners := (runners k)[h := (runners k ! h)\<lparr>kr_called := True\<rparr>]\<rparr>) of
           None \<Rightarrow> None
         | Some (r, k') \<Rightarrow> Some (Inr [lua_int r], k')))"

primrec run_kcallback ::
  "(nat \<Rightarrow> 'w kept \<Rightarrow> (lua_result \<times> 'w kept) option) \<Rightarrow> 'w kcallback \<Rightarrow> 'w kept \<Rightarrow>
     ((cstring option + lua_value) \<times> 'w kept) option" where
  "run_kcallback runner (KReturn v) k = Some (Inr v, k)"
| "run_kcallback runner (KError e) k = Some (Inl e, k)"
| "run_kcallback runner (KDeny reason c) k =
     (case rash_lua_deny reason (hs k) of (r, s) \<Rightarrow> run_kcallback runner (c r) (k\<lparr>hs := s\<rparr>))"
| "run_kcallback runner (KRun h c) k =
     (case runner h k of None \<Rightarrow> None | Some (r, k') \<Rightarrow> run_kcallback runner (c r) k')"
| "run_kcallback runner (KWarn m c) k =
     run_kcallback runner (c (Inr [])) (upd_hs (upd_core (rash_advisory_message m)) k)"
| "run_kcallback runner (KPort f c) k =
     (case f (world (core (hs k))) of (r, w) \<Rightarrow>
        run_kcallback runner (c r) (upd_hs (upd_core (\<lambda>c. c\<lparr>world := w\<rparr>)) k))"
| "run_kcallback runner (KInstall argv f c) k =
     (case rash_lua_exec_with_stdin argv f (hs k) of (r, s) \<Rightarrow> run_kcallback runner (c r) (k\<lparr>hs := s\<rparr>))"

section \<open>The chain\<close>

text \<open>
  \<open>execute_command_internal\<close> as the chain sees it: hooks of the stages inside it may call
  kept closures before the command acts, and what they answer decides how it acts, and again
  after it.
\<close>

record 'w inner =
  stages_before :: "'w kcallback"
  act :: "(cstring option + lua_value) \<Rightarrow> 'w executor"
  stages_after :: "'w kcallback"

definition kept_inner ::
  "('w kcallback \<Rightarrow> 'w kept \<Rightarrow> ((cstring option + lua_value) \<times> 'w kept) option) \<Rightarrow> 'w inner \<Rightarrow>
     'w kept \<Rightarrow> (int \<times> 'w kept) option" where
  "kept_inner run inner k =
     (case run (stages_before inner) k of
        None \<Rightarrow> None
      | Some (out, k1) \<Rightarrow>
          (case act inner out (core (hs k1)) of
             (r, c) \<Rightarrow>
               (case run (stages_after inner) (upd_hs (\<lambda>s. s\<lparr>core := c\<rparr>) k1) of
                  None \<Rightarrow> None
                | Some (out', k2) \<Rightarrow> Some (r, k2))))"

text \<open>\<open>context->executed\<close> is set before the command is executed.\<close>

definition kept_execute_original ::
  "('w kcallback \<Rightarrow> 'w kept \<Rightarrow> ((cstring option + lua_value) \<times> 'w kept) option) \<Rightarrow> 'w inner \<Rightarrow>
     'w kept \<Rightarrow> (int \<times> 'w kept) option" where
  "kept_execute_original run inner k =
     (if hc_executed (ctx (hs k)) then Some (hc_result (ctx (hs k)), k)
      else
        (case kept_inner run inner (upd_hs (\<lambda>s. s\<lparr>ctx := (ctx s)\<lparr>hc_executed := True\<rparr>\<rparr>) k) of
           None \<Rightarrow> None
         | Some (r, k') \<Rightarrow> Some (r, upd_hs (\<lambda>s. s\<lparr>ctx := (ctx s)\<lparr>hc_result := r\<rparr>\<rparr>) k')))"

definition new_runner :: "nat \<Rightarrow> nat \<Rightarrow> krunner" where
  "new_runner c n = \<lparr>kr_context = c, kr_next_hook = n, kr_called = False\<rparr>"

text \<open>The fuel bounds the depth of nested invocations; \<open>index\<close> counts hooks from 1.\<close>

primrec kept_invoke_hook ::
  "nat \<Rightarrow> 'w inner \<Rightarrow> command \<Rightarrow> 'w khook list \<Rightarrow> nat \<Rightarrow> 'w kept \<Rightarrow> (int \<times> 'w kept) option" where
  "kept_invoke_hook 0 inner cmd hooks index k = None"
| "kept_invoke_hook (Suc fuel) inner cmd hooks index k =
     (let run = run_kcallback (kept_hook_run (kept_invoke_hook fuel inner cmd hooks)) in
      if hc_denied (ctx (hs k)) then Some (hc_result (ctx (hs k)), k)
      else if index > length hooks then kept_execute_original run inner k
      else
        (let h = hooks ! (index - 1);
             k1 = upd_hs (enter_hook (snd h))
                    (k\<lparr>runners := runners k @ [new_runner (length (ended k)) (index + 1)]\<rparr>)
         in (case run (fst h cmd (length (runners k))) k1 of
               None \<Rightarrow> None
             | Some (out, k2) \<Rightarrow>
                 (let k3 = upd_hs (\<lambda>s. leave_hook (hook_outcome (snd h) out s)) k2
                  in if hc_denied (ctx (hs k3)) then Some (hc_result (ctx (hs k3)), k3)
                     else if \<not> hc_executed (ctx (hs k3)) then kept_invoke_hook fuel inner cmd hooks (index + 1) k3
                     else Some (hc_result (ctx (hs k3)), k3)))))"

definition end_context :: "'w kept \<Rightarrow> 'w kept" where
  "end_context k = (let c = (ctx (hs k))\<lparr>hc_active := False\<rparr>
     in (upd_hs (\<lambda>s. s\<lparr>ctx := c\<rparr>) k)\<lparr>ended := ended k @ [c]\<rparr>)"

definition kept_hooks_execute ::
  "nat \<Rightarrow> bool \<Rightarrow> 'w inner \<Rightarrow> 'w khook list \<Rightarrow> command \<Rightarrow> 'w kept \<Rightarrow> (int \<times> 'w kept) option" where
  "kept_hooks_execute fuel reload_enabled inner hooks cmd k =
     (if rash_hook_is_reload_builtin_command reload_enabled (Some cmd) then
        kept_inner (run_kcallback (kept_hook_run (kept_invoke_hook fuel inner cmd hooks))) inner k
      else
        (case kept_invoke_hook fuel inner cmd hooks 1 (upd_hs (\<lambda>s. s\<lparr>ctx := new_hook_context\<rparr>) k) of
           None \<Rightarrow> None
         | Some (r, k') \<Rightarrow> Some (r, end_context k')))"

text \<open>Commands one after the other, each with the hooks and the behaviour it has when it comes.\<close>

primrec kept_session ::
  "nat \<Rightarrow> bool \<Rightarrow> ('w inner \<times> 'w khook list \<times> command) list \<Rightarrow> 'w kept \<Rightarrow> 'w kept option" where
  "kept_session fuel reload_enabled [] k = Some k"
| "kept_session fuel reload_enabled (c # cs) k =
     (case c of (inner, hooks, cmd) \<Rightarrow>
        (case kept_hooks_execute fuel reload_enabled inner hooks cmd k of
           None \<Rightarrow> None
         | Some (r, k') \<Rightarrow> kept_session fuel reload_enabled cs k'))"

lemma upd_hs_sel [simp]:
  "hs (upd_hs f k) = f (hs k)" "runners (upd_hs f k) = runners k" "ended (upd_hs f k) = ended k"
  by (simp_all add: upd_hs_def)

lemma new_runner_sel [simp]:
  "kr_context (new_runner c n) = c" "kr_next_hook (new_runner c n) = n" "\<not> kr_called (new_runner c n)"
  by (simp_all add: new_runner_def)

section \<open>Every invocation ends\<close>

text \<open>What invoking the chain at an index costs at most: each invocation makes one new closure,
  which can be called once, and may go on to the next hook itself.\<close>

definition weight :: "nat \<Rightarrow> nat \<Rightarrow> nat" where
  "weight N index = 2 ^ Suc (Suc N - index) - 1"

lemma weight_pos: "weight N index > 0"
proof -
  have "(2::nat) ^ (Suc N - index) \<ge> 1" by simp
  then show ?thesis by (simp only: weight_def power_Suc)
qed

lemma weight_step: "index \<le> N \<Longrightarrow> weight N index = Suc (2 * weight N (index + 1))"
proof -
  assume "index \<le> N"
  then have i: "Suc N - index = Suc (N - index)" by simp
  have "(2::nat) ^ (N - index) \<ge> 1" by simp
  moreover have "weight N index = 2 * (2 * 2 ^ (N - index)) - 1" by (simp only: weight_def i power_Suc)
  moreover have "weight N (index + 1) = 2 * 2 ^ (N - index) - 1" by (simp add: weight_def)
  ultimately show ?thesis by linarith
qed

text \<open>The cost of the closures the running command has made and nobody has called.\<close>

definition potential :: "nat \<Rightarrow> 'w kept \<Rightarrow> nat" where
  "potential N k = sum_list (map (\<lambda>r. if kr_context r = length (ended k) \<and> \<not> kr_called r
     then weight N (kr_next_hook r) else 0) (runners k))"

lemma potential_hs [simp]: "potential N (upd_hs f k) = potential N k" "potential N (k\<lparr>hs := s\<rparr>) = potential N k"
  by (simp_all add: potential_def)

lemma potential_new:
  "potential N (k\<lparr>runners := runners k @ [new_runner (length (ended k)) index]\<rparr>) = potential N k + weight N index"
  by (simp add: potential_def)

lemma potential_call:
  assumes "h < length (runners k)" and "kr_context (runners k ! h) = length (ended k)" and "\<not> kr_called (runners k ! h)"
  shows "potential N (k\<lparr>runners := (runners k)[h := (runners k ! h)\<lparr>kr_called := True\<rparr>]\<rparr>) +
     weight N (kr_next_hook (runners k ! h)) = potential N k"
proof -
  let ?f = "\<lambda>r. if kr_context r = length (ended k) \<and> \<not> kr_called r then weight N (kr_next_hook r) else 0"
  have f: "?f (runners k ! h) = weight N (kr_next_hook (runners k ! h))" using assms by simp
  have "?f (runners k ! h) \<le> sum_list (map ?f (runners k))"
    using assms(1) by (intro member_le_sum_list) (auto intro: nth_mem)
  with assms(1) f show ?thesis
    by (simp add: potential_def map_update sum_list_update)
qed

section \<open>What holds of the closures\<close>

text \<open>No ended command is active, and every closure was made by it or by the running one.\<close>

definition closures_ok :: "'w kept \<Rightarrow> bool" where
  "closures_ok k \<longleftrightarrow> (\<forall>r\<in>set (runners k). kr_context r \<le> length (ended k) \<and>
       (kr_context r = length (ended k) \<longrightarrow> kr_next_hook r > 0)) \<and>
     (\<forall>c\<in>set (ended k). \<not> hc_active c)"

text \<open>Between two commands: every closure there is was made by a command that has ended.\<close>

definition retained_only :: "'w kept \<Rightarrow> bool" where
  "retained_only k \<longleftrightarrow> (\<forall>r\<in>set (runners k). kr_context r < length (ended k)) \<and>
     (\<forall>c\<in>set (ended k). \<not> hc_active c)"

text \<open>A state reached from another inside one command: the command has run at most once more,
  and never again once it was marked as executed.\<close>

definition quiet :: "('w \<Rightarrow> nat) \<Rightarrow> 'w hstate \<Rightarrow> 'w hstate \<Rightarrow> bool" where
  "quiet meter s s' \<longleftrightarrow> (hc_executed (ctx s) \<longrightarrow> hc_executed (ctx s')) \<and>
     meter (world (core s')) \<le> meter (world (core s)) + of_bool (hc_executed (ctx s') \<and> \<not> hc_executed (ctx s))"

definition leads :: "('w \<Rightarrow> nat) \<Rightarrow> 'w kept \<Rightarrow> 'w kept \<Rightarrow> bool" where
  "leads meter k k' \<longleftrightarrow> ended k' = ended k \<and> closures_ok k' \<and> quiet meter (hs k) (hs k')"

lemma quiet_refl [simp]: "quiet meter s s"
  by (simp add: quiet_def)

lemma quiet_trans: "quiet meter s s' \<Longrightarrow> quiet meter s' s'' \<Longrightarrow> quiet meter s s''"
  by (cases "hc_executed (ctx s)"; cases "hc_executed (ctx s')") (auto simp: quiet_def)

lemma quiet_core: "ctx s' = ctx s \<Longrightarrow> meter (world (core s')) = meter (world (core s)) \<Longrightarrow> quiet meter s s'"
  by (simp add: quiet_def)

lemma quiet_mark: "quiet meter s (rash_mark_denied r s)"
  by (simp add: quiet_def rash_mark_denied_def Let_def)

lemma quiet_deny: "quiet meter s (snd (rash_lua_deny r s))"
  using lua_deny_ctx_cases [of r s] quiet_mark [of meter s "Some r"] quiet_core [of "snd (rash_lua_deny r s)" s meter]
  by auto

lemma quiet_outcome: "quiet meter s (leave_hook (hook_outcome e out s))"
proof -
  have "quiet meter s (hook_outcome e out s)"
  proof (cases out)
    case (Inl er)
    have "quiet meter s (upd_core (rash_hook_warning p m) s)" for p m by (rule quiet_core) simp_all
    with Inl show ?thesis by (auto simp: hook_outcome_def intro: quiet_trans [OF _ quiet_mark])
  next
    case (Inr v)
    then show ?thesis by (auto simp: hook_outcome_def quiet_def split: option.splits)
  qed
  then show ?thesis by (rule quiet_trans) (simp add: quiet_core)
qed

lemma leads_refl: "closures_ok k \<Longrightarrow> leads meter k k"
  by (simp add: leads_def)

lemma leads_trans: "leads meter k k' \<Longrightarrow> leads meter k' k'' \<Longrightarrow> leads meter k k''"
  unfolding leads_def by (metis quiet_trans)

lemma leads_hs: "closures_ok k \<Longrightarrow> quiet meter (hs k) (f (hs k)) \<Longrightarrow> leads meter k (upd_hs f k)"
  by (simp add: leads_def closures_ok_def)

lemma leads_ok: "leads meter k k' \<Longrightarrow> closures_ok k'"
  by (simp add: leads_def)

lemma current_closure:
  assumes "closures_ok k" and "h < length (runners k)" and "hc_active (context_of k (kr_context (runners k ! h)))"
  shows "kr_context (runners k ! h) = length (ended k)"
proof -
  have "kr_context (runners k ! h) \<le> length (ended k)" using assms(1,2) by (simp add: closures_ok_def)
  moreover have "\<not> kr_context (runners k ! h) < length (ended k)"
    using assms(1,3) by (auto simp: context_of_def closures_ok_def)
  ultimately show ?thesis by simp
qed

section \<open>At most once, whoever calls\<close>

text \<open>Scripts leave the meter alone.\<close>

primrec kports_keep :: "('w \<Rightarrow> nat) \<Rightarrow> 'w kcallback \<Rightarrow> bool" where
  "kports_keep meter (KReturn v) \<longleftrightarrow> True"
| "kports_keep meter (KError e) \<longleftrightarrow> True"
| "kports_keep meter (KDeny reason c) \<longleftrightarrow> (\<forall>r. kports_keep meter (c r))"
| "kports_keep meter (KRun h c) \<longleftrightarrow> (\<forall>r. kports_keep meter (c r))"
| "kports_keep meter (KWarn m c) \<longleftrightarrow> (\<forall>r. kports_keep meter (c r))"
| "kports_keep meter (KPort f c) \<longleftrightarrow> (\<forall>w. meter (snd (f w)) = meter w) \<and> (\<forall>r. kports_keep meter (c r))"
| "kports_keep meter (KInstall a f c) \<longleftrightarrow> (\<forall>w. meter (snd (f w)) = meter w) \<and> (\<forall>r. kports_keep meter (c r))"

lemma kcallback_tree_induct [case_names KReturn KError KDeny KRun KWarn KPort KInstall]:
  assumes "\<And>v. P (KReturn v)" and "\<And>e. P (KError e)"
    and "\<And>reason c. (\<And>r. P (c r)) \<Longrightarrow> P (KDeny reason c)"
    and "\<And>h c. (\<And>r. P (c r)) \<Longrightarrow> P (KRun h c)"
    and "\<And>m c. (\<And>r. P (c r)) \<Longrightarrow> P (KWarn m c)"
    and "\<And>f c. (\<And>r. P (c r)) \<Longrightarrow> P (KPort f c)"
    and "\<And>a f c. (\<And>r. P (c r)) \<Longrightarrow> P (KInstall a f c)"
  shows "P cb"
  by (induction cb) (simp_all add: assms)

text \<open>Whatever the closures keep, and every change that leaves the meter alone keeps, a whole
  script keeps; and it ends when its calls do.\<close>

lemma run_kcallback_keeps:
  assumes run: "\<And>h k. P k \<Longrightarrow> \<exists>r k'. runner h k = Some (r, k') \<and> P k'"
    and quiet: "\<And>s k. P k \<Longrightarrow> ctx s = ctx (hs k) \<Longrightarrow> meter (world (core s)) = meter (world (core (hs k))) \<Longrightarrow> P (k\<lparr>hs := s\<rparr>)"
    and deny: "\<And>reason k. P k \<Longrightarrow> P (k\<lparr>hs := snd (rash_lua_deny reason (hs k))\<rparr>)"
  shows "kports_keep meter cb \<Longrightarrow> P k \<Longrightarrow> \<exists>out k'. run_kcallback runner cb k = Some (out, k') \<and> P k'"
proof (induction cb arbitrary: k rule: kcallback_tree_induct)
  case (KDeny reason c)
  obtain r s where "rash_lua_deny reason (hs k) = (r, s)" by fastforce
  with KDeny deny [of k reason] show ?case by simp
next
  case (KRun h c)
  obtain r k' where "runner h k = Some (r, k')" and "P k'" using run [OF KRun.prems(2)] by blast
  with KRun show ?case by simp
next
  case (KWarn m c)
  with quiet [of k "upd_core (rash_advisory_message m) (hs k)"] show ?case by (simp add: upd_hs_def)
next
  case (KPort f c)
  obtain r w where f: "f (world (core (hs k))) = (r, w)" by fastforce
  then have "meter w = meter (world (core (hs k)))" using KPort.prems(1) by (metis kports_keep.simps(6) snd_conv)
  with KPort f quiet [of k "upd_core (\<lambda>c. c\<lparr>world := w\<rparr>) (hs k)"] show ?case by (simp add: upd_hs_def)
next
  case (KInstall a f c)
  obtain r s where e: "rash_lua_exec_with_stdin a f (hs k) = (r, s)" by fastforce
  then obtain w h st where "s = upd_core (set_world w h st) (hs k)" and "meter w = meter (world (core (hs k)))"
    using exec_with_stdin_meter [of meter a f "\<lambda>_. CReturn LNil" "hs k" r s] KInstall.prems(1) by auto
  with KInstall e quiet [of k s] show ?case by simp
qed simp_all

text \<open>What a run inside the command reaches from a state, with the cost that is left.\<close>

definition within :: "('w \<Rightarrow> nat) \<Rightarrow> nat \<Rightarrow> nat \<Rightarrow> 'w kept \<Rightarrow> 'w kept \<Rightarrow> bool" where
  "within meter N bound k k' \<longleftrightarrow> leads meter k k' \<and> potential N k' \<le> bound"

definition khooks_keep :: "('w \<Rightarrow> nat) \<Rightarrow> 'w khook list \<Rightarrow> bool" where
  "khooks_keep meter hooks \<longleftrightarrow> (\<forall>h\<in>set hooks. \<forall>cmd n. kports_keep meter (fst h cmd n))"

text \<open>The command raises the meter by at most one when it acts.\<close>

definition inner_metered :: "('w \<Rightarrow> nat) \<Rightarrow> 'w inner \<Rightarrow> bool" where
  "inner_metered meter inner \<longleftrightarrow> kports_keep meter (stages_before inner) \<and> kports_keep meter (stages_after inner) \<and>
     (\<forall>out c. meter (world (snd (act inner out c))) \<le> Suc (meter (world c)))"

text \<open>A script inside the command ends when invocations with the fuel do.\<close>

lemma callback_within:
  assumes inv: "\<And>index k. index > 0 \<Longrightarrow> closures_ok k \<Longrightarrow> weight N index + potential N k \<le> fuel \<Longrightarrow>
      \<exists>r k'. kept_invoke_hook fuel inner cmd hooks index k = Some (r, k') \<and> leads meter k k' \<and>
        potential N k' < potential N k + weight N index"
    and cb: "kports_keep meter cb" and k: "closures_ok k" and fuel: "potential N k \<le> fuel"
  shows "\<exists>out k'. run_kcallback (kept_hook_run (kept_invoke_hook fuel inner cmd hooks)) cb k = Some (out, k') \<and>
     within meter N (potential N k) k k'"
proof (rule run_kcallback_keeps [where meter = meter, OF _ _ _ cb])
  fix h k1 assume k1: "within meter N (potential N k) k k1"
  let ?k2 = "k1\<lparr>runners := (runners k1)[h := (runners k1 ! h)\<lparr>kr_called := True\<rparr>]\<rparr>"
  let ?r = "runners k1 ! h"
  have ok: "closures_ok k1" using k1 leads_ok [of meter k k1] by (simp add: within_def)
  show "\<exists>r k'. kept_hook_run (kept_invoke_hook fuel inner cmd hooks) h k1 = Some (r, k') \<and> within meter N (potential N k) k k'"
  proof (cases "h < length (runners k1) \<and> hc_active (context_of k1 (kr_context ?r)) \<and> \<not> kr_called ?r")
    case True
    then have pot: "potential N ?k2 + weight N (kr_next_hook ?r) = potential N k1"
      using current_closure [OF ok] by (intro potential_call) auto
    have ok2: "closures_ok ?k2"
      using ok True by (auto simp: closures_ok_def dest!: set_update_subset_insert [THEN subsetD] intro: nth_mem)
    have "kr_next_hook ?r > 0" using ok True current_closure [OF ok] by (auto simp: closures_ok_def)
    from inv [OF this ok2] pot fuel k1
    obtain r k' where r: "kept_invoke_hook fuel inner cmd hooks (kr_next_hook ?r) ?k2 = Some (r, k')"
        and l: "leads meter ?k2 k'" and p: "potential N k' < potential N k1"
      by (auto simp: within_def add.commute)
    have "leads meter k1 ?k2" using ok2 by (simp add: leads_def)
    with l k1 p have "within meter N (potential N k) k k'"
      unfolding within_def by (meson leads_trans less_imp_le order_trans)
    with True r show ?thesis by (auto simp: kept_hook_run_def)
  next
    case False
    with k1 show ?thesis by (auto simp: kept_hook_run_def)
  qed
next
  show "within meter N (potential N k) k (k1\<lparr>hs := s\<rparr>)"
    if "within meter N (potential N k) k k1" and "ctx s = ctx (hs k1)"
      and "meter (world (core s)) = meter (world (core (hs k1)))" for s k1
    using that leads_hs [of k1 meter "\<lambda>_. s"] leads_trans [of meter k k1]
    by (auto simp: within_def upd_hs_def leads_ok quiet_core)
  show "within meter N (potential N k) k (k1\<lparr>hs := snd (rash_lua_deny reason (hs k1))\<rparr>)"
    if "within meter N (potential N k) k k1" for reason k1
    using that leads_hs [of k1 meter "\<lambda>s. snd (rash_lua_deny reason s)"] leads_trans [of meter k k1]
    by (auto simp: within_def upd_hs_def leads_ok quiet_deny)
  show "within meter N (potential N k) k k" using k by (simp add: within_def leads_refl)
qed

text \<open>The command itself, once it is marked as executed.\<close>

lemma inner_within:
  assumes run: "\<And>cb k. kports_keep meter cb \<Longrightarrow> closures_ok k \<Longrightarrow> potential N k \<le> fuel \<Longrightarrow>
      \<exists>out k'. run cb k = Some (out, k') \<and> within meter N (potential N k) k k'"
    and inner: "inner_metered meter inner" and k: "closures_ok k" and fuel: "potential N k \<le> fuel"
    and ex: "hc_executed (ctx (hs k))"
  shows "\<exists>r k'. kept_inner run inner k = Some (r, k') \<and> ended k' = ended k \<and> closures_ok k' \<and>
     hc_executed (ctx (hs k')) \<and> meter (world (core (hs k'))) \<le> Suc (meter (world (core (hs k)))) \<and>
     potential N k' \<le> potential N k"
proof -
  obtain out k1 where b: "run (stages_before inner) k = Some (out, k1)" and k1: "within meter N (potential N k) k k1"
    using run [OF _ k fuel, of "stages_before inner"] inner by (auto simp: inner_metered_def)
  obtain r c where a: "act inner out (core (hs k1)) = (r, c)" by fastforce
  let ?k2 = "upd_hs (\<lambda>s. s\<lparr>core := c\<rparr>) k1"
  have m: "meter (world c) \<le> Suc (meter (world (core (hs k1))))"
    using inner a by (metis inner_metered_def snd_conv)
  have "closures_ok ?k2" and p2: "potential N ?k2 \<le> potential N k"
    using k1 by (auto simp: within_def leads_def closures_ok_def)
  then obtain out' k3 where c: "run (stages_after inner) ?k2 = Some (out', k3)"
      and k3: "within meter N (potential N ?k2) ?k2 k3"
    using run [of "stages_after inner" ?k2] inner fuel by (auto simp: inner_metered_def)
  have "ended k3 = ended k" "closures_ok k3" "hc_executed (ctx (hs k3))" "potential N k3 \<le> potential N k"
      "meter (world (core (hs k3))) \<le> Suc (meter (world (core (hs k))))"
    using k1 k3 m ex p2 by (auto simp: within_def leads_def quiet_def)
  with a b c show ?thesis by (simp add: kept_inner_def)
qed

lemma invoke_within:
  assumes inner: "inner_metered meter inner" and hooks: "khooks_keep meter hooks"
  shows "index > 0 \<Longrightarrow> closures_ok k \<Longrightarrow> weight (length hooks) index + potential (length hooks) k \<le> fuel \<Longrightarrow>
     \<exists>r k'. kept_invoke_hook fuel inner cmd hooks index k = Some (r, k') \<and> leads meter k k' \<and>
       potential (length hooks) k' < potential (length hooks) k + weight (length hooks) index"
proof (induction fuel arbitrary: index k)
  case 0
  then show ?case using weight_pos [of "length hooks" index] by simp
next
  case (Suc fuel)
  let ?N = "length hooks"
  let ?run = "run_kcallback (kept_hook_run (kept_invoke_hook fuel inner cmd hooks))"
  have run: "\<exists>out k'. ?run cb k = Some (out, k') \<and> within meter ?N (potential ?N k) k k'"
    if "kports_keep meter cb" and "closures_ok k" and "potential ?N k \<le> fuel" for cb k
    using callback_within [OF Suc.IH that] by blast
  note ok = Suc.prems(2)
  have pos: "potential ?N k < potential ?N k + weight ?N index" using weight_pos by simp
  have fuel: "potential ?N k \<le> fuel" using Suc.prems(3) weight_pos [of ?N index] by simp
  consider (denied) "hc_denied (ctx (hs k))" | (spent) "\<not> hc_denied (ctx (hs k))" "index > ?N" "hc_executed (ctx (hs k))"
    | (exec) "\<not> hc_denied (ctx (hs k))" "index > ?N" "\<not> hc_executed (ctx (hs k))"
    | (hook) "\<not> hc_denied (ctx (hs k))" "index \<le> ?N"
    by fastforce
  then show ?case
  proof cases
    case denied
    with pos ok show ?thesis by (simp add: leads_refl)
  next
    case spent
    with pos ok show ?thesis by (simp add: kept_execute_original_def leads_refl)
  next
    case exec
    let ?k1 = "upd_hs (\<lambda>s. s\<lparr>ctx := (ctx s)\<lparr>hc_executed := True\<rparr>\<rparr>) k"
    have "closures_ok ?k1" using ok by (simp add: closures_ok_def)
    from inner_within [where run = ?run and fuel = fuel, OF run inner this] fuel
    obtain r k2 where i: "kept_inner ?run inner ?k1 = Some (r, k2)" and k2: "ended k2 = ended k" "closures_ok k2"
        "hc_executed (ctx (hs k2))" "meter (world (core (hs k2))) \<le> Suc (meter (world (core (hs k))))"
        "potential ?N k2 \<le> potential ?N k"
      by auto
    then have "leads meter k (upd_hs (\<lambda>s. s\<lparr>ctx := (ctx s)\<lparr>hc_result := r\<rparr>\<rparr>) k2)"
      using exec(3) by (simp add: leads_def closures_ok_def quiet_def)
    with exec i k2(5) pos show ?thesis by (simp add: kept_execute_original_def)
  next
    case hook
    let ?h = "hooks ! (index - 1)"
    let ?W = "weight ?N (index + 1)"
    let ?k1 = "upd_hs (enter_hook (snd ?h)) (k\<lparr>runners := runners k @ [new_runner (length (ended k)) (index + 1)]\<rparr>)"
    have w: "weight ?N index = Suc (2 * ?W)" using hook(2) by (rule weight_step)
    have p1: "potential ?N ?k1 = potential ?N k + ?W" by (simp add: potential_new)
    have ok1: "closures_ok ?k1" and l1: "leads meter k ?k1"
      using ok by (auto simp: closures_ok_def leads_def quiet_core)
    obtain out k2 where r: "?run (fst ?h cmd (length (runners k))) ?k1 = Some (out, k2)"
        and k2: "within meter ?N (potential ?N k + ?W) ?k1 k2"
    proof -
      have "?h \<in> set hooks" using hook(2) Suc.prems(1) by simp
      then have "kports_keep meter (fst ?h cmd (length (runners k)))" using hooks by (simp add: khooks_keep_def)
      moreover have "potential ?N ?k1 \<le> fuel" using p1 w Suc.prems(3) by simp
      ultimately show ?thesis using run [of _ ?k1] ok1 p1 that by metis
    qed
    let ?k3 = "upd_hs (\<lambda>s. leave_hook (hook_outcome (snd ?h) out s)) k2"
    have "leads meter k k2" using leads_trans [OF l1] k2 unfolding within_def by blast
    then have l3: "leads meter k ?k3"
      using leads_trans leads_hs [OF leads_ok, of meter k k2 meter "\<lambda>s. leave_hook (hook_outcome (snd ?h) out s)"] quiet_outcome
      by blast
    have p3: "potential ?N ?k3 \<le> potential ?N k + ?W" using k2 by (simp add: within_def)
    show ?thesis
    proof (cases "hc_denied (ctx (hs ?k3)) \<or> hc_executed (ctx (hs ?k3))")
      case True
      with hook r have "kept_invoke_hook (Suc fuel) inner cmd hooks index k = Some (hc_result (ctx (hs ?k3)), ?k3)"
        by (auto simp: Let_def)
      moreover have "potential ?N ?k3 < potential ?N k + weight ?N index" using p3 w by simp
      ultimately show ?thesis using l3 by blast
    next
      case False
      have "?W + potential ?N ?k3 \<le> fuel" using p3 w Suc.prems(3) by simp
      from Suc.IH [OF _ leads_ok [OF l3] this]
      obtain r' k4 where k4: "kept_invoke_hook fuel inner cmd hooks (index + 1) ?k3 = Some (r', k4)" "leads meter ?k3 k4"
          "potential ?N k4 < potential ?N ?k3 + ?W"
        by auto
      then have "leads meter k k4" "potential ?N k4 < potential ?N k + weight ?N index"
        using leads_trans [OF l3] p3 w by (blast, simp)
      moreover have "kept_invoke_hook (Suc fuel) inner cmd hooks index k = Some (r', k4)"
        using hook r False k4(1) by (simp add: Let_def)
      ultimately show ?thesis by blast
    qed
  qed
qed

text \<open>Where every closure is retained from an earlier command, none of them does anything.\<close>

lemma retained_run:
  assumes "retained_only k"
  shows "kept_hook_run invoke h k = Some (Inl (if h < length (runners k)
     then ''rash hook run() escaped its command lifecycle'' else ''attempt to call a nil value''), k)"
  using assms by (auto simp: kept_hook_run_def context_of_def retained_only_def)

lemma retained_callback:
  assumes "kports_keep meter cb" and "retained_only k"
  shows "\<exists>out k'. run_kcallback (kept_hook_run invoke) cb k = Some (out, k') \<and> retained_only k' \<and>
     runners k' = runners k \<and> meter (world (core (hs k'))) = meter (world (core (hs k)))"
proof -
  let ?P = "\<lambda>k'. retained_only k' \<and> runners k' = runners k \<and> meter (world (core (hs k'))) = meter (world (core (hs k)))"
  have "\<exists>out k'. run_kcallback (kept_hook_run invoke) cb k = Some (out, k') \<and> ?P k'"
    by (rule run_kcallback_keeps [where P = ?P and meter = meter, OF _ _ _ assms(1)])
      (use assms(2) in \<open>auto simp: retained_run retained_only_def\<close>)
  then show ?thesis .
qed

lemma retained_inner:
  assumes "inner_metered meter inner" and k: "retained_only k"
  shows "\<exists>r k'. kept_inner (run_kcallback (kept_hook_run invoke)) inner k = Some (r, k') \<and> retained_only k' \<and>
     runners k' = runners k \<and> meter (world (core (hs k'))) \<le> Suc (meter (world (core (hs k))))"
proof -
  obtain out k1 where b: "run_kcallback (kept_hook_run invoke) (stages_before inner) k = Some (out, k1)"
      and k1: "retained_only k1" "runners k1 = runners k" "meter (world (core (hs k1))) = meter (world (core (hs k)))"
    using retained_callback [OF _ k] assms(1) unfolding inner_metered_def by blast
  obtain r c where a: "act inner out (core (hs k1)) = (r, c)" by fastforce
  have m: "meter (world c) \<le> Suc (meter (world (core (hs k1))))"
    using assms(1) a by (metis inner_metered_def snd_conv)
  have "retained_only (upd_hs (\<lambda>s. s\<lparr>core := c\<rparr>) k1)" using k1(1) by (simp add: retained_only_def)
  then obtain out' k2 where "run_kcallback (kept_hook_run invoke) (stages_after inner) (upd_hs (\<lambda>s. s\<lparr>core := c\<rparr>) k1) = Some (out', k2)"
      "retained_only k2" "runners k2 = runners k1" "meter (world (core (hs k2))) = meter (world c)"
    using retained_callback [of meter "stages_after inner" "upd_hs (\<lambda>s. s\<lparr>core := c\<rparr>) k1" invoke] assms(1)
    by (auto simp: inner_metered_def)
  with a b m k1 show ?thesis by (simp add: kept_inner_def)
qed

text \<open>One command, from a state between two commands.\<close>

lemma kept_execution:
  assumes "inner_metered meter inner" and "khooks_keep meter hooks" and "retained_only k"
    and "2 ^ Suc (length hooks) \<le> fuel"
  shows "\<exists>r k'. kept_hooks_execute fuel reload_enabled inner hooks cmd k = Some (r, k') \<and>
     meter (world (core (hs k'))) \<le> Suc (meter (world (core (hs k)))) \<and> retained_only k'"
proof (cases "rash_hook_is_reload_builtin_command reload_enabled (Some cmd)")
  case True
  then show ?thesis using retained_inner [OF assms(1,3)] by (simp add: kept_hooks_execute_def) blast
next
  case False
  let ?k1 = "upd_hs (\<lambda>s. s\<lparr>ctx := new_hook_context\<rparr>) k"
  have "closures_ok ?k1" and "potential (length hooks) ?k1 = 0"
    using assms(3) by (auto simp: closures_ok_def retained_only_def potential_def)
  moreover have "weight (length hooks) 1 \<le> fuel" using assms(4) by (simp add: weight_def)
  ultimately obtain r k' where "kept_invoke_hook fuel inner cmd hooks 1 ?k1 = Some (r, k')" and l: "leads meter ?k1 k'"
    using invoke_within [OF assms(1,2), of 1 ?k1 fuel cmd] by auto
  moreover from l have "meter (world (core (hs k'))) \<le> Suc (meter (world (core (hs k))))"
    by (cases "hc_executed (ctx (hs k'))") (simp_all add: leads_def quiet_def new_hook_context_def)
  moreover from l have "retained_only (end_context k')"
    by (auto simp: end_context_def Let_def retained_only_def leads_def closures_ok_def less_Suc_eq_le)
  ultimately show ?thesis using False by (simp add: kept_hooks_execute_def end_context_def Let_def)
qed


text \<open>Over a whole session, no command acts more than once.\<close>

lemma kept_session_acts:
  assumes "\<forall>(inner, hooks, cmd)\<in>set cs. inner_metered meter inner \<and> khooks_keep meter hooks \<and> 2 ^ Suc (length hooks) \<le> fuel"
    and "retained_only k"
  shows "\<exists>k'. kept_session fuel reload_enabled cs k = Some k' \<and> retained_only k' \<and>
     meter (world (core (hs k'))) \<le> meter (world (core (hs k))) + length cs"
  using assms
proof (induction cs arbitrary: k)
  case (Cons c cs)
  obtain inner hooks cmd where c: "c = (inner, hooks, cmd)" by (cases c)
  with Cons.prems(1) have "inner_metered meter inner" "khooks_keep meter hooks" "2 ^ Suc (length hooks) \<le> fuel"
    by simp_all
  from kept_execution [OF this(1,2) Cons.prems(2) this(3), of reload_enabled cmd]
  obtain r k1 where k1: "kept_hooks_execute fuel reload_enabled inner hooks cmd k = Some (r, k1)" "retained_only k1"
      "meter (world (core (hs k1))) \<le> Suc (meter (world (core (hs k))))"
    by blast
  from Cons.IH [OF _ k1(2)] Cons.prems(1)
  obtain k' where "kept_session fuel reload_enabled cs k1 = Some k'" "retained_only k'"
      "meter (world (core (hs k'))) \<le> meter (world (core (hs k1))) + length cs"
    by auto
  with c k1 show ?case by simp
qed simp

section \<open>Hooks that call only their own closure\<close>

text \<open>The callbacks of \<open>Hook_Lifecycle\<close> as scripts that know only their own handle.\<close>

primrec own_runs :: "nat \<Rightarrow> 'w callback \<Rightarrow> 'w kcallback" where
  "own_runs h (CReturn v) = KReturn v"
| "own_runs h (CError e) = KError e"
| "own_runs h (CDeny reason c) = KDeny reason (\<lambda>r. own_runs h (c r))"
| "own_runs h (CRun c) = KRun h (\<lambda>r. own_runs h (c r))"
| "own_runs h (CWarn m c) = KWarn m (\<lambda>r. own_runs h (c r))"
| "own_runs h (CPort f c) = KPort f (\<lambda>r. own_runs h (c r))"
| "own_runs h (CInstall a f c) = KInstall a f (\<lambda>r. own_runs h (c r))"

definition own_hook :: "'w hook \<Rightarrow> 'w khook" where
  "own_hook h = ((\<lambda>cmd own. own_runs own (fst h cmd)), snd h)"

definition plain_inner :: "'w executor \<Rightarrow> 'w inner" where
  "plain_inner exec = \<lparr>stages_before = KReturn LNil, act = (\<lambda>_. exec), stages_after = KReturn LNil\<rparr>"

lemma own_hook_sel [simp]: "fst (own_hook h) cmd own = own_runs own (fst h cmd)" "snd (own_hook h) = snd h"
  by (simp_all add: own_hook_def)

text \<open>The closures there were stay as they were.\<close>

definition extends :: "'w kept \<Rightarrow> 'w kept \<Rightarrow> bool" where
  "extends k k' \<longleftrightarrow> ended k' = ended k \<and> (\<exists>new. runners k' = runners k @ new)"

lemma extends_refl: "runners k' = runners k \<Longrightarrow> ended k' = ended k \<Longrightarrow> extends k k'"
  by (simp add: extends_def)

lemma extends_trans: "extends k k' \<Longrightarrow> extends k' k'' \<Longrightarrow> extends k k''"
  by (auto simp: extends_def)

text \<open>The state of the script that owns the last of \<open>Suc (length old)\<close> closures.\<close>

definition owning :: "krunner list \<Rightarrow> hook_context list \<Rightarrow> nat \<Rightarrow> bool \<Rightarrow> 'w kept \<Rightarrow> bool" where
  "owning old e index called k \<longleftrightarrow> ended k = e \<and>
     (\<exists>new. runners k = old @ \<lparr>kr_context = length e, kr_next_hook = index, kr_called = called\<rparr> # new)"

lemma own_callback:
  assumes inv: "\<And>k. \<exists>k'. invoke index k = Some (fst (rest (hs k)), k') \<and> hs k' = snd (rest (hs k)) \<and> extends k k'"
  shows "owning old e index called k \<Longrightarrow> run_callback (rash_hook_run rest) cb called (hs k) = (out, called', s) \<Longrightarrow>
     \<exists>k'. run_kcallback (kept_hook_run invoke) (own_runs (length old) cb) k = Some (out, k') \<and> hs k' = s \<and>
       owning old e index called' k'"
proof (induction cb arbitrary: called k rule: callback_tree_induct)
  case (CDeny reason c)
  obtain r s1 where "rash_lua_deny reason (hs k) = (r, s1)" by fastforce
  with CDeny.IH [of called "k\<lparr>hs := s1\<rparr>" r] CDeny.prems show ?case by (simp add: owning_def)
next
  case (CRun c)
  obtain new where k: "runners k = old @ \<lparr>kr_context = length e, kr_next_hook = index, kr_called = called\<rparr> # new" "ended k = e"
    using CRun.prems(1) by (auto simp: owning_def)
  have c: "context_of k (length e) = ctx (hs k)" using k by (simp add: context_of_def)
  show ?case
  proof (cases "hc_active (ctx (hs k)) \<and> \<not> called")
    case False
    with CRun k c show ?thesis by (auto simp: rash_hook_run_def kept_hook_run_def nth_append)
  next
    case True
    let ?k1 = "k\<lparr>runners := old @ \<lparr>kr_context = length e, kr_next_hook = index, kr_called = True\<rparr> # new\<rparr>"
    obtain k2 where k2: "invoke index ?k1 = Some (fst (rest (hs k)), k2)" "hs k2 = snd (rest (hs k))" "extends ?k1 k2"
      using inv [of ?k1] by auto
    then have "owning old e index True k2" using k by (auto simp: owning_def extends_def)
    from CRun.IH [OF this, of "Inr [lua_int (fst (rest (hs k)))]"] CRun.prems(2) True k c k2(1,2)
    show ?thesis
      by (auto simp: rash_hook_run_def kept_hook_run_def nth_append split: prod.splits)
  qed
next
  case (CWarn m c)
  with CWarn.IH [of called "upd_hs (upd_core (rash_advisory_message m)) k" "Inr []"] show ?case by (simp add: owning_def)
next
  case (CPort f c)
  obtain r w where "f (world (core (hs k))) = (r, w)" by fastforce
  with CPort.IH [of called "upd_hs (upd_core (\<lambda>c. c\<lparr>world := w\<rparr>)) k" r] CPort.prems show ?case by (simp add: owning_def)
next
  case (CInstall a f c)
  obtain r s1 where "rash_lua_exec_with_stdin a f (hs k) = (r, s1)" by fastforce
  with CInstall.IH [of called "k\<lparr>hs := s1\<rparr>" r] CInstall.prems show ?case by (simp add: owning_def)
qed simp_all

lemma own_invoke:
  "Suc (length hooks) - index < fuel \<Longrightarrow> index > 0 \<Longrightarrow>
   \<exists>k'. kept_invoke_hook fuel (plain_inner exec) cmd (map own_hook hooks) index k =
       Some (fst (rash_invoke_hook exec cmd (drop (index - 1) hooks) (hs k)), k') \<and>
     hs k' = snd (rash_invoke_hook exec cmd (drop (index - 1) hooks) (hs k)) \<and> extends k k'"
proof (induction fuel arbitrary: index k)
  case (Suc fuel)
  let ?old = "rash_invoke_hook exec cmd (drop (index - 1) hooks)"
  show ?case
  proof (cases "hc_denied (ctx (hs k))")
    case True
    then show ?thesis by (simp add: invoke_denied extends_refl)
  next
    case alive: False
    show ?thesis
    proof (cases "index > length hooks")
      case True
      with alive show ?thesis
        by (auto simp: kept_execute_original_def kept_inner_def plain_inner_def rash_execute_original_def extends_refl
            split: prod.splits)
    next
      case False
      define h where "h = hooks ! (index - 1)"
      let ?rest = "rash_invoke_hook exec cmd (drop index hooks)"
      have d: "drop (index - 1) hooks = h # drop index hooks"
        using False Suc.prems(2) Cons_nth_drop_Suc [of "index - 1" hooks] by (simp add: h_def)
      have n: "map own_hook hooks ! (index - 1) = own_hook h" using False Suc.prems(2) by (simp add: h_def)
      have IH: "\<exists>k'. kept_invoke_hook fuel (plain_inner exec) cmd (map own_hook hooks) (index + 1) k = Some (fst (?rest (hs k)), k') \<and>
          hs k' = snd (?rest (hs k)) \<and> extends k k'" for k
        using Suc.IH [of "index + 1" k] Suc.prems(1) False by simp
      let ?k1 = "upd_hs (enter_hook (snd h)) (k\<lparr>runners := runners k @ [new_runner (length (ended k)) (index + 1)]\<rparr>)"
      obtain out called s1 where o: "run_callback (rash_hook_run ?rest) (fst h cmd) False (enter_hook (snd h) (hs k)) = (out, called, s1)"
        by (cases "run_callback (rash_hook_run ?rest) (fst h cmd) False (enter_hook (snd h) (hs k))")
      have own: "owning (runners k) (ended k) (index + 1) False ?k1" by (simp add: owning_def new_runner_def)
      from own_callback [where rest = ?rest and index = "index + 1"
          and invoke = "kept_invoke_hook fuel (plain_inner exec) cmd (map own_hook hooks)", OF IH own, of "fst h cmd" out called s1] o
      obtain k2 where
          k2: "run_kcallback (kept_hook_run (kept_invoke_hook fuel (plain_inner exec) cmd (map own_hook hooks)))
            (own_runs (length (runners k)) (fst h cmd)) ?k1 = Some (out, k2)"
          "hs k2 = s1" "owning (runners k) (ended k) (index + 1) called k2"
        by auto
      let ?k3 = "upd_hs (\<lambda>s. leave_hook (hook_outcome (snd h) out s)) k2"
      have e3: "extends k ?k3" using k2(3) by (auto simp: extends_def owning_def)
      show ?thesis
      proof (cases "hc_denied (ctx (hs ?k3)) \<or> hc_executed (ctx (hs ?k3))")
        case True
        with alive False n d k2 o e3 show ?thesis by (auto simp: Let_def)
      next
        case again: False
        obtain k4 where "kept_invoke_hook fuel (plain_inner exec) cmd (map own_hook hooks) (index + 1) ?k3 = Some (fst (?rest (hs ?k3)), k4)"
            "hs k4 = snd (?rest (hs ?k3))" "extends ?k3 k4"
          using IH [of ?k3] by blast
        with again alive False n d k2 o extends_trans [OF e3] show ?thesis by (auto simp: Let_def)
      qed
    qed
  qed
qed simp

text \<open>For such hooks the two models of the chain agree.\<close>

theorem kept_agrees_with_own:
  "\<exists>k'. kept_hooks_execute (Suc (Suc (length hooks))) reload_enabled (plain_inner exec) (map own_hook hooks) cmd k =
      Some (fst (rash_hooks_execute reload_enabled exec hooks cmd (hs k)), k') \<and>
     hs k' = snd (rash_hooks_execute reload_enabled exec hooks cmd (hs k))"
proof (cases "rash_hook_is_reload_builtin_command reload_enabled (Some cmd)")
  case True
  then show ?thesis
    by (auto simp: kept_hooks_execute_def rash_hooks_execute_def kept_inner_def plain_inner_def split: prod.splits)
next
  case False
  then show ?thesis
    using own_invoke [of hooks 1 "Suc (Suc (length hooks))" exec cmd "upd_hs (\<lambda>s. s\<lparr>ctx := new_hook_context\<rparr>) k"]
    by (auto simp: kept_hooks_execute_def rash_hooks_execute_def end_context_def Let_def simp del: kept_invoke_hook.simps split: prod.splits)
qed

section \<open>A kept closure\<close>

text \<open>The first hook keeps its closure and does nothing with it. The second calls its own, and
  then the kept one, and the stage hooks inside the command call the kept one too. The kept
  closure invokes the second hook once more, whose own closure then finds the command executed.\<close>

definition keeping_hook :: "command \<Rightarrow> nat \<Rightarrow> nat kcallback" where
  "keeping_hook cmd own = KReturn LNil"

definition reusing_hook :: "command \<Rightarrow> nat \<Rightarrow> nat kcallback" where
  "reusing_hook cmd own = KRun own (\<lambda>_. KRun 0 (\<lambda>_. KReturn LNil))"

definition demo_inner :: "nat inner" where
  "demo_inner = \<lparr>stages_before = KRun 0 (\<lambda>_. KReturn LNil), act = \<lambda>_ c. (7, c\<lparr>world := Suc (world c)\<rparr>), stages_after = KReturn LNil\<rparr>"

definition demo_kept :: "nat kept" where
  "demo_kept = \<lparr>hs = init_hstate 0, runners = [], ended = []\<rparr>"

lemma demo_reuse:
  "map_option (\<lambda>(r, k). (r, world (core (hs k)), length (runners k)))
     (kept_hooks_execute 8 True demo_inner [(keeping_hook, False), (reusing_hook, False)] demo_command demo_kept) = Some (7, 1, 3)"
  by code_simp

lemma demo_inner_metered: "inner_metered id demo_inner" "khooks_keep id [(keeping_hook, False), (reusing_hook, True)]"
  by (simp_all add: inner_metered_def demo_inner_def khooks_keep_def keeping_hook_def reusing_hook_def)


end
