(* ===== verification/Hook_Load.thy ===== *)
theory Hook_Load
  imports Hook_Stages "HOL-Library.List_Lexorder"
begin

text \<open>
  Loading and reloading of hook files (hooks.c): the static tables with their counts and
  enforcing bits, registration, the trust decision of each file, the manifest that detects
  edits, and the replacement of a configuration. The file system is a record of maps; running a
  chunk of Lua is a parameter that lists the registrations the chunk makes.
\<close>

section \<open>The static state\<close>

datatype hook_kind =
    K_hook | K_before | K_after | K_redirect | K_clobber | K_download_pipe | K_before_pipeline
  | K_on_builtin | K_on_function | K_on_exec | K_stdio_bundle
  | K_rack | K_dispatch | K_expand_hook | K_redirect_policy

datatype hook_arg = Arg_command command | Arg_event hook_event

type_synonym 'w hook_fun = "hook_arg \<Rightarrow> 'w callback"

text \<open>A registered function list per kind is the content of a Lua state's tables; the count and
  the bits are C variables. A table reference is valid (the same number in every state, since
  the references are made in a fixed order) or LUA_NOREF.\<close>

type_synonym 'w lua_tables = "hook_kind \<Rightarrow> 'w hook_fun list"

record file_stat =
  st_dev :: nat
  st_ino :: nat
  st_mode :: "32 word"
  st_uid :: nat
  st_size :: int
  st_mtime :: "int \<times> int"

type_synonym hook_file = "cstring option \<times> file_stat"

record hook_manifest =
  m_present :: bool
  m_directory :: hook_file
  m_files :: "hook_file list"

record 'w statics =
  lua :: "'w lua_tables option"
  table_ref :: "hook_kind \<Rightarrow> bool"
  count :: "hook_kind \<Rightarrow> nat"
  enforcing_bits :: "hook_kind \<Rightarrow> bool list"
  loading_file_enforcing :: bool
  state_flag :: int
  hook_directory :: "cstring option"
  hook_allow_unowned :: bool
  hook_enforce_unowned :: bool
  manifest :: hook_manifest
  warnings :: "(cstring \<times> cstring) list"

definition warn_static :: "cstring \<Rightarrow> cstring \<Rightarrow> 'w statics \<Rightarrow> 'w statics" where
  "warn_static prefix path s = s\<lparr>warnings := warnings s @ [(prefix, path)]\<rparr>"

text \<open>The hooks a loop \<open>for (i = 1; i <= count; i++)\<close> runs, with their bits. A missing table entry
  would be a call of nil; the registrations keep table, count and bits in step.\<close>

definition consulted :: "'w statics \<Rightarrow> hook_kind \<Rightarrow> ('w hook_fun \<times> bool) list" where
  "consulted s k =
     (case lua s of
        None \<Rightarrow> []
      | Some tables \<Rightarrow> if table_ref s k then zip (take (count s k) (tables k)) (enforcing_bits s k) else [])"

definition event_hooks :: "('w hook_fun \<times> bool) list \<Rightarrow> 'w stage_hook list" where
  "event_hooks hs = map (\<lambda>(f, b). (\<lambda>ev. f (Arg_event ev), b)) hs"

definition command_hooks :: "('w hook_fun \<times> bool) list \<Rightarrow> 'w hook list" where
  "command_hooks hs = map (\<lambda>(f, b). (\<lambda>cmd. f (Arg_command cmd), b)) hs"

text \<open>The configuration that the sensors and the lifecycle see.\<close>

definition config_of :: "bool \<Rightarrow> 'w statics \<Rightarrow> 'w hook_config" where
  "config_of trap s =
     \<lparr>hook_state = state_flag s, rash_lua = (lua s \<noteq> None), running_trap = trap,
      hook_table = command_hooks (consulted s K_hook), rack_table = command_hooks (consulted s K_rack),
      before_table = event_hooks (consulted s K_before), after_table = event_hooks (consulted s K_after),
      redirect_table = event_hooks (consulted s K_redirect), clobber_table = event_hooks (consulted s K_clobber),
      download_pipe_table = event_hooks (consulted s K_download_pipe),
      before_pipeline_table = event_hooks (consulted s K_before_pipeline),
      on_builtin_table = event_hooks (consulted s K_on_builtin),
      on_function_table = event_hooks (consulted s K_on_function),
      on_exec_table = event_hooks (consulted s K_on_exec),
      stdio_bundle_table = event_hooks (consulted s K_stdio_bundle),
      dispatch_table = event_hooks (consulted s K_dispatch),
      expand_hook_table = event_hooks (consulted s K_expand_hook),
      redirect_policy_table = event_hooks (consulted s K_redirect_policy)\<rparr>"

section \<open>Registration\<close>

definition rash_register_callback :: "hook_kind \<Rightarrow> 'w hook_fun \<Rightarrow> 'w statics \<Rightarrow> 'w statics" where
  "rash_register_callback k f s =
     (case lua s of
        None \<Rightarrow> s
      | Some tables \<Rightarrow>
          s\<lparr>lua := Some (tables(k := tables k @ [f])),
            enforcing_bits := (enforcing_bits s)(k := take (count s k) (enforcing_bits s k) @ [loading_file_enforcing s]),
            count := (count s)(k := count s k + 1)\<rparr>)"

text \<open>\<open>rash_lua_ready\<close>: a fresh state with empty tables; it clears only four of the counts
  itself. \<open>alloc\<close> is whether the state can be allocated.\<close>

definition rash_lua_ready :: "bool \<Rightarrow> 'w statics \<Rightarrow> bool \<times> 'w statics" where
  "rash_lua_ready alloc s =
     (if \<not> alloc then (False, warn_static ''cannot allocate LuaJIT state; hooks are disabled'' [] s)
      else (True, s\<lparr>lua := Some (\<lambda>_. []), table_ref := (\<lambda>_. True),
              count := (count s)(K_rack := 0, K_dispatch := 0, K_expand_hook := 0, K_redirect_policy := 0)\<rparr>))"

section \<open>Files and manifests\<close>

definition rash_hook_file_set :: "cstring option \<Rightarrow> file_stat \<Rightarrow> hook_file" where
  "rash_hook_file_set name st = (name, st)"

definition rash_hook_file_matches :: "hook_file \<Rightarrow> file_stat \<Rightarrow> bool" where
  "rash_hook_file_matches file st \<longleftrightarrow>
     (let f = snd file in
      st_dev f = st_dev st \<and> st_ino f = st_ino st \<and> st_mode f = st_mode st \<and> st_uid f = st_uid st \<and>
      st_size f = st_size st \<and> fst (st_mtime f) = fst (st_mtime st) \<and> snd (st_mtime f) = snd (st_mtime st))"

text \<open>The system calls: \<open>stat\<close>, \<open>lstat\<close>, the names of a directory in the order of
  \<open>readdir\<close>, and opening a file without following a link (its \<open>fstat\<close> and what reading it
  gives).\<close>

record filesystem =
  fs_stat :: "cstring \<Rightarrow> file_stat option"
  fs_lstat :: "cstring \<Rightarrow> file_stat option"
  fs_dir :: "cstring \<Rightarrow> cstring list option"
  fs_open :: "cstring \<Rightarrow> (file_stat option \<times> cstring option) option"

definition rash_lua_name :: "cstring \<Rightarrow> bool" where
  "rash_lua_name name \<longleftrightarrow> length name > 4 \<and> drop (length name - 4) name = ''.lua''"

definition file_path :: "cstring \<Rightarrow> cstring \<Rightarrow> cstring" where
  "file_path directory name = directory @ CHR ''/'' # name"

text \<open>The sorted hook names of a directory; \<open>strcmp\<close> orders as the lexicographic order on
  bytes does.\<close>

definition hook_names :: "cstring list \<Rightarrow> cstring list" where
  "hook_names entries = sort (filter rash_lua_name entries)"

fun collect_files :: "filesystem \<Rightarrow> cstring \<Rightarrow> cstring list \<Rightarrow> hook_file list option" where
  "collect_files fs directory [] = Some []"
| "collect_files fs directory (n # ns) =
     (case fs_lstat fs (file_path directory n) of
        None \<Rightarrow> None
      | Some st \<Rightarrow> map_option ((#) (rash_hook_file_set (Some n) st)) (collect_files fs directory ns))"

definition rash_hook_manifest_collect :: "filesystem \<Rightarrow> cstring \<Rightarrow> hook_manifest option" where
  "rash_hook_manifest_collect fs directory =
     (case fs_stat fs directory of
        None \<Rightarrow> None
      | Some st \<Rightarrow>
          (case fs_dir fs directory of
             None \<Rightarrow> None
           | Some entries \<Rightarrow>
               (case collect_files fs directory (hook_names entries) of
                  None \<Rightarrow> None
                | Some files \<Rightarrow> Some \<lparr>m_present = True, m_directory = rash_hook_file_set None st, m_files = files\<rparr>)))"

definition manifest_file_matches :: "filesystem \<Rightarrow> cstring \<Rightarrow> hook_file \<Rightarrow> bool" where
  "manifest_file_matches fs directory f \<longleftrightarrow>
     (case fst f of
        None \<Rightarrow> False
      | Some n \<Rightarrow>
          (case fs_lstat fs (file_path directory n) of
             None \<Rightarrow> False
           | Some st \<Rightarrow> rash_hook_file_matches f st))"

definition rash_hook_manifest_matches :: "filesystem \<Rightarrow> hook_manifest \<Rightarrow> cstring \<Rightarrow> bool" where
  "rash_hook_manifest_matches fs m directory \<longleftrightarrow>
     (if \<not> m_present m then False
      else
        (case fs_stat fs directory of
           None \<Rightarrow> False
         | Some st \<Rightarrow>
             rash_hook_file_matches (m_directory m) st \<and> list_all (manifest_file_matches fs directory) (m_files m)))"

section \<open>Loading one file\<close>

definition RASH_HOOK_MAX_BYTES :: int where "RASH_HOOK_MAX_BYTES = 1024 * 1024"

definition S_ISREG :: "32 word \<Rightarrow> bool" where
  "S_ISREG m \<longleftrightarrow> m AND 0xF000 = 0x8000"

text \<open>\<open>S_IWGRP | S_IWOTH\<close>.\<close>

definition S_WRITABLE_BY_OTHERS :: "32 word" where "S_WRITABLE_BY_OTHERS = 0x12"

definition hook_trusted :: "file_stat \<Rightarrow> bool" where
  "hook_trusted st \<longleftrightarrow> st_uid st = 0 \<and> st_mode st AND S_WRITABLE_BY_OTHERS = 0"

text \<open>A chunk's registrations in order, and whether it compiled and ran to its end.\<close>

type_synonym 'w chunk_runner = "cstring \<Rightarrow> cstring \<Rightarrow> (hook_kind \<times> 'w hook_fun) list \<times> bool"

definition rash_load_hook ::
  "filesystem \<Rightarrow> 'w chunk_runner \<Rightarrow> cstring \<Rightarrow> bool \<Rightarrow> 'w statics \<Rightarrow> bool \<times> 'w statics" where
  "rash_load_hook fs run path allow_unowned s =
     (case fs_open fs path of
        None \<Rightarrow> (False, warn_static ''cannot open hook '' path s)
      | Some (fst_opt, content) \<Rightarrow>
          (case fst_opt of
             None \<Rightarrow> (False, warn_static ''refusing non-regular hook '' path s)
           | Some st \<Rightarrow>
               if \<not> S_ISREG (st_mode st) then (False, warn_static ''refusing non-regular hook '' path s)
               else if st_size st < 0 \<or> st_size st > RASH_HOOK_MAX_BYTES then
                 (False, warn_static ''refusing oversized hook '' path s)
               else if \<not> hook_trusted st \<and> \<not> allow_unowned then
                 (False, warn_static ''refusing unowned hook; set RASH_ALLOW_UNOWNED_HOOKS=1 to load mutable advisory code: '' path s)
               else
                 (let s1 = (if hook_trusted st then s else
                        warn_static ''WARNING: RASH_ALLOW_UNOWNED_HOOKS=1 loads mutable hook as advisory code: '' path s);
                      s2 = s1\<lparr>loading_file_enforcing := hook_trusted st \<or> \<not> hook_trusted st \<and> hook_enforce_unowned s1\<rparr>;
                      s3 = (if \<not> hook_trusted st \<and> hook_enforce_unowned s2 then
                        warn_static ''WARNING: RASH_HOOK_ENFORCE_UNOWNED=1 treats unowned hooks as enforcing (test/dev only): '' path s2
                        else s2)
                  in case content of
                       None \<Rightarrow> (False, warn_static ''cannot read hook '' path s3)
                     | Some source \<Rightarrow>
                         (case run source path of
                            (regs, ok) \<Rightarrow>
                              let s4 = (fold (\<lambda>(k, f). rash_register_callback k f) regs s3)\<lparr>loading_file_enforcing := False\<rparr>
                              in if ok then (True, s4) else (False, warn_static ''cannot load hook '' path s4)))))"

fun load_hook_files ::
  "filesystem \<Rightarrow> 'w chunk_runner \<Rightarrow> cstring \<Rightarrow> bool \<Rightarrow> cstring list \<Rightarrow> bool \<Rightarrow> 'w statics \<Rightarrow> bool \<times> 'w statics" where
  "load_hook_files fs run directory allow [] result s = (result, s)"
| "load_hook_files fs run directory allow (n # ns) result s =
     (case rash_load_hook fs run (file_path directory n) allow s of
        (ok, s') \<Rightarrow> load_hook_files fs run directory allow ns (if ok then result else False) s')"

definition rash_load_hooks ::
  "filesystem \<Rightarrow> 'w chunk_runner \<Rightarrow> cstring \<Rightarrow> bool \<Rightarrow> 'w statics \<Rightarrow> bool \<times> 'w statics" where
  "rash_load_hooks fs run directory allow_unowned s =
     (case fs_dir fs directory of
        None \<Rightarrow> (False, warn_static ''cannot open hook directory '' directory s)
      | Some entries \<Rightarrow> load_hook_files fs run directory allow_unowned (hook_names entries) True s)"

section \<open>Loading a configuration\<close>

text \<open>The kinds whose table, count and bits are put back when a reload fails.\<close>

definition saved_kinds :: "hook_kind set" where
  "saved_kinds = {K_hook, K_before, K_after, K_redirect, K_clobber, K_download_pipe, K_before_pipeline,
     K_on_builtin, K_on_function, K_on_exec, K_stdio_bundle}"

definition any_observers :: "'w statics \<Rightarrow> bool" where
  "any_observers s \<longleftrightarrow> (\<exists>k\<in>saved_kinds \<union> {K_redirect_policy}. count s k > 0)"

definition clear_statics :: "bool \<Rightarrow> 'w statics \<Rightarrow> 'w statics" where
  "clear_statics enforce s =
     s\<lparr>lua := None, table_ref := (\<lambda>_. False), count := (\<lambda>_. 0), enforcing_bits := (\<lambda>_. []),
       hook_enforce_unowned := enforce\<rparr>"

definition rash_hook_save_configuration :: "cstring \<Rightarrow> bool \<Rightarrow> bool \<Rightarrow> 'w statics \<Rightarrow> 'w statics" where
  "rash_hook_save_configuration directory allow_unowned enforce_unowned s =
     s\<lparr>hook_directory := Some directory, hook_allow_unowned := allow_unowned, hook_enforce_unowned := enforce_unowned\<rparr>"

text \<open>\<open>previous\<close> is the state before the reload.\<close>

definition restore_statics :: "'w statics \<Rightarrow> 'w statics \<Rightarrow> 'w statics" where
  "restore_statics previous s =
     s\<lparr>lua := lua previous,
       table_ref := (\<lambda>k. if k \<in> saved_kinds then table_ref previous k else table_ref s k),
       count := (\<lambda>k. if k \<in> saved_kinds then count previous k else count s k),
       enforcing_bits := (\<lambda>k. if k \<in> saved_kinds then enforcing_bits previous k else enforcing_bits s k),
       state_flag := (if lua previous \<noteq> None then state_flag previous else - 1)\<rparr>"

definition rash_hooks_load_configuration ::
  "filesystem \<Rightarrow> 'w chunk_runner \<Rightarrow> bool \<Rightarrow> cstring \<Rightarrow> bool \<Rightarrow> bool \<Rightarrow> 'w statics \<Rightarrow> bool \<times> 'w statics" where
  "rash_hooks_load_configuration fs run alloc directory allow_unowned enforce_unowned s =
     (case rash_lua_ready alloc (clear_statics enforce_unowned s) of
        (ready, s1) \<Rightarrow>
          (case (if ready then rash_load_hooks fs run directory allow_unowned s1 else (False, s1)) of
             (loaded, s2) \<Rightarrow>
               (case rash_hook_manifest_collect fs directory of
                  None \<Rightarrow>
                    (False, rash_hook_save_configuration directory allow_unowned enforce_unowned
                       (restore_statics s (warn_static ''cannot snapshot hook directory '' directory s2)))
                | Some m \<Rightarrow>
                    if loaded then
                      (True, (rash_hook_save_configuration directory allow_unowned enforce_unowned
                         (s2\<lparr>state_flag := (if any_observers s2 then 1 else - 1)\<rparr>))\<lparr>manifest := m\<rparr>)
                    else
                      (False, (rash_hook_save_configuration directory allow_unowned enforce_unowned
                         (restore_statics s s2))\<lparr>manifest := m\<rparr>))))"

text \<open>The environment of \<open>rash_hooks_initialize\<close>: RASH_HOOK_DIR, RASH_ALLOW_UNOWNED_HOOKS,
  RASH_HOOK_ENFORCE_UNOWNED and RASH_HOOK_RELOAD.\<close>

record hook_env =
  env_dir :: "cstring option"
  env_allow :: "cstring option"
  env_enforce :: "cstring option"
  env_reload :: "cstring option"

definition rash_hook_reload_mode_enabled :: "hook_env \<Rightarrow> bool" where
  "rash_hook_reload_mode_enabled env \<longleftrightarrow> env_reload env = Some ''mtime''"

definition rash_hooks_initialize ::
  "filesystem \<Rightarrow> 'w chunk_runner \<Rightarrow> bool \<Rightarrow> hook_env \<Rightarrow> bool \<Rightarrow> 'w statics \<Rightarrow> bool \<times> 'w statics" where
  "rash_hooks_initialize fs run alloc env force s =
     (case env_dir env of
        None \<Rightarrow> (False, if force then warn_static ''cannot reload hooks because RASH_HOOK_DIR is not set'' [] s else s)
      | Some directory \<Rightarrow>
          if directory = [] then
            (False, if force then warn_static ''cannot reload hooks because RASH_HOOK_DIR is not set'' [] s else s)
          else
            (let allow_unowned = (env_allow env = Some ''1'');
                 enforce_unowned = (env_enforce env = Some ''1'');
                 same_configuration = (hook_directory s = Some directory \<and>
                   hook_allow_unowned s = allow_unowned \<and> hook_enforce_unowned s = enforce_unowned)
             in if \<not> force \<and> state_flag s = 1 \<and> \<not> rash_hook_reload_mode_enabled env then (True, s)
                else if \<not> force \<and> same_configuration \<and>
                   (\<not> rash_hook_reload_mode_enabled env \<or> rash_hook_manifest_matches fs (manifest s) directory) then (True, s)
                else rash_hooks_load_configuration fs run alloc directory allow_unowned enforce_unowned s))"

section \<open>Registrations are exact\<close>

text \<open>Table, count and bits of every kind in step.\<close>

definition in_step :: "'w statics \<Rightarrow> bool" where
  "in_step s \<longleftrightarrow> (\<exists>t. lua s = Some t \<and> (\<forall>k. table_ref s k \<and> length (t k) = count s k \<and> length (enforcing_bits s k) = count s k))"

lemma in_step_cong:
  "lua s' = lua s \<Longrightarrow> table_ref s' = table_ref s \<Longrightarrow> count s' = count s \<Longrightarrow> enforcing_bits s' = enforcing_bits s \<Longrightarrow>
     in_step s' = in_step s \<and> consulted s' = consulted s"
  by (auto simp: in_step_def consulted_def fun_eq_iff split: option.split)

lemma warn_static_step [simp]:
  "in_step (warn_static p m s) = in_step s" "consulted (warn_static p m s) = consulted s"
  "loading_file_enforcing (warn_static p m s) = loading_file_enforcing s"
  "hook_enforce_unowned (warn_static p m s) = hook_enforce_unowned s"
  using in_step_cong [of "warn_static p m s" s] by (simp_all add: warn_static_def)

lemma loading_step [simp]:
  "in_step (s\<lparr>loading_file_enforcing := b\<rparr>) = in_step s" "consulted (s\<lparr>loading_file_enforcing := b\<rparr>) = consulted s"
  using in_step_cong [of "s\<lparr>loading_file_enforcing := b\<rparr>" s] by simp_all

lemma register_step:
  assumes "in_step s"
  shows "in_step (rash_register_callback k f s) \<and>
     consulted (rash_register_callback k f s) k' =
       consulted s k' @ (if k' = k then [(f, loading_file_enforcing s)] else []) \<and>
     loading_file_enforcing (rash_register_callback k f s) = loading_file_enforcing s \<and>
     hook_enforce_unowned (rash_register_callback k f s) = hook_enforce_unowned s"
  using assms by (auto simp: in_step_def consulted_def rash_register_callback_def zip_append1 zip_append2)

lemma registers_step:
  assumes "in_step s"
  shows "in_step (fold (\<lambda>(k, f). rash_register_callback k f) regs s) \<and>
     consulted (fold (\<lambda>(k, f). rash_register_callback k f) regs s) k' =
       consulted s k' @ map (\<lambda>(k, f). (f, loading_file_enforcing s)) (filter (\<lambda>(k, f). k = k') regs) \<and>
     hook_enforce_unowned (fold (\<lambda>(k, f). rash_register_callback k f) regs s) = hook_enforce_unowned s"
  using assms
proof (induction regs arbitrary: s)
  case Nil
  then show ?case by simp
next
  case (Cons r regs)
  obtain k f where r: "r = (k, f)" by fastforce
  from Cons.IH [of "rash_register_callback k f s"] register_step [OF Cons.prems, of k f k'] show ?case
    by (auto simp: r)
qed

text \<open>What a file contributes to a kind: nothing unless it is opened, regular, of allowed size,
  trusted or allowed, readable and run to its end.\<close>

definition file_hooks ::
  "filesystem \<Rightarrow> 'w chunk_runner \<Rightarrow> cstring \<Rightarrow> bool \<Rightarrow> bool \<Rightarrow> hook_kind \<Rightarrow> ('w hook_fun \<times> bool) list" where
  "file_hooks fs run path allow_unowned enforce k =
     (case fs_open fs path of
        Some (Some st, Some source) \<Rightarrow>
          if S_ISREG (st_mode st) \<and> 0 \<le> st_size st \<and> st_size st \<le> RASH_HOOK_MAX_BYTES \<and>
             (hook_trusted st \<or> allow_unowned) \<and> snd (run source path)
          then map (\<lambda>(k, f). (f, hook_trusted st \<or> enforce)) (filter (\<lambda>(k', f). k' = k) (fst (run source path)))
          else []
      | _ \<Rightarrow> [])"

lemma load_hook_step:
  assumes "in_step s" and "rash_load_hook fs run path allow s = (ok, s')"
  shows "in_step s' \<and> hook_enforce_unowned s' = hook_enforce_unowned s \<and>
     (ok \<longrightarrow> consulted s' k = consulted s k @ file_hooks fs run path allow (hook_enforce_unowned s) k)"
proof -
  note [simp] = warn_static_step loading_step
  show ?thesis
  proof (cases "\<exists>st source. fs_open fs path = Some (Some st, Some source) \<and> S_ISREG (st_mode st) \<and>
      0 \<le> st_size st \<and> st_size st \<le> RASH_HOOK_MAX_BYTES \<and> (hook_trusted st \<or> allow)")
    case False
    then show ?thesis
      using assms by (auto simp: rash_load_hook_def Let_def split: option.splits if_splits)
  next
    case True
    then obtain st source where o: "fs_open fs path = Some (Some st, Some source)" "S_ISREG (st_mode st)"
      "0 \<le> st_size st" "st_size st \<le> RASH_HOOK_MAX_BYTES" "hook_trusted st \<or> allow" by blast
    obtain regs good where r: "run source path = (regs, good)" by fastforce
    define t where "t = (let s1 = (if hook_trusted st then s else
          warn_static ''WARNING: RASH_ALLOW_UNOWNED_HOOKS=1 loads mutable hook as advisory code: '' path s);
        s2 = s1\<lparr>loading_file_enforcing := hook_trusted st \<or> \<not> hook_trusted st \<and> hook_enforce_unowned s1\<rparr>
      in if \<not> hook_trusted st \<and> hook_enforce_unowned s2 then
           warn_static ''WARNING: RASH_HOOK_ENFORCE_UNOWNED=1 treats unowned hooks as enforcing (test/dev only): '' path s2
         else s2)"
    have t: "in_step t" "consulted t = consulted s" "hook_enforce_unowned t = hook_enforce_unowned s"
      "loading_file_enforcing t = (hook_trusted st \<or> hook_enforce_unowned s)"
      using assms(1) by (auto simp: t_def Let_def)
    let ?u = "(fold (\<lambda>(k, f). rash_register_callback k f) regs t)\<lparr>loading_file_enforcing := False\<rparr>"
    have "rash_load_hook fs run path allow s = (if good then (True, ?u) else (False, warn_static ''cannot load hook '' path ?u))"
      using o r by (cases "hook_trusted st") (simp_all add: rash_load_hook_def t_def Let_def)
    moreover have "file_hooks fs run path allow (hook_enforce_unowned s) k =
        (if good then map (\<lambda>(k, f). (f, loading_file_enforcing t)) (filter (\<lambda>(k', f). k' = k) regs) else [])"
      using o r t(4) by (auto simp: file_hooks_def)
    ultimately show ?thesis
      using registers_step [OF t(1), of regs k] t assms(2) by (auto split: if_splits)
  qed
qed

lemma load_files_step:
  assumes "in_step s" and "load_hook_files fs run directory allow ns result s = (ok, s')"
  shows "in_step s' \<and> hook_enforce_unowned s' = hook_enforce_unowned s \<and> (ok \<longrightarrow> result \<and>
     consulted s' k = consulted s k @
       concat (map (\<lambda>n. file_hooks fs run (file_path directory n) allow (hook_enforce_unowned s) k) ns))"
  using assms
proof (induction ns arbitrary: result s)
  case Nil
  then show ?case by simp
next
  case (Cons n ns)
  obtain ok1 s1 where l: "rash_load_hook fs run (file_path directory n) allow s = (ok1, s1)" by fastforce
  from load_hook_step [OF Cons.prems(1) l, of k] Cons.IH [of s1 "if ok1 then result else False"] Cons.prems(2) l
  show ?case by (auto split: if_splits)
qed

lemma ready_step:
  assumes "rash_lua_ready True (clear_statics enforce s) = (ready, s1)"
  shows "ready \<and> in_step s1 \<and> consulted s1 k = [] \<and> hook_enforce_unowned s1 = enforce"
  using assms by (auto simp: rash_lua_ready_def clear_statics_def in_step_def consulted_def)

section \<open>Properties\<close>

lemma load_registers:
  assumes "rash_hooks_load_configuration fs run alloc directory allow enforce s = (True, s')"
    and "fs_dir fs directory = Some entries"
  shows "consulted s' k = concat (map (\<lambda>n. file_hooks fs run (file_path directory n) allow enforce k) (hook_names entries))"
proof -
  obtain ready s1 where r: "rash_lua_ready alloc (clear_statics enforce s) = (ready, s1)" by fastforce
  with assms(1) have alloc: "alloc" "ready"
    by (auto simp: rash_hooks_load_configuration_def rash_lua_ready_def split: prod.splits option.splits if_splits)
  with r have s1: "in_step s1" "consulted s1 k = []" "hook_enforce_unowned s1 = enforce"
    using ready_step [of enforce s ready s1 k] by auto
  obtain loaded s2 where l: "rash_load_hooks fs run directory allow s1 = (loaded, s2)" by fastforce
  from assms(1) r l alloc obtain m where "loaded" and
      s': "s' = (rash_hook_save_configuration directory allow enforce (s2\<lparr>state_flag := (if any_observers s2 then 1 else - 1)\<rparr>))\<lparr>manifest := m\<rparr>"
    by (auto simp: rash_hooks_load_configuration_def split: option.splits if_splits)
  have "consulted s' k = consulted s2 k"
    using in_step_cong [of s' s2] by (simp add: s' rash_hook_save_configuration_def)
  moreover have "load_hook_files fs run directory allow (hook_names entries) True s1 = (True, s2)"
    using l assms(2) \<open>loaded\<close> by (simp add: rash_load_hooks_def)
  ultimately show ?thesis using load_files_step [of s1 fs run directory allow "hook_names entries" True True s2 k] s1 by simp
qed

text \<open>C25: A successful load registers exactly what the hook files register: the hooks of each kind
  are those of the directory's \<open>.lua\<close> files in the order of their names, each enforcing exactly
  when its file is trusted or RASH_HOOK_ENFORCE_UNOWNED asked for it.\<close>

theorem load_registers_exactly:
  assumes "rash_hooks_load_configuration fs run alloc directory allow enforce s = (True, s')"
    and "fs_dir fs directory = Some entries"
  shows "consulted s' k = concat (map (\<lambda>n. file_hooks fs run (file_path directory n) allow enforce k) (hook_names entries))"
  using assms by (rule load_registers)

lemma file_hooks_mem:
  assumes "(f, b) \<in> set (file_hooks fs run path allow enforce k)"
  shows "\<exists>st source. fs_open fs path = Some (Some st, Some source) \<and> S_ISREG (st_mode st) \<and>
     st_size st \<le> RASH_HOOK_MAX_BYTES \<and> b = (hook_trusted st \<or> enforce) \<and> (k, f) \<in> set (fst (run source path))"
proof -
  obtain st source where o: "fs_open fs path = Some (Some st, Some source)"
  proof (cases "fs_open fs path")
    case None
    with assms show ?thesis by (simp add: file_hooks_def)
  next
    case (Some p)
    obtain x y where "p = (x, y)" by fastforce
    with Some assms that show ?thesis by (cases x; cases y) (simp_all add: file_hooks_def)
  qed
  with assms show ?thesis by (auto simp: file_hooks_def split: if_splits)
qed

text \<open>C26: Only trusted code enforces: without RASH_HOOK_ENFORCE_UNOWNED, a hook that can deny comes
  from a regular file of the hook directory that root owns and nobody else can write.\<close>

theorem enforcing_hooks_are_trusted:
  assumes "rash_hooks_load_configuration fs run alloc directory allow False s = (True, s')"
    and "fs_dir fs directory = Some entries" and "(f, True) \<in> set (consulted s' k)"
  shows "\<exists>n\<in>set entries. rash_lua_name n \<and> (\<exists>st source. fs_open fs (file_path directory n) = Some (Some st, Some source) \<and>
     S_ISREG (st_mode st) \<and> st_uid st = 0 \<and> st_mode st AND S_WRITABLE_BY_OTHERS = 0 \<and>
     st_size st \<le> RASH_HOOK_MAX_BYTES \<and> (k, f) \<in> set (fst (run source (file_path directory n))))"
proof -
  obtain n where n: "n \<in> set (hook_names entries)" "(f, True) \<in> set (file_hooks fs run (file_path directory n) allow False k)"
    using assms(3) load_registers [OF assms(1,2), of k] by auto
  moreover have "n \<in> set entries" "rash_lua_name n" using n(1) by (auto simp: hook_names_def)
  ultimately show ?thesis using file_hooks_mem [OF n(2)] by (auto simp: hook_trusted_def)
qed

text \<open>C27: A failed reload (an unreadable directory or file, a refused file, a script error) leaves
  the hooks of the eleven observer kinds as they were.\<close>

theorem failed_reload_keeps_observers:
  assumes "rash_hooks_load_configuration fs run alloc directory allow enforce s = (False, s')" and "k \<in> saved_kinds"
  shows "consulted s' k = consulted s k \<and> (lua s \<noteq> None \<longrightarrow> state_flag s' = state_flag s)"
  using assms
  by (auto simp: rash_hooks_load_configuration_def restore_statics_def rash_hook_save_configuration_def consulted_def
      split: prod.splits option.splits if_splits)

lemma rash_hook_file_matches_iff: "rash_hook_file_matches f st \<longleftrightarrow> snd f = st"
  by (cases "snd f"; cases st) (auto simp: rash_hook_file_matches_def Let_def prod_eq_iff)

lemma manifest_file_matches_iff:
  "manifest_file_matches fs directory (Some n, st) \<longleftrightarrow> fs_lstat fs (file_path directory n) = Some st"
  by (auto simp: manifest_file_matches_def rash_hook_file_matches_iff split: option.splits)

lemma collect_files_match:
  assumes "collect_files fs directory ns = Some files"
  shows "list_all (manifest_file_matches fs' directory) files \<longleftrightarrow>
     (\<forall>n\<in>set ns. fs_lstat fs' (file_path directory n) = fs_lstat fs (file_path directory n))"
  using assms
proof (induction ns arbitrary: files)
  case (Cons n ns)
  then show ?case
    by (auto simp: manifest_file_matches_iff rash_hook_file_set_def split: option.splits)
qed simp

text \<open>The manifest detects edits: a directory matches the manifest taken of it exactly as long
  as the identity (device, inode, mode, owner, size, modification time) of the directory and of
  each of its hook files is the same.\<close>

theorem manifest_detects_edits:
  assumes "rash_hook_manifest_collect fs directory = Some m" and "fs_dir fs directory = Some entries"
  shows "rash_hook_manifest_matches fs' m directory \<longleftrightarrow>
     fs_stat fs' directory = fs_stat fs directory \<and>
     (\<forall>n\<in>set entries. rash_lua_name n \<longrightarrow> fs_lstat fs' (file_path directory n) = fs_lstat fs (file_path directory n))"
  using assms
  by (auto simp: rash_hook_manifest_collect_def rash_hook_manifest_matches_def collect_files_match hook_names_def
      rash_hook_file_set_def rash_hook_file_matches_iff split: option.splits)

text \<open>Loading is one-shot: once hooks are active, or once the same configuration has been
  tried, initialisation changes nothing unless it is forced or mtime mode sees an edit.\<close>

theorem initialize_one_shot:
  assumes "env_dir env = Some directory" and "directory \<noteq> []"
    and "state_flag s = 1 \<and> \<not> rash_hook_reload_mode_enabled env \<or>
         hook_directory s = Some directory \<and> hook_allow_unowned s = (env_allow env = Some ''1'') \<and>
         hook_enforce_unowned s = (env_enforce env = Some ''1'') \<and>
         (\<not> rash_hook_reload_mode_enabled env \<or> rash_hook_manifest_matches fs (manifest s) directory)"
  shows "rash_hooks_initialize fs run alloc env False s = (True, s)"
  using assms by (auto simp: rash_hooks_initialize_def Let_def)

section \<open>A concrete hook directory\<close>

definition demo_stat :: "nat \<Rightarrow> 32 word \<Rightarrow> file_stat" where
  "demo_stat ino mode = \<lparr>st_dev = 1, st_ino = ino, st_mode = mode, st_uid = 0, st_size = 10, st_mtime = (5, 0)\<rparr>"

definition demo_fs :: filesystem where
  "demo_fs = \<lparr>fs_stat = [''/h'' \<mapsto> demo_stat 1 0x41ED], fs_lstat = [''/h/a.lua'' \<mapsto> demo_stat 2 0x81A4],
     fs_dir = [''/h'' \<mapsto> [''README'', ''a.lua'']],
     fs_open = [''/h/a.lua'' \<mapsto> (Some (demo_stat 2 0x81A4), Some ''src'')]\<rparr>"

definition demo_deny_all :: "nat hook_fun" where
  "demo_deny_all arg = CDeny ''no'' (\<lambda>_. CReturn LNil)"

definition demo_run :: "nat chunk_runner" where
  "demo_run source path = ([(K_rack, demo_deny_all), (K_before, demo_deny_all)], True)"

definition broken_run :: "nat chunk_runner" where
  "broken_run source path = ([], False)"

definition init_statics :: "'w statics" where
  "init_statics = \<lparr>lua = None, table_ref = (\<lambda>_. False), count = (\<lambda>_. 0), enforcing_bits = (\<lambda>_. []),
     loading_file_enforcing = False, state_flag = 0, hook_directory = None, hook_allow_unowned = False,
     hook_enforce_unowned = False,
     manifest = \<lparr>m_present = False, m_directory = (None, demo_stat 0 0), m_files = []\<rparr>, warnings = []\<rparr>"

lemma demo_names: "hook_names [''README'', ''a.lua''] = [''a.lua'']"
  by (simp add: hook_names_def rash_lua_name_def)

lemma demo_load_file:
  "rash_load_hook demo_fs run ''/h/a.lua'' allow s =
     (case run ''src'' ''/h/a.lua'' of (regs, ok) \<Rightarrow>
        let s' = (fold (\<lambda>(k, f). rash_register_callback k f) regs (s\<lparr>loading_file_enforcing := True\<rparr>))\<lparr>loading_file_enforcing := False\<rparr>
        in if ok then (True, s') else (False, warn_static ''cannot load hook '' ''/h/a.lua'' s'))"
  by (simp add: rash_load_hook_def demo_fs_def demo_stat_def S_ISREG_def RASH_HOOK_MAX_BYTES_def hook_trusted_def
      S_WRITABLE_BY_OTHERS_def Let_def)

lemma demo_load_hooks:
  "rash_load_hooks demo_fs run ''/h'' allow s = rash_load_hook demo_fs run ''/h/a.lua'' allow s"
  by (simp add: rash_load_hooks_def demo_fs_def demo_names file_path_def split: prod.splits)

lemma demo_manifest: "\<exists>m. rash_hook_manifest_collect demo_fs ''/h'' = Some m"
  by (simp add: rash_hook_manifest_collect_def demo_fs_def demo_names file_path_def)

lemma demo_loaded:
  "\<exists>s'. rash_hooks_load_configuration demo_fs demo_run True ''/h'' False False init_statics = (True, s')"
  using demo_manifest
  by (auto simp: rash_hooks_load_configuration_def demo_load_hooks demo_load_file demo_run_def rash_lua_ready_def Let_def)

lemma demo_dir: "fs_dir demo_fs ''/h'' = Some [''README'', ''a.lua'']"
  by (simp add: demo_fs_def)

lemma demo_file_hooks:
  "file_hooks demo_fs demo_run ''/h/a.lua'' False False k =
     (if k = K_rack \<or> k = K_before then [(demo_deny_all, True)] else [])"
  by (auto simp: file_hooks_def demo_fs_def demo_stat_def S_ISREG_def RASH_HOOK_MAX_BYTES_def hook_trusted_def
      S_WRITABLE_BY_OTHERS_def demo_run_def)

theorem load_registers_exactly_witness:
  "\<exists>s'. rash_hooks_load_configuration demo_fs demo_run True ''/h'' False False init_statics = (True, s') \<and>
     consulted s' K_rack = [(demo_deny_all, True)]"
proof -
  obtain s' where s': "rash_hooks_load_configuration demo_fs demo_run True ''/h'' False False init_statics = (True, s')"
    using demo_loaded by blast
  from load_registers_exactly [OF s' demo_dir, of K_rack] s' show ?thesis
    by (simp add: demo_names file_path_def demo_file_hooks)
qed

theorem enforcing_hooks_are_trusted_witness:
  "\<exists>n\<in>set [''README'', ''a.lua'']. rash_lua_name n"
proof -
  obtain s' where s': "rash_hooks_load_configuration demo_fs demo_run True ''/h'' False False init_statics = (True, s')"
    using demo_loaded by blast
  have "consulted s' K_before = [(demo_deny_all, True)]"
    using load_files_step [of "snd (rash_lua_ready True (clear_statics False (init_statics :: nat statics)))"] s' demo_manifest
    by (auto simp: rash_hooks_load_configuration_def demo_load_hooks demo_load_file demo_run_def rash_lua_ready_def Let_def
        consulted_def rash_hook_save_configuration_def rash_register_callback_def clear_statics_def)
  with enforcing_hooks_are_trusted [OF s' demo_dir, of demo_deny_all K_before] show ?thesis by auto
qed

lemma demo_broken_reload:
  "\<exists>s'. rash_hooks_load_configuration demo_fs broken_run True ''/h'' False False s = (False, s') \<and> count s' K_rack = 0"
  using demo_manifest
  by (auto simp: rash_hooks_load_configuration_def demo_load_hooks demo_load_file broken_run_def rash_lua_ready_def Let_def
      rash_hook_save_configuration_def restore_statics_def clear_statics_def saved_kinds_def warn_static_def)

theorem failed_reload_keeps_observers_witness:
  "\<exists>s'. rash_hooks_load_configuration demo_fs broken_run True ''/h'' False False init_statics = (False, s') \<and>
     consulted s' K_before = consulted init_statics K_before"
proof -
  obtain s' where s': "rash_hooks_load_configuration demo_fs broken_run True ''/h'' False False init_statics = (False, s')"
    using demo_broken_reload by blast
  from failed_reload_keeps_observers [OF s', of K_before] s' show ?thesis by (simp add: saved_kinds_def)
qed

theorem manifest_detects_edits_witness:
  "\<exists>m. rash_hook_manifest_collect demo_fs ''/h'' = Some m \<and> rash_hook_manifest_matches demo_fs m ''/h'' \<and>
     \<not> rash_hook_manifest_matches (demo_fs\<lparr>fs_lstat := Map.empty\<rparr>) m ''/h''"
proof -
  obtain m where m: "rash_hook_manifest_collect demo_fs ''/h'' = Some m" using demo_manifest by blast
  have "rash_hook_manifest_matches demo_fs m ''/h''"
    using manifest_detects_edits [OF m demo_dir, of demo_fs] by simp
  moreover have "\<not> rash_hook_manifest_matches (demo_fs\<lparr>fs_lstat := Map.empty\<rparr>) m ''/h''"
    using manifest_detects_edits [OF m demo_dir, of "demo_fs\<lparr>fs_lstat := Map.empty\<rparr>"]
    by (auto simp: demo_fs_def rash_lua_name_def file_path_def)
  ultimately show ?thesis using m by blast
qed

theorem initialize_one_shot_witness:
  "rash_hooks_initialize demo_fs demo_run True
     \<lparr>env_dir = Some ''/h'', env_allow = None, env_enforce = None, env_reload = None\<rparr> False (init_statics\<lparr>state_flag := 1\<rparr>) =
   (True, init_statics\<lparr>state_flag := 1\<rparr>)"
  by (rule initialize_one_shot [where directory = "''/h''"]) (simp_all add: rash_hook_reload_mode_enabled_def)

text \<open>A reload that fails turns the rack off: the enforcing layer that was active before is not
  consulted any more, although the reload reported failure.\<close>

lemma failed_reload_drops_rack:
  "\<exists>s s'. rash_hooks_load_configuration demo_fs demo_run True ''/h'' False False init_statics = (True, s) \<and>
     consulted s K_rack = [(demo_deny_all, True)] \<and>
     rash_hooks_load_configuration demo_fs broken_run True ''/h'' False False s = (False, s') \<and>
     consulted s' K_rack = []"
proof -
  obtain s where s: "rash_hooks_load_configuration demo_fs demo_run True ''/h'' False False init_statics = (True, s)"
      "consulted s K_rack = [(demo_deny_all, True)]"
    using demo_loaded demo_manifest
    by (auto simp: rash_hooks_load_configuration_def demo_load_hooks demo_load_file demo_run_def rash_lua_ready_def Let_def
        consulted_def rash_hook_save_configuration_def rash_register_callback_def clear_statics_def)
  obtain s' where s': "rash_hooks_load_configuration demo_fs broken_run True ''/h'' False False s = (False, s')" "count s' K_rack = 0"
    using demo_broken_reload [of s] by blast
  then have "consulted s' K_rack = []" by (simp add: consulted_def split: option.splits)
  with s s' show ?thesis by blast
qed

end
