(* ===== verification/Hook_Undo.thy ===== *)
theory Hook_Undo
  imports Hook_Api C_Numbers "HOL-Library.Sublist"
begin

text \<open>
  The undo store of hooks.c: \<open>rash.snapshot_file\<close> copies a file's preimage into a numbered
  entry of the undo directory, \<open>rash.undo_last\<close> puts the newest one back, and the window of a
  redirect application takes each preimage once. The file system is a map from absolute paths to
  entries; a link in the last component is followed by the system calls that follow links. Which
  otherwise possible system calls fail is the parameter \<open>ok\<close>, so that every error path of the
  code is a path of the model. Paths are shorter than the code's path buffers.
\<close>

section \<open>The file system\<close>

datatype fentry = Reg cstring nat | Dir | Link cstring

type_synonym files = "cstring \<rightharpoonup> fentry"

datatype syscall = Mkdir | Open_read | Open_write | Do_read | Do_write | Do_close | Unlink | Fchmod | Truncate

type_synonym faults = "syscall \<Rightarrow> cstring \<Rightarrow> bool"

text \<open>Following links, at most 40 of them; None is ELOOP.\<close>

fun follow_links :: "nat \<Rightarrow> files \<Rightarrow> cstring \<Rightarrow> cstring option" where
  "follow_links 0 fs p = None"
| "follow_links (Suc n) fs p = (case fs p of Some (Link q) \<Rightarrow> follow_links n fs q | _ \<Rightarrow> Some p)"

definition resolve :: "files \<Rightarrow> cstring \<Rightarrow> cstring option" where
  "resolve fs p = follow_links 41 fs p"

lemma resolve_plain: "(\<forall>q. fs p \<noteq> Some (Link q)) \<Longrightarrow> resolve fs p = Some p"
  using follow_links.simps(2) [of 40 fs p] by (auto simp: resolve_def split: option.splits fentry.splits)

text \<open>\<open>open\<close> for reading: the content.\<close>

definition sys_open_read :: "faults \<Rightarrow> cstring \<Rightarrow> files \<Rightarrow> cstring option" where
  "sys_open_read ok p fs =
     (if \<not> ok Open_read p then None
      else (case resolve fs p of
              None \<Rightarrow> None
            | Some q \<Rightarrow> (case fs q of Some (Reg b m) \<Rightarrow> Some b | _ \<Rightarrow> None)))"

text \<open>\<open>open\<close> with O_CREAT and O_TRUNC: the path opened and the files, None on failure.\<close>

definition sys_open_trunc :: "faults \<Rightarrow> cstring \<Rightarrow> nat \<Rightarrow> files \<Rightarrow> (cstring \<times> files) option" where
  "sys_open_trunc ok p mode fs =
     (if \<not> ok Open_write p then None
      else (case resolve fs p of
              None \<Rightarrow> None
            | Some q \<Rightarrow>
                (case fs q of
                   None \<Rightarrow> Some (q, fs(q \<mapsto> Reg [] mode))
                 | Some (Reg b m) \<Rightarrow> Some (q, fs(q \<mapsto> Reg [] m))
                 | _ \<Rightarrow> None)))"

text \<open>\<open>open\<close> with O_CREAT and O_EXCL does not follow links.\<close>

definition sys_open_excl :: "faults \<Rightarrow> cstring \<Rightarrow> nat \<Rightarrow> files \<Rightarrow> files option" where
  "sys_open_excl ok p mode fs =
     (if \<not> ok Open_write p \<or> fs p \<noteq> None then None else Some (fs(p \<mapsto> Reg [] mode)))"

definition set_content :: "cstring \<Rightarrow> cstring \<Rightarrow> files \<Rightarrow> files" where
  "set_content p b fs = (case fs p of Some (Reg _ m) \<Rightarrow> fs(p \<mapsto> Reg b m) | _ \<Rightarrow> fs)"

definition set_mode :: "cstring \<Rightarrow> nat \<Rightarrow> files \<Rightarrow> files" where
  "set_mode p m fs = (case fs p of Some (Reg b _) \<Rightarrow> fs(p \<mapsto> Reg b m) | _ \<Rightarrow> fs)"

definition sys_unlink :: "faults \<Rightarrow> cstring \<Rightarrow> files \<Rightarrow> files" where
  "sys_unlink ok p fs = (if ok Unlink p \<and> fs p \<noteq> Some Dir then fs(p := None) else fs)"

definition sys_is_dir :: "cstring \<Rightarrow> files \<Rightarrow> bool" where
  "sys_is_dir p fs \<longleftrightarrow> (case resolve fs p of None \<Rightarrow> False | Some q \<Rightarrow> fs q = Some Dir)"

section \<open>The undo directory\<close>

record undo_env =
  ue_dir :: "cstring option"
  ue_tmpdir :: "cstring option"
  ue_pid :: nat
  ue_max :: "cstring option"
  ue_cwd :: "cstring option"

record undo_state =
  files :: files
  apply_window_active :: bool
  apply_window_paths :: "cstring list"

definition rash_undo_dir :: "undo_env \<Rightarrow> cstring" where
  "rash_undo_dir env =
     (case ue_dir env of
        Some (c # cs) \<Rightarrow> c # cs
      | _ \<Rightarrow>
          (case ue_tmpdir env of
             Some (c # cs) \<Rightarrow> c # cs
           | _ \<Rightarrow> ''/tmp'') @ ''/rash-undo-'' @ show_nat (ue_pid env))"

definition rash_undo_ensure_dir :: "faults \<Rightarrow> cstring \<Rightarrow> files \<Rightarrow> cstring option \<times> files" where
  "rash_undo_ensure_dir ok dir fs =
     (if fs dir = None then
        (if ok Mkdir dir then (None, fs(dir \<mapsto> Dir)) else (Some ''cannot create undo dir'', fs))
      else if \<not> sys_is_dir dir fs then (Some ''RASH_UNDO_DIR is not a directory'', fs)
      else (None, fs))"

definition rash_undo_abspath :: "undo_env \<Rightarrow> cstring \<Rightarrow> cstring" where
  "rash_undo_abspath env path =
     (if path \<noteq> [] \<and> hd path = CHR ''/'' then path
      else (case ue_cwd env of None \<Rightarrow> path | Some cwd \<Rightarrow> cwd @ CHR ''/'' # path))"

text \<open>\<open>rash_undo_copy_file\<close>: success and the files; a copy that failed is removed.\<close>

definition rash_undo_copy_file :: "faults \<Rightarrow> cstring \<Rightarrow> cstring \<Rightarrow> nat \<Rightarrow> files \<Rightarrow> bool \<times> files" where
  "rash_undo_copy_file ok src dst expected_size fs =
     (case sys_open_read ok src fs of
        None \<Rightarrow> (False, fs)
      | Some bytes \<Rightarrow>
          (case sys_open_excl ok dst 384 fs of
             None \<Rightarrow> (False, fs)
           | Some fs1 \<Rightarrow>
               if ok Do_read src \<and> ok Do_write dst \<and> length bytes = expected_size \<and> ok Do_close dst
               then (True, set_content dst bytes fs1)
               else (False, sys_unlink ok dst fs1)))"

definition seq_path :: "cstring \<Rightarrow> cstring" where "seq_path dir = dir @ ''/seq''"
definition entry_dir :: "cstring \<Rightarrow> nat \<Rightarrow> cstring" where "entry_dir dir n = dir @ ''/'' @ show_06 n"
definition path_file :: "cstring \<Rightarrow> nat \<Rightarrow> cstring" where "path_file dir n = entry_dir dir n @ ''/path''"
definition meta_path :: "cstring \<Rightarrow> nat \<Rightarrow> cstring" where "meta_path dir n = entry_dir dir n @ ''/meta''"
definition data_path :: "cstring \<Rightarrow> nat \<Rightarrow> cstring" where "data_path dir n = entry_dir dir n @ ''/data''"

definition seq_value :: "cstring \<Rightarrow> nat" where
  "seq_value content = fst (strtoull (take 31 content))"

text \<open>The next number, 0 with an error message; the counter wraps at \<open>2 ^ 64\<close>.\<close>

definition rash_undo_next_seq :: "faults \<Rightarrow> cstring \<Rightarrow> files \<Rightarrow> nat \<times> cstring \<times> files" where
  "rash_undo_next_seq ok dir fs =
     (let p = seq_path dir in
      if \<not> ok Open_write p then (0, ''cannot open undo seq'', fs)
      else
        (case resolve fs p of
           None \<Rightarrow> (0, ''cannot open undo seq'', fs)
         | Some q \<Rightarrow>
             (case fs q of
                Some Dir \<Rightarrow> (0, ''cannot open undo seq'', fs)
              | Some (Link _) \<Rightarrow> (0, ''cannot open undo seq'', fs)
              | e \<Rightarrow>
                  let fs1 = (case e of None \<Rightarrow> fs(q \<mapsto> Reg [] 384) | Some _ \<Rightarrow> fs);
                      content = (case e of Some (Reg b m) \<Rightarrow> b | _ \<Rightarrow> [])
                  in if \<not> ok Do_read p then (0, ''cannot read undo seq'', fs1)
                     else
                       let seq = (if seq_value content = 0 then 1 else (seq_value content + 1) mod 2 ^ 64)
                       in if \<not> ok Truncate p then (0, ''cannot reset undo seq'', fs1)
                          else if \<not> ok Do_write p then (0, ''cannot write undo seq'', set_content q [] fs1)
                          else (seq, [], set_content q (show_nat seq @ [CHR 0x0A]) fs1))))"

section \<open>The apply window\<close>

definition rash_apply_window_has :: "cstring \<Rightarrow> undo_state \<Rightarrow> bool" where
  "rash_apply_window_has abspath s \<longleftrightarrow> apply_window_active s \<and> abspath \<in> set (apply_window_paths s)"

definition rash_apply_window_add :: "cstring \<Rightarrow> undo_state \<Rightarrow> undo_state" where
  "rash_apply_window_add abspath s =
     (if apply_window_active s then s\<lparr>apply_window_paths := apply_window_paths s @ [abspath]\<rparr> else s)"

definition rash_hooks_redirect_apply_end :: "undo_state \<Rightarrow> undo_state" where
  "rash_hooks_redirect_apply_end s = s\<lparr>apply_window_paths := [], apply_window_active := False\<rparr>"

definition rash_hooks_redirect_apply_begin :: "undo_state \<Rightarrow> undo_state" where
  "rash_hooks_redirect_apply_begin s = (rash_hooks_redirect_apply_end s)\<lparr>apply_window_active := True\<rparr>"

section \<open>Taking a snapshot\<close>

text \<open>The Lua results: success, and the message or \<open>already\<close>.\<close>

type_synonym undo_result = "bool \<times> cstring option"

definition meta_text :: "(nat \<times> nat) option \<Rightarrow> cstring" where
  "meta_text existed =
     (case existed of
        None \<Rightarrow> ''existed=0'' @ [CHR 0x0A]
      | Some (mode, bytes) \<Rightarrow>
          ''existed=1'' @ [CHR 0x0A] @ ''mode='' @ show_nat mode @ [CHR 0x0A] @
          ''size='' @ show_nat bytes @ [CHR 0x0A])"

text \<open>The entry once its number is known; the meta file is written through a buffered stream whose
  errors the code does not look at, so a failing write leaves it empty.\<close>

definition write_entry ::
  "faults \<Rightarrow> cstring \<Rightarrow> nat \<Rightarrow> cstring \<Rightarrow> (cstring \<times> nat) option \<Rightarrow> files \<Rightarrow> undo_result \<times> files" where
  "write_entry ok dir seq abspath pre fs =
     (if fs (entry_dir dir seq) \<noteq> None \<or> \<not> ok Mkdir (entry_dir dir seq) then
        ((False, Some ''cannot create undo entry''), fs)
      else
        let fs1 = fs(entry_dir dir seq \<mapsto> Dir) in
        (case sys_open_excl ok (path_file dir seq) 384 fs1 of
           None \<Rightarrow> ((False, Some ''cannot write undo path''), fs1)
         | Some fs2 \<Rightarrow>
             if \<not> ok Do_write (path_file dir seq) then ((False, Some ''cannot write undo path''), fs2)
             else
               let fs3 = set_content (path_file dir seq) abspath fs2 in
               (case sys_open_trunc ok (meta_path dir seq) 438 fs3 of
                  None \<Rightarrow> ((False, Some ''cannot write undo meta''), fs3)
                | Some (mq, fs4) \<Rightarrow>
                    (case pre of
                       None \<Rightarrow>
                         ((True, None),
                          if ok Do_write (meta_path dir seq) then set_content mq (meta_text None) fs4 else fs4)
                     | Some (bytes, mode) \<Rightarrow>
                         (case rash_undo_copy_file ok abspath (data_path dir seq) (length bytes) fs4 of
                            (False, fs5) \<Rightarrow> ((False, Some ''cannot copy preimage''), sys_unlink ok (data_path dir seq) fs5)
                          | (True, fs5) \<Rightarrow>
                              ((True, None),
                               if ok Do_write (meta_path dir seq)
                               then set_content mq (meta_text (Some (mode mod 4096, length bytes))) fs5 else fs5))))))"

definition rash_lua_snapshot_file ::
  "faults \<Rightarrow> undo_env \<Rightarrow> cstring \<Rightarrow> undo_state \<Rightarrow> undo_result \<times> undo_state" where
  "rash_lua_snapshot_file ok env path s =
     (let dir = rash_undo_dir env in
      case rash_undo_ensure_dir ok dir (files s) of
        (Some err, fs) \<Rightarrow> ((False, Some err), s\<lparr>files := fs\<rparr>)
      | (None, fs) \<Rightarrow>
          let abspath = rash_undo_abspath env path; s1 = s\<lparr>files := fs\<rparr> in
          if rash_apply_window_has abspath s1 then ((True, Some ''already''), s1)
          else
            (case fs abspath of
               Some Dir \<Rightarrow> ((False, Some ''not a regular file''), s1)
             | Some (Link _) \<Rightarrow> ((False, Some ''not a regular file''), s1)
             | e \<Rightarrow>
                 let pre = (case e of Some (Reg b m) \<Rightarrow> Some (b, m) | _ \<Rightarrow> None) in
                 if (case pre of Some (b, m) \<Rightarrow> length b > rash_undo_max_bytes (ue_max env) | None \<Rightarrow> False)
                 then ((False, Some ''file exceeds RASH_UNDO_MAX_BYTES''), s1)
                 else
                   (case rash_undo_next_seq ok dir fs of
                      (seq, err, fs1) \<Rightarrow>
                        if seq = 0 then ((False, Some err), s\<lparr>files := fs1\<rparr>)
                        else
                          (case write_entry ok dir seq abspath pre fs1 of
                             (res, fs2) \<Rightarrow>
                               (res, if fst res then rash_apply_window_add abspath (s\<lparr>files := fs2\<rparr>)
                                     else s\<lparr>files := fs2\<rparr>)))))"

section \<open>Undoing\<close>

text \<open>\<open>strtoul\<close> with base 0: hexadecimal after \<open>0x\<close>, octal after \<open>0\<close>, else decimal.\<close>

definition hex_digit :: "char \<Rightarrow> nat option" where
  "hex_digit c =
     (if c_isdigit c then Some (digit_value c)
      else if CHR ''a'' \<le> c \<and> c \<le> CHR ''f'' then Some (of_char c - 87)
      else if CHR ''A'' \<le> c \<and> c \<le> CHR ''F'' then Some (of_char c - 55)
      else None)"

definition base_value :: "nat \<Rightarrow> cstring \<Rightarrow> nat" where
  "base_value b s =
     foldl (\<lambda>v c. b * v + the (hex_digit c)) 0
       (takeWhile (\<lambda>c. case hex_digit c of None \<Rightarrow> False | Some d \<Rightarrow> d < b) s)"

definition strtoul0 :: "cstring \<Rightarrow> nat" where
  "strtoul0 s =
     (let s1 = dropWhile c_isspace s;
          neg = (s1 \<noteq> [] \<and> hd s1 = CHR ''-'');
          s2 = (if s1 \<noteq> [] \<and> (hd s1 = CHR ''-'' \<or> hd s1 = CHR ''+'') then tl s1 else s1);
          v = (if take 2 s2 = ''0x'' \<or> take 2 s2 = ''0X'' then base_value 16 (drop 2 s2)
               else if take 1 s2 = ''0'' then base_value 8 s2
               else base_value 10 s2)
      in if v \<ge> 2 ^ 64 then 2 ^ 64 - 1 else if neg then (2 ^ 64 - v) mod 2 ^ 64 else v)"

text \<open>The lines \<open>fgets\<close> returns with a buffer of 128 bytes.\<close>

function fgets_lines :: "cstring \<Rightarrow> cstring list" where
  "fgets_lines s =
     (if s = [] then []
      else
        (let head = takeWhile (\<lambda>c. c \<noteq> CHR 0x0A) s;
             line = (if length head < length s then head @ [CHR 0x0A] else head);
             got = take 127 line
         in got # fgets_lines (drop (length got) s)))"
  by auto
termination
proof (relation "measure length")
  fix s line got :: cstring and head
  assume "s \<noteq> []" and head: "head = takeWhile (\<lambda>c. c \<noteq> CHR 0x0A) s"
    and line: "line = (if length head < length s then head @ [CHR 0x0A] else head)" and got: "got = take 127 line"
  have "length head \<le> length s" by (simp add: head length_takeWhile_le)
  with \<open>s \<noteq> []\<close> have "0 < length line \<and> length line \<le> length s" by (auto simp: line)
  then have "0 < length got \<and> 0 < length s" using got \<open>s \<noteq> []\<close> by auto
  then show "(drop (length got) s, s) \<in> measure length" by (simp add: diff_less)
qed simp

declare fgets_lines.simps [simp del]

record undo_meta =
  um_existed :: int
  um_mode :: nat

definition meta_line :: "undo_meta \<Rightarrow> cstring \<Rightarrow> undo_meta" where
  "meta_line m line =
     (if take 8 line = ''existed='' then m\<lparr>um_existed := c_int (fst (strtol (drop 8 line)))\<rparr>
      else if take 5 line = ''mode='' then m\<lparr>um_mode := strtoul0 (drop 5 line) mod 2 ^ 32\<rparr>
      else m)"

definition parse_meta :: "cstring \<Rightarrow> undo_meta" where
  "parse_meta content = foldl meta_line \<lparr>um_existed = 0, um_mode = 384\<rparr> (fgets_lines content)"

definition rash_undo_read_meta :: "faults \<Rightarrow> cstring \<Rightarrow> files \<Rightarrow> undo_meta option" where
  "rash_undo_read_meta ok meta fs = map_option parse_meta (sys_open_read ok meta fs)"

definition rash_undo_read_path :: "faults \<Rightarrow> cstring \<Rightarrow> files \<Rightarrow> cstring option" where
  "rash_undo_read_path ok file fs =
     (case sys_open_read ok file fs of
        None \<Rightarrow> None
      | Some b \<Rightarrow> if ok Do_read file then Some b else None)"

definition sys_rmdir :: "faults \<Rightarrow> cstring \<Rightarrow> files \<Rightarrow> files" where
  "sys_rmdir ok p fs =
     (if ok Unlink p \<and> fs p = Some Dir \<and> (\<forall>q\<in>{p @ ''/data'', p @ ''/meta'', p @ ''/path''}. fs q = None) then fs(p := None) else fs)"

definition rash_undo_remove_entry :: "faults \<Rightarrow> cstring \<Rightarrow> nat \<Rightarrow> files \<Rightarrow> files" where
  "rash_undo_remove_entry ok dir seq fs =
     sys_rmdir ok (entry_dir dir seq)
       (sys_unlink ok (path_file dir seq)
         (sys_unlink ok (meta_path dir seq) (sys_unlink ok (data_path dir seq) fs)))"

definition rash_undo_latest_seq :: "faults \<Rightarrow> cstring \<Rightarrow> files \<Rightarrow> nat" where
  "rash_undo_latest_seq ok dir fs =
     (case sys_open_read ok (seq_path dir) fs of
        None \<Rightarrow> 0
      | Some b \<Rightarrow> if \<not> ok Do_read (seq_path dir) \<or> b = [] then 0 else seq_value b)"

text \<open>\<open>access (meta_path, F_OK)\<close>.\<close>

definition sys_access :: "files \<Rightarrow> cstring \<Rightarrow> bool" where
  "sys_access fs p \<longleftrightarrow> (case resolve fs p of None \<Rightarrow> False | Some q \<Rightarrow> fs q \<noteq> None)"

fun latest_entry :: "cstring \<Rightarrow> files \<Rightarrow> nat \<Rightarrow> nat" where
  "latest_entry dir fs 0 = 0"
| "latest_entry dir fs (Suc n) = (if sys_access fs (meta_path dir (Suc n)) then Suc n else latest_entry dir fs n)"

text \<open>Putting the preimage back: the target is truncated before the data file is opened.\<close>

definition restore_target ::
  "faults \<Rightarrow> cstring \<Rightarrow> nat \<Rightarrow> cstring \<Rightarrow> nat \<Rightarrow> files \<Rightarrow> cstring option \<times> files" where
  "restore_target ok dir seq target mode fs =
     (case sys_open_trunc ok target mode fs of
        None \<Rightarrow> (Some ''cannot restore'', fs)
      | Some (tq, fs1) \<Rightarrow>
          (case sys_open_read ok (data_path dir seq) fs1 of
             None \<Rightarrow> (Some ''missing preimage data'', fs1)
           | Some bytes \<Rightarrow>
               if \<not> ok Do_read (data_path dir seq) then (Some ''restore read failed'', fs1)
               else if \<not> ok Do_write target then (Some ''restore write failed'', fs1)
               else
                 let fs2 = set_content tq bytes fs1 in
                 if \<not> ok Fchmod target then (Some ''cannot restore mode'', fs2)
                 else (None, set_mode tq mode fs2)))"

definition finish_undo :: "faults \<Rightarrow> cstring \<Rightarrow> nat \<Rightarrow> files \<Rightarrow> files" where
  "finish_undo ok dir seq fs =
     (let fs1 = rash_undo_remove_entry ok dir seq fs in
      case sys_open_trunc ok (seq_path dir) 384 fs1 of
        None \<Rightarrow> fs1
      | Some (q, fs2) \<Rightarrow>
          if ok Do_write (seq_path dir) then set_content q (show_nat (seq - 1) @ [CHR 0x0A]) fs2 else fs2)"

definition rash_lua_undo_last :: "faults \<Rightarrow> undo_env \<Rightarrow> undo_state \<Rightarrow> undo_result \<times> undo_state" where
  "rash_lua_undo_last ok env s =
     (let dir = rash_undo_dir env in
      case rash_undo_ensure_dir ok dir (files s) of
        (Some err, fs) \<Rightarrow> ((False, Some err), s\<lparr>files := fs\<rparr>)
      | (None, fs) \<Rightarrow>
          let seq = latest_entry dir fs (rash_undo_latest_seq ok dir fs) in
          if seq = 0 then ((False, Some ''undo stack empty''), s\<lparr>files := fs\<rparr>)
          else
            (case (rash_undo_read_path ok (path_file dir seq) fs, rash_undo_read_meta ok (meta_path dir seq) fs) of
               (Some target, Some meta) \<Rightarrow>
                 if um_existed meta = 0 then
                   (if fs target \<noteq> None \<and> (\<not> ok Unlink target \<or> fs target = Some Dir)
                    then ((False, Some ''cannot unlink''), s\<lparr>files := fs\<rparr>)
                    else ((True, None), s\<lparr>files := finish_undo ok dir seq (fs(target := None))\<rparr>))
                 else
                   (case restore_target ok dir seq target (um_mode meta mod 4096) fs of
                      (Some err, fs1) \<Rightarrow> ((False, Some err), s\<lparr>files := fs1\<rparr>)
                    | (None, fs1) \<Rightarrow> ((True, None), s\<lparr>files := finish_undo ok dir seq fs1\<rparr>))
             | _ \<Rightarrow> ((False, Some ''corrupt undo entry''), s\<lparr>files := fs\<rparr>)))"

section \<open>The meta file reads back\<close>

lemma show_nat_length: "n < 10 ^ k \<Longrightarrow> 0 < k \<Longrightarrow> length (show_nat n) \<le> k"
proof (induction n arbitrary: k rule: show_nat.induct)
  case (1 n)
  show ?case
  proof (cases "n < 10")
    case True
    with 1 show ?thesis by (subst show_nat.simps) simp
  next
    case False
    with 1(2,3) obtain j where k: "k = Suc j" and "0 < j" by (cases k; cases "k - 1") auto
    moreover have "n div 10 < 10 ^ j" using 1(2) k by (simp add: div_less_iff_less_mult mult.commute)
    ultimately have "length (show_nat (n div 10)) \<le> j" using 1(1) False by simp
    with False k show ?thesis by (subst show_nat.simps) simp
  qed
qed

lemma show_nat_length_64: "n < 2 ^ 64 \<Longrightarrow> length (show_nat n) \<le> 20"
  by (rule show_nat_length) simp_all

lemma seq_value_show: "n < 2 ^ 64 \<Longrightarrow> seq_value (show_nat n @ [CHR 0x0A]) = n"
  using show_nat_length_64 [of n] strtoull_digits [of n "[CHR 0x0A]"] by (simp add: seq_value_def)

lemma fgets_line:
  assumes "CHR 0x0A \<notin> set line" and "length line < 127"
  shows "fgets_lines (line @ CHR 0x0A # rest) = (line @ [CHR 0x0A]) # fgets_lines rest"
proof -
  have "takeWhile (\<lambda>c. c \<noteq> CHR 0x0A) (line @ CHR 0x0A # rest) = line"
    using assms(1) by (induction line) auto
  with assms(2) show ?thesis by (subst fgets_lines.simps) (simp add: Let_def)
qed

lemma fgets_lines_Nil [simp]: "fgets_lines [] = []"
  by (simp add: fgets_lines.simps)

lemma digits_no_newline: "CHR 0x0A \<notin> set (show_nat n)"
  using show_nat_digits [of n] by (auto simp: list_all_iff c_isdigit_def)

lemma hex_digit_digits: "list_all c_isdigit ds \<Longrightarrow> base_value 10 (ds @ [CHR 0x0A]) = dec_value ds"
proof -
  assume ds: "list_all c_isdigit ds"
  have dig: "c_isdigit c \<Longrightarrow> hex_digit c = Some (digit_value c) \<and> digit_value c < 10" for c
    by (auto simp: hex_digit_def c_isdigit_def digit_value_def less_eq_char_def)
  have nl: "hex_digit (CHR 0x0A) = None"
    by (simp add: hex_digit_def c_isdigit_def)
  have "takeWhile (\<lambda>c. case hex_digit c of None \<Rightarrow> False | Some d \<Rightarrow> d < 10) (ds @ [CHR 0x0A]) = ds"
    using ds by (induction ds) (auto simp: dig nl)
  moreover have "foldl (\<lambda>v c. 10 * v + the (hex_digit c)) a ds = foldl (\<lambda>v c. 10 * v + digit_value c) a ds" for a
    using ds by (induction ds arbitrary: a) (auto simp: dig)
  ultimately show ?thesis by (simp add: base_value_def dec_value_def)
qed

lemma strtoul0_show: "n < 2 ^ 64 \<Longrightarrow> strtoul0 (show_nat n @ [CHR 0x0A]) = n"
proof -
  assume n: "n < 2 ^ 64"
  obtain d ds where ds: "show_nat n = d # ds" by (cases "show_nat n") auto
  have dig: "c_isdigit d" using show_nat_digits [of n] ds by simp
  have v: "base_value 10 (d # ds @ [CHR 0x0A]) = n"
    using hex_digit_digits [OF show_nat_digits, of n] dec_value_show [of n] unfolding ds by simp
  show ?thesis
  proof (cases "n = 0")
    case True
    then have "show_nat n = [CHR ''0'']" by (simp add: show_nat.simps digit_char_def char_of_eq_iff)
    then show ?thesis using True
      by (simp add: strtoul0_def Let_def c_isspace_def base_value_def hex_digit_def c_isdigit_def digit_value_def)
  next
    case False
    then have "d \<noteq> CHR ''0''" using show_nat_head [of n] ds by simp
    then show ?thesis using n v digit_not_space_sign [OF dig] ds
      by (simp add: strtoul0_def Let_def)
  qed
qed

lemma parse_meta_absent: "parse_meta (meta_text None) = \<lparr>um_existed = 0, um_mode = 384\<rparr>"
  using fgets_line [of "''existed=0''" "[]"]
  by (simp add: parse_meta_def meta_text_def meta_line_def strtol_def scan_number_def c_isspace_def c_isdigit_def
      dec_value_def digit_value_def c_int_def)

lemma meta_roundtrip':
  assumes "mode < 4096" and "bytes < 2 ^ 64"
  shows "parse_meta (meta_text (Some (mode, bytes))) = \<lparr>um_existed = 1, um_mode = mode\<rparr>"
proof -
  have "length (show_nat mode) \<le> 20" "length (show_nat bytes) \<le> 20"
    using assms by (auto intro!: show_nat_length_64)
  then have "fgets_lines (meta_text (Some (mode, bytes))) =
      [''existed=1'' @ [CHR 0x0A], ''mode='' @ show_nat mode @ [CHR 0x0A], ''size='' @ show_nat bytes @ [CHR 0x0A]]"
    using fgets_line [of "''existed=1''" "''mode='' @ show_nat mode @ [CHR 0x0A] @ ''size='' @ show_nat bytes @ [CHR 0x0A]"]
      fgets_line [of "''mode='' @ show_nat mode" "''size='' @ show_nat bytes @ [CHR 0x0A]"]
      fgets_line [of "''size='' @ show_nat bytes" "[]"] digits_no_newline
    by (simp add: meta_text_def)
  moreover have "strtoul0 (show_nat mode @ [CHR 0x0A]) = mode" using assms(1) by (intro strtoul0_show) simp
  moreover have "strtol (CHR ''1'' # [CHR 0x0A]) = (1, [CHR 0x0A], False)"
    by (simp add: strtol_def scan_number_def c_isspace_def c_isdigit_def dec_value_def digit_value_def)
  ultimately show ?thesis
    using assms(1) by (simp add: parse_meta_def meta_line_def c_int_def)
qed

text \<open>The meta file of a snapshot reads back: the flag and the permission bits it was written
  with are the ones \<open>rash_undo_read_meta\<close> returns.\<close>

theorem meta_roundtrip:
  assumes "mode < 4096" and "bytes < 2 ^ 64"
  shows "parse_meta (meta_text (Some (mode, bytes))) = \<lparr>um_existed = 1, um_mode = mode\<rparr>"
  by (rule meta_roundtrip' [OF assms])

theorem meta_roundtrip_witness:
  "parse_meta (meta_text (Some (420, 1234))) = \<lparr>um_existed = 1, um_mode = 420\<rparr>"
  by (rule meta_roundtrip) simp_all

section \<open>The store's paths\<close>

definition store_path :: "cstring \<Rightarrow> cstring \<Rightarrow> bool" where
  "store_path dir q \<longleftrightarrow> q = dir \<or> prefix (dir @ ''/'') q"

lemma store_paths [simp]:
  "store_path dir dir" "store_path dir (seq_path dir)" "store_path dir (entry_dir dir n)"
  "store_path dir (path_file dir n)" "store_path dir (meta_path dir n)" "store_path dir (data_path dir n)"
  by (auto simp: store_path_def seq_path_def entry_dir_def path_file_def meta_path_def data_path_def prefix_def)

lemma show_06_start: "\<exists>c cs. show_06 n = c # cs \<and> c_isdigit c"
proof -
  have "list_all c_isdigit (show_06 n)"
    using show_nat_digits [of n] by (auto simp: show_06_def list_all_iff c_isdigit_def)
  moreover have "show_06 n \<noteq> []" by (simp add: show_06_def)
  ultimately show ?thesis by (cases "show_06 n") auto
qed

lemma store_paths_distinct [simp]:
  "entry_dir dir n \<noteq> dir" "seq_path dir \<noteq> dir" "path_file dir n \<noteq> dir" "meta_path dir n \<noteq> dir" "data_path dir n \<noteq> dir"
  "entry_dir dir n \<noteq> seq_path dir" "path_file dir n \<noteq> seq_path dir" "meta_path dir n \<noteq> seq_path dir"
  "data_path dir n \<noteq> seq_path dir"
  "path_file dir n \<noteq> entry_dir dir n" "meta_path dir n \<noteq> entry_dir dir n" "data_path dir n \<noteq> entry_dir dir n"
  "path_file dir n \<noteq> meta_path dir n" "path_file dir n \<noteq> data_path dir n" "meta_path dir n \<noteq> data_path dir n"
proof -
  obtain c cs where c: "show_06 n = c # cs" "c_isdigit c" using show_06_start by blast
  then have "c \<noteq> CHR ''s''" by (auto simp: c_isdigit_def)
  with c(1) show "entry_dir dir n \<noteq> dir" "seq_path dir \<noteq> dir" "path_file dir n \<noteq> dir" "meta_path dir n \<noteq> dir" "data_path dir n \<noteq> dir"
    "entry_dir dir n \<noteq> seq_path dir" "path_file dir n \<noteq> seq_path dir" "meta_path dir n \<noteq> seq_path dir"
    "data_path dir n \<noteq> seq_path dir"
    "path_file dir n \<noteq> entry_dir dir n" "meta_path dir n \<noteq> entry_dir dir n" "data_path dir n \<noteq> entry_dir dir n"
    "path_file dir n \<noteq> meta_path dir n" "path_file dir n \<noteq> data_path dir n" "meta_path dir n \<noteq> data_path dir n"
    by (simp_all add: entry_dir_def seq_path_def path_file_def meta_path_def data_path_def)
qed

lemmas store_paths_distinct' [simp] = store_paths_distinct [symmetric]

text \<open>An undo directory nobody tampered with: no links, and nothing below an entry that is not
  there.\<close>

definition store_wf :: "cstring \<Rightarrow> files \<Rightarrow> bool" where
  "store_wf dir fs \<longleftrightarrow> (\<forall>q. fs dir \<noteq> Some (Link q)) \<and> (\<forall>q. fs (seq_path dir) \<noteq> Some (Link q)) \<and>
     (\<forall>n. fs (entry_dir dir n) = None \<longrightarrow> fs (path_file dir n) = None \<and> fs (meta_path dir n) = None \<and> fs (data_path dir n) = None)"

section \<open>What a snapshot writes\<close>

lemma ensure_dir_success:
  assumes "rash_undo_ensure_dir ok dir fs = (None, fs')" and "\<forall>q. fs dir \<noteq> Some (Link q)"
  shows "fs' dir = Some Dir \<and> (\<forall>q. q \<noteq> dir \<longrightarrow> fs' q = fs q)"
  using assms resolve_plain [of fs dir]
  by (auto simp: rash_undo_ensure_dir_def sys_is_dir_def split: if_splits option.splits)

lemma next_seq_success:
  assumes "rash_undo_next_seq ok dir fs = (seq, err, fs')" and "seq \<noteq> 0" and "\<forall>q. fs (seq_path dir) \<noteq> Some (Link q)"
  shows "(\<exists>m. fs' (seq_path dir) = Some (Reg (show_nat seq @ [CHR 0x0A]) m)) \<and> seq < 2 ^ 64 \<and>
     (\<forall>q. q \<noteq> seq_path dir \<longrightarrow> fs' q = fs q)"
  using assms resolve_plain [where fs = fs and p = "seq_path dir"]
  by (auto simp: rash_undo_next_seq_def Let_def set_content_def split: if_splits option.splits fentry.splits)

lemma copy_file_success:
  assumes "rash_undo_copy_file ok src dst n fs = (True, fs')" and "fs src = Some (Reg b m)" and "src \<noteq> dst"
  shows "fs' dst = Some (Reg b 384) \<and> (\<forall>q. q \<noteq> dst \<longrightarrow> fs' q = fs q)"
proof -
  have "resolve fs src = Some src" using assms(2) by (intro resolve_plain) simp
  with assms show ?thesis
    by (auto simp: rash_undo_copy_file_def sys_open_read_def sys_open_excl_def set_content_def split: if_splits option.splits)
qed

lemma write_entry_success:
  assumes w: "write_entry ok dir seq abspath pre fs = ((True, None), fs')"
    and fresh: "fs (path_file dir seq) = None" "fs (meta_path dir seq) = None"
    and pre: "case pre of None \<Rightarrow> True | Some (b, m) \<Rightarrow> fs abspath = Some (Reg b m)"
    and out: "\<not> store_path dir abspath" and ok: "ok Do_write (meta_path dir seq)"
  shows "fs' (path_file dir seq) = Some (Reg abspath 384) \<and>
     fs' (meta_path dir seq) = Some (Reg (meta_text (map_option (\<lambda>(b, m). (m mod 4096, length b)) pre)) 438) \<and>
     (\<forall>b m. pre = Some (b, m) \<longrightarrow> fs' (data_path dir seq) = Some (Reg b 384)) \<and>
     (\<forall>q. q \<notin> {entry_dir dir seq, path_file dir seq, meta_path dir seq, data_path dir seq} \<longrightarrow> fs' q = fs q)"
proof -
  define fs1 where "fs1 = fs(entry_dir dir seq \<mapsto> Dir)"
  define fs3 where "fs3 = fs1(path_file dir seq \<mapsto> Reg abspath 384)"
  define fs4 where "fs4 = fs3(meta_path dir seq \<mapsto> Reg [] 438)"
  have ne: "abspath \<noteq> entry_dir dir seq" "abspath \<noteq> path_file dir seq" "abspath \<noteq> meta_path dir seq" "abspath \<noteq> data_path dir seq"
    using out by auto
  have p: "sys_open_excl ok (path_file dir seq) 384 fs1 = Some (fs1(path_file dir seq \<mapsto> Reg [] 384))"
    using w by (auto simp: write_entry_def fs1_def Let_def sys_open_excl_def split: if_splits option.splits)
  have c: "set_content (path_file dir seq) abspath (fs1(path_file dir seq \<mapsto> Reg [] 384)) = fs3"
    by (simp add: set_content_def fs3_def)
  have m: "sys_open_trunc ok (meta_path dir seq) 438 fs3 = Some (meta_path dir seq, fs4)"
  proof -
    have "fs3 (meta_path dir seq) = None" using fresh(2) by (simp add: fs3_def fs1_def)
    moreover then have "resolve fs3 (meta_path dir seq) = Some (meta_path dir seq)" by (intro resolve_plain) simp
    moreover have "ok Open_write (meta_path dir seq)"
      using w p c by (auto simp: write_entry_def fs1_def [symmetric] Let_def sys_open_trunc_def split: if_splits)
    ultimately show ?thesis by (simp add: sys_open_trunc_def fs4_def)
  qed
  have rest: "(case pre of None \<Rightarrow> ((True, None), set_content (meta_path dir seq) (meta_text None) fs4)
      | Some (bytes, mode) \<Rightarrow>
          (case rash_undo_copy_file ok abspath (data_path dir seq) (length bytes) fs4 of
             (False, fs5) \<Rightarrow> ((False, Some ''cannot copy preimage''), sys_unlink ok (data_path dir seq) fs5)
           | (True, fs5) \<Rightarrow> ((True, None), if ok Do_write (meta_path dir seq)
                then set_content (meta_path dir seq) (meta_text (Some (mode mod 4096, length bytes))) fs5 else fs5))) =
      ((True, None :: cstring option), fs')"
    using w p m unfolding c by (auto simp: write_entry_def fs1_def [symmetric] Let_def c ok cong: if_cong split: if_splits)
  show ?thesis
  proof (cases pre)
    case None
    with rest show ?thesis by (auto simp: set_content_def fs4_def fs3_def fs1_def)
  next
    case (Some bm)
    obtain b md where bm: "bm = (b, md)" by fastforce
    have src: "fs4 abspath = Some (Reg b md)" using pre ne by (simp add: Some bm fs4_def fs3_def fs1_def)
    obtain fs5 where cp: "rash_undo_copy_file ok abspath (data_path dir seq) (length b) fs4 = (True, fs5)"
      and fs': "fs' = set_content (meta_path dir seq) (meta_text (Some (md mod 4096, length b))) fs5"
      using rest ok by (auto simp: Some bm split: prod.splits bool.splits)
    from copy_file_success [OF cp src ne(4)] show ?thesis
      by (auto simp: fs' Some bm set_content_def fs4_def fs3_def fs1_def)
  qed
qed

section \<open>What an undo does with it\<close>

abbreviation no_faults :: faults where "no_faults \<equiv> \<lambda>call p. True"

lemma open_read_plain: "fs p = Some (Reg b m) \<Longrightarrow> sys_open_read no_faults p fs = Some b"
  using resolve_plain [of fs p] by (simp add: sys_open_read_def)

lemma latest_entry_here: "0 < n \<Longrightarrow> fs (meta_path dir n) = Some (Reg b m) \<Longrightarrow> latest_entry dir fs n = n"
  using resolve_plain [of fs "meta_path dir n"] by (cases n) (simp_all add: sys_access_def)

lemma finish_undo_frame:
  assumes "fs (seq_path dir) = Some (Reg b m)" and "\<not> store_path dir q"
  shows "finish_undo no_faults dir seq fs q = fs q"
proof -
  let ?f = "rash_undo_remove_entry no_faults dir seq fs"
  have ne: "q \<noteq> entry_dir dir seq" "q \<noteq> path_file dir seq" "q \<noteq> meta_path dir seq" "q \<noteq> data_path dir seq" "q \<noteq> seq_path dir"
    using assms(2) by auto
  have f: "?f r = fs r" if "r \<notin> {entry_dir dir seq, path_file dir seq, meta_path dir seq, data_path dir seq}" for r
    using that by (auto simp: rash_undo_remove_entry_def sys_unlink_def sys_rmdir_def)
  have "?f (seq_path dir) = Some (Reg b m)" using f [of "seq_path dir"] assms(1) by simp
  then have "resolve ?f (seq_path dir) = Some (seq_path dir)" and "?f (seq_path dir) = Some (Reg b m)"
    by (auto intro: resolve_plain)
  with f [of q] ne show ?thesis
    by (simp add: finish_undo_def Let_def sys_open_trunc_def set_content_def)
qed

lemma restore_target_plain:
  assumes "\<forall>x. fs target \<noteq> Some Dir \<and> fs target \<noteq> Some (Link x)" and "fs (data_path dir seq) = Some (Reg b m)"
    and "target \<noteq> data_path dir seq"
  shows "restore_target no_faults dir seq target mode fs = (None, fs(target \<mapsto> Reg b mode))"
proof -
  have r: "resolve fs target = Some target" using assms(1) by (intro resolve_plain) simp
  obtain md where t: "sys_open_trunc no_faults target mode fs = Some (target, fs(target \<mapsto> Reg [] md))"
  proof (cases "fs target")
    case None
    with r that [of mode] show ?thesis by (simp add: sys_open_trunc_def)
  next
    case (Some e)
    with r assms(1) that show ?thesis by (cases e) (auto simp: sys_open_trunc_def)
  qed
  have "sys_open_read no_faults (data_path dir seq) (fs(target \<mapsto> Reg [] md)) = Some b"
    using assms(2,3) by (intro open_read_plain) simp
  with t show ?thesis by (simp add: restore_target_def set_content_def set_mode_def)
qed

lemma undo_last_restores:
  assumes dir: "fs dir = Some Dir" and seq: "fs (seq_path dir) = Some (Reg (show_nat n @ [CHR 0x0A]) m0)"
    and n: "0 < n" "n < 2 ^ 64"
    and path: "fs (path_file dir n) = Some (Reg target m1)"
    and meta: "fs (meta_path dir n) = Some (Reg (meta_text (map_option (\<lambda>(b, m). (m mod 4096, length b)) pre)) m2)"
    and data: "\<forall>b m. pre = Some (b, m) \<longrightarrow> fs (data_path dir n) = Some (Reg b 384) \<and> length b < 2 ^ 64 \<and> m < 4096"
    and out: "\<not> store_path dir target" and plain: "\<forall>x. fs target \<noteq> Some Dir \<and> fs target \<noteq> Some (Link x)"
    and env: "rash_undo_dir env = dir" and s: "files s = fs"
  shows "\<exists>s'. rash_lua_undo_last no_faults env s = ((True, None), s') \<and>
     files s' target = map_option (\<lambda>(b, m). Reg b m) pre \<and>
     (\<forall>q. \<not> store_path dir q \<and> q \<noteq> target \<longrightarrow> files s' q = fs q)"
proof -
  have "sys_is_dir dir fs" using dir resolve_plain [of fs dir] by (simp add: sys_is_dir_def)
  then have ens: "rash_undo_ensure_dir no_faults dir fs = (None, fs)" using dir by (simp add: rash_undo_ensure_dir_def)
  have "rash_undo_latest_seq no_faults dir fs = n"
    using open_read_plain [of fs "seq_path dir"] seq seq_value_show [OF n(2)] by (simp add: rash_undo_latest_seq_def)
  then have last: "latest_entry dir fs (rash_undo_latest_seq no_faults dir fs) = n"
    using latest_entry_here [of n fs dir] n(1) meta by simp
  have rp: "rash_undo_read_path no_faults (path_file dir n) fs = Some target"
    using open_read_plain [of fs "path_file dir n"] path by (simp add: rash_undo_read_path_def)
  have rm: "rash_undo_read_meta no_faults (meta_path dir n) fs =
      Some (parse_meta (meta_text (map_option (\<lambda>(b, m). (m mod 4096, length b)) pre)))"
    using open_read_plain [of fs "meta_path dir n"] meta by (simp add: rash_undo_read_meta_def)
  have seqne: "target \<noteq> seq_path dir" using out by auto
  show ?thesis
  proof (cases pre)
    case None
    let ?fs = "fs(target := None)"
    have "rash_lua_undo_last no_faults env s = ((True, None), s\<lparr>files := finish_undo no_faults dir n ?fs\<rparr>)"
      using n(1) plain by (simp add: rash_lua_undo_last_def env s ens last rp rm None parse_meta_absent)
    moreover have "finish_undo no_faults dir n ?fs q = ?fs q" if "\<not> store_path dir q" for q
      using seq seqne that by (intro finish_undo_frame) auto
    ultimately show ?thesis using out None by auto
  next
    case (Some bm)
    obtain b m where bm: "bm = (b, m)" by fastforce
    have d: "fs (data_path dir n) = Some (Reg b 384)" "length b < 2 ^ 64" "m < 4096" using data by (auto simp: Some bm)
    have pm: "parse_meta (meta_text (Some (m, length b))) = \<lparr>um_existed = 1, um_mode = m\<rparr>"
      using d by (intro meta_roundtrip') auto
    let ?fs = "fs(target \<mapsto> Reg b m)"
    have "restore_target no_faults dir n target m fs = (None, ?fs)"
      using plain d(1) out by (intro restore_target_plain) auto
    then have "rash_lua_undo_last no_faults env s = ((True, None), s\<lparr>files := finish_undo no_faults dir n ?fs\<rparr>)"
      using n(1) d(3) by (simp add: rash_lua_undo_last_def env s ens last rp rm Some bm pm)
    moreover have "finish_undo no_faults dir n ?fs q = ?fs q" if "\<not> store_path dir q" for q
      using seq seqne that by (intro finish_undo_frame) auto
    ultimately show ?thesis using out Some bm by auto
  qed
qed

section \<open>Properties\<close>

text \<open>A successful snapshot, taken apart.\<close>

lemma snapshot_success:
  assumes snap: "rash_lua_snapshot_file ok env path s = ((True, None), s1)"
    and wf: "store_wf dir (files s)" and out: "\<not> store_path dir target"
    and ok: "\<And>n. ok Do_write (meta_path dir n)"
    and env: "dir = rash_undo_dir env" "target = rash_undo_abspath env path"
  shows "\<exists>n m0 pre. files s1 dir = Some Dir \<and> files s1 (seq_path dir) = Some (Reg (show_nat n @ [CHR 0x0A]) m0) \<and>
     0 < n \<and> n < 2 ^ 64 \<and> files s1 (path_file dir n) = Some (Reg target 384) \<and>
     files s1 (meta_path dir n) = Some (Reg (meta_text (map_option (\<lambda>(b, m). (m mod 4096, length b)) pre)) 438) \<and>
     (\<forall>b m. pre = Some (b, m) \<longrightarrow> files s1 (data_path dir n) = Some (Reg b 384) \<and> length b < 2 ^ 64) \<and>
     files s target = map_option (\<lambda>(b, m). Reg b m) pre"
proof -
  obtain fs where e: "rash_undo_ensure_dir ok dir (files s) = (None, fs)"
    using snap by (auto simp: rash_lua_snapshot_file_def env Let_def split: prod.splits option.splits)
  have fs: "fs dir = Some Dir" "\<And>q. q \<noteq> dir \<Longrightarrow> fs q = files s q"
    using ensure_dir_success [OF e] wf by (auto simp: store_wf_def)
  define pre where "pre = (case fs target of Some (Reg b m) \<Rightarrow> Some (b, m) | _ \<Rightarrow> None)"
  obtain seq err fs1 where q: "rash_undo_next_seq ok dir fs = (seq, err, fs1)" by (cases "rash_undo_next_seq ok dir fs")
  have big: "\<not> (case pre of Some (b, m) \<Rightarrow> length b > rash_undo_max_bytes (ue_max env) | None \<Rightarrow> False)"
    and seq: "seq \<noteq> 0" and kind: "\<forall>x. fs target \<noteq> Some Dir \<and> fs target \<noteq> Some (Link x)"
    and w: "\<exists>fs2. write_entry ok dir seq target pre fs1 = ((True, None), fs2) \<and> files s1 = fs2"
    using snap e q
    by (auto simp: rash_lua_snapshot_file_def env [symmetric] Let_def pre_def rash_apply_window_add_def
        split: prod.splits option.splits fentry.splits if_splits)
  have ns: "(\<exists>m. fs1 (seq_path dir) = Some (Reg (show_nat seq @ [CHR 0x0A]) m)) \<and> seq < 2 ^ 64 \<and> (\<forall>q. q \<noteq> seq_path dir \<longrightarrow> fs1 q = fs q)"
    using wf fs(2) [of "seq_path dir"] by (intro next_seq_success [OF q seq]) (simp add: store_wf_def)
  have tne: "target \<noteq> dir" "target \<noteq> seq_path dir" using out by auto
  obtain fs2 where fs2: "write_entry ok dir seq target pre fs1 = ((True, None), fs2)" "files s1 = fs2" using w by blast
  have "fs1 (entry_dir dir seq) = None" using fs2(1) by (auto simp: write_entry_def split: if_splits)
  then have "files s (entry_dir dir seq) = None" using ns fs(2) [of "entry_dir dir seq"] by simp
  then have fresh: "fs1 (path_file dir seq) = None" "fs1 (meta_path dir seq) = None"
    using wf ns fs(2) [of "path_file dir seq"] fs(2) [of "meta_path dir seq"] by (auto simp: store_wf_def)
  have ft: "fs target = files s target" using fs(2) tne by simp
  have pre_eq: "files s target = map_option (\<lambda>(b, m). Reg b m) pre"
  proof (cases "fs target")
    case None
    with ft show ?thesis by (simp add: pre_def)
  next
    case (Some e)
    then show ?thesis unfolding ft [symmetric] using kind by (cases e) (simp_all add: pre_def)
  qed
  have "case pre of None \<Rightarrow> True | Some (b, m) \<Rightarrow> fs1 target = Some (Reg b m)"
    using pre_eq ns tne ft by (auto split: option.splits)
  from write_entry_success [OF fs2(1) fresh this out ok]
  have we: "fs2 (path_file dir seq) = Some (Reg target 384)"
     "fs2 (meta_path dir seq) = Some (Reg (meta_text (map_option (\<lambda>(b, m). (m mod 4096, length b)) pre)) 438)"
     "\<forall>b m. pre = Some (b, m) \<longrightarrow> fs2 (data_path dir seq) = Some (Reg b 384)"
     "\<forall>q. q \<notin> {entry_dir dir seq, path_file dir seq, meta_path dir seq, data_path dir seq} \<longrightarrow> fs2 q = fs1 q"
    by blast+
  have "rash_undo_max_bytes (ue_max env) < 2 ^ 64"
    by (auto simp: rash_undo_max_bytes_def RASH_UNDO_DEFAULT_MAX_BYTES_def strtoull_def split: option.splits prod.splits)
  then have "\<forall>b m. pre = Some (b, m) \<longrightarrow> length b < 2 ^ 64" using big by auto
  moreover have "fs2 dir = Some Dir" using we(4) [rule_format, of dir] ns fs(1) by simp
  moreover obtain m0 where "fs2 (seq_path dir) = Some (Reg (show_nat seq @ [CHR 0x0A]) m0)"
    using we(4) [rule_format, of "seq_path dir"] ns by auto
  ultimately show ?thesis
    using we(1-3) ns seq pre_eq unfolding fs2(2)
    by (intro exI [of _ seq, OF exI [of _ m0, OF exI [of _ pre]]]) simp
qed

text \<open>C30: Undo restores: in a well-formed undo directory, take a snapshot of a path outside of it that takes a new
  entry (it does not answer \<open>already\<close>) and reports success, with whatever faults of the system except that the write of
  the meta file does not fail, whose error the code does not look at. Whatever is then done to the path (overwritten,
  truncated, changed in mode, removed, created as a regular file) and to every other file outside the undo
  directory, which itself is left alone, an \<open>undo_last\<close> during which the system reports no fault succeeds, gives the
  path its old content and permission bits, or removes it if it did not exist, and changes nothing else outside the
  undo directory.\<close>

theorem undo_restores_snapshot:
  assumes "rash_lua_snapshot_file ok env path s = ((True, None), s1)"
    and "dir = rash_undo_dir env" and "target = rash_undo_abspath env path"
    and "store_wf dir (files s)" and "\<not> store_path dir target"
    and "\<And>n. ok Do_write (meta_path dir n)" and "\<forall>b m. files s target = Some (Reg b m) \<longrightarrow> m < 4096"
    and "\<forall>q. store_path dir q \<longrightarrow> files s2 q = files s1 q"
    and "\<forall>x. files s2 target \<noteq> Some Dir \<and> files s2 target \<noteq> Some (Link x)"
  shows "\<exists>s3. rash_lua_undo_last no_faults env s2 = ((True, None), s3) \<and> files s3 target = files s target \<and>
     (\<forall>q. \<not> store_path dir q \<and> q \<noteq> target \<longrightarrow> files s3 q = files s2 q)"
proof -
  obtain n m0 pre where f: "files s1 dir = Some Dir" "files s1 (seq_path dir) = Some (Reg (show_nat n @ [CHR 0x0A]) m0)"
     "0 < n" "n < 2 ^ 64" "files s1 (path_file dir n) = Some (Reg target 384)"
     "files s1 (meta_path dir n) = Some (Reg (meta_text (map_option (\<lambda>(b, m). (m mod 4096, length b)) pre)) 438)"
     "\<forall>b m. pre = Some (b, m) \<longrightarrow> files s1 (data_path dir n) = Some (Reg b 384) \<and> length b < 2 ^ 64"
     "files s target = map_option (\<lambda>(b, m). Reg b m) pre"
    using snapshot_success [OF assms(1,4,5,6,2,3)] by blast
  have g: "\<forall>b m. pre = Some (b, m) \<longrightarrow> files s1 (data_path dir n) = Some (Reg b 384) \<and> length b < 2 ^ 64 \<and> m < 4096"
    using f(7,8) assms(7) by auto
  have same: "files s2 dir = files s1 dir" "files s2 (seq_path dir) = files s1 (seq_path dir)"
    "files s2 (path_file dir n) = files s1 (path_file dir n)" "files s2 (meta_path dir n) = files s1 (meta_path dir n)"
    "files s2 (data_path dir n) = files s1 (data_path dir n)"
    using assms(8) by simp_all
  show ?thesis unfolding f(8)
    by (rule undo_last_restores [where n = n and pre = pre and ?m0.0 = m0 and ?m1.0 = 384 and ?m2.0 = 438])
      (use f(1-6) g same assms(2,5,9) in auto)
qed

text \<open>Within one redirect application a path's preimage is taken once: a second snapshot of the
  same path succeeds with \<open>already\<close> and writes nothing.\<close>

theorem snapshot_once_per_window:
  assumes "rash_lua_snapshot_file ok env path s = ((True, None), s1)" and "apply_window_active s"
    and "rash_undo_abspath env path' = rash_undo_abspath env path"
    and "store_wf (rash_undo_dir env) (files s)" and "\<not> store_path (rash_undo_dir env) (rash_undo_abspath env path)"
    and "\<And>n. ok Do_write (meta_path (rash_undo_dir env) n)"
  shows "rash_lua_snapshot_file ok' env path' s1 = ((True, Some ''already''), s1)"
proof -
  have d: "files s1 (rash_undo_dir env) = Some Dir"
    using snapshot_success [OF assms(1,4,5,6) refl refl] by blast
  then have "sys_is_dir (rash_undo_dir env) (files s1)"
    using resolve_plain [of "files s1" "rash_undo_dir env"] by (simp add: sys_is_dir_def)
  with d have e: "rash_undo_ensure_dir ok' (rash_undo_dir env) (files s1) = (None, files s1)"
    by (simp add: rash_undo_ensure_dir_def)
  have "rash_apply_window_has (rash_undo_abspath env path) s1"
    using assms(1,2)
    by (auto simp: rash_lua_snapshot_file_def Let_def rash_apply_window_add_def rash_apply_window_has_def
        split: prod.splits option.splits fentry.splits if_splits)
  with e assms(3) show ?thesis by (simp add: rash_lua_snapshot_file_def Let_def rash_apply_window_has_def)
qed

section \<open>A concrete store\<close>

definition demo_env :: undo_env where
  "demo_env = \<lparr>ue_dir = Some ''/u'', ue_tmpdir = None, ue_pid = 1, ue_max = None, ue_cwd = Some ''/w''\<rparr>"

definition demo_files :: undo_state where
  "demo_files = \<lparr>files = [''/w/f'' \<mapsto> Reg ''old'' 420], apply_window_active = True, apply_window_paths = []\<rparr>"

lemma demo_undo_sel [simp]:
  "rash_undo_dir demo_env = ''/u''" "rash_undo_abspath demo_env ''f'' = ''/w/f''"
  "rash_undo_abspath demo_env ''/w/f'' = ''/w/f''" "ue_max demo_env = None"
  by (simp_all add: rash_undo_dir_def rash_undo_abspath_def demo_env_def)

lemma demo_store_wf: "store_wf ''/u'' (files demo_files)"
  by (auto simp: store_wf_def demo_files_def seq_path_def path_file_def meta_path_def data_path_def entry_dir_def)

lemma demo_store_out: "\<not> store_path ''/u'' ''/w/f''"
  by (simp add: store_path_def)

lemma demo_entry: "show_nat (Suc 0) = ''1''" "show_06 (Suc 0) = ''000001''"
proof -
  show d: "show_nat (Suc 0) = ''1''" by (simp add: show_nat.simps digit_char_def char_of_eq_iff)
  show "show_06 (Suc 0) = ''000001''" unfolding show_06_def d by (simp add: numeral_eq_Suc)
qed

lemmas demo_snapshot_defs = demo_entry demo_files_def rash_undo_ensure_dir_def rash_apply_window_has_def
  rash_undo_max_bytes_def RASH_UNDO_DEFAULT_MAX_BYTES_def rash_undo_next_seq_def seq_path_def resolve_plain seq_value_def
  strtoull_def scan_number_def write_entry_def sys_open_excl_def sys_open_trunc_def set_content_def path_file_def
  entry_dir_def meta_path_def data_path_def rash_undo_copy_file_def sys_open_read_def

lemma demo_snapshot: "\<exists>s1. rash_lua_snapshot_file no_faults demo_env ''f'' demo_files = ((True, None), s1)"
  by (simp add: rash_lua_snapshot_file_def demo_snapshot_defs Let_def)

theorem undo_restores_snapshot_witness:
  "\<exists>s1 s3. rash_lua_snapshot_file no_faults demo_env ''f'' demo_files = ((True, None), s1) \<and>
     rash_lua_undo_last no_faults demo_env (s1\<lparr>files := (files s1)(''/w/f'' \<mapsto> Reg ''new'' 384)\<rparr>) = ((True, None), s3) \<and>
     files s3 ''/w/f'' = Some (Reg ''old'' 420)"
proof -
  obtain s1 where s1: "rash_lua_snapshot_file no_faults demo_env ''f'' demo_files = ((True, None), s1)"
    using demo_snapshot by blast
  have "\<forall>q. store_path ''/u'' q \<longrightarrow> q \<noteq> ''/w/f''" using demo_store_out by auto
  then show ?thesis
    using undo_restores_snapshot [OF s1, of "''/u''" "''/w/f''" "s1\<lparr>files := (files s1)(''/w/f'' \<mapsto> Reg ''new'' 384)\<rparr>"]
      demo_store_wf demo_store_out s1
    by (auto simp: demo_files_def)
qed

theorem snapshot_once_per_window_witness:
  "\<exists>s1. rash_lua_snapshot_file no_faults demo_env ''f'' demo_files = ((True, None), s1) \<and>
     rash_lua_snapshot_file no_faults demo_env ''/w/f'' s1 = ((True, Some ''already''), s1)"
proof -
  obtain s1 where s1: "rash_lua_snapshot_file no_faults demo_env ''f'' demo_files = ((True, None), s1)"
    using demo_snapshot by blast
  show ?thesis
    using snapshot_once_per_window [OF s1, of "''/w/f''" no_faults] demo_store_wf demo_store_out s1
    by (simp add: demo_files_def)
qed

text \<open>An entry with an empty meta file is read as \<open>the file did not exist\<close>: the undo removes the file.\<close>

lemma empty_meta_undo_deletes:
  assumes s1: "files s1 ''/w/f'' = Some (Reg b m)" "files s1 ''/u'' = Some Dir"
    "files s1 ''/u/seq'' = Some (Reg (''1'' @ [CHR 0x0A]) 384)" "files s1 ''/u/000001/path'' = Some (Reg ''/w/f'' 384)"
    "files s1 ''/u/000001/meta'' = Some (Reg [] 438)"
  shows "\<exists>s2. rash_lua_undo_last no_faults demo_env s1 = ((True, None), s2) \<and> files s2 ''/w/f'' = None"
proof -
  have sd: "sys_is_dir ''/u'' (files s1)" using s1(2) resolve_plain [of "files s1" "''/u''"] by (simp add: sys_is_dir_def)
  have sv: "seq_value (''1'' @ [CHR 0x0A]) = Suc 0"
    by (simp add: seq_value_def strtoull_def scan_number_def c_isspace_def c_isdigit_def dec_value_def digit_value_def)
  have paths: "seq_path ''/u'' = ''/u/seq''" "path_file ''/u'' (Suc 0) = ''/u/000001/path''" "meta_path ''/u'' (Suc 0) = ''/u/000001/meta''"
    by (simp_all add: seq_path_def path_file_def meta_path_def entry_dir_def demo_entry)
  have "\<exists>s2. rash_lua_undo_last no_faults demo_env s1 = ((True, None), s2) \<and>
      files s2 = finish_undo no_faults ''/u'' (Suc 0) ((files s1)(''/w/f'' := None))"
    using s1 sd sv open_read_plain [of "files s1" "''/u/seq''"] open_read_plain [of "files s1" "''/u/000001/path''"]
      open_read_plain [of "files s1" "''/u/000001/meta''"] resolve_plain [of "files s1" "''/u/000001/meta''"]
    by (simp add: rash_lua_undo_last_def rash_undo_ensure_dir_def rash_undo_latest_seq_def paths sys_access_def
        rash_undo_read_path_def rash_undo_read_meta_def parse_meta_def)
  moreover have "finish_undo no_faults ''/u'' (Suc 0) ((files s1)(''/w/f'' := None)) ''/w/f'' = None"
    using finish_undo_frame [of "(files s1)(''/w/f'' := None)" "''/u''" _ _ "''/w/f''" "Suc 0"] s1(3) demo_store_out
    by (simp add: paths)
  ultimately show ?thesis by auto
qed

text \<open>A snapshot whose copy fails reports the failure but leaves its entry with an empty meta file.\<close>

definition read_fault :: faults where
  "read_fault call p \<longleftrightarrow> \<not> (call = Do_read \<and> p = ''/w/f'')"

lemma failed_snapshot_then_undo_deletes:
  "\<exists>s1 s2 msg. rash_lua_snapshot_file read_fault demo_env ''f'' demo_files = ((False, Some msg), s1) \<and>
     files s1 ''/w/f'' = Some (Reg ''old'' 420) \<and>
     rash_lua_undo_last no_faults demo_env s1 = ((True, None), s2) \<and> files s2 ''/w/f'' = None"
proof -
  obtain s1 msg where s1: "rash_lua_snapshot_file read_fault demo_env ''f'' demo_files = ((False, Some msg), s1)"
    "files s1 ''/w/f'' = Some (Reg ''old'' 420)" "files s1 ''/u'' = Some Dir"
    "files s1 ''/u/seq'' = Some (Reg (''1'' @ [CHR 0x0A]) 384)" "files s1 ''/u/000001/path'' = Some (Reg ''/w/f'' 384)"
    "files s1 ''/u/000001/meta'' = Some (Reg [] 438)"
    by (simp add: rash_lua_snapshot_file_def demo_snapshot_defs Let_def read_fault_def sys_unlink_def)
  from empty_meta_undo_deletes [OF s1(2-6)] s1(1,2) show ?thesis by blast
qed

text \<open>The errors of writing the meta file are not looked at: the snapshot reports success, and the undo,
  which meets no fault, removes the file.\<close>

definition meta_fault :: faults where
  "meta_fault call p \<longleftrightarrow> \<not> (call = Do_write \<and> p = ''/u/000001/meta'')"

lemma unwritten_meta_then_undo_deletes:
  "\<exists>s1 s2. rash_lua_snapshot_file meta_fault demo_env ''f'' demo_files = ((True, None), s1) \<and>
     files s1 ''/w/f'' = Some (Reg ''old'' 420) \<and>
     rash_lua_undo_last no_faults demo_env s1 = ((True, None), s2) \<and> files s2 ''/w/f'' = None"
proof -
  obtain s1 where s1: "rash_lua_snapshot_file meta_fault demo_env ''f'' demo_files = ((True, None), s1)"
    "files s1 ''/w/f'' = Some (Reg ''old'' 420)" "files s1 ''/u'' = Some Dir"
    "files s1 ''/u/seq'' = Some (Reg (''1'' @ [CHR 0x0A]) 384)" "files s1 ''/u/000001/path'' = Some (Reg ''/w/f'' 384)"
    "files s1 ''/u/000001/meta'' = Some (Reg [] 438)"
    by (simp add: rash_lua_snapshot_file_def demo_snapshot_defs Let_def meta_fault_def rash_apply_window_add_def)
  from empty_meta_undo_deletes [OF s1(2-6)] s1(1,2) show ?thesis by blast
qed

end
