(* ===== verification/Glob_Bracket.thy ===== *)
theory Glob_Bracket
  imports Shell_Types
begin

text \<open>
  Pattern matching, bracket expressions (lib/glob/sm_loop.c and lib/glob/smatch.c, compiled for
  single-byte characters): collating symbols, character classes, \<open>PARSE_SUBBRACKET\<close> and \<open>BRACKMATCH\<close>.
  A pointer into a string is the rest of the string from there; reading the end gives the
  terminating NUL. What the locale says (case, collation, character classes) is a port.
\<close>

section \<open>The locale and the flags\<close>

datatype char_class =
    CC_ASCII | CC_ALNUM | CC_ALPHA | CC_BLANK | CC_CNTRL | CC_DIGIT | CC_GRAPH
  | CC_LOWER | CC_PRINT | CC_PUNCT | CC_SPACE | CC_UPPER | CC_WORD | CC_XDIGIT

record glob_locale =
  locale_utf8locale :: bool
  glob_asciirange :: bool
  c_tolower :: "char \<Rightarrow> char"
  c_strcoll :: "cstring \<Rightarrow> cstring \<Rightarrow> int"
  c_ctype :: "char_class \<Rightarrow> char \<Rightarrow> bool"
  fnmatch_equiv :: "char \<Rightarrow> char \<Rightarrow> bool"

definition FNM_PATHNAME :: "32 word" where "FNM_PATHNAME = 0x01"
definition FNM_NOESCAPE :: "32 word" where "FNM_NOESCAPE = 0x02"
definition FNM_PERIOD :: "32 word" where "FNM_PERIOD = 0x04"
definition FNM_LEADING_DIR :: "32 word" where "FNM_LEADING_DIR = 0x08"
definition FNM_CASEFOLD :: "32 word" where "FNM_CASEFOLD = 0x10"
definition FNM_EXTMATCH :: "32 word" where "FNM_EXTMATCH = 0x20"
definition FNM_DOTDOT :: "32 word" where "FNM_DOTDOT = 0x80"

definition NUL :: char where "NUL = CHR 0x00"

text \<open>\<open>*p\<close>\<close>

definition deref :: "cstring \<Rightarrow> char" where
  "deref p = (case p of [] \<Rightarrow> NUL | c # q \<Rightarrow> c)"

definition UTF8_SINGLEBYTE :: "char \<Rightarrow> bool" where
  "UTF8_SINGLEBYTE c \<longleftrightarrow> (of_char c :: nat) < 128"

text \<open>\<open>FOLD\<close>\<close>

definition fold_char :: "glob_locale \<Rightarrow> 32 word \<Rightarrow> char \<Rightarrow> char" where
  "fold_char e flags c =
     (if has_flag flags FNM_CASEFOLD \<and> (\<not> locale_utf8locale e \<or> UTF8_SINGLEBYTE c) then c_tolower e c else c)"

section \<open>Collation and classes\<close>

definition char_string :: "char \<Rightarrow> cstring" where
  "char_string c = (if c = NUL then [] else [c])"

definition charcmp :: "glob_locale \<Rightarrow> char \<Rightarrow> char \<Rightarrow> bool \<Rightarrow> int" where
  "charcmp e c1 c2 forcecoll =
     (if c1 = c2 then 0
      else if \<not> forcecoll \<and> glob_asciirange e then of_char c1 - of_char c2
      else c_strcoll e (char_string c1) (char_string c2))"

definition rangecmp :: "glob_locale \<Rightarrow> char \<Rightarrow> char \<Rightarrow> bool \<Rightarrow> int" where
  "rangecmp e c1 c2 forcecoll = (let r = charcmp e c1 c2 forcecoll in if r \<noteq> 0 then r else of_char c1 - of_char c2)"

definition collseqcmp :: "glob_locale \<Rightarrow> char \<Rightarrow> char \<Rightarrow> bool" where
  "collseqcmp e c pc =
     (if locale_utf8locale e \<and> (\<not> UTF8_SINGLEBYTE c \<or> \<not> UTF8_SINGLEBYTE pc) then c = pc
      else charcmp e c pc True = 0 \<or> fnmatch_equiv e c pc)"

definition posix_collsyms :: "(cstring \<times> char) list" where
  "posix_collsyms =
     [(''NUL'', CHR 0x00), (''SOH'', CHR 0x01), (''STX'', CHR 0x02), (''ETX'', CHR 0x03), (''EOT'', CHR 0x04),
      (''ENQ'', CHR 0x05), (''ACK'', CHR 0x06), (''alert'', CHR 0x07), (''BS'', CHR 0x08), (''backspace'', CHR 0x08),
      (''HT'', CHR 0x09), (''tab'', CHR 0x09), (''LF'', CHR 0x0A), (''newline'', CHR 0x0A), (''VT'', CHR 0x0B),
      (''vertical-tab'', CHR 0x0B), (''FF'', CHR 0x0C), (''form-feed'', CHR 0x0C), (''CR'', CHR 0x0D),
      (''carriage-return'', CHR 0x0D), (''SO'', CHR 0x0E), (''SI'', CHR 0x0F), (''DLE'', CHR 0x10), (''DC1'', CHR 0x11),
      (''DC2'', CHR 0x12), (''DC3'', CHR 0x13), (''DC4'', CHR 0x14), (''NAK'', CHR 0x15), (''SYN'', CHR 0x16),
      (''ETB'', CHR 0x17), (''CAN'', CHR 0x18), (''EM'', CHR 0x19), (''SUB'', CHR 0x1A), (''ESC'', CHR 0x1B),
      (''IS4'', CHR 0x1C), (''FS'', CHR 0x1C), (''IS3'', CHR 0x1D), (''GS'', CHR 0x1D), (''IS2'', CHR 0x1E),
      (''RS'', CHR 0x1E), (''IS1'', CHR 0x1F), (''US'', CHR 0x1F), (''space'', CHR 0x20), (''exclamation-mark'', CHR 0x21),
      (''quotation-mark'', CHR 0x22), (''number-sign'', CHR 0x23), (''dollar-sign'', CHR 0x24),
      (''percent-sign'', CHR 0x25), (''ampersand'', CHR 0x26), (''apostrophe'', CHR 0x27),
      (''left-parenthesis'', CHR 0x28), (''right-parenthesis'', CHR 0x29), (''asterisk'', CHR 0x2A),
      (''plus-sign'', CHR 0x2B), (''comma'', CHR 0x2C), (''hyphen'', CHR 0x2D), (''hyphen-minus'', CHR 0x2D),
      (''minus'', CHR 0x2D), (''dash'', CHR 0x2D), (''period'', CHR 0x2E), (''full-stop'', CHR 0x2E),
      (''slash'', CHR 0x2F), (''solidus'', CHR 0x2F), (''zero'', CHR 0x30), (''one'', CHR 0x31), (''two'', CHR 0x32),
      (''three'', CHR 0x33), (''four'', CHR 0x34), (''five'', CHR 0x35), (''six'', CHR 0x36), (''seven'', CHR 0x37),
      (''eight'', CHR 0x38), (''nine'', CHR 0x39), (''colon'', CHR 0x3A), (''semicolon'', CHR 0x3B),
      (''less-than-sign'', CHR 0x3C), (''equals-sign'', CHR 0x3D), (''greater-than-sign'', CHR 0x3E),
      (''question-mark'', CHR 0x3F), (''commercial-at'', CHR 0x40), (''left-square-bracket'', CHR 0x5B),
      (''backslash'', CHR 0x5C), (''reverse-solidus'', CHR 0x5C), (''right-square-bracket'', CHR 0x5D),
      (''circumflex'', CHR 0x5E), (''circumflex-accent'', CHR 0x5E), (''underscore'', CHR 0x5F),
      (''grave-accent'', CHR 0x60), (''left-brace'', CHR 0x7B), (''left-curly-bracket'', CHR 0x7B),
      (''vertical-line'', CHR 0x7C), (''right-brace'', CHR 0x7D), (''right-curly-bracket'', CHR 0x7D),
      (''tilde'', CHR 0x7E), (''DEL'', CHR 0x7F)]"

text \<open>\<open>INVALID\<close>, as the byte that its callers store.\<close>

definition INVALID_BYTE :: char where "INVALID_BYTE = CHR 0xFF"

definition collsym :: "cstring \<Rightarrow> nat \<Rightarrow> char" where
  "collsym s len =
     (case map_of posix_collsyms (take len s) of
        Some c \<Rightarrow> c
      | None \<Rightarrow> if len = 1 then deref s else INVALID_BYTE)"

definition cclass_name :: "(cstring \<times> char_class) list" where
  "cclass_name =
     [(''ascii'', CC_ASCII), (''alnum'', CC_ALNUM), (''alpha'', CC_ALPHA), (''blank'', CC_BLANK), (''cntrl'', CC_CNTRL),
      (''digit'', CC_DIGIT), (''graph'', CC_GRAPH), (''lower'', CC_LOWER), (''print'', CC_PRINT), (''punct'', CC_PUNCT),
      (''space'', CC_SPACE), (''upper'', CC_UPPER), (''word'', CC_WORD), (''xdigit'', CC_XDIGIT)]"

definition is_valid_cclass :: "cstring \<Rightarrow> char_class option" where
  "is_valid_cclass name = map_of cclass_name name"

definition cclass_test :: "glob_locale \<Rightarrow> char \<Rightarrow> char_class \<Rightarrow> bool" where
  "cclass_test e c k =
     (case k of
        CC_ASCII \<Rightarrow> (of_char c :: nat) \<le> 0x7F
      | CC_WORD \<Rightarrow> c_ctype e CC_ALNUM c \<or> c = CHR ''_''
      | _ \<Rightarrow> c_ctype e k c)"

text \<open>None is the - 1 for a name that is no class, or a byte that is no character.\<close>

definition is_cclass :: "glob_locale \<Rightarrow> char \<Rightarrow> cstring \<Rightarrow> bool option" where
  "is_cclass e c name =
     (if locale_utf8locale e \<and> \<not> UTF8_SINGLEBYTE c then None
      else map_option (cclass_test e c) (is_valid_cclass name))"

text \<open>A backslash before each character is dropped.\<close>

fun udequote_pathname :: "cstring \<Rightarrow> cstring" where
  "udequote_pathname [] = []"
| "udequote_pathname (c # s) =
     (if c = CHR 0x5C then (case s of [] \<Rightarrow> [] | d # s' \<Rightarrow> d # udequote_pathname s')
      else c # udequote_pathname s)"

section \<open>Bracket expressions\<close>

definition slash_pathname :: "32 word \<Rightarrow> char \<Rightarrow> bool" where
  "slash_pathname flags c \<longleftrightarrow> c = CHR ''/'' \<and> has_flag flags FNM_PATHNAME"

text \<open>\<open>PARSE_SUBBRACKET\<close>: the pointer to the closing \<open>.]\<close>, \<open>=]\<close> or \<open>:]\<close>.\<close>

fun subbracket_loop :: "32 word \<Rightarrow> char \<Rightarrow> cstring \<Rightarrow> cstring option" where
  "subbracket_loop flags type [] = None"
| "subbracket_loop flags type (c # p) =
     (if slash_pathname flags c \<or> type \<noteq> CHR ''.'' \<and> c = CHR '']'' then None
      else if c = type \<and> deref p = CHR '']'' then Some (c # p)
      else subbracket_loop flags type p)"

definition parse_subbracket :: "cstring \<Rightarrow> 32 word \<Rightarrow> cstring option" where
  "parse_subbracket p flags = subbracket_loop flags (deref p) (tl p)"

text \<open>Where a bracket expression got to: it has no closing bracket, it matched an element (with the pointer
  from which the rest is skipped), or it ended without a match.\<close>

datatype bracket_end = Unclosed | Matched cstring | Ended cstring

text \<open>After a class or an equivalence class that does not match.\<close>

definition bracket_next :: "glob_locale \<Rightarrow> 32 word \<Rightarrow> (char \<Rightarrow> cstring \<Rightarrow> bracket_end) \<Rightarrow> cstring \<Rightarrow> bracket_end" where
  "bracket_next e flags loop p =
     (let c = deref p
      in if c = NUL \<or> slash_pathname flags c then Unclosed
         else if c = CHR '']'' then Ended (tl p)
         else loop (fold_char e flags c) (tl p))"

text \<open>One element is a range from \<open>cstart\<close>; \<open>p\<close> is after the dash.\<close>

definition bracket_range ::
  "glob_locale \<Rightarrow> 32 word \<Rightarrow> (char \<Rightarrow> cstring \<Rightarrow> bracket_end) \<Rightarrow> char \<Rightarrow> char \<Rightarrow> bool \<Rightarrow> cstring \<Rightarrow> bracket_end" where
  "bracket_range e flags loop test cstart forcecoll p =
     (let escaped = (\<not> has_flag flags FNM_NOESCAPE \<and> deref p = CHR 0x5C);
          cend = (if escaped then deref (tl p) else deref p);
          p1 = (if escaped then tl (tl p) else tl p)
      in if cend = NUL \<or> slash_pathname flags cend then Unclosed
         else let (cend, p2, forcecoll) =
                    (case (if cend = CHR ''['' \<and> deref p1 = CHR ''.'' then parse_subbracket p1 flags else None) of
                       Some close \<Rightarrow> (collsym (tl p1) (length (tl p1) - length close), drop 2 close, True)
                     | None \<Rightarrow> (cend, p1, forcecoll));
                  cend = fold_char e flags cend;
                  c = deref p2
              in if rangecmp e cstart cend forcecoll > 0 then
                   (if c = CHR '']'' then Ended (tl p2) else loop (fold_char e flags c) (tl p2))
                 else if rangecmp e test cstart forcecoll \<ge> 0 \<and> rangecmp e test cend forcecoll \<le> 0 then Matched p2
                 else if c = CHR '']'' then Ended (tl p2)
                 else loop c (tl p2))"

text \<open>One element that starts with the character \<open>c\<close>, which may be a collating symbol or quoted; \<open>p\<close> is
  after it.\<close>

definition bracket_char ::
  "glob_locale \<Rightarrow> 32 word \<Rightarrow> (char \<Rightarrow> cstring \<Rightarrow> bracket_end) \<Rightarrow> char \<Rightarrow> char \<Rightarrow> cstring \<Rightarrow> bracket_end" where
  "bracket_char e flags loop test c p =
     (let (cstart, p1, forcecoll) =
            (case (if c = CHR ''['' \<and> deref p = CHR ''.'' then parse_subbracket p flags else None) of
               Some close \<Rightarrow> (collsym (tl p) (length (tl p) - length close), drop 2 close, True)
             | None \<Rightarrow> (c, p, False));
          escaped = (\<not> has_flag flags FNM_NOESCAPE \<and> c = CHR 0x5C)
      in if escaped \<and> (deref p1 = NUL \<or> slash_pathname flags (deref p1)) then Unclosed
         else let cstart = fold_char e flags (if escaped then deref p1 else cstart);
                  p2 = (if escaped then tl p1 else p1)
              in if c = NUL \<or> slash_pathname flags c then Unclosed
                 else let c' = fold_char e flags (deref p2); p3 = tl p2
                      in if c' = NUL \<or> slash_pathname flags c' then Unclosed
                         else if c' = CHR ''-'' \<and> deref p3 \<noteq> CHR '']'' then bracket_range e flags loop test cstart forcecoll p3
                         else if test = cstart then Matched p2
                         else if c' = CHR '']'' then Ended p3
                         else loop c' p3)"

text \<open>The loop of \<open>BRACKMATCH\<close> at its head: the character \<open>c\<close> has been read, \<open>p\<close> is after it. Each turn
  reads at least one character.\<close>

primrec bracket_loop :: "glob_locale \<Rightarrow> 32 word \<Rightarrow> char \<Rightarrow> nat \<Rightarrow> char \<Rightarrow> cstring \<Rightarrow> bracket_end" where
  "bracket_loop e flags orig_test 0 c p = Unclosed"
| "bracket_loop e flags orig_test (Suc k) c p =
     (let test = fold_char e flags orig_test; loop = bracket_loop e flags orig_test k
      in case (if c = CHR ''['' \<and> (deref p = CHR ''='' \<or> deref p = CHR '':'') then parse_subbracket p flags else None) of
           Some close \<Rightarrow>
             let found = (if deref p = CHR ''=''
                          then collseqcmp e test (fold_char e flags (collsym (tl p) (length (tl p) - length close)))
                          else is_cclass e orig_test (udequote_pathname (take (length (tl p) - length close) (tl p))) = Some True)
             in if found then Matched (drop 2 close) else bracket_next e flags loop (drop 2 close)
         | None \<Rightarrow> bracket_char e flags loop test c p)"

text \<open>After \<open>matched\<close>: the rest of the expression is skipped.\<close>

fun bracket_skip :: "32 word \<Rightarrow> nat \<Rightarrow> cstring \<Rightarrow> cstring option" where
  "bracket_skip flags 0 p = None"
| "bracket_skip flags (Suc k) p =
     (let c = deref p; q = tl p
      in if c = NUL \<or> slash_pathname flags c then None
         else if c = CHR ''['' \<and> deref q \<in> {CHR ''='', CHR '':'', CHR ''.''} then
           bracket_skip flags k (case parse_subbracket q flags of Some close \<Rightarrow> drop 2 close | None \<Rightarrow> q)
         else if c = CHR '']'' then Some q
         else if \<not> has_flag flags FNM_NOESCAPE \<and> c = CHR 0x5C then
           (if deref q = NUL \<or> slash_pathname flags (deref q) then None else bracket_skip flags k (tl q))
         else bracket_skip flags k q)"

text \<open>\<open>BRACKMATCH\<close>; \<open>p\<close> is after the opening bracket. The answer is the pointer after the expression, or that
  after the opening bracket when it is just a character, or None.\<close>

definition brackmatch :: "glob_locale \<Rightarrow> cstring \<Rightarrow> char \<Rightarrow> 32 word \<Rightarrow> cstring option" where
  "brackmatch e p test flags =
     (let not = (deref p = CHR ''!'' \<or> deref p = CHR ''^'');
          q = (if not then tl p else p);
          literal = (if fold_char e flags test = CHR ''['' then Some p else None)
      in case bracket_loop e flags test (Suc (length p)) (deref q) (tl q) of
           Unclosed \<Rightarrow> literal
         | Ended r \<Rightarrow> if not then Some r else None
         | Matched r \<Rightarrow>
             (case bracket_skip flags (Suc (length r)) r of
                None \<Rightarrow> literal
              | Some r' \<Rightarrow> if not then None else Some r'))"

section \<open>Where the rest of a pattern starts\<close>

lemma length_tl_less [simp]: "p \<noteq> [] \<Longrightarrow> length (tl p) < length p"
  by (cases p) auto

lemma deref_Cons [simp]: "deref (c # p) = c"
  by (simp add: deref_def)

lemma deref_Nil [simp]: "deref [] = NUL"
  by (simp add: deref_def)

lemma deref_not_NUL: "deref p \<noteq> NUL \<Longrightarrow> p \<noteq> []"
  by auto

lemma NUL_not [simp]:
  "NUL \<noteq> CHR '']''" "NUL \<noteq> CHR ''=''" "NUL \<noteq> CHR '':''" "NUL \<noteq> CHR ''.''" "NUL \<noteq> CHR ''!''" "NUL \<noteq> CHR ''^''"
  "NUL \<noteq> CHR ''-''" "NUL \<noteq> CHR ''/''" "NUL \<noteq> CHR 0x5C" "NUL \<noteq> CHR ''[''" "NUL \<noteq> CHR ''?''" "NUL \<noteq> CHR ''*''"
  "NUL \<noteq> CHR ''(''" "NUL \<noteq> CHR '')''" "NUL \<noteq> CHR ''|''" "NUL \<noteq> CHR ''+''" "NUL \<noteq> CHR ''@''"
  by (simp_all add: NUL_def)

lemmas NUL_not' [simp] = NUL_not [symmetric]

text \<open>\<open>q\<close> is a later pointer into the string of \<open>p\<close>.\<close>

definition from_here :: "cstring \<Rightarrow> cstring \<Rightarrow> bool" where
  "from_here p q \<longleftrightarrow> (\<exists>k. q = drop k p)"

lemma from_here_refl [simp, intro]: "from_here p p"
  unfolding from_here_def by (rule exI [of _ 0]) simp

lemma from_here_drop [simp, intro]: "from_here p (drop k p)"
  by (auto simp: from_here_def)

lemma from_here_tl [simp, intro]: "from_here p (tl p)"
  using from_here_drop [of p 1] by (simp add: drop_Suc)

lemma from_here_trans [trans]: "from_here p q \<Longrightarrow> from_here q r \<Longrightarrow> from_here p r"
  by (auto simp: from_here_def)

lemma from_here_tlI [intro]: "from_here (tl p) q \<Longrightarrow> from_here p q"
  using from_here_trans [OF from_here_tl] .

lemma from_here_Cons [intro]: "from_here p q \<Longrightarrow> from_here (c # p) q"
  using from_here_tlI [of "c # p" q] by simp

lemma from_here_length: "from_here p q \<Longrightarrow> length q \<le> length p"
  by (auto simp: from_here_def)

lemma subbracket_from_here: "subbracket_loop flags type p = Some q \<Longrightarrow> from_here p q \<and> q \<noteq> []"
  by (induction flags type p rule: subbracket_loop.induct) (auto split: if_splits intro: from_here_tlI)

lemma parse_subbracket_from_here: "parse_subbracket p flags = Some q \<Longrightarrow> from_here p (drop 2 q)"
  unfolding parse_subbracket_def
  using subbracket_from_here from_here_trans [OF from_here_tl] from_here_trans [OF _ from_here_drop] by metis

text \<open>The pointers that a result holds come later.\<close>

definition end_from :: "cstring \<Rightarrow> bracket_end \<Rightarrow> bool" where
  "end_from p r \<longleftrightarrow> (case r of Unclosed \<Rightarrow> True | Matched q \<Rightarrow> from_here p q | Ended q \<Rightarrow> from_here p q)"

lemma end_from_simps [simp]:
  "end_from p Unclosed" "end_from p (Matched q) \<longleftrightarrow> from_here p q" "end_from p (Ended q) \<longleftrightarrow> from_here p q"
  by (simp_all add: end_from_def)

lemma end_from_trans: "from_here p q \<Longrightarrow> end_from q r \<Longrightarrow> end_from p r"
  by (auto simp: end_from_def intro: from_here_trans split: bracket_end.splits)

lemma end_from_tl: "(\<And>c p. end_from p (loop c p)) \<Longrightarrow> end_from p (loop c (tl p))"
  by (rule end_from_trans [OF from_here_tl])

lemma bracket_next_from: "(\<And>c p. end_from p (loop c p)) \<Longrightarrow> end_from p (bracket_next e flags loop p)"
  by (simp add: bracket_next_def Let_def end_from_tl)

lemma subbracket_case_from:
  assumes "(case (if b then parse_subbracket p flags else None) of
      Some close \<Rightarrow> (g close, drop 2 close, True) | None \<Rightarrow> (y, p, z)) = (x, q, f)"
  shows "from_here p q"
  using assms parse_subbracket_from_here [of p flags] by (auto split: option.splits if_splits)

lemma bracket_range_from:
  assumes loop: "\<And>c p. end_from p (loop c p)"
  shows "end_from p (bracket_range e flags loop test cstart forcecoll p)"
proof -
  define escaped where "escaped = (\<not> has_flag flags FNM_NOESCAPE \<and> deref p = CHR 0x5C)"
  define p1 where "p1 = (if escaped then tl (tl p) else tl p)"
  define cend where "cend = (if escaped then deref (tl p) else deref p)"
  obtain x p2 f where x: "(case (if cend = CHR ''['' \<and> deref p1 = CHR ''.'' then parse_subbracket p1 flags else None) of
      Some close \<Rightarrow> (collsym (tl p1) (length (tl p1) - length close), drop 2 close, True) | None \<Rightarrow> (cend, p1, forcecoll)) = (x, p2, f)"
    by (rule prod_cases3)
  have "from_here p p1" unfolding p1_def by (simp add: from_here_tlI)
  also have "from_here p1 p2" by (rule subbracket_case_from [OF x])
  finally have p2: "from_here p p2" .
  have after: "end_from p2 (loop c (tl p2))" for c using loop by (rule end_from_tl)
  have "end_from p2 (bracket_range e flags loop test cstart forcecoll p)"
    unfolding bracket_range_def escaped_def [symmetric] cend_def [symmetric] p1_def [symmetric] x Let_def prod.case
    by (simp add: after)
  with p2 show ?thesis by (rule end_from_trans)
qed

lemma bracket_char_from:
  assumes loop: "\<And>c p. end_from p (loop c p)"
  shows "end_from p (bracket_char e flags loop test c p)"
proof -
  define escaped where "escaped = (\<not> has_flag flags FNM_NOESCAPE \<and> c = CHR 0x5C)"
  obtain cstart p1 force where x: "(case (if c = CHR ''['' \<and> deref p = CHR ''.'' then parse_subbracket p flags else None) of
               Some close \<Rightarrow> (collsym (tl p) (length (tl p) - length close), drop 2 close, True)
             | None \<Rightarrow> (c, p, False)) = (cstart, p1, force)" by (rule prod_cases3)
  define p2 where "p2 = (if escaped then tl p1 else p1)"
  have "from_here p p1" by (rule subbracket_case_from [OF x])
  also have "from_here p1 p2" by (simp add: p2_def)
  finally have p2: "from_here p p2" .
  have after: "end_from p2 (loop d (tl p2))" for d using loop by (rule end_from_tl)
  have range: "end_from p2 (bracket_range e flags loop test cs force (tl p2))" for cs
    by (rule end_from_trans [OF from_here_tl bracket_range_from [OF loop]])
  have "end_from p2 (bracket_char e flags loop test c p)"
    unfolding bracket_char_def escaped_def [symmetric] x Let_def prod.case p2_def [symmetric]
    by (simp add: after range)
  with p2 show ?thesis by (rule end_from_trans)
qed

lemma bracket_loop_from: "end_from p (bracket_loop e flags t k c p)"
proof (induction k arbitrary: c p)
  case (Suc k)
  define close where "close = (if c = CHR ''['' \<and> (deref p = CHR ''='' \<or> deref p = CHR '':'') then parse_subbracket p flags else None)"
  show ?case
  proof (cases close)
    case None
    then have "bracket_loop e flags t (Suc k) c p = bracket_char e flags (bracket_loop e flags t k) (fold_char e flags t) c p"
      unfolding bracket_loop.simps Let_def close_def [symmetric] by (simp del: bracket_loop.simps)
    then show ?thesis using bracket_char_from [of "bracket_loop e flags t k", OF Suc] by simp
  next
    case (Some q)
    then have q: "from_here p (drop 2 q)" using parse_subbracket_from_here [of p flags q] by (simp add: close_def split: if_splits)
    have "end_from (drop 2 q) (bracket_next e flags (bracket_loop e flags t k) (drop 2 q))" by (rule bracket_next_from) (rule Suc)
    then have "end_from (drop 2 q) (bracket_loop e flags t (Suc k) c p)"
      unfolding bracket_loop.simps Let_def close_def [symmetric] Some option.case by (simp del: bracket_loop.simps)
    with q show ?thesis by (rule end_from_trans)
  qed
qed simp

lemma bracket_skip_from: "bracket_skip flags k p = Some q \<Longrightarrow> from_here p q"
proof (induction k arbitrary: p)
  case (Suc k)
  define c where "c = deref p"
  define sub where "sub = (case parse_subbracket (tl p) flags of Some close \<Rightarrow> drop 2 close | None \<Rightarrow> tl p)"
  have sub: "from_here p sub"
    unfolding sub_def using from_here_trans [OF from_here_tl parse_subbracket_from_here, of p flags] by (simp split: option.split)
  have step: "from_here p q" if "from_here p r" "bracket_skip flags k r = Some q" for r
    using that(1) Suc.IH [OF that(2)] by (rule from_here_trans)
  have two: "from_here p (tl (tl p))" by (simp add: from_here_tlI)
  from Suc.prems show ?case
    unfolding bracket_skip.simps Let_def c_def [symmetric] sub_def [symmetric]
    using step [OF sub] step [OF from_here_tl] step [OF two] from_here_tl [of p] by (auto split: if_splits)
qed simp

lemma brackmatch_from_here: "brackmatch e p t flags = Some q \<Longrightarrow> from_here p q"
proof -
  assume r: "brackmatch e p t flags = Some q"
  define s where "s = (if deref p = CHR ''!'' \<or> deref p = CHR ''^'' then tl p else p)"
  have s: "from_here p (tl s)" by (simp add: s_def from_here_tlI)
  define b where "b = bracket_loop e flags t (Suc (length p)) (deref s) (tl s)"
  have b: "end_from p b" unfolding b_def by (rule end_from_trans [OF s bracket_loop_from])
  from r have "q = p \<or> b = Ended q \<or> (\<exists>u. b = Matched u \<and> bracket_skip flags (Suc (length u)) u = Some q)"
    unfolding brackmatch_def Let_def s_def [symmetric] b_def [symmetric]
    by (auto split: bracket_end.splits option.splits if_splits simp del: bracket_skip.simps)
  with b show ?thesis using bracket_skip_from from_here_trans by (auto simp del: bracket_skip.simps)
qed

end
