(* ===== verification/Glob_Match.thy ===== *)
theory Glob_Match
  imports Glob_Bracket
begin

text \<open>
  Pattern matching (lib/glob/sm_loop.c): \<open>GMATCH\<close> with its way of not backtracking behind the last star,
  \<open>EXTMATCH\<close> for \<open>?(...)\<close>, \<open>*(...)\<close>, \<open>+(...)\<close>, \<open>@(...)\<close> and \<open>!(...)\<close>, and \<open>PATSCAN\<close>. A pointer is the rest of its buffer; the ends
  \<open>se\<close> and \<open>pe\<close> of the string and of the pattern are given by what is left of the buffer there, so that
  \<open>n == se\<close> is \<open>length n = se\<close>. The recursion has a bound; None is a run that reaches it. Interrupts are
  left out.
\<close>

section \<open>Scanning a list of patterns\<close>

text \<open>\<open>PATSCAN\<close>: the nesting of parentheses, whether inside a bracket expression and where that began
  (\<open>bfirst\<close>, by what is left there), and whether the last character was a backslash.\<close>

primrec patscan_loop :: "32 word \<Rightarrow> nat \<Rightarrow> bool \<Rightarrow> nat \<Rightarrow> nat \<Rightarrow> bool \<Rightarrow> nat option \<Rightarrow> bool \<Rightarrow> cstring \<Rightarrow> cstring option" where
  "patscan_loop flags pe bar 0 pnest bnest bfirst skip s = None"
| "patscan_loop flags pe bar (Suc k) pnest bnest bfirst skip s =
     (let c = deref s; loop = patscan_loop flags pe bar k
      in if c = NUL then None
         else if length s \<le> pe then Some s
         else if skip then loop pnest bnest bfirst False (tl s)
         else if c = CHR 0x5C then loop pnest bnest bfirst (\<not> has_flag flags FNM_NOESCAPE) (tl s)
         else if c = CHR ''['' then
           (if \<not> bnest then
              loop pnest True
                (Some (length (if deref (tl s) = CHR ''!'' \<or> deref (tl s) = CHR ''^'' then tl (tl s) else tl s))) False (tl s)
            else if deref (tl s) \<in> {CHR '':'', CHR ''.'', CHR ''=''} then
              (case parse_subbracket (tl s) flags of
                 Some t \<Rightarrow> loop pnest bnest bfirst False (drop 2 t)
               | None \<Rightarrow> loop pnest bnest bfirst False (tl s))
            else loop pnest bnest bfirst False (tl s))
         else if c = CHR '']'' then
           (if bnest \<and> bfirst \<noteq> Some (length s) then loop pnest False None False (tl s)
            else loop pnest bnest bfirst False (tl s))
         else if c = CHR ''('' then loop (if bnest then pnest else Suc pnest) bnest bfirst False (tl s)
         else if c = CHR '')'' \<and> \<not> bnest then (if pnest = 0 then Some (tl s) else loop (pnest - 1) bnest bfirst False (tl s))
         else if c = CHR ''|'' \<and> \<not> bnest \<and> pnest = 0 \<and> bar then Some (tl s)
         else loop pnest bnest bfirst False (tl s))"

definition patscan :: "cstring \<Rightarrow> nat \<Rightarrow> bool \<Rightarrow> 32 word \<Rightarrow> cstring option" where
  "patscan s pe bar flags = (if length s = pe then None else patscan_loop flags pe bar (Suc (length s)) 0 False None False s)"

section \<open>Results\<close>

text \<open>\<open>At_Star\<close> is the 0 that a call with \<open>ends\<close> returns when it comes to a star: where the star is and
  where the string was.\<close>

datatype gresult = Match | No_Match | At_Star cstring cstring

text \<open>A recursive call: flags, whether \<open>ends\<close> is given, where the string starts, the two ends, the string and
  the pattern.\<close>

type_synonym gcall = "32 word \<Rightarrow> bool \<Rightarrow> cstring \<Rightarrow> nat \<Rightarrow> nat \<Rightarrow> cstring \<Rightarrow> cstring \<Rightarrow> gresult option"

definition succeeds :: "gresult option \<Rightarrow> bool option" where
  "succeeds = map_option (\<lambda>r. r \<noteq> No_Match)"

definition then_also :: "bool option \<Rightarrow> bool option \<Rightarrow> bool option" where
  "then_also a b = (case a of Some True \<Rightarrow> b | _ \<Rightarrow> a)"

definition or_else :: "bool option \<Rightarrow> bool option \<Rightarrow> bool option" where
  "or_else a b = (case a of Some False \<Rightarrow> b | _ \<Rightarrow> a)"

primrec any_of :: "('a \<Rightarrow> bool option) \<Rightarrow> 'a list \<Rightarrow> bool option" where
  "any_of f [] = Some False"
| "any_of f (x # xs) = or_else (f x) (any_of f xs)"

definition matched :: "bool option \<Rightarrow> gresult option" where
  "matched = map_option (\<lambda>b. if b then Match else No_Match)"

text \<open>The pointers from \<open>s\<close> up to the end.\<close>

definition pointers :: "cstring \<Rightarrow> nat \<Rightarrow> cstring list" where
  "pointers s se = map (\<lambda>k. drop k s) [0..<Suc (length s - se)]"

definition not_at_start :: "32 word \<Rightarrow> 32 word" where
  "not_at_start flags = flags AND NOT (FNM_PERIOD OR FNM_DOTDOT)"

section \<open>Extended patterns\<close>

text \<open>\<open>STRCOMPARE\<close>\<close>

definition strcompare :: "glob_locale \<Rightarrow> cstring \<Rightarrow> nat \<Rightarrow> cstring \<Rightarrow> nat \<Rightarrow> bool" where
  "strcompare e p pe s se \<longleftrightarrow>
     length p - pe = length s - se \<and> c_strcoll e (take (length p - pe) p) (take (length s - se) s) = 0"

text \<open>The patterns of a list that ends at \<open>prest\<close>, each with its end; a list that cannot be scanned ends with
  None.\<close>

primrec branches :: "32 word \<Rightarrow> nat \<Rightarrow> nat \<Rightarrow> nat \<Rightarrow> cstring \<Rightarrow> (cstring \<times> nat) option list" where
  "branches flags pe prest 0 psub = [None]"
| "branches flags pe prest (Suc k) psub =
     (case patscan psub pe True flags of
        None \<Rightarrow> [None]
      | Some pnext \<Rightarrow> Some (psub, Suc (length pnext)) # (if length pnext = prest then [] else branches flags pe prest k pnext))"

text \<open>A branch that could not be scanned has no end: what the C code reads there is not defined, and the
  model gives no answer.\<close>

definition on_branch :: "(cstring \<times> nat \<Rightarrow> bool option) \<Rightarrow> (cstring \<times> nat) option \<Rightarrow> bool option" where
  "on_branch f b = (case b of None \<Rightarrow> None | Some x \<Rightarrow> f x)"

text \<open>\<open>SDOT_OR_DOTDOT\<close> and \<open>PDOT_OR_DOTDOT\<close>\<close>

definition sdot_or_dotdot :: "cstring \<Rightarrow> bool" where
  "sdot_or_dotdot s \<longleftrightarrow> deref s = CHR ''.'' \<and>
     (deref (tl s) = NUL \<or> deref (tl s) = CHR ''.'' \<and> deref (tl (tl s)) = NUL)"

definition pathsep :: "char \<Rightarrow> bool" where
  "pathsep c \<longleftrightarrow> c = CHR ''/'' \<or> c = NUL"

definition pdot_or_dotdot :: "cstring \<Rightarrow> bool" where
  "pdot_or_dotdot s \<longleftrightarrow> deref s = CHR ''.'' \<and>
     (pathsep (deref (tl s)) \<or> deref (tl s) = CHR ''.'' \<and> pathsep (deref (tl (tl s))))"

text \<open>The loop of \<open>!(...)\<close>; a leading dot that must be matched explicitly ends it.\<close>

primrec except_loop :: "(cstring \<Rightarrow> bool option) \<Rightarrow> (cstring \<Rightarrow> bool option) \<Rightarrow> bool \<Rightarrow> cstring list \<Rightarrow> bool option" where
  "except_loop excluded rest dot [] = Some False"
| "except_loop excluded rest dot (srest # others) =
     (case excluded srest of
        None \<Rightarrow> None
      | Some m1 \<Rightarrow>
          if \<not> m1 \<and> dot then Some False
          else or_else (if m1 then Some False else rest srest) (except_loop excluded rest dot others))"

text \<open>\<open>EXTMATCH\<close>; \<open>p\<close> is normally at the parenthesis and \<open>prior\<close> is the pointer one before it.\<close>

definition extmatch ::
  "glob_locale \<Rightarrow> gcall \<Rightarrow> 32 word \<Rightarrow> char \<Rightarrow> cstring \<Rightarrow> nat \<Rightarrow> cstring \<Rightarrow> cstring \<Rightarrow> nat \<Rightarrow> bool option" where
  "extmatch e gmatch flags xc s se prior p pe =
     (case patscan (if deref p = CHR ''('' then tl p else p) pe False flags of
        None \<Rightarrow> Some (strcompare e prior pe s se)
      | Some prest \<Rightarrow>
          let here = (\<lambda>srest. if length srest < length s then not_at_start flags else flags);
              sub = (\<lambda>srest (psub, pend). succeeds (gmatch flags False s (length srest) pend s psub));
              rest = (\<lambda>srest. succeeds (gmatch (here srest) False srest se pe srest prest));
              again = (\<lambda>srest. succeeds (gmatch (here srest) False srest se pe srest prior));
              subs = branches flags pe (length prest) (length p) (tl p)
          in if xc = CHR ''+'' \<or> xc = CHR ''*'' then
               or_else (if xc = CHR ''*'' then succeeds (gmatch flags False s se pe s prest) else Some False)
                 (any_of (on_branch (\<lambda>b. any_of (\<lambda>srest.
                    then_also (sub srest b)
                      (or_else (rest srest) (if length srest \<noteq> length s then again srest else Some False)))
                    (pointers s se))) subs)
             else if xc = CHR ''?'' \<or> xc = CHR ''@'' then
               or_else (if xc = CHR ''?'' then succeeds (gmatch flags False s se pe s prest) else Some False)
                 (any_of (on_branch (\<lambda>b. any_of (\<lambda>srest. then_also (sub srest b) (rest srest))
                    (if length prest = pe then [drop (length s - se) s] else pointers s se))) subs)
             else
               except_loop (\<lambda>srest. any_of (on_branch (sub srest)) subs) rest
                 (has_flag flags FNM_PERIOD \<and> deref s = CHR ''.'' \<or> has_flag flags FNM_DOTDOT \<and> sdot_or_dotdot s) (pointers s se))"

section \<open>Matching\<close>

text \<open>A dot that a wildcard must not match: \<open>str\<close> is where the string starts.\<close>

definition after_slash :: "32 word \<Rightarrow> cstring \<Rightarrow> cstring \<Rightarrow> bool" where
  "after_slash flags str n \<longleftrightarrow>
     has_flag flags FNM_PATHNAME \<and> length n < length str \<and> str ! (length str - length n - 1) = CHR ''/''"

definition dot_blocked :: "32 word \<Rightarrow> cstring \<Rightarrow> char \<Rightarrow> cstring \<Rightarrow> bool" where
  "dot_blocked flags str sc n \<longleftrightarrow>
     has_flag flags FNM_PERIOD \<and> sc = CHR ''.'' \<and> (length n = length str \<or> after_slash flags str n) \<or>
     has_flag flags FNM_DOTDOT \<and>
       (length n = length str \<and> sdot_or_dotdot n \<or> after_slash flags str n \<and> pdot_or_dotdot n)"

text \<open>\<open>sc\<close>\<close>

definition string_char :: "cstring \<Rightarrow> nat \<Rightarrow> char" where
  "string_char n se = (if length n > se then deref n else NUL)"

text \<open>The loop that collapses wildcards after a star; \<open>pc\<close> points at the character that was read. It ends
  the call, or it stops at a character that is no wildcard. When the pattern is used up by a wildcard the
  call succeeds.\<close>

datatype collapse_end = Returns "gresult option" | Stops cstring cstring

definition returning :: "bool option \<Rightarrow> collapse_end \<Rightarrow> collapse_end" where
  "returning found go_on = (case found of None \<Rightarrow> Returns None | Some True \<Rightarrow> Returns (Some Match) | Some False \<Rightarrow> go_on)"

primrec collapse :: "glob_locale \<Rightarrow> gcall \<Rightarrow> 32 word \<Rightarrow> nat \<Rightarrow> nat \<Rightarrow> nat \<Rightarrow> cstring \<Rightarrow> cstring \<Rightarrow> collapse_end" where
  "collapse e gmatch flags se pe 0 n pc = Returns None"
| "collapse e gmatch flags se pe (Suc k) n pc =
     (let c = deref pc; p = tl pc; sc = string_char n se;
          pattern_end = drop (length pc - pe) pc;
          past = (case patscan (tl p) pe False flags of Some newn \<Rightarrow> newn | None \<Rightarrow> pattern_end);
          next_turn = (\<lambda>n p. if length p = pe then Returns (Some Match) else collapse e gmatch flags se pe k n p)
      in if c \<noteq> CHR ''?'' \<and> c \<noteq> CHR ''*'' then Stops pc n
         else if has_flag flags FNM_PATHNAME \<and> sc = CHR ''/'' then Returns (Some No_Match)
         else if c = CHR ''?'' then
           (if has_flag flags FNM_EXTMATCH \<and> deref p = CHR ''('' then
              returning (extmatch e gmatch flags c n se pc p pe) (next_turn n past)
            else if sc = NUL then Returns (Some No_Match)
            else next_turn (tl n) p)
         else if has_flag flags FNM_EXTMATCH \<and> deref p = CHR ''('' then
           returning (any_of (\<lambda>newn. extmatch e gmatch flags c newn se pc p pe) (butlast (pointers n se))) (next_turn n past)
         else next_turn n p)"

text \<open>The first character of what follows the star must be possible.\<close>

definition possible_start :: "glob_locale \<Rightarrow> 32 word \<Rightarrow> cstring \<Rightarrow> char \<Rightarrow> bool" where
  "possible_start e flags pc d \<longleftrightarrow>
     (let c = deref pc;
          c1 = fold_char e flags (if \<not> has_flag flags FNM_NOESCAPE \<and> c = CHR 0x5C then deref (tl pc) else c);
          differs = (c \<noteq> CHR ''['' \<and> fold_char e flags d \<noteq> c1)
      in \<not> (\<not> has_flag flags FNM_EXTMATCH \<and> differs) \<and>
         \<not> (has_flag flags FNM_EXTMATCH \<and> deref (tl pc) \<noteq> CHR ''('' \<and> c \<notin> {CHR ''?'', CHR ''*'', CHR ''+'', CHR ''@'', CHR ''!''} \<and> differs))"

text \<open>The places where what follows the star is tried; the first at which the call succeeds decides.\<close>

primrec star_scan :: "(cstring \<Rightarrow> gresult option) \<Rightarrow> (char \<Rightarrow> bool) \<Rightarrow> cstring list \<Rightarrow> gresult option" where
  "star_scan try possible [] = Some No_Match"
| "star_scan try possible (n # ns) =
     (if \<not> possible (deref n) then star_scan try possible ns
      else case try n of
             Some No_Match \<Rightarrow> star_scan try possible ns
           | r \<Rightarrow> r)"

definition up_to_slash :: "32 word \<Rightarrow> cstring \<Rightarrow> nat \<Rightarrow> cstring list" where
  "up_to_slash flags n se =
     (if has_flag flags FNM_PATHNAME then takeWhile (\<lambda>m. deref m \<noteq> CHR ''/'') (butlast (pointers n se))
      else butlast (pointers n se))"

text \<open>What follows a star in the pattern is at \<open>pc\<close>; \<open>pat\<close> is the buffer of the pattern and \<open>go_on\<close> the
  loop of \<open>GMATCH\<close>.\<close>

definition after_star ::
  "glob_locale \<Rightarrow> gcall \<Rightarrow> 32 word \<Rightarrow> cstring \<Rightarrow> nat \<Rightarrow> nat \<Rightarrow> (cstring \<Rightarrow> cstring \<Rightarrow> gresult option) \<Rightarrow> cstring \<Rightarrow> cstring \<Rightarrow> gresult option" where
  "after_star e gmatch flags pat se pe go_on n pc =
     (let c = deref pc; p = tl pc
      in if c = NUL then
           Some (if \<not> has_flag flags FNM_PATHNAME \<or> has_flag flags FNM_LEADING_DIR \<or> CHR ''/'' \<notin> set (take (length n - se) n)
                 then Match else No_Match)
         else if length n = se \<and> has_flag flags FNM_EXTMATCH \<and> (c = CHR ''!'' \<or> c = CHR ''?'') \<and> deref p = CHR ''('' then
           matched (map_option (\<lambda>ok. if c = CHR ''!'' then \<not> ok else ok)
             (extmatch e gmatch flags c n se (drop (length pat - length pc - 1) pat) pc pe))
         else if c = CHR ''/'' \<and> has_flag flags FNM_PATHNAME then
           (case dropWhile (\<lambda>m. deref m \<noteq> CHR ''/'') (butlast (pointers n se)) of
              [] \<Rightarrow> Some No_Match
            | m # _ \<Rightarrow> matched (succeeds (gmatch flags False (tl m) se pe (tl m) p)))
         else
           (case star_scan (\<lambda>m. gmatch (not_at_start flags) True m se pe m pc) (possible_start e flags pc) (up_to_slash flags n se) of
              Some (At_Star p' n') \<Rightarrow> go_on n' p'
            | r \<Rightarrow> r))"

definition gmatch_star ::
  "glob_locale \<Rightarrow> gcall \<Rightarrow> 32 word \<Rightarrow> cstring \<Rightarrow> bool \<Rightarrow> cstring \<Rightarrow> nat \<Rightarrow> nat \<Rightarrow> cstring \<Rightarrow> cstring \<Rightarrow> gresult option" where
  "gmatch_star e gmatch flags pat ends str se pe n p =
     (if ends then Some (At_Star p n)
      else if dot_blocked flags str (string_char n se) n then Some No_Match
      else if length (tl p) = pe then Some Match
      else case collapse e gmatch flags se pe (length p) n (tl p) of
             Returns r \<Rightarrow> r
           | Stops pc n' \<Rightarrow> after_star e gmatch flags pat se pe (gmatch flags ends str se pe) n' pc)"

text \<open>One turn of the loop of \<open>GMATCH\<close>.\<close>

definition gmatch_step ::
  "glob_locale \<Rightarrow> gcall \<Rightarrow> cstring \<Rightarrow> 32 word \<Rightarrow> bool \<Rightarrow> cstring \<Rightarrow> nat \<Rightarrow> nat \<Rightarrow> cstring \<Rightarrow> cstring \<Rightarrow> gresult option" where
  "gmatch_step e gmatch pat flags ends str se pe n p =
     (if length p \<le> pe then
        Some (if length n = se \<or> has_flag flags FNM_LEADING_DIR \<and> deref n = CHR ''/'' then Match else No_Match)
      else
        let c = fold_char e flags (deref p); q = tl p; sc = string_char n se;
            blocked = dot_blocked flags str sc n;
            go_on = gmatch flags ends str se pe
        in if has_flag flags FNM_EXTMATCH \<and> deref q = CHR ''('' \<and> c \<in> {CHR ''+'', CHR ''*'', CHR ''?'', CHR ''@'', CHR ''!''} then
             matched (extmatch e gmatch (if length n = length str then flags else not_at_start flags) c n se p q pe)
           else if c = CHR ''?'' then
             (if sc = NUL \<or> has_flag flags FNM_PATHNAME \<and> sc = CHR ''/'' \<or> blocked then Some No_Match else go_on (tl n) q)
           else if c = CHR 0x5C then
             (if length q = pe \<and> sc = CHR 0x5C \<and> length n = Suc se then go_on (tl n) q
              else if length q = pe then Some No_Match
              else let escaped = (\<not> has_flag flags FNM_NOESCAPE);
                       c' = (if escaped then fold_char e flags (deref q) else c)
                   in if fold_char e flags sc \<noteq> c' then Some No_Match else go_on (tl n) (if escaped then tl q else q))
           else if c = CHR ''*'' then gmatch_star e gmatch flags pat ends str se pe n p
           else if c = CHR ''['' then
             (if sc = NUL \<or> length n = se \<or> has_flag flags FNM_PATHNAME \<and> sc = CHR ''/'' \<or> blocked then Some No_Match
              else case brackmatch e q sc flags of None \<Rightarrow> Some No_Match | Some r \<Rightarrow> go_on (tl n) r)
           else if c \<noteq> fold_char e flags sc then Some No_Match
           else go_on (tl n) q)"

primrec gmatch :: "nat \<Rightarrow> glob_locale \<Rightarrow> cstring \<Rightarrow> gcall" where
  "gmatch 0 e pat = (\<lambda>flags ends str se pe n p. None)"
| "gmatch (Suc k) e pat = gmatch_step e (gmatch k e pat) pat"

text \<open>\<open>internal_strmatch\<close>: whether the string matches.\<close>

definition match_fuel :: "cstring \<Rightarrow> cstring \<Rightarrow> nat" where
  "match_fuel pattern str = Suc (length str) * Suc (Suc (length pattern))"

definition internal_strmatch :: "glob_locale \<Rightarrow> cstring \<Rightarrow> cstring \<Rightarrow> 32 word \<Rightarrow> bool option" where
  "internal_strmatch e pattern str flags =
     succeeds (gmatch (match_fuel pattern str) e pattern flags False str 0 0 str pattern)"

end
