(* ===== verification/Pat_Subst.thy ===== *)
theory Pat_Subst
  imports Glob_Match
begin

text \<open>
  Parameter expansion with patterns (subst.c): \<open>${x#p}\<close>, \<open>${x##p}\<close>, \<open>${x%p}\<close>, \<open>${x%%p}\<close> by \<open>remove_pattern\<close> and
  \<open>${x/p/r}\<close> with its variants by \<open>match_pattern\<close> and \<open>pat_subst\<close>; the two tests that spare calls of the matcher
  (lib/glob/gm_loop.c); \<open>substring\<close> and \<open>strcreplace\<close> (stringlib.c). The locale has single-byte characters. A position in a string
  is an offset. None is an answer that the matcher of \<open>Glob_Match\<close> does not give.
\<close>

section \<open>Flags\<close>

record match_options =
  extended_glob :: bool
  match_ignore_case :: bool

definition FNMATCH_EXTFLAG :: "match_options \<Rightarrow> 32 word" where
  "FNMATCH_EXTFLAG o' = (if extended_glob o' then FNM_EXTMATCH else 0)"

definition FNMATCH_IGNCASE :: "match_options \<Rightarrow> 32 word" where
  "FNMATCH_IGNCASE o' = (if match_ignore_case o' then FNM_CASEFOLD else 0)"

definition MATCH_ANY :: "32 word" where "MATCH_ANY = 0"
definition MATCH_BEG :: "32 word" where "MATCH_BEG = 1"
definition MATCH_END :: "32 word" where "MATCH_END = 2"
definition MATCH_TYPEMASK :: "32 word" where "MATCH_TYPEMASK = 3"
definition MATCH_GLOBREP :: "32 word" where "MATCH_GLOBREP = 0x10"
definition MATCH_EXPREP :: "32 word" where "MATCH_EXPREP = 0x100"

text \<open>The first of a list that passes a test; the test may have no answer.\<close>

primrec first_such :: "('a \<Rightarrow> bool option) \<Rightarrow> 'a list \<Rightarrow> 'a option option" where
  "first_such f [] = Some None"
| "first_such f (x # xs) = (case f x of None \<Rightarrow> None | Some b \<Rightarrow> if b then Some (Some x) else first_such f xs)"

section \<open>Removing a prefix or a suffix\<close>

datatype patspec = RP_LONG_LEFT | RP_SHORT_LEFT | RP_LONG_RIGHT | RP_SHORT_RIGHT

definition getpatspec :: "char \<Rightarrow> cstring \<Rightarrow> patspec" where
  "getpatspec c val =
     (if c = CHR ''#'' then (if deref val = CHR ''#'' then RP_LONG_LEFT else RP_SHORT_LEFT)
      else (if deref val = CHR ''%'' then RP_LONG_RIGHT else RP_SHORT_RIGHT))"

definition remove_upattern :: "glob_locale \<Rightarrow> match_options \<Rightarrow> cstring \<Rightarrow> cstring \<Rightarrow> patspec \<Rightarrow> cstring option" where
  "remove_upattern e o' param pattern op =
     (let upwards = [0..<Suc (length param)];
          prefix = (\<lambda>p. internal_strmatch e pattern (take p param) (FNMATCH_EXTFLAG o'));
          suffix = (\<lambda>p. internal_strmatch e pattern (drop p param) (FNMATCH_EXTFLAG o'));
          found = (case op of
             RP_LONG_LEFT \<Rightarrow> first_such prefix (rev upwards)
           | RP_SHORT_LEFT \<Rightarrow> first_such prefix upwards
           | RP_LONG_RIGHT \<Rightarrow> first_such suffix upwards
           | RP_SHORT_RIGHT \<Rightarrow> first_such suffix (rev upwards))
      in map_option (\<lambda>p. case p of
           None \<Rightarrow> param
         | Some p \<Rightarrow> if op = RP_LONG_LEFT \<or> op = RP_SHORT_LEFT then drop p param else take p param) found)"

text \<open>\<open>remove_pattern\<close>: either argument may be a null pointer.\<close>

definition remove_pattern ::
  "glob_locale \<Rightarrow> match_options \<Rightarrow> cstring option \<Rightarrow> cstring option \<Rightarrow> patspec \<Rightarrow> cstring option option" where
  "remove_pattern e o' param pattern op =
     (case param of
        None \<Rightarrow> Some None
      | Some s \<Rightarrow>
          (case pattern of
             None \<Rightarrow> Some (Some s)
           | Some p \<Rightarrow> if s = [] \<or> p = [] then Some (Some s) else map_option Some (remove_upattern e o' s p op)))"

section \<open>Tests before matching\<close>

text \<open>\<open>match_pattern_char\<close>: whether the first character of the string could match the start of the pattern.\<close>

definition gm_fold :: "glob_locale \<Rightarrow> 32 word \<Rightarrow> char \<Rightarrow> char" where
  "gm_fold e flags c = (if has_flag flags FNM_CASEFOLD then c_tolower e c else c)"

definition match_pattern_char :: "glob_locale \<Rightarrow> cstring \<Rightarrow> cstring \<Rightarrow> 32 word \<Rightarrow> bool" where
  "match_pattern_char e pat str flags =
     (let c = deref pat; p = tl pat; same = (\<lambda>c. gm_fold e flags (deref str) = gm_fold e flags c)
      in if deref str = NUL then c = CHR ''*''
         else if c = CHR 0x5C then same (deref p)
         else if c = CHR ''?'' then deref p = CHR ''('' \<or> deref str \<noteq> NUL
         else if c = CHR ''*'' then True
         else if c = CHR ''+'' \<or> c = CHR ''!'' \<or> c = CHR ''@'' then deref p = CHR ''('' \<or> same c
         else if c = CHR ''['' then deref str \<noteq> NUL
         else same c)"

text \<open>\<open>umatchlen\<close>: the number of characters that the pattern matches, or -1. What it keeps across bracket
  expressions, and the length of the one it is in, are a record.\<close>

record len_scan =
  in_cclass :: bool
  in_collsym :: bool
  in_equiv :: bool
  bracklen :: int

text \<open>The body of its inner loop: where the next character is read, or None at the end of the string.\<close>

definition bracket_len_step :: "len_scan \<Rightarrow> char \<Rightarrow> cstring \<Rightarrow> len_scan \<times> cstring option" where
  "bracket_len_step s c pat =
     (let one = s\<lparr>bracklen := bracklen s + 1\<rparr>;
          more = (if deref (tl pat) = CHR '']'' then (one\<lparr>bracklen := bracklen one + 1\<rparr>, tl (tl pat)) else (one, tl pat))
      in if c = CHR 0x5C then (one, if deref pat = NUL \<or> deref (tl pat) = NUL then None else Some (tl pat))
         else if c = CHR ''['' \<and> deref pat = CHR '':'' then (one\<lparr>in_cclass := True\<rparr>, Some (tl pat))
         else if in_cclass s \<and> c = CHR '':'' \<and> deref pat = CHR '']'' then (one\<lparr>in_cclass := False\<rparr>, Some (tl pat))
         else if c = CHR ''['' \<and> deref pat = CHR ''.'' then ((fst more)\<lparr>in_collsym := True\<rparr>, Some (snd more))
         else if in_collsym s \<and> c = CHR ''.'' \<and> deref pat = CHR '']'' then (one\<lparr>in_collsym := False\<rparr>, Some (tl pat))
         else if c = CHR ''['' \<and> deref pat = CHR ''='' then ((fst more)\<lparr>in_equiv := True\<rparr>, Some (snd more))
         else if in_equiv s \<and> c = CHR ''='' \<and> deref pat = CHR '']'' then (one\<lparr>in_equiv := False\<rparr>, Some (tl pat))
         else (one, Some pat))"

lemma bracket_len_step_shorter: "bracket_len_step s c pat = (t, Some q) \<Longrightarrow> length q \<le> length pat"
  by (auto simp: bracket_len_step_def Let_def split: if_splits)

lemma bracket_len_step_shorter':
  "(t, Some (c' # q)) = bracket_len_step s c pat \<Longrightarrow> length q < length pat"
  using bracket_len_step_shorter [of s c pat t "c' # q"] by simp

text \<open>The inner loop: what follows the closing bracket, or None when there is none.\<close>

function bracket_len_loop :: "len_scan \<Rightarrow> char \<Rightarrow> cstring \<Rightarrow> len_scan \<times> cstring option" where
  "bracket_len_loop s c pat =
     (if c = NUL then (s, None)
      else case bracket_len_step s c pat of
             (t, Some (c' # q)) \<Rightarrow> if c' = CHR '']'' then (t, Some q) else bracket_len_loop t c' q
           | (t, _) \<Rightarrow> (t, None))"
  by pat_completeness auto
termination
  by (relation "measure (\<lambda>(s, c, pat). length pat)") (auto dest: bracket_len_step_shorter')

lemma bracket_len_loop_shorter: "bracket_len_loop s c pat = (t, Some q) \<Longrightarrow> length q \<le> length pat"
proof (induction s c pat rule: bracket_len_loop.induct)
  case (1 s c pat)
  show ?case
  proof (cases "bracket_len_step s c pat")
    case (Pair u r)
    have "c \<noteq> NUL" using "1.prems" by (auto split: if_splits)
    moreover obtain c' q' where r: "r = Some (c' # q')"
      using "1.prems" Pair by (auto split: if_splits option.splits list.splits)
    ultimately have "bracket_len_loop s c pat = (if c' = CHR '']'' then (u, Some q') else bracket_len_loop u c' q')"
      using Pair by simp
    moreover have "length q' < length pat" using Pair r by (intro bracket_len_step_shorter' [of u c' q' s c pat]) simp
    moreover have "length q \<le> length q'" if "c' \<noteq> CHR '']''" "bracket_len_loop u c' q' = (t, Some q)"
      using "1.IH" [OF \<open>c \<noteq> NUL\<close> Pair [symmetric] r refl that] .
    ultimately show ?thesis using "1.prems" by (auto split: if_splits)
  qed
qed

lemma bracket_len_loop_shorter':
  "(t, Some q) = bracket_len_loop s (deref pat) (tl pat) \<Longrightarrow> length q \<le> length pat"
  using bracket_len_loop_shorter [of s "deref pat" "tl pat" t q] by simp

declare bracket_len_loop.simps [simp del]

function matchlen_loop :: "len_scan \<Rightarrow> int \<Rightarrow> cstring \<Rightarrow> int" where
  "matchlen_loop s matlen [] = matlen"
| "matchlen_loop s matlen (c # pat) =
     (if c = CHR 0x5C then (if pat = [] then matlen + 1 else matchlen_loop s (matlen + 1) (tl pat))
      else if c = CHR ''*'' then - 1
      else if (c = CHR ''?'' \<or> c = CHR ''+'' \<or> c = CHR ''!'' \<or> c = CHR ''@'') \<and> deref pat = CHR ''('' then - 1
      else if c = CHR ''['' then
        (case bracket_len_loop (s\<lparr>bracklen := 1\<rparr>) (deref pat) (tl pat) of
           (t, None) \<Rightarrow> matlen + bracklen t
         | (t, Some q) \<Rightarrow> matchlen_loop t (matlen + 1) q)
      else matchlen_loop s (matlen + 1) pat)"
  by pat_completeness auto
termination
  by (relation "measure (\<lambda>(s, n, pat). length pat)") (auto dest!: bracket_len_loop_shorter')

definition umatchlen :: "cstring \<Rightarrow> int" where
  "umatchlen pat = matchlen_loop \<lparr>in_cclass = False, in_collsym = False, in_equiv = False, bracklen = 0\<rparr> 0 pat"

section \<open>The part of a string that a pattern matches\<close>

text \<open>The pattern with which the whole string is tried first. A backslash before a star at the end counts if
  the number of backslashes there is odd.\<close>

definition trailing_backslashes :: "cstring \<Rightarrow> nat" where
  "trailing_backslashes p = length (takeWhile ((=) (CHR 0x5C)) (rev p))"

definition widened_pattern :: "match_options \<Rightarrow> cstring \<Rightarrow> 32 word \<Rightarrow> cstring" where
  "widened_pattern o' pat mtype =
     (let no_star = (deref pat \<noteq> CHR ''*'' \<or> deref (tl pat) = CHR ''('' \<and> extended_glob o')
      in if no_star \<or> last pat \<noteq> CHR ''*'' then
           (if mtype \<noteq> MATCH_BEG \<and> no_star then ''*'' else []) @ pat @
           (if mtype \<noteq> MATCH_END \<and> (last pat = CHR ''*'' \<longrightarrow> odd (trailing_backslashes (butlast pat))) then ''*'' else [])
         else pat)"

text \<open>Where the match may end that starts at \<open>p\<close>.\<close>

definition match_ends :: "int \<Rightarrow> nat \<Rightarrow> nat \<Rightarrow> nat list" where
  "match_ends mlen len p = (if mlen = - 1 then rev [p..<Suc len] else [p + nat mlen])"

primrec match_any :: "(nat \<Rightarrow> bool) \<Rightarrow> (nat \<Rightarrow> nat \<Rightarrow> bool option) \<Rightarrow> int \<Rightarrow> nat \<Rightarrow> nat list \<Rightarrow> (nat \<times> nat) option option" where
  "match_any possible matches mlen len [] = Some None"
| "match_any possible matches mlen len (p # ps) =
     (if \<not> possible p then match_any possible matches mlen len ps
      else if mlen \<noteq> - 1 \<and> p + nat mlen > len then Some None
      else case first_such (matches p) (match_ends mlen len p) of
             None \<Rightarrow> None
           | Some None \<Rightarrow> match_any possible matches mlen len ps
           | Some (Some p1) \<Rightarrow> Some (Some (p, p1)))"

text \<open>The three kinds of match; the matcher is tried on the part of the string between two positions.\<close>

definition match_kind ::
  "(nat \<Rightarrow> bool) \<Rightarrow> (nat \<Rightarrow> nat \<Rightarrow> bool option) \<Rightarrow> int \<Rightarrow> nat \<Rightarrow> 32 word \<Rightarrow> (nat \<times> nat) option option" where
  "match_kind possible matches mlen len mtype =
     (if mlen > int len then Some None
      else if mtype = MATCH_ANY then match_any possible matches mlen len [0..<Suc len]
      else if mtype = MATCH_BEG then
        (if \<not> possible 0 then Some None
         else map_option (map_option (\<lambda>p1. (0, p1))) (first_such (matches 0) (match_ends mlen len 0)))
      else if mtype = MATCH_END then
        map_option (map_option (\<lambda>p. (p, len)))
          (first_such (\<lambda>p. matches p len) (if mlen = - 1 then [0..<Suc len] else [len - nat mlen]))
      else Some None)"

definition match_upattern :: "glob_locale \<Rightarrow> match_options \<Rightarrow> cstring \<Rightarrow> cstring \<Rightarrow> 32 word \<Rightarrow> (nat \<times> nat) option option" where
  "match_upattern e o' str pat mtype =
     (let flags = FNMATCH_EXTFLAG o' OR FNMATCH_IGNCASE o'
      in case internal_strmatch e (widened_pattern o' pat mtype) str flags of
           None \<Rightarrow> None
         | Some False \<Rightarrow> Some None
         | Some True \<Rightarrow>
             match_kind (\<lambda>p. match_pattern_char e pat (drop p str) (FNMATCH_IGNCASE o'))
               (\<lambda>p p1. internal_strmatch e pat (take (p1 - p) (drop p str)) flags) (umatchlen pat) (length str) mtype)"

definition match_pattern :: "glob_locale \<Rightarrow> match_options \<Rightarrow> cstring \<Rightarrow> cstring option \<Rightarrow> 32 word \<Rightarrow> (nat \<times> nat) option option" where
  "match_pattern e o' str pat mtype =
     (case pat of None \<Rightarrow> Some None | Some p \<Rightarrow> if p = [] then Some None else match_upattern e o' str p mtype)"

end
