(* ===== verification/Pat_Replace.thy ===== *)
theory Pat_Replace
  imports Pat_Subst
begin

text \<open>
  \<open>${x/p/r}\<close> (subst.c): \<open>pat_subst\<close> with \<open>strcreplace\<close> (stringlib.c) for the \<open>&\<close> of the replacement, and how
  \<open>parameter_brace_patsub\<close> chooses the kind of match. The pattern and the replacement are expanded.
\<close>

section \<open>Where a match lies\<close>

lemma first_such_in: "first_such f xs = Some (Some x) \<Longrightarrow> x \<in> set xs \<and> f x = Some True"
  by (induction xs) (auto split: option.splits if_splits)

lemma in_match_ends: "q \<in> set (match_ends mlen len p) \<Longrightarrow> mlen = - 1 \<or> p + nat mlen \<le> len \<Longrightarrow> p \<le> q \<and> q \<le> len"
  by (auto simp: match_ends_def split: if_splits)

lemma match_any_bounds:
  "match_any possible matches mlen len ps = Some (Some (p, q)) \<Longrightarrow> p \<le> q \<and> q \<le> len"
proof (induction ps)
  case (Cons i ps)
  show ?case
  proof (cases "match_any possible matches mlen len ps = Some (Some (p, q))")
    case True
    then show ?thesis by (rule Cons.IH)
  next
    case False
    then have "possible i" using Cons.prems by (cases "possible i") simp_all
    moreover from this have fits: "mlen = - 1 \<or> i + nat mlen \<le> len" using Cons.prems by (cases "mlen = - 1") (auto split: if_splits)
    ultimately have "(case first_such (matches i) (match_ends mlen len i) of None \<Rightarrow> None
        | Some None \<Rightarrow> match_any possible matches mlen len ps | Some (Some p1) \<Rightarrow> Some (Some (i, p1))) = Some (Some (p, q))"
      using Cons.prems by auto
    then have "first_such (matches i) (match_ends mlen len i) = Some (Some q)" "p = i"
      using False by (simp_all split: option.splits)
    then show ?thesis using first_such_in [of "matches i" _ q] in_match_ends [OF _ fits] by simp
  qed
qed simp

lemma match_kind_bounds:
  assumes "match_kind possible matches mlen len mtype = Some (Some (s, t))"
  shows "s \<le> t \<and> t \<le> len"
proof -
  have short: "\<not> mlen > int len" using assms unfolding match_kind_def by (cases "mlen > int len") simp_all
  then have fits: "mlen = - 1 \<or> 0 + nat mlen \<le> len" by auto
  have "mtype = MATCH_ANY \<or> mtype = MATCH_BEG \<or> mtype = MATCH_END"
    using assms short unfolding match_kind_def by (simp split: if_splits del: upt_Suc)
  then show ?thesis
  proof (elim disjE)
    assume "mtype = MATCH_ANY"
    then show ?thesis using assms short unfolding match_kind_def by (simp add: match_any_bounds del: upt_Suc)
  next
    assume "mtype = MATCH_BEG"
    then have "first_such (matches 0) (match_ends mlen len 0) = Some (Some t)" "s = 0"
      using assms short unfolding match_kind_def by (auto simp: MATCH_BEG_def MATCH_ANY_def split: if_splits)
    then show ?thesis using first_such_in [of "matches 0"] in_match_ends [OF _ fits] by blast
  next
    assume "mtype = MATCH_END"
    then have "first_such (\<lambda>p. matches p len) (if mlen = - 1 then [0..<Suc len] else [len - nat mlen]) = Some (Some s)" "t = len"
      using assms short unfolding match_kind_def
      by (simp_all add: MATCH_END_def MATCH_BEG_def MATCH_ANY_def del: upt_Suc split: if_splits) auto
    then show ?thesis using first_such_in [of "\<lambda>p. matches p len"] by (fastforce split: if_splits)
  qed
qed

lemma match_upattern_bounds:
  assumes "match_upattern e o' str pat mtype = Some (Some (s, t))"
  shows "s \<le> t \<and> t \<le> length str"
proof -
  obtain possible matches mlen where "match_kind possible matches mlen (length str) mtype = Some (Some (s, t))"
    using assms unfolding match_upattern_def Let_def by (auto split: option.splits bool.splits)
  then show ?thesis by (rule match_kind_bounds)
qed

lemma match_pattern_bounds:
  "match_pattern e o' str pat mtype = Some (Some (s, t)) \<Longrightarrow> s \<le> t \<and> t \<le> length str"
  by (auto simp: match_pattern_def split: option.splits if_splits dest: match_upattern_bounds)

lemma match_pattern_shorter:
  assumes "str \<noteq> []" and "match_pattern e o' str pat mtype = Some (Some st)" and "(s, t) = st" and "s \<noteq> t"
  shows "length str - t < length str"
  using assms match_pattern_bounds [of e o' str pat mtype s t] by (cases str) auto

lemma match_pattern_shorter':
  "c # r = drop t str \<Longrightarrow> length r < length str"
  using length_drop [of t str] by (metis diff_le_self length_Cons less_eq_Suc_le)

section \<open>The replacement\<close>

text \<open>\<open>strcreplace\<close> without the quoting for globbing, which pattern substitution does not ask for.\<close>

fun strcreplace :: "cstring \<Rightarrow> char \<Rightarrow> cstring \<Rightarrow> bool \<Rightarrow> cstring" where
  "strcreplace [] c txt escape_backslash = []"
| "strcreplace (x # p) c txt escape_backslash =
     (if x = c then txt @ strcreplace p c txt escape_backslash
      else if x = CHR 0x5C \<and> (deref p = c \<or> escape_backslash \<and> deref p = CHR 0x5C)
      then deref p # strcreplace (tl p) c txt escape_backslash
      else x # strcreplace p c txt escape_backslash)"

text \<open>\<open>shouldexp_replacement\<close>\<close>

fun shouldexp_replacement :: "cstring \<Rightarrow> bool" where
  "shouldexp_replacement [] \<longleftrightarrow> False"
| "shouldexp_replacement (c # s) \<longleftrightarrow>
     (if c = CHR 0x5C then
        (case s of [] \<Rightarrow> False | d # s' \<Rightarrow> d = CHR ''&'' \<or> d = CHR 0x5C \<or> shouldexp_replacement s')
      else c = CHR ''&'' \<or> shouldexp_replacement s)"

section \<open>Substitution\<close>

text \<open>The loop of \<open>pat_subst\<close>: what is written from here on. After an empty match one character is copied; at the
  end of the string that would be a read beyond it, for which the model has no answer.\<close>

definition replacement :: "cstring option \<Rightarrow> 32 word \<Rightarrow> cstring \<Rightarrow> cstring" where
  "replacement rep mflags mstr =
     (case rep of None \<Rightarrow> [] | Some r \<Rightarrow> if has_flag mflags MATCH_EXPREP \<and> r \<noteq> [] then strcreplace r (CHR ''&'') mstr True else r)"

function pat_subst_loop :: "glob_locale \<Rightarrow> match_options \<Rightarrow> cstring option \<Rightarrow> cstring option \<Rightarrow> 32 word \<Rightarrow> cstring \<Rightarrow> cstring option" where
  "pat_subst_loop e o' pat rep mflags str =
     (if str = [] then Some []
      else case match_pattern e o' str pat (mflags AND MATCH_TYPEMASK) of
             None \<Rightarrow> None
           | Some None \<Rightarrow> Some str
           | Some (Some (s, t)) \<Rightarrow>
               let piece = take s str @ replacement rep mflags (take (t - s) (drop s str)); rest = drop t str
               in if \<not> has_flag mflags MATCH_GLOBREP \<or> mflags AND MATCH_TYPEMASK \<noteq> MATCH_ANY then Some (piece @ rest)
                  else if s = t then
                    (case rest of
                       [] \<Rightarrow> None
                     | c # rest' \<Rightarrow> map_option (\<lambda>r. piece @ c # r) (pat_subst_loop e o' pat rep mflags rest'))
                  else map_option (\<lambda>r. piece @ r) (pat_subst_loop e o' pat rep mflags rest))"
  by pat_completeness auto
termination
  by (relation "measure (\<lambda>(e, o', pat, rep, mflags, str). length str)")
    (auto intro: match_pattern_shorter match_pattern_shorter')

declare pat_subst_loop.simps [simp del]

definition pat_subst :: "glob_locale \<Rightarrow> match_options \<Rightarrow> cstring option \<Rightarrow> cstring option \<Rightarrow> cstring option \<Rightarrow> 32 word \<Rightarrow> cstring option" where
  "pat_subst e o' str pat rep mflags =
     (case str of
        None \<Rightarrow> Some []
      | Some s \<Rightarrow>
          let mtype = mflags AND MATCH_TYPEMASK
          in if (pat = None \<or> pat = Some []) \<and> (mtype = MATCH_BEG \<or> mtype = MATCH_END) then
               Some (if mtype = MATCH_BEG then replacement rep mflags [] @ s else s @ replacement rep mflags [])
             else if s = [] then
               map_option (\<lambda>m. if m = None then [] else replacement rep mflags []) (match_pattern e o' s pat mtype)
             else pat_subst_loop e o' pat rep mflags s)"

text \<open>\<open>parameter_brace_patsub\<close>: two slashes make it global; otherwise a number sign or a percent sign at the
  start of the expanded pattern anchors it. An ampersand counts if the option \<open>patsub_replacement\<close> is set.\<close>

definition patsub_flags :: "bool \<Rightarrow> bool \<Rightarrow> cstring option \<Rightarrow> cstring option \<Rightarrow> cstring option \<times> 32 word" where
  "patsub_flags patsub_replacement global pat rep =
     (let mflags = (if global then MATCH_GLOBREP else 0) OR
            (if patsub_replacement \<and> (case rep of None \<Rightarrow> False | Some r \<Rightarrow> r \<noteq> [] \<and> shouldexp_replacement r) then MATCH_EXPREP else 0)
      in if global then (pat, mflags OR MATCH_ANY)
         else case pat of
                Some (c # p) \<Rightarrow>
                  if c = CHR ''#'' then (Some p, mflags OR MATCH_BEG)
                  else if c = CHR ''%'' then (Some p, mflags OR MATCH_END)
                  else (pat, mflags OR MATCH_ANY)
              | _ \<Rightarrow> (pat, mflags OR MATCH_ANY))"

definition patsub_variable ::
  "glob_locale \<Rightarrow> match_options \<Rightarrow> bool \<Rightarrow> bool \<Rightarrow> cstring \<Rightarrow> cstring option \<Rightarrow> cstring option \<Rightarrow> cstring option" where
  "patsub_variable e o' patsub_replacement global val pat rep =
     (let (p, mflags) = patsub_flags patsub_replacement global pat rep in pat_subst e o' (Some val) p rep mflags)"

end
