(* ===== verification/Glob_Sem.thy ===== *)
theory Glob_Sem
  imports Glob_Match
begin

text \<open>
  What a pattern matches, without the extended forms: the relation \<open>globs\<close> tries every length for every
  star. \<open>GMATCH\<close> decides it although it never goes back behind the last star.
\<close>

section \<open>Flags\<close>

text \<open>The flags on which the syntax of patterns depends are the same.\<close>

definition same_syntax :: "32 word \<Rightarrow> 32 word \<Rightarrow> bool" where
  "same_syntax f g \<longleftrightarrow> (\<forall>b \<in> {FNM_PATHNAME, FNM_NOESCAPE, FNM_CASEFOLD}. has_flag f b = has_flag g b)"

lemma has_flag_not_at_start [simp]:
  "has_flag (not_at_start f) FNM_PATHNAME = has_flag f FNM_PATHNAME"
  "has_flag (not_at_start f) FNM_NOESCAPE = has_flag f FNM_NOESCAPE"
  "has_flag (not_at_start f) FNM_CASEFOLD = has_flag f FNM_CASEFOLD"
  "has_flag (not_at_start f) FNM_EXTMATCH = has_flag f FNM_EXTMATCH"
  "has_flag (not_at_start f) FNM_LEADING_DIR = has_flag f FNM_LEADING_DIR"
  "\<not> has_flag (not_at_start f) FNM_PERIOD" "\<not> has_flag (not_at_start f) FNM_DOTDOT"
  by (simp_all add: not_at_start_def has_flag_def FNM_PATHNAME_def FNM_NOESCAPE_def FNM_CASEFOLD_def FNM_EXTMATCH_def
      FNM_LEADING_DIR_def FNM_PERIOD_def FNM_DOTDOT_def and.assoc)

lemma same_syntax_start: "same_syntax (not_at_start f) f"
  by (simp add: same_syntax_def)

lemma fold_char_cong: "same_syntax f g \<Longrightarrow> fold_char e f = fold_char e g"
  by (simp add: fun_eq_iff fold_char_def same_syntax_def)

lemma slash_cong: "same_syntax f g \<Longrightarrow> slash_pathname f = slash_pathname g"
  by (simp add: fun_eq_iff slash_pathname_def same_syntax_def)

lemma noescape_cong: "same_syntax f g \<Longrightarrow> has_flag f FNM_NOESCAPE = has_flag g FNM_NOESCAPE"
  by (simp add: same_syntax_def)

lemma subbracket_cong: "same_syntax f g \<Longrightarrow> parse_subbracket p f = parse_subbracket p g"
proof -
  assume fg: "same_syntax f g"
  have "subbracket_loop f type p = subbracket_loop g type p" for type p
  proof (induction p)
    case (Cons c p)
    show ?case unfolding subbracket_loop.simps slash_cong [OF fg] Cons.IH ..
  qed simp
  then show ?thesis by (simp add: parse_subbracket_def)
qed

lemma bracket_loop_cong: "same_syntax f g \<Longrightarrow> bracket_loop e f t k c p = bracket_loop e g t k c p"
proof (induction k arbitrary: c p)
  case (Suc k)
  note cong = fold_char_cong [OF Suc.prems] slash_cong [OF Suc.prems] noescape_cong [OF Suc.prems] subbracket_cong [OF Suc.prems]
  have loop: "bracket_loop e f t k = bracket_loop e g t k" using Suc by (simp add: fun_eq_iff)
  have parts: "bracket_next e f = bracket_next e g" "bracket_range e f = bracket_range e g" "bracket_char e f = bracket_char e g"
    unfolding fun_eq_iff bracket_next_def bracket_char_def bracket_range_def cong by simp_all
  show ?case unfolding bracket_loop.simps cong loop parts ..
qed simp

lemma bracket_skip_cong: "same_syntax f g \<Longrightarrow> bracket_skip f k p = bracket_skip g k p"
proof (induction k arbitrary: p)
  case (Suc k)
  note cong = slash_cong [OF Suc.prems] noescape_cong [OF Suc.prems] subbracket_cong [OF Suc.prems]
  show ?case unfolding bracket_skip.simps cong Suc.IH [OF Suc.prems] ..
qed simp

lemma brackmatch_cong: "same_syntax f g \<Longrightarrow> brackmatch e p d f = brackmatch e p d g"
  unfolding brackmatch_def by (simp only: bracket_loop_cong [of f g] bracket_skip_cong [of f g] fold_char_cong [of f g])

section \<open>What a pattern matches\<close>

text \<open>A star matches any string, a question mark any character, a bracket expression the characters that
  \<open>BRACKMATCH\<close> accepts; a backslash quotes. The relation does not say in which order lengths are tried.\<close>

inductive globs :: "glob_locale \<Rightarrow> 32 word \<Rightarrow> cstring \<Rightarrow> cstring \<Rightarrow> bool" for e flags where
  globs_end: "globs e flags [] []"
| globs_any: "globs e flags p n \<Longrightarrow> globs e flags (CHR ''?'' # p) (d # n)"
| globs_none: "globs e flags p n \<Longrightarrow> globs e flags (CHR ''*'' # p) n"
| globs_more: "globs e flags (CHR ''*'' # p) n \<Longrightarrow> globs e flags (CHR ''*'' # p) (d # n)"
| globs_set: "brackmatch e p d flags = Some q \<Longrightarrow> globs e flags q n \<Longrightarrow> globs e flags (CHR ''['' # p) (d # n)"
| globs_quoted: "\<not> has_flag flags FNM_NOESCAPE \<Longrightarrow> fold_char e flags c = fold_char e flags d \<Longrightarrow> globs e flags p n \<Longrightarrow>
    globs e flags (CHR 0x5C # c # p) (d # n)"
| globs_char: "c \<notin> {CHR ''?'', CHR ''*'', CHR ''[''} \<Longrightarrow> (c = CHR 0x5C \<longrightarrow> has_flag flags FNM_NOESCAPE) \<Longrightarrow>
    fold_char e flags c = fold_char e flags d \<Longrightarrow> globs e flags p n \<Longrightarrow> globs e flags (c # p) (d # n)"

text \<open>Matching up to the first star in the pattern.\<close>

inductive reaches :: "glob_locale \<Rightarrow> 32 word \<Rightarrow> cstring \<Rightarrow> cstring \<Rightarrow> cstring \<Rightarrow> cstring \<Rightarrow> bool" for e flags where
  reaches_star: "reaches e flags (CHR ''*'' # p) n (CHR ''*'' # p) n"
| reaches_any: "reaches e flags p n p' n' \<Longrightarrow> reaches e flags (CHR ''?'' # p) (d # n) p' n'"
| reaches_set: "brackmatch e p d flags = Some q \<Longrightarrow> reaches e flags q n p' n' \<Longrightarrow> reaches e flags (CHR ''['' # p) (d # n) p' n'"
| reaches_quoted: "\<not> has_flag flags FNM_NOESCAPE \<Longrightarrow> fold_char e flags c = fold_char e flags d \<Longrightarrow> reaches e flags p n p' n' \<Longrightarrow>
    reaches e flags (CHR 0x5C # c # p) (d # n) p' n'"
| reaches_char: "c \<notin> {CHR ''?'', CHR ''*'', CHR ''[''} \<Longrightarrow> (c = CHR 0x5C \<longrightarrow> has_flag flags FNM_NOESCAPE) \<Longrightarrow>
    fold_char e flags c = fold_char e flags d \<Longrightarrow> reaches e flags p n p' n' \<Longrightarrow> reaches e flags (c # p) (d # n) p' n'"

text \<open>Patterns in which where a bracket expression ends does not depend on the character it is tried on, and
  which do not end in a backslash that quotes nothing.\<close>

inductive steady_pattern :: "glob_locale \<Rightarrow> 32 word \<Rightarrow> cstring \<Rightarrow> bool" for e flags where
  steady_end: "steady_pattern e flags []"
| steady_wild: "c = CHR ''?'' \<or> c = CHR ''*'' \<Longrightarrow> steady_pattern e flags p \<Longrightarrow> steady_pattern e flags (c # p)"
| steady_set: "(\<And>d q. brackmatch e p d flags = Some q \<Longrightarrow> steady_pattern e flags q \<and> (\<forall>d' q'. brackmatch e p d' flags = Some q' \<longrightarrow> q' = q)) \<Longrightarrow>
    steady_pattern e flags (CHR ''['' # p)"
| steady_quoted: "\<not> has_flag flags FNM_NOESCAPE \<Longrightarrow> steady_pattern e flags p \<Longrightarrow> steady_pattern e flags (CHR 0x5C # c # p)"
| steady_char: "c \<notin> {CHR ''?'', CHR ''*'', CHR ''[''} \<Longrightarrow> (c = CHR 0x5C \<longrightarrow> has_flag flags FNM_NOESCAPE) \<Longrightarrow>
    steady_pattern e flags p \<Longrightarrow> steady_pattern e flags (c # p)"

inductive_simps globs_Nil: "globs e flags [] n"
inductive_simps globs_Any: "globs e flags (CHR ''?'' # p) n"
inductive_simps globs_Set: "globs e flags (CHR ''['' # p) n"
inductive_simps globs_Quoted: "globs e flags (CHR 0x5C # p) n"
inductive_simps globs_Star: "globs e flags (CHR ''*'' # p) n"
inductive_simps globs_Cons: "globs e flags (c # p) n"
inductive_simps reaches_Nil: "reaches e flags [] n p' n'"
inductive_simps reaches_Any: "reaches e flags (CHR ''?'' # p) n p' n'"
inductive_simps reaches_Set: "reaches e flags (CHR ''['' # p) n p' n'"
inductive_simps reaches_Quoted: "reaches e flags (CHR 0x5C # p) n p' n'"
inductive_simps reaches_Star: "reaches e flags (CHR ''*'' # p) n p' n'"
inductive_simps reaches_Cons: "reaches e flags (c # p) n p' n'"
inductive_simps steady_Any: "steady_pattern e flags (CHR ''?'' # p)"
inductive_simps steady_Star: "steady_pattern e flags (CHR ''*'' # p)"
inductive_simps steady_Set: "steady_pattern e flags (CHR ''['' # p)"
inductive_simps steady_Quoted: "steady_pattern e flags (CHR 0x5C # p)"
inductive_simps steady_Cons: "steady_pattern e flags (c # p)"

lemma globs_cong:
  assumes "same_syntax f g"
  shows "globs e f p n = globs e g p n"
proof -
  have one: "globs e f p n \<Longrightarrow> globs e g p n" if "same_syntax f g" for f g p n
    by (induction rule: globs.induct)
      (auto intro: globs.intros simp: brackmatch_cong [OF that] fold_char_cong [OF that] noescape_cong [OF that])
  have "same_syntax g f" using assms by (simp add: same_syntax_def)
  with assms one show ?thesis by blast
qed

lemma steady_cong1: "steady_pattern e f p \<Longrightarrow> same_syntax f g \<Longrightarrow> steady_pattern e g p"
proof (induction rule: steady_pattern.induct)
  case (steady_set p)
  note cong = brackmatch_cong [OF steady_set.prems]
  show ?case
  proof (rule steady_pattern.steady_set)
    fix d q assume "brackmatch e p d g = Some q"
    then have "brackmatch e p d f = Some q" by (simp add: cong)
    from steady_set.IH [OF this] steady_set.prems have "steady_pattern e g q" and "\<forall>d' q'. brackmatch e p d' f = Some q' \<longrightarrow> q' = q" by blast+
    then show "steady_pattern e g q \<and> (\<forall>d' q'. brackmatch e p d' g = Some q' \<longrightarrow> q' = q)" unfolding cong by blast
  qed
next
  case (steady_quoted p c)
  then show ?case using noescape_cong [of f g] by (intro steady_pattern.steady_quoted) simp_all
next
  case (steady_char c p)
  then show ?case using noescape_cong [of f g] by (intro steady_pattern.steady_char) simp_all
qed (blast intro: steady_pattern.intros)+

lemma steady_cong: "same_syntax f g \<Longrightarrow> steady_pattern e f p = steady_pattern e g p"
  using steady_cong1 [of e f p g] steady_cong1 [of e g p f] by (auto simp: same_syntax_def)

section \<open>Stars\<close>

lemma le_Suc_eq_0_or_Suc: "(\<exists>j. j \<le> Suc k \<and> P j) \<longleftrightarrow> P 0 \<or> (\<exists>j. j \<le> k \<and> P (Suc j))"
proof
  assume "\<exists>j. j \<le> Suc k \<and> P j"
  then obtain j where "j \<le> Suc k" "P j" by blast
  then show "P 0 \<or> (\<exists>j. j \<le> k \<and> P (Suc j))" by (cases j) auto
qed auto

lemma ex_le_Suc: "(\<exists>j \<le> Suc k. P j) \<longleftrightarrow> P 0 \<or> (\<exists>j \<le> k. P (Suc j))"
  by (auto simp: le_Suc_eq_0_or_Suc)

lemma globs_star_iff: "globs e flags (CHR ''*'' # p) n \<longleftrightarrow> (\<exists>j \<le> length n. globs e flags p (drop j n))"
proof (induction n)
  case Nil
  show ?case by (subst globs_Star) simp
next
  case (Cons d n)
  have "globs e flags (CHR ''*'' # p) (d # n) \<longleftrightarrow> globs e flags p (d # n) \<or> globs e flags (CHR ''*'' # p) n"
    by (subst globs_Star) simp
  then show ?case using Cons by (simp add: ex_le_Suc)
qed

lemma globs_star_absorbs:
  assumes "j \<le> length n" and "globs e flags (CHR ''*'' # p) (drop j n)"
  shows "globs e flags (CHR ''*'' # p) n"
proof -
  obtain i where i: "i \<le> length n - j" "globs e flags p (drop i (drop j n))"
    using assms(2) by (auto simp: globs_star_iff)
  then have "i + j \<le> length n" "globs e flags p (drop (i + j) n)" using assms(1) by simp_all
  then show ?thesis unfolding globs_star_iff by blast
qed

lemma globs_star_star: "globs e flags (CHR ''*'' # CHR ''*'' # p) n \<longleftrightarrow> globs e flags (CHR ''*'' # p) n"
proof
  assume "globs e flags (CHR ''*'' # CHR ''*'' # p) n"
  then show "globs e flags (CHR ''*'' # p) n"
    unfolding globs_star_iff [of _ _ "CHR ''*'' # p"] using globs_star_absorbs by blast
qed (rule globs_none)

lemma globs_star_any: "globs e flags (CHR ''*'' # CHR ''?'' # p) n \<longleftrightarrow> n \<noteq> [] \<and> globs e flags (CHR ''*'' # p) (tl n)"
proof (induction n)
  case Nil
  show ?case by (subst globs_Star) (simp add: globs_Any)
next
  case (Cons d n)
  have tail: "globs e flags (CHR ''*'' # p) n \<longleftrightarrow> globs e flags p n \<or> n \<noteq> [] \<and> globs e flags (CHR ''*'' # p) (tl n)" for n
    by (subst globs_Star) (cases n; auto)
  have "globs e flags (CHR ''*'' # CHR ''?'' # p) (d # n) \<longleftrightarrow>
      globs e flags (CHR ''?'' # p) (d # n) \<or> globs e flags (CHR ''*'' # CHR ''?'' # p) n"
    by (subst globs_Star) auto
  then show ?case using Cons.IH tail [of n] by (simp add: globs_Any)
qed

lemma reaches_globs: "reaches e flags p n p' n' \<Longrightarrow> globs e flags p' n' \<Longrightarrow> globs e flags p n"
  by (induction rule: reaches.induct) (auto intro: globs.intros)

text \<open>The star that a pattern reaches, and how far, do not depend on the string.\<close>

definition star_at :: "glob_locale \<Rightarrow> 32 word \<Rightarrow> cstring \<Rightarrow> nat \<Rightarrow> cstring \<Rightarrow> bool" where
  "star_at e flags p k p' \<longleftrightarrow>
     (\<forall>m. globs e flags p m \<longrightarrow> k \<le> length m \<and> globs e flags p' (drop k m)) \<and> steady_pattern e flags p' \<and> from_here p p' \<and>
     (\<exists>q. p' = CHR ''*'' # q)"

lemma star_at_later:
  assumes "star_at e flags q k p'" and "from_here p q"
    and "\<And>m. globs e flags p m \<Longrightarrow> \<exists>d n. m = d # n \<and> globs e flags q n"
  shows "star_at e flags p (Suc k) p'"
  unfolding star_at_def
proof (intro conjI allI impI)
  fix m assume "globs e flags p m"
  then obtain d n where m: "m = d # n" "globs e flags q n" using assms(3) by blast
  then show "Suc k \<le> length m" "globs e flags p' (drop (Suc k) m)" using assms(1) by (simp_all add: star_at_def)
qed (use assms(1,2) from_here_trans in \<open>auto simp: star_at_def\<close>)

lemma reaches_same:
  assumes "reaches e flags p n p' n'" and "steady_pattern e flags p"
  shows "\<exists>k. n' = drop k n \<and> k \<le> length n \<and> star_at e flags p k p'"
  using assms
proof (induction rule: reaches.induct)
  case (reaches_star p n)
  have "star_at e flags (CHR ''*'' # p) 0 (CHR ''*'' # p)" using reaches_star by (simp add: star_at_def)
  then show ?case by (intro exI [of _ 0]) simp
next
  case (reaches_any p n p' n' d)
  then have "steady_pattern e flags p" by (simp add: steady_Any)
  then obtain k where k: "n' = drop k n" "k \<le> length n" "star_at e flags p k p'" using reaches_any.IH by blast
  have "star_at e flags (CHR ''?'' # p) (Suc k) p'" by (rule star_at_later [OF k(3)]) (auto simp: globs_Any)
  with k show ?case by (intro exI [of _ "Suc k"]) simp
next
  case (reaches_set p d q n p' n')
  then have q: "steady_pattern e flags q" "\<And>d' q'. brackmatch e p d' flags = Some q' \<Longrightarrow> q' = q"
    unfolding steady_Set by blast+
  obtain k where k: "n' = drop k n" "k \<le> length n" "star_at e flags q k p'" using reaches_set.IH [OF q(1)] by blast
  have "from_here (CHR ''['' # p) q" using brackmatch_from_here [OF reaches_set.hyps(1)] by blast
  then have "star_at e flags (CHR ''['' # p) (Suc k) p'" by (rule star_at_later [OF k(3)]) (use q(2) in \<open>auto simp: globs_Set\<close>)
  with k show ?case by (intro exI [of _ "Suc k"]) simp
next
  case (reaches_quoted c d p n p' n')
  then have "steady_pattern e flags p" by (simp add: steady_Quoted)
  then obtain k where k: "n' = drop k n" "k \<le> length n" "star_at e flags p k p'" using reaches_quoted.IH by blast
  have "star_at e flags (CHR 0x5C # c # p) (Suc k) p'"
    by (rule star_at_later [OF k(3)]) (use reaches_quoted.hyps(1) in \<open>auto simp: globs_Quoted\<close>)
  with k show ?case by (intro exI [of _ "Suc k"]) simp
next
  case (reaches_char c d p n p' n')
  then have "steady_pattern e flags p" by (auto simp: steady_Cons)
  then obtain k where k: "n' = drop k n" "k \<le> length n" "star_at e flags p k p'" using reaches_char.IH by blast
  have "star_at e flags (c # p) (Suc k) p'"
  proof (rule star_at_later [OF k(3)])
    show "\<exists>d n. m = d # n \<and> globs e flags p n" if "globs e flags (c # p) m" for m
      using that reaches_char.hyps(1,2) by (cases rule: globs.cases) auto
  qed auto
  with k show ?case by (intro exI [of _ "Suc k"]) simp
qed

end
