(* ===== verification/Glob_Correct.thy ===== *)
theory Glob_Correct
  imports Glob_Sem
begin

text \<open>
  \<open>GMATCH\<close> decides \<open>globs\<close>: the collapsing of wildcards, the search for the first place after a star, and
  the step to the next star that gives up the places of the star before.
\<close>

section \<open>Assumptions on the call\<close>

text \<open>Folding the case changes no character of the syntax, as it changes letters only.\<close>

definition keeps_specials :: "glob_locale \<Rightarrow> 32 word \<Rightarrow> bool" where
  "keeps_specials e flags \<longleftrightarrow>
     (\<forall>c. \<forall>x \<in> {NUL, CHR ''?'', CHR ''*'', CHR ''['', CHR 0x5C, CHR ''+'', CHR ''@'', CHR ''!'', CHR '']'', CHR ''-''}.
        fold_char e flags c = x \<longleftrightarrow> c = x)"

lemma exact_case_keeps: "\<not> has_flag flags FNM_CASEFOLD \<Longrightarrow> keeps_specials e flags"
  by (simp add: keeps_specials_def fold_char_def)

text \<open>No extended pattern.\<close>

definition plain_pattern :: "32 word \<Rightarrow> cstring \<Rightarrow> bool" where
  "plain_pattern flags p \<longleftrightarrow>
     \<not> has_flag flags FNM_EXTMATCH \<or>
     (\<forall>c q. from_here p (c # CHR ''('' # q) \<longrightarrow> c \<notin> {CHR ''?'', CHR ''*'', CHR ''+'', CHR ''@'', CHR ''!''})"

text \<open>A dot at the start that only an explicit dot of the pattern matches.\<close>

definition explicit_dot :: "32 word \<Rightarrow> cstring \<Rightarrow> bool" where
  "explicit_dot flags str \<longleftrightarrow>
     has_flag flags FNM_PERIOD \<and> deref str = CHR ''.'' \<or> has_flag flags FNM_DOTDOT \<and> sdot_or_dotdot str"

text \<open>A wildcard is not at such a dot.\<close>

definition quiet :: "32 word \<Rightarrow> cstring \<Rightarrow> cstring \<Rightarrow> bool" where
  "quiet flags str n \<longleftrightarrow> length n < length str \<or> n = str \<and> \<not> explicit_dot flags str"

definition name_flags :: "32 word \<Rightarrow> bool" where
  "name_flags flags \<longleftrightarrow> \<not> has_flag flags FNM_PATHNAME \<and> \<not> has_flag flags FNM_LEADING_DIR"

lemma name_flags_start [simp]: "name_flags (not_at_start flags) = name_flags flags"
  by (simp add: name_flags_def)

lemma keeps_specials_start [simp]: "keeps_specials e (not_at_start flags) = keeps_specials e flags"
  by (simp add: keeps_specials_def fold_char_cong [OF same_syntax_start])

lemma plain_start [simp]: "plain_pattern (not_at_start flags) p = plain_pattern flags p"
  by (simp add: plain_pattern_def)

lemma quiet_start [simp]: "quiet (not_at_start flags) n n"
  by (simp add: quiet_def explicit_dot_def)

lemma drop_same_length: "\<not> length (xs :: 'a list) - k < length xs \<Longrightarrow> drop k xs = xs"
  by (cases k; cases xs) auto

lemma quiet_from_here: "quiet flags str n \<Longrightarrow> from_here n m \<Longrightarrow> quiet flags str m"
  using drop_same_length [of n] by (fastforce simp: quiet_def from_here_def)

lemma not_blocked: "name_flags flags \<Longrightarrow> quiet flags str n \<Longrightarrow> deref n = sc \<Longrightarrow> \<not> dot_blocked flags str sc n"
  by (auto simp: dot_blocked_def quiet_def name_flags_def after_slash_def explicit_dot_def)

lemma plain_from_here: "plain_pattern flags p \<Longrightarrow> from_here p q \<Longrightarrow> plain_pattern flags q"
  using from_here_trans [of p q] unfolding plain_pattern_def by blast

lemma plain_no_parenthesis:
  assumes "plain_pattern flags (c # q)" and "c \<in> {CHR ''?'', CHR ''*'', CHR ''+'', CHR ''@'', CHR ''!''}"
  shows "(has_flag flags FNM_EXTMATCH \<and> deref q = CHR ''('') = False"
  using assms by (cases q) (auto simp: plain_pattern_def)

lemma no_NUL_from_here: "NUL \<notin> set p \<Longrightarrow> from_here p q \<Longrightarrow> NUL \<notin> set q"
  by (auto simp: from_here_def dest: in_set_dropD)

lemma string_char_0 [simp]: "string_char n 0 = deref n"
  by (cases n) (simp_all add: string_char_def)

lemma pointers_0: "butlast (pointers [] 0) = []" "butlast (pointers (d # n) 0) = (d # n) # butlast (pointers n 0)"
proof -
  have ptrs: "butlast (pointers n 0) = map (\<lambda>k. drop k n) [0..<length n]" for n
    by (simp add: pointers_def butlast_append)
  show "butlast (pointers [] 0) = []" "butlast (pointers (d # n) 0) = (d # n) # butlast (pointers n 0)"
    unfolding ptrs by (simp_all add: map_upt_Suc del: upt_Suc)
qed

lemma globs_only_star: "globs e flags [CHR ''*''] n"
  unfolding globs_star_iff by (rule exI [of _ "length n"]) (simp add: globs_end)

lemma reaches_cong1: "reaches e f p n p' n' \<Longrightarrow> same_syntax f g \<Longrightarrow> reaches e g p n p' n'"
  by (induction rule: reaches.induct)
    (auto intro: reaches.intros simp: brackmatch_cong fold_char_cong noescape_cong)

lemma reaches_cong: "same_syntax f g \<Longrightarrow> reaches e f p n p' n' = reaches e g p n p' n'"
  using reaches_cong1 [of e f p n p' n' g] reaches_cong1 [of e g p n p' n' f] by (auto simp: same_syntax_def)

section \<open>After a star\<close>

lemma collapse_plain:
  assumes "name_flags flags" and "plain_pattern flags pc" and "NUL \<notin> set n" and "length pc \<le> k" and "pc \<noteq> []" and "steady_pattern e flags pc"
  shows "(\<exists>q m. collapse e g flags 0 0 k n pc = Stops q m \<and> q \<noteq> [] \<and> hd q \<noteq> CHR ''?'' \<and> hd q \<noteq> CHR ''*'' \<and> from_here pc q \<and>
        from_here n m \<and> steady_pattern e flags q \<and> (globs e flags (CHR ''*'' # pc) n \<longleftrightarrow> globs e flags (CHR ''*'' # q) m)) \<or>
      collapse e g flags 0 0 k n pc = Returns (Some (if globs e flags (CHR ''*'' # pc) n then Match else No_Match))"
  using assms
proof (induction k arbitrary: n pc)
  case (Suc k)
  obtain c p where pc: "pc = c # p" using Suc.prems(5) by (cases pc) auto
  have path: "\<not> has_flag flags FNM_PATHNAME" using Suc.prems(1) by (simp add: name_flags_def)
  have p: "plain_pattern flags p" "length p \<le> k" using Suc.prems(2,4) pc plain_from_here [of flags pc p] by auto
  show ?case
  proof (cases "c = CHR ''?'' \<or> c = CHR ''*''")
    case False
    then show ?thesis using Suc.prems pc by (auto simp: Let_def)
  next
    case wild: True
    then have st: "steady_pattern e flags p" using Suc.prems(6) pc by (auto simp: steady_Any steady_Star)
    have ext: "\<not> (has_flag flags FNM_EXTMATCH \<and> deref p = CHR ''('')"
      using plain_no_parenthesis [of flags c p] Suc.prems(2) pc wild by auto
    show ?thesis
    proof (cases "c = CHR ''?'' \<and> n = []")
      case True
      then show ?thesis using pc path ext globs_star_any [of e flags p "[]"] by (auto simp: Let_def)
    next
      case False
      define m where "m = (if c = CHR ''?'' then tl n else n)"
      have m: "from_here n m" "NUL \<notin> set m" "globs e flags (CHR ''*'' # pc) n \<longleftrightarrow> globs e flags (CHR ''*'' # p) m"
        using False wild pc Suc.prems(3) no_NUL_from_here [of n m]
        by (auto simp: m_def globs_star_any globs_star_star)
      have d: "c = CHR ''?'' \<Longrightarrow> deref n \<noteq> NUL" using False Suc.prems(3) by (cases n) auto
      have run: "collapse e g flags 0 0 (Suc k) n pc = (if p = [] then Returns (Some Match) else collapse e g flags 0 0 k m p)"
        using wild ext path d by (auto simp: pc m_def Let_def)
      show ?thesis
      proof (cases "p = []")
        case True
        then show ?thesis using run m(3) globs_only_star by simp
      next
        case False
        from Suc.IH [OF Suc.prems(1) p(1) m(2) p(2) False st] show ?thesis
          unfolding run m(3) using False from_here_trans [OF m(1)] pc by auto
      qed
    qed
  qed
qed simp

text \<open>What a call of \<open>GMATCH\<close> has to answer.\<close>

definition answers :: "glob_locale \<Rightarrow> 32 word \<Rightarrow> bool \<Rightarrow> cstring \<Rightarrow> cstring \<Rightarrow> gresult option \<Rightarrow> bool" where
  "answers e flags ends p n r \<longleftrightarrow>
     (if ends \<and> (\<exists>p' n'. reaches e flags p n p' n') then \<exists>p' n'. reaches e flags p n p' n' \<and> r = Some (At_Star p' n')
      else r = Some (if globs e flags p n then Match else No_Match))"

lemma answers_step:
  "answers e flags ends p n r \<Longrightarrow> globs e flags q m = globs e flags p n \<Longrightarrow>
     (\<And>p' n'. reaches e flags q m p' n' = reaches e flags p n p' n') \<Longrightarrow> answers e flags ends q m r"
  by (simp add: answers_def)

lemma answers_fail:
  "\<not> globs e flags p n \<Longrightarrow> (\<And>p' n'. \<not> reaches e flags p n p' n') \<Longrightarrow> answers e flags ends p n (Some No_Match)"
  by (simp add: answers_def)

lemma answers_cong: "same_syntax f g \<Longrightarrow> answers e f ends p n r = answers e g ends p n r"
proof -
  assume fg: "same_syntax f g"
  have "reaches e f = reaches e g" "globs e f = globs e g" using reaches_cong [OF fg] globs_cong [OF fg] by (simp_all add: fun_eq_iff)
  then show ?thesis by (simp only: answers_def)
qed

text \<open>The search after a star finds the first place from which the pattern up to the next star matches; the
  star before it is then not needed any more.\<close>

lemma star_scan_first:
  assumes pc: "steady_pattern e flags pc" "\<not> globs e flags pc []"
    and tried: "\<And>m. from_here n m \<Longrightarrow> m \<noteq> [] \<Longrightarrow> possible (deref m) \<Longrightarrow> answers e flags True pc m (try m)"
    and skipped: "\<And>m. from_here n m \<Longrightarrow> m \<noteq> [] \<Longrightarrow> \<not> possible (deref m) \<Longrightarrow> answers e flags True pc m (Some No_Match)"
  shows "(\<exists>p' n'. star_scan try possible (butlast (pointers n 0)) = Some (At_Star p' n') \<and> from_here pc p' \<and> from_here n n' \<and>
        steady_pattern e flags p' \<and> (globs e flags (CHR ''*'' # pc) n \<longleftrightarrow> globs e flags p' n')) \<or>
      star_scan try possible (butlast (pointers n 0)) = Some (if globs e flags (CHR ''*'' # pc) n then Match else No_Match)"
  using tried skipped
proof (induction n)
  case Nil
  have "\<not> globs e flags (CHR ''*'' # pc) []" unfolding globs_star_iff using pc(2) by simp
  then show ?case by (simp add: pointers_0)
next
  case (Cons d n)
  define r where "r = (if possible d then try (d # n) else Some No_Match)"
  have r: "answers e flags True pc (d # n) r"
    using Cons.prems(1) [of "d # n"] Cons.prems(2) [of "d # n"] by (simp add: r_def)
  have scan: "star_scan try possible (butlast (pointers (d # n) 0)) =
      (case r of Some No_Match \<Rightarrow> star_scan try possible (butlast (pointers n 0)) | _ \<Rightarrow> r)"
    by (auto simp: pointers_0 r_def split: option.split gresult.split)
  have star: "globs e flags (CHR ''*'' # pc) (d # n) \<longleftrightarrow> globs e flags pc (d # n) \<or> globs e flags (CHR ''*'' # pc) n"
    by (subst globs_Star) simp
  show ?case
  proof (cases "\<exists>p' n'. reaches e flags pc (d # n) p' n'")
    case True
    then obtain p' n' where p': "reaches e flags pc (d # n) p' n'" "r = Some (At_Star p' n')"
      using r by (auto simp: answers_def)
    obtain k where k: "n' = drop k (d # n)" "k \<le> length (d # n)" "star_at e flags pc k p'"
      using reaches_same [OF p'(1) pc(1)] by blast
    obtain q where q: "p' = CHR ''*'' # q" using k(3) by (auto simp: star_at_def)
    have "globs e flags p' n'" if "globs e flags (CHR ''*'' # pc) (d # n)"
    proof -
      obtain j where j: "globs e flags pc (drop j (d # n))" "j \<le> length (d # n)" using \<open>globs e flags (CHR ''*'' # pc) (d # n)\<close>
        unfolding globs_star_iff by blast
      then have "globs e flags p' (drop j n')" "j \<le> length n'"
        using k by (auto simp: star_at_def add.commute)
      then show ?thesis using globs_star_absorbs q by blast
    qed
    moreover have "globs e flags (CHR ''*'' # pc) (d # n)" if "globs e flags p' n'"
      using reaches_globs [OF p'(1) that] star by blast
    ultimately show ?thesis
      using scan p'(2) k by (auto simp: star_at_def)
  next
    case False
    then have r': "r = Some (if globs e flags pc (d # n) then Match else No_Match)" using r by (simp add: answers_def)
    show ?thesis
    proof (cases "globs e flags pc (d # n)")
      case True
      then show ?thesis using scan r' star by simp
    next
      case False
      have "from_here (d # n) m" if "from_here n m" for m using that by blast
      then have "(\<exists>p' n'. star_scan try possible (butlast (pointers n 0)) = Some (At_Star p' n') \<and> from_here pc p' \<and> from_here n n' \<and>
          steady_pattern e flags p' \<and> (globs e flags (CHR ''*'' # pc) n \<longleftrightarrow> globs e flags p' n')) \<or>
        star_scan try possible (butlast (pointers n 0)) = Some (if globs e flags (CHR ''*'' # pc) n then Match else No_Match)"
        using Cons.prems by (intro Cons.IH) auto
      then show ?thesis unfolding scan r' star using False by (elim disjE exE conjE) auto
    qed
  qed
qed

text \<open>What follows the star can only match where its first character is possible.\<close>

lemma possible_start_plain:
  assumes "plain_pattern flags (c # p)" and "keeps_specials e flags" and "c \<noteq> CHR ''?''" "c \<noteq> CHR ''*''"
    and "globs e flags (c # p) (d # n) \<or> reaches e flags (c # p) (d # n) p' n'"
  shows "possible_start e flags (c # p) d"
proof -
  have "c = CHR ''['' \<or> (if \<not> has_flag flags FNM_NOESCAPE \<and> c = CHR 0x5C then p \<noteq> [] \<and> fold_char e flags (hd p) = fold_char e flags d
      else fold_char e flags c = fold_char e flags d)"
    using assms(5)
  proof
    assume "globs e flags (c # p) (d # n)"
    then show ?thesis using assms(3,4) by (cases rule: globs.cases) auto
  next
    assume "reaches e flags (c # p) (d # n) p' n'"
    then show ?thesis using assms(3,4) by (cases rule: reaches.cases) auto
  qed
  then show ?thesis by (cases p) (auto simp: possible_start_def Let_def split: if_splits)
qed

lemma not_wild_not_empty: "c \<noteq> CHR ''*'' \<Longrightarrow> \<not> globs e flags (c # p) []"
  by (auto elim: globs.cases)

section \<open>GMATCH\<close>

text \<open>What the induction assumes of the recursive calls.\<close>

definition answers_below :: "glob_locale \<Rightarrow> nat \<Rightarrow> gcall \<Rightarrow> bool" where
  "answers_below e k g \<longleftrightarrow>
     (\<forall>flags ends str n p. length p < k \<longrightarrow> name_flags flags \<longrightarrow> keeps_specials e flags \<longrightarrow> plain_pattern flags p \<longrightarrow> steady_pattern e flags p \<longrightarrow>
        NUL \<notin> set p \<longrightarrow> NUL \<notin> set n \<longrightarrow> quiet flags str n \<longrightarrow> answers e flags ends p n (g flags ends str 0 0 n p))"

lemma answers_belowD:
  "answers_below e k g \<Longrightarrow> length p < k \<Longrightarrow> name_flags flags \<Longrightarrow> keeps_specials e flags \<Longrightarrow> plain_pattern flags p \<Longrightarrow> steady_pattern e flags p \<Longrightarrow>
     NUL \<notin> set p \<Longrightarrow> NUL \<notin> set n \<Longrightarrow> quiet flags str n \<Longrightarrow> answers e flags ends p n (g flags ends str 0 0 n p)"
  by (simp add: answers_below_def)

lemma gmatch_star_answers:
  assumes g: "answers_below e (Suc (length p)) g" and flags: "name_flags flags" "keeps_specials e flags"
    and p: "plain_pattern flags p" "steady_pattern e flags p" "NUL \<notin> set p" and n: "NUL \<notin> set n" "quiet flags str n"
  shows "answers e flags ends (CHR ''*'' # p) n (gmatch_star e g flags pat ends str 0 0 n (CHR ''*'' # p))"
proof (cases ends)
  case True
  then show ?thesis by (auto simp: answers_def gmatch_star_def reaches_Star)
next
  case False
  let ?result = "Some (if globs e flags (CHR ''*'' # p) n then Match else No_Match)"
  have blocked: "\<not> dot_blocked flags str (deref n) n" by (rule not_blocked [OF flags(1) n(2) refl])
  have "gmatch_star e g flags pat ends str 0 0 n (CHR ''*'' # p) = ?result"
  proof (cases "p = []")
    case True
    then show ?thesis using False blocked globs_only_star by (simp add: gmatch_star_def)
  next
    case p_ne: False
    from collapse_plain [OF flags(1) p(1) n(1) _ p_ne p(2), of "Suc (length p)" g]
    consider (ret) "collapse e g flags 0 0 (Suc (length p)) n p = Returns ?result"
      | (stop) q m where "collapse e g flags 0 0 (Suc (length p)) n p = Stops q m" "q \<noteq> []" "hd q \<noteq> CHR ''?''" "hd q \<noteq> CHR ''*''"
        "from_here p q" "from_here n m" "steady_pattern e flags q" "globs e flags (CHR ''*'' # p) n \<longleftrightarrow> globs e flags (CHR ''*'' # q) m"
      by auto
    then show ?thesis
    proof cases
      case ret
      then show ?thesis using False blocked p_ne by (simp add: gmatch_star_def del: collapse.simps)
    next
      case stop
      obtain c q' where q: "q = c # q'" using stop(2) by (cases q) auto
      have c: "c \<noteq> CHR ''?''" "c \<noteq> CHR ''*''" using stop(3,4) q by auto
      have qp: "plain_pattern flags q" "NUL \<notin> set q" "length q < Suc (length p)"
        using plain_from_here [OF p(1) stop(5)] no_NUL_from_here [OF p(3) stop(5)] from_here_length [OF stop(5)] by auto
      have mn: "NUL \<notin> set m" "quiet flags str m" using no_NUL_from_here [OF n(1) stop(6)] quiet_from_here [OF n(2) stop(6)] by auto
      have empty: "\<not> globs e flags q []" unfolding q by (rule not_wild_not_empty [OF c(2)])
      have tried: "answers e flags True q m' (g (not_at_start flags) True m' 0 0 m' q)" if "from_here m m'" for m'
        using answers_belowD [OF g qp(3), of "not_at_start flags" m' m' True] flags qp stop(7) no_NUL_from_here [OF mn(1) that]
        by (simp add: answers_cong [OF same_syntax_start] steady_cong [OF same_syntax_start])
      have skipped: "answers e flags True q m' (Some No_Match)" if "from_here m m'" and ne: "m' \<noteq> []" and imp: "\<not> possible_start e flags q (deref m')" for m'
      proof (rule answers_fail)
        obtain d n' where m': "m' = d # n'" using ne by (cases m') auto
        then have "\<not> (globs e flags (c # q') (d # n') \<or> reaches e flags (c # q') (d # n') p' n'')" for p' n''
          using possible_start_plain [OF _ flags(2) c] qp(1) imp q by (metis deref_Cons)
        then show "\<not> globs e flags q m'" "\<not> reaches e flags q m' p' n''" for p' n'' unfolding q m' by blast+
      qed
      have run: "gmatch_star e g flags pat ends str 0 0 n (CHR ''*'' # p) =
          (case star_scan (\<lambda>m. g (not_at_start flags) True m 0 0 m q) (possible_start e flags q) (butlast (pointers m 0)) of
              Some (At_Star p' n') \<Rightarrow> g flags ends str 0 0 n' p' | r \<Rightarrow> r)"
      proof -
        have "c \<noteq> NUL" using qp(2) q by auto
        moreover have "\<not> (has_flag flags FNM_EXTMATCH \<and> (c = CHR ''!'' \<or> c = CHR ''?'') \<and> deref q' = CHR ''('')"
          using plain_no_parenthesis [of flags c q'] qp(1) q by auto
        moreover have "\<not> has_flag flags FNM_PATHNAME" using flags(1) by (simp add: name_flags_def)
        ultimately have "after_star e g flags pat 0 0 (g flags ends str 0 0) m q =
            (case star_scan (\<lambda>m. g (not_at_start flags) True m 0 0 m q) (possible_start e flags q) (butlast (pointers m 0)) of
              Some (At_Star p' n') \<Rightarrow> g flags ends str 0 0 n' p' | r \<Rightarrow> r)"
          by (auto simp: after_star_def q Let_def up_to_slash_def)
        then show ?thesis using False blocked p_ne stop(1) by (simp add: gmatch_star_def del: collapse.simps)
      qed
      from star_scan_first [OF stop(7) empty, of m "possible_start e flags q" "\<lambda>m. g (not_at_start flags) True m 0 0 m q"] tried skipped
      consider (none) "star_scan (\<lambda>m. g (not_at_start flags) True m 0 0 m q) (possible_start e flags q) (butlast (pointers m 0)) = ?result"
        | (next_star) p' n' where "star_scan (\<lambda>m. g (not_at_start flags) True m 0 0 m q) (possible_start e flags q) (butlast (pointers m 0)) =
            Some (At_Star p' n')" "from_here q p'" "from_here m n'" "steady_pattern e flags p'" "globs e flags (CHR ''*'' # q) m \<longleftrightarrow> globs e flags p' n'"
        unfolding stop(8) by blast
      then show ?thesis
      proof cases
        case none
        then show ?thesis using run by simp
      next
        case next_star
        have "answers e flags ends p' n' (g flags ends str 0 0 n' p')"
          using next_star flags plain_from_here [OF qp(1)] no_NUL_from_here [OF qp(2)] from_here_length [OF next_star(2)] qp(3)
            no_NUL_from_here [OF mn(1)] quiet_from_here [OF mn(2)]
          by (intro answers_belowD [OF g]) auto
        then show ?thesis using run next_star(1,5) stop(8) False by (simp add: answers_def)
      qed
    qed
  qed
  with False show ?thesis by (simp add: answers_def)
qed

lemma gmatch_step_answers:
  assumes g: "answers_below e (length p) g" and flags: "name_flags flags" "keeps_specials e flags"
    and p: "plain_pattern flags p" "steady_pattern e flags p" "NUL \<notin> set p" and n: "NUL \<notin> set n"
    and dot: "quiet flags str n \<or> deref p \<notin> {CHR ''?'', CHR ''*'', CHR ''[''} \<and> quiet flags str (tl n)"
  shows "answers e flags ends p n (gmatch_step e g pat flags ends str 0 0 n p)"
proof (cases p)
  case Nil
  then show ?thesis
    using flags(1) by (auto simp: gmatch_step_def answers_def globs_Nil reaches_Nil name_flags_def)
next
  case (Cons c q)
  have c: "c \<noteq> NUL" "NUL \<notin> set q" using p(3) Cons by auto
  have ext: "c \<in> {CHR ''?'', CHR ''*'', CHR ''+'', CHR ''@'', CHR ''!''} \<Longrightarrow> (has_flag flags FNM_EXTMATCH \<and> deref q = CHR ''('') = False"
    using plain_no_parenthesis p(1) Cons by blast
  have fold: "fold_char e flags x = CHR ''?'' \<longleftrightarrow> x = CHR ''?''" "fold_char e flags x = CHR ''*'' \<longleftrightarrow> x = CHR ''*''"
    "fold_char e flags x = CHR ''['' \<longleftrightarrow> x = CHR ''[''" "fold_char e flags x = CHR 0x5C \<longleftrightarrow> x = CHR 0x5C"
    "fold_char e flags x = NUL \<longleftrightarrow> x = NUL" "fold_char e flags x = CHR ''+'' \<longleftrightarrow> x = CHR ''+''"
    "fold_char e flags x = CHR ''@'' \<longleftrightarrow> x = CHR ''@''" "fold_char e flags x = CHR ''!'' \<longleftrightarrow> x = CHR ''!''" for x
    using flags(2) by (simp_all add: keeps_specials_def)
  have folded: "fold_char e flags (CHR ''?'') = CHR ''?''" "fold_char e flags (CHR ''*'') = CHR ''*''"
    "fold_char e flags (CHR ''['') = CHR ''[''" "fold_char e flags (CHR 0x5C) = CHR 0x5C" "fold_char e flags NUL = NUL"
    by (simp_all add: fold)
  have bs: "CHR 0x5C = fold_char e flags x \<longleftrightarrow> x = CHR 0x5C" for x by (metis fold(4))
  have path: "\<not> has_flag flags FNM_PATHNAME" using flags(1) by (simp add: name_flags_def)
  have later: "quiet flags str (tl n)" using dot quiet_from_here [OF _ from_here_tl] by blast
  have here: "quiet flags str n" if "c \<in> {CHR ''?'', CHR ''*'', CHR ''[''}" using dot that Cons by auto
  have rec: "answers e flags ends r (tl n) (g flags ends str 0 0 (tl n) r)" if "from_here q r" "steady_pattern e flags r" for r
    using that flags plain_from_here [OF p(1), of r] no_NUL_from_here [OF c(2)] from_here_length [of q r]
      no_NUL_from_here [OF n from_here_tl] later Cons
    by (intro answers_belowD [OF g]) auto
  have d: "deref n = NUL \<longleftrightarrow> n = []" using n by (cases n) auto
  consider (any) "c = CHR ''?''" | (star) "c = CHR ''*''" | (set) "c = CHR ''[''" | (quote) "c = CHR 0x5C" "\<not> has_flag flags FNM_NOESCAPE"
    | (char) "c \<noteq> CHR ''?''" "c \<noteq> CHR ''*''" "c \<noteq> CHR ''[''" "c = CHR 0x5C \<longrightarrow> has_flag flags FNM_NOESCAPE" by blast
  then show ?thesis
  proof cases
    case any
    have st: "steady_pattern e flags q" using p(2) Cons any by (simp add: steady_Any)
    have blocked: "\<not> dot_blocked flags str (deref n) n" using any by (intro not_blocked [OF flags(1) here refl]) simp
    have run: "gmatch_step e g pat flags ends str 0 0 n p = (if n = [] then Some No_Match else g flags ends str 0 0 (tl n) q)"
      using blocked path d by (simp add: ext gmatch_step_def Let_def Cons any folded)
    show ?thesis
    proof (cases n)
      case Nil
      then show ?thesis unfolding run by (simp add: answers_fail Cons any globs_Any reaches_Any)
    next
      case (Cons x n')
      then show ?thesis unfolding run unfolding \<open>p = c # q\<close> any using rec [OF _ st]
        by (auto intro: answers_step simp: globs_Any reaches_Any)
    qed
  next
    case star
    have "steady_pattern e flags q" using p(2) Cons star by (simp add: steady_Star)
    moreover have "gmatch_step e g pat flags ends str 0 0 n p = gmatch_star e g flags pat ends str 0 0 n (CHR ''*'' # q)"
      by (simp add: ext gmatch_step_def Let_def Cons star folded)
    moreover have "answers_below e (Suc (length q)) g" "plain_pattern flags q" using g plain_from_here [OF p(1), of q] Cons by auto
    ultimately show ?thesis
      using gmatch_star_answers [of e q g flags n str ends pat] flags c(2) n here Cons star by simp
  next
    case set
    have st: "steady_pattern e flags r" if "brackmatch e q x flags = Some r" for x r
      using that p(2) Cons set by (simp add: steady_Set)
    have blocked: "\<not> dot_blocked flags str (deref n) n" using set by (intro not_blocked [OF flags(1) here refl]) simp
    have run: "gmatch_step e g pat flags ends str 0 0 n p =
        (if n = [] then Some No_Match else case brackmatch e q (deref n) flags of None \<Rightarrow> Some No_Match | Some r \<Rightarrow> g flags ends str 0 0 (tl n) r)"
      using blocked path d by (simp add: ext gmatch_step_def Let_def Cons set folded)
    show ?thesis
    proof (cases n)
      case Nil
      then show ?thesis unfolding run by (simp add: answers_fail Cons set globs_Set reaches_Set)
    next
      case (Cons x n')
      show ?thesis
      proof (cases "brackmatch e q x flags")
        case None
        then show ?thesis unfolding run by (simp add: answers_fail Cons \<open>p = c # q\<close> set globs_Set reaches_Set)
      next
        case (Some r)
        then show ?thesis unfolding run unfolding \<open>p = c # q\<close> set using rec [OF brackmatch_from_here [OF Some] st [OF Some]] Cons
          by (auto intro: answers_step simp: globs_Set reaches_Set)
      qed
    qed
  next
    case quote
    obtain c' r where q: "q = c' # r" "steady_pattern e flags r" using p(2) Cons quote by (auto simp: steady_Quoted)
    have c': "c' \<noteq> NUL" using c(2) q by auto
    have run: "gmatch_step e g pat flags ends str 0 0 n p =
        (if fold_char e flags (deref n) \<noteq> fold_char e flags c' then Some No_Match else g flags ends str 0 0 (tl n) r)"
      using quote q by (simp add: ext gmatch_step_def Let_def Cons folded)
    show ?thesis
    proof (cases n)
      case Nil
      have "fold_char e flags NUL \<noteq> fold_char e flags c'" using c' fold(5) folded(5) by metis
      then show ?thesis unfolding run using Nil quote q by (simp add: answers_fail Cons globs_Quoted reaches_Quoted)
    next
      case (Cons x n')
      show ?thesis
      proof (cases "fold_char e flags x = fold_char e flags c'")
        case True
        have "from_here q r" using q by auto
        then have "answers e flags ends r n' (g flags ends str 0 0 n' r)" using rec q(2) Cons by simp
        then show ?thesis unfolding run unfolding \<open>p = c # q\<close> quote(1) using Cons q True quote(2)
          by (auto intro: answers_step simp: globs_Quoted reaches_Quoted)
      next
        case False
        then show ?thesis unfolding run using Cons quote q by (auto intro!: answers_fail simp: \<open>p = c # q\<close> globs_Quoted reaches_Quoted)
      qed
    qed
  next
    case char
    have globs: "globs e flags (c # q) m \<longleftrightarrow> (\<exists>x m'. m = x # m' \<and> fold_char e flags c = fold_char e flags x \<and> globs e flags q m')" for m
      using char by (auto elim: globs.cases intro: globs_char)
    have reaches: "reaches e flags (c # q) m p' n' \<longleftrightarrow>
        (\<exists>x m'. m = x # m' \<and> fold_char e flags c = fold_char e flags x \<and> reaches e flags q m' p' n')" for m p' n'
      using char by (auto elim: reaches.cases intro: reaches_char)
    have st: "steady_pattern e flags q" using p(2) Cons char by (auto elim: steady_pattern.cases)
    have run: "gmatch_step e g pat flags ends str 0 0 n p =
        (if fold_char e flags c \<noteq> fold_char e flags (deref n) then Some No_Match else g flags ends str 0 0 (tl n) q)"
      if "c = CHR 0x5C \<longrightarrow> q \<noteq> []"
    proof (cases "c = CHR 0x5C")
      case True
      then have "has_flag flags FNM_NOESCAPE" "q \<noteq> []" using char(4) that by simp_all
      then show ?thesis by (simp add: ext gmatch_step_def Let_def Cons True folded)
    next
      case False
      show ?thesis
      proof (cases "has_flag flags FNM_EXTMATCH \<and> deref q = CHR ''(''")
        case True
        then have "c \<noteq> CHR ''+''" "c \<noteq> CHR ''@''" "c \<noteq> CHR ''!''" using ext by auto
        then show ?thesis using char(1-3) False by (simp add: gmatch_step_def Let_def Cons fold)
      next
        case no_ext: False
        have none: "(has_flag flags FNM_EXTMATCH \<and> deref q = CHR ''('' \<and> X) = False" for X using no_ext by blast
        show ?thesis using char(1-3) False by (simp add: none gmatch_step_def Let_def Cons fold)
      qed
    qed
    have last: "gmatch_step e g pat flags ends str 0 0 n p = (if n = [CHR 0x5C] then g flags ends str 0 0 [] [] else Some No_Match)"
      if "c = CHR 0x5C" "q = []"
      using that by (cases n) (auto simp: ext gmatch_step_def Let_def Cons folded)
    show ?thesis
    proof (cases "c = CHR 0x5C \<and> q = []")
      case True
      then have last': "gmatch_step e g pat flags ends str 0 0 n p = (if n = [CHR 0x5C] then g flags ends str 0 0 [] [] else Some No_Match)"
        using last by simp
      show ?thesis
      proof (cases "n = [CHR 0x5C]")
        case True
        then have "answers e flags ends [] [] (g flags ends str 0 0 [] [])" using rec [OF _ st] \<open>c = CHR 0x5C \<and> q = []\<close> by simp
        moreover have "globs e flags (c # q) n \<longleftrightarrow> globs e flags [] []" "reaches e flags (c # q) n p' n' \<longleftrightarrow> reaches e flags [] [] p' n'" for p' n'
          unfolding globs reaches using True \<open>c = CHR 0x5C \<and> q = []\<close> by simp_all
        ultimately show ?thesis unfolding last' unfolding \<open>p = c # q\<close> using True by (simp add: answers_step)
      next
        case False
        then have "\<not> globs e flags (c # q) n" "\<not> reaches e flags (c # q) n p' n'" for p' n'
          unfolding globs reaches using \<open>c = CHR 0x5C \<and> q = []\<close> by (auto simp: folded bs globs_Nil reaches_Nil)
        then show ?thesis unfolding last' unfolding \<open>p = c # q\<close> using False by (simp add: answers_fail)
      qed
    next
      case not_last: False
      note run = run [OF this [simplified]]
      show ?thesis
      proof (cases "n \<noteq> [] \<and> fold_char e flags c = fold_char e flags (deref n)")
        case True
        then obtain x n' where x: "n = x # n'" "fold_char e flags c = fold_char e flags x" by (cases n) auto
        then show ?thesis unfolding run unfolding \<open>p = c # q\<close> using rec [OF from_here_refl st]
          by (auto intro: answers_step simp: globs reaches)
      next
        case False
        have "fold_char e flags c \<noteq> fold_char e flags NUL" using c(1) fold(5) folded(5) by metis
        with False have "fold_char e flags c \<noteq> fold_char e flags (deref n)" by (cases n) auto
        then show ?thesis unfolding run using False by (auto intro!: answers_fail simp: \<open>p = c # q\<close> globs reaches)
      qed
    qed
  qed
qed

lemma gmatch_answers: "answers_below e k (gmatch k e pat)"
proof (induction k)
  case 0
  show ?case by (simp add: answers_below_def)
next
  case (Suc k)
  have "answers_below e (length p) (gmatch k e pat)" if "length p < Suc k" for p :: cstring
    using Suc that by (auto simp: answers_below_def)
  then show ?case by (simp add: answers_below_def gmatch_step_answers)
qed

text \<open>The whole pattern against the whole string.\<close>

lemma dot_refused:
  assumes "plain_pattern flags p" and "keeps_specials e flags" and "explicit_dot flags str" and "deref p \<in> {CHR ''?'', CHR ''*'', CHR ''[''}"
  shows "gmatch (Suc k) e pat flags False str 0 0 str p = Some No_Match"
proof -
  obtain c q where p: "p = c # q" and c: "c = CHR ''?'' \<or> c = CHR ''*'' \<or> c = CHR ''[''" using assms(4) by (cases p) auto
  have fold: "fold_char e flags c = c" using assms(2) c unfolding keeps_specials_def by blast
  have ext: "c \<noteq> CHR ''['' \<Longrightarrow> (has_flag flags FNM_EXTMATCH \<and> deref q = CHR ''('') = False"
    using plain_no_parenthesis assms(1) p c by blast
  have blocked: "dot_blocked flags str (deref str) str"
    using assms(3) unfolding dot_blocked_def explicit_dot_def by blast
  from c show ?thesis
  proof (elim disjE)
    assume "c = CHR ''?''"
    then show ?thesis using fold blocked by (simp add: ext p gmatch_step_def Let_def)
  next
    assume "c = CHR ''*''"
    then show ?thesis using fold blocked by (simp add: ext p gmatch_step_def gmatch_star_def Let_def)
  next
    assume "c = CHR ''[''"
    then show ?thesis using fold blocked by (simp add: ext p gmatch_step_def Let_def)
  qed
qed

definition name_matches :: "glob_locale \<Rightarrow> 32 word \<Rightarrow> cstring \<Rightarrow> cstring \<Rightarrow> bool" where
  "name_matches e flags p str \<longleftrightarrow>
     globs e flags p str \<and> \<not> (explicit_dot flags str \<and> deref p \<in> {CHR ''?'', CHR ''*'', CHR ''[''})"

lemma strmatch_decides:
  assumes "name_flags flags" and "keeps_specials e flags" and "plain_pattern flags p" and "steady_pattern e flags p"
    and "NUL \<notin> set p" and "NUL \<notin> set str"
  shows "internal_strmatch e p str flags = Some (name_matches e flags p str)"
proof -
  define k where "k = match_fuel p str - 1"
  have "Suc (length p) \<le> match_fuel p str" unfolding match_fuel_def by (simp only: mult_Suc)
  then have k: "match_fuel p str = Suc k" "length p \<le> k" unfolding k_def by linarith+
  have run: "internal_strmatch e p str flags = succeeds (gmatch (Suc k) e p flags False str 0 0 str p)"
    by (simp add: internal_strmatch_def k(1) del: gmatch.simps)
  show ?thesis
  proof (cases "explicit_dot flags str \<and> deref p \<in> {CHR ''?'', CHR ''*'', CHR ''[''}")
    case True
    then have "gmatch (Suc k) e p flags False str 0 0 str p = Some No_Match" using dot_refused [OF assms(3,2)] by blast
    moreover have "\<not> name_matches e flags p str" unfolding name_matches_def using True by blast
    ultimately show ?thesis unfolding run by (simp add: succeeds_def del: gmatch.simps)
  next
    case False
    have dot: "quiet flags str str \<or> deref p \<notin> {CHR ''?'', CHR ''*'', CHR ''[''} \<and> quiet flags str (tl str)"
    proof (cases str)
      case Nil
      then show ?thesis by (simp add: quiet_def explicit_dot_def sdot_or_dotdot_def)
    next
      case (Cons d s)
      then have "quiet flags str (tl str)" by (simp add: quiet_def)
      with False show ?thesis unfolding quiet_def by blast
    qed
    have "answers_below e (length p) (gmatch k e p)"
      using gmatch_answers [of e k p] k(2) by (simp add: answers_below_def)
    then have "answers e flags False p str (gmatch_step e (gmatch k e p) p flags False str 0 0 str p)"
      using assms dot by (intro gmatch_step_answers)
    then have "gmatch (Suc k) e p flags False str 0 0 str p = Some (if globs e flags p str then Match else No_Match)"
      by (simp add: answers_def)
    moreover have "name_matches e flags p str = globs e flags p str" unfolding name_matches_def using False by blast
    ultimately show ?thesis unfolding run by (simp add: succeeds_def del: gmatch.simps)
  qed
qed

end
