(* ===== verification/Glob_Patterns.thy ===== *)
theory Glob_Patterns
  imports Glob_Correct
begin

text \<open>
  Patterns as trees: characters, \<open>?\<close>, \<open>*\<close> and bracket expressions with characters, ranges and classes,
  with their meaning and their text. Matching the text decides the meaning.
\<close>

section \<open>Trees\<close>

datatype set_item = One char | Range char char | Class char_class

datatype glob_token = Lit char | Bare char | Any | Star | Set_Of bool "set_item list"

definition class_name :: "char_class \<Rightarrow> cstring" where
  "class_name k = (case k of
     CC_ASCII \<Rightarrow> ''ascii'' | CC_ALNUM \<Rightarrow> ''alnum'' | CC_ALPHA \<Rightarrow> ''alpha'' | CC_BLANK \<Rightarrow> ''blank'' | CC_CNTRL \<Rightarrow> ''cntrl''
   | CC_DIGIT \<Rightarrow> ''digit'' | CC_GRAPH \<Rightarrow> ''graph'' | CC_LOWER \<Rightarrow> ''lower'' | CC_PRINT \<Rightarrow> ''print'' | CC_PUNCT \<Rightarrow> ''punct''
   | CC_SPACE \<Rightarrow> ''space'' | CC_UPPER \<Rightarrow> ''upper'' | CC_WORD \<Rightarrow> ''word'' | CC_XDIGIT \<Rightarrow> ''xdigit'')"

text \<open>The characters of a bracket expression and the literal ones are written with a backslash, the bare ones without.\<close>

fun item_text :: "set_item \<Rightarrow> cstring" where
  "item_text (One c) = [CHR 0x5C, c]"
| "item_text (Range a b) = [CHR 0x5C, a, CHR ''-'', CHR 0x5C, b]"
| "item_text (Class k) = CHR ''['' # CHR '':'' # class_name k @ [CHR '':'', CHR '']'']"

abbreviation items_text :: "set_item list \<Rightarrow> cstring" where
  "items_text its \<equiv> concat (map item_text its)"

fun glob_token_text :: "glob_token \<Rightarrow> cstring" where
  "glob_token_text (Lit c) = [CHR 0x5C, c]"
| "glob_token_text (Bare c) = [c]"
| "glob_token_text Any = ''?''"
| "glob_token_text Star = ''*''"
| "glob_token_text (Set_Of neg its) = CHR ''['' # (if neg then ''!'' else []) @ items_text its @ [CHR '']'']"

abbreviation glob_text :: "glob_token list \<Rightarrow> cstring" where
  "glob_text ts \<equiv> concat (map glob_token_text ts)"

lemma token_text_not_Nil [simp]: "glob_token_text t \<noteq> []"
  by (cases t) simp_all

fun item_ok :: "set_item \<Rightarrow> bool" where
  "item_ok (One c) \<longleftrightarrow> c \<noteq> NUL"
| "item_ok (Range a b) \<longleftrightarrow> a \<noteq> NUL \<and> b \<noteq> NUL"
| "item_ok (Class k) \<longleftrightarrow> True"

fun token_ok :: "glob_token \<Rightarrow> bool" where
  "token_ok (Lit c) \<longleftrightarrow> c \<noteq> NUL"
| "token_ok (Bare c) \<longleftrightarrow> c \<notin> {NUL, CHR ''?'', CHR ''*'', CHR ''['', CHR 0x5C, CHR ''(''}"
| "token_ok (Set_Of neg its) \<longleftrightarrow> its \<noteq> [] \<and> list_all item_ok its"
| "token_ok t \<longleftrightarrow> True"

section \<open>Meaning\<close>

fun set_item_matches :: "glob_locale \<Rightarrow> 32 word \<Rightarrow> char \<Rightarrow> set_item \<Rightarrow> bool" where
  "set_item_matches e flags d (One c) \<longleftrightarrow> fold_char e flags d = fold_char e flags c"
| "set_item_matches e flags d (Range a b) \<longleftrightarrow>
     rangecmp e (fold_char e flags a) (fold_char e flags b) False \<le> 0 \<and>
     rangecmp e (fold_char e flags d) (fold_char e flags a) False \<ge> 0 \<and>
     rangecmp e (fold_char e flags d) (fold_char e flags b) False \<le> 0"
| "set_item_matches e flags d (Class k) \<longleftrightarrow> (locale_utf8locale e \<longrightarrow> UTF8_SINGLEBYTE d) \<and> cclass_test e d k"

definition token_matches :: "glob_locale \<Rightarrow> 32 word \<Rightarrow> glob_token \<Rightarrow> char \<Rightarrow> bool" where
  "token_matches e flags t d =
     (case t of
        Lit c \<Rightarrow> fold_char e flags c = fold_char e flags d
      | Bare c \<Rightarrow> fold_char e flags c = fold_char e flags d
      | Set_Of neg its \<Rightarrow> neg \<noteq> list_ex (set_item_matches e flags d) its
      | _ \<Rightarrow> True)"

fun glob_matches :: "glob_locale \<Rightarrow> 32 word \<Rightarrow> glob_token list \<Rightarrow> cstring \<Rightarrow> bool" where
  "glob_matches e flags [] s \<longleftrightarrow> s = []"
| "glob_matches e flags (Star # ts) s \<longleftrightarrow>
     glob_matches e flags ts s \<or> (case s of [] \<Rightarrow> False | d # s' \<Rightarrow> glob_matches e flags (Star # ts) s')"
| "glob_matches e flags (t # ts) s \<longleftrightarrow>
     (case s of [] \<Rightarrow> False | d # s' \<Rightarrow> token_matches e flags t d \<and> glob_matches e flags ts s')"

section \<open>The text of a bracket expression\<close>

lemma class_name_plain:
  "c \<in> set (class_name k) \<Longrightarrow> c \<noteq> CHR '':'' \<and> c \<noteq> CHR '']'' \<and> c \<noteq> CHR 0x5C \<and> c \<noteq> CHR ''/'' \<and> c \<noteq> NUL \<and> c \<noteq> CHR ''(''"
  by (cases k) (auto simp: class_name_def NUL_def)

lemma class_name_valid: "is_valid_cclass (class_name k) = Some k"
  by (cases k) (simp_all add: class_name_def is_valid_cclass_def cclass_name_def)

lemma subbracket_class:
  assumes "\<forall>c \<in> set s. c \<noteq> CHR '':'' \<and> c \<noteq> CHR '']''" and "\<not> has_flag flags FNM_PATHNAME"
  shows "subbracket_loop flags (CHR '':'') (s @ CHR '':'' # CHR '']'' # r) = Some (CHR '':'' # CHR '']'' # r)"
  using assms by (induction s) (auto simp: slash_pathname_def)

lemma parse_class:
  "\<not> has_flag flags FNM_PATHNAME \<Longrightarrow>
     parse_subbracket (CHR '':'' # class_name k @ CHR '':'' # CHR '']'' # r) flags = Some (CHR '':'' # CHR '']'' # r)"
  using class_name_plain by (simp add: parse_subbracket_def subbracket_class)

lemma udequote_plain: "CHR 0x5C \<notin> set s \<Longrightarrow> udequote_pathname s = s"
  by (induction s) auto

lemma udequote_class: "udequote_pathname (class_name k) = class_name k"
  using class_name_plain udequote_plain by blast

text \<open>What follows an item: another item or the closing bracket.\<close>

definition after_item :: "cstring \<Rightarrow> bool" where
  "after_item r \<longleftrightarrow> deref r = CHR 0x5C \<or> deref r = CHR ''['' \<or> deref r = CHR '']''"

lemma after_item_text [simp]: "after_item (items_text its @ CHR '']'' # r)"
proof (cases its)
  case (Cons i js)
  then show ?thesis by (cases i) (simp_all add: after_item_def)
qed (simp add: after_item_def)

text \<open>The answer of the loop after an item that does not match.\<close>

definition item_next :: "(char \<Rightarrow> cstring \<Rightarrow> bracket_end) \<Rightarrow> cstring \<Rightarrow> bracket_end" where
  "item_next loop r = (if deref r = CHR '']'' then Ended (tl r) else loop (deref r) (tl r))"

lemma keeps_specialsD:
  assumes "keeps_specials e flags"
  shows "fold_char e flags (CHR 0x5C) = CHR 0x5C" "fold_char e flags (CHR ''['') = CHR ''[''" "fold_char e flags (CHR '']'') = CHR '']''"
    "fold_char e flags (CHR ''-'') = CHR ''-''" "fold_char e flags c = NUL \<longleftrightarrow> c = NUL"
  using assms unfolding keeps_specials_def by blast+

lemma fold_after_item: "keeps_specials e flags \<Longrightarrow> after_item r \<Longrightarrow> fold_char e flags (deref r) = deref r"
  unfolding after_item_def using keeps_specialsD by metis

lemma item_step:
  assumes e: "keeps_specials e flags" and flags: "\<not> has_flag flags FNM_PATHNAME" "\<not> has_flag flags FNM_NOESCAPE"
    and i: "item_ok i" and r: "after_item r" and written: "item_text i @ r = c # p"
  shows "bracket_loop e flags d (Suc k) c p =
    (if set_item_matches e flags d i then Matched r else item_next (bracket_loop e flags d k) r)"
proof -
  have neq: "deref r \<noteq> NUL" "deref r \<noteq> CHR ''-''" "deref r \<noteq> CHR ''.''" using r unfolding after_item_def by auto
  note next_fold = fold_after_item [OF e r]
  have slash: "slash_pathname flags x = False" for x using flags by (simp add: slash_pathname_def)
  note folds = keeps_specialsD [OF e]
  let ?loop = "bracket_loop e flags d k"
  show ?thesis
  proof (cases i)
    case (One x)
    have cp: "c = CHR 0x5C" "p = x # r" and x: "x \<noteq> NUL" using written i One by auto
    have "bracket_char e flags ?loop (fold_char e flags d) c p =
        (if fold_char e flags d = fold_char e flags x then Matched r else item_next ?loop r)"
      unfolding bracket_char_def cp Let_def by (simp add: flags x slash neq next_fold item_next_def)
    then show ?thesis by (simp add: One cp(1))
  next
    case (Range a b)
    have cp: "c = CHR 0x5C" "p = a # CHR ''-'' # CHR 0x5C # b # r" and x: "a \<noteq> NUL" "b \<noteq> NUL" using written i Range by auto
    have range: "bracket_range e flags ?loop (fold_char e flags d) (fold_char e flags a) False (CHR 0x5C # b # r) =
        (if set_item_matches e flags d (Range a b) then Matched r else item_next ?loop r)"
      unfolding bracket_range_def Let_def by (simp add: flags x slash neq next_fold item_next_def)
    have "bracket_char e flags ?loop (fold_char e flags d) c p =
        bracket_range e flags ?loop (fold_char e flags d) (fold_char e flags a) False (CHR 0x5C # b # r)"
      unfolding bracket_char_def cp Let_def by (simp add: flags x slash folds)
    then show ?thesis unfolding Range range [symmetric] by (simp add: cp(1))
  next
    case (Class x)
    have p: "c = CHR ''[''" "p = CHR '':'' # class_name x @ CHR '':'' # CHR '']'' # r" using written Class by auto
    have parse: "parse_subbracket p flags = Some (CHR '':'' # CHR '']'' # r)" unfolding p by (rule parse_class [OF flags(1)])
    have cc: "is_cclass e d (class_name x) = Some True \<longleftrightarrow> set_item_matches e flags d (Class x)"
      by (auto simp: is_cclass_def class_name_valid)
    have name: "take (length (tl p) - length (CHR '':'' # CHR '']'' # r)) (tl p) = class_name x" "deref p = CHR '':''" by (simp_all add: p)
    have "bracket_next e flags ?loop r = item_next ?loop r"
      unfolding bracket_next_def item_next_def Let_def by (simp add: slash neq next_fold)
    then show ?thesis unfolding bracket_loop.simps Let_def name(2) p(1) Class using cc
      by (simp add: parse name(1) [simplified] udequote_class del: set_item_matches.simps)
  qed
qed

text \<open>A whole bracket expression.\<close>

lemma items_loop:
  assumes e: "keeps_specials e flags" and flags: "\<not> has_flag flags FNM_PATHNAME" "\<not> has_flag flags FNM_NOESCAPE"
    and "its \<noteq> []" and "list_all item_ok its" and "items_text its @ CHR '']'' # r = c # p" and "length its \<le> k"
  shows "bracket_loop e flags d k c p =
    (case dropWhile (\<lambda>i. \<not> set_item_matches e flags d i) its of
       [] \<Rightarrow> Ended r
     | i # js \<Rightarrow> Matched (items_text js @ CHR '']'' # r))"
  using assms(4-7)
proof (induction its arbitrary: c p k)
  case (Cons i js)
  let ?r = "items_text js @ CHR '']'' # r"
  obtain k' where k: "k = Suc k'" using Cons.prems(4) by (cases k) auto
  have step: "bracket_loop e flags d k c p =
      (if set_item_matches e flags d i then Matched ?r else item_next (bracket_loop e flags d k') ?r)"
    unfolding k using Cons.prems by (intro item_step [OF e flags _ after_item_text]) auto
  show ?case
  proof (cases "js = []")
    case True
    then show ?thesis unfolding step by (simp add: item_next_def)
  next
    case False
    obtain c' p' where r': "?r = c' # p'" by (cases ?r) auto
    have "c' \<noteq> CHR '']''" using r' False by (cases js; cases "hd js") auto
    moreover have "bracket_loop e flags d k' c' p' =
      (case dropWhile (\<lambda>i. \<not> set_item_matches e flags d i) js of [] \<Rightarrow> Ended r | i # js \<Rightarrow> Matched (items_text js @ CHR '']'' # r))"
      using False Cons.prems r' k by (intro Cons.IH) auto
    ultimately show ?thesis unfolding step r' item_next_def by (simp add: r')
  qed
qed simp

lemma items_skip:
  assumes flags: "\<not> has_flag flags FNM_PATHNAME" "\<not> has_flag flags FNM_NOESCAPE"
    and "list_all item_ok its" and "length (items_text its) < k"
  shows "bracket_skip flags k (items_text its @ CHR '']'' # r) = Some r"
  using assms(3,4)
proof (induction its arbitrary: k)
  case Nil
  then show ?case by (cases k) (simp_all add: slash_pathname_def flags)
next
  case (Cons i js)
  have slash: "slash_pathname flags x = False" for x using flags by (simp add: slash_pathname_def)
  show ?case
  proof (cases i)
    case (One x)
    then obtain k' where "k = Suc k'" "length (items_text js) < k'" using Cons.prems(2) by (cases k) auto
    then show ?thesis using Cons.IH Cons.prems(1) One by (simp add: slash flags)
  next
    case (Range a b)
    then obtain k' where "k = Suc (Suc (Suc k'))" "length (items_text js) < k'"
      using Cons.prems(2) by (cases k; cases "k - 1"; cases "k - 2") auto
    then show ?thesis using Cons.IH Cons.prems(1) Range by (simp add: slash flags)
  next
    case (Class x)
    then obtain k' where k': "k = Suc k'" "length (items_text js) < k'" using Cons.prems(2) by (cases k) auto
    have "parse_subbracket (CHR '':'' # class_name x @ CHR '':'' # CHR '']'' # items_text js @ CHR '']'' # r) flags =
        Some (CHR '':'' # CHR '']'' # items_text js @ CHR '']'' # r)" by (rule parse_class [OF flags(1)])
    then show ?thesis using Cons.IH [OF _ k'(2)] Cons.prems(1) Class k'(1) by (simp add: slash)
  qed
qed

lemma list_ex_dropWhile: "list_ex P xs \<longleftrightarrow> dropWhile (\<lambda>x. \<not> P x) xs \<noteq> []"
  by (induction xs) auto

text \<open>\<open>BRACKMATCH\<close> on the text of a bracket expression.\<close>

lemma brackmatch_set:
  assumes e: "keeps_specials e flags" and flags: "\<not> has_flag flags FNM_PATHNAME" "\<not> has_flag flags FNM_NOESCAPE"
    and its: "its \<noteq> []" "list_all item_ok its"
  shows "brackmatch e ((if neg then ''!'' else []) @ items_text its @ CHR '']'' # r) d flags =
    (if neg \<noteq> list_ex (set_item_matches e flags d) its then Some r else None)"
proof -
  define q where "q = items_text its @ CHR '']'' # r"
  define P where "P = (if neg then ''!'' else []) @ q"
  obtain c p where cp: "q = c # p" by (cases q) (auto simp: q_def)
  have c: "c \<noteq> CHR ''!''" "c \<noteq> CHR ''^''" using cp its(1) unfolding q_def by (cases its; cases "hd its"; auto)+
  have not: "(deref P = CHR ''!'' \<or> deref P = CHR ''^'') = neg" using cp c by (simp add: P_def)
  have rest: "(if neg then tl P else P) = c # p" using cp by (simp add: P_def)
  have one: "Suc 0 \<le> length (item_text i)" for i by (cases i) simp_all
  have "length its \<le> length (items_text its)"
  proof (induction its)
    case (Cons i js)
    then show ?case using one [of i] by simp
  qed simp
  then have k: "length its \<le> Suc (length P)" by (simp add: P_def q_def)
  have loop: "bracket_loop e flags d (Suc (length P)) c p =
      (case dropWhile (\<lambda>i. \<not> set_item_matches e flags d i) its of [] \<Rightarrow> Ended r | i # js \<Rightarrow> Matched (items_text js @ CHR '']'' # r))"
    by (rule items_loop [OF e flags its cp [unfolded q_def] k])
  have run: "brackmatch e P d flags =
    (case dropWhile (\<lambda>i. \<not> set_item_matches e flags d i) its of
       [] \<Rightarrow> if neg then Some r else None
     | i # js \<Rightarrow>
         (case bracket_skip flags (Suc (length (items_text js @ CHR '']'' # r))) (items_text js @ CHR '']'' # r) of
            None \<Rightarrow> if fold_char e flags d = CHR ''['' then Some P else None
          | Some r' \<Rightarrow> if neg then None else Some r'))"
    unfolding brackmatch_def Let_def not rest list.sel deref_Cons loop
    by (cases "dropWhile (\<lambda>i. \<not> set_item_matches e flags d i) its") (simp_all only: list.case bracket_end.case)
  show ?thesis
  proof (cases "dropWhile (\<lambda>i. \<not> set_item_matches e flags d i) its")
    case Nil
    show ?thesis using run unfolding P_def q_def list_ex_dropWhile Nil list.case by simp
  next
    case (Cons i js)
    have "set js \<subseteq> set its" using Cons set_dropWhileD by (metis list.set_intros(2) subsetI)
    then have "list_all item_ok js" using its(2) by (auto simp: list_all_iff)
    then have "bracket_skip flags (Suc (length (items_text js @ CHR '']'' # r))) (items_text js @ CHR '']'' # r) = Some r"
      by (intro items_skip flags) simp_all
    then show ?thesis using run unfolding P_def q_def list_ex_dropWhile Cons list.case by (simp del: bracket_skip.simps)
  qed
qed

section \<open>The text of a pattern\<close>

lemma globs_text:
  assumes e: "keeps_specials e flags" and flags: "\<not> has_flag flags FNM_PATHNAME" "\<not> has_flag flags FNM_NOESCAPE"
    and "list_all token_ok ts"
  shows "globs e flags (glob_text ts) s \<longleftrightarrow> glob_matches e flags ts s"
  using assms(4)
proof (induction ts arbitrary: s)
  case Nil
  show ?case by (simp add: globs_Nil)
next
  case (Cons t ts)
  have IH: "globs e flags (glob_text ts) s \<longleftrightarrow> glob_matches e flags ts s" for s using Cons by simp
  show ?case
  proof (cases t)
    case (Lit c)
    then show ?thesis using flags by (cases s) (auto simp: globs_Quoted IH token_matches_def)
  next
    case (Bare c)
    then have c: "token_ok (Bare c)" using Cons.prems by simp
    have "globs e flags (c # glob_text ts) s \<longleftrightarrow>
        (\<exists>d s'. s = d # s' \<and> fold_char e flags c = fold_char e flags d \<and> globs e flags (glob_text ts) s')"
      by (subst globs_Cons) (use c in auto)
    then show ?thesis using Bare by (cases s) (auto simp: IH token_matches_def)
  next
    case Any
    then show ?thesis by (cases s) (auto simp: globs_Any IH token_matches_def)
  next
    case Star
    have "globs e flags (CHR ''*'' # glob_text ts) s \<longleftrightarrow> glob_matches e flags (Star # ts) s" for s
    proof (induction s)
      case Nil
      show ?case by (subst globs_Star) (simp add: IH)
    next
      case (Cons d s)
      show ?case by (subst globs_Star) (simp add: IH Cons)
    qed
    then show ?thesis using Star by simp
  next
    case (Set_Of neg its)
    have ok: "its \<noteq> []" "list_all item_ok its" using Cons.prems Set_Of by auto
    have "glob_text (t # ts) = CHR ''['' # (if neg then ''!'' else []) @ items_text its @ CHR '']'' # glob_text ts"
      using Set_Of by simp
    then show ?thesis
      by (cases s) (auto simp: globs_Set brackmatch_set [OF e flags ok] IH Set_Of token_matches_def)
  qed
qed

lemma steady_text:
  assumes e: "keeps_specials e flags" and flags: "\<not> has_flag flags FNM_PATHNAME" "\<not> has_flag flags FNM_NOESCAPE"
    and "list_all token_ok ts"
  shows "steady_pattern e flags (glob_text ts)"
  using assms(4)
proof (induction ts)
  case Nil
  show ?case by (simp add: steady_end)
next
  case (Cons t ts)
  then have IH: "steady_pattern e flags (glob_text ts)" by simp
  show ?case
  proof (cases t)
    case (Set_Of neg its)
    have ok: "its \<noteq> []" "list_all item_ok its" using Cons.prems Set_Of by auto
    have "glob_text (t # ts) = CHR ''['' # (if neg then ''!'' else []) @ items_text its @ CHR '']'' # glob_text ts"
      using Set_Of by simp
    moreover have "steady_pattern e flags (CHR ''['' # (if neg then ''!'' else []) @ items_text its @ CHR '']'' # glob_text ts)"
      by (rule steady_set) (use IH in \<open>simp add: brackmatch_set [OF e flags ok] split: if_splits\<close>)
    ultimately show ?thesis by simp
  qed (use IH flags Cons.prems in \<open>simp_all add: steady_quoted steady_wild steady_char\<close>)
qed

text \<open>Where a parenthesis follows a wildcard, it was quoted.\<close>

definition no_open :: "cstring \<Rightarrow> bool" where
  "no_open p \<longleftrightarrow> (\<forall>c q. from_here p (c # CHR ''('' # q) \<longrightarrow> c = CHR 0x5C)"

lemma from_here_Cons_iff: "from_here (d # p) q \<longleftrightarrow> q = d # p \<or> from_here p q"
proof
  assume "from_here (d # p) q"
  then obtain k where "q = drop k (d # p)" by (auto simp: from_here_def)
  then show "q = d # p \<or> from_here p q" by (cases k) auto
qed auto

lemma no_open_Cons:
  assumes "no_open p" and "deref p \<noteq> CHR ''(''"
  shows "no_open (d # p)"
  unfolding no_open_def
proof (intro allI impI)
  fix c q assume "from_here (d # p) (c # CHR ''('' # q)"
  then consider "p = CHR ''('' # q" | "from_here p (c # CHR ''('' # q)" by (auto simp: from_here_Cons_iff)
  then show "c = CHR 0x5C" using assms by cases (simp, unfold no_open_def, blast)
qed

lemma no_open_backslash:
  assumes "no_open p"
  shows "no_open (CHR 0x5C # p)"
  unfolding no_open_def
proof (intro allI impI)
  fix c q assume "from_here (CHR 0x5C # p) (c # CHR ''('' # q)"
  then consider "c = CHR 0x5C" | "from_here p (c # CHR ''('' # q)" by (auto simp: from_here_Cons_iff)
  then show "c = CHR 0x5C" using assms by cases (simp, unfold no_open_def, blast)
qed

lemma no_open_quoted: "no_open p \<Longrightarrow> deref p \<noteq> CHR ''('' \<Longrightarrow> no_open (CHR 0x5C # c # p)"
  by (intro no_open_backslash no_open_Cons)

lemma no_open_append:
  assumes "no_open p" and "deref p \<noteq> CHR ''(''" and "CHR ''('' \<notin> set s"
  shows "no_open (s @ p) \<and> deref (s @ p) \<noteq> CHR ''(''"
  using assms(3)
proof (induction s)
  case (Cons d s)
  then have "no_open (s @ p)" "deref (s @ p) \<noteq> CHR ''(''" "d \<noteq> CHR ''(''" by auto
  then show ?case using no_open_Cons by simp
qed (use assms in simp)

lemma item_no_open:
  assumes "no_open p" and "deref p \<noteq> CHR ''(''"
  shows "no_open (item_text i @ p) \<and> deref (item_text i @ p) \<noteq> CHR ''(''"
proof (cases i)
  case (One c)
  then show ?thesis using no_open_quoted assms by simp
next
  case (Range a b)
  have "no_open (CHR ''-'' # CHR 0x5C # b # p)" using no_open_Cons [OF no_open_quoted [OF assms]] by simp
  then show ?thesis using Range no_open_quoted [of "CHR ''-'' # CHR 0x5C # b # p"] by simp
next
  case (Class k)
  have "CHR ''('' \<notin> set (class_name k)" using class_name_plain by blast
  then show ?thesis using no_open_append [OF assms, of "item_text i"] Class by simp
qed

lemma token_no_open:
  assumes "no_open p" and "deref p \<noteq> CHR ''(''" and "token_ok t"
  shows "no_open (glob_token_text t @ p) \<and> deref (glob_token_text t @ p) \<noteq> CHR ''(''"
proof (cases t)
  case (Set_Of neg its)
  have "no_open (items_text its @ CHR '']'' # p) \<and> deref (items_text its @ CHR '']'' # p) \<noteq> CHR ''(''"
    by (induction its) (use no_open_Cons assms item_no_open in auto)
  then show ?thesis using Set_Of no_open_Cons by simp
qed (use no_open_quoted no_open_Cons assms in auto)

lemma plain_text:
  assumes "list_all token_ok ts"
  shows "plain_pattern flags (glob_text ts)"
proof -
  have "no_open (glob_text ts) \<and> deref (glob_text ts) \<noteq> CHR ''(''"
    using assms
  proof (induction ts)
    case (Cons t ts)
    then show ?case using token_no_open [of "glob_text ts" t] by simp
  qed (simp add: no_open_def from_here_def)
  then show ?thesis by (auto simp: plain_pattern_def no_open_def)
qed

lemma no_NUL_text: "list_all token_ok ts \<Longrightarrow> NUL \<notin> set (glob_text ts)"
proof -
  have item: "item_ok i \<Longrightarrow> NUL \<notin> set (item_text i)" for i
    using class_name_plain by (cases i) auto
  have "token_ok t \<Longrightarrow> NUL \<notin> set (glob_token_text t)" for t
    using item by (cases t) (auto simp: list_all_iff)
  then show "list_all token_ok ts \<Longrightarrow> NUL \<notin> set (glob_text ts)" by (auto simp: list_all_iff)
qed

text \<open>\<open>internal_strmatch\<close> on the text of a tree.\<close>

lemma strmatch_text:
  assumes "name_flags flags" and "\<not> has_flag flags FNM_NOESCAPE" and "keeps_specials e flags"
    and "list_all token_ok ts" and "NUL \<notin> set s"
  shows "internal_strmatch e (glob_text ts) s flags =
     Some (glob_matches e flags ts s \<and>
       \<not> (explicit_dot flags s \<and> (case ts of [] \<Rightarrow> False | Lit c # _ \<Rightarrow> False | Bare c # _ \<Rightarrow> False | _ \<Rightarrow> True)))"
proof -
  have path: "\<not> has_flag flags FNM_PATHNAME" using assms(1) by (simp add: name_flags_def)
  have "deref (glob_text ts) \<in> {CHR ''?'', CHR ''*'', CHR ''[''} \<longleftrightarrow> (case ts of [] \<Rightarrow> False | Lit c # _ \<Rightarrow> False | Bare c # _ \<Rightarrow> False | _ \<Rightarrow> True)"
  proof (cases ts)
    case (Cons t us)
    then show ?thesis using assms(4) by (cases t) simp_all
  qed (simp add: NUL_def)
  then show ?thesis
    using strmatch_decides [OF assms(1,3) plain_text [OF assms(4)] steady_text [OF assms(3) path assms(2,4)] no_NUL_text [OF assms(4)] assms(5)]
    unfolding name_matches_def globs_text [OF assms(3) path assms(2,4)] by (simp del: globs_text)
qed

section \<open>Sequences of tokens\<close>

lemma glob_matches_token:
  "t \<noteq> Star \<Longrightarrow> glob_matches e flags (t # ts) s \<longleftrightarrow> (\<exists>d s'. s = d # s' \<and> token_matches e flags t d \<and> glob_matches e flags ts s')"
  by (cases t; cases s) auto

lemma glob_matches_append:
  "glob_matches e flags (ts @ us) s \<longleftrightarrow> (\<exists>a b. s = a @ b \<and> glob_matches e flags ts a \<and> glob_matches e flags us b)"
proof (induction ts arbitrary: s)
  case (Cons t ts)
  note append = Cons.IH
  show ?case
  proof (cases "t = Star")
    case True
    have "glob_matches e flags (Star # ts @ us) s \<longleftrightarrow> (\<exists>a b. s = a @ b \<and> glob_matches e flags (Star # ts) a \<and> glob_matches e flags us b)"
    proof (induction s)
      case (Cons d s)
      show ?case
      proof
        assume "glob_matches e flags (Star # ts @ us) (d # s)"
        then consider "glob_matches e flags (ts @ us) (d # s)" | "glob_matches e flags (Star # ts @ us) s" by auto
        then show "\<exists>a b. d # s = a @ b \<and> glob_matches e flags (Star # ts) a \<and> glob_matches e flags us b"
        proof cases
          case 1
          then show ?thesis using append by (metis glob_matches.simps(2))
        next
          case 2
          then obtain a b where "s = a @ b" "glob_matches e flags (Star # ts) a" "glob_matches e flags us b" using Cons.IH by blast
          then have "d # s = (d # a) @ b" "glob_matches e flags (Star # ts) (d # a)" "glob_matches e flags us b" by simp_all
          then show ?thesis by blast
        qed
      next
        assume "\<exists>a b. d # s = a @ b \<and> glob_matches e flags (Star # ts) a \<and> glob_matches e flags us b"
        then obtain a b where ab: "d # s = a @ b" "glob_matches e flags (Star # ts) a" "glob_matches e flags us b" by blast
        show "glob_matches e flags (Star # ts @ us) (d # s)"
        proof (cases "glob_matches e flags ts a")
          case True
          then have "glob_matches e flags (ts @ us) (d # s)" unfolding append using ab by blast
          then show ?thesis by simp
        next
          case False
          then obtain a' where "a = d # a'" "glob_matches e flags (Star # ts) a'" using ab by (cases a) auto
          then show ?thesis using ab Cons.IH by auto
        qed
      qed
    qed (simp add: append)
    then show ?thesis using True by simp
  next
    case False
    have "(\<exists>d s'. s = d # s' \<and> token_matches e flags t d \<and> (\<exists>a b. s' = a @ b \<and> glob_matches e flags ts a \<and> glob_matches e flags us b)) \<longleftrightarrow>
        (\<exists>a b. s = a @ b \<and> (\<exists>d s'. a = d # s' \<and> token_matches e flags t d \<and> glob_matches e flags ts s') \<and> glob_matches e flags us b)"
      by (metis append_Cons)
    then show ?thesis using False by (simp add: glob_matches_token append)
  qed
qed simp

lemma glob_matches_appendI:
  "glob_matches e flags ts a \<Longrightarrow> glob_matches e flags us b \<Longrightarrow> glob_matches e flags (ts @ us) (a @ b)"
  unfolding glob_matches_append by blast

lemma star_matches [simp]: "glob_matches e flags [Star] s"
  by (induction s) auto

lemma glob_matches_length: "glob_matches e flags ts s \<Longrightarrow> Star \<notin> set ts \<Longrightarrow> length s = length ts"
proof (induction ts arbitrary: s)
  case (Cons t ts)
  then show ?case by (cases t; cases s) auto
qed simp

lemma glob_matches_empty: "glob_matches e flags ts [] \<longleftrightarrow> set ts \<subseteq> {Star}"
proof (induction ts)
  case (Cons t ts)
  then show ?case by (cases t) auto
qed simp

end
