(* ===== verification/Pat_Correct.thy ===== *)
theory Pat_Correct
  imports Pat_Replace Glob_Patterns
begin

text \<open>
  Parameter expansion with patterns against what it is meant to do: the longest or shortest part is removed;
  the part that is replaced is the leftmost and longest one, whatever tests spare calls of the matcher.
\<close>

section \<open>Calls of the matcher\<close>

definition search_flags :: "match_options \<Rightarrow> 32 word" where
  "search_flags o' = FNMATCH_EXTFLAG o' OR FNMATCH_IGNCASE o'"

lemma search_flags [simp]:
  "name_flags (search_flags o')" "\<not> has_flag (search_flags o') FNM_NOESCAPE" "\<not> has_flag (search_flags o') FNM_PATHNAME"
  "has_flag (search_flags o') FNM_CASEFOLD = has_flag (FNMATCH_IGNCASE o') FNM_CASEFOLD" "\<not> explicit_dot (search_flags o') s"
  "name_flags (FNMATCH_EXTFLAG o')" "\<not> has_flag (FNMATCH_EXTFLAG o') FNM_NOESCAPE" "\<not> explicit_dot (FNMATCH_EXTFLAG o') s"
  "\<not> has_flag (FNMATCH_EXTFLAG o') FNM_CASEFOLD"
  by (auto simp: search_flags_def FNMATCH_EXTFLAG_def FNMATCH_IGNCASE_def name_flags_def explicit_dot_def has_flag_def
      FNM_PATHNAME_def FNM_LEADING_DIR_def FNM_NOESCAPE_def FNM_PERIOD_def FNM_DOTDOT_def FNM_CASEFOLD_def FNM_EXTMATCH_def)

lemma removal_match:
  "list_all token_ok ts \<Longrightarrow> NUL \<notin> set s \<Longrightarrow>
     internal_strmatch e (glob_text ts) s (FNMATCH_EXTFLAG o') = Some (glob_matches e (FNMATCH_EXTFLAG o') ts s)"
  by (subst strmatch_text) (simp_all add: exact_case_keeps)

lemma search_match:
  "keeps_specials e (search_flags o') \<Longrightarrow> list_all token_ok ts \<Longrightarrow> NUL \<notin> set s \<Longrightarrow>
     internal_strmatch e (glob_text ts) s (search_flags o') = Some (glob_matches e (search_flags o') ts s)"
  by (subst strmatch_text) simp_all

text \<open>A search with a test that always answers.\<close>

lemma first_such_find: "\<forall>x \<in> set xs. f x = Some (P x) \<Longrightarrow> first_such f xs = Some (List.find P xs)"
  by (induction xs) auto

lemma find_upwards:
  assumes "List.find P [0..<n] = r"
  shows "(case r of None \<Rightarrow> \<forall>p<n. \<not> P p | Some p \<Rightarrow> p < n \<and> P p \<and> (\<forall>q<n. P q \<longrightarrow> p \<le> q))"
proof (cases r)
  case None
  then show ?thesis using assms by (auto simp: find_None_iff)
next
  case (Some p)
  then obtain i where "i < n" "P ([0..<n] ! i)" "p = [0..<n] ! i" "\<forall>j<i. \<not> P ([0..<n] ! j)"
    using assms by (auto simp: find_Some_iff)
  then show ?thesis using Some leI by auto
qed

lemma find_downwards:
  assumes "List.find P (rev [0..<n]) = r"
  shows "(case r of None \<Rightarrow> \<forall>p<n. \<not> P p | Some p \<Rightarrow> p < n \<and> P p \<and> (\<forall>q<n. P q \<longrightarrow> q \<le> p))"
  using assms
proof (induction n)
  case (Suc n)
  then show ?case by (cases "P n") (auto simp: less_Suc_eq split: option.splits)
qed auto

section \<open>Removal\<close>

definition longest :: "patspec \<Rightarrow> bool" where
  "longest op \<longleftrightarrow> op = RP_LONG_LEFT \<or> op = RP_LONG_RIGHT"

text \<open>The ways to take a part \<open>m\<close> off the end in question; \<open>r\<close> is left.\<close>

definition parts :: "patspec \<Rightarrow> cstring \<Rightarrow> cstring \<Rightarrow> cstring \<Rightarrow> bool" where
  "parts op s m r \<longleftrightarrow> (if op = RP_LONG_LEFT \<or> op = RP_SHORT_LEFT then s = m @ r else s = r @ m)"

definition removal :: "patspec \<Rightarrow> (cstring \<Rightarrow> bool) \<Rightarrow> cstring \<Rightarrow> cstring \<Rightarrow> bool" where
  "removal op matches s r \<longleftrightarrow>
     (if \<exists>m r'. parts op s m r' \<and> matches m then
        (\<exists>m. parts op s m r \<and> matches m \<and>
           (\<forall>m' r'. parts op s m' r' \<and> matches m' \<longrightarrow> (if longest op then length m' \<le> length m else length m \<le> length m')))
      else r = s)"

lemma removal_none: "\<not> (\<exists>m r'. parts op s m r' \<and> matches m) \<Longrightarrow> removal op matches s s"
  unfolding removal_def by (simp only: if_False)

lemma removal_some:
  assumes "parts op s m r" and "matches m"
    and "\<And>m' r'. parts op s m' r' \<Longrightarrow> matches m' \<Longrightarrow> if longest op then length m' \<le> length m else length m \<le> length m'"
  shows "removal op matches s r"
proof -
  have "\<exists>m r'. parts op s m r' \<and> matches m" using assms(1,2) by blast
  moreover have "\<forall>m' r'. parts op s m' r' \<and> matches m' \<longrightarrow> (if longest op then length m' \<le> length m else length m \<le> length m')"
    using assms(3) by blast
  ultimately show ?thesis unfolding removal_def using assms(1,2) by (simp only: if_True) blast
qed

text \<open>The loops over positions.\<close>

lemma remove_upattern_answers:
  assumes "\<And>m. set m \<subseteq> set s \<Longrightarrow> internal_strmatch e pat m (FNMATCH_EXTFLAG o') = Some (Q m)"
  shows "\<exists>r. remove_upattern e o' s pat op = Some r \<and> removal op Q s r"
proof -
  define pick where "pick = (\<lambda>p. Q (if op = RP_LONG_LEFT \<or> op = RP_SHORT_LEFT then take p s else drop p s))"
  define order where "order = (if op = RP_LONG_LEFT \<or> op = RP_SHORT_RIGHT then rev [0..<Suc (length s)] else [0..<Suc (length s)])"
  have run: "remove_upattern e o' s pat op =
      Some (case List.find pick order of None \<Rightarrow> s
            | Some p \<Rightarrow> if op = RP_LONG_LEFT \<or> op = RP_SHORT_LEFT then drop p s else take p s)"
  proof -
    have answer: "internal_strmatch e pat (take p s) (FNMATCH_EXTFLAG o') = Some (Q (take p s))"
      "internal_strmatch e pat (drop p s) (FNMATCH_EXTFLAG o') = Some (Q (drop p s))" for p
      using assms by (auto dest: in_set_takeD in_set_dropD)
    have "(case op of
        RP_LONG_LEFT \<Rightarrow> first_such (\<lambda>p. Some (Q (take p s))) (rev [0..<Suc (length s)])
      | RP_SHORT_LEFT \<Rightarrow> first_such (\<lambda>p. Some (Q (take p s))) [0..<Suc (length s)]
      | RP_LONG_RIGHT \<Rightarrow> first_such (\<lambda>p. Some (Q (drop p s))) [0..<Suc (length s)]
      | RP_SHORT_RIGHT \<Rightarrow> first_such (\<lambda>p. Some (Q (drop p s))) (rev [0..<Suc (length s)])) = Some (List.find pick order)"
      by (cases op) (simp_all add: pick_def order_def first_such_find [where P = pick] del: upt_Suc)
    then show ?thesis by (simp add: remove_upattern_def Let_def answer del: upt_Suc)
  qed
  have at: "\<exists>p \<le> length s. pick p \<and> length m = (if op = RP_LONG_LEFT \<or> op = RP_SHORT_LEFT then p else length s - p)"
    if "parts op s m r" "Q m" for m r
  proof (cases "op = RP_LONG_LEFT \<or> op = RP_SHORT_LEFT")
    case True
    then show ?thesis using that by (intro exI [of _ "length m"]) (auto simp: parts_def pick_def)
  next
    case False
    then show ?thesis using that by (intro exI [of _ "length r"]) (auto simp: parts_def pick_def)
  qed
  have dir: "(List.find pick order = None \<longrightarrow> (\<forall>p \<le> length s. \<not> pick p)) \<and>
      (\<forall>p. List.find pick order = Some p \<longrightarrow> p \<le> length s \<and> pick p \<and>
        (\<forall>q \<le> length s. pick q \<longrightarrow> (if op = RP_LONG_LEFT \<or> op = RP_SHORT_RIGHT then q \<le> p else p \<le> q)))"
  proof (cases "op = RP_LONG_LEFT \<or> op = RP_SHORT_RIGHT")
    case True
    then have "List.find pick (rev [0..<Suc (length s)]) = List.find pick order" by (simp only: order_def if_True)
    then show ?thesis using find_downwards True unfolding less_Suc_eq_le [symmetric]
      by (cases "List.find pick order") (fastforce simp del: upt_Suc)+
  next
    case False
    then have "List.find pick [0..<Suc (length s)] = List.find pick order" by (simp only: order_def if_False)
    then show ?thesis using find_upwards False unfolding less_Suc_eq_le [symmetric]
      by (cases "List.find pick order") (fastforce simp del: upt_Suc)+
  qed
  show ?thesis
  proof (cases "List.find pick order")
    case None
    then have "\<not> (\<exists>m r'. parts op s m r' \<and> Q m)" using dir at by blast
    then show ?thesis using run None by (simp add: removal_none)
  next
    case (Some p)
    define m where "m = (if op = RP_LONG_LEFT \<or> op = RP_SHORT_LEFT then take p s else drop p s)"
    define r where "r = (if op = RP_LONG_LEFT \<or> op = RP_SHORT_LEFT then drop p s else take p s)"
    have p: "p \<le> length s" "pick p"
      "\<And>q. q \<le> length s \<Longrightarrow> pick q \<Longrightarrow> if op = RP_LONG_LEFT \<or> op = RP_SHORT_RIGHT then q \<le> p else p \<le> q"
      using dir Some by blast+
    have "removal op Q s r"
    proof (rule removal_some)
      show "parts op s m r" "Q m" using p(2) by (auto simp: parts_def m_def r_def pick_def)
      fix m' r' assume "parts op s m' r'" "Q m'"
      then obtain q where q: "q \<le> length s" "pick q" "length m' = (if op = RP_LONG_LEFT \<or> op = RP_SHORT_LEFT then q else length s - q)"
        using at by blast
      have "length m = (if op = RP_LONG_LEFT \<or> op = RP_SHORT_LEFT then p else length s - p)" using p(1) by (simp add: m_def)
      then show "if longest op then length m' \<le> length m else length m \<le> length m'"
        using p(3) [OF q(1,2)] q(3) by (cases op) (simp_all add: longest_def diff_le_mono2)
    qed
    then show ?thesis using run Some by (simp add: r_def)
  qed
qed

end
