(* ===== verification/Pat_Search.thy ===== *)
theory Pat_Search
  imports Pat_Correct
begin

text \<open>
  \<open>match_upattern\<close> on the text of a pattern tree: the part of the string that it finds is the leftmost one and
  among those the longest. The three tests that spare calls of the matcher (the widened pattern, the first
  character, the fixed length) are sound, but for a pattern that starts with a star and ends with a literal
  star.
\<close>

section \<open>What is looked for\<close>

definition occurs :: "(cstring \<Rightarrow> bool) \<Rightarrow> cstring \<Rightarrow> nat \<Rightarrow> nat \<Rightarrow> bool" where
  "occurs Q s i j \<longleftrightarrow> i \<le> j \<and> j \<le> length s \<and> Q (take (j - i) (drop i s))"

definition anchored :: "32 word \<Rightarrow> cstring \<Rightarrow> nat \<Rightarrow> nat \<Rightarrow> bool" where
  "anchored mtype s i j \<longleftrightarrow> (mtype = MATCH_BEG \<longrightarrow> i = 0) \<and> (mtype = MATCH_END \<longrightarrow> j = length s)"

text \<open>The part that is found: none at all, or one that starts first and, of those, ends last.\<close>

definition finds :: "32 word \<Rightarrow> (cstring \<Rightarrow> bool) \<Rightarrow> cstring \<Rightarrow> (nat \<times> nat) option \<Rightarrow> bool" where
  "finds mtype Q s r =
     (case r of
        None \<Rightarrow> \<forall>i j. \<not> (occurs Q s i j \<and> anchored mtype s i j)
      | Some (i, j) \<Rightarrow> occurs Q s i j \<and> anchored mtype s i j \<and>
          (\<forall>i' j'. occurs Q s i' j' \<and> anchored mtype s i' j' \<longrightarrow> i < i' \<or> i' = i \<and> j' \<le> j))"

section \<open>The search, given sound tests\<close>

definition sound_tests :: "(nat \<Rightarrow> bool) \<Rightarrow> (nat \<Rightarrow> nat \<Rightarrow> bool option) \<Rightarrow> int \<Rightarrow> (cstring \<Rightarrow> bool) \<Rightarrow> cstring \<Rightarrow> bool" where
  "sound_tests possible matches mlen Q s \<longleftrightarrow>
     (\<forall>p q. p \<le> q \<and> q \<le> length s \<longrightarrow> matches p q = Some (Q (take (q - p) (drop p s)))) \<and>
     (\<forall>i j. occurs Q s i j \<longrightarrow> possible i) \<and>
     (mlen = - 1 \<or> mlen \<ge> 0 \<and> (\<forall>i j. occurs Q s i j \<longrightarrow> j = i + nat mlen))"

lemma sound_testsD:
  assumes "sound_tests possible matches mlen Q s"
  shows "p \<le> q \<Longrightarrow> q \<le> length s \<Longrightarrow> matches p q = Some (occurs Q s p q)"
    and "occurs Q s i j \<Longrightarrow> possible i"
    and "occurs Q s i j \<Longrightarrow> mlen \<noteq> - 1 \<Longrightarrow> mlen \<ge> 0 \<and> j = i + nat mlen"
proof -
  show "p \<le> q \<Longrightarrow> q \<le> length s \<Longrightarrow> matches p q = Some (occurs Q s p q)"
    using assms by (simp add: sound_tests_def occurs_def)
  show "occurs Q s i j \<Longrightarrow> possible i" using assms unfolding sound_tests_def by blast
  show "occurs Q s i j \<Longrightarrow> mlen \<noteq> - 1 \<Longrightarrow> mlen \<ge> 0 \<and> j = i + nat mlen" using assms unfolding sound_tests_def by blast
qed

lemma occursD: "occurs Q s i j \<Longrightarrow> i \<le> j \<and> j \<le> length s"
  by (simp add: occurs_def)

lemma find_last:
  assumes "\<And>j. P j \<Longrightarrow> p \<le> j \<and> j \<le> n"
  shows "case List.find P (rev [p..<Suc n]) of None \<Rightarrow> \<forall>j. \<not> P j | Some q \<Rightarrow> P q \<and> (\<forall>j. P j \<longrightarrow> j \<le> q)"
  using assms
proof (induction n)
  case 0
  then show ?case by (cases "P 0") auto
next
  case (Suc n)
  show ?case
  proof (cases "P (Suc n)")
    case True
    then show ?thesis using Suc.prems by auto
  next
    case False
    then have "P j \<Longrightarrow> p \<le> j \<and> j \<le> n" for j using Suc.prems le_Suc_eq by metis
    then show ?thesis using Suc.IH False by (cases "p \<le> Suc n") auto
  qed
qed

lemma ends_search:
  assumes t: "sound_tests possible matches mlen Q s" and p: "p \<le> length s" and fits: "mlen = - 1 \<or> p + nat mlen \<le> length s"
  shows "\<exists>r. first_such (matches p) (match_ends mlen (length s) p) = Some r \<and>
    (case r of None \<Rightarrow> \<forall>j. \<not> occurs Q s p j | Some q \<Rightarrow> occurs Q s p q \<and> (\<forall>j. occurs Q s p j \<longrightarrow> j \<le> q))"
proof (cases "mlen = - 1")
  case False
  then have "p + nat mlen \<le> length s" using fits by simp
  then have "matches p (p + nat mlen) = Some (occurs Q s p (p + nat mlen))" using sound_testsD(1) [OF t, of p "p + nat mlen"] by simp
  then have "first_such (matches p) (match_ends mlen (length s) p) =
      Some (if occurs Q s p (p + nat mlen) then Some (p + nat mlen) else None)" using False by (simp add: match_ends_def)
  moreover have "\<forall>j. occurs Q s p j \<longrightarrow> j \<le> p + nat mlen \<and> occurs Q s p (p + nat mlen)"
    using sound_testsD(3) [OF t] False by blast
  ultimately show ?thesis by auto
next
  case True
  have "first_such (matches p) (rev [p..<Suc (length s)]) = Some (List.find (occurs Q s p) (rev [p..<Suc (length s)]))"
  proof (rule first_such_find, rule ballI)
    fix q assume "q \<in> set (rev [p..<Suc (length s)])"
    then have "p \<le> q" "q \<le> length s" by (simp_all add: less_Suc_eq_le del: upt_Suc)
    then show "matches p q = Some (occurs Q s p q)" by (rule sound_testsD(1) [OF t])
  qed
  moreover have "case List.find (occurs Q s p) (rev [p..<Suc (length s)]) of None \<Rightarrow> \<forall>j. \<not> occurs Q s p j
      | Some q \<Rightarrow> occurs Q s p q \<and> (\<forall>j. occurs Q s p j \<longrightarrow> j \<le> q)"
    by (rule find_last) (rule occursD)
  ultimately show ?thesis unfolding match_ends_def if_P [OF True] by (intro exI conjI)
qed

lemma match_any_search:
  assumes t: "sound_tests possible matches mlen Q s" and "k \<le> Suc (length s)"
  shows "\<exists>r. match_any possible matches mlen (length s) [k..<Suc (length s)] = Some r \<and>
    (case r of None \<Rightarrow> \<forall>i j. k \<le> i \<longrightarrow> \<not> occurs Q s i j
     | Some (i, j) \<Rightarrow> k \<le> i \<and> occurs Q s i j \<and> (\<forall>i' j'. k \<le> i' \<and> occurs Q s i' j' \<longrightarrow> i < i' \<or> i' = i \<and> j' \<le> j))"
  using assms(2)
proof (induction "Suc (length s) - k" arbitrary: k)
  case 0
  then have "k = Suc (length s)" by simp
  then show ?case by (auto simp: occurs_def)
next
  case (Suc n)
  let ?run = "\<lambda>k. match_any possible matches mlen (length s) [k..<Suc (length s)]"
  have k: "k \<le> length s" using Suc.hyps(2) by simp
  then have list: "[k..<Suc (length s)] = k # [Suc k..<Suc (length s)]" by (simp add: upt_conv_Cons del: upt_Suc)
  have next_k: "n = Suc (length s) - Suc k" "Suc k \<le> Suc (length s)" using Suc.hyps(2) k by auto
  obtain r where r: "?run (Suc k) = Some r" and
    spec: "case r of None \<Rightarrow> \<forall>i j. Suc k \<le> i \<longrightarrow> \<not> occurs Q s i j
     | Some (i, j) \<Rightarrow> Suc k \<le> i \<and> occurs Q s i j \<and> (\<forall>i' j'. Suc k \<le> i' \<and> occurs Q s i' j' \<longrightarrow> i < i' \<or> i' = i \<and> j' \<le> j)"
    using Suc.hyps(1) [OF next_k] by blast
  have skip: ?case if "?run k = ?run (Suc k)" "\<forall>j. \<not> occurs Q s k j"
  proof -
    have split: "k \<le> i \<longleftrightarrow> k = i \<or> Suc k \<le> i" for i by auto
    show ?thesis using r spec that by (cases r) (auto simp: split)
  qed
  show ?case
  proof (cases "possible k")
    case False
    then have "\<forall>j. \<not> occurs Q s k j" using sound_testsD(2) [OF t] by blast
    then show ?thesis using False by (intro skip) (simp_all add: list del: upt_Suc)
  next
    case possible: True
    show ?thesis
    proof (cases "mlen \<noteq> - 1 \<and> k + nat mlen > length s")
      case True
      then have "\<not> occurs Q s i j" if "k \<le> i" for i j using sound_testsD(3) [OF t, of i j] occursD [of Q s i j] that by auto
      then show ?thesis using possible True by (auto simp: list simp del: upt_Suc)
    next
      case False
      then obtain q where q: "first_such (matches k) (match_ends mlen (length s) k) = Some q"
        "case q of None \<Rightarrow> \<forall>j. \<not> occurs Q s k j | Some q \<Rightarrow> occurs Q s k q \<and> (\<forall>j. occurs Q s k j \<longrightarrow> j \<le> q)"
        using ends_search [OF t k] by auto
      have run: "?run k = (case q of None \<Rightarrow> ?run (Suc k) | Some q \<Rightarrow> Some (Some (k, q)))"
        using possible False q(1) by (cases q) (auto simp: list simp del: upt_Suc)
      show ?thesis
      proof (cases q)
        case None
        then show ?thesis using run q(2) by (intro skip) simp_all
      next
        case (Some j)
        then show ?thesis using run q(2) le_neq_implies_less by (auto simp del: upt_Suc)
      qed
    qed
  qed
qed

lemma match_kind_finds:
  assumes t: "sound_tests possible matches mlen Q s" and "mtype = MATCH_ANY \<or> mtype = MATCH_BEG \<or> mtype = MATCH_END"
  shows "\<exists>r. match_kind possible matches mlen (length s) mtype = Some r \<and> finds mtype Q s r"
proof (cases "mlen > int (length s)")
  case True
  then have "\<not> occurs Q s i j" for i j using sound_testsD(3) [OF t, of i j] occursD [of Q s i j] by auto
  then show ?thesis using True by (auto simp: match_kind_def finds_def)
next
  case short: False
  have types: "MATCH_ANY \<noteq> MATCH_BEG" "MATCH_ANY \<noteq> MATCH_END" "MATCH_BEG \<noteq> MATCH_END"
    by (simp_all add: MATCH_ANY_def MATCH_BEG_def MATCH_END_def)
  from assms(2) show ?thesis
  proof (elim disjE)
    assume any: "mtype = MATCH_ANY"
    obtain r where "match_any possible matches mlen (length s) [0..<Suc (length s)] = Some r"
      "case r of None \<Rightarrow> \<forall>i j. 0 \<le> i \<longrightarrow> \<not> occurs Q s i j
       | Some (i, j) \<Rightarrow> 0 \<le> i \<and> occurs Q s i j \<and> (\<forall>i' j'. 0 \<le> i' \<and> occurs Q s i' j' \<longrightarrow> i < i' \<or> i' = i \<and> j' \<le> j)"
      using match_any_search [OF t] by blast
    then show ?thesis using any short types by (auto simp: match_kind_def finds_def anchored_def split: option.splits simp del: upt_Suc)
  next
    assume beg: "mtype = MATCH_BEG"
    show ?thesis
    proof (cases "possible 0")
      case True
      obtain q where "first_such (matches 0) (match_ends mlen (length s) 0) = Some q"
        "case q of None \<Rightarrow> \<forall>j. \<not> occurs Q s 0 j | Some q \<Rightarrow> occurs Q s 0 q \<and> (\<forall>j. occurs Q s 0 j \<longrightarrow> j \<le> q)"
        using ends_search [OF t, of 0] short by (cases "mlen = - 1") fastforce+
      then show ?thesis using beg short types True by (cases q) (auto simp: match_kind_def finds_def anchored_def intro!: gr0I)
    next
      case False
      then have "\<not> occurs Q s 0 j" for j using sound_testsD(2) [OF t] by blast
      then show ?thesis using beg short types False by (auto simp: match_kind_def finds_def anchored_def intro!: gr0I)
    qed
  next
    assume ending: "mtype = MATCH_END"
    define starts where "starts = (if mlen = - 1 then [0..<Suc (length s)] else [length s - nat mlen])"
    define q where "q = List.find (\<lambda>p. occurs Q s p (length s)) starts"
    have "first_such (\<lambda>p. matches p (length s)) starts = Some q"
      unfolding q_def using sound_testsD(1) [OF t]
      by (intro first_such_find) (auto simp: starts_def less_Suc_eq_le split: if_splits simp del: upt_Suc)
    then have run: "match_kind possible matches mlen (length s) mtype = Some (map_option (\<lambda>p. (p, length s)) q)"
      using ending short types unfolding match_kind_def starts_def [symmetric] by simp
    have "case q of None \<Rightarrow> \<forall>i. \<not> occurs Q s i (length s) | Some p \<Rightarrow> occurs Q s p (length s) \<and> (\<forall>i. occurs Q s i (length s) \<longrightarrow> p \<le> i)"
    proof (cases "mlen = - 1")
      case True
      then have "List.find (\<lambda>p. occurs Q s p (length s)) [0..<Suc (length s)] = q" by (simp add: q_def starts_def)
      from find_upwards [OF this] show ?thesis by (cases q) (auto simp: less_Suc_eq_le dest: occursD)
    next
      case False
      then have "\<forall>i. occurs Q s i (length s) \<longrightarrow> length s - nat mlen \<le> i \<and> occurs Q s (length s - nat mlen) (length s)"
        using sound_testsD(3) [OF t] diff_add_inverse2 order_refl by metis
      then show ?thesis using False by (auto simp: q_def starts_def)
    qed
    then show ?thesis using run ending types by (cases q) (auto simp: finds_def anchored_def dest: le_neq_implies_less)
  qed
qed

end
