(* ===== verification/Pat_Tests.thy ===== *)
theory Pat_Tests
  imports Pat_Search
begin

text \<open>
  The tests of \<open>match_upattern\<close> on the text of a pattern tree: the length that \<open>umatchlen\<close> computes is exact, the
  first character that \<open>match_pattern_char\<close> refuses starts no match, and the widened pattern matches every
  string that has a match in it.
\<close>

section \<open>The length of a match\<close>

definition clean :: "len_scan \<Rightarrow> bool" where
  "clean s \<longleftrightarrow> \<not> in_cclass s \<and> \<not> in_collsym s \<and> \<not> in_equiv s"

lemma class_scan:
  assumes "in_cclass s" and "\<not> in_collsym s" and "\<not> in_equiv s" and "\<forall>c \<in> set (d # name). c \<noteq> CHR '':'' \<and> c \<noteq> CHR '']'' \<and> c \<noteq> CHR 0x5C \<and> c \<noteq> CHR ''['' \<and> c \<noteq> NUL"
    and "after_item r"
  shows "\<exists>t. clean t \<and> bracket_len_loop s d (name @ CHR '':'' # CHR '']'' # r) =
    (if deref r = CHR '']'' then (t, Some (tl r)) else bracket_len_loop t (deref r) (tl r))"
  using assms(1-4)
proof (induction name arbitrary: s d)
  case Nil
  obtain c q where r: "r = c # q" using assms(5) by (cases r) (auto simp: after_item_def NUL_def)
  have "bracket_len_loop s d (CHR '':'' # CHR '']'' # r) = bracket_len_loop (s\<lparr>bracklen := bracklen s + 1\<rparr>) (CHR '':'') (CHR '']'' # r)"
    using Nil by (subst bracket_len_loop.simps) (simp add: bracket_len_step_def Let_def)
  also have "\<dots> = (if c = CHR '']'' then (s\<lparr>bracklen := bracklen s + 1 + 1, in_cclass := False\<rparr>, Some q)
      else bracket_len_loop (s\<lparr>bracklen := bracklen s + 1 + 1, in_cclass := False\<rparr>) c q)"
    using Nil r by (subst bracket_len_loop.simps) (simp add: bracket_len_step_def Let_def NUL_def)
  finally show ?case using Nil r by (intro exI [of _ "s\<lparr>bracklen := bracklen s + 1 + 1, in_cclass := False\<rparr>"]) (simp add: clean_def)
next
  case (Cons x name)
  have "bracket_len_loop s d ((x # name) @ CHR '':'' # CHR '']'' # r) =
      bracket_len_loop (s\<lparr>bracklen := bracklen s + 1\<rparr>) x (name @ CHR '':'' # CHR '']'' # r)"
    using Cons.prems by (subst bracket_len_loop.simps) (simp add: bracket_len_step_def Let_def)
  then show ?case using Cons.IH [of "s\<lparr>bracklen := bracklen s + 1\<rparr>" x] Cons.prems by simp
qed

lemma class_name_Cons:
  "\<exists>d name. class_name k = d # name \<and> (\<forall>c \<in> set (d # name). c \<noteq> CHR '':'' \<and> c \<noteq> CHR '']'' \<and> c \<noteq> CHR 0x5C \<and> c \<noteq> CHR ''['' \<and> c \<noteq> NUL)"
  by (cases k) (simp_all add: class_name_def NUL_def)

lemma item_scan:
  assumes "clean s" and i: "item_ok i" and r: "after_item r" and written: "item_text i @ r = c # p"
  shows "\<exists>t. clean t \<and> bracket_len_loop s c p = (if deref r = CHR '']'' then (t, Some (tl r)) else bracket_len_loop t (deref r) (tl r))"
proof -
  obtain x q where xq: "r = x # q" "x \<noteq> NUL" using r by (cases r) (auto simp: after_item_def NUL_def)
  have quoted: "bracket_len_loop s (CHR 0x5C) (a # r') =
      (if deref r' = CHR '']'' then (s\<lparr>bracklen := bracklen s + 1\<rparr>, Some (tl r')) else bracket_len_loop (s\<lparr>bracklen := bracklen s + 1\<rparr>) (deref r') (tl r'))"
    if "a \<noteq> NUL" "r' = x' # q'" "x' \<noteq> NUL" for s a r' x' q'
    using that by (subst bracket_len_loop.simps) (simp add: bracket_len_step_def Let_def NUL_def)
  show ?thesis
  proof (cases i)
    case (One a)
    then have "c = CHR 0x5C" "p = a # r" "a \<noteq> NUL" using written i by auto
    then show ?thesis using quoted [of a r x q s] xq \<open>clean s\<close> by (intro exI [of _ "s\<lparr>bracklen := bracklen s + 1\<rparr>"]) (simp add: clean_def)
  next
    case (Range a b)
    then have cp: "c = CHR 0x5C" "p = a # CHR ''-'' # CHR 0x5C # b # r" "a \<noteq> NUL" "b \<noteq> NUL" using written i by auto
    let ?s = "s\<lparr>bracklen := bracklen s + 1 + 1\<rparr>"
    have "bracket_len_loop s c p = bracket_len_loop (s\<lparr>bracklen := bracklen s + 1\<rparr>) (CHR ''-'') (CHR 0x5C # b # r)"
      using quoted [of a "CHR ''-'' # CHR 0x5C # b # r" "CHR ''-''" "CHR 0x5C # b # r" s] cp by (simp add: NUL_def)
    also have "\<dots> = bracket_len_loop ?s (CHR 0x5C) (b # r)"
      by (subst bracket_len_loop.simps) (simp add: bracket_len_step_def Let_def NUL_def del: add_2_eq_Suc add_2_eq_Suc')
    finally show ?thesis using quoted [of b r x q ?s] xq cp(4) \<open>clean s\<close>
      by (intro exI [of _ "?s\<lparr>bracklen := bracklen ?s + 1\<rparr>"]) (simp add: clean_def)
  next
    case (Class k)
    obtain d name where name: "class_name k = d # name" "\<forall>c \<in> set (d # name). c \<noteq> CHR '':'' \<and> c \<noteq> CHR '']'' \<and> c \<noteq> CHR 0x5C \<and> c \<noteq> CHR ''['' \<and> c \<noteq> NUL"
      using class_name_Cons [of k] by blast
    let ?s = "s\<lparr>bracklen := bracklen s + 1, in_cclass := True\<rparr>"
    have cp: "c = CHR ''[''" "p = CHR '':'' # d # name @ CHR '':'' # CHR '']'' # r" using written Class name by auto
    have "bracket_len_loop s c p = bracket_len_loop ?s d (name @ CHR '':'' # CHR '']'' # r)"
      unfolding cp using name(2) by (subst bracket_len_loop.simps) (simp add: bracket_len_step_def Let_def NUL_def)
    then show ?thesis using class_scan [of ?s d name r] name(2) r \<open>clean s\<close> by (simp add: clean_def)
  qed
qed

lemma items_scan:
  assumes "clean s" and "its \<noteq> []" and "list_all item_ok its" and "items_text its @ CHR '']'' # r = c # p"
  shows "\<exists>t. clean t \<and> bracket_len_loop s c p = (t, Some r)"
  using assms
proof (induction its arbitrary: s c p)
  case (Cons i js)
  let ?r = "items_text js @ CHR '']'' # r"
  obtain t where t: "clean t"
    "bracket_len_loop s c p = (if deref ?r = CHR '']'' then (t, Some (tl ?r)) else bracket_len_loop t (deref ?r) (tl ?r))"
    using item_scan [of s i ?r c p] Cons.prems by auto
  show ?case
  proof (cases js)
    case Nil
    then show ?thesis using t by auto
  next
    case (Cons j ks)
    obtain c' p' where r': "?r = c' # p'" by (cases ?r) auto
    then have "c' \<noteq> CHR '']''" using Cons by (cases j) auto
    then show ?thesis using t r' Cons.IH [of t c' p'] \<open>js = j # ks\<close> Cons.prems by auto
  qed
qed simp

lemma set_scan:
  assumes "clean s" and "its \<noteq> []" and "list_all item_ok its"
    and P: "P = (if neg then ''!'' else []) @ items_text its @ CHR '']'' # r"
  shows "\<exists>t. clean t \<and> bracket_len_loop s (deref P) (tl P) = (t, Some r)"
proof -
  obtain c p where cp: "items_text its @ CHR '']'' # r = c # p" by (cases "items_text its @ CHR '']'' # r") auto
  show ?thesis
  proof (cases neg)
    case False
    then show ?thesis using items_scan [OF assms(1-3) cp] P cp by simp
  next
    case True
    have "c \<noteq> CHR '']''" using cp assms(2) by (cases its; cases "hd its") auto
    then have "bracket_len_loop s (deref P) (tl P) = bracket_len_loop (s\<lparr>bracklen := bracklen s + 1\<rparr>) c p"
      using True P cp assms(1) by (subst bracket_len_loop.simps) (simp add: bracket_len_step_def Let_def NUL_def clean_def)
    then show ?thesis using items_scan [OF _ assms(2,3) cp, of "s\<lparr>bracklen := bracklen s + 1\<rparr>"] assms(1) by (simp add: clean_def)
  qed
qed

lemma text_not_open: "list_all token_ok ts \<Longrightarrow> deref (glob_text ts) \<noteq> CHR ''(''"
proof (cases ts)
  case (Cons u us)
  then show "list_all token_ok ts \<Longrightarrow> deref (glob_text ts) \<noteq> CHR ''(''" by (cases u) auto
qed (simp add: NUL_def)

lemma matchlen_text:
  assumes "list_all token_ok ts" and "clean s"
  shows "matchlen_loop s n (glob_text ts) = (if Star \<in> set ts then - 1 else n + int (length ts))"
  using assms
proof (induction ts arbitrary: s n)
  case (Cons t ts)
  then have no_paren: "deref (glob_text ts) \<noteq> CHR ''(''" by (simp add: text_not_open)
  show ?case
  proof (cases t)
    case (Lit c)
    then show ?thesis using Cons by auto
  next
    case (Bare c)
    then show ?thesis using Cons no_paren by auto
  next
    case Any
    then show ?thesis using Cons no_paren by auto
  next
    case Star
    then show ?thesis by simp
  next
    case (Set_Of neg its)
    let ?P = "(if neg then ''!'' else []) @ items_text its @ CHR '']'' # glob_text ts"
    have ok: "its \<noteq> []" "list_all item_ok its" using Cons.prems Set_Of by auto
    have "clean (s\<lparr>bracklen := 1\<rparr>)" using Cons.prems by (simp add: clean_def)
    then obtain t' where t': "clean t'" "bracket_len_loop (s\<lparr>bracklen := 1\<rparr>) (deref ?P) (tl ?P) = (t', Some (glob_text ts))"
      using set_scan [OF _ ok refl] by blast
    have "glob_text (t # ts) = CHR ''['' # ?P" using Set_Of by simp
    moreover have "matchlen_loop s n (CHR ''['' # ?P) = matchlen_loop t' (n + 1) (glob_text ts)"
      unfolding matchlen_loop.simps t'(2) by simp
    ultimately have "matchlen_loop s n (glob_text (t # ts)) = matchlen_loop t' (n + 1) (glob_text ts)" by simp
    then show ?thesis using Cons t'(1) Set_Of by auto
  qed
qed simp

lemma umatchlen_text:
  "list_all token_ok ts \<Longrightarrow> umatchlen (glob_text ts) = (if Star \<in> set ts then - 1 else int (length ts))"
  by (simp add: umatchlen_def matchlen_text clean_def)

section \<open>The first character\<close>

lemma gm_fold_char: "\<not> locale_utf8locale e \<Longrightarrow> gm_fold e f c = fold_char e f c"
  by (simp add: gm_fold_def fold_char_def)

lemma possible_text:
  assumes "\<not> locale_utf8locale e" and "ts \<noteq> []" and "NUL \<notin> set s" and "glob_matches e f ts m" and "m = take k s"
    and ok: "list_all token_ok ts"
    and same: "has_flag f FNM_CASEFOLD = has_flag f' FNM_CASEFOLD"
  shows "match_pattern_char e (glob_text ts) s f'"
proof -
  obtain t us where t: "ts = t # us" using assms(2) by (cases ts) auto
  show ?thesis
  proof (cases "t = Star")
    case True
    then show ?thesis using t by (simp add: match_pattern_char_def)
  next
    case False
    then obtain d m' where d: "m = d # m'" "token_matches e f t d" using assms(4) t by (auto simp: glob_matches_token)
    then obtain s' where s: "s = d # s'" using assms(5) by (cases s; cases k) auto
    then have "d \<noteq> NUL" using assms(3) by auto
    have "fold_char e f = fold_char e f'" using same by (simp add: fun_eq_iff fold_char_def)
    then show ?thesis using False t d(2) \<open>d \<noteq> NUL\<close> s assms(1) ok
      by (cases t) (auto simp: match_pattern_char_def token_matches_def gm_fold_char Let_def)
  qed
qed

section \<open>The widened pattern\<close>

lemma trailing_snoc: "trailing_backslashes (p @ [c]) = (if c = CHR 0x5C then Suc (trailing_backslashes p) else 0)"
  by (simp add: trailing_backslashes_def)

lemma trailing_text:
  assumes "list_all token_ok ts"
  shows "even (trailing_backslashes (glob_text ts))"
  using assms
proof (induction ts rule: rev_induct)
  case (snoc t ts)
  show ?case
  proof (cases t)
    case (Lit c)
    have "trailing_backslashes ((glob_text ts @ [CHR 0x5C]) @ [c]) =
        (if c = CHR 0x5C then Suc (Suc (trailing_backslashes (glob_text ts))) else 0)" by (simp only: trailing_snoc) simp
    then show ?thesis using Lit snoc by simp
  next
    case (Set_Of neg its)
    have "trailing_backslashes ((glob_text ts @ CHR ''['' # (if neg then ''!'' else []) @ items_text its) @ [CHR '']'']) = 0"
      by (simp only: trailing_snoc) simp
    then show ?thesis using Set_Of by simp
  qed (use snoc.prems in \<open>simp_all add: trailing_snoc\<close>)
qed (simp add: trailing_backslashes_def)

text \<open>The stars that are put before and after.\<close>

definition wide_before :: "32 word \<Rightarrow> glob_token list \<Rightarrow> glob_token list" where
  "wide_before mtype ts = (if mtype \<noteq> MATCH_BEG \<and> hd ts \<noteq> Star then [Star] else [])"

definition wide_after :: "32 word \<Rightarrow> glob_token list \<Rightarrow> glob_token list" where
  "wide_after mtype ts =
     (if mtype \<noteq> MATCH_END \<and> last ts \<noteq> Star \<and> \<not> (hd ts = Star \<and> last ts = Lit (CHR ''*'')) then [Star] else [])"

lemma starts_with_star:
  assumes "ts \<noteq> []" and ok: "list_all token_ok ts"
  shows "deref (glob_text ts) = CHR ''*'' \<longleftrightarrow> hd ts = Star" and "hd ts = Star \<Longrightarrow> deref (tl (glob_text ts)) \<noteq> CHR ''(''"
proof -
  obtain t us where t: "ts = t # us" using assms by (cases ts) auto
  show "deref (glob_text ts) = CHR ''*'' \<longleftrightarrow> hd ts = Star" using t ok by (cases t) auto
  have "deref (glob_text us) \<noteq> CHR ''(''" using ok t by (simp add: text_not_open)
  then show "hd ts = Star \<Longrightarrow> deref (tl (glob_text ts)) \<noteq> CHR ''(''" using t by simp
qed

lemma ends_with_star:
  assumes "ts \<noteq> []" and ok: "list_all token_ok ts"
  shows "last (glob_text ts) = CHR ''*'' \<longleftrightarrow> last ts = Star \<or> last ts = Lit (CHR ''*'')"
    and "last ts = Lit (CHR ''*'') \<Longrightarrow> odd (trailing_backslashes (butlast (glob_text ts)))"
    and "last ts = Star \<Longrightarrow> even (trailing_backslashes (butlast (glob_text ts)))"
proof -
  define us t where "us = butlast ts" and "t = last ts"
  have ts: "ts = us @ [t]" using assms by (simp add: us_def t_def)
  then have us: "list_all token_ok us" and t: "token_ok t" using ok by simp_all
  show "last (glob_text ts) = CHR ''*'' \<longleftrightarrow> last ts = Star \<or> last ts = Lit (CHR ''*'')" using ts t by (cases t) auto
  have "butlast (glob_text us @ [CHR 0x5C, CHR ''*'']) = glob_text us @ [CHR 0x5C]" by (simp add: butlast_append)
  then show "last ts = Lit (CHR ''*'') \<Longrightarrow> odd (trailing_backslashes (butlast (glob_text ts)))"
    using ts trailing_text [OF us] by (simp add: trailing_snoc)
  show "last ts = Star \<Longrightarrow> even (trailing_backslashes (butlast (glob_text ts)))" using ts trailing_text [OF us] by simp
qed

lemma widened_text:
  assumes "ts \<noteq> []" and "list_all token_ok ts"
  shows "widened_pattern o' (glob_text ts) mtype = glob_text (wide_before mtype ts @ ts @ wide_after mtype ts)"
proof -
  note first = starts_with_star [OF assms] and ending = ends_with_star [OF assms]
  have no_star: "(deref (glob_text ts) \<noteq> CHR ''*'' \<or> deref (tl (glob_text ts)) = CHR ''('' \<and> extended_glob o') \<longleftrightarrow> hd ts \<noteq> Star"
    using first by blast
  show ?thesis unfolding widened_pattern_def Let_def no_star
    using ending by (auto simp: wide_before_def wide_after_def)
qed

lemma widened_ok:
  "list_all token_ok ts \<Longrightarrow> list_all token_ok (wide_before mtype ts @ ts @ wide_after mtype ts)"
  by (simp add: wide_before_def wide_after_def)

lemma star_absorbs:
  assumes "glob_matches e f ts m"
  shows "hd ts = Star \<Longrightarrow> ts \<noteq> [] \<Longrightarrow> glob_matches e f ts (a @ m)"
    and "last ts = Star \<Longrightarrow> ts \<noteq> [] \<Longrightarrow> glob_matches e f ts (m @ b)"
proof -
  assume "hd ts = Star" "ts \<noteq> []"
  then obtain us where ts: "ts = [Star] @ us" by (cases ts) auto
  then obtain m1 m2 where m: "m = m1 @ m2" "glob_matches e f us m2" using assms glob_matches_append [of e f "[Star]" us m] by blast
  show "glob_matches e f ts (a @ m)" using glob_matches_appendI [OF star_matches m(2), of "a @ m1"] by (simp add: ts m(1))
next
  assume "last ts = Star" "ts \<noteq> []"
  then obtain us where ts: "ts = us @ [Star]" using append_butlast_last_id by metis
  then obtain m1 m2 where m: "m = m1 @ m2" "glob_matches e f us m1" using assms glob_matches_append [of e f us "[Star]" m] by blast
  show "glob_matches e f ts (m @ b)" using glob_matches_appendI [OF m(2) star_matches, of "m2 @ b"] by (simp add: ts m(1))
qed

lemma widened_matches:
  assumes "ts \<noteq> []" and "occurs (glob_matches e f ts) s i j" and "anchored mtype s i j"
    and odd_star: "mtype = MATCH_END \<or> \<not> (hd ts = Star \<and> last ts = Lit (CHR ''*''))"
  shows "glob_matches e f (wide_before mtype ts @ ts @ wide_after mtype ts) s"
proof -
  define a m b where "a = take i s" and "m = take (j - i) (drop i s)" and "b = drop j s"
  have ij: "i \<le> j" "j \<le> length s" "glob_matches e f ts m" using assms(2) by (auto simp: occurs_def m_def)
  have "drop i s = m @ b" unfolding m_def b_def using ij(1) append_take_drop_id [of "j - i" "drop i s"] by simp
  then have s: "s = a @ m @ b" unfolding a_def using append_take_drop_id [of i s] by simp
  have before: "glob_matches e f (wide_before mtype ts @ ts) (a @ m)"
  proof (cases "wide_before mtype ts = []")
    case True
    then consider "hd ts = Star" | "a = []" using assms(3) by (auto simp: wide_before_def anchored_def a_def split: if_splits)
    then have "glob_matches e f ts (a @ m)" using ij(3) star_absorbs(1) [OF ij(3) _ assms(1)] by cases simp_all
    then show ?thesis using True by simp
  next
    case False
    then have "wide_before mtype ts = [Star]" by (simp add: wide_before_def split: if_splits)
    then show ?thesis using glob_matches_appendI [OF star_matches ij(3)] by simp
  qed
  have "glob_matches e f ((wide_before mtype ts @ ts) @ wide_after mtype ts) ((a @ m) @ b)"
  proof (cases "wide_after mtype ts = []")
    case True
    then consider "last ts = Star" | "b = []"
      using assms(3) odd_star by (auto simp: wide_after_def anchored_def b_def split: if_splits)
    then have "glob_matches e f (wide_before mtype ts @ ts) ((a @ m) @ b)"
      using before star_absorbs(2) [OF before] assms(1) by cases simp_all
    then show ?thesis using True by simp
  next
    case False
    then have "wide_after mtype ts = [Star]" by (simp add: wide_after_def split: if_splits)
    then show ?thesis using glob_matches_appendI [OF before star_matches] by simp
  qed
  then show ?thesis using s by simp
qed

section \<open>The search on the text of a tree\<close>

lemma tests_text:
  assumes "\<not> locale_utf8locale e" and "keeps_specials e (search_flags o')"
    and "ts \<noteq> []" and "list_all token_ok ts" and "NUL \<notin> set s"
  shows "sound_tests (\<lambda>p. match_pattern_char e (glob_text ts) (drop p s) (FNMATCH_IGNCASE o'))
    (\<lambda>p q. internal_strmatch e (glob_text ts) (take (q - p) (drop p s)) (search_flags o'))
    (umatchlen (glob_text ts)) (glob_matches e (search_flags o') ts) s"
  unfolding sound_tests_def
proof (intro conjI allI impI)
  let ?Q = "glob_matches e (search_flags o') ts"
  have sub: "NUL \<notin> set (drop p s)" "NUL \<notin> set (take n (drop p s))" for n p
    using assms(5) by (auto dest: in_set_takeD in_set_dropD)
  show "internal_strmatch e (glob_text ts) (take (q - p) (drop p s)) (search_flags o') = Some (?Q (take (q - p) (drop p s)))" for p q
    using sub assms by (intro search_match) auto
  show "match_pattern_char e (glob_text ts) (drop i s) (FNMATCH_IGNCASE o')" if "occurs ?Q s i j" for i j
    using that sub assms by (intro possible_text [of e ts "drop i s" "search_flags o'"]) (auto simp: occurs_def)
  have len: "j = i + length ts" if "occurs ?Q s i j" "Star \<notin> set ts" for i j
  proof -
    have "?Q (take (j - i) (drop i s))" using that(1) by (simp add: occurs_def)
    then have "length (take (j - i) (drop i s)) = length ts" using that(2) by (rule glob_matches_length)
    then show ?thesis using that(1) by (auto simp: occurs_def)
  qed
  show "umatchlen (glob_text ts) = - 1 \<or>
    umatchlen (glob_text ts) \<ge> 0 \<and> (\<forall>i j. occurs ?Q s i j \<longrightarrow> j = i + nat (umatchlen (glob_text ts)))"
    using len by (auto simp: umatchlen_text assms(4))
qed

lemma match_upattern_text:
  assumes "\<not> locale_utf8locale e" and "keeps_specials e (search_flags o')"
    and "ts \<noteq> []" and "list_all token_ok ts" and "NUL \<notin> set s"
    and "mtype = MATCH_ANY \<or> mtype = MATCH_BEG \<or> mtype = MATCH_END"
    and "mtype = MATCH_END \<or> \<not> (hd ts = Star \<and> last ts = Lit (CHR ''*''))"
  shows "\<exists>r. match_upattern e o' s (glob_text ts) mtype = Some r \<and> finds mtype (glob_matches e (search_flags o') ts) s r"
proof -
  let ?Q = "glob_matches e (search_flags o') ts" and ?w = "wide_before mtype ts @ ts @ wide_after mtype ts"
  obtain r where r: "match_kind (\<lambda>p. match_pattern_char e (glob_text ts) (drop p s) (FNMATCH_IGNCASE o'))
      (\<lambda>p q. internal_strmatch e (glob_text ts) (take (q - p) (drop p s)) (search_flags o'))
      (umatchlen (glob_text ts)) (length s) mtype = Some r" "finds mtype ?Q s r"
    using match_kind_finds [OF tests_text [OF assms(1-5)] assms(6)] by blast
  have "internal_strmatch e (widened_pattern o' (glob_text ts) mtype) s (search_flags o') = Some (glob_matches e (search_flags o') ?w s)"
    unfolding widened_text [OF assms(3,4)] using assms by (intro search_match widened_ok)
  then have run: "match_upattern e o' s (glob_text ts) mtype = (if glob_matches e (search_flags o') ?w s then Some r else Some None)"
    using r(1) by (simp add: match_upattern_def search_flags_def)
  show ?thesis
  proof (cases "glob_matches e (search_flags o') ?w s")
    case True
    then show ?thesis using run r(2) by auto
  next
    case False
    then have "finds mtype ?Q s None" using widened_matches [OF assms(3) _ _ assms(7)] by (auto simp: finds_def)
    then show ?thesis using run False by auto
  qed
qed

end
