(* ===== verification/Glob_Theorems.thy ===== *)
theory Glob_Theorems
  imports Glob_Patterns
begin

text \<open>
  What \<open>internal_strmatch\<close> promises: it decides the relation that tries every length for every star, and on the
  text of a pattern tree it decides the meaning of the tree. Then the inputs on which it does not do what a
  reader of the pattern expects.
\<close>

section \<open>A locale to evaluate in\<close>

definition posix_ctype :: "char_class \<Rightarrow> char \<Rightarrow> bool" where
  "posix_ctype k c =
     (let n = (of_char c :: nat);
          digit = (48 \<le> n \<and> n \<le> 57); lower = (97 \<le> n \<and> n \<le> 122); upper = (65 \<le> n \<and> n \<le> 90)
      in case k of
           CC_DIGIT \<Rightarrow> digit | CC_LOWER \<Rightarrow> lower | CC_UPPER \<Rightarrow> upper
         | CC_ALPHA \<Rightarrow> lower \<or> upper | CC_ALNUM \<Rightarrow> lower \<or> upper \<or> digit | CC_WORD \<Rightarrow> lower \<or> upper \<or> digit \<or> n = 95
         | CC_XDIGIT \<Rightarrow> digit \<or> 97 \<le> n \<and> n \<le> 102 \<or> 65 \<le> n \<and> n \<le> 70
         | CC_BLANK \<Rightarrow> n = 32 \<or> n = 9 | CC_SPACE \<Rightarrow> n = 32 \<or> 9 \<le> n \<and> n \<le> 13
         | CC_CNTRL \<Rightarrow> n < 32 \<or> n = 127 | CC_PRINT \<Rightarrow> 32 \<le> n \<and> n < 127 | CC_GRAPH \<Rightarrow> 32 < n \<and> n < 127
         | CC_PUNCT \<Rightarrow> 32 < n \<and> n < 127 \<and> \<not> (lower \<or> upper \<or> digit) | CC_ASCII \<Rightarrow> n < 128)"

definition posix_locale :: glob_locale where
  "posix_locale =
     \<lparr>locale_utf8locale = False, glob_asciirange = True,
      c_tolower = (\<lambda>c. if posix_ctype CC_UPPER c then char_of (of_char c + 32 :: nat) else c),
      c_strcoll = (\<lambda>a b. if a = b then 0 else 1), c_ctype = posix_ctype, fnmatch_equiv = (=)\<rparr>"

section \<open>Stars\<close>

text \<open>C15: Without \<open>FNM_PATHNAME\<close> and \<open>FNM_LEADING_DIR\<close>, \<open>internal_strmatch\<close> returns on every string, and it says that the
  string matches exactly when some choice of a length for every star of the pattern matches it and no wildcard
  stands at a leading dot that must be written. \<open>GMATCH\<close> tries the lengths of the last star it has met
  only; nothing is lost by that. The pattern has no extended form and no trailing backslash, and where its
  bracket expressions end does not depend on the string.\<close>

theorem last_star_is_enough:
  assumes "name_flags flags" and "keeps_specials e flags" and "plain_pattern flags p" and "steady_pattern e flags p"
    and "NUL \<notin> set p" and "NUL \<notin> set s"
  shows "internal_strmatch e p s flags =
     Some (globs e flags p s \<and> \<not> (explicit_dot flags s \<and> deref p \<in> {CHR ''?'', CHR ''*'', CHR ''[''}))"
  using strmatch_decides [OF assms] by (simp add: name_matches_def)

lemma a_star_b_star_c: "steady_pattern e 0 ''a*b*c''"
  by (intro steady_pattern.intros) simp_all

theorem last_star_is_enough_witness:
  "internal_strmatch posix_locale ''a*b*c'' ''aXbbYcc'' 0 =
     Some (globs posix_locale 0 ''a*b*c'' ''aXbbYcc'' \<and>
       \<not> (explicit_dot 0 ''aXbbYcc'' \<and> deref ''a*b*c'' \<in> {CHR ''?'', CHR ''*'', CHR ''[''}))"
proof (rule last_star_is_enough)
  show "keeps_specials posix_locale 0" by (rule exact_case_keeps) (simp add: has_flag_def)
qed (simp_all add: name_flags_def has_flag_def plain_pattern_def a_star_b_star_c NUL_def)

section \<open>Trees\<close>

text \<open>C14: A pattern built from literal characters (quoted, or bare when they mean nothing to the matcher), question marks, stars
  and bracket expressions whose characters are quoted matches a string exactly when the meaning of its parts says so; a
  string with a leading dot that must be written is refused unless the pattern starts with a character.\<close>

theorem strmatch_matches_meaning:
  assumes "name_flags flags" and "\<not> has_flag flags FNM_NOESCAPE" and "keeps_specials e flags"
    and "list_all token_ok ts" and "NUL \<notin> set s"
  shows "internal_strmatch e (glob_text ts) s flags =
     Some (glob_matches e flags ts s \<and>
       \<not> (explicit_dot flags s \<and> (case ts of [] \<Rightarrow> False | Lit c # _ \<Rightarrow> False | Bare c # _ \<Rightarrow> False | _ \<Rightarrow> True)))"
  using assms by (rule strmatch_text)

theorem strmatch_matches_meaning_witness:
  "internal_strmatch posix_locale (glob_text [Lit (CHR ''*''), Star, Set_Of True [One (CHR ''-''), Range (CHR ''0'') (CHR ''9'')], Any])
     ''*ab1x1'' FNM_PERIOD = Some (glob_matches posix_locale FNM_PERIOD
     [Lit (CHR ''*''), Star, Set_Of True [One (CHR ''-''), Range (CHR ''0'') (CHR ''9'')], Any] ''*ab1x1'')"
proof -
  have flags: "name_flags FNM_PERIOD" "\<not> has_flag FNM_PERIOD FNM_NOESCAPE" "\<not> has_flag FNM_PERIOD FNM_CASEFOLD"
    by (simp_all add: name_flags_def has_flag_def FNM_PERIOD_def FNM_NOESCAPE_def FNM_CASEFOLD_def FNM_PATHNAME_def FNM_LEADING_DIR_def)
  show ?thesis
    by (subst strmatch_matches_meaning [OF flags(1,2) exact_case_keeps [OF flags(3)]]) (simp_all add: NUL_def)
qed

section \<open>Surprises\<close>

text \<open>A trailing backslash matches a backslash, but not after a star.\<close>

lemma trailing_backslash:
  "internal_strmatch posix_locale [CHR ''?'', CHR 0x5C] [CHR ''a'', CHR 0x5C] 0 = Some True"
  "internal_strmatch posix_locale [CHR ''*'', CHR 0x5C] [CHR ''a'', CHR 0x5C] 0 = Some False"
  by code_simp+

text \<open>After a star, what matches the empty string is not tried at the end of the string.\<close>

lemma end_not_tried:
  "internal_strmatch posix_locale ''*@(|a)'' ''b'' FNM_EXTMATCH = Some False"
  "internal_strmatch posix_locale ''b@(|a)'' ''b'' FNM_EXTMATCH = Some True"
  by code_simp+

text \<open>After a star at the end of the string, \<open>!(...)\<close> ignores the rest of the pattern.\<close>

lemma except_ignores_rest:
  "internal_strmatch posix_locale ''*!(a)b'' '''' FNM_EXTMATCH = Some True"
  "internal_strmatch posix_locale ''x*!(a)'' ''x'' FNM_EXTMATCH = Some True"
  "internal_strmatch posix_locale ''!(a)b'' '''' FNM_EXTMATCH = Some False"
  by code_simp+

text \<open>Where a bracket expression ends depends on the character it is tried on.\<close>

lemma bracket_end_varies:
  "internal_strmatch posix_locale ''[xA-[=b=]]'' ''x'' 0 = Some True"
  "internal_strmatch posix_locale ''[xA-[=b=]]'' ''B]'' 0 = Some True"
  by code_simp+

text \<open>A collating symbol that does not exist is the byte 0xFF.\<close>

lemma unknown_collating_symbol:
  "internal_strmatch posix_locale ''[[.nosuch.]]'' [CHR 0xFF] 0 = Some True"
  by code_simp

end
