(* ===== verification/Pat_Theorems.thy ===== *)
theory Pat_Theorems
  imports Pat_Tests Glob_Theorems
begin

text \<open>
  What \<open>${x#p}\<close>, \<open>${x##p}\<close>, \<open>${x%p}\<close>, \<open>${x%%p}\<close>, \<open>${x/p/r}\<close> and \<open>${x//p/r}\<close> do when \<open>p\<close> is the text of a pattern tree, and
  the patterns on which the tests of the search go wrong.
\<close>

section \<open>Removal\<close>

text \<open>C18: Removal of a prefix or suffix by a token pattern: the text of a list of literal characters (quoted, or bare
  when they mean nothing to the matcher), \<open>?\<close>, \<open>*\<close> and well-formed bracket expressions of quoted characters, ranges
  with quoted ends and classes, without extended forms; it may be empty. The values have no NUL and their characters are
  single bytes. Then the removal answers, and it takes off the longest (\<open>##\<close>, \<open>%%\<close>) or the shortest (\<open>#\<close>, \<open>%\<close>) part at
  that end of the value that the pattern matches, and leaves the value as it is when it matches none.\<close>

theorem removal_is_extreme:
  assumes "list_all token_ok ts" and "NUL \<notin> set s"
  shows "\<exists>r. remove_pattern e o' (Some s) (Some (glob_text ts)) op = Some (Some r) \<and>
    removal op (glob_matches e (FNMATCH_EXTFLAG o') ts) s r"
proof (cases "s = [] \<or> glob_text ts = []")
  case True
  have empty: "m = []" if "parts op s m r" "glob_matches e (FNMATCH_EXTFLAG o') ts m" for m r
  proof (cases "s = []")
    case False
    then have "ts = []" using \<open>s = [] \<or> glob_text ts = []\<close> by (cases ts) simp_all
    then show ?thesis using that(2) by simp
  qed (use that(1) in \<open>simp add: parts_def split: if_splits\<close>)
  have "removal op (glob_matches e (FNMATCH_EXTFLAG o') ts) s s"
  proof (cases "\<exists>m r. parts op s m r \<and> glob_matches e (FNMATCH_EXTFLAG o') ts m")
    case True
    then have "glob_matches e (FNMATCH_EXTFLAG o') ts []" using empty by blast
    moreover have "parts op s [] s" by (simp add: parts_def)
    ultimately show ?thesis using empty by (intro removal_some) auto
  qed (rule removal_none)
  then show ?thesis using True by (auto simp: remove_pattern_def)
next
  case False
  have "internal_strmatch e (glob_text ts) m (FNMATCH_EXTFLAG o') = Some (glob_matches e (FNMATCH_EXTFLAG o') ts m)"
    if "set m \<subseteq> set s" for m using that assms by (intro removal_match) auto
  from remove_upattern_answers [OF this] show ?thesis using False by (auto simp: remove_pattern_def)
qed

theorem removal_is_extreme_witness:
  "\<exists>r. remove_pattern posix_locale \<lparr>extended_glob = False, match_ignore_case = False\<rparr> (Some ''a/b/c'')
     (Some (glob_text [Star, Bare (CHR ''/'')])) RP_LONG_LEFT = Some (Some r) \<and>
   removal RP_LONG_LEFT (glob_matches posix_locale (FNMATCH_EXTFLAG \<lparr>extended_glob = False, match_ignore_case = False\<rparr>)
     [Star, Bare (CHR ''/'')]) ''a/b/c'' r"
  by (rule removal_is_extreme) (simp_all add: NUL_def)

section \<open>Search\<close>

text \<open>C16: The search of \<open>${x/p/r}\<close> in a value without NUL for a token pattern that is not empty, in a locale that
  is not UTF-8, where folding the case, when it is ignored, neither makes nor unmakes a character of the syntax of
  patterns: it answers, finds nothing exactly when no part of the value that fits the anchor matches, and otherwise the
  part that starts first and, of those, ends last, although it tries the matcher only where a first character and a
  length allow a match. Excepted is a pattern that starts with a star and ends with a quoted star, unless it is anchored
  at the end. A token pattern is the text of a list of literal characters (quoted, or bare when they mean nothing to the
  matcher), \<open>?\<close>, \<open>*\<close> and well-formed bracket expressions of quoted characters, ranges with quoted ends and classes,
  without extended forms.\<close>

theorem search_is_leftmost_longest:
  assumes "\<not> locale_utf8locale e" and "keeps_specials e (search_flags o')"
    and "ts \<noteq> []" and "list_all token_ok ts" and "NUL \<notin> set s"
    and "mtype \<in> {MATCH_ANY, MATCH_BEG, MATCH_END}"
    and "mtype = MATCH_END \<or> \<not> (hd ts = Star \<and> last ts = Lit (CHR ''*''))"
  shows "\<exists>r. match_pattern e o' s (Some (glob_text ts)) mtype = Some r \<and>
    finds mtype (glob_matches e (search_flags o') ts) s r"
proof -
  have "glob_text ts \<noteq> []" using assms(3) by (cases ts) simp_all
  then show ?thesis using match_upattern_text [OF assms(1-5) _ assms(7)] assms(6) by (simp add: match_pattern_def)
qed

lemma exact_search: "keeps_specials e (search_flags \<lparr>extended_glob = x, match_ignore_case = False\<rparr>)"
  by (rule exact_case_keeps) (simp only: search_flags, simp add: FNMATCH_IGNCASE_def has_flag_def)

theorem search_is_leftmost_longest_witness:
  "\<exists>r. match_pattern posix_locale \<lparr>extended_glob = True, match_ignore_case = False\<rparr> ''xabbab''
     (Some (glob_text [Bare (CHR ''a''), Star, Set_Of False [One (CHR ''b'')]])) MATCH_ANY = Some r \<and>
   finds MATCH_ANY (glob_matches posix_locale (search_flags \<lparr>extended_glob = True, match_ignore_case = False\<rparr>)
     [Bare (CHR ''a''), Star, Set_Of False [One (CHR ''b'')]]) ''xabbab'' r"
  by (rule search_is_leftmost_longest) (simp_all add: NUL_def posix_locale_def exact_search)

section \<open>Substitution\<close>

text \<open>What replacing every match means: from left to right, the leftmost and longest match is replaced and the
  rest after it is treated in the same way; after an empty match one character is kept.\<close>

inductive replaces :: "(cstring \<Rightarrow> bool) \<Rightarrow> (cstring \<Rightarrow> cstring) \<Rightarrow> cstring \<Rightarrow> cstring \<Rightarrow> bool" for Q f where
  replaces_end: "replaces Q f [] []"
| replaces_none: "finds MATCH_ANY Q s None \<Longrightarrow> replaces Q f s s"
| replaces_some: "finds MATCH_ANY Q s (Some (i, j)) \<Longrightarrow> i < j \<Longrightarrow> replaces Q f (drop j s) r \<Longrightarrow>
    replaces Q f s (take i s @ f (take (j - i) (drop i s)) @ r)"
| replaces_empty: "finds MATCH_ANY Q s (Some (i, i)) \<Longrightarrow> drop i s = c # s' \<Longrightarrow> replaces Q f s' r \<Longrightarrow>
    replaces Q f s (take i s @ f [] @ c # r)"

text \<open>No match is empty and at the end of a string that has a character.\<close>

lemma empty_match_first:
  assumes "finds MATCH_ANY Q s (Some (i, i))" and "s \<noteq> []"
  shows "drop i s \<noteq> []"
proof
  assume "drop i s = []"
  have "occurs Q s i i" using assms(1) by (simp add: finds_def)
  then have "occurs Q s 0 0" by (simp add: occurs_def)
  then have "i = 0" using assms(1) by (auto simp: finds_def anchored_def MATCH_ANY_def MATCH_BEG_def MATCH_END_def)
  then show False using \<open>drop i s = []\<close> assms(2) by simp
qed

lemma pat_subst_loop_replaces:
  assumes "\<And>s'. set s' \<subseteq> set s \<Longrightarrow> \<exists>r. match_pattern e o' s' pat MATCH_ANY = Some r \<and> finds MATCH_ANY Q s' r"
    and m: "has_flag mflags MATCH_GLOBREP" "mflags AND MATCH_TYPEMASK = MATCH_ANY"
  shows "\<exists>r. pat_subst_loop e o' pat rep mflags s = Some r \<and> replaces Q (replacement rep mflags) s r"
  using assms(1)
proof (induction s rule: length_induct)
  case (1 s)
  show ?case
  proof (cases "s = []")
    case True
    then show ?thesis by (simp add: pat_subst_loop.simps replaces_end)
  next
    case False
    obtain r where r: "match_pattern e o' s pat MATCH_ANY = Some r" "finds MATCH_ANY Q s r" using "1.prems" by blast
    have rest: "\<exists>r. pat_subst_loop e o' pat rep mflags s' = Some r \<and> replaces Q (replacement rep mflags) s' r"
      if "length s' < length s" "set s' \<subseteq> set s" for s'
    proof -
      have "\<exists>r. match_pattern e o' t pat MATCH_ANY = Some r \<and> finds MATCH_ANY Q t r" if "set t \<subseteq> set s'" for t
        by (rule "1.prems") (use that \<open>set s' \<subseteq> set s\<close> in blast)
      then show ?thesis using "1.IH" that(1) by presburger
    qed
    show ?thesis
    proof (cases r)
      case None
      then show ?thesis using r m False by (subst pat_subst_loop.simps) (simp add: replaces_none)
    next
      case (Some st)
      obtain i j where st: "st = (i, j)" by (cases st)
      have ij: "i \<le> j" "j \<le> length s" using match_pattern_bounds [of e o' s pat MATCH_ANY i j] r(1) Some st by simp_all
      show ?thesis
      proof (cases "i = j")
        case True
        then obtain c s' where s': "drop i s = c # s'" using empty_match_first [of Q s i] r(2) Some st False by (cases "drop i s") auto
        have "length s' < length s" using arg_cong [OF s', of length] by simp
        moreover have "set s' \<subseteq> set s" using s' set_drop_subset [of i s] by auto
        ultimately obtain r' where "pat_subst_loop e o' pat rep mflags s' = Some r'" "replaces Q (replacement rep mflags) s' r'"
          using rest by blast
        moreover have "pat_subst_loop e o' pat rep mflags s = map_option (\<lambda>r. (take i s @ replacement rep mflags []) @ c # r) (pat_subst_loop e o' pat rep mflags s')"
          using True r(1) Some st m False s' by (subst pat_subst_loop.simps) simp
        moreover have "replaces Q (replacement rep mflags) s (take i s @ replacement rep mflags [] @ c # r')"
          using r(2) Some st True s' calculation(2) by (intro replaces_empty) auto
        ultimately show ?thesis by simp
      next
        case neq: False
        have "length (drop j s) < length s" "set (drop j s) \<subseteq> set s" using neq ij False by (auto dest: in_set_dropD)
        then obtain r' where "pat_subst_loop e o' pat rep mflags (drop j s) = Some r'" "replaces Q (replacement rep mflags) (drop j s) r'"
          using rest by blast
        moreover have "pat_subst_loop e o' pat rep mflags s =
            map_option (\<lambda>r. (take i s @ replacement rep mflags (take (j - i) (drop i s))) @ r) (pat_subst_loop e o' pat rep mflags (drop j s))"
          using neq r(1) Some st m False by (subst pat_subst_loop.simps) simp
        moreover have "replaces Q (replacement rep mflags) s (take i s @ replacement rep mflags (take (j - i) (drop i s)) @ r')"
          using r(2) Some st neq ij(1) calculation(2) by (intro replaces_some) auto
        ultimately show ?thesis by simp
      qed
    qed
  qed
qed

text \<open>C17: \<open>${x//p/r}\<close> with a value that is not empty and has no NUL, with a pattern and a locale as for the search: a token pattern
  (literal characters quoted or bare, \<open>?\<close>, \<open>*\<close>, bracket expressions of quoted characters, ranges and classes; no extended
  forms) that is not empty and does not start with a star and end with a quoted star, a locale that is not UTF-8, case
  folding that keeps the syntax of patterns. The substitution answers, and its value is that of replacing every match from
  left to right.\<close>

theorem substitution_replaces_every_match:
  assumes "\<not> locale_utf8locale e" and "keeps_specials e (search_flags o')"
    and "ts \<noteq> []" and "list_all token_ok ts" and "NUL \<notin> set s" and "s \<noteq> []"
    and "has_flag mflags MATCH_GLOBREP" and "mflags AND MATCH_TYPEMASK = MATCH_ANY"
    and "\<not> (hd ts = Star \<and> last ts = Lit (CHR ''*''))"
  shows "\<exists>r. pat_subst e o' (Some s) (Some (glob_text ts)) rep mflags = Some r \<and>
    replaces (glob_matches e (search_flags o') ts) (replacement rep mflags) s r"
proof -
  have ne: "glob_text ts \<noteq> []" using assms(3) by (cases ts) simp_all
  have "\<exists>r. match_pattern e o' s' (Some (glob_text ts)) MATCH_ANY = Some r \<and> finds MATCH_ANY (glob_matches e (search_flags o') ts) s' r"
    if "set s' \<subseteq> set s" for s'
    using match_upattern_text [OF assms(1-4), of s' MATCH_ANY] that assms(5,9) ne by (auto simp: match_pattern_def)
  from pat_subst_loop_replaces [OF this assms(7,8)] show ?thesis
    using assms(6,8) ne by (simp add: pat_subst_def MATCH_ANY_def MATCH_BEG_def MATCH_END_def)
qed

theorem substitution_replaces_every_match_witness:
  "\<exists>r. pat_subst posix_locale \<lparr>extended_glob = False, match_ignore_case = False\<rparr> (Some ''banana'') (Some (glob_text [Bare (CHR ''a''), Any]))
     (Some ''<&>'') (MATCH_GLOBREP OR MATCH_EXPREP) = Some r \<and>
   replaces (glob_matches posix_locale (search_flags \<lparr>extended_glob = False, match_ignore_case = False\<rparr>) [Bare (CHR ''a''), Any])
     (replacement (Some ''<&>'') (MATCH_GLOBREP OR MATCH_EXPREP)) ''banana'' r"
  by (rule substitution_replaces_every_match)
    (simp_all add: NUL_def posix_locale_def exact_search has_flag_def MATCH_GLOBREP_def MATCH_EXPREP_def MATCH_TYPEMASK_def MATCH_ANY_def)

text \<open>Replacing every match by itself changes nothing.\<close>

lemma replaces_itself: "replaces Q f s r \<Longrightarrow> (\<And>m. f m = m) \<Longrightarrow> r = s"
proof (induction rule: replaces.induct)
  case (replaces_some s i j r)
  have "take i s @ take (j - i) (drop i s) @ drop j s = s"
    using replaces_some.hyps(2) append_take_drop_id [of i s] append_take_drop_id [of "j - i" "drop i s"] by simp
  then show ?case using replaces_some by simp
next
  case (replaces_empty s i c s' r)
  then show ?case using append_take_drop_id [of i s] by simp
qed simp_all

lemma replacement_itself: "has_flag mflags MATCH_EXPREP \<Longrightarrow> replacement (Some ''&'') mflags m = m"
  by (simp add: replacement_def)

text \<open>C39: With \<open>patsub_replacement\<close>, \<open>${x//p/&}\<close> is the value of \<open>x\<close>, for values without NUL and for patterns and locales as for
  the search: a token pattern (literal characters quoted or bare, \<open>?\<close>, \<open>*\<close>, bracket expressions of quoted characters, ranges
  and classes; no extended forms) that is not empty and does not start with a star and end with a quoted star, a
  locale that is not UTF-8, and case folding that keeps the syntax of patterns.\<close>

theorem replacing_matches_by_themselves:
  assumes "\<not> locale_utf8locale e" and "keeps_specials e (search_flags o')"
    and "ts \<noteq> []" and "list_all token_ok ts" and "NUL \<notin> set s"
    and "\<not> (hd ts = Star \<and> last ts = Lit (CHR ''*''))"
  shows "patsub_variable e o' True True s (Some (glob_text ts)) (Some ''&'') = Some s"
proof -
  have flags: "patsub_flags True True (Some (glob_text ts)) (Some ''&'') = (Some (glob_text ts), MATCH_GLOBREP OR MATCH_EXPREP)"
    by (simp add: patsub_flags_def MATCH_ANY_def)
  have m: "has_flag (MATCH_GLOBREP OR MATCH_EXPREP) MATCH_GLOBREP" "(MATCH_GLOBREP OR MATCH_EXPREP) AND MATCH_TYPEMASK = MATCH_ANY"
      "has_flag (MATCH_GLOBREP OR MATCH_EXPREP) MATCH_EXPREP"
    by (simp_all add: has_flag_def MATCH_GLOBREP_def MATCH_EXPREP_def MATCH_TYPEMASK_def MATCH_ANY_def)
  have ne: "glob_text ts \<noteq> []" using assms(3) by (cases ts) simp_all
  have found: "\<exists>r. match_pattern e o' s' (Some (glob_text ts)) MATCH_ANY = Some r \<and> finds MATCH_ANY (glob_matches e (search_flags o') ts) s' r"
    if "set s' \<subseteq> set s" for s'
    using match_upattern_text [OF assms(1-4), of s' MATCH_ANY] that assms(5,6) ne by (auto simp: match_pattern_def)
  have "pat_subst e o' (Some s) (Some (glob_text ts)) (Some ''&'') (MATCH_GLOBREP OR MATCH_EXPREP) = Some s"
  proof (cases "s = []")
    case True
    then show ?thesis using found [of "[]"] ne m(2)
      by (auto simp: pat_subst_def replacement_itself [OF m(3)] MATCH_ANY_def MATCH_BEG_def MATCH_END_def)
  next
    case False
    then show ?thesis using pat_subst_loop_replaces [OF found m(1,2), where rep = "Some ''&''"] replaces_itself [OF _ replacement_itself [OF m(3)]] ne m(2)
      by (auto simp: pat_subst_def MATCH_ANY_def MATCH_BEG_def MATCH_END_def)
  qed
  then show ?thesis by (simp add: patsub_variable_def flags)
qed

theorem replacing_matches_by_themselves_witness:
  "patsub_variable posix_locale \<lparr>extended_glob = True, match_ignore_case = False\<rparr> True True ''a-b-c''
     (Some (glob_text [Set_Of True [One (CHR ''-'')], Star])) (Some ''&'') = Some ''a-b-c''"
  by (rule replacing_matches_by_themselves) (simp_all add: NUL_def posix_locale_def exact_search)

text \<open>A replacement for which the test finds nothing to expand is what its expansion would give.\<close>

lemma unexpanded_replacement_is_literal:
  "\<not> shouldexp_replacement r \<Longrightarrow> strcreplace r (CHR ''&'') m True = r"
proof (induction r rule: shouldexp_replacement.induct)
  case (2 c s)
  show ?case
  proof (cases "c = CHR 0x5C \<and> s \<noteq> []")
    case True
    then obtain d s' where s: "s = d # s'" by (cases s) auto
    then have "d \<noteq> CHR ''&''" "d \<noteq> CHR 0x5C" "strcreplace s' (CHR ''&'') m True = s'"
      using 2 True by auto
    then show ?thesis using True s by simp
  next
    case False
    then show ?thesis using 2 by (cases s) (auto simp: NUL_def split: if_splits)
  qed
qed simp

section \<open>Where the tests go wrong\<close>

abbreviation options :: match_options where
  "options \<equiv> \<lparr>extended_glob = False, match_ignore_case = False\<rparr>"

text \<open>A bracket expression whose first character is the closing bracket, negated: \<open>umatchlen\<close> ends it too early.\<close>

lemma negated_bracket_never_replaced:
  "patsub_variable posix_locale options False False ''b'' (Some ''[^]]'') (Some ''Z'') = Some ''b''"
  "internal_strmatch posix_locale ''[^]]'' ''b'' 0 = Some True"
  by code_simp+

text \<open>A class that is not closed counts a character less than it matches.\<close>

lemma open_class_never_replaced:
  "patsub_variable posix_locale options False False ''[[:x'' (Some ''[[:x'') (Some ''Z'') = Some ''[[:x''"
  "internal_strmatch posix_locale ''[[:x'' ''[[:x'' 0 = Some True"
  by code_simp+

text \<open>A star at the start and a quoted star at the end: no star is added behind, and nothing is replaced but
  at the end of the value.\<close>

lemma quoted_star_not_widened:
  "patsub_variable posix_locale options False False ''a*b'' (Some [CHR ''*'', CHR 0x5C, CHR ''*'']) (Some ''Z'') = Some ''a*b''"
  "remove_pattern posix_locale options (Some ''a*b'') (Some [CHR ''*'', CHR 0x5C, CHR ''*'']) RP_SHORT_LEFT = Some (Some ''b'')"
  by code_simp+

text \<open>A backslash at the end of the pattern: it matches, but the star that is added behind is quoted by it.\<close>

lemma trailing_backslash_never_replaced:
  "patsub_variable posix_locale options False False [CHR ''a'', CHR 0x5C] (Some [CHR ''a'', CHR 0x5C]) (Some ''Z'') = Some [CHR ''a'', CHR 0x5C]"
  "internal_strmatch posix_locale [CHR ''a'', CHR 0x5C] [CHR ''a'', CHR 0x5C] 0 = Some True"
  by code_simp+

end
