(* ===== verification/Redir.thy ===== *)
theory Redir
  imports Shell_Types C_Numbers
begin

text \<open>
  Redirections (redir.c): \<open>do_redirections\<close> with everything it does to the descriptor table, and the
  lists that undo it (\<open>cleanup_redirects\<close> of execute_cmd.c). The descriptor table maps a number to an
  open file and its close-on-exec flag; the system calls are defined on it. Opening a file, creating
  a here-document, expanding a word, the sensor of the hooks and the variable of a \<open>{var}\<close>
  redirection are ports. Left out: POSIX mode, the buffers of the shell's own input and of stdio,
  and the bookkeeping of coprocesses and of the trace descriptor.
\<close>

section \<open>Descriptors\<close>

type_synonym 'o fd_table = "int \<rightharpoonup> 'o \<times> bool"

definition SHELL_FD_BASE :: int where "SHELL_FD_BASE = 10"
definition EBADF :: int where "EBADF = 9"
definition EINVAL :: int where "EINVAL = 22"
definition EMFILE :: int where "EMFILE = 24"
definition EEXIST :: int where "EEXIST = 17"

text \<open>The lowest number not in use; \<open>l\<close> is the limit on descriptors.\<close>

definition lowest_free :: "int \<Rightarrow> 'o fd_table \<Rightarrow> int \<Rightarrow> int option" where
  "lowest_free l fds from_fd = find (\<lambda>n. fds n = None) [from_fd..l - 1]"

definition f_dupfd :: "int \<Rightarrow> 'o fd_table \<Rightarrow> int \<Rightarrow> int \<Rightarrow> int + int \<times> 'o fd_table" where
  "f_dupfd l fds fd from_fd =
     (case fds fd of
        None \<Rightarrow> Inl EBADF
      | Some (file, _) \<Rightarrow>
          if l \<le> from_fd then Inl EINVAL
          else (case lowest_free l fds from_fd of
                  None \<Rightarrow> Inl EMFILE
                | Some n \<Rightarrow> Inr (n, fds(n \<mapsto> (file, False)))))"

definition dup2 :: "int \<Rightarrow> 'o fd_table \<Rightarrow> int \<Rightarrow> int \<Rightarrow> int + 'o fd_table" where
  "dup2 l fds old new =
     (case fds old of
        None \<Rightarrow> Inl EBADF
      | Some (file, c) \<Rightarrow>
          if new < 0 \<or> l \<le> new then Inl EBADF
          else if old = new then Inr fds
          else Inr (fds(new \<mapsto> (file, False))))"

definition f_setfd :: "'o fd_table \<Rightarrow> int \<Rightarrow> bool \<Rightarrow> 'o fd_table" where
  "f_setfd fds fd clexec = (case fds fd of None \<Rightarrow> fds | Some (file, _) \<Rightarrow> fds(fd \<mapsto> (file, clexec)))"

definition f_getfd :: "'o fd_table \<Rightarrow> int \<Rightarrow> bool option" where
  "f_getfd fds fd = map_option snd (fds fd)"

section \<open>State, ports and flags\<close>

record ('o, 'w) rstate =
  fds :: "'o fd_table"
  redirection_undo_list :: "redirect list"
  exec_redirection_undo_list :: "redirect list"
  rworld :: 'w

text \<open>A stat result is whether the file is regular and which file it is.\<close>

record ('o, 'w) redir_ports =
  fd_limit :: int
  varassign_redir_autoclose :: bool
  restricted_shell :: bool
  noclobber :: "'w \<Rightarrow> bool"
  redirection_expand :: "word_desc option \<Rightarrow> 'w \<Rightarrow> cstring option \<times> 'w"
  on_redirect :: "cstring \<Rightarrow> r_instruction \<Rightarrow> redirectee \<Rightarrow> 'w \<Rightarrow> bool \<times> 'w"
  redir_special_open :: "cstring \<Rightarrow> 'w \<Rightarrow> ((int + 'o) \<times> 'w) option"
  sys_stat :: "cstring \<Rightarrow> 'w \<Rightarrow> (bool \<times> nat) option"
  sys_fstat :: "'o \<Rightarrow> 'w \<Rightarrow> (bool \<times> nat) option"
  sys_open :: "cstring \<Rightarrow> int \<Rightarrow> 'w \<Rightarrow> (int + 'o) \<times> 'w"
  here_document_to_fd :: "word_desc option \<Rightarrow> r_instruction \<Rightarrow> 'w \<Rightarrow> 'o option \<times> 'w"
  redir_varassign :: "redirectee \<Rightarrow> int \<Rightarrow> 'w \<Rightarrow> int \<times> 'w"
  redir_varvalue :: "redirectee \<Rightarrow> 'w \<Rightarrow> int"

definition RX_ACTIVE :: "32 word" where "RX_ACTIVE = 0x01"
definition RX_UNDOABLE :: "32 word" where "RX_UNDOABLE = 0x02"
definition RX_CLEXEC :: "32 word" where "RX_CLEXEC = 0x04"
definition RX_INTERNAL :: "32 word" where "RX_INTERNAL = 0x0080"
definition RX_SAVCLEXEC :: "32 word" where "RX_SAVCLEXEC = 0x0200"
definition RX_SAVEFD :: "32 word" where "RX_SAVEFD = 0x0400"
definition RX_EXPANDED :: "32 word" where "RX_EXPANDED = 0x0800"

definition AMBIGUOUS_REDIRECT :: int where "AMBIGUOUS_REDIRECT = - 1"
definition NOCLOBBER_REDIRECT :: int where "NOCLOBBER_REDIRECT = - 2"
definition RESTRICTED_REDIRECT :: int where "RESTRICTED_REDIRECT = - 3"
definition HEREDOC_REDIRECT :: int where "HEREDOC_REDIRECT = - 4"

definition O_WRONLY :: int where "O_WRONLY = 0x1"
definition O_RDWR :: int where "O_RDWR = 0x2"
definition O_CREAT :: int where "O_CREAT = 0x40"
definition O_EXCL :: int where "O_EXCL = 0x80"
definition O_TRUNC :: int where "O_TRUNC = 0x200"
definition O_APPEND :: int where "O_APPEND = 0x400"

unbundle bit_operations_syntax

text \<open>The open flags of a redirection, from \<open>make_redirection\<close>.\<close>

definition redirect_oflags :: "r_instruction \<Rightarrow> int" where
  "redirect_oflags ri =
     (if ri \<in> {r_output_direction, r_output_force, r_err_and_out} then O_TRUNC OR O_WRONLY OR O_CREAT
      else if ri \<in> {r_appending_to, r_append_err_and_out} then O_APPEND OR O_WRONLY OR O_CREAT
      else if ri = r_input_output then O_RDWR OR O_CREAT
      else 0)"

text \<open>The descriptor that the digits of a word name; out of range it is - 1.\<close>

definition word_fd :: "cstring \<Rightarrow> int option" where
  "word_fd w = (case valid_number w of Some n \<Rightarrow> if - (2 ^ 31) \<le> n \<and> n < 2 ^ 31 then Some n else None | None \<Rightarrow> None)"

text \<open>\<open>make_redirection\<close>; a word that ends in a dash asks to move the descriptor.\<close>

definition make_redirection :: "redirectee \<Rightarrow> r_instruction \<Rightarrow> redirectee \<Rightarrow> 32 word \<Rightarrow> redirect" where
  "make_redirection source ri dest rflags =
     (let r = \<lparr>rd_redirector = source, rd_rflags = rflags, rd_flags = redirect_oflags ri, rd_instruction = ri,
               rd_redirectee = dest, rd_here_doc_eof = None\<rparr>
      in case (ri \<in> {r_duplicating_input_word, r_duplicating_output_word}, dest) of
           (True, Filename (Some d)) \<Rightarrow>
             (case w_word d of
                None \<Rightarrow> r
              | Some w \<Rightarrow>
                  if w \<noteq> [] \<and> List.last w = CHR ''-'' then
                    let w' = butlast w; input = (ri = r_duplicating_input_word)
                    in if all_digits w' \<and> word_fd w' \<noteq> None
                       then r\<lparr>rd_instruction := (if input then r_move_input else r_move_output), rd_redirectee := Dest (the (word_fd w'))\<rparr>
                       else r\<lparr>rd_instruction := (if input then r_move_input_word else r_move_output_word),
                              rd_redirectee := Filename (Some (d\<lparr>w_word := Some w'\<rparr>))\<rparr>
                  else r)
         | _ \<Rightarrow> r)"

text \<open>The descriptor number in the union; a name has none.\<close>

fun redirectee_dest :: "redirectee \<Rightarrow> int" where
  "redirectee_dest (Dest n) = n"
| "redirectee_dest (Filename w) = - 1"

fun redirectee_word :: "redirectee \<Rightarrow> word_desc option" where
  "redirectee_word (Filename w) = w"
| "redirectee_word (Dest n) = None"

section \<open>The undo lists\<close>

text \<open>\<open>add_undo_close_redirect\<close>\<close>

definition closer_of :: "int \<Rightarrow> redirect" where
  "closer_of fd = make_redirection (Dest fd) r_close_this (Dest 0) RX_INTERNAL"

definition add_undo_close_redirect :: "int \<Rightarrow> ('o, 'w) rstate \<Rightarrow> ('o, 'w) rstate" where
  "add_undo_close_redirect fd s = s\<lparr>redirection_undo_list := closer_of fd # redirection_undo_list s\<rparr>"

definition add_exec_redirect :: "redirect \<Rightarrow> ('o, 'w) rstate \<Rightarrow> ('o, 'w) rstate" where
  "add_exec_redirect r s = s\<lparr>exec_redirection_undo_list := r # exec_redirection_undo_list s\<rparr>"

text \<open>Where \<open>add_undo_redirect\<close> saves a descriptor: the new number, the table and \<open>savefd_flag\<close>.\<close>

definition save_descriptor :: "int \<Rightarrow> 'o fd_table \<Rightarrow> int \<Rightarrow> int \<Rightarrow> int + int \<times> 'o fd_table \<times> bool" where
  "save_descriptor l t fd fdbase =
     (case f_dupfd l t fd (if fdbase < SHELL_FD_BASE then SHELL_FD_BASE else fdbase + 1) of
        Inr (n, t') \<Rightarrow> Inr (n, t', False)
      | Inl _ \<Rightarrow>
          (case f_dupfd l t fd SHELL_FD_BASE of
             Inr (n, t') \<Rightarrow> Inr (n, t', False)
           | Inl _ \<Rightarrow>
               (case f_dupfd l t fd 0 of
                  Inr (n, t') \<Rightarrow> Inr (n, t', True)
                | Inl e \<Rightarrow> Inl e)))"

definition undo_flags :: "int \<Rightarrow> bool \<Rightarrow> int \<Rightarrow> bool \<Rightarrow> 32 word" where
  "undo_flags fd clexec_flag new_fd savefd_flag =
     RX_INTERNAL OR (if savefd_flag then RX_SAVEFD else 0) OR
     (if \<not> clexec_flag \<and> 3 \<le> fd \<and> (SHELL_FD_BASE \<le> new_fd \<or> savefd_flag) then RX_SAVCLEXEC else 0)"

definition restorer_of :: "int \<Rightarrow> bool \<Rightarrow> int \<Rightarrow> bool \<Rightarrow> redirect" where
  "restorer_of fd clexec_flag new_fd savefd_flag =
     make_redirection (Dest fd) (if fd = 0 then r_duplicating_input else r_duplicating_output) (Dest new_fd)
       (undo_flags fd clexec_flag new_fd savefd_flag)"

definition add_undo_redirect :: "int \<Rightarrow> int \<Rightarrow> r_instruction \<Rightarrow> int \<Rightarrow> ('o, 'w) rstate \<Rightarrow> int option \<times> ('o, 'w) rstate" where
  "add_undo_redirect l fd ri fdbase s =
     (case save_descriptor l (fds s) fd fdbase of
        Inl e \<Rightarrow> (Some e, s)
      | Inr (new_fd, t, savefd_flag) \<Rightarrow>
          let clexec_flag = (f_getfd t fd = Some True);
              s1 = s\<lparr>fds := t,
                     redirection_undo_list := restorer_of fd clexec_flag new_fd savefd_flag # closer_of new_fd # redirection_undo_list s\<rparr>;
              s2 = add_exec_redirect (closer_of new_fd) s1;
              s3 = (if SHELL_FD_BASE \<le> fd \<and> ri \<noteq> r_close_this \<and> clexec_flag
                    then add_exec_redirect (make_redirection (Dest fd) r_duplicating_output (Dest new_fd) RX_INTERNAL) s2 else s2)
          in (None, s3\<lparr>fds := (if clexec_flag \<or> fd < 3 \<or> has_flag (undo_flags fd clexec_flag new_fd savefd_flag) RX_SAVCLEXEC
                               then f_setfd (fds s3) new_fd True else fds s3)\<rparr>))"

section \<open>Opening files\<close>

text \<open>\<open>noclobber_open\<close>: Inl is an error of the kind that the caller reports.\<close>

definition noclobber_open :: "('o, 'w) redir_ports \<Rightarrow> cstring \<Rightarrow> int \<Rightarrow> 'w \<Rightarrow> (int + 'o) \<times> 'w" where
  "noclobber_open pt filename flags w =
     (case sys_stat pt filename w of
        Some (True, _) \<Rightarrow> (Inl NOCLOBBER_REDIRECT, w)
      | None \<Rightarrow>
          (case sys_open pt filename ((flags AND NOT O_TRUNC) OR O_EXCL) w of
             (Inl e, w') \<Rightarrow> (Inl (if e = EEXIST then NOCLOBBER_REDIRECT else e), w')
           | out \<Rightarrow> out)
      | Some (False, ino) \<Rightarrow>
          (case sys_open pt filename (flags AND NOT O_TRUNC) w of
             (Inl e, w') \<Rightarrow> (Inl (if e = EEXIST then NOCLOBBER_REDIRECT else e), w')
           | (Inr file, w') \<Rightarrow>
               (case sys_fstat pt file w' of
                  Some (False, ino') \<Rightarrow> if ino' = ino then (Inr file, w') else (Inl NOCLOBBER_REDIRECT, w')
                | _ \<Rightarrow> (Inl NOCLOBBER_REDIRECT, w'))))"

definition redir_open :: "('o, 'w) redir_ports \<Rightarrow> cstring \<Rightarrow> int \<Rightarrow> r_instruction \<Rightarrow> 'w \<Rightarrow> (int + 'o) \<times> 'w" where
  "redir_open pt filename flags ri w =
     (case redir_special_open pt filename w of
        Some out \<Rightarrow> out
      | None \<Rightarrow>
          if noclobber pt w \<and> CLOBBERING_REDIRECT ri then noclobber_open pt filename flags w
          else sys_open pt filename flags w)"

text \<open>The descriptor of the file, or the error.\<close>

definition open_fd :: "('o, 'w) redir_ports \<Rightarrow> (int + 'o) \<times> 'w \<Rightarrow> ('o, 'w) rstate \<Rightarrow> (int + int) \<times> ('o, 'w) rstate" where
  "open_fd pt opened s =
     (case opened of
        (Inl e, w) \<Rightarrow> (Inl e, s\<lparr>rworld := w\<rparr>)
      | (Inr file, w) \<Rightarrow>
          (case lowest_free (fd_limit pt) (fds s) 0 of
             None \<Rightarrow> (Inl EMFILE, s\<lparr>rworld := w\<rparr>)
           | Some n \<Rightarrow> (Inr n, s\<lparr>fds := (fds s)(n \<mapsto> (file, False)), rworld := w\<rparr>)))"

definition close_fd :: "int \<Rightarrow> ('o, 'w) rstate \<Rightarrow> ('o, 'w) rstate" where
  "close_fd fd s = s\<lparr>fds := (fds s)(fd := None)\<rparr>"

section \<open>One redirection\<close>

text \<open>The translation of \<open>>&word\<close>, \<open><&word\<close> and their moving forms: the redirection to make instead,
  or an error.\<close>

definition translate_redirect :: "('o, 'w) redir_ports \<Rightarrow> redirect \<Rightarrow> 'w \<Rightarrow> (int + redirect) \<times> 'w" where
  "translate_redirect pt r w =
     (let ri = rd_instruction r; source = rd_redirector r; rflags = rd_rflags r
      in case redirection_expand pt (redirectee_word (rd_redirectee r)) w of
           (None, w') \<Rightarrow>
             if ri = r_move_input_word \<or> ri = r_move_output_word
             then (Inr (make_redirection source r_close_this (Dest 0) rflags), w')
             else (Inl AMBIGUOUS_REDIRECT, w')
         | (Some word, w') \<Rightarrow>
             if word = ''-'' then (Inr (make_redirection source r_close_this (Dest 0) rflags), w')
             else if all_digits word then
               (let dest = Dest (case word_fd word of Some n \<Rightarrow> n | None \<Rightarrow> - 1);
                    ri' = (if ri = r_duplicating_input_word then r_duplicating_input
                           else if ri = r_duplicating_output_word then r_duplicating_output
                           else if ri = r_move_input_word then r_move_input
                           else r_move_output)
                in (Inr (make_redirection source ri' dest rflags), w'))
             else if ri = r_duplicating_output_word \<and> \<not> has_flag rflags REDIR_VARASSIGN \<and> source = Dest 1 then
               (Inr ((make_redirection source r_err_and_out (Filename (Some (make_bare_word word))) rflags)
                      \<lparr>rd_rflags := rflags OR RX_EXPANDED\<rparr>), w')
             else (Inl AMBIGUOUS_REDIRECT, w'))"

text \<open>\<open>{var}\<close>: the descriptor that the variable is to name.\<close>

definition fresh_redirector :: "int \<Rightarrow> int \<Rightarrow> ('o, 'w) rstate \<Rightarrow> (int + int) \<times> ('o, 'w) rstate" where
  "fresh_redirector l fd s =
     (case f_dupfd l (fds s) fd SHELL_FD_BASE of
        Inl e \<Rightarrow> (Inl e, s)
      | Inr (n, t) \<Rightarrow> (Inr n, s\<lparr>fds := t\<rparr>))"

text \<open>How the redirection of \<open>redirector\<close> will be undone; \<open>same\<close> when the file was opened there.\<close>

definition remember_redirector ::
  "('o, 'w) redir_ports \<Rightarrow> bool \<Rightarrow> bool \<Rightarrow> int \<Rightarrow> r_instruction \<Rightarrow> int \<Rightarrow> ('o, 'w) rstate \<Rightarrow> int option \<times> ('o, 'w) rstate" where
  "remember_redirector pt varassign same redirector ri fdbase s =
     (if \<not> same \<and> varassign \<and> varassign_redir_autoclose pt then (None, add_undo_close_redirect redirector s)
      else if \<not> same \<and> f_getfd (fds s) redirector \<noteq> None then add_undo_redirect (fd_limit pt) redirector ri fdbase s
      else (None, add_undo_close_redirect redirector s))"

definition undo_wanted :: "('o, 'w) redir_ports \<Rightarrow> 32 word \<Rightarrow> bool \<Rightarrow> bool" where
  "undo_wanted pt flags varassign \<longleftrightarrow> has_flag flags RX_UNDOABLE \<and> (\<not> varassign \<or> varassign_redir_autoclose pt)"

definition fail_closing :: "int \<Rightarrow> int \<Rightarrow> ('o, 'w) rstate \<Rightarrow> int \<times> ('o, 'w) rstate" where
  "fail_closing e fd s = (if e = 0 then EINVAL else e, if 0 \<le> fd then close_fd fd s else s)"

text \<open>The descriptor that a redirection changes, once its file is open on \<open>fd\<close>.\<close>

definition redirector_for :: "('o, 'w) redir_ports \<Rightarrow> redirect \<Rightarrow> int \<Rightarrow> ('o, 'w) rstate \<Rightarrow> (int + int) \<times> ('o, 'w) rstate" where
  "redirector_for pt r fd s =
     (if has_flag (rd_rflags r) REDIR_VARASSIGN then fresh_redirector (fd_limit pt) fd s
      else (Inr (redirectee_dest (rd_redirector r)), s))"

definition close_opened :: "int \<Rightarrow> int \<Rightarrow> ('o, 'w) rstate \<Rightarrow> ('o, 'w) rstate" where
  "close_opened fd redirector s = (if fd \<noteq> redirector then close_fd fd s else s)"

text \<open>The file or here-document open on \<open>fd\<close> becomes the redirector's.\<close>

definition put_in_place ::
  "('o, 'w) redir_ports \<Rightarrow> 32 word \<Rightarrow> redirect \<Rightarrow> r_instruction \<Rightarrow> int \<Rightarrow> ('o, 'w) rstate \<Rightarrow> int \<times> ('o, 'w) rstate" where
  "put_in_place pt flags r ri fd s =
     (let varassign = has_flag (rd_rflags r) REDIR_VARASSIGN
      in case redirector_for pt r fd s of
           (Inl e, s1) \<Rightarrow> fail_closing e fd s1
         | (Inr redirector, s1) \<Rightarrow>
             (case (if undo_wanted pt flags varassign
                    then remember_redirector pt varassign (fd = redirector) redirector ri (- 1) s1 else (None, s1)) of
                (Some e, s2) \<Rightarrow> fail_closing e fd s2
              | (None, s2) \<Rightarrow>
                  let clexec = (\<lambda>s. if has_flag flags RX_CLEXEC \<and> 2 < redirector then s\<lparr>fds := f_setfd (fds s) redirector True\<rparr> else s)
                  in if varassign then
                       (case redir_varassign pt (rd_redirector r) redirector (rworld s2) of
                          (x, w) \<Rightarrow>
                            if x < 0 then (x, close_fd fd (close_fd redirector (s2\<lparr>rworld := w\<rparr>)))
                            else (0, close_opened fd redirector (clexec (s2\<lparr>rworld := w\<rparr>))))
                     else if fd \<noteq> redirector then
                       (case dup2 (fd_limit pt) (fds s2) fd redirector of
                          Inl e \<Rightarrow> (e, close_fd fd s2)
                        | Inr t \<Rightarrow> (0, close_opened fd redirector (clexec (s2\<lparr>fds := t\<rparr>))))
                     else (0, clexec s2)))"

text \<open>\<open>&>\<close> and \<open>&>>\<close>: standard error follows standard output.\<close>

definition stderr_too :: "('o, 'w) redir_ports \<Rightarrow> 32 word \<Rightarrow> r_instruction \<Rightarrow> ('o, 'w) rstate \<Rightarrow> int \<times> ('o, 'w) rstate" where
  "stderr_too pt flags ri s =
     (if (ri = r_err_and_out \<or> ri = r_append_err_and_out) \<and> has_flag flags RX_ACTIVE then
        (let s1 = (if has_flag flags RX_UNDOABLE then snd (add_undo_redirect (fd_limit pt) 2 ri (- 1) s) else s)
         in case dup2 (fd_limit pt) (fds s1) 1 2 of
              Inl e \<Rightarrow> (e, s1)
            | Inr t \<Rightarrow> (0, s1\<lparr>fds := t\<rparr>))
      else (0, s))"

definition redirect_file ::
  "('o, 'w) redir_ports \<Rightarrow> 32 word \<Rightarrow> redirect \<Rightarrow> r_instruction \<Rightarrow> ('o, 'w) rstate \<Rightarrow> int \<times> ('o, 'w) rstate" where
  "redirect_file pt flags r ri s =
     (case (if has_flag (rd_rflags r) RX_EXPANDED then (word_text (redirectee_word (rd_redirectee r)), rworld s)
            else redirection_expand pt (redirectee_word (rd_redirectee r)) (rworld s)) of
        (None, w) \<Rightarrow> (AMBIGUOUS_REDIRECT, s\<lparr>rworld := w\<rparr>)
      | (Some path, w) \<Rightarrow>
          if restricted_shell pt \<and> WRITE_REDIRECT ri then (RESTRICTED_REDIRECT, s\<lparr>rworld := w\<rparr>)
          else (case on_redirect pt path ri (rd_redirector r) w of
                  (True, w') \<Rightarrow> (RASH_DENIED_REDIRECT, s\<lparr>rworld := w'\<rparr>)
                | (False, w') \<Rightarrow>
                    (case open_fd pt (redir_open pt path (rd_flags r) ri w') s of
                       (Inl e, s1) \<Rightarrow> (e, s1)
                     | (Inr fd, s1) \<Rightarrow>
                         (case (if has_flag flags RX_ACTIVE then put_in_place pt flags r ri fd s1
                                else (0, close_opened fd (redirectee_dest (rd_redirector r)) s1)) of
                            (e, s2) \<Rightarrow>
                              if e \<noteq> 0 then (e, s2) else stderr_too pt flags ri s2))))"

definition redirect_heredoc ::
  "('o, 'w) redir_ports \<Rightarrow> 32 word \<Rightarrow> redirect \<Rightarrow> r_instruction \<Rightarrow> ('o, 'w) rstate \<Rightarrow> int \<times> ('o, 'w) rstate" where
  "redirect_heredoc pt flags r ri s =
     (case redirectee_word (rd_redirectee r) of
        None \<Rightarrow> (0, s)
      | Some d \<Rightarrow>
          (case here_document_to_fd pt (Some d) ri (rworld s) of
             (None, w) \<Rightarrow> (HEREDOC_REDIRECT, s\<lparr>rworld := w\<rparr>)
           | (Some file, w) \<Rightarrow>
               (case open_fd pt (Inr file, w) s of
                  (Inl e, s1) \<Rightarrow> (HEREDOC_REDIRECT, s1)
                | (Inr fd, s1) \<Rightarrow>
                    if has_flag flags RX_ACTIVE then put_in_place pt flags r ri fd s1
                    else (case redirector_for pt r fd s1 of
                            (Inl e, s2) \<Rightarrow> fail_closing e fd s2
                          | (Inr redirector, s2) \<Rightarrow> (0, close_opened fd redirector s2)))))"

text \<open>After the descriptor was duplicated: its close-on-exec flag, and the descriptor that was moved is
  closed.\<close>

definition settle_dup :: "32 word \<Rightarrow> redirect \<Rightarrow> r_instruction \<Rightarrow> int \<Rightarrow> int \<Rightarrow> ('o, 'w) rstate \<Rightarrow> ('o, 'w) rstate" where
  "settle_dup flags r ri redir_fd redirector s =
     (let s1 = (if (f_getfd (fds s) redir_fd = Some True \<or> (redir_fd < 2 \<and> has_flag (rd_rflags r) RX_INTERNAL)
                    \<or> has_flag flags RX_CLEXEC) \<and> 2 < redirector
                then s\<lparr>fds := f_setfd (fds s) redirector True\<rparr> else s);
          s2 = (if has_flag (rd_rflags r) RX_INTERNAL \<and> has_flag (rd_rflags r) RX_SAVCLEXEC \<and> 3 \<le> redirector
                    \<and> (SHELL_FD_BASE \<le> redir_fd \<or> has_flag (rd_rflags r) RX_SAVEFD)
                then s1\<lparr>fds := f_setfd (fds s1) redirector False\<rparr> else s1)
      in if ri = r_move_input \<or> ri = r_move_output then close_fd redir_fd s2 else s2)"

definition redirect_dup ::
  "('o, 'w) redir_ports \<Rightarrow> 32 word \<Rightarrow> redirect \<Rightarrow> r_instruction \<Rightarrow> ('o, 'w) rstate \<Rightarrow> int \<times> ('o, 'w) rstate" where
  "redirect_dup pt flags r ri s =
     (let varassign = has_flag (rd_rflags r) REDIR_VARASSIGN;
          redir_fd = redirectee_dest (rd_redirectee r);
          moves = (ri = r_move_input \<or> ri = r_move_output)
      in if \<not> has_flag flags RX_ACTIVE then (0, s)
         else case redirector_for pt r redir_fd s of
           (Inl e, s1) \<Rightarrow> fail_closing e (- 1) s1
         | (Inr redirector, s1) \<Rightarrow>
             if redir_fd = redirector then (0, s1)
             else (case (if undo_wanted pt flags varassign
                         then remember_redirector pt varassign False redirector ri redir_fd s1 else (None, s1)) of
                (Some e, s2) \<Rightarrow> fail_closing e (- 1) s2
              | (None, s2) \<Rightarrow>
                  (case (if has_flag flags RX_UNDOABLE \<and> moves \<and> f_getfd (fds s2) redirector \<noteq> None
                         then add_undo_redirect (fd_limit pt) redir_fd r_close_this (- 1) s2 else (None, s2)) of
                     (Some e, s3) \<Rightarrow> fail_closing e (- 1) s3
                   | (None, s3) \<Rightarrow>
                       if varassign then
                            (case redir_varassign pt (rd_redirector r) redirector (rworld s3) of
                               (x, w) \<Rightarrow>
                                 if x < 0 then (x, close_fd redirector (s3\<lparr>rworld := w\<rparr>))
                                 else (0, settle_dup flags r ri redir_fd redirector (s3\<lparr>rworld := w\<rparr>)))
                          else (case dup2 (fd_limit pt) (fds s3) redir_fd redirector of
                                  Inl e \<Rightarrow> (e, s3)
                                | Inr t \<Rightarrow> (0, settle_dup flags r ri redir_fd redirector (s3\<lparr>fds := t\<rparr>))))))"

definition redirect_close ::
  "('o, 'w) redir_ports \<Rightarrow> 32 word \<Rightarrow> redirect \<Rightarrow> r_instruction \<Rightarrow> ('o, 'w) rstate \<Rightarrow> int \<times> ('o, 'w) rstate" where
  "redirect_close pt flags r ri s =
     (let redirector = (if has_flag (rd_rflags r) REDIR_VARASSIGN then redir_varvalue pt (rd_redirector r) (rworld s)
                        else redirectee_dest (rd_redirector r))
      in if \<not> has_flag flags RX_ACTIVE then (0, s)
         else if has_flag (rd_rflags r) REDIR_VARASSIGN \<and> redirector < 0 then (AMBIGUOUS_REDIRECT, s)
         else (case (if has_flag flags RX_UNDOABLE then
                       (if f_getfd (fds s) redirector \<noteq> None then add_undo_redirect (fd_limit pt) redirector ri (- 1) s
                        else (None, add_undo_close_redirect redirector s))
                     else (None, s)) of
                 (Some e, s1) \<Rightarrow> fail_closing e redirector s1
               | (None, s1) \<Rightarrow> (0, close_fd redirector s1)))"

text \<open>\<open>do_redirection_internal\<close>: 0 or the error.\<close>

definition redirect_as ::
  "('o, 'w) redir_ports \<Rightarrow> 32 word \<Rightarrow> redirect \<Rightarrow> ('o, 'w) rstate \<Rightarrow> int \<times> ('o, 'w) rstate" where
  "redirect_as pt flags r s =
     (let ri = rd_instruction r
      in if ri \<in> {r_output_direction, r_appending_to, r_input_direction, r_inputa_direction, r_err_and_out,
                  r_append_err_and_out, r_input_output, r_output_force} then redirect_file pt flags r ri s
         else if ri \<in> {r_reading_until, r_deblank_reading_until, r_reading_string} then redirect_heredoc pt flags r ri s
         else if ri \<in> {r_duplicating_input, r_duplicating_output, r_move_input, r_move_output} then redirect_dup pt flags r ri s
         else if ri = r_close_this then redirect_close pt flags r ri s
         else (0, s))"

definition do_redirection_internal ::
  "('o, 'w) redir_ports \<Rightarrow> 32 word \<Rightarrow> redirect \<Rightarrow> ('o, 'w) rstate \<Rightarrow> int \<times> ('o, 'w) rstate" where
  "do_redirection_internal pt flags r s =
     (if TRANSLATE_REDIRECT (rd_instruction r) then
        (case translate_redirect pt r (rworld s) of
           (Inl e, w) \<Rightarrow> (e, s\<lparr>rworld := w\<rparr>)
         | (Inr r', w) \<Rightarrow> redirect_as pt flags r' (s\<lparr>rworld := w\<rparr>))
      else redirect_as pt flags r s)"

section \<open>Lists of redirections\<close>

primrec redirect_each ::
  "('o, 'w) redir_ports \<Rightarrow> 32 word \<Rightarrow> redirect list \<Rightarrow> ('o, 'w) rstate \<Rightarrow> int \<times> ('o, 'w) rstate" where
  "redirect_each pt flags [] s = (0, s)"
| "redirect_each pt flags (r # rs) s =
     (case do_redirection_internal pt flags r s of
        (e, s') \<Rightarrow> if e \<noteq> 0 then (e, s') else redirect_each pt flags rs s')"

definition do_redirections ::
  "('o, 'w) redir_ports \<Rightarrow> redirect list \<Rightarrow> 32 word \<Rightarrow> ('o, 'w) rstate \<Rightarrow> int \<times> ('o, 'w) rstate" where
  "do_redirections pt rs flags s =
     redirect_each pt flags rs
       (if has_flag flags RX_UNDOABLE then s\<lparr>redirection_undo_list := [], exec_redirection_undo_list := []\<rparr> else s)"

definition cleanup_redirects :: "('o, 'w) redir_ports \<Rightarrow> redirect list \<Rightarrow> ('o, 'w) rstate \<Rightarrow> ('o, 'w) rstate" where
  "cleanup_redirects pt rs s = snd (do_redirections pt rs RX_ACTIVE s)"

definition undo_partial_redirects :: "('o, 'w) redir_ports \<Rightarrow> ('o, 'w) rstate \<Rightarrow> ('o, 'w) rstate" where
  "undo_partial_redirects pt s =
     (if redirection_undo_list s \<noteq> [] then (cleanup_redirects pt (redirection_undo_list s) s)\<lparr>redirection_undo_list := []\<rparr> else s)"

end
