(* ===== verification/Redir_Undo.thy ===== *)
theory Redir_Undo
  imports Redir
begin

text \<open>
  Undoing redirections (redir.c, \<open>cleanup_redirects\<close> of execute_cmd.c): whatever the redirections of a
  command did to the descriptor table, and whatever the command did to it afterwards, running the
  undo list puts back every descriptor that the redirections changed. Two kinds of redirection are
  excepted, because the code forgets one of the descriptors they change: moving a descriptor to one
  that is closed, and \<open>&>\<close> while descriptor 2 is closed.
\<close>

section \<open>Descriptor tables with room\<close>

text \<open>Within the limit, descriptors 0 to 2 stay open across exec, and at least \<open>k\<close> descriptors for
  saving others are free.\<close>

definition used :: "int \<Rightarrow> 'o fd_table \<Rightarrow> int set" where
  "used l t = {n \<in> {SHELL_FD_BASE..<l}. t n \<noteq> None}"

definition table_ok :: "int \<Rightarrow> nat \<Rightarrow> 'o fd_table \<Rightarrow> bool" where
  "table_ok l k t \<longleftrightarrow>
     (\<forall>n. t n \<noteq> None \<longrightarrow> 0 \<le> n \<and> n < l) \<and> (\<forall>n ob. n < 3 \<longrightarrow> t n \<noteq> Some (ob, True)) \<and>
     int (card (used l t)) + int k \<le> l - SHELL_FD_BASE"

lemma finite_used [simp]: "finite (used l t)"
  unfolding used_def by (rule finite_subset [of _ "{SHELL_FD_BASE..<l}"]) auto

lemma used_update: "card (used l (t(n \<mapsto> x))) \<le> Suc (card (used l t))"
proof -
  have "used l (t(n \<mapsto> x)) \<subseteq> insert n (used l t)" by (auto simp: used_def)
  then have "card (used l (t(n \<mapsto> x))) \<le> card (insert n (used l t))" by (intro card_mono) auto
  also have "\<dots> \<le> Suc (card (used l t))" by (simp add: card_insert_if)
  finally show ?thesis .
qed

lemma table_ok_update:
  "table_ok l (Suc k) t \<Longrightarrow> 0 \<le> n \<Longrightarrow> n < l \<Longrightarrow> (c \<Longrightarrow> 3 \<le> n) \<Longrightarrow> table_ok l k (t(n \<mapsto> (ob, c)))"
  using used_update [of l t n "(ob, c)"] by (auto simp: table_ok_def)

lemma table_ok_overwrite:
  assumes "table_ok l k t" and "t n \<noteq> None" and "c \<Longrightarrow> 3 \<le> n"
  shows "table_ok l k (t(n \<mapsto> (ob, c)))"
proof -
  have "used l (t(n \<mapsto> (ob, c))) = used l t" using assms(2) by (auto simp: used_def)
  with assms show ?thesis by (auto simp: table_ok_def)
qed

lemma table_ok_close: "table_ok l k t \<Longrightarrow> table_ok l k (t(n := None))"
proof -
  assume ok: "table_ok l k t"
  have "card (used l (t(n := None))) \<le> card (used l t)" by (rule card_mono [OF finite_used]) (auto simp: used_def)
  with ok show ?thesis by (auto simp: table_ok_def)
qed

lemma table_ok_less: "table_ok l k t \<Longrightarrow> j \<le> k \<Longrightarrow> table_ok l j t"
  by (auto simp: table_ok_def)

lemma table_ok_in_range: "table_ok l k t \<Longrightarrow> t n \<noteq> None \<Longrightarrow> 0 \<le> n \<and> n < l"
  by (auto simp: table_ok_def)

lemma table_ok_std: "table_ok l k t \<Longrightarrow> t n = Some (ob, True) \<Longrightarrow> 3 \<le> n"
  by (auto simp: table_ok_def) (meson not_less)

lemma lowest_free_Some: "lowest_free l t b = Some n \<Longrightarrow> t n = None \<and> b \<le> n \<and> n < l"
  by (auto simp: lowest_free_def find_Some_iff dest!: nth_mem)

lemma room_to_save:
  assumes "table_ok l (Suc k) t"
  obtains n where "lowest_free l t SHELL_FD_BASE = Some n"
proof (cases "lowest_free l t SHELL_FD_BASE")
  case None
  then have "used l t = {SHELL_FD_BASE..<l}"
    by (auto simp: lowest_free_def find_None_iff used_def)
  with assms have False by (auto simp: table_ok_def split: if_splits)
  then show ?thesis ..
qed (rule that)

lemma save_descriptor_open:
  assumes "table_ok l (Suc k) t" and "t fd = Some (ob, c)"
  obtains n where "save_descriptor l t fd fdbase = Inr (n, t(n \<mapsto> (ob, False)), False)"
    "t n = None" "SHELL_FD_BASE \<le> n" "n < l"
proof -
  let ?b = "if fdbase < SHELL_FD_BASE then SHELL_FD_BASE else fdbase + 1"
  obtain m where m: "lowest_free l t SHELL_FD_BASE = Some m" using room_to_save [OF assms(1)] .
  note mf = lowest_free_Some [OF m]
  have "f_dupfd l t fd SHELL_FD_BASE = Inr (m, t(m \<mapsto> (ob, False)))"
    using assms(2) m mf by (simp add: f_dupfd_def)
  moreover have "(\<exists>n. f_dupfd l t fd ?b = Inr (n, t(n \<mapsto> (ob, False))) \<and> t n = None \<and> SHELL_FD_BASE \<le> n \<and> n < l) \<or>
      (\<exists>e. f_dupfd l t fd ?b = Inl e)"
    using assms(2) by (auto simp: f_dupfd_def split: option.splits dest!: lowest_free_Some)
  ultimately show thesis using mf that by (auto simp: save_descriptor_def)
qed

lemma save_descriptor_closed: "t fd = None \<Longrightarrow> save_descriptor l t fd fdbase = Inl EBADF"
  by (simp add: save_descriptor_def f_dupfd_def)

section \<open>What one undo list restores\<close>

text \<open>Only what the loops below need of the flags of a saved redirection.\<close>

lemma undo_flags_bits [simp]:
  "has_flag (undo_flags fd c n sv) RX_INTERNAL" "\<not> has_flag (undo_flags fd c n sv) REDIR_VARASSIGN"
  "has_flag (undo_flags fd c n sv) RX_SAVCLEXEC \<longleftrightarrow> \<not> c \<and> 3 \<le> fd \<and> (SHELL_FD_BASE \<le> n \<or> sv)"
  by (auto simp: undo_flags_def has_flag_def RX_INTERNAL_def RX_SAVEFD_def RX_SAVCLEXEC_def REDIR_VARASSIGN_def)

lemma internal_bits [simp]:
  "\<not> has_flag RX_INTERNAL REDIR_VARASSIGN" "has_flag RX_ACTIVE RX_ACTIVE" "\<not> has_flag RX_ACTIVE RX_UNDOABLE"
  "\<not> has_flag RX_ACTIVE RX_CLEXEC"
  by (simp_all add: has_flag_def RX_INTERNAL_def REDIR_VARASSIGN_def RX_ACTIVE_def RX_UNDOABLE_def RX_CLEXEC_def)

lemma make_redirection_simple:
  "ri \<notin> {r_duplicating_input_word, r_duplicating_output_word} \<Longrightarrow> make_redirection source ri dest f =
     \<lparr>rd_redirector = source, rd_rflags = f, rd_flags = redirect_oflags ri, rd_instruction = ri, rd_redirectee = dest,
      rd_here_doc_eof = None\<rparr>"
  by (simp add: make_redirection_def Let_def)

lemma close_with_closer: "do_redirection_internal pt RX_ACTIVE (closer_of fd) s = (0, close_fd fd s)"
  by (simp add: do_redirection_internal_def closer_of_def make_redirection_simple TRANSLATE_REDIRECT_def redirect_as_def
      redirect_close_def Let_def)

lemma restore_with_restorer:
  assumes "fds s n = Some (ob, True)" and "n \<noteq> fd" and "0 \<le> fd" and "fd < fd_limit pt" and "SHELL_FD_BASE \<le> n"
  shows "do_redirection_internal pt RX_ACTIVE (restorer_of fd c n False) s =
    (0, s\<lparr>fds := (fds s)(fd \<mapsto> (ob, c \<and> 3 \<le> fd))\<rparr>)"
  using assms
  by (auto simp: do_redirection_internal_def restorer_of_def make_redirection_simple TRANSLATE_REDIRECT_def redirect_as_def
      redirect_dup_def settle_dup_def redirector_for_def undo_wanted_def Let_def dup2_def f_getfd_def f_setfd_def)

text \<open>The descriptors that an undo list restores from.\<close>

definition saved_fds :: "redirect list \<Rightarrow> int set" where
  "saved_fds rs = set (map (redirectee_dest \<circ> rd_redirectee)
     (filter (\<lambda>r. rd_instruction r \<in> {r_duplicating_input, r_duplicating_output}) rs))"

lemma saved_fds_simps [simp]:
  "saved_fds [] = {}" "saved_fds (us @ vs) = saved_fds us \<union> saved_fds vs" "saved_fds [closer_of fd] = {}"
  "saved_fds [restorer_of fd c n sv, closer_of n'] = {n}"
  by (auto simp: saved_fds_def closer_of_def restorer_of_def make_redirection_simple)

text \<open>The descriptors that an undo list names: the ones to be closed or restored, and the saved copies.\<close>

definition undone_fds :: "redirect list \<Rightarrow> int set" where
  "undone_fds rs = set (map (redirectee_dest \<circ> rd_redirector) rs)"

lemma undone_fds_simps [simp]:
  "undone_fds [] = {}" "undone_fds (us @ vs) = undone_fds us \<union> undone_fds vs" "undone_fds [closer_of fd] = {fd}"
  "undone_fds [restorer_of fd c n sv, closer_of n'] = {fd, n'}"
  by (auto simp: undone_fds_def closer_of_def restorer_of_def make_redirection_simple)

text \<open>Run from any table that still has what was saved, \<open>us\<close> puts back the descriptors of \<open>ts\<close>, which
  are all that changed from \<open>t\<close> to \<open>t1\<close>, and leaves the others.\<close>

definition restores :: "('o, 'w) redir_ports \<Rightarrow> redirect list \<Rightarrow> 'o fd_table \<Rightarrow> 'o fd_table \<Rightarrow> int set \<Rightarrow> bool" where
  "restores pt us t t1 ts \<longleftrightarrow>
     (\<forall>n. n \<notin> ts \<longrightarrow> t1 n = t n) \<and>
     (\<forall>s. (\<forall>n \<in> saved_fds us. fds s n = t1 n) \<longrightarrow>
        (\<exists>s'. redirect_each pt RX_ACTIVE us s = (0, s') \<and> (\<forall>n. fds s' n = (if n \<in> ts then t n else fds s n))))"

lemma redirect_each_append:
  "redirect_each pt flags (us @ vs) s =
     (case redirect_each pt flags us s of (e, s') \<Rightarrow> if e \<noteq> 0 then (e, s') else redirect_each pt flags vs s')"
  by (induction us arbitrary: s) (simp_all split: prod.split)

lemma restores_nothing: "restores pt [] t t {}"
  by (simp add: restores_def)

lemma restores_closed:
  assumes "t fd = None" and "\<And>n. n \<noteq> fd \<Longrightarrow> t1 n = t n"
  shows "restores pt [closer_of fd] t t1 {fd}"
  using assms by (auto simp: restores_def close_with_closer close_fd_def)

lemma restores_saved:
  fixes pt :: "('o, 'w) redir_ports"
  assumes ok: "table_ok (fd_limit pt) k t" and fd: "t fd = Some (ob, c)"
    and n: "t n = None" "SHELL_FD_BASE \<le> n"
    and t1: "t1 n = Some (ob, True)" "\<And>m. m \<noteq> fd \<Longrightarrow> m \<noteq> n \<Longrightarrow> t1 m = t m"
  shows "restores pt [restorer_of fd c n False, closer_of n] t t1 {fd, n}"
  unfolding restores_def
proof (intro conjI allI impI)
  show "m \<notin> {fd, n} \<Longrightarrow> t1 m = t m" for m using t1(2) by simp
  fix s :: "('o, 'w) rstate"
  assume "\<forall>m \<in> saved_fds [restorer_of fd c n False, closer_of n]. fds s m = t1 m"
  then have s: "fds s n = Some (ob, True)" using t1(1) by simp
  have "n \<noteq> fd" using fd n(1) by auto
  moreover have "0 \<le> fd" "fd < fd_limit pt" using table_ok_in_range [OF ok, of fd] fd by simp_all
  moreover have "c \<Longrightarrow> 3 \<le> fd" using table_ok_std [OF ok, where n = fd] fd by auto
  ultimately show "\<exists>s'. redirect_each pt RX_ACTIVE [restorer_of fd c n False, closer_of n] s = (0, s') \<and>
      (\<forall>m. fds s' m = (if m \<in> {fd, n} then t m else fds s m))"
    using restore_with_restorer [OF s, of fd pt c] fd n
    by (auto simp: close_with_closer close_fd_def)
qed

lemma restores_append:
  fixes pt :: "('o, 'w) redir_ports"
  assumes "restores pt us t t1 ts" and "restores pt vs t1 t2 ts'"
  shows "restores pt (vs @ us) t t2 (ts \<union> ts')"
  unfolding restores_def
proof (intro conjI allI impI)
  show "n \<notin> ts \<union> ts' \<Longrightarrow> t2 n = t n" for n using assms by (simp add: restores_def)
  fix s :: "('o, 'w) rstate"
  assume s: "\<forall>n \<in> saved_fds (vs @ us). fds s n = t2 n"
  then obtain s1 where s1: "redirect_each pt RX_ACTIVE vs s = (0, s1)" "\<And>n. fds s1 n = (if n \<in> ts' then t1 n else fds s n)"
    using assms(2) unfolding restores_def by (metis UnCI saved_fds_simps(2))
  have "\<forall>n \<in> saved_fds us. fds s1 n = t1 n"
    using s assms(2) s1(2) by (auto simp: restores_def)
  then obtain s2 where "redirect_each pt RX_ACTIVE us s1 = (0, s2)" "\<And>n. fds s2 n = (if n \<in> ts then t n else fds s1 n)"
    using assms(1) unfolding restores_def by metis
  moreover have "n \<notin> ts \<Longrightarrow> t1 n = t n" for n using assms(1) by (simp add: restores_def)
  ultimately show "\<exists>s'. redirect_each pt RX_ACTIVE (vs @ us) s = (0, s') \<and> (\<forall>n. fds s' n = (if n \<in> ts \<union> ts' then t n else fds s n))"
    using s1 by (auto simp: redirect_each_append)
qed

section \<open>One redirection\<close>

definition undone :: "('o, 'w) redir_ports \<Rightarrow> nat \<Rightarrow> ('o, 'w) rstate \<Rightarrow> ('o, 'w) rstate \<Rightarrow> bool" where
  "undone pt k s s1 \<longleftrightarrow>
     (\<exists>us. redirection_undo_list s1 = us @ redirection_undo_list s \<and> restores pt us (fds s) (fds s1) (undone_fds us)) \<and>
     table_ok (fd_limit pt) k (fds s1)"

lemma undone_same:
  "table_ok (fd_limit pt) k (fds s) \<Longrightarrow> fds s1 = fds s \<Longrightarrow> redirection_undo_list s1 = redirection_undo_list s \<Longrightarrow>
     undone pt k s s1"
  unfolding undone_def using restores_nothing [of pt "fds s"] by auto

lemma undone_trans: "undone pt k s s1 \<Longrightarrow> undone pt j s1 s2 \<Longrightarrow> undone pt j s s2"
proof -
  assume "undone pt k s s1" and s2: "undone pt j s1 s2"
  then obtain us vs where "redirection_undo_list s1 = us @ redirection_undo_list s"
    "restores pt us (fds s) (fds s1) (undone_fds us)" "redirection_undo_list s2 = vs @ redirection_undo_list s1"
    "restores pt vs (fds s1) (fds s2) (undone_fds vs)"
    by (auto simp: undone_def)
  then have "redirection_undo_list s2 = (vs @ us) @ redirection_undo_list s"
    "restores pt (vs @ us) (fds s) (fds s2) (undone_fds (vs @ us))"
    using restores_append [of pt us "fds s" "fds s1" "undone_fds us" vs "fds s2" "undone_fds vs"]
    by (simp_all add: Un_commute)
  with s2 show ?thesis unfolding undone_def by blast
qed

lemma undone_less: "undone pt k s s1 \<Longrightarrow> j \<le> k \<Longrightarrow> undone pt j s s1"
  unfolding undone_def using table_ok_less by blast

text \<open>Only the table and the list matter.\<close>

lemma undone_cong:
  "undone pt k s s1 \<Longrightarrow> fds s' = fds s \<Longrightarrow> redirection_undo_list s' = redirection_undo_list s \<Longrightarrow> fds s1' = fds s1 \<Longrightarrow>
     redirection_undo_list s1' = redirection_undo_list s1 \<Longrightarrow> undone pt k s' s1'"
  by (simp add: undone_def)

lemma add_exec_redirect_simps [simp]:
  "fds (add_exec_redirect r s) = fds s" "redirection_undo_list (add_exec_redirect r s) = redirection_undo_list s"
  "rworld (add_exec_redirect r s) = rworld s"
  by (simp_all add: add_exec_redirect_def)

lemma add_undo_open:
  assumes ok: "table_ok l (Suc k) (fds s)" and fd: "fds s fd = Some (ob, c)"
  obtains n s' where "add_undo_redirect l fd ri fdbase s = (None, s')" "fds s' = (fds s)(n \<mapsto> (ob, True))"
    "redirection_undo_list s' = restorer_of fd c n False # closer_of n # redirection_undo_list s"
    "rworld s' = rworld s" "fds s n = None" "SHELL_FD_BASE \<le> n" "n < l"
proof -
  obtain n where n: "save_descriptor l (fds s) fd fdbase = Inr (n, (fds s)(n \<mapsto> (ob, False)), False)"
    "fds s n = None" "SHELL_FD_BASE \<le> n" "n < l"
    using save_descriptor_open [OF ok fd] .
  have "n \<noteq> fd" using fd n(2) by auto
  with n fd have c: "f_getfd ((fds s)(n \<mapsto> (ob, False))) fd = Some True \<longleftrightarrow> c" by (simp add: f_getfd_def)
  have set: "c \<or> fd < 3 \<or> \<not> c \<and> 3 \<le> fd \<and> (SHELL_FD_BASE \<le> n \<or> False)" using n(3) by auto
  show thesis
  proof (rule that)
    show "add_undo_redirect l fd ri fdbase s = (None, snd (add_undo_redirect l fd ri fdbase s))"
      by (simp add: add_undo_redirect_def n(1) Let_def)
    show "fds (snd (add_undo_redirect l fd ri fdbase s)) = (fds s)(n \<mapsto> (ob, True))"
      using set by (simp add: add_undo_redirect_def n(1) Let_def c f_setfd_def)
  qed (use n in \<open>simp_all add: add_undo_redirect_def Let_def c\<close>)
qed

lemma add_undo_closed: "fds s fd = None \<Longrightarrow> add_undo_redirect l fd ri fdbase s = (Some EBADF, s)"
  by (simp add: add_undo_redirect_def save_descriptor_closed)

text \<open>A descriptor that was closed before and becomes \<open>x\<close>.\<close>

lemma undone_new:
  assumes ok: "table_ok (fd_limit pt) (Suc k) (fds s)" and fd: "fds s fd = None"
    and us: "redirection_undo_list s1 = closer_of fd # redirection_undo_list s"
    and t1: "fds s1 = fds s \<or> fds s1 = (fds s)(fd \<mapsto> (ob, c)) \<and> (c \<longrightarrow> 3 \<le> fd) \<and> 0 \<le> fd \<and> fd < fd_limit pt"
  shows "undone pt k s s1"
  unfolding undone_def
proof (intro conjI exI)
  show "redirection_undo_list s1 = [closer_of fd] @ redirection_undo_list s" using us by simp
  show "restores pt [closer_of fd] (fds s) (fds s1) (undone_fds [closer_of fd])"
    using t1 restores_closed [of "fds s" fd "fds s1" pt] fd by auto
  show "table_ok (fd_limit pt) k (fds s1)"
    using t1 table_ok_update [OF ok] table_ok_less [OF ok, of k] by auto
qed

text \<open>A descriptor that was open before, was saved in \<open>n\<close> and becomes \<open>x\<close>.\<close>

lemma undone_replaced:
  assumes ok: "table_ok (fd_limit pt) (Suc k) (fds s)" and fd: "fds s fd = Some (ob, c)"
    and n: "fds s n = None" "SHELL_FD_BASE \<le> n" "n < fd_limit pt"
    and us: "redirection_undo_list s1 = restorer_of fd c n False # closer_of n # redirection_undo_list s"
    and t1: "fds s1 = (fds s)(n \<mapsto> (ob, True), fd := x)" and x: "\<And>f c'. x = Some (f, c') \<Longrightarrow> c' \<Longrightarrow> 3 \<le> fd"
  shows "undone pt k s s1"
  unfolding undone_def
proof (intro conjI exI)
  show "redirection_undo_list s1 = [restorer_of fd c n False, closer_of n] @ redirection_undo_list s" using us by simp
  have "n \<noteq> fd" using fd n(1) by auto
  with t1 have "restores pt [restorer_of fd c n False, closer_of n] (fds s) (fds s1) {fd, n}"
    by (intro restores_saved [OF ok fd n(1,2)]) simp_all
  then show "restores pt [restorer_of fd c n False, closer_of n] (fds s) (fds s1)
      (undone_fds [restorer_of fd c n False, closer_of n])"
    by simp
  have "table_ok (fd_limit pt) k ((fds s)(n \<mapsto> (ob, True)))"
    using n by (intro table_ok_update [OF ok]) (simp_all add: SHELL_FD_BASE_def)
  moreover have "((fds s)(n \<mapsto> (ob, True))) fd \<noteq> None" using fd by (cases "fd = n") simp_all
  ultimately show "table_ok (fd_limit pt) k (fds s1)"
  proof (cases x)
    case None
    then show ?thesis unfolding t1 using table_ok_close [OF \<open>table_ok (fd_limit pt) k ((fds s)(n \<mapsto> (ob, True)))\<close>] by simp
  next
    case (Some fc)
    obtain f c' where fc: "fc = (f, c')" by (cases fc)
    from table_ok_overwrite [OF \<open>table_ok (fd_limit pt) k ((fds s)(n \<mapsto> (ob, True)))\<close>
        \<open>((fds s)(n \<mapsto> (ob, True))) fd \<noteq> None\<close>, of c' f] x Some fc
    show ?thesis unfolding t1 by blast
  qed
qed

text \<open>A file that was opened on \<open>fd\<close>, put in place: the three ways.\<close>

definition placed :: "32 word \<Rightarrow> int \<Rightarrow> ('o, 'w) rstate \<Rightarrow> ('o, 'w) rstate" where
  "placed flags d s = (if has_flag flags RX_CLEXEC \<and> 2 < d then s\<lparr>fds := f_setfd (fds s) d True\<rparr> else s)"

lemma placed_simps [simp]:
  "redirection_undo_list (placed flags d s) = redirection_undo_list s"
  "fds s d = Some (ob, False) \<Longrightarrow> fds (placed flags d s) = (fds s)(d \<mapsto> (ob, has_flag flags RX_CLEXEC \<and> 2 < d))"
  by (auto simp: placed_def f_setfd_def fun_eq_iff)

lemma put_in_place_cases:
  assumes "\<not> has_flag (rd_rflags r) REDIR_VARASSIGN" and "has_flag flags RX_UNDOABLE" and "redirectee_dest (rd_redirector r) = d"
  shows "fd = d \<Longrightarrow> put_in_place pt flags r ri fd s = (0, placed flags d (add_undo_close_redirect d s))"
    "fd \<noteq> d \<Longrightarrow> fds s d = None \<Longrightarrow> put_in_place pt flags r ri fd s =
       (case dup2 (fd_limit pt) (fds s) fd d of
          Inl e \<Rightarrow> (e, close_fd fd (add_undo_close_redirect d s))
        | Inr t \<Rightarrow> (0, close_fd fd (placed flags d ((add_undo_close_redirect d s)\<lparr>fds := t\<rparr>))))"
    "fd \<noteq> d \<Longrightarrow> fds s d \<noteq> None \<Longrightarrow> add_undo_redirect (fd_limit pt) d ri (- 1) s = (None, s2) \<Longrightarrow>
       put_in_place pt flags r ri fd s =
       (case dup2 (fd_limit pt) (fds s2) fd d of
          Inl e \<Rightarrow> (e, close_fd fd s2)
        | Inr t \<Rightarrow> (0, close_fd fd (placed flags d (s2\<lparr>fds := t\<rparr>))))"
  using assms
  by (simp_all add: put_in_place_def redirector_for_def undo_wanted_def remember_redirector_def Let_def placed_def
      close_opened_def f_getfd_def add_undo_close_redirect_def split: sum.split)

lemma put_in_place_undone:
  assumes ok: "table_ok (fd_limit pt) (Suc (Suc k)) (fds s)"
    and fd: "fds s fd = None" "0 \<le> fd" "fd < fd_limit pt"
    and s0: "fds s0 = (fds s)(fd \<mapsto> (ob, False))" "redirection_undo_list s0 = redirection_undo_list s"
    and r: "\<not> has_flag (rd_rflags r) REDIR_VARASSIGN" "has_flag flags RX_UNDOABLE"
    and run: "put_in_place pt flags r ri fd s0 = (e, s1)"
  shows "undone pt k s s1"
proof -
  define d where "d = redirectee_dest (rd_redirector r)"
  define cl where "cl \<longleftrightarrow> has_flag flags RX_CLEXEC \<and> 2 < d"
  have cl: "cl \<longrightarrow> 3 \<le> d" by (auto simp: cl_def)
  note place = put_in_place_cases [OF r d_def [symmetric]]
  have ok1: "table_ok (fd_limit pt) (Suc k) (fds s0)"
    unfolding s0 by (intro table_ok_update [OF ok]) (use fd in simp_all)
  have ok2: "table_ok (fd_limit pt) (Suc k) (fds s)" using table_ok_less [OF ok] by simp
  consider (same) "fd = d" | (closed) "fd \<noteq> d" "fds s d = None" | (opened) fl c where "fd \<noteq> d" "fds s d = Some (fl, c)"
    by (cases "fds s d") auto
  then show ?thesis
  proof cases
    case same
    have d: "fds (add_undo_close_redirect d s0) d = Some (ob, False)"
      using same s0 by (simp add: add_undo_close_redirect_def)
    have s1: "s1 = placed flags d (add_undo_close_redirect d s0)" using run place(1) [OF same, of pt ri s0] by simp
    have "fds s1 = (fds s)(d \<mapsto> (ob, cl))"
      unfolding s1 placed_simps(2) [OF d] using same s0 by (simp add: add_undo_close_redirect_def cl_def)
    moreover have "redirection_undo_list s1 = closer_of d # redirection_undo_list s"
      unfolding s1 using s0 by (simp add: add_undo_close_redirect_def)
    ultimately show ?thesis
      using fd same cl by (intro undone_new [OF ok2, where ob = ob and c = cl and fd = d]) blast+
  next
    case closed
    have d: "fds s0 d = None" using closed s0 by simp
    note run' = run [unfolded place(2) [OF closed(1) d]]
    have us: "redirection_undo_list s1 = closer_of d # redirection_undo_list s"
      using run' s0 by (auto simp: add_undo_close_redirect_def close_fd_def split: sum.splits)
    have "fds s1 = fds s \<or> fds s1 = (fds s)(d \<mapsto> (ob, cl)) \<and> 0 \<le> d \<and> d < fd_limit pt"
    proof (cases "dup2 (fd_limit pt) (fds s0) fd d")
      case (Inl e')
      with run' have "s1 = close_fd fd (add_undo_close_redirect d s0)" by simp
      then have "fds s1 = (fds s0)(fd := None)" by (simp add: add_undo_close_redirect_def close_fd_def)
      also have "\<dots> = fds s" using s0 fd by (simp add: fun_eq_iff)
      finally show ?thesis ..
    next
      case (Inr t)
      then have rng: "0 \<le> d" "d < fd_limit pt" and t: "t = (fds s0)(d \<mapsto> (ob, False))"
        using s0 closed(1) by (auto simp: dup2_def split: if_splits)
      have "s1 = close_fd fd (placed flags d ((add_undo_close_redirect d s0)\<lparr>fds := t\<rparr>))" using run' Inr by simp
      moreover have "fds ((add_undo_close_redirect d s0)\<lparr>fds := t\<rparr>) d = Some (ob, False)" by (simp add: t)
      ultimately have "fds s1 = (t(d \<mapsto> (ob, cl)))(fd := None)"
        by (simp add: close_fd_def placed_simps(2) cl_def)
      then have "fds s1 = (fds s)(d \<mapsto> (ob, cl))" using t s0 fd closed(1) by (auto simp: fun_eq_iff)
      with rng show ?thesis by blast
    qed
    with us cl show ?thesis
      by (intro undone_new [OF ok2 closed(2), where ob = ob and c = cl]) blast+
  next
    case opened
    have d: "fds s0 d = Some (fl, c)" using opened s0 by simp
    obtain n s2 where n: "add_undo_redirect (fd_limit pt) d ri (- 1) s0 = (None, s2)"
      "fds s2 = (fds s0)(n \<mapsto> (fl, True))" "redirection_undo_list s2 = restorer_of d c n False # closer_of n # redirection_undo_list s0"
      "fds s0 n = None" "SHELL_FD_BASE \<le> n" "n < fd_limit pt"
      using add_undo_open [OF ok1 d] .
    have neq: "n \<noteq> fd" "n \<noteq> d" "fds s n = None" using n(4) s0 opened by (auto split: if_splits)
    have rng: "0 \<le> d" "d < fd_limit pt" using table_ok_in_range [OF ok, of d] opened(2) by auto
    have t: "dup2 (fd_limit pt) (fds s2) fd d = Inr ((fds s2)(d \<mapsto> (ob, False)))"
      using n(2) s0 neq rng opened(1) by (simp add: dup2_def)
    have s1: "s1 = close_fd fd (placed flags d (s2\<lparr>fds := (fds s2)(d \<mapsto> (ob, False))\<rparr>))"
      using run place(3) [OF opened(1) _ n(1)] d t by simp
    have "redirection_undo_list s1 = restorer_of d c n False # closer_of n # redirection_undo_list s"
      using s1 n(3) s0 by (simp add: close_fd_def)
    moreover have "fds s1 = ((fds s2)(d \<mapsto> (ob, cl)))(fd := None)"
      unfolding s1 by (simp add: close_fd_def placed_simps(2) cl_def)
    then have "fds s1 = (fds s)(n \<mapsto> (fl, True), d := Some (ob, cl))"
      using n(2) s0 neq fd opened(1) by (auto simp: fun_eq_iff)
    ultimately show ?thesis
      using n(5,6) neq opened(2) cl by (intro undone_replaced [OF ok2]) auto
  qed
qed

text \<open>Every other descriptor that was open stays open.\<close>

lemma put_in_place_keeps_open:
  assumes r: "\<not> has_flag (rd_rflags r) REDIR_VARASSIGN" "has_flag flags RX_UNDOABLE"
    and ok: "table_ok (fd_limit pt) (Suc k) (fds s0)"
    and run: "put_in_place pt flags r ri fd s0 = (e, s1)" and m: "fds s0 m \<noteq> None" "m \<noteq> fd"
  shows "fds s1 m \<noteq> None"
proof -
  define d where "d = redirectee_dest (rd_redirector r)"
  note place = put_in_place_cases [OF r d_def [symmetric]]
  have placed: "fds (placed flags d s) m \<noteq> None" if "fds s m \<noteq> None" for s :: "('a, 'b) rstate"
    using that by (auto simp: placed_def f_setfd_def simp del: not_None_eq split: option.split)
  have dup: "t m \<noteq> None" if "dup2 l t' fd d = Inr t" "t' m \<noteq> None" for l and t t' :: "'a fd_table"
    using that by (cases "t' fd") (auto simp: dup2_def simp del: split_paired_Ex split: if_splits)
  have close: "fds (close_fd fd s) m \<noteq> None" if "fds s m \<noteq> None" for s :: "('a, 'b) rstate"
    using that m(2) by (simp add: close_fd_def)
  consider (same) "fd = d" | (closed) "fd \<noteq> d" "fds s0 d = None" | (opened) fl c where "fd \<noteq> d" "fds s0 d = Some (fl, c)"
    by (cases "fds s0 d") auto
  then show ?thesis
  proof cases
    case same
    have "s1 = placed flags d (add_undo_close_redirect d s0)" using run place(1) [OF same, of pt ri s0] by simp
    then show ?thesis using placed m(1) by (simp add: add_undo_close_redirect_def)
  next
    case closed
    note run' = run [unfolded place(2) [OF closed]]
    show ?thesis
    proof (cases "dup2 (fd_limit pt) (fds s0) fd d")
      case (Inl e')
      with run' have "s1 = close_fd fd (add_undo_close_redirect d s0)" by simp
      then show ?thesis using close m(1) by (simp add: add_undo_close_redirect_def)
    next
      case (Inr t)
      with run' have "s1 = close_fd fd (placed flags d ((add_undo_close_redirect d s0)\<lparr>fds := t\<rparr>))" by simp
      then show ?thesis using close placed dup [OF Inr m(1)] by simp
    qed
  next
    case opened
    obtain n s2 where n: "add_undo_redirect (fd_limit pt) d ri (- 1) s0 = (None, s2)" "fds s2 = (fds s0)(n \<mapsto> (fl, True))"
      using add_undo_open [OF ok opened(2)] by metis
    have m2: "fds s2 m \<noteq> None" using n(2) m(1) by (simp del: split_paired_Ex)
    have run': "(case dup2 (fd_limit pt) (fds s2) fd d of Inl e \<Rightarrow> (e, close_fd fd s2)
        | Inr t \<Rightarrow> (0, close_fd fd (placed flags d (s2\<lparr>fds := t\<rparr>)))) = (e, s1)"
      using run place(3) [OF opened(1) _ n(1)] opened(2) by simp
    show ?thesis
    proof (cases "dup2 (fd_limit pt) (fds s2) fd d")
      case (Inl e')
      with run' show ?thesis using close m2 by auto
    next
      case (Inr t)
      with run' have "s1 = close_fd fd (placed flags d (s2\<lparr>fds := t\<rparr>))" by simp
      then show ?thesis using close placed dup [OF Inr m2] by simp
    qed
  qed
qed

lemma open_fd_result:
  assumes "table_ok (fd_limit pt) k (fds s)" and "open_fd pt opened s = (r, s1)"
  shows "(\<exists>e. r = Inl e \<and> fds s1 = fds s \<and> redirection_undo_list s1 = redirection_undo_list s) \<or>
    (\<exists>fd ob. r = Inr fd \<and> fds s1 = (fds s)(fd \<mapsto> (ob, False)) \<and> redirection_undo_list s1 = redirection_undo_list s \<and>
       fds s fd = None \<and> 0 \<le> fd \<and> fd < fd_limit pt)"
  using assms by (auto simp: open_fd_def split: prod.splits sum.splits option.splits dest!: lowest_free_Some)

text \<open>A redirection whose every change is remembered.\<close>

definition remembered :: "redirect \<Rightarrow> ('o, 'w) rstate \<Rightarrow> bool" where
  "remembered r s \<longleftrightarrow>
     \<not> has_flag (rd_rflags r) REDIR_VARASSIGN \<and>
     (rd_instruction r \<in> {r_move_input, r_move_output} \<longrightarrow>
        fds s (redirectee_dest (rd_redirector r)) \<noteq> None \<or> fds s (redirectee_dest (rd_redirectee r)) = None \<or>
        redirectee_dest (rd_redirectee r) = redirectee_dest (rd_redirector r)) \<and>
     (rd_instruction r \<in> {r_err_and_out, r_append_err_and_out} \<longrightarrow> fds s 2 \<noteq> None)"

lemma redirect_heredoc_undone:
  assumes ok: "table_ok (fd_limit pt) (Suc (Suc k)) (fds s)" and flags: "has_flag flags RX_ACTIVE" "has_flag flags RX_UNDOABLE"
    and r: "\<not> has_flag (rd_rflags r) REDIR_VARASSIGN" and run: "redirect_heredoc pt flags r ri s = (e, s1)"
  shows "undone pt k s s1"
proof -
  have same: "undone pt k s s1" if "fds s1 = fds s" "redirection_undo_list s1 = redirection_undo_list s" for s1
    using that by (intro undone_same table_ok_less [OF ok]) simp_all
  show ?thesis
  proof (cases "redirectee_word (rd_redirectee r)")
    case None
    with run same show ?thesis by (simp add: redirect_heredoc_def)
  next
    case (Some d)
    obtain f w where h: "here_document_to_fd pt (Some d) ri (rworld s) = (f, w)" by (cases "here_document_to_fd pt (Some d) ri (rworld s)")
    show ?thesis
    proof (cases f)
      case None
      with run Some h same show ?thesis by (auto simp: redirect_heredoc_def)
    next
      case (Some ob')
      obtain x s0 where x: "open_fd pt (Inr ob', w) s = (x, s0)" by (cases "open_fd pt (Inr ob', w) s")
      from open_fd_result [OF ok x] show ?thesis
      proof (elim disjE exE conjE)
        fix e' assume "x = Inl e'" "fds s0 = fds s" "redirection_undo_list s0 = redirection_undo_list s"
        with run h x Some \<open>redirectee_word (rd_redirectee r) = Some d\<close> same show ?thesis by (auto simp: redirect_heredoc_def)
      next
        fix fd ob assume y: "x = Inr fd" "fds s0 = (fds s)(fd \<mapsto> (ob, False))" "redirection_undo_list s0 = redirection_undo_list s"
          "fds s fd = None" "0 \<le> fd" "fd < fd_limit pt"
        with run h x Some \<open>redirectee_word (rd_redirectee r) = Some d\<close> flags
        have "put_in_place pt flags r ri fd s0 = (e, s1)" by (simp add: redirect_heredoc_def)
        then show ?thesis using y by (intro put_in_place_undone [OF ok _ _ _ _ _ r flags(2)]) simp_all
      qed
    qed
  qed
qed

lemma redirect_file_undone:
  assumes ok: "table_ok (fd_limit pt) (Suc (Suc (Suc k))) (fds s)" and flags: "has_flag flags RX_ACTIVE" "has_flag flags RX_UNDOABLE"
    and r: "\<not> has_flag (rd_rflags r) REDIR_VARASSIGN"
    and both: "ri = r_err_and_out \<or> ri = r_append_err_and_out \<Longrightarrow> fds s 2 \<noteq> None"
    and run: "redirect_file pt flags r ri s = (e, s1)"
  shows "undone pt k s s1"
proof -
  have same: "undone pt k s s1" if "fds s1 = fds s" "redirection_undo_list s1 = redirection_undo_list s" for s1
    using that by (intro undone_same table_ok_less [OF ok]) simp_all
  obtain path w where p: "(if has_flag (rd_rflags r) RX_EXPANDED then (word_text (redirectee_word (rd_redirectee r)), rworld s)
      else redirection_expand pt (redirectee_word (rd_redirectee r)) (rworld s)) = (path, w)" by fastforce
  show ?thesis
  proof (cases "path = None \<or> restricted_shell pt \<and> WRITE_REDIRECT ri \<or> fst (on_redirect pt (the path) ri (rd_redirector r) w)")
    case True
    with run p same show ?thesis by (auto simp: redirect_file_def split: option.splits if_splits prod.splits bool.splits)
  next
    case False
    then obtain q w' where q: "path = Some q" "on_redirect pt q ri (rd_redirector r) w = (False, w')"
      by (cases path; cases "on_redirect pt (the path) ri (rd_redirector r) w") auto
    obtain x s0 where x: "open_fd pt (redir_open pt q (rd_flags r) ri w') s = (x, s0)" by fastforce
    from open_fd_result [OF ok x] show ?thesis
    proof (elim disjE exE conjE)
      fix e' assume "x = Inl e'" "fds s0 = fds s" "redirection_undo_list s0 = redirection_undo_list s"
      with run p q x same False show ?thesis by (auto simp: redirect_file_def)
    next
      fix fd ob assume y: "x = Inr fd" "fds s0 = (fds s)(fd \<mapsto> (ob, False))" "redirection_undo_list s0 = redirection_undo_list s"
        "fds s fd = None" "0 \<le> fd" "fd < fd_limit pt"
      obtain e2 s2 where put: "put_in_place pt flags r ri fd s0 = (e2, s2)" by fastforce
      have u: "undone pt (Suc k) s s2"
        using y put by (intro put_in_place_undone [OF ok _ _ _ _ _ r flags(2)]) simp_all
      have rs: "(restricted_shell pt \<and> WRITE_REDIRECT ri) = False" using False by blast
      have run2: "(if e2 \<noteq> 0 then (e2, s2) else stderr_too pt flags ri s2) = (e, s1)"
        using run by (simp add: redirect_file_def p q x y(1) put flags rs)
      show ?thesis
      proof (cases "e2 = 0 \<and> (ri = r_err_and_out \<or> ri = r_append_err_and_out)")
        case False
        with run2 have "s1 = s2" by (auto simp: stderr_too_def split: if_splits)
        then show ?thesis using undone_less [OF u, of k] by simp
      next
        case True
        have ok0: "table_ok (fd_limit pt) (Suc (Suc k)) (fds s0)"
          unfolding y(2) using y by (intro table_ok_update [OF ok]) simp_all
        have "fds s 2 \<noteq> None" using both True by blast
        then have "fds s0 2 \<noteq> None" "2 \<noteq> fd" using y(2,4) by auto
        then have "fds s2 2 \<noteq> None" by (rule put_in_place_keeps_open [OF r flags(2) ok0 put])
        then obtain fl c where two: "fds s2 2 = Some (fl, c)" by auto
        have ok2: "table_ok (fd_limit pt) (Suc k) (fds s2)" using u by (simp add: undone_def)
        obtain n s3 where n: "add_undo_redirect (fd_limit pt) 2 ri (- 1) s2 = (None, s3)" "fds s3 = (fds s2)(n \<mapsto> (fl, True))"
          "redirection_undo_list s3 = restorer_of 2 c n False # closer_of n # redirection_undo_list s2"
          "fds s2 n = None" "SHELL_FD_BASE \<le> n" "n < fd_limit pt"
          using add_undo_open [OF ok2 two] .
        have neq: "n \<noteq> 2" using n(4) two by auto
        have run3: "(case dup2 (fd_limit pt) (fds s3) 1 2 of Inl e \<Rightarrow> (e, s3) | Inr t \<Rightarrow> (0, s3\<lparr>fds := t\<rparr>)) = (e, s1)"
          using run2 True n(1) flags by (auto simp: stderr_too_def Let_def)
        have us: "redirection_undo_list s1 = restorer_of 2 c n False # closer_of n # redirection_undo_list s2"
          using run3 n by (auto split: sum.splits)
        have "fds s1 = fds s3 \<or> (\<exists>fl. fds s1 = (fds s3)(2 \<mapsto> (fl, False)))"
          using run3 by (auto simp: dup2_def split: sum.splits option.splits if_splits)
        then obtain y where "fds s1 = (fds s3)(2 := y)" "\<And>f c'. y = Some (f, c') \<Longrightarrow> c' \<Longrightarrow> c"
          using n(2) two neq by (metis (no_types, lifting) fun_upd_other fun_upd_triv option.inject prod.inject)
        moreover have "\<not> c" using table_ok_std [OF ok2, where n = 2] two by auto
        ultimately have "undone pt k s2 s1"
          using n us by (intro undone_replaced [OF ok2 two]) auto
        with u show ?thesis by (rule undone_trans)
      qed
    qed
  qed
qed

lemma settle_dup_table:
  assumes "fds s d = Some (ob, False)" and "src \<noteq> d"
  obtains c where "fds (settle_dup flags r ri src d s) =
      (let t = (fds s)(d \<mapsto> (ob, c)) in if ri = r_move_input \<or> ri = r_move_output then t(src := None) else t)"
    "c \<Longrightarrow> 3 \<le> d" "redirection_undo_list (settle_dup flags r ri src d s) = redirection_undo_list s"
proof -
  define s1 where "s1 = (if (f_getfd (fds s) src = Some True \<or> (src < 2 \<and> has_flag (rd_rflags r) RX_INTERNAL)
      \<or> has_flag flags RX_CLEXEC) \<and> 2 < d then s\<lparr>fds := f_setfd (fds s) d True\<rparr> else s)"
  define s2 where "s2 = (if has_flag (rd_rflags r) RX_INTERNAL \<and> has_flag (rd_rflags r) RX_SAVCLEXEC \<and> 3 \<le> d
      \<and> (SHELL_FD_BASE \<le> src \<or> has_flag (rd_rflags r) RX_SAVEFD) then s1\<lparr>fds := f_setfd (fds s1) d False\<rparr> else s1)"
  have "\<exists>c. fds s1 = (fds s)(d \<mapsto> (ob, c)) \<and> (c \<longrightarrow> 3 \<le> d) \<and> redirection_undo_list s1 = redirection_undo_list s"
  proof (cases "s1 = s")
    case True
    then show ?thesis using assms(1) by (intro exI [of _ False]) (simp add: fun_upd_idem)
  next
    case False
    then have "s1 = s\<lparr>fds := f_setfd (fds s) d True\<rparr>" "2 < d" by (auto simp: s1_def split: if_splits)
    then show ?thesis using assms(1) by (intro exI [of _ True]) (simp add: f_setfd_def)
  qed
  then obtain c where c: "fds s1 = (fds s)(d \<mapsto> (ob, c))" "c \<longrightarrow> 3 \<le> d" "redirection_undo_list s1 = redirection_undo_list s"
    by blast
  have "\<exists>c. fds s2 = (fds s)(d \<mapsto> (ob, c)) \<and> (c \<longrightarrow> 3 \<le> d) \<and> redirection_undo_list s2 = redirection_undo_list s"
    using c by (auto simp: s2_def f_setfd_def)
  then obtain c' where c': "fds s2 = (fds s)(d \<mapsto> (ob, c'))" "c' \<longrightarrow> 3 \<le> d" "redirection_undo_list s2 = redirection_undo_list s"
    by blast
  have "settle_dup flags r ri src d s = (if ri = r_move_input \<or> ri = r_move_output then close_fd src s2 else s2)"
    unfolding settle_dup_def Let_def s1_def s2_def by (rule refl)
  with c' that [of c'] show ?thesis by (auto simp: close_fd_def Let_def)
qed

text \<open>Duplicating a descriptor, in the cases that the proof needs.\<close>

lemma redirect_dup_cases:
  assumes "\<not> has_flag (rd_rflags r) REDIR_VARASSIGN" and "has_flag flags RX_ACTIVE" "has_flag flags RX_UNDOABLE"
    and "redirectee_dest (rd_redirector r) = d" and "redirectee_dest (rd_redirectee r) = src" and "src \<noteq> d"
  shows "fds s d = None \<Longrightarrow> redirect_dup pt flags r ri s =
       (case dup2 (fd_limit pt) (fds s) src d of
          Inl e \<Rightarrow> (e, add_undo_close_redirect d s)
        | Inr t \<Rightarrow> (0, settle_dup flags r ri src d ((add_undo_close_redirect d s)\<lparr>fds := t\<rparr>)))"
    "fds s d \<noteq> None \<Longrightarrow> add_undo_redirect (fd_limit pt) d ri src s = (None, s2) \<Longrightarrow> fds s2 d \<noteq> None \<Longrightarrow>
     redirect_dup pt flags r ri s =
       (case (if ri = r_move_input \<or> ri = r_move_output then add_undo_redirect (fd_limit pt) src r_close_this (- 1) s2
              else (None, s2)) of
          (Some e, s3) \<Rightarrow> fail_closing e (- 1) s3
        | (None, s3) \<Rightarrow>
            (case dup2 (fd_limit pt) (fds s3) src d of
               Inl e \<Rightarrow> (e, s3)
             | Inr t \<Rightarrow> (0, settle_dup flags r ri src d (s3\<lparr>fds := t\<rparr>))))"
  using assms
  by (auto simp: redirect_dup_def redirector_for_def undo_wanted_def remember_redirector_def Let_def f_getfd_def
      add_undo_close_redirect_def split: sum.split option.split prod.split)

lemma dup2_Inr:
  "dup2 l t src d = Inr t' \<Longrightarrow> src \<noteq> d \<Longrightarrow> \<exists>ob c. t src = Some (ob, c) \<and> t' = t(d \<mapsto> (ob, False)) \<and> 0 \<le> d \<and> d < l"
  by (auto simp: dup2_def split: option.splits if_splits)

lemma dup_to_closed_undone:
  assumes ok: "table_ok (fd_limit pt) (Suc k) (fds s)" and d: "fds s d = None" "src \<noteq> d"
    and move: "ri = r_move_input \<or> ri = r_move_output \<Longrightarrow> fds s src = None"
    and run: "(case dup2 (fd_limit pt) (fds s) src d of
          Inl e \<Rightarrow> (e, add_undo_close_redirect d s)
        | Inr t \<Rightarrow> (0, settle_dup flags r ri src d ((add_undo_close_redirect d s)\<lparr>fds := t\<rparr>))) = (e, s1)"
  shows "undone pt k s s1"
proof (cases "dup2 (fd_limit pt) (fds s) src d")
  case (Inl e')
  with run have "s1 = add_undo_close_redirect d s" by simp
  then show ?thesis by (intro undone_new [OF ok d(1)]) (simp_all add: add_undo_close_redirect_def)
next
  case (Inr t)
  obtain ob c where t: "fds s src = Some (ob, c)" "t = (fds s)(d \<mapsto> (ob, False))" "0 \<le> d" "d < fd_limit pt"
    using dup2_Inr [OF Inr d(2)] by blast
  have nomove: "\<not> (ri = r_move_input \<or> ri = r_move_output)" using move t(1) by auto
  let ?s = "(add_undo_close_redirect d s)\<lparr>fds := t\<rparr>"
  have "fds ?s d = Some (ob, False)" using t by simp
  then obtain c' where c': "fds (settle_dup flags r ri src d ?s) =
      (let t = (fds ?s)(d \<mapsto> (ob, c')) in if ri = r_move_input \<or> ri = r_move_output then t(src := None) else t)"
    "c' \<Longrightarrow> 3 \<le> d" "redirection_undo_list (settle_dup flags r ri src d ?s) = redirection_undo_list ?s"
    using settle_dup_table [OF _ d(2)] by metis
  have s1: "s1 = settle_dup flags r ri src d ?s" using run Inr by simp
  have "fds s1 = (fds s)(d \<mapsto> (ob, c'))" using c'(1) nomove t(2) by (simp add: s1)
  moreover have "redirection_undo_list s1 = closer_of d # redirection_undo_list s"
    using c'(3) by (simp add: s1 add_undo_close_redirect_def)
  ultimately show ?thesis using t c'(2) by (intro undone_new [OF ok d(1), where ob = ob and c = c']) blast+
qed

lemma dup_to_open_undone:
  assumes ok: "table_ok (fd_limit pt) (Suc k) (fds s)" and d: "fds s d = Some (fl, cd)" "src \<noteq> d"
    and nomove: "\<not> (ri = r_move_input \<or> ri = r_move_output)"
    and n: "fds s2 = (fds s)(n \<mapsto> (fl, True))" "redirection_undo_list s2 = restorer_of d cd n False # closer_of n # redirection_undo_list s"
      "fds s n = None" "SHELL_FD_BASE \<le> n" "n < fd_limit pt"
    and run: "(case dup2 (fd_limit pt) (fds s2) src d of
          Inl e \<Rightarrow> (e, s2)
        | Inr t \<Rightarrow> (0, settle_dup flags r ri src d (s2\<lparr>fds := t\<rparr>))) = (e, s1)"
  shows "undone pt k s s1"
proof (cases "dup2 (fd_limit pt) (fds s2) src d")
  case (Inl e')
  with run have s1: "s1 = s2" by simp
  have "n \<noteq> d" using d n(3) by auto
  have "fds s2 = (fds s)(n \<mapsto> (fl, True), d := Some (fl, cd))" using n(1) d(1) \<open>n \<noteq> d\<close> by (simp add: fun_eq_iff)
  moreover have "cd \<Longrightarrow> 3 \<le> d" using table_ok_std [OF ok, where n = d] d(1) by auto
  ultimately show ?thesis using n(2) by (intro undone_replaced [OF ok d(1) n(3-5)]) (auto simp: s1)
next
  case (Inr t)
  obtain ob c where t: "t = (fds s2)(d \<mapsto> (ob, False))" using dup2_Inr [OF Inr d(2)] by blast
  let ?s = "s2\<lparr>fds := t\<rparr>"
  have "fds ?s d = Some (ob, False)" using t by simp
  then obtain c' where c': "fds (settle_dup flags r ri src d ?s) =
      (let t = (fds ?s)(d \<mapsto> (ob, c')) in if ri = r_move_input \<or> ri = r_move_output then t(src := None) else t)"
    "c' \<Longrightarrow> 3 \<le> d" "redirection_undo_list (settle_dup flags r ri src d ?s) = redirection_undo_list ?s"
    using settle_dup_table [OF _ d(2)] by metis
  have s1: "s1 = settle_dup flags r ri src d ?s" using run Inr by simp
  have "fds s1 = (fds s)(n \<mapsto> (fl, True), d \<mapsto> (ob, c'))" using c'(1) nomove t n(1) by (simp add: s1)
  moreover have "redirection_undo_list s1 = restorer_of d cd n False # closer_of n # redirection_undo_list s"
    using c'(3) n(2) by (simp add: s1)
  ultimately show ?thesis using c'(2) by (intro undone_replaced [OF ok d(1) n(3-5)]) auto
qed

text \<open>Moving: both descriptors are saved, then the first becomes the second and the second is closed.\<close>

lemma move_to_open_undone:
  assumes ok: "table_ok (fd_limit pt) (Suc (Suc k)) (fds s)" and d: "fds s d = Some (fl, cd)" "src \<noteq> d"
    and move: "ri = r_move_input \<or> ri = r_move_output"
    and n: "fds s2 = (fds s)(n \<mapsto> (fl, True))" "redirection_undo_list s2 = restorer_of d cd n False # closer_of n # redirection_undo_list s"
      "fds s n = None" "SHELL_FD_BASE \<le> n" "n < fd_limit pt"
    and src: "fds s2 src = Some (ob, cs)"
    and run: "(case add_undo_redirect (fd_limit pt) src r_close_this (- 1) s2 of
          (Some e, s3) \<Rightarrow> fail_closing e (- 1) s3
        | (None, s3) \<Rightarrow>
            (case dup2 (fd_limit pt) (fds s3) src d of
               Inl e \<Rightarrow> (e, s3)
             | Inr t \<Rightarrow> (0, settle_dup flags r ri src d (s3\<lparr>fds := t\<rparr>)))) = (e, s1)"
  shows "undone pt k s s1"
proof -
  have "n \<noteq> d" using d(1) n(3) by auto
  have ok2: "table_ok (fd_limit pt) (Suc k) (fds s2)"
    unfolding n(1) using n by (intro table_ok_update [OF ok]) (simp_all add: SHELL_FD_BASE_def)
  obtain m s3 where m: "add_undo_redirect (fd_limit pt) src r_close_this (- 1) s2 = (None, s3)" "fds s3 = (fds s2)(m \<mapsto> (ob, True))"
    "redirection_undo_list s3 = restorer_of src cs m False # closer_of m # redirection_undo_list s2"
    "fds s2 m = None" "SHELL_FD_BASE \<le> m" "m < fd_limit pt"
    using add_undo_open [OF ok2 src] .
  have "m \<noteq> n" "m \<noteq> src" "m \<noteq> d" using m(4) n(1) src d(1) \<open>n \<noteq> d\<close> by auto
  have rng: "0 \<le> d" "d < fd_limit pt" using table_ok_in_range [OF ok, of d] d(1) by auto
  have "dup2 (fd_limit pt) (fds s3) src d = Inr ((fds s3)(d \<mapsto> (ob, False)))"
    using m(2) src rng d(2) \<open>m \<noteq> src\<close> by (simp add: dup2_def)
  then have s1: "s1 = settle_dup flags r ri src d (s3\<lparr>fds := (fds s3)(d \<mapsto> (ob, False))\<rparr>)" using run m(1) by simp
  let ?s = "s3\<lparr>fds := (fds s3)(d \<mapsto> (ob, False))\<rparr>"
  have "fds ?s d = Some (ob, False)" by simp
  then obtain c' where c': "fds (settle_dup flags r ri src d ?s) =
      (let t = (fds ?s)(d \<mapsto> (ob, c')) in if ri = r_move_input \<or> ri = r_move_output then t(src := None) else t)"
    "c' \<Longrightarrow> 3 \<le> d" "redirection_undo_list (settle_dup flags r ri src d ?s) = redirection_undo_list ?s"
    using settle_dup_table [OF _ d(2)] by metis
  define sm where "sm = s2\<lparr>fds := (fds s)(n \<mapsto> (fl, True), d \<mapsto> (ob, c'))\<rparr>"
  have sm: "fds sm = (fds s)(n \<mapsto> (fl, True), d \<mapsto> (ob, c'))" "redirection_undo_list sm = redirection_undo_list s2"
    by (simp_all add: sm_def)
  have u: "undone pt (Suc k) s sm"
    using c'(2) n(2) by (intro undone_replaced [OF ok d(1) n(3-5)]) (auto simp: sm)
  have "fds sm src = Some (ob, cs)" "fds sm m = None"
    using src m(4) d(2) \<open>m \<noteq> d\<close> by (simp_all add: sm n(1))
  moreover have "fds s1 = (fds sm)(m \<mapsto> (ob, True), src := None)"
    unfolding s1 c'(1) using move m(2) n(1) \<open>m \<noteq> d\<close> d(2) \<open>m \<noteq> n\<close> by (auto simp: sm fun_eq_iff)
  moreover have "redirection_undo_list s1 = restorer_of src cs m False # closer_of m # redirection_undo_list sm"
    unfolding s1 c'(3) using m(3) by (simp add: sm)
  moreover have "table_ok (fd_limit pt) (Suc k) (fds sm)" using u by (simp add: undone_def)
  ultimately have "undone pt k sm s1" using m(5,6) by (intro undone_replaced) auto
  with u show ?thesis by (rule undone_trans)
qed

lemma redirect_dup_undone:
  assumes ok: "table_ok (fd_limit pt) (Suc (Suc k)) (fds s)" and flags: "has_flag flags RX_ACTIVE" "has_flag flags RX_UNDOABLE"
    and rem: "remembered r s" and ri: "ri = rd_instruction r" and run: "redirect_dup pt flags r ri s = (e, s1)"
  shows "undone pt k s s1"
proof -
  define d where "d = redirectee_dest (rd_redirector r)"
  define src where "src = redirectee_dest (rd_redirectee r)"
  have r: "\<not> has_flag (rd_rflags r) REDIR_VARASSIGN"
    and move: "ri = r_move_input \<or> ri = r_move_output \<Longrightarrow> fds s d \<noteq> None \<or> fds s src = None \<or> src = d"
    using rem by (auto simp: remembered_def d_def src_def ri)
  have ok1: "table_ok (fd_limit pt) (Suc k) (fds s)" using table_ok_less [OF ok] by simp
  show ?thesis
  proof (cases "src = d")
    case True
    then have "s1 = s" using run r flags by (simp add: redirect_dup_def Let_def redirector_for_def d_def src_def)
    then show ?thesis by (intro undone_same table_ok_less [OF ok]) simp_all
  next
    case False
    note dup = redirect_dup_cases [OF r flags d_def [symmetric] src_def [symmetric] False]
    show ?thesis
    proof (cases "fds s d")
      case None
      from run [unfolded dup(1) [OF None]] show ?thesis
        using move None False by (intro dup_to_closed_undone [OF ok1 None False]) auto
    next
      case (Some x)
      obtain fl cd where "x = (fl, cd)" by (cases x)
      with Some have d: "fds s d = Some (fl, cd)" by simp
      obtain n s2 where n: "add_undo_redirect (fd_limit pt) d ri src s = (None, s2)" "fds s2 = (fds s)(n \<mapsto> (fl, True))"
        "redirection_undo_list s2 = restorer_of d cd n False # closer_of n # redirection_undo_list s"
        "fds s n = None" "SHELL_FD_BASE \<le> n" "n < fd_limit pt"
        using add_undo_open [OF ok1 d] by metis
      have "fds s2 d \<noteq> None" using n(2) d by auto
      then have run': "(case (if ri = r_move_input \<or> ri = r_move_output then add_undo_redirect (fd_limit pt) src r_close_this (- 1) s2
              else (None, s2)) of
          (Some e, s3) \<Rightarrow> fail_closing e (- 1) s3
        | (None, s3) \<Rightarrow>
            (case dup2 (fd_limit pt) (fds s3) src d of
               Inl e \<Rightarrow> (e, s3)
             | Inr t \<Rightarrow> (0, settle_dup flags r ri src d (s3\<lparr>fds := t\<rparr>)))) = (e, s1)"
        using run dup(2) [OF _ n(1)] d by simp
      show ?thesis
      proof (cases "ri = r_move_input \<or> ri = r_move_output")
        case nomove: False
        with run' show ?thesis
          by (intro dup_to_open_undone [OF ok1 d False nomove n(2-6)]) simp
      next
        case True
        show ?thesis
        proof (cases "fds s2 src")
          case None
          then have "s1 = s2" using run' True by (simp add: add_undo_closed fail_closing_def)
          have "n \<noteq> d" using d n(4) by auto
          have "fds s2 = (fds s)(n \<mapsto> (fl, True), d := Some (fl, cd))" using n(2) d \<open>n \<noteq> d\<close> by (simp add: fun_eq_iff)
          moreover have "cd \<Longrightarrow> 3 \<le> d" using table_ok_std [OF ok1, where n = d] d by auto
          ultimately show ?thesis
            using n(3) \<open>s1 = s2\<close> by (intro undone_replaced [OF ok1 d n(4-6)]) auto
        next
          case (Some y)
          obtain ob cs where "y = (ob, cs)" by (cases y)
          with Some have src: "fds s2 src = Some (ob, cs)" by simp
          show ?thesis
            using run' True by (intro move_to_open_undone [OF ok d False True n(2-6) src]) auto
        qed
      qed
    qed
  qed
qed

lemma redirect_close_undone:
  assumes ok: "table_ok (fd_limit pt) (Suc k) (fds s)" and flags: "has_flag flags RX_ACTIVE" "has_flag flags RX_UNDOABLE"
    and r: "\<not> has_flag (rd_rflags r) REDIR_VARASSIGN" and run: "redirect_close pt flags r ri s = (e, s1)"
  shows "undone pt k s s1"
proof -
  define d where "d = redirectee_dest (rd_redirector r)"
  have run': "(case (if f_getfd (fds s) d \<noteq> None then add_undo_redirect (fd_limit pt) d ri (- 1) s
        else (None, add_undo_close_redirect d s)) of
       (Some e, s1) \<Rightarrow> fail_closing e d s1 | (None, s1) \<Rightarrow> (0, close_fd d s1)) = (e, s1)"
    using run r flags unfolding d_def by (simp add: redirect_close_def Let_def)
  show ?thesis
  proof (cases "fds s d")
    case None
    then have "s1 = close_fd d (add_undo_close_redirect d s)" using run' by (simp add: f_getfd_def)
    then show ?thesis
      using None by (intro undone_new [OF ok None]) (simp_all add: close_fd_def add_undo_close_redirect_def fun_upd_idem)
  next
    case (Some x)
    obtain ob c where "x = (ob, c)" by (cases x)
    with Some have d: "fds s d = Some (ob, c)" by simp
    obtain n s2 where n: "add_undo_redirect (fd_limit pt) d ri (- 1) s = (None, s2)" "fds s2 = (fds s)(n \<mapsto> (ob, True))"
      "redirection_undo_list s2 = restorer_of d c n False # closer_of n # redirection_undo_list s"
      "fds s n = None" "SHELL_FD_BASE \<le> n" "n < fd_limit pt"
      using add_undo_open [OF ok d] .
    have "s1 = close_fd d s2" using run' d n(1) by (simp add: f_getfd_def)
    then show ?thesis
      using n by (intro undone_replaced [OF ok d n(4-6), where x = None]) (simp_all add: close_fd_def)
  qed
qed

lemma redirect_as_undone:
  assumes ok: "table_ok (fd_limit pt) (Suc (Suc (Suc k))) (fds s)" and flags: "has_flag flags RX_ACTIVE" "has_flag flags RX_UNDOABLE"
    and rem: "remembered r s" and run: "redirect_as pt flags r s = (e, s1)"
  shows "undone pt k s s1"
proof -
  define ri where "ri = rd_instruction r"
  have r: "\<not> has_flag (rd_rflags r) REDIR_VARASSIGN"
    and both: "ri = r_err_and_out \<or> ri = r_append_err_and_out \<Longrightarrow> fds s 2 \<noteq> None"
    using rem by (auto simp: remembered_def ri_def)
  have ok2: "table_ok (fd_limit pt) (Suc (Suc k)) (fds s)" and ok1: "table_ok (fd_limit pt) (Suc k) (fds s)"
    by (rule table_ok_less [OF ok], simp)+
  consider "redirect_file pt flags r ri s = (e, s1)" | "redirect_heredoc pt flags r ri s = (e, s1)"
    | "redirect_dup pt flags r ri s = (e, s1)" | "redirect_close pt flags r ri s = (e, s1)" | "s1 = s"
    using run unfolding redirect_as_def Let_def ri_def by (metis prod.inject)
  then show ?thesis
  proof cases
    case 1
    then show ?thesis using both by (intro redirect_file_undone [OF ok flags r]) auto
  next
    case 2
    then show ?thesis by (rule redirect_heredoc_undone [OF ok2 flags r])
  next
    case 3
    then show ?thesis by (rule redirect_dup_undone [OF ok2 flags rem ri_def])
  next
    case 4
    then show ?thesis by (rule redirect_close_undone [OF ok1 flags r])
  next
    case 5
    then show ?thesis by (intro undone_same table_ok_less [OF ok]) simp_all
  qed
qed

text \<open>The same of the redirection that a word stands for.\<close>

definition step_remembered :: "('o, 'w) redir_ports \<Rightarrow> redirect \<Rightarrow> ('o, 'w) rstate \<Rightarrow> bool" where
  "step_remembered pt r s \<longleftrightarrow>
     (if TRANSLATE_REDIRECT (rd_instruction r) then
        (case translate_redirect pt r (rworld s) of (Inl e, w) \<Rightarrow> True | (Inr r', w) \<Rightarrow> remembered r' s)
      else remembered r s)"

lemma remembered_world [simp]: "remembered r (s\<lparr>rworld := w\<rparr>) = remembered r s"
  by (simp add: remembered_def)

lemma do_redirection_undone:
  assumes ok: "table_ok (fd_limit pt) (Suc (Suc (Suc k))) (fds s)" and flags: "has_flag flags RX_ACTIVE" "has_flag flags RX_UNDOABLE"
    and rem: "step_remembered pt r s" and run: "do_redirection_internal pt flags r s = (e, s1)"
  shows "undone pt k s s1"
proof (cases "TRANSLATE_REDIRECT (rd_instruction r)")
  case False
  then show ?thesis using rem run
    by (intro redirect_as_undone [OF ok flags]) (simp_all add: step_remembered_def do_redirection_internal_def)
next
  case True
  obtain x w where x: "translate_redirect pt r (rworld s) = (x, w)" by fastforce
  show ?thesis
  proof (cases x)
    case (Inl e')
    then have "s1 = s\<lparr>rworld := w\<rparr>" using run True x by (simp add: do_redirection_internal_def)
    then show ?thesis by (intro undone_same table_ok_less [OF ok]) simp_all
  next
    case (Inr r')
    have "undone pt k (s\<lparr>rworld := w\<rparr>) s1"
      using ok rem run True x Inr
      by (intro redirect_as_undone [OF _ flags]) (simp_all add: step_remembered_def do_redirection_internal_def)
    then show ?thesis by (rule undone_cong) simp_all
  qed
qed

section \<open>The redirections of a command\<close>

primrec all_remembered :: "('o, 'w) redir_ports \<Rightarrow> 32 word \<Rightarrow> redirect list \<Rightarrow> ('o, 'w) rstate \<Rightarrow> bool" where
  "all_remembered pt flags [] s = True"
| "all_remembered pt flags (r # rs) s \<longleftrightarrow>
     step_remembered pt r s \<and>
     (case do_redirection_internal pt flags r s of (e, s') \<Rightarrow> e \<noteq> 0 \<or> all_remembered pt flags rs s')"

lemma redirect_each_undone:
  assumes "table_ok (fd_limit pt) (3 * length rs + k) (fds s)" and "has_flag flags RX_ACTIVE" "has_flag flags RX_UNDOABLE"
    and "all_remembered pt flags rs s" and "redirect_each pt flags rs s = (e, s1)"
  shows "undone pt k s s1"
  using assms
proof (induction rs arbitrary: s)
  case Nil
  then show ?case by (intro undone_same) simp_all
next
  case (Cons r rs)
  obtain e0 s0 where step: "do_redirection_internal pt flags r s = (e0, s0)" by fastforce
  have three: "3 * length (r # rs) + k = Suc (Suc (Suc (3 * length rs + k)))" by simp
  have "undone pt (3 * length rs + k) s s0"
    using Cons.prems(4) by (intro do_redirection_undone [OF Cons.prems(1) [unfolded three] Cons.prems(2,3) _ step]) simp
  moreover from this have "table_ok (fd_limit pt) (3 * length rs + k) (fds s0)" by (simp add: undone_def)
  ultimately show ?case
    using Cons step undone_less [of pt "3 * length rs + k" s s0 k]
    by (cases "e0 = 0") (auto intro: undone_trans)
qed

abbreviation cleared :: "('o, 'w) rstate \<Rightarrow> ('o, 'w) rstate" where
  "cleared s \<equiv> s\<lparr>redirection_undo_list := [], exec_redirection_undo_list := []\<rparr>"

lemma do_redirections_undone:
  assumes "table_ok (fd_limit pt) (3 * length rs) (fds s)" and "has_flag flags RX_ACTIVE" "has_flag flags RX_UNDOABLE"
    and "all_remembered pt flags rs (cleared s)" and "do_redirections pt rs flags s = (e, s1)"
  shows "restores pt (redirection_undo_list s1) (fds s) (fds s1) (undone_fds (redirection_undo_list s1))"
proof -
  have "undone pt 0 (cleared s) s1"
    using assms by (intro redirect_each_undone [where rs = rs]) (simp_all add: do_redirections_def)
  then show ?thesis by (auto simp: undone_def)
qed

lemma cleanup_restores:
  assumes "restores pt us t t1 ts" and "\<forall>n \<in> saved_fds us. fds s n = t1 n"
  shows "fds (cleanup_redirects pt us s) n = (if n \<in> ts then t n else fds s n)"
  using assms unfolding restores_def cleanup_redirects_def do_redirections_def by fastforce

end
