(* ===== verification/Redir_Commands.thy ===== *)
theory Redir_Commands
  imports Redir_Undo
begin

text \<open>
  Commands with redirections (\<open>execute_command_internal\<close> and \<open>execute_null_command\<close> of execute_cmd.c):
  the redirections are made before the body and undone after it, also when one of them fails. The
  contract between making and undoing is the locale \<open>bracket\<close>; the descriptor table after such a
  command is the one before it.
\<close>

section \<open>The commands\<close>

text \<open>A command with redirections around its body; the answer of a failed redirection is None.\<close>

definition with_redirections ::
  "('o, 'w) redir_ports \<Rightarrow> redirect list \<Rightarrow> (('o, 'w) rstate \<Rightarrow> 'r \<times> ('o, 'w) rstate) \<Rightarrow> ('o, 'w) rstate \<Rightarrow>
   'r option \<times> ('o, 'w) rstate" where
  "with_redirections pt rs body s =
     (case do_redirections pt rs (RX_ACTIVE OR RX_UNDOABLE) s of
        (e, s1) \<Rightarrow>
          if e \<noteq> 0 then (None, (undo_partial_redirects pt s1)\<lparr>exec_redirection_undo_list := []\<rparr>)
          else (case body (s1\<lparr>redirection_undo_list := [], exec_redirection_undo_list := []\<rparr>) of
                  (r, s2) \<Rightarrow>
                    (Some r, if redirection_undo_list s1 \<noteq> [] then cleanup_redirects pt (redirection_undo_list s1) s2 else s2)))"

text \<open>Redirections without a command, in the shell itself; True is failure.\<close>

definition null_redirections :: "('o, 'w) redir_ports \<Rightarrow> redirect list \<Rightarrow> ('o, 'w) rstate \<Rightarrow> bool \<times> ('o, 'w) rstate" where
  "null_redirections pt rs s =
     (case do_redirections pt rs (RX_ACTIVE OR RX_UNDOABLE) s of
        (r, s1) \<Rightarrow> (r \<noteq> 0, (cleanup_redirects pt (redirection_undo_list s1) s1)\<lparr>redirection_undo_list := []\<rparr>))"

text \<open>Redirections of descriptor 0, of the input of the shell and those that assign a variable are made in a
  child process, whose effect on the files is \<open>child\<close>; \<open>elsewhere\<close> says that the command is part of a
  pipeline or asynchronous, which forks too.\<close>

definition null_command ::
  "('o, 'w) redir_ports \<Rightarrow> (int \<Rightarrow> bool) \<Rightarrow> (redirect list \<Rightarrow> 'w \<Rightarrow> 'w) \<Rightarrow> bool \<Rightarrow> redirect list \<Rightarrow> ('o, 'w) rstate \<Rightarrow>
     bool \<times> ('o, 'w) rstate" where
  "null_command pt fd_is_bash_input child elsewhere rs s =
     (if elsewhere \<or> (\<exists>rd \<in> set rs. has_flag (rd_rflags rd) REDIR_VARASSIGN \<or>
           redirectee_dest (rd_redirector rd) = 0 \<or> fd_is_bash_input (redirectee_dest (rd_redirector rd)))
      then (False, s\<lparr>rworld := child rs (rworld s)\<rparr>)
      else null_redirections pt rs s)"

section \<open>The contract\<close>

text \<open>Entering answers with what is to be undone; undoing it brings back the view of the state before,
  if the view is what it was right after entering.\<close>

locale bracket =
  fixes enter :: "'r \<Rightarrow> 's \<Rightarrow> 'e \<times> 's"
    and undo_of :: "'s \<Rightarrow> 'u"
    and leave :: "'u \<Rightarrow> 's \<Rightarrow> 's"
    and view :: "'s \<Rightarrow> 'v"
    and fits :: "'r \<Rightarrow> 's \<Rightarrow> bool"
  assumes undoing: "fits r s \<Longrightarrow> enter r s = (e, s1) \<Longrightarrow> view s2 = view s1 \<Longrightarrow> view (leave (undo_of s1) s2) = view s"
begin

lemma leave_at_once: "fits r s \<Longrightarrow> enter r s = (e, s1) \<Longrightarrow> view (leave (undo_of s1) s1) = view s"
  by (rule undoing [OF _ _ refl])

text \<open>Brackets nest: what keeps the view inside keeps it outside.\<close>

lemma nested:
  assumes "fits r s" and "enter r s = (e, s1)" and "fits r' s1" and "enter r' s1 = (e', s2)" and "view s3 = view s2"
  shows "view (leave (undo_of s1) (leave (undo_of s2) s3)) = view s"
  by (rule undoing [OF assms(1,2) undoing [OF assms(3-5)]])

end

section \<open>The redirections of the shell keep it\<close>

definition both_flags :: "32 word" where
  "both_flags = RX_ACTIVE OR RX_UNDOABLE"

lemma both_flags [simp]: "has_flag both_flags RX_ACTIVE" "has_flag both_flags RX_UNDOABLE"
  by (simp_all add: both_flags_def has_flag_def RX_ACTIVE_def RX_UNDOABLE_def)

text \<open>There is room for what the redirections save, and everything they change is remembered.\<close>

definition redirections_fit :: "('o, 'w) redir_ports \<Rightarrow> redirect list \<Rightarrow> ('o, 'w) rstate \<Rightarrow> bool" where
  "redirections_fit pt rs s \<longleftrightarrow>
     table_ok (fd_limit pt) (3 * length rs) (fds s) \<and> all_remembered pt both_flags rs (cleared s)"

lemma cleanup_undoes:
  assumes fit: "redirections_fit pt rs s" and run: "do_redirections pt rs both_flags s = (e, s1)"
    and keep: "\<forall>n \<in> saved_fds (redirection_undo_list s1). fds s2 n = fds s1 n"
  shows "fds (cleanup_redirects pt (redirection_undo_list s1) s2) =
      (\<lambda>n. if n \<in> undone_fds (redirection_undo_list s1) then fds s n else fds s2 n)"
    and "n \<notin> undone_fds (redirection_undo_list s1) \<Longrightarrow> fds s1 n = fds s n"
proof -
  have ts: "restores pt (redirection_undo_list s1) (fds s) (fds s1) (undone_fds (redirection_undo_list s1))"
    using do_redirections_undone [OF _ both_flags _ run] fit by (auto simp: redirections_fit_def)
  show "fds (cleanup_redirects pt (redirection_undo_list s1) s2) =
      (\<lambda>n. if n \<in> undone_fds (redirection_undo_list s1) then fds s n else fds s2 n)"
    using cleanup_restores [OF ts keep] by (simp add: fun_eq_iff)
  show "n \<notin> undone_fds (redirection_undo_list s1) \<Longrightarrow> fds s1 n = fds s n"
    using ts by (simp add: restores_def)
qed

interpretation redirections: bracket "\<lambda>rs. do_redirections pt rs both_flags" redirection_undo_list
  "cleanup_redirects pt" fds "redirections_fit pt"
  for pt :: "('o, 'w) redir_ports"
proof unfold_locales
  fix rs e and s s1 s2 :: "('o, 'w) rstate"
  assume "redirections_fit pt rs s" "do_redirections pt rs both_flags s = (e, s1)" "fds s2 = fds s1"
  then show "fds (cleanup_redirects pt (redirection_undo_list s1) s2) = fds s"
    using cleanup_undoes [of pt rs s e s1 s2] by fastforce
qed

lemma fds_lists [simp]:
  "fds (s\<lparr>redirection_undo_list := us\<rparr>) = fds s" "fds (s\<lparr>exec_redirection_undo_list := vs\<rparr>) = fds s"
  by simp_all

lemma cleanup_nothing [simp]: "fds (cleanup_redirects pt [] s) = fds s"
  by (simp add: cleanup_redirects_def do_redirections_def)

lemma undo_partial_restores:
  assumes "redirections_fit pt rs s" and "do_redirections pt rs both_flags s = (e, s1)"
  shows "fds (undo_partial_redirects pt s1) = fds s"
proof -
  have "fds (cleanup_redirects pt (redirection_undo_list s1) s1) = fds s"
    by (rule redirections.leave_at_once [OF assms])
  then show ?thesis by (auto simp: undo_partial_redirects_def)
qed

section \<open>An example\<close>

text \<open>Descriptors 0, 1, 2 and 4 are open. Opening a file always succeeds.\<close>

definition demo_redir_ports :: "(nat, unit) redir_ports" where
  "demo_redir_ports =
     \<lparr>fd_limit = 64, varassign_redir_autoclose = False, restricted_shell = False, noclobber = (\<lambda>w. False),
      redirection_expand = (\<lambda>d w. (word_text d, w)), on_redirect = (\<lambda>path ri r w. (False, w)),
      redir_special_open = (\<lambda>path w. None), sys_stat = (\<lambda>path w. None), sys_fstat = (\<lambda>file w. None),
      sys_open = (\<lambda>path flags w. (Inr (100 + length path), w)), here_document_to_fd = (\<lambda>d ri w. (Some 200, w)),
      redir_varassign = (\<lambda>d n w. (0, w)), redir_varvalue = (\<lambda>d w. - 1)\<rparr>"

definition demo_rstate :: "(nat, unit) rstate" where
  "demo_rstate =
     \<lparr>fds = [0 \<mapsto> (0, False), 1 \<mapsto> (1, False), 2 \<mapsto> (2, False), 4 \<mapsto> (4, False)], redirection_undo_list = [],
      exec_redirection_undo_list = [], rworld = ()\<rparr>"

text \<open>\<open>>out 2>&1 <&4- 5<&-\<close>\<close>

definition demo_redirs :: "redirect list" where
  "demo_redirs =
     [make_redirection (Dest 1) r_output_direction (Filename (Some (make_bare_word ''out''))) 0,
      make_redirection (Dest 2) r_duplicating_output (Dest 1) 0,
      make_redirection (Dest 0) r_duplicating_input_word (Filename (Some (make_bare_word ''4-''))) 0,
      make_redirection (Dest 5) r_close_this (Dest 0) 0]"

definition demo_redirected :: "(nat, unit) rstate" where
  "demo_redirected = snd (do_redirections demo_redir_ports demo_redirs both_flags demo_rstate)"

lemma demo_run: "do_redirections demo_redir_ports demo_redirs both_flags demo_rstate = (0, demo_redirected)"
proof (rule prod_eqI)
  show "fst (do_redirections demo_redir_ports demo_redirs both_flags demo_rstate) = fst (0, demo_redirected)"
    by code_simp
qed (simp add: demo_redirected_def)

lemma demo_used: "used 64 (fds demo_rstate) = {}"
  by (auto simp: used_def demo_rstate_def SHELL_FD_BASE_def)

lemma demo_fits: "redirections_fit demo_redir_ports demo_redirs demo_rstate"
  unfolding redirections_fit_def
proof
  show "all_remembered demo_redir_ports both_flags demo_redirs (cleared demo_rstate)" by code_simp
  have "fd_limit demo_redir_ports = 64" "length demo_redirs = 4" by (simp_all add: demo_redir_ports_def demo_redirs_def)
  then show "table_ok (fd_limit demo_redir_ports) (3 * length demo_redirs) (fds demo_rstate)"
    using demo_used by (auto simp: table_ok_def demo_rstate_def SHELL_FD_BASE_def split: if_splits)
qed

lemma demo_saved: "7 \<notin> saved_fds (redirection_undo_list demo_redirected)"
  by code_simp

text \<open>The command of the example opens descriptor 7 and leaves it open.\<close>

definition demo_later :: "(nat, unit) rstate" where
  "demo_later = demo_redirected\<lparr>fds := (fds demo_redirected)(7 \<mapsto> (7, False))\<rparr>"

lemma demo_later_kept:
  "\<forall>n \<in> saved_fds (redirection_undo_list demo_redirected). fds demo_later n = fds demo_redirected n"
  using demo_saved by (auto simp: demo_later_def)

text \<open>With descriptor 2 closed, \<open>&>out\<close> leaves it open afterwards: nothing remembers to close it.\<close>

lemma stderr_left_open:
  "fds (snd (null_redirections demo_redir_ports
      [make_redirection (Dest 1) r_err_and_out (Filename (Some (make_bare_word ''out''))) 0]
      (demo_rstate\<lparr>fds := (fds demo_rstate)(2 := None)\<rparr>))) 2 = Some (103, False)"
  by code_simp

section \<open>Properties\<close>

text \<open>C12: Redirections are undone exactly: start from any descriptor table within the limit in which descriptors 0 to 2
  are not close-on-exec and there are free numbers to save others to, make any list of redirections whose changes are all
  remembered, whether or not one of them fails, and let the command then do anything to the table except touch the
  descriptors that hold what was saved. Running the undo list gives every descriptor that it names what it had before the
  redirections, also when the command has changed it since, and leaves every other descriptor as the command left
  it. It names every descriptor that the redirections changed. Not remembered are the changes by \<open>{var}\<close>, by \<open>&>\<close> with
  descriptor 2 closed, and by moving an open descriptor onto a closed one.\<close>

theorem redirections_are_undone:
  assumes "redirections_fit pt rs s" and "do_redirections pt rs both_flags s = (e, s1)"
    and "\<forall>n \<in> saved_fds (redirection_undo_list s1). fds s2 n = fds s1 n"
  shows "fds (cleanup_redirects pt (redirection_undo_list s1) s2) =
      (\<lambda>n. if n \<in> undone_fds (redirection_undo_list s1) then fds s n else fds s2 n) \<and>
    {n. fds s1 n \<noteq> fds s n} \<subseteq> undone_fds (redirection_undo_list s1)"
  using cleanup_undoes [OF assms] by blast

theorem redirections_are_undone_witness:
  "fds (cleanup_redirects demo_redir_ports (redirection_undo_list demo_redirected) demo_later) =
     (\<lambda>n. if n \<in> undone_fds (redirection_undo_list demo_redirected) then fds demo_rstate n else fds demo_later n) \<and>
   {n. fds demo_redirected n \<noteq> fds demo_rstate n} \<subseteq> undone_fds (redirection_undo_list demo_redirected)"
  by (rule redirections_are_undone [OF demo_fits demo_run demo_later_kept])

text \<open>In the example the undo list names the four redirected descriptors, the moved one and the copies;
  the descriptor 7 that the command opened stays open, and 5, which was closed already, would be closed again.\<close>

lemma demo_undone_fds: "undone_fds (redirection_undo_list demo_redirected) = {0, 1, 2, 4, 5, 10, 11, 12, 13}"
  by code_simp

text \<open>C13: A command leaves the descriptor table as it found it, when its redirections succeed and when one of them fails
  and the body is not run, under these conditions: the body keeps the table it is given; the table is within the
  limit, descriptors 0 to 2 are not close-on-exec, and there are free numbers to save others to; and every change of the
  redirections is remembered, that is, there is no \<open>{var}\<close>, no \<open>&>\<close> with descriptor 2 closed and no moving of an open
  descriptor onto a closed one.\<close>

theorem command_leaves_no_descriptor:
  assumes "redirections_fit pt rs s" and "\<And>s'. fds (snd (body s')) = fds s'"
  shows "fds (snd (with_redirections pt rs body s)) = fds s"
proof -
  obtain e s1 where run: "do_redirections pt rs both_flags s = (e, s1)" by fastforce
  obtain r s2 where body: "body (s1\<lparr>redirection_undo_list := [], exec_redirection_undo_list := []\<rparr>) = (r, s2)" by fastforce
  with assms(2) [of "s1\<lparr>redirection_undo_list := [], exec_redirection_undo_list := []\<rparr>"] have keep: "fds s2 = fds s1" by simp
  have "fds (cleanup_redirects pt (redirection_undo_list s1) s2) = fds s"
    by (rule redirections.undoing [OF assms(1) run keep])
  then show ?thesis
    using run body undo_partial_restores [OF assms(1) run]
    by (cases "redirection_undo_list s1 = []") (simp_all add: with_redirections_def both_flags_def)
qed

theorem command_leaves_no_descriptor_witness:
  "fds (snd (with_redirections demo_redir_ports demo_redirs (\<lambda>s. (0 :: int, add_exec_redirect (closer_of 7) s)) demo_rstate)) =
     fds demo_rstate"
  by (rule command_leaves_no_descriptor [OF demo_fits]) simp

text \<open>A list of redirections with no command changes no descriptor of the shell.\<close>

theorem redirections_alone_change_nothing:
  assumes "redirections_fit pt rs s"
  shows "fds (snd (null_command pt fd_is_bash_input child elsewhere rs s)) = fds s"
proof -
  obtain e s1 where run: "do_redirections pt rs both_flags s = (e, s1)" by fastforce
  from redirections.leave_at_once [OF assms run] show ?thesis
    using run by (simp add: null_command_def null_redirections_def both_flags_def)
qed

theorem redirections_alone_change_nothing_witness:
  "fds (snd (null_command demo_redir_ports (\<lambda>n. n = 0) (\<lambda>_ w. w) False demo_redirs demo_rstate)) = fds demo_rstate"
  by (rule redirections_alone_change_nothing [OF demo_fits])

text \<open>Moving a descriptor onto a closed one: only the closing of the new one is remembered.\<close>

lemma moved_to_closed_run:
  assumes ri: "rd_instruction r \<in> {r_move_input, r_move_output}" and r: "\<not> has_flag (rd_rflags r) REDIR_VARASSIGN"
    and d: "rd_redirector r = Dest d" "rd_redirectee r = Dest src" "src \<noteq> d" "0 \<le> d" "d < fd_limit pt" "fds s d = None"
    and src: "fds s src = Some x"
  obtains s1 where "do_redirections pt [r] both_flags s = (0, s1)" "fds s1 src = None"
    "redirection_undo_list s1 = [closer_of d]"
proof -
  obtain ob c where x: "x = (ob, c)" by (cases x)
  let ?s = "cleared s"
  let ?t = "(add_undo_close_redirect d ?s)\<lparr>fds := (fds s)(d \<mapsto> (ob, False))\<rparr>"
  define s1 where "s1 = settle_dup both_flags r (rd_instruction r) src d ?t"
  have "dup2 (fd_limit pt) (fds ?s) src d = Inr ((fds s)(d \<mapsto> (ob, False)))"
    using d src x by (simp add: dup2_def)
  then have "redirect_dup pt both_flags r (rd_instruction r) ?s = (0, s1)"
    using redirect_dup_cases(1) [OF r both_flags, of d src ?s pt "rd_instruction r"] d by (simp add: s1_def)
  then have run: "do_redirections pt [r] both_flags s = (0, s1)"
    using ri by (auto simp: do_redirections_def do_redirection_internal_def redirect_as_def TRANSLATE_REDIRECT_def Let_def)
  have "fds ?t d = Some (ob, False)" by simp
  then obtain c' where s1: "fds s1 = (let t = (fds ?t)(d \<mapsto> (ob, c')) in
        if rd_instruction r = r_move_input \<or> rd_instruction r = r_move_output then t(src := None) else t)"
      "redirection_undo_list s1 = redirection_undo_list ?t"
    using settle_dup_table [OF _ d(3)] unfolding s1_def by metis
  have "fds s1 src = None" using s1(1) ri by (auto simp: Let_def)
  moreover have "redirection_undo_list s1 = [closer_of d]" using s1(2) by (simp add: add_undo_close_redirect_def)
  ultimately show thesis using that run by blast
qed

text \<open>C36: Moving a descriptor onto a closed one is not undone: the test of \<open>do_redirection_internal\<close> asks whether
  the new descriptor is open, not the moved one. After a compound command with such a redirection, like
  \<open>{ :; } 5<&4-\<close>, whose body was run and kept the table, the moved descriptor of the shell is closed,
  whatever the table and whatever else it holds.\<close>

theorem moved_to_closed_is_lost:
  assumes "rd_instruction r \<in> {r_move_input, r_move_output}" and "\<not> has_flag (rd_rflags r) REDIR_VARASSIGN"
    and "rd_redirector r = Dest d" "rd_redirectee r = Dest src" "src \<noteq> d" "0 \<le> d" "d < fd_limit pt" "fds s d = None"
    and "fds s src = Some x" and "\<And>s'. fds (snd (body s')) = fds s'"
  shows "fst (with_redirections pt [r] body s) \<noteq> None \<and> fds (snd (with_redirections pt [r] body s)) src = None"
proof -
  obtain s1 where s1: "do_redirections pt [r] both_flags s = (0, s1)" "fds s1 src = None"
    "redirection_undo_list s1 = [closer_of d]"
    using moved_to_closed_run [OF assms(1-9)] .
  obtain b s2 where body: "body (s1\<lparr>redirection_undo_list := [], exec_redirection_undo_list := []\<rparr>) = (b, s2)" by fastforce
  with assms(10) [of "s1\<lparr>redirection_undo_list := [], exec_redirection_undo_list := []\<rparr>"] s1(2)
  have "fds s2 src = None" by simp
  then have "fds (cleanup_redirects pt [closer_of d] s2) src = None"
    by (simp add: cleanup_redirects_def do_redirections_def close_with_closer close_fd_def)
  with s1 body show ?thesis by (simp add: with_redirections_def both_flags_def)
qed

theorem moved_to_closed_is_lost_witness:
  "fst (with_redirections demo_redir_ports [make_redirection (Dest 5) r_move_input (Dest 4) 0] (\<lambda>s. (0 :: int, s)) demo_rstate) \<noteq> None \<and>
   fds (snd (with_redirections demo_redir_ports [make_redirection (Dest 5) r_move_input (Dest 4) 0] (\<lambda>s. (0 :: int, s)) demo_rstate)) 4 = None"
  by (rule moved_to_closed_is_lost [where d = 5 and x = "(4, False)"])
    (simp_all add: make_redirection_simple demo_redir_ports_def demo_rstate_def has_flag_def)

end
