(* ===== verification/Sh_Quote.thy ===== *)
theory Sh_Quote
  imports Rash_Prelude
begin

text \<open>
  Quoting of strings to be read again by the shell (lib/sh/shquote.c) and the \<open>$'...'\<close> forms
  (lib/sh/strtrans.c), in a locale whose characters the code handles byte by byte: one byte per
  character. (In UTF-8 the code copies a multibyte character whole; no byte of one is special.)
  Which characters print is a parameter, since it is the locale's. \<open>shell_read\<close> is the
  specification: what the shell makes of a word in which nothing may expand or split.
\<close>

definition c_sq :: char where "c_sq = CHR 0x27"
definition c_dq :: char where "c_dq = CHR 0x22"
definition c_bs :: char where "c_bs = CHR 0x5C"
definition c_nl :: char where "c_nl = CHR 0x0A"
definition c_esc :: char where "c_esc = CHR 0x1B"
definition CTLESC :: char where "CTLESC = CHR 0x01"
definition CTLNUL :: char where "CTLNUL = CHR 0x7F"

lemmas char_defs = c_sq_def c_dq_def c_bs_def c_nl_def c_esc_def CTLESC_def CTLNUL_def

text \<open>The characters of the syntax table that are escaped in double quotes (\<open>CBSDQUOTE\<close>).\<close>

definition cbsdquote :: "char \<Rightarrow> bool" where
  "cbsdquote c \<longleftrightarrow> c = c_bs \<or> c = CHR 0x60 \<or> c = CHR 0x24 \<or> c = c_dq \<or> c = c_nl"

text \<open>The table of characters to backslash-quote by default.\<close>

definition bstab :: "char \<Rightarrow> bool" where
  "bstab c \<longleftrightarrow> c \<in> {CHR 0x09, CHR 0x0A, CHR 0x20, CHR 0x21, CHR 0x22, CHR 0x24, CHR 0x26, CHR 0x27,
     CHR 0x28, CHR 0x29, CHR 0x2A, CHR 0x2C, CHR 0x3B, CHR 0x3C, CHR 0x3E, CHR 0x3F,
     CHR 0x5B, CHR 0x5C, CHR 0x5D, CHR 0x5E, CHR 0x60, CHR 0x7B, CHR 0x7C, CHR 0x7D}"

section \<open>shquote.c\<close>

fun single_quote_loop :: "cstring \<Rightarrow> cstring" where
  "single_quote_loop [] = []"
| "single_quote_loop (c # s) =
     c # (if c = c_sq then [c_bs, c_sq, c_sq] else []) @ single_quote_loop s"

definition sh_single_quote :: "cstring \<Rightarrow> cstring" where
  "sh_single_quote s =
     (if s = [c_sq] then [c_bs, c_sq] else c_sq # single_quote_loop s @ [c_sq])"

fun double_quote_loop :: "cstring \<Rightarrow> cstring" where
  "double_quote_loop [] = []"
| "double_quote_loop (c # s) =
     (if cbsdquote c \<and> c \<noteq> c_nl then [c_bs] else []) @ c # double_quote_loop s"

definition sh_double_quote :: "cstring \<Rightarrow> cstring" where
  "sh_double_quote s = c_dq # double_quote_loop s @ [c_dq]"

fun mkdoublequoted_loop :: "bool \<Rightarrow> cstring \<Rightarrow> cstring" where
  "mkdoublequoted_loop flags [] = []"
| "mkdoublequoted_loop flags (c # s) =
     (if flags \<and> c = c_dq then [c_bs] else []) @ c # mkdoublequoted_loop flags s"

definition sh_mkdoublequoted :: "cstring \<Rightarrow> bool \<Rightarrow> cstring" where
  "sh_mkdoublequoted s flags = c_dq # mkdoublequoted_loop flags s @ [c_dq]"

fun un_double_quote_loop :: "bool \<Rightarrow> cstring \<Rightarrow> cstring" where
  "un_double_quote_loop pass_next [] = []"
| "un_double_quote_loop pass_next (c # s) =
     (if pass_next then c # un_double_quote_loop False s
      else if c = c_bs \<and> (case s of [] \<Rightarrow> False | d # _ \<Rightarrow> cbsdquote d) then un_double_quote_loop True s
      else c # un_double_quote_loop False s)"

definition sh_un_double_quote :: "cstring \<Rightarrow> cstring" where
  "sh_un_double_quote s = un_double_quote_loop False s"

definition shellblank :: "char \<Rightarrow> bool" where
  "shellblank c \<longleftrightarrow> c = CHR 0x20 \<or> c = CHR 0x09"

text \<open>\<open>sh_backslash_quote\<close>; \<open>prev\<close> is the character before, None at the start.\<close>

definition tilde_place :: "char option \<Rightarrow> bool" where
  "tilde_place prev \<longleftrightarrow> prev = None \<or> prev = Some (CHR 0x3A) \<or> prev = Some (CHR 0x3D)"

fun backslash_quote_loop :: "(char \<Rightarrow> bool) \<Rightarrow> 32 word \<Rightarrow> char option \<Rightarrow> cstring \<Rightarrow> cstring" where
  "backslash_quote_loop table flags prev [] = []"
| "backslash_quote_loop table flags prev (c # s) =
     (if table c then [c_bs]
      else if c = CHR 0x23 \<and> prev = None then [c_bs]
      else if flags AND 1 \<noteq> 0 \<and> c = CHR 0x7E \<and> tilde_place prev then [c_bs]
      else if flags AND 2 \<noteq> 0 \<and> shellblank c then [c_bs]
      else []) @ c # backslash_quote_loop table flags (Some c) s"

definition sh_backslash_quote :: "cstring \<Rightarrow> (char \<Rightarrow> bool) option \<Rightarrow> 32 word \<Rightarrow> cstring" where
  "sh_backslash_quote s table flags =
     backslash_quote_loop (case table of None \<Rightarrow> bstab | Some t \<Rightarrow> t) flags None s"

fun backslash_dquote_loop :: "cstring \<Rightarrow> cstring" where
  "backslash_dquote_loop [] = []"
| "backslash_dquote_loop (c # s) =
     (if cbsdquote c \<and> c \<noteq> c_nl then [c_bs]
      else if c = CTLESC \<or> c = CTLNUL then [CTLESC] else []) @ c # backslash_dquote_loop s"

definition sh_backslash_quote_for_double_quotes :: "cstring \<Rightarrow> cstring" where
  "sh_backslash_quote_for_double_quotes s = backslash_dquote_loop s"

fun shell_metas_loop :: "char option \<Rightarrow> cstring \<Rightarrow> bool" where
  "shell_metas_loop prev [] = False"
| "shell_metas_loop prev (c # s) =
     (if c \<in> {CHR 0x20, CHR 0x09, CHR 0x0A, CHR 0x27, CHR 0x22, CHR 0x5C, CHR 0x7C, CHR 0x26, CHR 0x3B,
           CHR 0x28, CHR 0x29, CHR 0x3C, CHR 0x3E, CHR 0x21, CHR 0x7B, CHR 0x7D, CHR 0x2A, CHR 0x5B, CHR 0x3F,
           CHR 0x5D, CHR 0x5E, CHR 0x24, CHR 0x60} then True
      else if c = CHR 0x7E \<and> tilde_place prev then True
      else if c = CHR 0x23 \<and> prev = None then True
      else shell_metas_loop (Some c) s)"

definition sh_contains_shell_metas :: "cstring \<Rightarrow> bool" where
  "sh_contains_shell_metas s = shell_metas_loop None s"

definition sh_contains_quotes :: "cstring \<Rightarrow> bool" where
  "sh_contains_quotes s \<longleftrightarrow> List.find (\<lambda>c. c = c_sq \<or> c = c_dq \<or> c = c_bs) s \<noteq> None"

section \<open>strtrans.c\<close>

definition to_char_digit :: "nat \<Rightarrow> char" where
  "to_char_digit d = char_of (d + 48)"

definition ansic_escapes :: "(char \<times> char) list" where
  "ansic_escapes = [(c_esc, CHR ''E''), (CHR 0x07, CHR ''a''), (CHR 0x0B, CHR ''v''), (CHR 0x08, CHR ''b''),
     (CHR 0x0C, CHR ''f''), (CHR 0x0A, CHR ''n''), (CHR 0x0D, CHR ''r''), (CHR 0x09, CHR ''t''),
     (c_bs, c_bs), (c_sq, c_sq)]"

definition ansic_quote_char :: "(char \<Rightarrow> bool) \<Rightarrow> char \<Rightarrow> cstring" where
  "ansic_quote_char isprint c =
     (case map_of ansic_escapes c of
        Some d \<Rightarrow> [c_bs, d]
      | None \<Rightarrow>
          if isprint c then [c]
          else
            (let n = (of_char c :: nat) in
             [c_bs, to_char_digit (n div 64 mod 8), to_char_digit (n div 8 mod 8), to_char_digit (n mod 8)]))"

definition ansic_quote :: "(char \<Rightarrow> bool) \<Rightarrow> cstring \<Rightarrow> cstring option" where
  "ansic_quote isprint s =
     (if s = [] then None
      else Some (CHR 0x24 # c_sq # concat (map (ansic_quote_char isprint) s) @ [c_sq]))"

definition ansic_shouldquote :: "(char \<Rightarrow> bool) \<Rightarrow> cstring \<Rightarrow> bool" where
  "ansic_shouldquote isprint s \<longleftrightarrow> List.find (\<lambda>c. \<not> isprint c) s \<noteq> None"

definition sh_quote_reusable :: "(char \<Rightarrow> bool) \<Rightarrow> cstring option \<Rightarrow> bool \<Rightarrow> cstring option" where
  "sh_quote_reusable isprint s flags =
     (case s of
        None \<Rightarrow> None
      | Some t \<Rightarrow>
          if t = [] then Some [c_sq, c_sq]
          else if ansic_shouldquote isprint t then ansic_quote isprint t
          else if flags then Some (sh_backslash_quote t None 1)
          else Some (sh_single_quote t))"

text \<open>\<open>ansicstr\<close>: reading at most \<open>n\<close> characters of a class.\<close>

fun take_class :: "(char \<Rightarrow> bool) \<Rightarrow> nat \<Rightarrow> cstring \<Rightarrow> cstring" where
  "take_class P 0 s = []"
| "take_class P (Suc n) [] = []"
| "take_class P (Suc n) (c # s) = (if P c then c # take_class P n s else [])"

definition isoctal :: "char \<Rightarrow> bool" where
  "isoctal c \<longleftrightarrow> CHR ''0'' \<le> c \<and> c \<le> CHR ''7''"

definition isxdigit :: "char \<Rightarrow> bool" where
  "isxdigit c \<longleftrightarrow> (CHR ''0'' \<le> c \<and> c \<le> CHR ''9'') \<or> (CHR ''a'' \<le> c \<and> c \<le> CHR ''f'') \<or> (CHR ''A'' \<le> c \<and> c \<le> CHR ''F'')"

definition octvalue :: "char \<Rightarrow> nat" where
  "octvalue c = of_char c - 48"

definition hexvalue :: "char \<Rightarrow> nat" where
  "hexvalue c =
     (if CHR ''a'' \<le> c \<and> c \<le> CHR ''f'' then of_char c - 97 + 10
      else if CHR ''A'' \<le> c \<and> c \<le> CHR ''F'' then of_char c - 65 + 10
      else of_char c - 48)"

definition radix_value :: "nat \<Rightarrow> (char \<Rightarrow> nat) \<Rightarrow> nat \<Rightarrow> cstring \<Rightarrow> nat" where
  "radix_value b dv start ds = foldl (\<lambda>v d. v * b + dv d) start ds"

text \<open>What one escape yields: a character with text before it and the rest of the input; text that
  is not checked for control characters; or the end of the string at \<open>\c\<close>.\<close>

datatype ansi_esc = Esc_char cstring char cstring | Esc_raw cstring cstring | Esc_stop

definition simple_escapes :: "(char \<times> char) list" where
  "simple_escapes = [(CHR ''a'', CHR 0x07), (CHR ''v'', CHR 0x0B), (CHR ''b'', CHR 0x08), (CHR ''e'', c_esc),
     (CHR ''E'', c_esc), (CHR ''f'', CHR 0x0C), (CHR ''n'', CHR 0x0A), (CHR ''r'', CHR 0x0D), (CHR ''t'', CHR 0x09)]"

text \<open>\<open>TOCTRL\<close>: upper case and lower case have the same low five bits.\<close>

definition toctrl :: "char \<Rightarrow> char" where
  "toctrl c = (if c = CHR ''?'' then CHR 0x7F else char_of ((of_char c :: nat) mod 32))"

definition hex_plain :: "cstring \<Rightarrow> ansi_esc" where
  "hex_plain s =
     (let ds = take_class isxdigit 2 s; s' = drop (length ds) s in
      if ds = [] then Esc_char [c_bs] (CHR ''x'') s'
      else Esc_char [] (char_of (radix_value 16 hexvalue 0 ds mod 256)) s')"

definition hex_brace :: "cstring \<Rightarrow> ansi_esc" where
  "hex_brace s =
     (let ds = takeWhile isxdigit s; s' = drop (length ds) s in
      Esc_char [] (char_of (radix_value 16 hexvalue 0 ds mod 256))
        (if s' \<noteq> [] \<and> hd s' = CHR 0x7D then tl s' else s'))"

text \<open>\<open>\x\<close> takes two digits; \<open>\x{\<close>, for the parser, all digits and a closing brace.\<close>

definition hex_escape :: "32 word \<Rightarrow> cstring \<Rightarrow> ansi_esc" where
  "hex_escape flags s =
     (if flags AND 2 \<noteq> 0 \<and> s \<noteq> [] \<and> hd s = CHR 0x7B then hex_brace (tl s) else hex_plain s)"

definition octal_escape :: "32 word \<Rightarrow> char \<Rightarrow> cstring \<Rightarrow> ansi_esc" where
  "octal_escape flags c s =
     (let ds = take_class isoctal (if flags AND 1 \<noteq> 0 \<and> c = CHR ''0'' then 3 else 2) s in
      Esc_char [] (char_of (radix_value 8 octvalue (octvalue c) ds mod 256)) (drop (length ds) s))"

definition unicode_escape :: "(nat \<Rightarrow> cstring) \<Rightarrow> char \<Rightarrow> cstring \<Rightarrow> ansi_esc" where
  "unicode_escape u32cconv c s =
     (let ds = take_class isxdigit (if c = CHR ''u'' then 4 else 8) s; v = radix_value 16 hexvalue 0 ds;
          s' = drop (length ds) s in
      if ds = [] then Esc_char [c_bs] c s'
      else if v \<le> 0x7f then Esc_char [] (char_of v) s'
      else Esc_raw (u32cconv v) s')"

definition control_escape :: "32 word \<Rightarrow> char \<Rightarrow> cstring \<Rightarrow> ansi_esc" where
  "control_escape flags c s =
     (let s1 = s in
      if flags AND 2 \<noteq> 0 \<and> c = c_bs \<and> s1 \<noteq> [] \<and> hd s1 = c then Esc_char [] (toctrl c) (tl s1)
      else if flags AND 2 \<noteq> 0 \<and> c = CTLESC \<and> s1 \<noteq> [] \<and> (hd s1 = CTLESC \<or> hd s1 = CTLNUL)
        then Esc_char [] (toctrl (hd s1)) (tl s1)
      else Esc_char [] (toctrl c) s1)"

definition ansi_escape :: "32 word \<Rightarrow> bool \<Rightarrow> (nat \<Rightarrow> cstring) \<Rightarrow> char \<Rightarrow> cstring \<Rightarrow> ansi_esc" where
  "ansi_escape flags sawc u32cconv c s =
     (case map_of simple_escapes c of
        Some d \<Rightarrow> Esc_char [] d s
      | None \<Rightarrow>
          if CHR ''1'' \<le> c \<and> c \<le> CHR ''7'' then
            (if flags AND 1 \<noteq> 0 then Esc_char [c_bs] c s else octal_escape flags c s)
          else if c = CHR ''0'' then octal_escape flags c s
          else if c = CHR ''x'' then hex_escape flags s
          else if c = CHR ''u'' \<or> c = CHR ''U'' then unicode_escape u32cconv c s
          else if c = c_bs then Esc_char [] c s
          else if c = c_sq \<or> c = c_dq \<or> c = CHR ''?'' then
            Esc_char (if flags AND 1 \<noteq> 0 then [c_bs] else []) c s
          else if c = CHR ''c'' \<and> sawc then Esc_stop
          else if c = CHR ''c'' \<and> flags AND 1 = 0 \<and> s \<noteq> [] then control_escape flags (hd s) (tl s)
          else Esc_char (if flags AND 4 = 0 then [c_bs] else []) c s)"

definition esc_rest :: "ansi_esc \<Rightarrow> cstring" where
  "esc_rest e = (case e of Esc_char p c r \<Rightarrow> r | Esc_raw out r \<Rightarrow> r | Esc_stop \<Rightarrow> [])"

lemma esc_rest_simps [simp]:
  "esc_rest (Esc_char p c r) = r" "esc_rest (Esc_raw q r) = r" "esc_rest Esc_stop = []"
  by (simp_all add: esc_rest_def)

lemma esc_rest_octal [simp]: "length (esc_rest (octal_escape flags c s)) \<le> length s"
  by (simp add: octal_escape_def Let_def)

lemma esc_rest_unicode [simp]: "length (esc_rest (unicode_escape u c s)) \<le> length s"
  by (simp add: unicode_escape_def Let_def)

lemma esc_rest_control [simp]: "length (esc_rest (control_escape flags c s)) \<le> length s"
  by (simp add: control_escape_def Let_def)

lemma esc_rest_hex [simp]: "length (esc_rest (hex_escape flags s)) \<le> length s"
proof -
  have b: "length (esc_rest (hex_brace t)) \<le> length t" for t
    by (simp add: hex_brace_def Let_def)
  have "length (esc_rest (hex_brace (tl s))) \<le> length s"
    by (rule order_trans [OF b]) simp
  moreover have "length (esc_rest (hex_plain s)) \<le> length s" by (simp add: hex_plain_def Let_def)
  ultimately show ?thesis by (simp add: hex_escape_def)
qed

lemma esc_rest_length: "length (esc_rest (ansi_escape flags sawc u c s)) \<le> length s"
proof (cases "map_of simple_escapes c")
  case None
  have tl: "length (esc_rest (control_escape flags (hd s) (tl s))) \<le> length s"
    by (rule order_trans [OF esc_rest_control]) simp
  show ?thesis unfolding ansi_escape_def None option.case
    by (simp only: if_distrib [of esc_rest] if_distrib [of length] if_distrib [of "\<lambda>n. n \<le> length s"] esc_rest_simps
        esc_rest_octal esc_rest_unicode esc_rest_hex tl list.size zero_le order_refl if_cancel)
next
  case (Some d)
  then show ?thesis by (simp add: ansi_escape_def)
qed

definition ctl_quote :: "32 word \<Rightarrow> char \<Rightarrow> cstring" where
  "ctl_quote flags c = (if flags AND 2 \<noteq> 0 \<and> (c = CTLESC \<or> c = CTLNUL) then [CTLESC] else [])"

lemma esc_case_length:
  "e = ansi_escape flags sawc u (hd s) (tl s) \<Longrightarrow> length (esc_rest e) \<le> length s"
  "ansi_escape flags sawc u (hd s) (tl s) = e \<Longrightarrow> length (esc_rest e) \<le> length s"
  using order_trans [OF esc_rest_length [of flags sawc u "hd s" "tl s"], of "length s"] by auto

text \<open>The main loop: the text, and whether \<open>\c\<close> ended it.\<close>

function ansicstr_loop :: "32 word \<Rightarrow> bool \<Rightarrow> (nat \<Rightarrow> cstring) \<Rightarrow> cstring \<Rightarrow> cstring \<times> bool" where
  "ansicstr_loop flags sawc u [] = ([], False)"
| "ansicstr_loop flags sawc u (c # s) =
     (if c \<noteq> c_bs \<or> s = [] then apfst (\<lambda>r. c # r) (ansicstr_loop flags sawc u s)
      else
        (case ansi_escape flags sawc u (hd s) (tl s) of
           Esc_stop \<Rightarrow> ([], True)
         | Esc_raw out rest \<Rightarrow>
             apfst (\<lambda>r. out @ r) (ansicstr_loop flags sawc u (esc_rest (ansi_escape flags sawc u (hd s) (tl s))))
         | Esc_char pre d rest \<Rightarrow>
             apfst (\<lambda>r. pre @ ctl_quote flags d @ d # r)
               (ansicstr_loop flags sawc u (esc_rest (ansi_escape flags sawc u (hd s) (tl s))))))"
  by pat_completeness auto

termination
  by (relation "measure (\<lambda>(flags, sawc, u, s). length s)")
     (auto simp: less_Suc_eq_le dest: esc_case_length(2))

text \<open>\<open>ansicstr\<close>: None for an empty string; \<open>sawc\<close> says whether the caller asked to be told
  about \<open>\c\<close>.\<close>

definition ansicstr :: "cstring \<Rightarrow> 32 word \<Rightarrow> bool \<Rightarrow> (nat \<Rightarrow> cstring) \<Rightarrow> (cstring \<times> bool) option" where
  "ansicstr s flags sawc u32cconv =
     (if s = [] then None else Some (ansicstr_loop flags sawc u32cconv s))"

definition ansiexpand :: "(nat \<Rightarrow> cstring) \<Rightarrow> cstring \<Rightarrow> nat \<Rightarrow> nat \<Rightarrow> cstring" where
  "ansiexpand u32cconv s start e =
     (let temp = take (e - start) (drop start s) in
      case ansicstr temp 2 False u32cconv of None \<Rightarrow> temp | Some (r, _) \<Rightarrow> r)"

section \<open>What the shell reads\<close>

text \<open>The specification: the text of a word made of plain characters, backslash escapes, single quotes
  and double quotes; None when a quote is not closed or when a character would split the word,
  start a comment or be expanded.\<close>

datatype qmode = Plain | Single | Double

definition special_plain :: "char option \<Rightarrow> char \<Rightarrow> bool" where
  "special_plain prev c \<longleftrightarrow>
     c \<in> {CHR 0x20, CHR 0x09, CHR 0x0A, CHR 0x7C, CHR 0x26, CHR 0x3B, CHR 0x28, CHR 0x29, CHR 0x3C, CHR 0x3E,
       CHR 0x24, CHR 0x60, CHR 0x2A, CHR 0x3F, CHR 0x5B, CHR 0x5D, CHR 0x21, CHR 0x7B, CHR 0x7D, CHR 0x5E} \<or>
     (c = CHR 0x7E \<and> tilde_place prev) \<or> (c = CHR 0x23 \<and> prev = None)"

fun shell_read :: "char option \<Rightarrow> qmode \<Rightarrow> cstring \<Rightarrow> cstring option" where
  "shell_read prev Plain [] = Some []"
| "shell_read prev Single [] = None"
| "shell_read prev Double [] = None"
| "shell_read prev Plain (c # s) =
     (if c = c_bs then
        (case s of
           [] \<Rightarrow> None
         | d # s' \<Rightarrow>
             if d = c_nl then shell_read prev Plain s'
             else map_option (\<lambda>r. d # r) (shell_read (Some d) Plain s'))
      else if c = c_sq then shell_read (Some c) Single s
      else if c = c_dq then shell_read (Some c) Double s
      else if special_plain prev c then None
      else map_option (\<lambda>r. c # r) (shell_read (Some c) Plain s))"
| "shell_read prev Single (c # s) =
     (if c = c_sq then shell_read (Some c) Plain s
      else map_option (\<lambda>r. c # r) (shell_read (Some c) Single s))"
| "shell_read prev Double (c # s) =
     (if c = c_dq then shell_read (Some c) Plain s
      else if c = c_bs then
        (case s of
           [] \<Rightarrow> None
         | d # s' \<Rightarrow>
             if d = c_nl then shell_read prev Double s'
             else if cbsdquote d then map_option (\<lambda>r. d # r) (shell_read (Some d) Double s')
             else map_option (\<lambda>r. c # r) (shell_read (Some c) Double s))
      else if c = CHR 0x24 \<or> c = CHR 0x60 then None
      else map_option (\<lambda>r. c # r) (shell_read (Some c) Double s))"

lemma single_quote_loop_reads:
  "shell_read prev Single (single_quote_loop s @ [c_sq]) = Some s"
  by (induction s arbitrary: prev) (auto simp: char_defs)

lemma double_quote_loop_reads:
  "shell_read prev Double (double_quote_loop s @ [c_dq]) = Some s"
  by (induction s arbitrary: prev) (auto simp: cbsdquote_def char_defs)

lemma single_quote_reads: "shell_read None Plain (sh_single_quote s) = Some s"
proof (cases "s = [c_sq]")
  case True
  then show ?thesis by (simp add: sh_single_quote_def char_defs)
next
  case False
  have "c_sq \<noteq> c_bs" by (simp add: char_defs)
  with False show ?thesis by (simp add: sh_single_quote_def single_quote_loop_reads)
qed

text \<open>Whatever the string, the shell reads the single-quoted form back as that string: nothing in it
  is expanded or splits the word, quotes included.\<close>

theorem single_quote_reads_back: "shell_read None Plain (sh_single_quote s) = Some s"
  by (rule single_quote_reads)

text \<open>Whatever the string, the shell reads the double-quoted form back as that string.\<close>

theorem double_quote_reads_back: "shell_read None Plain (sh_double_quote s) = Some s"
proof -
  have "c_dq \<noteq> c_bs" "c_dq \<noteq> c_sq" by (simp_all add: char_defs)
  then show ?thesis by (simp add: sh_double_quote_def double_quote_loop_reads)
qed

lemma special_plain_bstab:
  "bstab c \<or> c = CHR 0x7E \<and> tilde_place prev \<or> c = CHR 0x23 \<and> prev = None \<or>
   (\<not> special_plain prev c \<and> c \<noteq> c_bs \<and> c \<noteq> c_sq \<and> c \<noteq> c_dq)"
proof -
  have "bstab c_bs" "bstab c_sq" "bstab c_dq" by (simp_all add: bstab_def char_defs)
  moreover have "special_plain prev c \<Longrightarrow> bstab c \<or> c = CHR 0x7E \<and> tilde_place prev \<or> c = CHR 0x23 \<and> prev = None"
    unfolding special_plain_def bstab_def insert_iff empty_iff by (elim disjE) simp_all
  ultimately show ?thesis by blast
qed

lemma backslash_loop_reads:
  "c_nl \<notin> set s \<Longrightarrow> shell_read prev Plain (backslash_quote_loop bstab 1 prev s) = Some s"
proof (induction s arbitrary: prev)
  case Nil
  then show ?case by simp
next
  case (Cons c s)
  have IH: "shell_read (Some c) Plain (backslash_quote_loop bstab 1 (Some c) s) = Some s" using Cons by simp
  have nl: "c \<noteq> c_nl" using Cons.prems by auto
  consider "bstab c \<or> c = CHR 0x7E \<and> tilde_place prev \<or> c = CHR 0x23 \<and> prev = None"
    | "\<not> (bstab c \<or> c = CHR 0x7E \<and> tilde_place prev \<or> c = CHR 0x23 \<and> prev = None)" by blast
  then show ?case
  proof cases
    case 1
    then have "backslash_quote_loop bstab 1 prev (c # s) = c_bs # c # backslash_quote_loop bstab 1 (Some c) s" by auto
    with IH nl show ?thesis by simp
  next
    case 2
    then have "backslash_quote_loop bstab 1 prev (c # s) = c # backslash_quote_loop bstab 1 (Some c) s" by simp
    with IH 2 special_plain_bstab [of c prev] show ?thesis by auto
  qed
qed

lemma backslash_quote_reads: "c_nl \<notin> set s \<Longrightarrow> shell_read None Plain (sh_backslash_quote s None 1) = Some s"
  by (simp add: sh_backslash_quote_def backslash_loop_reads)

text \<open>Backslash quoting with the default table and tilde quoting is read back as the string, when the
  string has no newline (a backslash-newline would be read as a line continuation).\<close>

theorem backslash_quote_reads_back:
  assumes "c_nl \<notin> set s"
  shows "shell_read None Plain (sh_backslash_quote s None 1) = Some s"
  using assms by (rule backslash_quote_reads)

theorem backslash_quote_reads_back_witness:
  "shell_read None Plain (sh_backslash_quote ''~a b*#;'' None 1) = Some ''~a b*#;''"
  by (rule backslash_quote_reads_back) (simp add: c_nl_def)

text \<open>\<open>sh_un_double_quote\<close> undoes \<open>sh_double_quote\<close>, up to the two quote characters it
  leaves in place.\<close>

theorem un_double_quote_inverse:
  "sh_un_double_quote (sh_double_quote s) = c_dq # s @ [c_dq]"
proof -
  have "un_double_quote_loop False (double_quote_loop t @ [c_dq]) = t @ [c_dq]" for t
    by (induction t) (auto simp: cbsdquote_def char_defs)
  moreover have "c_dq \<noteq> c_bs" by (simp add: char_defs)
  ultimately show ?thesis by (simp add: sh_un_double_quote_def sh_double_quote_def)
qed

text \<open>A string in which \<open>sh_contains_shell_metas\<close> finds nothing needs no quoting: the shell reads it
  as it is.\<close>

theorem no_metas_reads_back:
  assumes "\<not> sh_contains_shell_metas s"
  shows "shell_read None Plain s = Some s"
proof -
  have "\<not> shell_metas_loop prev t \<Longrightarrow> shell_read prev Plain t = Some t" for prev t
    by (induction t arbitrary: prev) (auto simp: special_plain_def char_defs split: if_splits)
  with assms show ?thesis by (simp add: sh_contains_shell_metas_def)
qed

theorem no_metas_reads_back_witness: "shell_read None Plain ''a~b#c.txt'' = Some ''a~b#c.txt''"
  by (rule no_metas_reads_back) (simp add: sh_contains_shell_metas_def tilde_place_def)

section \<open>The \<open>$'...'\<close> form is read back\<close>

lemma to_char_digit_eval:
  "to_char_digit 0 = CHR ''0''" "to_char_digit (Suc 0) = CHR ''1''" "to_char_digit 1 = CHR ''1''" "to_char_digit 2 = CHR ''2''"
  "to_char_digit 3 = CHR ''3''" "to_char_digit 4 = CHR ''4''" "to_char_digit 5 = CHR ''5''"
  "to_char_digit 6 = CHR ''6''" "to_char_digit 7 = CHR ''7''"
  by (simp_all add: to_char_digit_def char_of_def bit_0)

lemma octal_digit:
  assumes "k < 8"
  shows "isoctal (to_char_digit k) \<and> octvalue (to_char_digit k) = k \<and>
     (flags AND 1 = 0 \<longrightarrow> ansi_escape flags sawc u (to_char_digit k) s = octal_escape flags (to_char_digit k) s)"
proof -
  from assms have "k \<in> {0, 1, 2, 3, 4, 5, 6, 7}" by auto
  then show ?thesis
    by (elim insertE emptyE)
       (simp_all add: to_char_digit_eval isoctal_def octvalue_def ansi_escape_def simple_escapes_def char_defs)
qed

lemma octal_digits_value:
  assumes "n < (256 :: nat)"
  shows "64 * (n div 64 mod 8) + n div 8 mod 8 * 8 + n mod 8 = n"
    and "64 * (n div 64) + n div 8 mod 8 * 8 + n mod 8 = n"
proof -
  have "n div 8 div 8 * 8 + n div 8 mod 8 = n div 8" and "n div 8 * 8 + n mod 8 = n"
    by (rule div_mult_mod_eq)+
  moreover have "n div 64 = n div 8 div 8" by (simp add: div_mult2_eq)
  ultimately show v: "64 * (n div 64) + n div 8 mod 8 * 8 + n mod 8 = n" by linarith
  have "n div 64 < 4" using assms by auto
  then have "n div 64 mod 8 = n div 64" by simp
  with v show "64 * (n div 64 mod 8) + n div 8 mod 8 * 8 + n mod 8 = n" by simp
qed

lemma ansic_octal:
  assumes "flags AND 1 = 0"
  shows "octal_escape flags (to_char_digit (of_char c div 64 mod 8))
     (to_char_digit (of_char c div 8 mod 8) # to_char_digit (of_char c mod 8) # t) = Esc_char [] c t"
proof -
  have d: "isoctal (to_char_digit k) \<and> octvalue (to_char_digit k) = k" if "k < 8" for k
    using octal_digit [OF that] by blast
  have "take_class isoctal 2 (to_char_digit (of_char c div 8 mod 8) # to_char_digit (of_char c mod 8) # t) =
      [to_char_digit (of_char c div 8 mod 8), to_char_digit (of_char c mod 8)]"
    using d by (simp add: numeral_2_eq_2)
  moreover have "64 * (of_char c div 64 mod 8) + of_char c div 8 mod 8 * 8 + of_char c mod 8 = (of_char c :: nat)"
    and "64 * (of_char c div 64) + of_char c div 8 mod 8 * 8 + of_char c mod 8 = (of_char c :: nat)"
    by (rule octal_digits_value, simp)+
  ultimately show ?thesis
    using assms d by (simp add: octal_escape_def radix_value_def)
qed

lemma ansic_escape_inverse:
  "(c, d) \<in> set ansic_escapes \<Longrightarrow> flags AND 1 = 0 \<Longrightarrow> ansi_escape flags sawc u d t = Esc_char [] c t"
  unfolding ansic_escapes_def set_simps insert_iff empty_iff
  by (elim disjE) (simp_all add: ansi_escape_def simple_escapes_def char_defs)

lemma ansic_char_reads:
  assumes f: "flags AND 1 = 0" and p: "flags AND 2 \<noteq> 0 \<Longrightarrow> \<not> isprint CTLESC \<and> \<not> isprint CTLNUL"
  shows "ansicstr_loop flags sawc u (ansic_quote_char isprint c @ t) =
     apfst (\<lambda>r. ctl_quote flags c @ c # r) (ansicstr_loop flags sawc u t)"
proof (cases "map_of ansic_escapes c")
  case (Some d)
  from ansic_escape_inverse [OF map_of_SomeD [OF Some] f] Some show ?thesis
    by (simp add: ansic_quote_char_def)
next
  case None
  then have nb: "c \<noteq> c_bs" by (auto simp: ansic_escapes_def char_defs)
  show ?thesis
  proof (cases "isprint c")
    case True
    with p have "ctl_quote flags c = []" by (auto simp: ctl_quote_def)
    with None True nb show ?thesis by (simp add: ansic_quote_char_def)
  next
    case False
    let ?d = "\<lambda>k. to_char_digit k"
    have e: "ansi_escape flags sawc u (?d (of_char c div 64 mod 8)) (?d (of_char c div 8 mod 8) # ?d (of_char c mod 8) # t)
        = Esc_char [] c t"
      using octal_digit [of "of_char c div 64 mod 8" flags] ansic_octal [OF f, of c t] f by simp
    from None False e show ?thesis by (simp add: ansic_quote_char_def Let_def)
  qed
qed

lemma ansic_text_reads:
  assumes "flags AND 1 = 0" and "flags AND 2 \<noteq> 0 \<Longrightarrow> \<not> isprint CTLESC \<and> \<not> isprint CTLNUL"
  shows "ansicstr_loop flags sawc u (concat (map (ansic_quote_char isprint) s)) =
     (concat (map (\<lambda>c. ctl_quote flags c @ [c]) s), False)"
  by (induction s) (simp_all add: ansic_char_reads [OF assms])

text \<open>C38: The \<open>$'...'\<close> form of a string expands back to the string, whichever characters the locale
  prints: every control character, quote, backslash and unprintable byte comes back as one
  character, a digit after an octal escape is never swallowed, and \<open>\c\<close> is never seen. (With
  the parser's flag 2 the shell's two internal quoting characters come back quoted.)\<close>

theorem ansic_quote_roundtrip:
  assumes "s \<noteq> []" and "flags AND 1 = 0" and "flags AND 2 \<noteq> 0 \<Longrightarrow> \<not> isprint CTLESC \<and> \<not> isprint CTLNUL"
  shows "\<exists>body. ansic_quote isprint s = Some (CHR 0x24 # c_sq # body @ [c_sq]) \<and>
     ansicstr body flags sawc u = Some (concat (map (\<lambda>c. ctl_quote flags c @ [c]) s), False)"
proof -
  let ?body = "concat (map (ansic_quote_char isprint) s)"
  have "ansic_quote_char isprint c \<noteq> []" for c
    by (simp add: ansic_quote_char_def Let_def split: option.splits)
  with assms(1) have "?body \<noteq> []" by (cases s) auto
  with assms(1) ansic_text_reads [OF assms(2,3)] show ?thesis by (simp add: ansic_quote_def ansicstr_def)
qed

definition ascii_print :: "char \<Rightarrow> bool" where
  "ascii_print c \<longleftrightarrow> CHR 0x20 \<le> c \<and> c < CHR 0x7F"

theorem ansic_quote_roundtrip_witness:
  "\<exists>body. ansic_quote ascii_print [CHR ''a'', c_nl, CHR 0x02, CHR ''7''] = Some (CHR 0x24 # c_sq # body @ [c_sq]) \<and>
     ansicstr body 0 False (\<lambda>v. []) = Some ([CHR ''a'', c_nl, CHR 0x02, CHR ''7''], False)"
  using ansic_quote_roundtrip [of "[CHR ''a'', c_nl, CHR 0x02, CHR ''7'']" 0 ascii_print False "\<lambda>v. []"]
  by (simp add: ctl_quote_def)

text \<open>\<open>sh_quote_reusable\<close> always gives a form the shell reads back as the string, the empty string
  included, when the string needs no \<open>$'...'\<close> form and newline does not print.\<close>

theorem quote_reusable_reads_back:
  assumes "\<not> ansic_shouldquote isprint s" and "\<not> isprint c_nl"
  shows "\<exists>q. sh_quote_reusable isprint (Some s) flags = Some q \<and> q \<noteq> [] \<and> shell_read None Plain q = Some s"
proof (cases "s = []")
  case True
  have "c_sq \<noteq> c_bs" by (simp add: char_defs)
  with True show ?thesis by (simp add: sh_quote_reusable_def)
next
  case False
  have "c_nl \<notin> set s" using assms by (auto simp: ansic_shouldquote_def find_None_iff)
  moreover have "sh_backslash_quote s None 1 \<noteq> []" using False by (cases s) (simp_all add: sh_backslash_quote_def)
  moreover have "sh_single_quote s \<noteq> []" by (simp add: sh_single_quote_def)
  ultimately show ?thesis
    using False assms(1) backslash_quote_reads [of s] single_quote_reads [of s]
    by (cases flags) (simp_all add: sh_quote_reusable_def)
qed

theorem quote_reusable_reads_back_witness:
  "\<exists>q. sh_quote_reusable ascii_print (Some ''$(x) y'') True = Some q \<and> q \<noteq> [] \<and> shell_read None Plain q = Some ''$(x) y''"
  by (rule quote_reusable_reads_back) (simp_all add: ansic_shouldquote_def ascii_print_def c_nl_def)

end
