(* ===== verification/Substring_Exp.thy ===== *)
theory Substring_Exp
  imports Shell_Types
begin

text \<open>
  \<open>${x:offset}\<close> and \<open>${x:offset:length}\<close> (subst.c): \<open>verify_substring_values\<close> on the values of the two expressions, which
  are 64-bit integers, \<open>substring\<close> (stringlib.c) and \<open>pos_params\<close>. The evaluation of an expression
  may fail (None). The locale has single-byte characters.
\<close>

section \<open>Offsets\<close>

text \<open>What the slice is taken of: the value of a variable, that many positional parameters, an associative array of
  that many elements, or an indexed array with its largest index and its number of elements.\<close>

datatype sliced = Of_Value cstring | Of_Params nat | Of_Assoc nat | Of_Array "64 word" nat

datatype slice_values = Bad_Expression | Out_Of_Range | Slice_Values "64 word" "64 word"

text \<open>The limits: for the offset, and for the end.\<close>

definition offset_limit :: "sliced \<Rightarrow> 64 word \<Rightarrow> 64 word" where
  "offset_limit v e1 =
     (case v of
        Of_Value s \<Rightarrow> word_of_nat (length s)
      | Of_Params n \<Rightarrow> word_of_nat n + 1 + (if e1 = 0 then 1 else 0)
      | Of_Assoc n \<Rightarrow> word_of_nat n + (if sint e1 < 0 then 1 else 0)
      | Of_Array mx n \<Rightarrow> mx + (if sint e1 < 0 then 1 else 0))"

definition end_limit :: "sliced \<Rightarrow> 64 word \<Rightarrow> 64 word" where
  "end_limit v e1 = (case v of Of_Assoc n \<Rightarrow> word_of_nat n | Of_Array mx n \<Rightarrow> word_of_nat n | _ \<Rightarrow> offset_limit v e1)"

definition of_elements :: "sliced \<Rightarrow> bool" where
  "of_elements v = (case v of Of_Assoc n \<Rightarrow> True | Of_Array mx n \<Rightarrow> True | _ \<Rightarrow> False)"

definition of_params :: "sliced \<Rightarrow> bool" where
  "of_params v = (case v of Of_Params n \<Rightarrow> True | _ \<Rightarrow> False)"

definition verify_substring_values :: "sliced \<Rightarrow> 64 word option \<Rightarrow> 64 word option option \<Rightarrow> slice_values" where
  "verify_substring_values v first second =
     (case first of
        None \<Rightarrow> Bad_Expression
      | Some x1 \<Rightarrow>
          let len = offset_limit v x1; e1 = (if sint x1 < 0 then x1 + len else x1); len2 = end_limit v x1;
              clip = (\<lambda>x. if sint x > sint len2 then len2 else x)
          in if len = - 1 \<or> sint e1 > sint len \<or> sint e1 < 0 then Out_Of_Range
             else case second of
                    None \<Rightarrow> Slice_Values e1 len2
                  | Some None \<Rightarrow> Bad_Expression
                  | Some (Some e2) \<Rightarrow>
                      if (of_elements v \<or> of_params v) \<and> sint e2 < 0 then Bad_Expression
                      else if of_elements v then Slice_Values e1 e2
                      else if sint e2 < 0 then
                        (if sint (e2 + len2) < 0 \<or> sint (e2 + len2) < sint e1 then Bad_Expression else Slice_Values e1 (clip (e2 + len2)))
                      else Slice_Values e1 (clip (e2 + e1)))"

section \<open>Slices\<close>

text \<open>\<open>substring\<close>; None when it reads beyond the end of the string or asks for more memory than there is.\<close>

definition substring :: "cstring \<Rightarrow> 64 word \<Rightarrow> 64 word \<Rightarrow> cstring option" where
  "substring s start stop =
     (let len = unat (stop - start) in if unat start + len \<le> length s then Some (take len (drop (unat start) s)) else None)"

datatype 'a slice = Expand_Param_Error | No_Value | Undefined | Slice 'a

text \<open>\<open>parameter_brace_substring\<close> for a variable, before the result is quoted.\<close>

definition substring_of_value :: "cstring \<Rightarrow> 64 word option \<Rightarrow> 64 word option option \<Rightarrow> cstring slice" where
  "substring_of_value s first second =
     (case verify_substring_values (Of_Value s) first second of
        Bad_Expression \<Rightarrow> Expand_Param_Error
      | Out_Of_Range \<Rightarrow> No_Value
      | Slice_Values e1 e2 \<Rightarrow> (case substring s e1 e2 of None \<Rightarrow> Undefined | Some r \<Rightarrow> Slice r))"

text \<open>\<open>pos_params\<close>, up to the joining of the words; its bounds have type int. The first of the words that are left
  is always taken.\<close>

definition pos_params :: "cstring \<Rightarrow> cstring list \<Rightarrow> int \<Rightarrow> int \<Rightarrow> cstring list option" where
  "pos_params dollar0 args start stop =
     (if start = stop then None
      else if args = [] \<and> start > 0 then None
      else
        let save = (if start = 0 then dollar0 # args else args);
            i0 = (if start = 0 then 0 else 1);
            params = drop (nat (start - i0)) save;
            i = max i0 start
        in if params = [] then None else Some (if stop \<le> i then take 1 params else take (nat (stop - i)) params))"

text \<open>\<open>parameter_brace_substring\<close> for the positional parameters: the bounds are converted to type int.\<close>

definition to_int :: "64 word \<Rightarrow> int" where
  "to_int w = sint (ucast w :: 32 word)"

definition slice_of_params :: "cstring \<Rightarrow> cstring list \<Rightarrow> 64 word option \<Rightarrow> 64 word option option \<Rightarrow> cstring list slice" where
  "slice_of_params dollar0 args first second =
     (case verify_substring_values (Of_Params (length args)) first second of
        Bad_Expression \<Rightarrow> Expand_Param_Error
      | Out_Of_Range \<Rightarrow> No_Value
      | Slice_Values e1 e2 \<Rightarrow>
          (case pos_params dollar0 args (to_int e1) (to_int e2) of None \<Rightarrow> No_Value | Some ws \<Rightarrow> Slice ws))"

section \<open>Arithmetic without overflow\<close>

lemma sint_add: "- (2 ^ 63) \<le> sint a + sint b \<Longrightarrow> sint a + sint b < 2 ^ 63 \<Longrightarrow> sint (a + b) = sint a + sint b"
  for a b :: "64 word"
  by (simp add: sint_word_ariths signed_take_bit_int_eq_self)

lemma sint_of_nat: "n < 2 ^ 63 \<Longrightarrow> sint (word_of_nat n :: 64 word) = int n"
  by (simp add: signed_of_nat signed_take_bit_int_eq_self)

lemma sint_range: "- (2 ^ 63) \<le> sint a" "sint a < 2 ^ 63" for a :: "64 word"
  using sint_greater_eq [of a] sint_less [of a] by simp_all

lemma unat_sint: "0 \<le> sint a \<Longrightarrow> unat a = nat (sint a)" for a :: "64 word"
  using uint_sint [of a] sint_range(2) [of a] by (simp add: unat_eq_nat_uint take_bit_int_eq_self)

lemma to_int_sint: "- (2 ^ 31) \<le> sint a \<Longrightarrow> sint a < 2 ^ 31 \<Longrightarrow> to_int a = sint a"
proof -
  assume a: "- (2 ^ 31) \<le> sint a" "sint a < 2 ^ 31"
  have "sint (ucast a :: 32 word) = signed_take_bit 31 (uint a)" by (simp add: signed_ucast_eq)
  also have "\<dots> = signed_take_bit 31 (sint a)"
    by (simp add: sint_uint signed_take_bit_signed_take_bit min_def)
  finally show ?thesis using a by (simp add: to_int_def signed_take_bit_int_eq_self)
qed

section \<open>What a slice is\<close>

text \<open>The value of the two limits for the value of a variable.\<close>

lemma value_limits [simp]:
  "offset_limit (Of_Value s) x = word_of_nat (length s)" "end_limit (Of_Value s) x = word_of_nat (length s)"
  "\<not> of_elements (Of_Value s)" "\<not> of_params (Of_Value s)"
  by (simp_all add: offset_limit_def end_limit_def of_elements_def of_params_def)

lemma substring_sint:
  assumes "0 \<le> sint a" and "sint a \<le> sint b" and "sint b \<le> int (length s)"
  shows "substring s a b = Some (take (nat (sint b - sint a)) (drop (nat (sint a)) s))"
proof -
  have "sint (b - a) = sint b - sint a"
    using assms sint_range [of a] sint_range [of b] by (simp add: sint_word_ariths signed_take_bit_int_eq_self)
  then have len: "unat (b - a) = nat (sint b - sint a)" using assms(2) by (simp add: unat_sint)
  have "unat a = nat (sint a)" using assms(1) by (rule unat_sint)
  moreover have "nat (sint a) + nat (sint b - sint a) \<le> length s" using assms by linarith
  ultimately show ?thesis unfolding substring_def Let_def len by simp
qed

text \<open>C40: \<open>${x:offset:length}\<close> for a variable: an offset below 0 counts from the end; one outside the value gives no
  value at all; a length below 0 is a position from the end, which must not lie before the offset. This
  is what the code computes as long as the value is shorter than \<open>2 ^ 62\<close> and its length added to the given
  length stays below \<open>2 ^ 63\<close>, so that no sum overflows.\<close>

theorem value_slice:
  assumes "start = (if sint e1 < 0 then sint e1 + int (length s) else sint e1)"
    and "length s < 2 ^ 62" and "sint e2 + int (length s) < 2 ^ 63"
  shows "substring_of_value s (Some e1) (Some (Some e2)) =
    (if start < 0 \<or> start > int (length s) then No_Value
     else if sint e2 < 0 then
       (if sint e2 + int (length s) < start then Expand_Param_Error
        else Slice (take (nat (sint e2 + int (length s) - start)) (drop (nat start) s)))
     else Slice (take (nat (sint e2)) (drop (nat start) s)))"
proof -
  define n :: "64 word" where "n = word_of_nat (length s)"
  have n: "sint n = int (length s)" unfolding n_def using assms(2) by (intro sint_of_nat) simp
  then have n1: "n \<noteq> - 1" by auto
  define o1 where "o1 = (if sint e1 < 0 then e1 + n else e1)"
  have start: "sint o1 = start"
    using assms(1,2) n sint_range [of e1] sint_add [of e1 n] by (simp add: o1_def split: if_splits)
  have run: "verify_substring_values (Of_Value s) (Some e1) (Some (Some e2)) =
    (if start > int (length s) \<or> start < 0 then Out_Of_Range
     else if sint e2 < 0 then
       (if sint (e2 + n) < 0 \<or> sint (e2 + n) < start then Bad_Expression
        else Slice_Values o1 (if sint (e2 + n) > int (length s) then n else e2 + n))
     else Slice_Values o1 (if sint (e2 + o1) > int (length s) then n else e2 + o1))"
    unfolding verify_substring_values_def Let_def value_limits n_def [symmetric] option.case o1_def [symmetric] start n
    using n1 by simp
  show ?thesis
  proof (cases "start < 0 \<or> start > int (length s)")
    case True
    then show ?thesis using run by (auto simp: substring_of_value_def)
  next
    case range: False
    show ?thesis
    proof (cases "sint e2 < 0")
      case True
      have e2n: "sint (e2 + n) = sint e2 + int (length s)" using n sint_range [of e2] assms(3) sint_add [of e2 n] True by simp
      show ?thesis using run range True e2n start substring_sint [of o1 "e2 + n" s] by (auto simp: substring_of_value_def)
    next
      case False
      have e2o: "sint (e2 + o1) = sint e2 + start" using start range assms(3) False sint_range [of e2] sint_add [of e2 o1] by simp
      show ?thesis
      proof (cases "sint e2 + start > int (length s)")
        case True
        then have "substring s o1 n = Some (take (nat (int (length s) - start)) (drop (nat start) s))"
          using start n range substring_sint [of o1 n s] by simp
        moreover have "take (nat (int (length s) - start)) (drop (nat start) s) = take (nat (sint e2)) (drop (nat start) s)"
          using True range by (subst (1 2) take_all) auto
        ultimately show ?thesis using run range False True e2o by (simp add: substring_of_value_def)
      next
        case fits: False
        then have "substring s o1 (e2 + o1) = Some (take (nat (sint e2)) (drop (nat start) s))"
          using start range False e2o substring_sint [of o1 "e2 + o1" s] by simp
        then show ?thesis using run range False fits e2o by (simp add: substring_of_value_def)
      qed
    qed
  qed
qed

theorem value_slice_witness:
  "substring_of_value ''abcdef'' (Some (- 4)) (Some (Some 2)) = Slice ''cd''"
  using value_slice [of 2 "- 4" "''abcdef''" 2] by simp

text \<open>An offset and a length whose sum overflows: the end lies before the offset, and the size of the copy is almost
  that of the address space.\<close>

lemma overflowing_length:
  "substring_of_value ''abc'' (Some 1) (Some (Some 0x7FFFFFFFFFFFFFFF)) = Undefined"
  by (simp add: substring_of_value_def verify_substring_values_def substring_def)

text \<open>For the positional parameters the overflow leaves one parameter, where all were asked for.\<close>

lemma overflowing_length_of_params:
  "slice_of_params ''sh'' [''a'', ''b'', ''c''] (Some 1) (Some (Some 0x7FFFFFFFFFFFFFFF)) = Slice [''a'']"
  "slice_of_params ''sh'' [''a'', ''b'', ''c''] (Some 1) (Some (Some 3)) = Slice [''a'', ''b'', ''c'']"
  by (simp_all add: slice_of_params_def verify_substring_values_def pos_params_def offset_limit_def end_limit_def of_elements_def
      of_params_def to_int_def)

end
