(* ===== verification/Unwind_Prot.thy ===== *)
theory Unwind_Prot
  imports Rash_Prelude
begin

text \<open>
  The unwind-protect list (unwind_prot.c): frames, cleanup functions and saved variables, pushed
  while a command runs and run back when it is left by a jump. The list is a list of elements,
  its head the newest; the memory is a map from variables to their bytes. A cleanup function is
  a change of the memory.
\<close>

type_synonym memory = "cstring \<Rightarrow> cstring"

text \<open>An element is a tag (no cleanup function), a saved variable (\<open>restore_variable\<close>), or a
  cleanup function with its argument.\<close>

datatype unwind_elt =
    Tag cstring
  | Saved_var cstring cstring
  | Cleanup "cstring \<Rightarrow> memory \<Rightarrow> memory" cstring

record unwind =
  unwind_protect_list :: "unwind_elt list"
  memory :: memory
  uw_warnings :: "cstring list"

definition add_unwind_protect :: "unwind_elt \<Rightarrow> unwind \<Rightarrow> unwind" where
  "add_unwind_protect e s = s\<lparr>unwind_protect_list := e # unwind_protect_list s\<rparr>"

definition begin_unwind_frame :: "cstring \<Rightarrow> unwind \<Rightarrow> unwind" where
  "begin_unwind_frame tag = add_unwind_protect (Tag tag)"

definition remove_unwind_protect :: "unwind \<Rightarrow> unwind" where
  "remove_unwind_protect s =
     (case unwind_protect_list s of [] \<Rightarrow> s | e # es \<Rightarrow> s\<lparr>unwind_protect_list := es\<rparr>)"

text \<open>\<open>unwind_protect_mem\<close>: the bytes of the variable are copied into the element.\<close>

definition unwind_protect_mem :: "cstring \<Rightarrow> unwind \<Rightarrow> unwind" where
  "unwind_protect_mem v s = add_unwind_protect (Saved_var v (memory s v)) s"

definition restore_variable :: "cstring \<Rightarrow> cstring \<Rightarrow> memory \<Rightarrow> memory" where
  "restore_variable v bytes m = m(v := bytes)"

text \<open>Popping without running, up to and including the tag; whether it was found.\<close>

fun discard_list :: "cstring \<Rightarrow> unwind_elt list \<Rightarrow> bool \<times> unwind_elt list" where
  "discard_list tag [] = (False, [])"
| "discard_list tag (e # es) = (if e = Tag tag then (True, es) else discard_list tag es)"

definition discard_unwind_frame :: "cstring \<Rightarrow> unwind \<Rightarrow> unwind" where
  "discard_unwind_frame tag s =
     (if unwind_protect_list s = [] then s
      else
        (case discard_list tag (unwind_protect_list s) of
           (found, es) \<Rightarrow>
             s\<lparr>unwind_protect_list := es,
               uw_warnings := uw_warnings s @ (if found then [] else [''unwind_frame_discard: '' @ tag])\<rparr>))"

fun run_element :: "unwind_elt \<Rightarrow> memory \<Rightarrow> memory" where
  "run_element (Tag t) m = m"
| "run_element (Saved_var v bytes) m = restore_variable v bytes m"
| "run_element (Cleanup f arg) m = f arg m"

text \<open>Running back; without a tag to the end of the list. A tag met on the way ends nothing.\<close>

fun run_list :: "cstring option \<Rightarrow> unwind_elt list \<Rightarrow> memory \<Rightarrow> bool \<times> unwind_elt list \<times> memory" where
  "run_list tag [] m = (False, [], m)"
| "run_list tag (e # es) m =
     (if (case tag of None \<Rightarrow> False | Some t \<Rightarrow> e = Tag t) then (True, es, m)
      else run_list tag es (run_element e m))"

definition unwind_frame_run_internal :: "cstring option \<Rightarrow> unwind \<Rightarrow> unwind" where
  "unwind_frame_run_internal tag s =
     (case run_list tag (unwind_protect_list s) (memory s) of
        (found, es, m) \<Rightarrow>
          s\<lparr>unwind_protect_list := es, memory := m,
            uw_warnings := uw_warnings s @
              (case tag of None \<Rightarrow> [] | Some t \<Rightarrow> if found then [] else [''unwind_frame_run: '' @ t])\<rparr>)"

definition run_unwind_frame :: "cstring \<Rightarrow> unwind \<Rightarrow> unwind" where
  "run_unwind_frame tag s =
     (if unwind_protect_list s = [] then s else unwind_frame_run_internal (Some tag) s)"

definition run_unwind_protects :: "unwind \<Rightarrow> unwind" where
  "run_unwind_protects s =
     (if unwind_protect_list s = [] then s else unwind_frame_run_internal None s)"

definition clear_unwind_protect_list :: "unwind \<Rightarrow> unwind" where
  "clear_unwind_protect_list s = s\<lparr>unwind_protect_list := []\<rparr>"

definition have_unwind_protects :: "unwind \<Rightarrow> bool" where
  "have_unwind_protects s \<longleftrightarrow> unwind_protect_list s \<noteq> []"

definition unwind_protect_tag_on_stack :: "cstring \<Rightarrow> unwind \<Rightarrow> bool" where
  "unwind_protect_tag_on_stack tag s \<longleftrightarrow> Tag tag \<in> set (unwind_protect_list s)"

section \<open>Frames roll back\<close>

text \<open>What a command does inside its frame: protect a variable, assign one, open an inner frame,
  close the newest inner frame with that tag.\<close>

datatype step = Protect cstring | Assign cstring cstring | Begin_inner cstring | Run_inner cstring | Discard_inner cstring

fun do_step :: "step \<Rightarrow> unwind \<Rightarrow> unwind" where
  "do_step (Protect v) s = unwind_protect_mem v s"
| "do_step (Assign v bytes) s = s\<lparr>memory := (memory s)(v := bytes)\<rparr>"
| "do_step (Begin_inner t) s = begin_unwind_frame t s"
| "do_step (Run_inner t) s = run_unwind_frame t s"
| "do_step (Discard_inner t) s = discard_unwind_frame t s"

text \<open>Leaving the frame would put back \<open>m0\<close>: running the elements above the base gives it.\<close>

definition rolls_back :: "unwind_elt list \<Rightarrow> memory \<Rightarrow> memory \<Rightarrow> bool" where
  "rolls_back es m m0 \<longleftrightarrow> fold run_element es m = m0"

text \<open>A variable is covered when some element above the base saves it.\<close>

definition covered :: "unwind_elt list \<Rightarrow> cstring \<Rightarrow> bool" where
  "covered es v \<longleftrightarrow> (\<exists>bytes. Saved_var v bytes \<in> set es)"

lemma fold_run_covered:
  assumes "covered es v" and "\<forall>e\<in>set es. (\<exists>t. e = Tag t) \<or> (\<exists>v b. e = Saved_var v b)"
  shows "fold run_element es (m(v := x)) = fold run_element es m"
  using assms
proof (induction es arbitrary: m)
  case Nil
  then show ?case by (simp add: covered_def)
next
  case (Cons e es)
  from Cons.prems(2) consider t where "e = Tag t" | w b where "e = Saved_var w b" by auto
  then show ?case
  proof cases
    case 1
    with Cons show ?thesis by (auto simp: covered_def)
  next
    case 2
    show ?thesis
    proof (cases "w = v")
      case True
      have "(m(v := x))(v := b) = m(v := b)" for b by simp
      with 2 True show ?thesis by (simp add: restore_variable_def del: fun_upd_apply)
    next
      case False
      with 2 Cons.prems(1) have "covered es v" by (auto simp: covered_def)
      moreover have "(m(v := x))(w := b) = (m(w := b))(v := x)" for b using False by (simp add: fun_upd_twist)
      ultimately show ?thesis using Cons.IH [of "m(w := b)"] Cons.prems(2) 2 by (simp add: restore_variable_def del: fun_upd_apply)
    qed
  qed
qed

lemma run_list_split:
  "(\<forall>e\<in>set es. e \<noteq> Tag t) \<Longrightarrow> run_list (Some t) (es @ Tag t # base) m = (True, base, fold run_element es m)"
  by (induction es arbitrary: m) auto

lemma discard_list_split:
  "(\<forall>e\<in>set es. e \<noteq> Tag t) \<Longrightarrow> discard_list t (es @ Tag t # base) = (True, base)"
  by (induction es) auto

text \<open>The steps of a straight-line body: only variables protected before are assigned, and no inner
  frame reuses the tag. Inner frames stay open (they are run back with the outer one).\<close>

fun body_ok :: "cstring \<Rightarrow> cstring set \<Rightarrow> step list \<Rightarrow> bool" where
  "body_ok t vs [] \<longleftrightarrow> True"
| "body_ok t vs (Protect v # steps) \<longleftrightarrow> body_ok t (insert v vs) steps"
| "body_ok t vs (Assign v b # steps) \<longleftrightarrow> v \<in> vs \<and> body_ok t vs steps"
| "body_ok t vs (Begin_inner t' # steps) \<longleftrightarrow> t' \<noteq> t \<and> body_ok t vs steps"
| "body_ok t vs (Run_inner t' # steps) \<longleftrightarrow> False"
| "body_ok t vs (Discard_inner t' # steps) \<longleftrightarrow> False"

lemma body_invariant:
  assumes "body_ok t vs steps" and "\<forall>v\<in>vs. covered es v"
    and "\<forall>e\<in>set es. (\<exists>t'. e = Tag t' \<and> t' \<noteq> t) \<or> (\<exists>v b. e = Saved_var v b)"
    and "unwind_protect_list s = es @ Tag t # base" and "rolls_back es (memory s) m0"
  shows "\<exists>es'. unwind_protect_list (fold do_step steps s) = es' @ Tag t # base \<and>
     (\<forall>e\<in>set es'. e \<noteq> Tag t) \<and> rolls_back es' (memory (fold do_step steps s)) m0 \<and>
     uw_warnings (fold do_step steps s) = uw_warnings s"
  using assms
proof (induction steps arbitrary: es s vs)
  case Nil
  then show ?case by auto
next
  case (Cons st steps)
  show ?case
  proof (cases st)
    case (Protect v)
    let ?es = "Saved_var v (memory s v) # es"
    have "rolls_back ?es (memory s) m0"
      using Cons.prems(5) by (simp add: rolls_back_def restore_variable_def)
    with Cons.IH [of "insert v vs" ?es "do_step st s"] Cons.prems Protect show ?thesis
      by (fastforce simp: covered_def unwind_protect_mem_def add_unwind_protect_def)
  next
    case (Assign v b)
    have cov: "covered es v" using Cons.prems(1,2) Assign by simp
    have plain: "\<forall>e\<in>set es. (\<exists>t'. e = Tag t') \<or> (\<exists>v b. e = Saved_var v b)" using Cons.prems(3) by blast
    have "rolls_back es ((memory s)(v := b)) m0"
      using Cons.prems(5) fold_run_covered [OF cov plain, of "memory s" b] by (simp only: rolls_back_def)
    then show ?thesis
      using Cons.IH [of vs es "do_step st s"] Cons.prems(1-4) Assign by (simp del: fun_upd_apply)
  next
    case (Begin_inner t')
    have "rolls_back (Tag t' # es) (memory s) m0" using Cons.prems(5) by (simp add: rolls_back_def)
    with Cons.IH [of vs "Tag t' # es" "do_step st s"] Cons.prems Begin_inner show ?thesis
      by (fastforce simp: covered_def begin_unwind_frame_def add_unwind_protect_def)
  next
    case (Run_inner t')
    with Cons.prems show ?thesis by simp
  next
    case (Discard_inner t')
    with Cons.prems show ?thesis by simp
  qed
qed

text \<open>C31: A frame is a transaction on the variables it protects: open a frame, do anything that
  assigns only to variables protected in it (leaving inner frames open), and run the frame back:
  the memory and the list are exactly as before, and nothing is reported.\<close>

theorem frame_rolls_back:
  assumes "body_ok t {} steps"
  shows "run_unwind_frame t (fold do_step steps (begin_unwind_frame t s)) = s"
proof -
  obtain es' where e: "unwind_protect_list (fold do_step steps (begin_unwind_frame t s)) = es' @ Tag t # unwind_protect_list s"
      "\<forall>e\<in>set es'. e \<noteq> Tag t" "rolls_back es' (memory (fold do_step steps (begin_unwind_frame t s))) (memory s)"
      "uw_warnings (fold do_step steps (begin_unwind_frame t s)) = uw_warnings s"
    using body_invariant [OF assms, of "[]" "begin_unwind_frame t s" "unwind_protect_list s" "memory s"]
    by (auto simp: begin_unwind_frame_def add_unwind_protect_def rolls_back_def)
  then show ?thesis
    using run_list_split [OF e(2)] by (cases s) (simp add: run_unwind_frame_def unwind_frame_run_internal_def rolls_back_def)
qed

text \<open>Discarding a frame keeps the assignments and drops the frame with all that was pushed
  inside it.\<close>

theorem frame_discard_commits:
  assumes "body_ok t {} steps"
  shows "discard_unwind_frame t (fold do_step steps (begin_unwind_frame t s)) =
     (fold do_step steps (begin_unwind_frame t s))\<lparr>unwind_protect_list := unwind_protect_list s\<rparr>"
proof -
  obtain es' where e: "unwind_protect_list (fold do_step steps (begin_unwind_frame t s)) = es' @ Tag t # unwind_protect_list s"
      "\<forall>e\<in>set es'. e \<noteq> Tag t"
    using body_invariant [OF assms, of "[]" "begin_unwind_frame t s" "unwind_protect_list s" "memory s"]
    by (auto simp: begin_unwind_frame_def add_unwind_protect_def rolls_back_def)
  then show ?thesis using discard_list_split [OF e(2)] by (simp add: discard_unwind_frame_def)
qed

text \<open>Running back a frame that was never opened empties the whole list, running every cleanup,
  and is reported.\<close>

theorem run_missing_frame:
  assumes "\<not> unwind_protect_tag_on_stack t s" and "have_unwind_protects s"
  shows "run_unwind_frame t s = (run_unwind_protects s)\<lparr>uw_warnings := uw_warnings s @ [''unwind_frame_run: '' @ t]\<rparr>"
proof -
  have "Tag t \<notin> set es \<Longrightarrow> run_list (Some t) es m = (False, [], fold run_element es m)"
    and "run_list None es m = (False, [], fold run_element es m)" for es m
    by (induction es arbitrary: m) auto
  then show ?thesis using assms
    by (simp add: run_unwind_frame_def run_unwind_protects_def unwind_frame_run_internal_def
        unwind_protect_tag_on_stack_def have_unwind_protects_def)
qed

definition demo_unwind :: unwind where
  "demo_unwind = \<lparr>unwind_protect_list = [Saved_var ''y'' ''1''], memory = (\<lambda>_. ''0''), uw_warnings = []\<rparr>"

definition demo_body :: "step list" where
  "demo_body = [Protect ''x'', Assign ''x'' ''5'', Begin_inner ''loop'', Protect ''x'', Assign ''x'' ''6'']"

theorem frame_rolls_back_witness:
  "run_unwind_frame ''cmd'' (fold do_step demo_body (begin_unwind_frame ''cmd'' demo_unwind)) = demo_unwind"
  by (rule frame_rolls_back) (simp add: demo_body_def)

theorem frame_discard_commits_witness:
  "memory (discard_unwind_frame ''cmd'' (fold do_step demo_body (begin_unwind_frame ''cmd'' demo_unwind))) ''x'' = ''6''"
proof -
  have "body_ok ''cmd'' {} demo_body" by (simp add: demo_body_def)
  from frame_discard_commits [OF this, of demo_unwind] show ?thesis
    by (simp add: demo_body_def demo_unwind_def begin_unwind_frame_def add_unwind_protect_def unwind_protect_mem_def)
qed

theorem run_missing_frame_witness:
  "uw_warnings (run_unwind_frame ''cmd'' demo_unwind) = [''unwind_frame_run: cmd'']"
  using run_missing_frame [of "''cmd''" demo_unwind]
  by (simp add: demo_unwind_def unwind_protect_tag_on_stack_def have_unwind_protects_def)

end
