(* ===== verification/Spec2Isabelle.thy ===== *)
theory Spec2Isabelle
  imports Arith_Eval Assoc Exec_Fuel Exec_Loops Hook_Download Hook_Kept Hook_Load Hook_Undo Pat_Theorems Redir_Commands Sh_Quote Substring_Exp Unwind_Prot
begin

text \<open>
  A model of rash, the Bash fork whose executor calls LuaJIT hooks, and of the parts of Bash that
  its commands rest on. The program is a C shell (sources under src/); the fork's own core is
  src/hooks.c with the places in src/execute_cmd.c and src/redir.c that call it.

  \<^bold>\<open>The program's parts and how they interact.\<close> A parsed command (command.h) is executed by
  execute_cmd.c. On its way it meets the hooks: the parse-stage chain and the rack wrap a whole
  command and may run it, skip it or deny it; the stage hooks are sensors and gates called before
  a simple command, at dispatch, expansion and redirection, before a pipeline, a builtin, a
  function and an exec, and after a command; the download seam takes over \<open>curl ... | bash\<close>; the
  redirect policy sees the files a command would write; the undo store keeps the preimages of
  those files. Hooks are loaded from files whose owner and mode decide whether their refusals are
  enforced. A hook talks to the shell through the \<open>rash\<close> table. Below that are the shell's own
  evaluator of arithmetic and its data structures: hash tables, indexed and associative arrays, quoting, and the unwind-protect
  list that undoes temporary state when a command is left by a jump. The pattern matcher of
  lib/glob serves \<open>case\<close>, \<open>[[ ]]\<close> and the parameter expansions \<open>${x#p}\<close> and \<open>${x/p/r}\<close> of subst.c.

  \<^bold>\<open>Theories and sources.\<close>

  \<^item> \<open>Rash_Prelude\<close>: lists, decimal text, C integers; the interfaces \<open>string_map\<close> (a table of
    strings) and \<open>indexed_store\<close> (an array, addressed by a key), with the lemmas their clients use.
  \<^item> \<open>Shell_Types\<close>: commands, words and redirections (command.h, make_cmd.c).
  \<^item> \<open>Hook_Api\<close>: what a callback may do (hooks.c: \<open>rash_lua_deny\<close>, \<open>rash_lua_warn\<close>,
    \<open>rash_lua_exec_with_stdin\<close>, \<open>rash_lua_pcall\<close>). A callback is a tree of calls.
  \<^item> \<open>Hook_Lifecycle\<close>: \<open>rash_hooks_execute\<close> with its \<open>run\<close> closure and \<open>rash_rack_execute\<close> with its
    \<open>next\<close> closure (hooks.c). The executor is a parameter. In it a hook calls only its own closure;
    \<open>Hook_Kept\<close> is the chain with closures that scripts keep and any later script may call, which agrees
    with it on such hooks.
  \<^item> \<open>Hook_Redirect\<close>: the targets a policy hook is shown and those that are opened (hooks.c).
  \<^item> \<open>Hook_Stages\<close>: every stage hook of hooks.c and the seams of execute_cmd.c and redir.c that call
    them. The interface \<open>deny_gate\<close> is what the executor relies on; each gate is an
    interpretation of it.
  \<^item> \<open>C_Numbers\<close>, \<open>Hook_Download\<close>: strtol and its relatives; the download-to-shell seam (hooks.c).
  \<^item> \<open>Hook_Load\<close>: registration, trust, manifest, reload (hooks.c).
  \<^item> \<open>Hook_Undo\<close>: snapshot and undo over a file system in which any system call may fail (hooks.c).
  \<^item> \<open>Hashlib\<close> (hashlib.c, hashlib.h), \<open>Arrays\<close> (array.c, array.h), \<open>Assoc\<close> (assoc.c, assoc.h),
    \<open>Unwind_Prot\<close> (unwind_prot.c), \<open>Sh_Quote\<close> (lib/sh/shquote.c, lib/sh/strtrans.c).
  \<^item> \<open>Arith_Expr\<close>: the evaluator of \<open>$((...))\<close> (expr.c), function by function, over one record for the
    file's static variables; \<open>Arith_Safe\<close>: what an evaluation can change (the interface
    \<open>shell_change\<close>); \<open>Arith_Sem\<close>: expression trees, their meaning and their text; \<open>Arith_Correct\<close> and
    \<open>Arith_Eval\<close>: the evaluator computes the meaning (the interface \<open>reads_values\<close> is what the
    recursion through a variable's value has to do).
  \<^item> \<open>Exec_Control\<close>: the executor (execute_cmd.c) with \<open>break\<close>, \<open>continue\<close> (builtins/break.def) and
    \<open>return\<close> (builtins/return.def): \<open>execute_command_internal\<close> and the function of every kind of
    command, over the counters, the status and the jumps; \<open>Exec_Structured\<close>: the same language with
    \<open>break\<close> and \<open>continue\<close> as outcomes instead of counters (the interface \<open>implemented\<close> is what a
    construct needs of the commands in it); \<open>Exec_Errexit\<close>: \<open>set -e\<close>; \<open>Exec_Loops\<close>: the level of the
    loops; \<open>Exec_Fuel\<close>: the bound of the model.
  \<^item> \<open>Redir\<close>: redirections (redir.c) over a table of descriptors, with the lists that undo them;
    \<open>Redir_Undo\<close>: what running such a list does; \<open>Redir_Commands\<close>: the commands around redirections
    (execute_cmd.c; the interface \<open>bracket\<close> is the contract between making and undoing).
  \<^item> \<open>Glob_Bracket\<close>, \<open>Glob_Match\<close>: the pattern matcher (lib/glob/sm_loop.c, lib/glob/smatch.c): bracket expressions;
    stars and the extended patterns. \<open>Glob_Sem\<close>: the relation that tries every length for every star;
    \<open>Glob_Correct\<close>: the matcher decides it; \<open>Glob_Patterns\<close>: patterns as trees, their meaning and their text;
    \<open>Glob_Theorems\<close>: the results, and inputs on which the matcher surprises.
  \<^item> \<open>Pat_Subst\<close>, \<open>Pat_Replace\<close>: removal and substitution by patterns (subst.c, stringlib.c) with the tests that spare
    calls of the matcher (lib/glob/gm_loop.c). \<open>Pat_Correct\<close>, \<open>Pat_Search\<close>, \<open>Pat_Tests\<close>: removal, the search given
    sound tests, and that the tests are sound on the text of a pattern tree; \<open>Pat_Theorems\<close>: the results.
  \<^item> \<open>Substring_Exp\<close>: \<open>${x:offset:length}\<close> (subst.c) in 64-bit arithmetic.

  \<^bold>\<open>What the theorems show.\<close> For the hooks: whatever the callbacks do, and whoever calls
  the closures they keep, the execution ends and the command runs at most once; afterwards its closures are dead; the refusal of an enforcing hook is final at every stage (also when the hook fails), failing
  advisory hooks change nothing, a file that is opened is one the policy saw, an oversize or failed
  download never reaches a shell, a download ends in the status of the installer that a hook of this run ran or in a
  failure, only trusted files enforce, a failed reload keeps the observers,
  and undo puts back what a snapshot saved whose meta file was written. For the containers: each operation of the C data
  structure answers as a finite map and keeps the structure's invariant, for any sequence of
  operations. For arithmetic: an evaluation always ends; it computes the value of the expression tree
  with the precedence and associativity of C in 64-bit arithmetic, with the tree's assignments in
  the tree's order; what is skipped by \<open>&&\<close>, \<open>||\<close> and \<open>?:\<close> has no effect; readonly variables keep
  their values. For the executor: the counters \<open>breaking\<close> and \<open>continuing\<close> do what structured \<open>break\<close> and
  \<open>continue\<close> mean; a command that finishes leaves the loops' level as it was and asks to leave no loop
  that is not around it, but for \<open>select\<close> over no words; a command whose status is tested never ends the
  shell by \<open>set -e\<close>, through any depth of functions. For redirections: undoing them gives the descriptors named in the undo list, which
  are all that were changed, what they had before, and leaves every other one as the command left it, after success and after
  failure, whatever the command did with the descriptors meanwhile; the two shapes of redirection that the code does not undo are
  excepted by name. For patterns: the matcher returns and decides the relation that tries every length
  for every star, although it never goes back behind the last one; on the text of a pattern tree it
  decides the tree's meaning; on such patterns (literal characters, \<open>?\<close>, \<open>*\<close>, bracket
  expressions of quoted characters, no extended forms) removal takes off the longest or shortest part that matches, and, in locales
  other than UTF-8, the search of a substitution finds the leftmost and longest match in spite of its short cuts, with one shape of
  pattern excepted, and replacing every match by itself changes nothing. A slice is the part of the value
  between its two positions as long as offset and length do not overflow. For quoting: what is quoted reads back as the same string. For the unwind-protect
  list: running a frame restores the memory and the list to what they were at its start.

  \<^bold>\<open>Bounds.\<close> Machine integers are words where the code relies on their width (hash values,
  reason lengths, the limits read from the environment) and integers where the code's own bounds
  keep them small. Recursions are structural or have a measure; following links stops at 40 as the
  kernel does. The parser of expressions has the length of the text plus two as fuel for each
  expression and the shell's own limit of 1024 for expressions within variables; it is proved that
  neither bound of the model is reached, only the shell's error for too deep a recursion. The
  executor has a bound on the nesting of commands and on the rounds of each loop; a run that ends
  within it is the same within any larger one. The chain with kept closures has fuel for nested
  invocations; \<open>2 ^ (n + 1)\<close> for \<open>n\<close> hooks is proved to be enough. Descriptors have the process's limit; the theorems on
  redirections ask for three free numbers from 10 on for each redirection, which is the most that one
  can take.

  \<^bold>\<open>Not modelled.\<close> In arithmetic: array subscripts are parameters; name references, dynamic
  variables, the special variables whose assignment has effects of its own, and locales with other
  letters. LuaJIT and the system calls are parameters. In the executor: what runs in a child
  process (subshells, pipelines, coprocesses, asynchronous commands, programs), word expansion,
  redirections (modelled by themselves), the builtins other than \<open>break\<close>, \<open>continue\<close> and \<open>return\<close> and the traps are parameters;
  POSIX mode, the debugger, job control in a command's name, \<open>autocd\<close> and PIPESTATUS are left out. In redirections:
  files with special names, the storage of here-documents and the variable of \<open>{var}\<close> are
  parameters; POSIX mode, the buffers of stdio and of the shell's input, and the bookkeeping of
  coprocesses and of the trace descriptor are left out. In pattern matching: wide characters, interrupts
  and the generation of file names (lib/glob/glob.c); what the locale says of a character is a parameter.
  In the expansions with patterns: expanding the pattern, the replacement and the offsets, the quoting
  of the result, and the joining of lists. The
  generated parser, the rest of word expansion, jobs and signals, line editing, builtins and the support libraries (readline,
  intl, termcap, malloc) are left out: they are generated, vendored, or mostly input and output.
  Memory is not modelled: allocation succeeds and freeing has no effect; in particular the context that a
  kept closure points to is taken to be still there. The Lua state that hook files share is a parameter of each
  file, and compatibility levels of the shell up to 43 are left out.
\<close>

end
